(* ===== verification/Flora_Prelude.thy ===== *)
theory Flora_Prelude
  imports "HOL-Library.Word"
begin

unbundle bit_operations_syntax

text \<open>
  Shared vocabulary of the development: results with an error branch, JavaScript strings as
  lists of UTF-16 code units, byte arrays, parsed JSON values, decimal digits, and the
  prefix-decodability interface that every byte codec of the client is an instance of.
\<close>

section \<open>Results: a value or the error the code throws\<close>

named_theorems result_iff \<open>when a computation of the error monad returns a value\<close>

fun bindE :: "'e + 'a \<Rightarrow> ('a \<Rightarrow> 'e + 'b) \<Rightarrow> 'e + 'b" where
  "bindE (Inl e) f = Inl e"
| "bindE (Inr x) f = f x"

definition guardE :: "bool \<Rightarrow> 'e \<Rightarrow> 'e + unit" where
  "guardE b e = (if b then Inr () else Inl e)"

primrec mapE :: "('a \<Rightarrow> 'e + 'b) \<Rightarrow> 'a list \<Rightarrow> 'e + 'b list" where
  "mapE f [] = Inr []"
| "mapE f (x # xs) = bindE (f x) (\<lambda>y. bindE (mapE f xs) (\<lambda>ys. Inr (y # ys)))"

text \<open>The state-and-error composition of a chain of calls \<open>w.a().b()\<close> that may throw.\<close>

primrec foldE :: "('a \<Rightarrow> 's \<Rightarrow> 'e + 's) \<Rightarrow> 'a list \<Rightarrow> 's \<Rightarrow> 'e + 's" where
  "foldE f [] s = Inr s"
| "foldE f (x # xs) s = bindE (f x s) (foldE f xs)"

text \<open>
  A fluent chain \<open>w.a(x).b(f(y))\<close>: every call gets the object the previous one returned, and the
  argument of a call is evaluated (\<open>argE\<close>) only after the calls before it. \<open>concatE\<close> is the pure
  counterpart: the pieces in order, or the first error.
\<close>

definition chainE :: "('s \<Rightarrow> 'e + 's) list \<Rightarrow> 's \<Rightarrow> 'e + 's" where
  "chainE ops = foldE (\<lambda>op. op) ops"

definition argE :: "'e + 'a \<Rightarrow> ('a \<Rightarrow> 's \<Rightarrow> 'e + 's) \<Rightarrow> 's \<Rightarrow> 'e + 's" where
  "argE m f s = bindE m (\<lambda>x. f x s)"

primrec concatE :: "('e + 'a list) list \<Rightarrow> 'e + 'a list" where
  "concatE [] = Inr []"
| "concatE (r # rs) = bindE r (\<lambda>a. bindE (concatE rs) (\<lambda>b. Inr (a @ b)))"

definition optE :: "'e \<Rightarrow> 'a option \<Rightarrow> 'e + 'a" where
  "optE e m = (case m of None \<Rightarrow> Inl e | Some x \<Rightarrow> Inr x)"

lemma bindE_Inr_iff [result_iff]: "bindE m f = Inr y \<longleftrightarrow> (\<exists>x. m = Inr x \<and> f x = Inr y)"
  by (cases m) auto

lemma guardE_Inr_iff [result_iff]: "guardE b e = Inr u \<longleftrightarrow> b"
  by (simp add: guardE_def)

lemma if_Inr_iff [result_iff]:
  "(if b then Inl e else m) = Inr y \<longleftrightarrow> \<not> b \<and> m = Inr y"
  by simp

lemma guardE_True [simp]: "guardE True e = Inr ()"
  by (simp add: guardE_def)

lemma guardE_False [simp]: "guardE False e = Inl e"
  by (simp add: guardE_def)

lemma optE_Inr_iff [result_iff]: "optE e m = Inr x \<longleftrightarrow> m = Some x"
  by (simp add: optE_def split: option.splits)

lemma optE_Some [simp]: "optE e (Some x) = Inr x"
  by (simp add: optE_def)

lemma concatE_Cons_Inr_iff [result_iff]:
  "concatE (r # rs) = Inr c \<longleftrightarrow> (\<exists>a b. r = Inr a \<and> concatE rs = Inr b \<and> c = a @ b)"
  by (auto simp: bindE_Inr_iff)

lemma concatE_Nil_Inr_iff [result_iff]: "concatE [] = Inr c \<longleftrightarrow> c = []"
  by auto

declare concatE.simps(2) [simp del]

lemma chainE_Nil [simp]: "chainE [] s = Inr s"
  by (simp add: chainE_def)

lemma chainE_Cons [simp]: "chainE (op # ops) s = bindE (op s) (chainE ops)"
  by (simp add: chainE_def)

lemma bindE_Inr_right [simp]: "bindE m Inr = m"
  by (cases m) auto

lemma bindE_chainE_Nil [simp]: "bindE m (chainE []) = m"
  by (cases m) auto

lemma bindE_assoc: "bindE (bindE m f) g = bindE m (\<lambda>x. bindE (f x) g)"
  by (cases m) auto

lemma foldE_map_at: "foldE (\<lambda>op. op) (map f xs) s = foldE f xs s"
proof (induction xs arbitrary: s)
  case (Cons x xs)
  then have "foldE (\<lambda>op. op) (map f xs) = foldE f xs" by (intro ext)
  then show ?case by simp
qed simp

lemma foldE_map: "foldE (\<lambda>op. op) (map f xs) = foldE f xs"
  by (rule ext, rule foldE_map_at)

lemma mapE_Inr_length: "mapE f xs = Inr ys \<Longrightarrow> length ys = length xs"
  by (induction xs arbitrary: ys) (auto simp: result_iff)

lemma mapE_Inr_nth: "mapE f xs = Inr ys \<Longrightarrow> i < length xs \<Longrightarrow> f (xs ! i) = Inr (ys ! i)"
  by (induction xs arbitrary: ys i) (auto simp: result_iff nth_Cons split: nat.splits)

lemma mapE_all_Inr: "(\<And>x. x \<in> set xs \<Longrightarrow> f x = Inr (g x)) \<Longrightarrow> mapE f xs = Inr (map g xs)"
  by (induction xs) auto

section \<open>Strings, bytes and numbers of the language\<close>

type_synonym byte = "8 word"
type_synonym bytes = "byte list"

text \<open>A JavaScript string is the list of its UTF-16 code units; \<open>js\<close> spells an ASCII literal.\<close>

type_synonym js_string = "nat list"

abbreviation js :: "string \<Rightarrow> js_string" where
  "js s \<equiv> map of_char s"

text \<open>An optional string in a condition: \<open>null\<close>, \<open>undefined\<close> and the empty string count as false.\<close>

definition truthy :: "js_string option \<Rightarrow> bool" where
  "truthy x \<longleftrightarrow> x \<noteq> None \<and> x \<noteq> Some []"

definition max_safe_int :: int where
  "max_safe_int = 2 ^ 53 - 1"

definition isSafeInteger :: "int \<Rightarrow> bool" where
  "isSafeInteger n \<longleftrightarrow> - max_safe_int \<le> n \<and> n \<le> max_safe_int"

text \<open>\<open>String.prototype.toLowerCase\<close> on the ASCII letters; other code units are kept.\<close>

definition lower_unit :: "nat \<Rightarrow> nat" where
  "lower_unit c = (if 65 \<le> c \<and> c \<le> 90 then c + 32 else c)"

definition toLowerCase :: "js_string \<Rightarrow> js_string" where
  "toLowerCase s = map lower_unit s"

lemma toLowerCase_idem [simp]: "toLowerCase (toLowerCase s) = toLowerCase s"
  by (simp add: toLowerCase_def lower_unit_def)

lemma length_toLowerCase [simp]: "length (toLowerCase s) = length s"
  by (simp add: toLowerCase_def)

text \<open>\<open>TextEncoder.encode\<close>: surrogate pairs are joined, a lone surrogate becomes U+FFFD.\<close>

definition high_surrogate :: "nat \<Rightarrow> bool" where
  "high_surrogate c \<longleftrightarrow> 0xD800 \<le> c \<and> c < 0xDC00"

definition low_surrogate :: "nat \<Rightarrow> bool" where
  "low_surrogate c \<longleftrightarrow> 0xDC00 \<le> c \<and> c < 0xE000"

fun scalar_values :: "js_string \<Rightarrow> nat list" where
  "scalar_values [] = []"
| "scalar_values [c] = [if high_surrogate c \<or> low_surrogate c then 0xFFFD else c]"
| "scalar_values (c # d # r) =
     (if high_surrogate c \<and> low_surrogate d
      then (0x10000 + (c - 0xD800) * 0x400 + (d - 0xDC00)) # scalar_values r
      else (if high_surrogate c \<or> low_surrogate c then 0xFFFD else c) # scalar_values (d # r))"

definition utf8_scalar :: "nat \<Rightarrow> bytes" where
  "utf8_scalar c =
     (if c < 0x80 then [of_nat c]
      else if c < 0x800 then [of_nat (0xC0 + c div 64), of_nat (0x80 + c mod 64)]
      else if c < 0x10000
        then [of_nat (0xE0 + c div 4096), of_nat (0x80 + c div 64 mod 64), of_nat (0x80 + c mod 64)]
      else [of_nat (0xF0 + c div 262144), of_nat (0x80 + c div 4096 mod 64),
            of_nat (0x80 + c div 64 mod 64), of_nat (0x80 + c mod 64)])"

definition utf8_encode :: "js_string \<Rightarrow> bytes" where
  "utf8_encode s = concat (map utf8_scalar (scalar_values s))"

subsection \<open>Decimal digits\<close>

fun dec_digits :: "nat \<Rightarrow> js_string" where
  "dec_digits n = (if n < 10 then [48 + n] else dec_digits (n div 10) @ [48 + n mod 10])"

declare dec_digits.simps [simp del]

definition dec_value :: "js_string \<Rightarrow> nat" where
  "dec_value s = foldl (\<lambda>acc c. acc * 10 + (c - 48)) 0 s"

definition is_digit_unit :: "nat \<Rightarrow> bool" where
  "is_digit_unit c \<longleftrightarrow> 48 \<le> c \<and> c \<le> 57"

definition padStart0 :: "nat \<Rightarrow> js_string \<Rightarrow> js_string" where
  "padStart0 n s = replicate (n - length s) 48 @ s"

lemma dec_value_append_digit:
  "dec_value (s @ [c]) = dec_value s * 10 + (c - 48)"
  by (simp add: dec_value_def)

lemma dec_value_dec_digits [simp]: "dec_value (dec_digits n) = n"
proof (induction n rule: dec_digits.induct)
  case (1 n)
  show ?case
  proof (cases "n < 10")
    case True
    then show ?thesis by (simp add: dec_digits.simps [of n] dec_value_def)
  next
    case False
    with 1 have "dec_value (dec_digits (n div 10)) = n div 10" by simp
    with False show ?thesis
      by (simp add: dec_digits.simps [of n] dec_value_append_digit)
  qed
qed

lemma dec_digits_are_digits: "c \<in> set (dec_digits n) \<Longrightarrow> is_digit_unit c"
proof (induction n rule: dec_digits.induct)
  case (1 n)
  show ?case
  proof (cases "n < 10")
    case True
    with "1.prems" show ?thesis by (auto simp: dec_digits.simps [of n] is_digit_unit_def)
  next
    case False
    then have "n mod 10 < 10" by simp
    with False "1.prems" "1.IH" show ?thesis
      by (auto simp: dec_digits.simps [of n] is_digit_unit_def)
  qed
qed

lemma dec_digits_nonempty [simp]: "dec_digits n \<noteq> []"
  by (subst dec_digits.simps) simp

lemma length_dec_digits_le: "0 < k \<Longrightarrow> n < 10 ^ k \<Longrightarrow> length (dec_digits n) \<le> k"
proof (induction n arbitrary: k rule: dec_digits.induct)
  case (1 n)
  show ?case
  proof (cases "n < 10")
    case True
    with "1.prems" show ?thesis by (simp add: dec_digits.simps [of n])
  next
    case False
    obtain j where j: "k = Suc j" using "1.prems" by (cases k) auto
    with "1.prems" False have "0 < j" by (cases j) auto
    moreover have "n div 10 < 10 ^ j" using "1.prems" j by (simp add: less_mult_imp_div_less mult.commute)
    ultimately have "length (dec_digits (n div 10)) \<le> j" using False "1.IH" by blast
    with False j show ?thesis by (simp add: dec_digits.simps [of n])
  qed
qed

lemma dec_value_zeros [simp]: "dec_value (replicate k 48 @ s) = dec_value s"
  by (induction k) (auto simp: dec_value_def)

lemma length_padStart0: "length s \<le> n \<Longrightarrow> length (padStart0 n s) = n"
  by (simp add: padStart0_def)

lemma dec_value_padStart0 [simp]: "dec_value (padStart0 n s) = dec_value s"
  by (simp add: padStart0_def)

lemma set_padStart0: "set (padStart0 n s) \<subseteq> insert 48 (set s)"
  by (auto simp: padStart0_def)

subsection \<open>Fixed-width integers as bytes\<close>

text \<open>The low \<open>n\<close> bytes of an integer, most significant first and least significant first.\<close>

fun be_bytes :: "nat \<Rightarrow> int \<Rightarrow> bytes" where
  "be_bytes 0 v = []"
| "be_bytes (Suc n) v = word_of_int (drop_bit (8 * n) v) # be_bytes n v"

fun le_bytes :: "nat \<Rightarrow> int \<Rightarrow> bytes" where
  "le_bytes 0 v = []"
| "le_bytes (Suc n) v = word_of_int v # le_bytes n (drop_bit 8 v)"

fun be_value :: "bytes \<Rightarrow> int" where
  "be_value [] = 0"
| "be_value (b # bs) = uint b * 256 ^ length bs + be_value bs"

fun le_value :: "bytes \<Rightarrow> int" where
  "le_value [] = 0"
| "le_value (b # bs) = uint b + 256 * le_value bs"

lemma length_be_bytes [simp]: "length (be_bytes n v) = n"
  by (induction n arbitrary: v) auto

lemma length_le_bytes [simp]: "length (le_bytes n v) = n"
  by (induction n arbitrary: v) auto

lemma uint_byte_of_int [simp]: "uint (word_of_int v :: byte) = v mod 256"
  by (simp add: uint_word_of_int)

lemma pow_256: "(256 :: int) ^ n = 2 ^ (8 * n)"
  by (simp add: power_mult)

lemma be_value_be_bytes: "be_value (be_bytes n v) = v mod 256 ^ n"
proof (induction n)
  case (Suc n)
  have "v mod (256 ^ n * 256) = 256 ^ n * (v div 256 ^ n mod 256) + v mod 256 ^ n"
    by (rule zmod_zmult2_eq) simp
  with Suc show ?case by (simp add: drop_bit_eq_div pow_256 algebra_simps)
qed simp

lemma le_value_le_bytes: "le_value (le_bytes n v) = v mod 256 ^ n"
proof (induction n arbitrary: v)
  case (Suc n)
  have "v mod (256 * 256 ^ n) = 256 * (v div 256 mod 256 ^ n) + v mod 256"
    by (rule zmod_zmult2_eq) simp
  with Suc show ?case by (simp add: drop_bit_eq_div)
qed simp

lemma be_bytes_eq_iff: "be_bytes n v = be_bytes n w \<longleftrightarrow> v mod 256 ^ n = w mod 256 ^ n"
proof
  assume "be_bytes n v = be_bytes n w"
  then show "v mod 256 ^ n = w mod 256 ^ n" by (metis be_value_be_bytes)
next
  show "v mod 256 ^ n = w mod 256 ^ n \<Longrightarrow> be_bytes n v = be_bytes n w"
  proof (induction n)
    case (Suc n)
    have low: "v mod 256 ^ n = w mod 256 ^ n"
      using Suc.prems by (metis dvd_triv_right mod_mod_cancel power_Suc)
    have split: "x mod 256 ^ Suc n = 256 ^ n * (x div 256 ^ n mod 256) + x mod 256 ^ n" for x :: int
      using zmod_zmult2_eq [of 256 x "256 ^ n"] by (simp add: mult.commute)
    have "v div 256 ^ n mod 256 = w div 256 ^ n mod 256"
      using Suc.prems low split [of v] split [of w] by simp
    with low show ?case
      using Suc.IH by (simp add: drop_bit_eq_div pow_256 [symmetric] word_uint_eq_iff)
  qed simp
qed

subsection \<open>Typed arrays\<close>

text \<open>\<open>target.set(source, offset)\<close>: a \<open>RangeError\<close> (\<open>None\<close>) when the source does not fit.\<close>

definition array_set :: "'a list \<Rightarrow> 'a list \<Rightarrow> nat \<Rightarrow> 'a list option" where
  "array_set target source offset =
     (if offset + length source > length target then None
      else Some (take offset target @ source @ drop (offset + length source) target))"

lemma array_set_append:
  "length t = n \<Longrightarrow> length src \<le> length r \<Longrightarrow>
   array_set (t @ r) src n = Some ((t @ src) @ drop (length src) r)"
  by (simp add: array_set_def)

section \<open>JSON values\<close>

text \<open>
  What \<open>JSON.parse\<close> returns. A number is an integer or, for every non-integer double, the
  single value \<open>JFrac\<close>: no modelled code looks into such a number, it only rejects it.
\<close>

datatype json =
    JNull
  | JBool bool
  | JInt int
  | JFrac
  | JStr js_string
  | JArr "json list"
  | JObj "(js_string \<times> json) list"

section \<open>Prefix-decodable encodings\<close>

text \<open>
  The contract between a byte encoder and the consumers of its output: encoded values can be
  concatenated and still be told apart. \<open>ok\<close> is the set of values the encoder accepts.
\<close>

locale prefix_code =
  fixes enc :: "'a \<Rightarrow> 'b list"
    and ok :: "'a \<Rightarrow> bool"
  assumes enc_split: "ok x \<Longrightarrow> ok y \<Longrightarrow> enc x @ r = enc y @ s \<Longrightarrow> x = y \<and> r = s"
begin

lemma enc_inj: "ok x \<Longrightarrow> ok y \<Longrightarrow> enc x = enc y \<Longrightarrow> x = y"
  using enc_split [of x y "[]" "[]"] by simp

lemma enc_append_iff: "ok x \<Longrightarrow> ok y \<Longrightarrow> enc x @ r = enc y @ s \<longleftrightarrow> x = y \<and> r = s"
  using enc_split by blast

lemma concat_enc_inj:
  "(\<And>x. x \<in> set xs \<Longrightarrow> ok x) \<Longrightarrow> (\<And>y. y \<in> set ys \<Longrightarrow> ok y) \<Longrightarrow> length xs = length ys \<Longrightarrow>
   concat (map enc xs) @ r = concat (map enc ys) @ s \<Longrightarrow> xs = ys \<and> r = s"
proof (induction xs arbitrary: ys)
  case Nil
  then show ?case by simp
next
  case (Cons x xs)
  then obtain y ys' where ys: "ys = y # ys'" by (cases ys) auto
  with Cons.prems have "enc x @ (concat (map enc xs) @ r) = enc y @ (concat (map enc ys') @ s)"
    by simp
  then have "x = y" "concat (map enc xs) @ r = concat (map enc ys') @ s"
    using enc_split [of x y] Cons.prems ys by auto
  with Cons.IH [of ys'] Cons.prems ys show ?case by auto
qed

lemma concat_enc_terminated:
  "(\<And>x. x \<in> set xs \<Longrightarrow> ok x) \<Longrightarrow> (\<And>y. y \<in> set ys \<Longrightarrow> ok y) \<Longrightarrow> (\<And>x. ok x \<Longrightarrow> enc x \<noteq> [] \<and> hd (enc x) \<noteq> z) \<Longrightarrow>
   concat (map enc xs) @ z # r = concat (map enc ys) @ z # s \<Longrightarrow> xs = ys \<and> r = s"
proof (induction xs arbitrary: ys)
  case Nil
  show ?case
  proof (cases ys)
    case (Cons y ys')
    with Nil.prems(2,3) have "enc y \<noteq> []" "hd (enc y) \<noteq> z" by auto
    with Nil.prems(4) Cons show ?thesis by (cases "enc y") auto
  qed (use Nil.prems in simp)
next
  case (Cons x xs)
  then have x: "enc x \<noteq> []" "hd (enc x) \<noteq> z" by auto
  show ?case
  proof (cases ys)
    case Nil
    with Cons.prems(4) x show ?thesis by (cases "enc x") auto
  next
    case (Cons y ys')
    with Cons.prems have "x = y" "concat (map enc xs) @ z # r = concat (map enc ys') @ z # s"
      using enc_split [of x y] by auto
    with Cons.IH [of ys'] Cons.prems Cons show ?thesis by auto
  qed
qed

lemma concat_enc_inj_nonempty:
  "(\<And>x. x \<in> set xs \<Longrightarrow> ok x) \<Longrightarrow> (\<And>y. y \<in> set ys \<Longrightarrow> ok y) \<Longrightarrow> (\<And>x. enc x \<noteq> []) \<Longrightarrow>
   concat (map enc xs) = concat (map enc ys) \<Longrightarrow> xs = ys"
proof (induction xs arbitrary: ys)
  case Nil
  then show ?case by (cases ys) auto
next
  case (Cons x xs)
  then obtain y ys' where ys: "ys = y # ys'" by (cases ys) auto
  with Cons.prems have "x = y" "concat (map enc xs) = concat (map enc ys')"
    using enc_split [of x y] by auto
  with Cons.IH [of ys'] Cons.prems ys show ?case by auto
qed

end

text \<open>
  The contract of an output buffer: \<open>emit\<close> appends to what the buffer holds. An operation of the
  client \<open>writes\<close> a result when it throws that error, or appends those bytes, on every buffer.
\<close>

locale byte_sink =
  fixes inv :: "'s \<Rightarrow> bool"
    and contents :: "'s \<Rightarrow> 'b list"
    and emit :: "'b list \<Rightarrow> 's \<Rightarrow> 's"
  assumes emit_inv: "inv s \<Longrightarrow> inv (emit bs s)"
    and emit_contents: "inv s \<Longrightarrow> contents (emit bs s) = contents s @ bs"
begin

definition writes :: "('s \<Rightarrow> 'e + 's) \<Rightarrow> 'e + 'b list \<Rightarrow> bool" where
  "writes op r \<longleftrightarrow>
     (\<forall>s. inv s \<longrightarrow>
        (case r of Inl e \<Rightarrow> op s = Inl e
         | Inr bs \<Rightarrow> \<exists>s'. op s = Inr s' \<and> inv s' \<and> contents s' = contents s @ bs))"

lemma writes_Inl: "writes op (Inl e) \<Longrightarrow> inv s \<Longrightarrow> op s = Inl e"
  by (simp add: writes_def)

lemma writes_Inr:
  "writes op (Inr bs) \<Longrightarrow> inv s \<Longrightarrow> \<exists>s'. op s = Inr s' \<and> inv s' \<and> contents s' = contents s @ bs"
  by (simp add: writes_def)

lemma writes_emit: "writes (\<lambda>s. Inr (emit bs s)) (Inr bs)"
  by (simp add: writes_def emit_inv emit_contents)

lemma writes_throw: "writes (\<lambda>s. Inl e) (Inl e)"
  by (simp add: writes_def)

lemma writes_if:
  "(c \<Longrightarrow> writes f r) \<Longrightarrow> (\<not> c \<Longrightarrow> writes g q) \<Longrightarrow>
   writes (\<lambda>s. if c then f s else g s) (if c then r else q)"
  by simp

lemma writes_Nil: "writes (chainE []) (concatE [])"
  by (simp add: writes_def)

lemma writes_Cons:
  assumes "writes op r" and "writes (chainE ops) (concatE rs)"
  shows "writes (chainE (op # ops)) (concatE (r # rs))"
proof (cases r)
  case (Inl e)
  with assms(1) show ?thesis by (auto simp: writes_def concatE.simps)
next
  case (Inr a)
  show ?thesis
  proof (cases "concatE rs")
    case (Inl e)
    with assms Inr show ?thesis
      by (fastforce simp: writes_def concatE.simps)
  next
    case (Inr b)
    with assms \<open>r = Inr a\<close> show ?thesis
      by (fastforce simp: writes_def concatE.simps)
  qed
qed

lemma writes_arg: "(\<And>x. m = Inr x \<Longrightarrow> writes (f x) (g x)) \<Longrightarrow> writes (argE m f) (bindE m g)"
proof (cases m)
  case (Inr x)
  moreover have "argE (Inr x) f = f x" by (rule ext) (simp add: argE_def)
  moreover assume "\<And>x. m = Inr x \<Longrightarrow> writes (f x) (g x)"
  ultimately show ?thesis by simp
qed (simp add: writes_def argE_def)

lemma writes_bind:
  "(\<And>x. m = Inr x \<Longrightarrow> writes (f x) (g x)) \<Longrightarrow> writes (\<lambda>s. bindE m (\<lambda>x. f x s)) (bindE m g)"
  using writes_arg unfolding argE_def [abs_def] .

lemma writes_then:
  assumes "writes f r" and "writes g q"
  shows "writes (\<lambda>s. bindE (f s) g) (concatE [r, q])"
proof -
  have "chainE [f, g] = (\<lambda>s. bindE (f s) g)"
  proof (rule ext)
    show "chainE [f, g] s = bindE (f s) g" for s
      by (cases "f s") (simp_all add: chainE_Cons bindE_Inr_right)
  qed
  moreover have "writes (chainE [f, g]) (concatE [r, q])"
    using assms by (intro writes_Cons writes_Nil)
  ultimately show ?thesis by simp
qed

lemma writes_loop:
  "(\<And>x. writes (f x) (g x)) \<Longrightarrow> writes (foldE f xs) (concatE (map g xs))"
proof (induction xs)
  case Nil
  then show ?case by (simp add: writes_def)
next
  case (Cons x xs)
  have "writes (chainE (map f xs)) (concatE (map g xs))"
    using Cons by (simp add: chainE_def foldE_map)
  then have "writes (chainE (map f (x # xs))) (concatE (map g (x # xs)))"
    unfolding list.map by (rule writes_Cons [OF Cons.prems])
  then show ?case by (simp only: chainE_def foldE_map)
qed

end

section \<open>UTF-8 is prefix-decodable\<close>

text \<open>The scalar value a UTF-8 sequence starts with.\<close>

fun utf8_first :: "nat list \<Rightarrow> nat" where
  "utf8_first (a # r) =
     (if a < 0x80 then a
      else if a < 0xE0 then (a - 0xC0) * 64 + (r ! 0 - 0x80)
      else if a < 0xF0 then ((a - 0xE0) * 64 + (r ! 0 - 0x80)) * 64 + (r ! 1 - 0x80)
      else (((a - 0xF0) * 64 + (r ! 0 - 0x80)) * 64 + (r ! 1 - 0x80)) * 64 + (r ! 2 - 0x80))"
| "utf8_first [] = 0"

definition byte_of :: "nat \<Rightarrow> byte" where "byte_of n = of_nat n"

lemma unat_byte_less: "unat (b :: byte) < 256"
  using unsigned_less [of b, where 'a = nat] by simp

lemma unat_byte_of: "n < 256 \<Longrightarrow> unat (byte_of n) = n"
  by (simp add: byte_of_def unat_of_nat)

lemma utf8_scalar_units:
  assumes "c < 0x110000"
  shows "map unat (utf8_scalar c) =
     (if c < 0x80 then [c]
      else if c < 0x800 then [0xC0 + c div 64, 0x80 + c mod 64]
      else if c < 0x10000
        then [0xE0 + c div 4096, 0x80 + c div 64 mod 64, 0x80 + c mod 64]
      else [0xF0 + c div 262144, 0x80 + c div 4096 mod 64, 0x80 + c div 64 mod 64, 0x80 + c mod 64])"
proof -
  have m: "x mod 64 < 64" for x :: nat by simp
  have d: "c < 0x800 \<Longrightarrow> c div 64 < 32" "c < 0x10000 \<Longrightarrow> c div 4096 < 16" "c div 262144 < 5"
    using assms by auto
  have m': "0x80 + x mod 64 < 256" for x :: nat using m [of x] by linarith
  show ?thesis
    unfolding utf8_scalar_def byte_of_def [symmetric]
    using d by (simp add: unat_byte_of m')
qed

lemma utf8_first_scalar:
  assumes "c < 0x110000" shows "utf8_first (map unat (utf8_scalar c @ r)) = c"
proof -
  have a: "c div 4096 = c div 64 div 64" "c div 262144 = c div 64 div 64 div 64"
    by (simp_all add: div_mult2_eq [symmetric])
  have b: "c div 64 * 64 + c mod 64 = c" "c div 64 div 64 * 64 + c div 64 mod 64 = c div 64"
   "c div 64 div 64 div 64 * 64 + c div 64 div 64 mod 64 = c div 64 div 64"  by simp_all
  have d: "c < 0x800 \<Longrightarrow> c div 64 < 32" "c < 0x10000 \<Longrightarrow> c div 64 div 64 < 16" 
    using assms by auto
  show ?thesis unfolding map_append utf8_scalar_units [OF assms] unfolding a using d
    by (auto simp: b)
qed

lemma utf8_scalar_nonempty [simp]: "utf8_scalar c \<noteq> []"
  by (simp add: utf8_scalar_def)

interpretation utf8: prefix_code utf8_scalar "\<lambda>c. c < 0x110000"
proof
  fix x y r s
  assume ok: "x < 0x110000" "y < 0x110000" and eq: "utf8_scalar x @ r = utf8_scalar y @ s"
  then have "x = y" by (metis utf8_first_scalar)
  with eq show "x = y \<and> r = s" by simp
qed

text \<open>\<open>String.prototype.trim\<close>: white space and line terminators of the language at both ends.\<close>

definition is_space_unit :: "nat \<Rightarrow> bool" where
  "is_space_unit c \<longleftrightarrow>
     c \<in> {9, 10, 11, 12, 13, 32, 0xA0, 0x1680, 0x2028, 0x2029, 0x202F, 0x205F, 0x3000, 0xFEFF} \<or>
     0x2000 \<le> c \<and> c \<le> 0x200A"

definition trim :: "js_string \<Rightarrow> js_string" where
  "trim s = rev (dropWhile is_space_unit (rev (dropWhile is_space_unit s)))"

lemma trim_id: "\<not> is_space_unit (hd s) \<Longrightarrow> \<not> is_space_unit (last s) \<Longrightarrow> trim s = s"
proof -
  assume a: "\<not> is_space_unit (hd s)" "\<not> is_space_unit (last s)"
  then have "dropWhile is_space_unit s = s" by (cases s) auto
  moreover have "dropWhile is_space_unit (rev s) = rev s" using a(2) by (cases "rev s") (auto simp: last_rev hd_rev [symmetric])
  ultimately show ?thesis by (simp add: trim_def)
qed

lemma trim_plain: "\<forall>c \<in> set s. \<not> is_space_unit c \<Longrightarrow> trim s = s"
  by (cases "s = []") (simp add: trim_def, simp add: trim_id)

text \<open>\<open>s.startsWith(p)\<close>.\<close>

definition starts_with :: "js_string \<Rightarrow> js_string \<Rightarrow> bool" where
  "starts_with p s \<longleftrightarrow> take (length p) s = p"

text \<open>The order of strings by code units.\<close>

fun js_less :: "js_string \<Rightarrow> js_string \<Rightarrow> bool" where
  "js_less a [] = False"
| "js_less [] (y # ys) = True"
| "js_less (x # xs) (y # ys) = (x < y \<or> x = y \<and> js_less xs ys)"

lemma js_less_irrefl [simp]: "\<not> js_less a a"
  by (induction a) auto

lemma js_less_trans: "js_less a b \<Longrightarrow> js_less b c \<Longrightarrow> js_less a c"
proof (induction a b arbitrary: c rule: js_less.induct)
  case (2 y ys)
  then show ?case by (cases c) auto
next
  case (3 x xs y ys)
  then show ?case by (cases c) auto
qed simp

lemma js_less_linear: "js_less a b \<or> a = b \<or> js_less b a"
  by (induction a b rule: js_less.induct) (auto, metis js_less.simps(2) list.exhaust)

lemma js_not_less_trans: "\<not> js_less b a \<Longrightarrow> \<not> js_less c b \<Longrightarrow> \<not> js_less c a"
  using js_less_linear [of a b] js_less_trans [of c a b] by auto

text \<open>Code units are 16 bits wide.\<close>

definition is_js_string :: "js_string \<Rightarrow> bool" where
  "is_js_string s = list_all (\<lambda>c. c < 0x10000) s"

lemma scalar_values_range: "is_js_string s \<Longrightarrow> c \<in> set (scalar_values s) \<Longrightarrow> c < 0x110000"
  by (induction s rule: scalar_values.induct)
    (auto simp: is_js_string_def high_surrogate_def low_surrogate_def split: if_splits)

lemma utf8_encode_eq_iff:
  "is_js_string s \<Longrightarrow> is_js_string t \<Longrightarrow>
   utf8_encode s = utf8_encode t \<longleftrightarrow> scalar_values s = scalar_values t"
  unfolding utf8_encode_def using scalar_values_range utf8.concat_enc_inj_nonempty by fastforce

lemma fixed_width_prefix_code:
  assumes "\<And>x. ok x \<Longrightarrow> length (enc x) = n"
    and "\<And>x y. ok x \<Longrightarrow> ok y \<Longrightarrow> enc x = enc y \<Longrightarrow> x = y"
  shows "prefix_code enc ok"
proof
  fix x y r s
  assume "ok x" "ok y" "enc x @ r = enc y @ s"
  with assms show "x = y \<and> r = s" by (metis append_eq_append_conv)
qed

end
