(* ===== verification/Econ_Encoding.thy ===== *)
theory Econ_Encoding
  imports Flora_Prelude
begin

text \<open>
  Byte utilities and the canonical amount format of the LIV client:
  \<^verbatim>\<open>packages/flora-client-core/src/economy/encoding.ts\<close> and
  \<^verbatim>\<open>packages/flora-client-core/src/economy/amounts.ts\<close>. A grain amount (a \<open>bigint\<close>) is
  an \<open>int\<close>, a \<open>Uint8Array\<close> a list of \<open>8 word\<close>; a thrown error is the left branch.
\<close>

section \<open>Errors of the economy layer\<close>

text \<open>One constructor per \<open>throw\<close> site; the numbers are the ones the message prints.\<close>

datatype codec_error =
    NotSafeInteger
  | U8Range int | U16Range int | U32Range int | U64Range int | I64Range int
  | HashLength nat | AccountLength nat | AccountByteRange nat
  | BadHex nat | ByteCount nat nat | BadUuid js_string
  | NotObject js_string | NotInteger js_string js_string | NotString js_string js_string
  | NotAccountArray js_string js_string | PathNotArray | PathItemNotArray nat
  | UnknownKind js_string
  | NotGrainNumber | GrainsNotRepresentable int | GrainsOutOfRange int
  | SeedLength nat | NonceLength nat | PairOrder | CosignFields | ArraySetRange | NoCsprng

section \<open>Hex\<close>

definition utf8Bytes :: "js_string \<Rightarrow> bytes" where
  "utf8Bytes text = utf8_encode text"

definition HEX_ALPHABET :: js_string where
  "HEX_ALPHABET = js ''0123456789abcdef''"

definition toHex :: "bytes \<Rightarrow> js_string" where
  "toHex bs = concat (map (\<lambda>b. [HEX_ALPHABET ! unat (drop_bit 4 b), HEX_ALPHABET ! unat (b AND 0x0f)]) bs)"

definition hexNibble :: "nat \<Rightarrow> nat option" where
  "hexNibble code =
     (if 0x30 \<le> code \<and> code \<le> 0x39 then Some (code - 0x30)
      else if 0x61 \<le> code \<and> code \<le> 0x66 then Some (code - 0x61 + 10)
      else if 0x41 \<le> code \<and> code \<le> 0x46 then Some (code - 0x41 + 10)
      else None)"

text \<open>The loop of \<open>tryFromHex\<close>: two code units per output byte, \<open>None\<close> at the first bad one.\<close>

fun hex_pairs :: "js_string \<Rightarrow> bytes option" where
  "hex_pairs (a # b # r) =
     (case hexNibble a of None \<Rightarrow> None
      | Some hi \<Rightarrow>
          (case hexNibble b of None \<Rightarrow> None
           | Some lo \<Rightarrow>
               map_option (\<lambda>bs. word_of_nat (push_bit 4 hi OR lo) # bs) (hex_pairs r)))"
| "hex_pairs _ = Some []"

definition tryFromHex :: "js_string \<Rightarrow> bytes option" where
  "tryFromHex hex = (if length hex mod 2 \<noteq> 0 then None else hex_pairs hex)"

definition fromHex :: "js_string \<Rightarrow> nat option \<Rightarrow> codec_error + bytes" where
  "fromHex hex expectedLength =
     (case tryFromHex hex of
        None \<Rightarrow> Inl (BadHex (length hex))
      | Some bs \<Rightarrow>
          (case expectedLength of
             None \<Rightarrow> Inr bs
           | Some n \<Rightarrow> if length bs \<noteq> n then Inl (ByteCount n (length bs)) else Inr bs))"

fun bytesEqual_from :: "bytes \<Rightarrow> bytes \<Rightarrow> bool" where
  "bytesEqual_from (x # xs) (y # ys) = (if x \<noteq> y then False else bytesEqual_from xs ys)"
| "bytesEqual_from _ _ = True"

definition bytesEqual :: "bytes \<Rightarrow> bytes \<Rightarrow> bool" where
  "bytesEqual a b = (if length a \<noteq> length b then False else bytesEqual_from a b)"

text \<open>
  The loop runs over the common prefix; what follows it compares the lengths. The lengths of
  the remaining suffixes differ exactly as the lengths of the arrays do.
\<close>

fun compareBytes :: "bytes \<Rightarrow> bytes \<Rightarrow> int" where
  "compareBytes (x # xs) (y # ys) =
     (let d = uint x - uint y in
      if d \<noteq> 0 then (if d < 0 then -1 else 1) else compareBytes xs ys)"
| "compareBytes a b = (if length a = length b then 0 else if length a < length b then -1 else 1)"

section \<open>Amounts at the JSON boundary\<close>

datatype amount_value = BigIntValue int | JsonValue json

fun grainsFromJsonNumber :: "amount_value \<Rightarrow> codec_error + int" where
  "grainsFromJsonNumber (BigIntValue v) = Inr v"
| "grainsFromJsonNumber (JsonValue (JInt v)) =
     (if isSafeInteger v then Inr v else Inl NotGrainNumber)"
| "grainsFromJsonNumber (JsonValue _) = Inl NotGrainNumber"

definition grainsToJsonNumber :: "int \<Rightarrow> codec_error + json" where
  "grainsToJsonNumber value =
     (if value > max_safe_int \<or> value < - max_safe_int
      then Inl (GrainsNotRepresentable value) else Inr (JInt value))"

section \<open>The canonical decimal format\<close>

definition LIV_DECIMALS :: nat where
  "LIV_DECIMALS = 6"

definition LIV_IN_GRAINS :: int where
  "LIV_IN_GRAINS = 1000000"

definition GRAINS_MIN :: int where
  "GRAINS_MIN = - (2 ^ 63)"

definition GRAINS_MAX :: int where
  "GRAINS_MAX = 2 ^ 63 - 1"

definition isValidGrains :: "int \<Rightarrow> bool" where
  "isValidGrains grains \<longleftrightarrow> GRAINS_MIN \<le> grains \<and> grains \<le> GRAINS_MAX"

definition formatLiv :: "int \<Rightarrow> codec_error + js_string" where
  "formatLiv grains =
     (if \<not> isValidGrains grains then Inl (GrainsOutOfRange grains)
      else
        let negative = grains < 0;
            a = (if negative then - grains else grains);
            whole = a div LIV_IN_GRAINS;
            frac = a mod LIV_IN_GRAINS
        in Inr ((if negative then js ''-'' else []) @ dec_digits (nat whole) @ js ''.''
                @ padStart0 LIV_DECIMALS (dec_digits (nat frac))))"

definition isAsciiDigits :: "js_string \<Rightarrow> bool" where
  "isAsciiDigits s = list_all (\<lambda>c. \<not> (c < 0x30 \<or> c > 0x39)) s"

definition parseLiv :: "js_string \<Rightarrow> int option" where
  "parseLiv input =
     (let negative = (take 1 input = js ''-'');
          rest = (if negative then drop 1 input else input)
      in if length rest = 0 then None
      else
        let dot = (46 \<in> set rest);
            wholeStr = (if dot then takeWhile (\<lambda>c. c \<noteq> 46) rest else rest);
            fracStr = (if dot then drop 1 (dropWhile (\<lambda>c. c \<noteq> 46) rest) else [])
        in if length wholeStr = 0 \<and> length fracStr = 0 then None
        else if length fracStr > LIV_DECIMALS then None
        else if \<not> isAsciiDigits wholeStr \<or> \<not> isAsciiDigits fracStr then None
        else
          let whole = (if length wholeStr = 0 then 0 else int (dec_value wholeStr));
              frac = ((\<lambda>f. f * 10) ^^ (LIV_DECIMALS - length fracStr))
                       (if length fracStr = 0 then 0 else int (dec_value fracStr));
              magnitude = whole * LIV_IN_GRAINS + frac;
              signed = (if negative then - magnitude else magnitude)
          in if isValidGrains signed then Some signed else None)"

section \<open>Facts about hex\<close>

lemma hex_alphabet_nibble:
  "n < 16 \<Longrightarrow> hexNibble (HEX_ALPHABET ! n) = Some n \<and> lower_unit (HEX_ALPHABET ! n) = HEX_ALPHABET ! n"
proof -
  have "\<forall>n \<in> set [0..<16]. hexNibble (HEX_ALPHABET ! n) = Some n \<and>
      lower_unit (HEX_ALPHABET ! n) = HEX_ALPHABET ! n"
    by code_simp
  then show "n < 16 \<Longrightarrow> ?thesis" by simp
qed

lemma hexNibble_bound: "hexNibble c = Some n \<Longrightarrow> n < 16"
  by (auto simp: hexNibble_def split: if_splits)

lemma hexNibble_alphabet: "hexNibble c = Some n \<Longrightarrow> HEX_ALPHABET ! n = lower_unit c"
proof -
  have "\<forall>c \<in> set [0..<103]. hexNibble c \<noteq> None \<longrightarrow> HEX_ALPHABET ! the (hexNibble c) = lower_unit c"
    by code_simp
  moreover assume h: "hexNibble c = Some n"
  moreover from h have "c < 103" by (auto simp: hexNibble_def split: if_splits)
  ultimately show ?thesis by force
qed

lemma nibbles_disjoint: "lo < 16 \<Longrightarrow> push_bit 4 hi OR lo = 16 * hi + (lo :: nat)"
proof -
  assume "lo < 16"
  then have lo: "take_bit 4 lo = lo" by (simp add: take_bit_nat_eq_self)
  have "push_bit 4 hi AND take_bit 4 lo = 0" by (rule bit_eqI) (auto simp: bit_simps)
  then have "push_bit 4 hi + take_bit 4 lo = push_bit 4 hi OR take_bit 4 lo"
    by (rule disjunctive_add_eq_or)
  with lo show ?thesis by (simp add: push_bit_eq_mult)
qed

lemma unat_high_nibble: "unat (drop_bit 4 (b :: byte)) = unat b div 16"
  by (subst unat_drop_bit_eq) (simp add: drop_bit_eq_div)

lemma unat_byte_of_nat: "n < 256 \<Longrightarrow> unat (word_of_nat n :: byte) = n"
  by (simp add: unat_of_nat)

lemma unat_low_nibble: "unat ((b :: byte) AND 0x0f) = unat b mod 16"
proof -
  have "unat (b AND 0x0f) = unat (take_bit 4 b)" by (simp add: take_bit_eq_mask mask_eq_exp_minus_1)
  also have "\<dots> = take_bit 4 (unat b)" by (rule unsigned_take_bit_eq)
  finally show ?thesis by (simp add: take_bit_eq_mod)
qed

lemma byte_nibbles:
  "unat (drop_bit 4 (b :: byte)) < 16 \<and> unat (b AND 0x0f) < 16 \<and>
   word_of_nat (push_bit 4 (unat (drop_bit 4 b)) OR unat (b AND 0x0f)) = b"
proof -
  have "unat b < 256" using unsigned_less [of b] by simp
  then show ?thesis
    by (simp only: unat_high_nibble unat_low_nibble) (simp add: nibbles_disjoint)
qed

lemma nibbles_byte:
  assumes "hi < 16" and "lo < 16"
  shows "unat (drop_bit 4 (word_of_nat (push_bit 4 hi OR lo) :: byte)) = hi"
    and "unat ((word_of_nat (push_bit 4 hi OR lo) :: byte) AND 0x0f) = lo"
proof -
  have "unat (word_of_nat (push_bit 4 hi OR lo) :: byte) = 16 * hi + lo"
    using assms by (simp only: nibbles_disjoint) (simp only: unat_byte_of_nat)
  with assms show "unat (drop_bit 4 (word_of_nat (push_bit 4 hi OR lo) :: byte)) = hi"
    and "unat ((word_of_nat (push_bit 4 hi OR lo) :: byte) AND 0x0f) = lo"
    by (simp_all only: unat_high_nibble unat_low_nibble) auto
qed

lemma toHex_Nil [simp]: "toHex [] = []"
  by (simp add: toHex_def)

lemma toHex_Cons [simp]:
  "toHex (b # bs) = HEX_ALPHABET ! unat (drop_bit 4 b) # HEX_ALPHABET ! unat (b AND 0x0f) # toHex bs"
  by (simp add: toHex_def)

lemma length_toHex [simp]: "length (toHex bs) = 2 * length bs"
  by (induction bs) auto

lemma hex_pairs_toHex: "hex_pairs (toHex bs) = Some bs"
proof (induction bs)
  case (Cons b bs)
  with byte_nibbles [of b] hex_alphabet_nibble show ?case by simp
qed simp

lemma tryFromHex_toHex [simp]: "tryFromHex (toHex bs) = Some bs"
  by (simp add: tryFromHex_def hex_pairs_toHex)

lemma hex_pairs_length: "hex_pairs s = Some bs \<Longrightarrow> length bs = length s div 2"
  by (induction s arbitrary: bs rule: hex_pairs.induct) (auto split: option.splits)

lemma hex_pairs_lower: "even (length s) \<Longrightarrow> hex_pairs s = Some bs \<Longrightarrow> toHex bs = toLowerCase s"
proof (induction s arbitrary: bs rule: hex_pairs.induct)
  case (1 a b r)
  then obtain hi lo cs where n: "hexNibble a = Some hi" "hexNibble b = Some lo"
    and r: "hex_pairs r = Some cs" and bs: "bs = word_of_nat (push_bit 4 hi OR lo) # cs"
    by (auto split: option.splits)
  have "toHex cs = toLowerCase r" using 1 n r by simp
  moreover have "hi < 16" "lo < 16" using n hexNibble_bound by auto
  ultimately show ?case
    using n bs by (simp add: nibbles_byte hexNibble_alphabet toLowerCase_def del: of_nat_or_eq)
qed (auto simp: toLowerCase_def)

lemma tryFromHex_lower: "tryFromHex s = Some bs \<Longrightarrow> toHex bs = toLowerCase s"
  by (simp add: tryFromHex_def hex_pairs_lower even_iff_mod_2_eq_zero split: if_splits)

lemma hexNibble_lower: "hexNibble (lower_unit c) = hexNibble c"
  by (auto simp: hexNibble_def lower_unit_def)

lemma hex_pairs_toLowerCase: "hex_pairs (toLowerCase s) = hex_pairs s"
  by (induction s rule: hex_pairs.induct)
    (auto simp: toLowerCase_def hexNibble_lower split: option.splits)

lemma tryFromHex_toLowerCase [simp]: "tryFromHex (toLowerCase s) = tryFromHex s"
  by (simp add: tryFromHex_def hex_pairs_toLowerCase)

lemma tryFromHex_eq_iff: "tryFromHex s = Some bs \<longleftrightarrow> toLowerCase s = toHex bs"
  by (metis tryFromHex_lower tryFromHex_toHex tryFromHex_toLowerCase)

lemma toHex_inj [simp]: "toHex a = toHex b \<longleftrightarrow> a = b"
  by (metis option.inject tryFromHex_toHex)

lemma fromHex_toHex [simp]: "fromHex (toHex bs) (Some n) = (if length bs = n then Inr bs else Inl (ByteCount n (length bs)))"
  by (simp add: fromHex_def)

lemma fromHex_Inr_iff [result_iff]:
  "fromHex s (Some n) = Inr bs \<longleftrightarrow> toLowerCase s = toHex bs \<and> length bs = n"
  by (auto simp: fromHex_def tryFromHex_eq_iff [symmetric] split: option.splits)

section \<open>Facts about byte comparison\<close>

lemma bytesEqual_iff [simp]: "bytesEqual a b \<longleftrightarrow> a = b"
proof -
  have "length a = length b \<Longrightarrow> bytesEqual_from a b \<longleftrightarrow> a = b"
    by (induction a b rule: bytesEqual_from.induct) auto
  then show ?thesis by (auto simp: bytesEqual_def)
qed

lemma compareBytes_refl [simp]: "compareBytes a a = 0"
  by (induction a) (auto simp: Let_def)

lemma byte_uint_eq [simp]: "uint (x :: byte) = uint y \<longleftrightarrow> x = y"
  by (simp add: word_uint_eq_iff)

lemma compareBytes_eq_0: "compareBytes a b = 0 \<longleftrightarrow> a = b"
  by (induction a b rule: compareBytes.induct) (auto simp: Let_def split: if_splits)

lemma compareBytes_lexord:
  "compareBytes a b = -1 \<longleftrightarrow> (a, b) \<in> lexord {(x, y). x < y}"
  by (induction a b rule: compareBytes.induct)
    (auto simp: Let_def word_less_def neq_Nil_conv split: if_splits list.splits)

lemma compareBytes_range: "compareBytes a b \<in> {-1, 0, 1}"
  by (induction a b rule: compareBytes.induct) (auto simp: Let_def)

lemma compareBytes_antisym: "compareBytes b a = - compareBytes a b"
  by (induction a b rule: compareBytes.induct) (auto simp: Let_def)

section \<open>Facts about amounts\<close>

lemma isAsciiDigits_iff: "isAsciiDigits s \<longleftrightarrow> (\<forall>c \<in> set s. is_digit_unit c)"
  by (auto simp: isAsciiDigits_def is_digit_unit_def list_all_iff not_less)

lemma funpow_times_10: "((\<lambda>f. f * 10) ^^ n) (x :: int) = x * 10 ^ n"
  by (induction n) (auto simp: algebra_simps)

text \<open>The two shapes a digit string may have: no point, or one point.\<close>

lemma split_at_point:
  assumes "\<forall>c \<in> set w. is_digit_unit c"
  shows "takeWhile (\<lambda>c. c \<noteq> 46) (w @ 46 # f) = w"
    and "dropWhile (\<lambda>c. c \<noteq> 46) (w @ 46 # f) = 46 # f"
proof -
  have "\<forall>c \<in> set w. c \<noteq> 46" using assms by (auto simp: is_digit_unit_def)
  then show "takeWhile (\<lambda>c. c \<noteq> 46) (w @ 46 # f) = w"
    and "dropWhile (\<lambda>c. c \<noteq> 46) (w @ 46 # f) = 46 # f"
    by (induction w) auto
qed

definition liv_magnitude :: "js_string \<Rightarrow> js_string \<Rightarrow> int" where
  "liv_magnitude w f = int (dec_value w) * 1000000 + int (dec_value f) * 10 ^ (6 - length f)"

lemma dec_value_Nil [simp]: "dec_value [] = 0"
  by (simp add: dec_value_def)

text \<open>\<open>parseLiv\<close> on the part after the sign.\<close>

definition parse_unsigned :: "js_string \<Rightarrow> int option" where
  "parse_unsigned rest =
     (let dot = (46 \<in> set rest);
          w = (if dot then takeWhile (\<lambda>c. c \<noteq> 46) rest else rest);
          f = (if dot then drop 1 (dropWhile (\<lambda>c. c \<noteq> 46) rest) else [])
      in if w = [] \<and> f = [] \<or> 6 < length f \<or> \<not> isAsciiDigits w \<or> \<not> isAsciiDigits f then None
         else Some (liv_magnitude w f))"

lemma parseLiv_alt:
  "parseLiv s =
     (let negative = (take 1 s = js ''-'') in
      case parse_unsigned (if negative then drop 1 s else s) of
        None \<Rightarrow> None
      | Some m \<Rightarrow> (let g = (if negative then - m else m) in if isValidGrains g then Some g else None))"
  unfolding parseLiv_def parse_unsigned_def Let_def liv_magnitude_def funpow_times_10
    LIV_DECIMALS_def LIV_IN_GRAINS_def
  by (simp split: option.splits)

lemma parse_unsigned_whole:
  "\<forall>c \<in> set w. is_digit_unit c \<Longrightarrow> w \<noteq> [] \<Longrightarrow> parse_unsigned w = Some (liv_magnitude w [])"
  by (auto simp: parse_unsigned_def Let_def isAsciiDigits_iff is_digit_unit_def)

lemma parse_unsigned_point:
  "\<forall>c \<in> set w. is_digit_unit c \<Longrightarrow> \<forall>c \<in> set f. is_digit_unit c \<Longrightarrow> w \<noteq> [] \<or> f \<noteq> [] \<Longrightarrow>
   length f \<le> 6 \<Longrightarrow> parse_unsigned (w @ 46 # f) = Some (liv_magnitude w f)"
  by (auto simp: parse_unsigned_def Let_def isAsciiDigits_iff split_at_point)

lemma parse_unsigned_Some:
  assumes "parse_unsigned s = Some m"
  obtains (whole) "s \<noteq> []" "\<forall>c \<in> set s. is_digit_unit c" "m = liv_magnitude s []"
    | (point) w f where "s = w @ 46 # f" "\<forall>c \<in> set w. is_digit_unit c"
        "\<forall>c \<in> set f. is_digit_unit c" "w \<noteq> [] \<or> f \<noteq> []" "length f \<le> 6" "m = liv_magnitude w f"
proof (cases "46 \<in> set s")
  case False
  with assms whole show thesis
    by (auto simp: parse_unsigned_def Let_def isAsciiDigits_iff split: if_splits)
next
  case True
  then have ne: "dropWhile (\<lambda>c. c \<noteq> 46) s \<noteq> []" by (auto simp: dropWhile_eq_Nil_conv)
  then obtain x f where d: "dropWhile (\<lambda>c. c \<noteq> 46) s = x # f" by (cases "dropWhile (\<lambda>c. c \<noteq> 46) s") auto
  have x: "x = 46" using hd_dropWhile [OF ne] d by simp
  have "s = takeWhile (\<lambda>c. c \<noteq> 46) s @ 46 # f" using d x takeWhile_dropWhile_id [of "\<lambda>c. c \<noteq> 46" s] by simp
  moreover have "takeWhile (\<lambda>c. c \<noteq> 46) s \<noteq> [] \<or> f \<noteq> []" "length f \<le> 6"
    "\<forall>c \<in> set (takeWhile (\<lambda>c. c \<noteq> 46) s). is_digit_unit c" "\<forall>c \<in> set f. is_digit_unit c"
    "m = liv_magnitude (takeWhile (\<lambda>c. c \<noteq> 46) s) f"
    using assms True d by (auto simp: parse_unsigned_def Let_def isAsciiDigits_iff split: if_splits)
  ultimately show thesis using point by blast
qed

lemma formatLiv_shape:
  "isValidGrains g \<Longrightarrow> formatLiv g =
     Inr ((if g < 0 then [45] else []) @ dec_digits (nat (\<bar>g\<bar> div 1000000)) @ 46 #
          padStart0 6 (dec_digits (nat (\<bar>g\<bar> mod 1000000))))"
  by (simp add: formatLiv_def Let_def LIV_IN_GRAINS_def LIV_DECIMALS_def)

lemma frac_digits:
  fixes g :: int
  defines "f \<equiv> padStart0 6 (dec_digits (nat (\<bar>g\<bar> mod 1000000)))"
  shows "length f = 6" and "\<forall>c \<in> set f. is_digit_unit c" and "dec_value f = nat (\<bar>g\<bar> mod 1000000)"
proof -
  have "nat (\<bar>g\<bar> mod 1000000) < 10 ^ 6" by (simp add: nat_less_iff)
  then have "length (dec_digits (nat (\<bar>g\<bar> mod 1000000))) \<le> 6" by (intro length_dec_digits_le) auto
  then show "length f = 6" by (simp add: f_def length_padStart0)
  show "\<forall>c \<in> set f. is_digit_unit c"
    using set_padStart0 dec_digits_are_digits
    by (fastforce simp: f_def is_digit_unit_def)
  show "dec_value f = nat (\<bar>g\<bar> mod 1000000)" by (simp add: f_def)
qed

lemma dec_digits_Cons:
  obtains d ds where "dec_digits n = d # ds" "d \<noteq> 45"
proof (cases "dec_digits n")
  case (Cons d ds)
  moreover from this have "d \<noteq> 45"
    using dec_digits_are_digits [of d n] by (auto simp: is_digit_unit_def)
  ultimately show thesis using that by blast
qed simp

lemma parse_format:
  assumes "isValidGrains g"
  shows "\<exists>s. formatLiv g = Inr s \<and> parseLiv s = Some g"
proof -
  define w where "w = dec_digits (nat (\<bar>g\<bar> div 1000000))"
  define f where "f = padStart0 6 (dec_digits (nat (\<bar>g\<bar> mod 1000000)))"
  have w: "\<forall>c \<in> set w. is_digit_unit c" "w \<noteq> []"
    by (auto simp: w_def dec_digits_are_digits)
  have "parse_unsigned (w @ 46 # f) = Some (liv_magnitude w f)"
    using w frac_digits [of g] by (intro parse_unsigned_point) (auto simp: f_def)
  moreover have "liv_magnitude w f = \<bar>g\<bar>"
    using frac_digits [of g] pos_imp_zdiv_nonneg_iff [of 1000000 "\<bar>g\<bar>"]
    by (simp add: liv_magnitude_def w_def f_def)
  ultimately have u: "parse_unsigned (w @ 46 # f) = Some \<bar>g\<bar>" by simp
  have "formatLiv g = Inr ((if g < 0 then [45] else []) @ w @ 46 # f)"
    using formatLiv_shape [OF assms] by (simp add: w_def f_def)
  moreover have "parseLiv ((if g < 0 then [45] else []) @ w @ 46 # f) = Some g"
  proof -
    obtain d ds where "w = d # ds" "d \<noteq> 45" using dec_digits_Cons w_def by metis
    with u assms show ?thesis by (simp add: parseLiv_alt Let_def)
  qed
  ultimately show ?thesis by blast
qed

lemma digits_not_minus:
  assumes "\<forall>c \<in> set w. is_digit_unit c"
  shows "take 1 (w @ r) = [45] \<longleftrightarrow> w = [] \<and> take 1 r = [45]"
  using assms by (cases w) (auto simp: is_digit_unit_def)

lemma parseLiv_signed:
  assumes "parse_unsigned u = Some m" and "take 1 u \<noteq> [45]"
  shows "parseLiv u = (if isValidGrains m then Some m else None)"
    and "parseLiv (45 # u) = (if isValidGrains (- m) then Some (- m) else None)"
  using assms by (auto simp: parseLiv_alt Let_def)

section \<open>Properties\<close>

text \<open>
  Hex round trip. \<open>tryFromHex\<close> returns \<open>bs\<close> exactly on the spellings of \<open>toHex bs\<close> up to
  letter case: it accepts nothing else, loses nothing, and rejects odd lengths and foreign characters.
\<close>

theorem hex_roundtrip: "tryFromHex s = Some bs \<longleftrightarrow> toLowerCase s = toHex bs"
  by (rule tryFromHex_eq_iff)

text \<open>
  Amount round trip. \<open>formatLiv\<close> prints exactly the amounts in the i64 range, and
  \<open>parseLiv\<close> reads what it prints back to the same amount; outside the range it throws.
\<close>

theorem liv_roundtrip: "(\<exists>s. formatLiv g = Inr s \<and> parseLiv s = Some g) \<longleftrightarrow> isValidGrains g"
  using parse_format by (auto simp: formatLiv_def split: if_splits)

text \<open>
  The grammar of \<open>parseLiv\<close>: an optional minus, decimal digits, optionally a point and at
  most six more digits, at least one digit in all; its value is the exact number of grains, and the
  result is refused when it leaves the i64 range. No exponent, space, plus sign or second point.
\<close>

theorem parseLiv_grammar:
  "parseLiv s = Some g \<longleftrightarrow>
     (\<exists>sgn w f. (sgn = [] \<or> sgn = [45]) \<and>
        (s = sgn @ w \<and> f = [] \<or> s = sgn @ w @ 46 # f) \<and>
        0 < length w + length f \<and> length f \<le> 6 \<and> list_all is_digit_unit (w @ f) \<and>
        g = (if sgn = [] then 1 else -1) *
              (int (dec_value w) * 1000000 + int (dec_value f) * 10 ^ (6 - length f)) \<and>
        isValidGrains g)"
proof
  assume parsed: "parseLiv s = Some g"
  define sgn u where "sgn = (if take 1 s = [45] then [45] else [] :: js_string)"
    and "u = (if take 1 s = [45] then drop 1 s else s)"
  have s: "s = sgn @ u" by (cases s) (auto simp: sgn_def u_def)
  from parsed obtain m where m: "parse_unsigned u = Some m"
    and g: "g = (if sgn = [] then 1 else -1) * m" "isValidGrains g"
    by (auto simp: parseLiv_alt Let_def u_def sgn_def split: option.splits if_splits)
  have sgn: "sgn = [] \<or> sgn = [45]" by (simp add: sgn_def)
  from m show "\<exists>sgn w f. (sgn = [] \<or> sgn = [45]) \<and>
        (s = sgn @ w \<and> f = [] \<or> s = sgn @ w @ 46 # f) \<and>
        0 < length w + length f \<and> length f \<le> 6 \<and> list_all is_digit_unit (w @ f) \<and>
        g = (if sgn = [] then 1 else -1) *
              (int (dec_value w) * 1000000 + int (dec_value f) * 10 ^ (6 - length f)) \<and>
        isValidGrains g"
  proof (cases rule: parse_unsigned_Some)
    case whole
    with s g sgn show ?thesis
      by (intro exI [of _ sgn] exI [of _ u] exI [of _ "[]"]) (auto simp: list_all_iff liv_magnitude_def)
  next
    case (point w f)
    with s g sgn show ?thesis
      by (intro exI [of _ sgn] exI [of _ w] exI [of _ f]) (auto simp: list_all_iff liv_magnitude_def)
  qed
next
  assume "\<exists>sgn w f. (sgn = [] \<or> sgn = [45]) \<and>
        (s = sgn @ w \<and> f = [] \<or> s = sgn @ w @ 46 # f) \<and>
        0 < length w + length f \<and> length f \<le> 6 \<and> list_all is_digit_unit (w @ f) \<and>
        g = (if sgn = [] then 1 else -1) *
              (int (dec_value w) * 1000000 + int (dec_value f) * 10 ^ (6 - length f)) \<and>
        isValidGrains g"
  then obtain sgn w f u where sgn: "sgn = [] \<or> sgn = [45]" and s: "s = sgn @ u"
    and u: "u = w \<and> f = [] \<or> u = w @ 46 # f"
    and d: "0 < length w + length f" "length f \<le> 6" "\<forall>c \<in> set w. is_digit_unit c" "\<forall>c \<in> set f. is_digit_unit c"
    and g: "g = (if sgn = [] then 1 else -1) * liv_magnitude w f" "isValidGrains g"
    by (fastforce simp: list_all_iff liv_magnitude_def)
  have "parse_unsigned u = Some (liv_magnitude w f)"
    using u d parse_unsigned_whole [of w] parse_unsigned_point [of w f] by fastforce
  moreover have "take 1 u \<noteq> [45]"
    using u d digits_not_minus [of w "[]"] digits_not_minus [of w "46 # f"] by auto
  ultimately show "parseLiv s = Some g"
    using parseLiv_signed [of u "liv_magnitude w f"] s sgn g by auto
qed

text \<open>
  \<open>compareBytes\<close> is the lexicographic order of byte strings, a total order: zero on equal
  strings only, -1 exactly when the first is lexicographically smaller, 1 otherwise.
\<close>

theorem compareBytes_total_order:
  "compareBytes a b = (if a = b then 0 else if (a, b) \<in> lexord {(x, y). x < y} then -1 else 1)"
  using compareBytes_eq_0 [of a b] compareBytes_lexord [of a b] compareBytes_range [of a b] by auto

end
