(* ===== verification/Econ_Canonical.thy ===== *)
theory Econ_Canonical
  imports Econ_Encoding
begin

text \<open>
  \<^verbatim>\<open>packages/flora-client-core/src/economy/canonical.ts\<close>: the accumulator of consensus bytes.
  The writer is the record of its two private fields; a method is a function from the writer to
  an error or the updated writer. The second half shows that every method appends a pure byte
  string (\<open>cw.writes\<close>) and that \<open>finish\<close> returns exactly what was appended.
\<close>

section \<open>The writer\<close>

record canonical_writer =
  chunks :: "bytes list"
  wlength :: nat

definition new_writer :: canonical_writer where
  "new_writer = \<lparr>chunks = [], wlength = 0\<rparr>"

text \<open>A \<open>bigint | number\<close> argument; a \<open>number\<close> here is an integer-valued double.\<close>

datatype int_arg = BigInt int | Number int

definition U64_MAX :: int where
  "U64_MAX = 2 ^ 64 - 1"

definition I64_MIN :: int where
  "I64_MIN = - (2 ^ 63)"

definition I64_MAX :: int where
  "I64_MAX = 2 ^ 63 - 1"

fun asBigInt :: "int_arg \<Rightarrow> codec_error + int" where
  "asBigInt (BigInt v) = Inr v"
| "asBigInt (Number v) = (if \<not> isSafeInteger v then Inl NotSafeInteger else Inr v)"

definition push :: "bytes \<Rightarrow> canonical_writer \<Rightarrow> canonical_writer" where
  "push bs w = w\<lparr>chunks := chunks w @ [bs], wlength := wlength w + length bs\<rparr>"

text \<open>\<open>Uint8Array.of\<close> keeps the low byte of each (32-bit) argument.\<close>

definition u8 :: "int \<Rightarrow> canonical_writer \<Rightarrow> codec_error + canonical_writer" where
  "u8 value w =
     (if value < 0 \<or> value > 0xff then Inl (U8Range value)
      else Inr (push [word_of_int value] w))"

definition u16 :: "int \<Rightarrow> canonical_writer \<Rightarrow> codec_error + canonical_writer" where
  "u16 value w =
     (if value < 0 \<or> value > 0xffff then Inl (U16Range value)
      else
        let v = (word_of_int value :: 32 word)
        in Inr (push [ucast (signed_drop_bit 8 v AND 0xff), ucast (v AND 0xff)] w))"

definition u32 :: "int \<Rightarrow> canonical_writer \<Rightarrow> codec_error + canonical_writer" where
  "u32 value w =
     (if value < 0 \<or> value > 0xffffffff then Inl (U32Range value)
      else
        let v = (word_of_int value :: 32 word)
        in Inr (push [ucast (drop_bit 24 v AND 0xff), ucast (drop_bit 16 v AND 0xff),
                      ucast (drop_bit 8 v AND 0xff), ucast (v AND 0xff)] w))"

text \<open>\<open>setBigUint64(0, v, false)\<close>: the eight bytes of \<open>v\<close> modulo \<open>2 ^ 64\<close>, big-endian.\<close>

definition pushBigUint64 :: "int \<Rightarrow> canonical_writer \<Rightarrow> canonical_writer" where
  "pushBigUint64 v w = push (be_bytes 8 v) w"

definition u64 :: "int_arg \<Rightarrow> canonical_writer \<Rightarrow> codec_error + canonical_writer" where
  "u64 value w =
     bindE (asBigInt value) (\<lambda>v.
       if v < 0 \<or> v > U64_MAX then Inl (U64Range v) else Inr (pushBigUint64 v w))"

definition i64 :: "int_arg \<Rightarrow> canonical_writer \<Rightarrow> codec_error + canonical_writer" where
  "i64 value w =
     bindE (asBigInt value) (\<lambda>v.
       if v < I64_MIN \<or> v > I64_MAX then Inl (I64Range v)
       else Inr (pushBigUint64 (take_bit 64 v) w))"

definition bytes_field :: "bytes \<Rightarrow> canonical_writer \<Rightarrow> codec_error + canonical_writer" where
  "bytes_field value w = bindE (u32 (int (length value)) w) (\<lambda>w. Inr (push value w))"

definition str :: "js_string \<Rightarrow> canonical_writer \<Rightarrow> codec_error + canonical_writer" where
  "str value w = bytes_field (utf8_encode value) w"

definition hash32 :: "bytes \<Rightarrow> canonical_writer \<Rightarrow> codec_error + canonical_writer" where
  "hash32 value w =
     (if length value \<noteq> 32 then Inl (HashLength (length value)) else Inr (push value w))"

definition account :: "bytes \<Rightarrow> canonical_writer \<Rightarrow> codec_error + canonical_writer" where
  "account value w =
     (if length value \<noteq> 16 then Inl (AccountLength (length value)) else Inr (push value w))"

definition grains :: "int \<Rightarrow> canonical_writer \<Rightarrow> codec_error + canonical_writer" where
  "grains value w = i64 (BigInt value) w"

definition timestamp :: "int_arg \<Rightarrow> canonical_writer \<Rightarrow> codec_error + canonical_writer" where
  "timestamp value w = i64 value w"

definition accountList :: "bytes list \<Rightarrow> canonical_writer \<Rightarrow> codec_error + canonical_writer" where
  "accountList value w = bindE (u32 (int (length value)) w) (foldE account value)"

text \<open>
  \<open>finish\<close> copies the chunks into a zeroed array of the recorded length, each at the running
  offset; \<open>set\<close> throws when a chunk would not fit.
\<close>

primrec finish_from :: "bytes list \<Rightarrow> nat \<Rightarrow> bytes \<Rightarrow> codec_error + bytes" where
  "finish_from [] offset out = Inr out"
| "finish_from (c # cs) offset out =
     bindE (optE ArraySetRange (array_set out c offset)) (finish_from cs (offset + length c))"

definition finish :: "canonical_writer \<Rightarrow> codec_error + bytes" where
  "finish w = finish_from (chunks w) 0 (replicate (wlength w) 0)"

section \<open>What the writer holds\<close>

definition writer_ok :: "canonical_writer \<Rightarrow> bool" where
  "writer_ok w \<longleftrightarrow> wlength w = length (concat (chunks w))"

definition contents :: "canonical_writer \<Rightarrow> bytes" where
  "contents w = concat (chunks w)"

lemma finish_from_chunks:
  "length out = n \<Longrightarrow> length r = length (concat cs) \<Longrightarrow>
   finish_from cs n (out @ r) = Inr (out @ concat cs)"
proof (induction cs arbitrary: out n r)
  case (Cons c cs)
  then have "finish_from cs (n + length c) ((out @ c) @ drop (length c) r) = Inr ((out @ c) @ concat cs)"
    by (intro Cons.IH) auto
  with Cons.prems show ?case by (simp add: array_set_append)
qed simp

lemma finish_contents: "writer_ok w \<Longrightarrow> finish w = Inr (contents w)"
  using finish_from_chunks [of "[]" 0 "replicate (wlength w) 0" "chunks w"]
  by (simp add: finish_def writer_ok_def contents_def)

lemma writer_ok_new [simp]: "writer_ok new_writer"
  by (simp add: writer_ok_def new_writer_def)

lemma contents_new [simp]: "contents new_writer = []"
  by (simp add: contents_def new_writer_def)

interpretation cw: byte_sink writer_ok contents push
  by unfold_locales (auto simp: writer_ok_def contents_def push_def)

section \<open>What each method writes\<close>

definition u8_bytes :: "int \<Rightarrow> codec_error + bytes" where
  "u8_bytes v = (if v < 0 \<or> v > 0xff then Inl (U8Range v) else Inr (be_bytes 1 v))"

definition u16_bytes :: "int \<Rightarrow> codec_error + bytes" where
  "u16_bytes v = (if v < 0 \<or> v > 0xffff then Inl (U16Range v) else Inr (be_bytes 2 v))"

definition u32_bytes :: "int \<Rightarrow> codec_error + bytes" where
  "u32_bytes v = (if v < 0 \<or> v > 0xffffffff then Inl (U32Range v) else Inr (be_bytes 4 v))"

definition u64_bytes :: "int_arg \<Rightarrow> codec_error + bytes" where
  "u64_bytes a = bindE (asBigInt a) (\<lambda>v. if v < 0 \<or> v > U64_MAX then Inl (U64Range v) else Inr (be_bytes 8 v))"

definition i64_bytes :: "int_arg \<Rightarrow> codec_error + bytes" where
  "i64_bytes a =
     bindE (asBigInt a) (\<lambda>v. if v < I64_MIN \<or> v > I64_MAX then Inl (I64Range v) else Inr (be_bytes 8 v))"

definition blob_bytes :: "bytes \<Rightarrow> codec_error + bytes" where
  "blob_bytes b = concatE [u32_bytes (int (length b)), Inr b]"

definition sized_bytes :: "nat \<Rightarrow> (nat \<Rightarrow> codec_error) \<Rightarrow> bytes \<Rightarrow> codec_error + bytes" where
  "sized_bytes n e b = (if length b \<noteq> n then Inl (e (length b)) else Inr b)"

definition list_bytes :: "bytes list \<Rightarrow> codec_error + bytes" where
  "list_bytes as =
     concatE [u32_bytes (int (length as)), concatE (map (sized_bytes 16 AccountLength) as)]"

lemma byte_mask: "(0xff :: 32 word) = mask 8"
  by (simp add: mask_eq_exp_minus_1)

lemma low_byte_of:
  "k + 8 \<le> 32 \<Longrightarrow> ucast (drop_bit k (word_of_int v :: 32 word) AND 0xff) = (word_of_int (drop_bit k v) :: byte)"
  unfolding byte_mask by (rule bit_word_eqI) (auto simp: bit_simps)

lemma signed_low_byte_of:
  "k + 8 \<le> 32 \<Longrightarrow>
   ucast (signed_drop_bit k (word_of_int v :: 32 word) AND 0xff) = (word_of_int (drop_bit k v) :: byte)"
  unfolding byte_mask by (rule bit_word_eqI) (auto simp: bit_simps)

lemma u16_be:
  "[ucast (signed_drop_bit 8 (word_of_int v :: 32 word) AND 0xff),
    ucast ((word_of_int v :: 32 word) AND 0xff)] = be_bytes 2 v"
  using signed_low_byte_of [of 8 v] low_byte_of [of 0 v] by (simp add: numeral_2_eq_2)

lemma u32_be:
  "[ucast (drop_bit 24 (word_of_int v :: 32 word) AND 0xff), ucast (drop_bit 16 (word_of_int v :: 32 word) AND 0xff),
    ucast (drop_bit 8 (word_of_int v :: 32 word) AND 0xff), ucast ((word_of_int v :: 32 word) AND 0xff)] = be_bytes 4 v"
  using low_byte_of [of 24 v] low_byte_of [of 16 v] low_byte_of [of 8 v] low_byte_of [of 0 v]
  by (simp add: eval_nat_numeral)

lemma be_bytes_take_bit: "be_bytes n (take_bit (8 * n) v) = be_bytes n v"
  by (simp add: be_bytes_eq_iff take_bit_eq_mod pow_256)

lemma u8_writes: "cw.writes (u8 v) (u8_bytes v)"
proof -
  have "[word_of_int v] = be_bytes 1 v" by simp
  then show ?thesis
    unfolding u8_def u8_bytes_def by (auto intro!: cw.writes_if cw.writes_throw cw.writes_emit)
qed

lemma u16_writes: "cw.writes (u16 v) (u16_bytes v)"
  unfolding u16_def u16_bytes_def Let_def u16_be
  by (auto intro!: cw.writes_if cw.writes_throw cw.writes_emit)

lemma u32_writes: "cw.writes (u32 v) (u32_bytes v)"
  unfolding u32_def u32_bytes_def Let_def u32_be
  by (auto intro!: cw.writes_if cw.writes_throw cw.writes_emit)

lemma u64_writes: "cw.writes (u64 a) (u64_bytes a)"
  unfolding u64_def [abs_def] u64_bytes_def pushBigUint64_def
  by (intro cw.writes_bind cw.writes_if cw.writes_throw cw.writes_emit)

lemma i64_writes: "cw.writes (i64 a) (i64_bytes a)"
proof -
  have "be_bytes 8 (take_bit 64 v) = be_bytes 8 v" for v
    using be_bytes_take_bit [of 8 v] by simp
  then show ?thesis
    unfolding i64_def [abs_def] i64_bytes_def pushBigUint64_def
    by (auto intro!: cw.writes_bind cw.writes_if cw.writes_throw cw.writes_emit)
qed

lemma bytes_field_writes: "cw.writes (bytes_field b) (blob_bytes b)"
  unfolding bytes_field_def [abs_def] blob_bytes_def
  by (intro cw.writes_then u32_writes cw.writes_emit)

lemma str_writes: "cw.writes (str s) (blob_bytes (utf8_encode s))"
  unfolding str_def [abs_def] by (rule bytes_field_writes)

lemma hash32_writes: "cw.writes (hash32 b) (sized_bytes 32 HashLength b)"
  unfolding hash32_def [abs_def] sized_bytes_def
  by (intro cw.writes_if cw.writes_throw cw.writes_emit)

lemma account_writes: "cw.writes (account b) (sized_bytes 16 AccountLength b)"
  unfolding account_def [abs_def] sized_bytes_def
  by (intro cw.writes_if cw.writes_throw cw.writes_emit)

lemma grains_writes: "cw.writes (grains v) (i64_bytes (BigInt v))"
  unfolding grains_def [abs_def] by (rule i64_writes)

lemma timestamp_writes: "cw.writes (timestamp a) (i64_bytes a)"
  unfolding timestamp_def [abs_def] by (rule i64_writes)

lemma accountList_writes: "cw.writes (accountList as) (list_bytes as)"
  unfolding accountList_def [abs_def] list_bytes_def
  by (intro cw.writes_then u32_writes cw.writes_loop account_writes)

lemmas method_writes = u8_writes u16_writes u32_writes u64_writes i64_writes bytes_field_writes
  str_writes hash32_writes account_writes grains_writes timestamp_writes accountList_writes

text \<open>Running a chain of methods on a new writer and finishing it.\<close>

definition run_writer :: "(canonical_writer \<Rightarrow> codec_error + canonical_writer) \<Rightarrow> codec_error + bytes" where
  "run_writer op = bindE (op new_writer) finish"

lemma run_writer_writes: "cw.writes op r \<Longrightarrow> run_writer op = r"
  using cw.writes_Inl [of op _ new_writer] cw.writes_Inr [of op _ new_writer]
  by (cases r) (fastforce simp: run_writer_def finish_contents)+

section \<open>Reading the bytes back\<close>

lemma u8_bytes_Inr_iff [result_iff]: "u8_bytes v = Inr b \<longleftrightarrow> 0 \<le> v \<and> v \<le> 0xff \<and> b = be_bytes 1 v"
  by (auto simp: u8_bytes_def not_less)

lemma u16_bytes_Inr_iff [result_iff]: "u16_bytes v = Inr b \<longleftrightarrow> 0 \<le> v \<and> v \<le> 0xffff \<and> b = be_bytes 2 v"
  by (auto simp: u16_bytes_def not_less)

lemma u32_bytes_Inr_iff [result_iff]: "u32_bytes v = Inr b \<longleftrightarrow> 0 \<le> v \<and> v \<le> 0xffffffff \<and> b = be_bytes 4 v"
  by (auto simp: u32_bytes_def not_less)

fun int_arg_ok :: "int_arg \<Rightarrow> bool" where
  "int_arg_ok (BigInt v) = True"
| "int_arg_ok (Number v) = isSafeInteger v"

fun int_arg_value :: "int_arg \<Rightarrow> int" where
  "int_arg_value (BigInt v) = v"
| "int_arg_value (Number v) = v"

lemma asBigInt_Inr_iff [result_iff]: "asBigInt a = Inr v \<longleftrightarrow> int_arg_ok a \<and> v = int_arg_value a"
  by (cases a) auto

lemma u64_bytes_Inr_iff [result_iff]:
  "u64_bytes a = Inr b \<longleftrightarrow>
   int_arg_ok a \<and> 0 \<le> int_arg_value a \<and> int_arg_value a \<le> U64_MAX \<and> b = be_bytes 8 (int_arg_value a)"
  by (auto simp: u64_bytes_def result_iff)

lemma i64_bytes_Inr_iff [result_iff]:
  "i64_bytes a = Inr b \<longleftrightarrow>
   int_arg_ok a \<and> I64_MIN \<le> int_arg_value a \<and> int_arg_value a \<le> I64_MAX \<and>
   b = be_bytes 8 (int_arg_value a)"
  by (auto simp: i64_bytes_def result_iff)

lemma sized_bytes_Inr_iff [result_iff]: "sized_bytes n e b = Inr c \<longleftrightarrow> length b = n \<and> c = b"
  by (auto simp: sized_bytes_def)

lemma blob_bytes_Inr_iff [result_iff]:
  "blob_bytes b = Inr c \<longleftrightarrow> length b < 2 ^ 32 \<and> c = be_bytes 4 (int (length b)) @ b"
proof -
  have "int (length b) \<le> 0xffffffff \<longleftrightarrow> length b < 2 ^ 32" by auto
  then show ?thesis by (auto simp: blob_bytes_def result_iff)
qed

lemma concatE_sized: "concatE (map (sized_bytes n e) bs) = Inr c \<longleftrightarrow> list_all (\<lambda>b. length b = n) bs \<and> c = concat bs"
  by (induction bs arbitrary: c) (auto simp: result_iff)

lemma list_bytes_Inr_iff [result_iff]:
  "list_bytes bs = Inr c \<longleftrightarrow>
   length bs < 2 ^ 32 \<and> list_all (\<lambda>b. length b = 16) bs \<and> c = be_bytes 4 (int (length bs)) @ concat bs"
proof -
  have "int (length bs) \<le> 0xffffffff \<longleftrightarrow> length bs < 2 ^ 32" by auto
  then show ?thesis by (auto simp: list_bytes_def result_iff concatE_sized)
qed

lemma be_bytes_inj_range:
  assumes "be_bytes n v = be_bytes n w" and "\<bar>v - w\<bar> < 256 ^ n"
  shows "v = w"
proof -
  have "256 ^ n dvd v - w" using assms(1) by (simp add: be_bytes_eq_iff mod_eq_dvd_iff)
  then show ?thesis using assms(2) zdvd_imp_le [of "256 ^ n" "\<bar>v - w\<bar>"] by fastforce
qed

interpretation u64_code: prefix_code "be_bytes 8" "\<lambda>v. 0 \<le> v \<and> v \<le> U64_MAX"
  by (rule fixed_width_prefix_code [where n = 8])
    (auto simp: U64_MAX_def elim!: be_bytes_inj_range)

interpretation i64_code: prefix_code "be_bytes 8" "\<lambda>v. I64_MIN \<le> v \<and> v \<le> I64_MAX"
  by (rule fixed_width_prefix_code [where n = 8])
    (auto simp: I64_MIN_def I64_MAX_def elim!: be_bytes_inj_range)

interpretation u32_code: prefix_code "be_bytes 4" "\<lambda>v. 0 \<le> v \<and> v \<le> 0xffffffff"
  by (rule fixed_width_prefix_code [where n = 4]) (auto elim!: be_bytes_inj_range)

interpretation u16_code: prefix_code "be_bytes 2" "\<lambda>v. 0 \<le> v \<and> v \<le> 0xffff"
  by (rule fixed_width_prefix_code [where n = 2]) (auto elim!: be_bytes_inj_range)

interpretation u8_code: prefix_code "be_bytes (Suc 0)" "\<lambda>v. 0 \<le> v \<and> v \<le> 0xff"
  by (rule fixed_width_prefix_code [where n = 1])
    (auto elim!: be_bytes_inj_range simp del: be_bytes.simps)

interpretation blob_code:
  prefix_code "\<lambda>b. be_bytes 4 (int (length b)) @ b" "\<lambda>b :: bytes. length b < 2 ^ 32"
proof
  fix x y r s :: bytes
  assume ok: "length x < 2 ^ 32" "length y < 2 ^ 32"
    and "(be_bytes 4 (int (length x)) @ x) @ r = (be_bytes 4 (int (length y)) @ y) @ s"
  then have eq: "be_bytes 4 (int (length x)) @ x @ r = be_bytes 4 (int (length y)) @ y @ s"
    by (simp only: append_assoc)
  have "0 \<le> int (length x) \<and> int (length x) \<le> 0xffffffff"
    "0 \<le> int (length y) \<and> int (length y) \<le> 0xffffffff" using ok by auto
  from u32_code.enc_split [OF this eq] have "length x = length y" and "x @ r = y @ s" by auto
  then show "x = y \<and> r = s" by simp
qed

interpretation account_code: prefix_code "\<lambda>b. b" "\<lambda>b :: bytes. length b = 16"
  by (rule fixed_width_prefix_code [where n = 16]) auto

lemma account_list_split:
  assumes "length xs < 2 ^ 32" "length ys < 2 ^ 32"
    and "list_all (\<lambda>b. length b = 16) xs" "list_all (\<lambda>b. length b = 16) ys"
    and "be_bytes 4 (int (length xs)) @ concat xs @ r = be_bytes 4 (int (length ys)) @ concat ys @ s"
  shows "xs = ys \<and> r = s"
proof -
  have "int (length xs) \<le> 0xffffffff" "int (length ys) \<le> 0xffffffff" using assms(1,2) by auto
  with assms(5) have "length xs = length ys" and "concat xs @ r = concat ys @ s"
    using u32_code.enc_split [of "int (length xs)" "int (length ys)" "concat xs @ r" "concat ys @ s"] by auto
  then show ?thesis
    using account_code.concat_enc_inj [of xs ys r s] assms(3,4) by (simp add: list_all_iff)
qed

text \<open>Equality of encoded fields, as rewrite rules whose conditions are the range checks.\<close>

lemma u64_code_eq:
  "0 \<le> v \<Longrightarrow> v \<le> U64_MAX \<Longrightarrow> 0 \<le> w \<Longrightarrow> w \<le> U64_MAX \<Longrightarrow> be_bytes 8 v = be_bytes 8 w \<longleftrightarrow> v = w"
  using u64_code.enc_inj by blast

lemma i64_code_eq:
  "I64_MIN \<le> v \<Longrightarrow> v \<le> I64_MAX \<Longrightarrow> I64_MIN \<le> w \<Longrightarrow> w \<le> I64_MAX \<Longrightarrow>
   be_bytes 8 v = be_bytes 8 w \<longleftrightarrow> v = w"
  using i64_code.enc_inj by blast

lemma u32_code_eq:
  "0 \<le> v \<Longrightarrow> v \<le> 0xffffffff \<Longrightarrow> 0 \<le> w \<Longrightarrow> w \<le> 0xffffffff \<Longrightarrow> be_bytes 4 v = be_bytes 4 w \<longleftrightarrow> v = w"
  using u32_code.enc_inj by blast

lemma u16_code_eq:
  "0 \<le> v \<Longrightarrow> v \<le> 0xffff \<Longrightarrow> 0 \<le> w \<Longrightarrow> w \<le> 0xffff \<Longrightarrow> be_bytes 2 v = be_bytes 2 w \<longleftrightarrow> v = w"
  using u16_code.enc_inj by blast

lemma u8_code_eq:
  "0 \<le> v \<Longrightarrow> v \<le> 0xff \<Longrightarrow> 0 \<le> w \<Longrightarrow> w \<le> 0xff \<Longrightarrow> be_bytes (Suc 0) v = be_bytes (Suc 0) w \<longleftrightarrow> v = w"
  using u8_code.enc_inj by blast

lemma blob_code_eq:
  "length x < 2 ^ 32 \<Longrightarrow> length y < 2 ^ 32 \<Longrightarrow>
   be_bytes 4 (int (length x)) @ x = be_bytes 4 (int (length y)) @ y \<longleftrightarrow> x = y"
  using blob_code.enc_inj by blast

lemmas code_eq = u64_code_eq i64_code_eq u32_code_eq u16_code_eq u8_code_eq blob_code_eq

end
