(* ===== verification/Econ_Ledger.thy ===== *)
theory Econ_Ledger
  imports Econ_Canonical
begin

text \<open>
  \<^verbatim>\<open>packages/flora-client-core/src/economy/ledger.ts\<close>: the JSON types of the journal, the
  consensus bytes of entries and heads, the bytes a wallet signs, and the strict parsers at the
  HTTP boundary; \<^verbatim>\<open>domainTags.ts\<close> and \<^verbatim>\<open>hash.ts\<close>. SHA-256 comes from a package outside the
  repository and is the argument \<open>sha256\<close>. A \<open>number\<close> field of the JSON types is an \<open>int\<close>:
  the parsers reject every other number.
\<close>

section \<open>Domain tags and tagged hashes\<close>

definition FEP_PROTOCOL_VERSION :: int where "FEP_PROTOCOL_VERSION = 1"
definition FEP_DOMAIN_PREFIX :: js_string where "FEP_DOMAIN_PREFIX = js ''flora/economy/v1/''"
definition FEP_LEDGER_LEAF :: js_string where "FEP_LEDGER_LEAF = js ''flora/economy/v1/ledger/leaf''"
definition FEP_LEDGER_STH :: js_string where "FEP_LEDGER_STH = js ''flora/economy/v1/ledger/sth''"
definition FEP_MERKLE_LEAF :: js_string where "FEP_MERKLE_LEAF = js ''flora/economy/v1/merkle/leaf''"
definition FEP_MERKLE_NODE :: js_string where "FEP_MERKLE_NODE = js ''flora/economy/v1/merkle/node''"
definition FEP_TRANSFER_AUTH :: js_string where "FEP_TRANSFER_AUTH = js ''flora/economy/v1/transfer/auth''"
definition FEP_TRUSTLINE_AUTH :: js_string where "FEP_TRUSTLINE_AUTH = js ''flora/economy/v1/trustline/auth''"
definition FEP_CREDIT_TRANSFER_AUTH :: js_string where
  "FEP_CREDIT_TRANSFER_AUTH = js ''flora/economy/v1/credit-transfer/auth''"

definition domain_tags :: "js_string list" where
  "domain_tags = [FEP_LEDGER_LEAF, FEP_LEDGER_STH, FEP_MERKLE_LEAF, FEP_MERKLE_NODE,
     FEP_TRANSFER_AUTH, FEP_TRUSTLINE_AUTH, FEP_CREDIT_TRANSFER_AUTH]"

definition zeroHash :: bytes where
  "zeroHash = replicate 32 0"

text \<open>\<open>update\<close> feeds the hasher; \<open>digest\<close> hashes everything fed so far.\<close>

definition sha256Tagged :: "(bytes \<Rightarrow> bytes) \<Rightarrow> js_string \<Rightarrow> bytes list \<Rightarrow> bytes" where
  "sha256Tagged sha256 label parts = sha256 (fold (\<lambda>p fed. fed @ p) parts (utf8Bytes label))"

lemma fold_update: "fold (\<lambda>p fed. fed @ p) parts s = s @ concat parts"
  by (induction parts arbitrary: s) auto

lemma sha256Tagged_concat: "sha256Tagged sha256 label parts = sha256 (utf8Bytes label @ concat parts)"
  by (simp add: sha256Tagged_def fold_update)

section \<open>The JSON types of the journal\<close>

record economy_params =
  demurrage_ppm_per_period :: int
  demurrage_period_ms :: int
  demurrage_exempt_threshold :: int
  ubi_per_epoch :: int
  ubi_epoch_ms :: int
  ubi_max_backfill_epochs :: int
  trustline_max_limit :: int
  credit_path_max_hops :: int

text \<open>\<open>AccountIdJson\<close> is an array whose elements are only checked on use.\<close>

type_synonym account_json = "json list"

datatype ledger_body =
    Genesis int economy_params
  | ParametersUpdated economy_params js_string
  | AccountOpened account_json js_string
  | UbiIssued account_json int int int
  | DemurrageCharged account_json int int
  | Transfer account_json account_json int js_string js_string
  | TrustlineSet account_json account_json int int js_string js_string
  | CreditTransfer "account_json list" int js_string js_string
  | CommonsSpend account_json int js_string

record ledger_entry =
  seq :: int
  entry_at :: int
  prevHash :: js_string
  body :: ledger_body

record ledger_head =
  size :: int
  lastEntryHash :: js_string
  merkleRootHex :: js_string
  head_at :: int

section \<open>Accounts\<close>

primrec account_bytes_loop :: "json list \<Rightarrow> nat \<Rightarrow> codec_error + bytes" where
  "account_bytes_loop [] i = Inr []"
| "account_bytes_loop (v # vs) i =
     (case v of
        JInt n \<Rightarrow>
          if n < 0 \<or> n > 255 then Inl (AccountByteRange i)
          else bindE (account_bytes_loop vs (Suc i)) (\<lambda>bs. Inr (word_of_int n # bs))
      | _ \<Rightarrow> Inl (AccountByteRange i))"

definition accountBytesFromJson :: "account_json \<Rightarrow> codec_error + bytes" where
  "accountBytesFromJson value =
     (if length value \<noteq> 16 then Inl (AccountLength (length value)) else account_bytes_loop value 0)"

definition accountJsonFromBytes :: "bytes \<Rightarrow> codec_error + account_json" where
  "accountJsonFromBytes bs =
     (if length bs \<noteq> 16 then Inl (AccountLength (length bs)) else Inr (map (\<lambda>b. JInt (uint b)) bs))"

definition accountBytesFromUuid :: "js_string \<Rightarrow> codec_error + bytes" where
  "accountBytesFromUuid uuid =
     (let compact = toLowerCase (filter (\<lambda>c. c \<noteq> 45) uuid)
      in if length compact \<noteq> 32 then Inl (BadUuid uuid) else fromHex compact (Some 16))"

definition js_slice :: "nat \<Rightarrow> nat \<Rightarrow> 'a list \<Rightarrow> 'a list" where
  "js_slice a b s = take (b - a) (drop a s)"

definition uuidFromAccountBytes :: "bytes \<Rightarrow> codec_error + js_string" where
  "uuidFromAccountBytes bs =
     (if length bs \<noteq> 16 then Inl (AccountLength (length bs))
      else let hex = toHex bs
        in Inr (js_slice 0 8 hex @ js ''-'' @ js_slice 8 12 hex @ js ''-'' @ js_slice 12 16 hex
                @ js ''-'' @ js_slice 16 20 hex @ js ''-'' @ drop 20 hex))"

section \<open>Consensus bytes\<close>

definition writeParams :: "economy_params \<Rightarrow> canonical_writer \<Rightarrow> codec_error + canonical_writer" where
  "writeParams p =
     chainE [u32 (demurrage_ppm_per_period p), i64 (Number (demurrage_period_ms p)),
       grains (demurrage_exempt_threshold p), grains (ubi_per_epoch p),
       i64 (Number (ubi_epoch_ms p)), u64 (Number (ubi_max_backfill_epochs p)),
       grains (trustline_max_limit p), u8 (credit_path_max_hops p)]"

fun writeBody :: "ledger_body \<Rightarrow> canonical_writer \<Rightarrow> codec_error + canonical_writer" where
  "writeBody (Genesis protocolVersion params) =
     chainE [u8 0, u16 protocolVersion, writeParams params]"
| "writeBody (ParametersUpdated params policyRef) =
     chainE [u8 1, writeParams params, str policyRef]"
| "writeBody (AccountOpened acc ownerKey) =
     chainE [u8 2, argE (accountBytesFromJson acc) account, argE (fromHex ownerKey (Some 32)) bytes_field]"
| "writeBody (UbiIssued acc fromEpoch toEpoch amount) =
     chainE [u8 3, argE (accountBytesFromJson acc) account, u64 (Number fromEpoch), u64 (Number toEpoch),
       grains amount]"
| "writeBody (DemurrageCharged acc periods amount) =
     chainE [u8 4, argE (accountBytesFromJson acc) account, u64 (Number periods), grains amount]"
| "writeBody (Transfer frm to amount nonce signature) =
     chainE [u8 5, argE (accountBytesFromJson frm) account, argE (accountBytesFromJson to) account,
       grains amount, argE (fromHex nonce (Some 16)) bytes_field,
       argE (fromHex signature (Some 64)) bytes_field]"
| "writeBody (TrustlineSet lo hi limitLoToHi limitHiToLo signatureLo signatureHi) =
     chainE [u8 6, argE (accountBytesFromJson lo) account, argE (accountBytesFromJson hi) account,
       grains limitLoToHi, grains limitHiToLo,
       argE (fromHex signatureLo (Some 64)) bytes_field, argE (fromHex signatureHi (Some 64)) bytes_field]"
| "writeBody (CreditTransfer path amount nonce signature) =
     chainE [u8 7, argE (mapE accountBytesFromJson path) accountList, grains amount,
       argE (fromHex nonce (Some 16)) bytes_field, argE (fromHex signature (Some 64)) bytes_field]"
| "writeBody (CommonsSpend to amount policyRef) =
     chainE [u8 8, argE (accountBytesFromJson to) account, grains amount, str policyRef]"

definition entryBodyCanonicalBytes :: "ledger_body \<Rightarrow> codec_error + bytes" where
  "entryBodyCanonicalBytes b = run_writer (writeBody b)"

definition entryBytes :: "ledger_entry \<Rightarrow> codec_error + bytes" where
  "entryBytes entry =
     run_writer (chainE [u64 (Number (seq entry)), timestamp (Number (entry_at entry)),
       argE (fromHex (prevHash entry) (Some 32)) hash32,
       argE (entryBodyCanonicalBytes (body entry)) bytes_field])"

definition entryHash :: "(bytes \<Rightarrow> bytes) \<Rightarrow> ledger_entry \<Rightarrow> codec_error + bytes" where
  "entryHash sha256 entry =
     bindE (entryBytes entry) (\<lambda>bs. Inr (sha256Tagged sha256 FEP_LEDGER_LEAF [bs]))"

definition headCanonicalBytes :: "ledger_head \<Rightarrow> codec_error + bytes" where
  "headCanonicalBytes h =
     run_writer (chainE [u64 (Number (size h)), argE (fromHex (lastEntryHash h) (Some 32)) hash32,
       argE (fromHex (merkleRootHex h) (Some 32)) hash32, timestamp (Number (head_at h))])"

section \<open>The bytes a wallet signs\<close>

definition transferSigningBytes :: "bytes \<Rightarrow> bytes \<Rightarrow> int \<Rightarrow> bytes \<Rightarrow> codec_error + bytes" where
  "transferSigningBytes frm to amountGrains nonce =
     (if length nonce \<noteq> 16 then Inl (NonceLength (length nonce))
      else run_writer (chainE [account frm, account to, grains amountGrains, bytes_field nonce]))"

definition trustlineSigningBytes :: "bytes \<Rightarrow> bytes \<Rightarrow> int \<Rightarrow> int \<Rightarrow> codec_error + bytes" where
  "trustlineSigningBytes lo hi limitLoToHi limitHiToLo =
     run_writer (chainE [account lo, account hi, grains limitLoToHi, grains limitHiToLo])"

definition creditTransferSigningBytes :: "bytes list \<Rightarrow> int \<Rightarrow> bytes \<Rightarrow> codec_error + bytes" where
  "creditTransferSigningBytes path amountGrains nonce =
     (if length nonce \<noteq> 16 then Inl (NonceLength (length nonce))
      else run_writer (chainE [accountList path, grains amountGrains, bytes_field nonce]))"

section \<open>Parsing at the boundary\<close>

text \<open>
  A property read \<open>o[key]\<close> is \<open>None\<close> (\<open>undefined\<close>) when the key is absent. The keys of a
  \<open>JObj\<close> are the distinct own keys that \<open>JSON.parse\<close> leaves.
\<close>

type_synonym json_object = "(js_string \<times> json) list"

fun asRecord :: "json option \<Rightarrow> js_string \<Rightarrow> codec_error + json_object" where
  "asRecord (Some (JObj o')) what = Inr o'"
| "asRecord _ what = Inl (NotObject what)"

definition readSafeInt :: "json_object \<Rightarrow> js_string \<Rightarrow> js_string \<Rightarrow> codec_error + int" where
  "readSafeInt obj key what =
     (case map_of obj key of
        Some (JInt v) \<Rightarrow> if isSafeInteger v then Inr v else Inl (NotInteger what key)
      | _ \<Rightarrow> Inl (NotInteger what key))"

definition readStr :: "json_object \<Rightarrow> js_string \<Rightarrow> js_string \<Rightarrow> codec_error + js_string" where
  "readStr obj key what =
     (case map_of obj key of Some (JStr v) \<Rightarrow> Inr v | _ \<Rightarrow> Inl (NotString what key))"

definition readHex :: "json_object \<Rightarrow> js_string \<Rightarrow> nat \<Rightarrow> js_string \<Rightarrow> codec_error + js_string" where
  "readHex obj key n what =
     bindE (readStr obj key what) (\<lambda>v. bindE (fromHex v (Some n)) (\<lambda>_. Inr v))"

definition readAccount :: "json_object \<Rightarrow> js_string \<Rightarrow> js_string \<Rightarrow> codec_error + account_json" where
  "readAccount obj key what =
     (case map_of obj key of
        Some (JArr v) \<Rightarrow> bindE (accountBytesFromJson v) (\<lambda>_. Inr v)
      | _ \<Rightarrow> Inl (NotAccountArray what key))"

definition parseParams :: "json option \<Rightarrow> js_string \<Rightarrow> codec_error + economy_params" where
  "parseParams value what =
     bindE (asRecord value what) (\<lambda>obj.
     bindE (readSafeInt obj (js ''demurrage_ppm_per_period'') what) (\<lambda>a.
     bindE (readSafeInt obj (js ''demurrage_period_ms'') what) (\<lambda>b.
     bindE (readSafeInt obj (js ''demurrage_exempt_threshold'') what) (\<lambda>c.
     bindE (readSafeInt obj (js ''ubi_per_epoch'') what) (\<lambda>d.
     bindE (readSafeInt obj (js ''ubi_epoch_ms'') what) (\<lambda>e.
     bindE (readSafeInt obj (js ''ubi_max_backfill_epochs'') what) (\<lambda>f.
     bindE (readSafeInt obj (js ''trustline_max_limit'') what) (\<lambda>g.
     bindE (readSafeInt obj (js ''credit_path_max_hops'') what) (\<lambda>h.
     Inr \<lparr>demurrage_ppm_per_period = a, demurrage_period_ms = b, demurrage_exempt_threshold = c,
           ubi_per_epoch = d, ubi_epoch_ms = e, ubi_max_backfill_epochs = f,
           trustline_max_limit = g, credit_path_max_hops = h\<rparr>)))))))))"

definition parseLedgerHead :: "json option \<Rightarrow> codec_error + ledger_head" where
  "parseLedgerHead value =
     (let what = js ''LedgerHead'' in
      bindE (asRecord value what) (\<lambda>obj.
      bindE (readSafeInt obj (js ''size'') what) (\<lambda>n.
      bindE (readHex obj (js ''lastEntryHash'') 32 what) (\<lambda>l.
      bindE (readHex obj (js ''merkleRoot'') 32 what) (\<lambda>m.
      bindE (readSafeInt obj (js ''at'') what) (\<lambda>t.
      Inr \<lparr>size = n, lastEntryHash = l, merkleRootHex = m, head_at = t\<rparr>))))))"

definition parsePathItem :: "nat \<times> json \<Rightarrow> codec_error + account_json" where
  "parsePathItem = (\<lambda>(i, item).
     case item of
       JArr v \<Rightarrow> bindE (accountBytesFromJson v) (\<lambda>_. Inr v)
     | _ \<Rightarrow> Inl (PathItemNotArray i))"

definition parseBody :: "json option \<Rightarrow> codec_error + ledger_body" where
  "parseBody value =
     bindE (asRecord value (js ''EntryBody'')) (\<lambda>obj.
     bindE (readStr obj (js ''kind'') (js ''EntryBody'')) (\<lambda>kind.
       if kind = js ''genesis'' then
         bindE (readSafeInt obj (js ''protocolVersion'') kind) (\<lambda>v.
         bindE (parseParams (map_of obj (js ''params'')) (kind @ js ''.params'')) (\<lambda>p.
         Inr (Genesis v p)))
       else if kind = js ''parametersUpdated'' then
         bindE (parseParams (map_of obj (js ''params'')) (kind @ js ''.params'')) (\<lambda>p.
         bindE (readStr obj (js ''policyRef'') kind) (\<lambda>r.
         Inr (ParametersUpdated p r)))
       else if kind = js ''accountOpened'' then
         bindE (readAccount obj (js ''account'') kind) (\<lambda>a.
         bindE (readHex obj (js ''ownerKey'') 32 kind) (\<lambda>k.
         Inr (AccountOpened a k)))
       else if kind = js ''ubiIssued'' then
         bindE (readAccount obj (js ''account'') kind) (\<lambda>a.
         bindE (readSafeInt obj (js ''fromEpoch'') kind) (\<lambda>f.
         bindE (readSafeInt obj (js ''toEpoch'') kind) (\<lambda>t.
         bindE (readSafeInt obj (js ''amount'') kind) (\<lambda>m.
         Inr (UbiIssued a f t m)))))
       else if kind = js ''demurrageCharged'' then
         bindE (readAccount obj (js ''account'') kind) (\<lambda>a.
         bindE (readSafeInt obj (js ''periods'') kind) (\<lambda>p.
         bindE (readSafeInt obj (js ''amount'') kind) (\<lambda>m.
         Inr (DemurrageCharged a p m))))
       else if kind = js ''transfer'' then
         bindE (readAccount obj (js ''from'') kind) (\<lambda>f.
         bindE (readAccount obj (js ''to'') kind) (\<lambda>t.
         bindE (readSafeInt obj (js ''amount'') kind) (\<lambda>m.
         bindE (readHex obj (js ''nonce'') 16 kind) (\<lambda>n.
         bindE (readHex obj (js ''signature'') 64 kind) (\<lambda>s.
         Inr (Transfer f t m n s))))))
       else if kind = js ''trustlineSet'' then
         bindE (readAccount obj (js ''lo'') kind) (\<lambda>l.
         bindE (readAccount obj (js ''hi'') kind) (\<lambda>h.
         bindE (readSafeInt obj (js ''limitLoToHi'') kind) (\<lambda>x.
         bindE (readSafeInt obj (js ''limitHiToLo'') kind) (\<lambda>y.
         bindE (readHex obj (js ''signatureLo'') 64 kind) (\<lambda>s.
         bindE (readHex obj (js ''signatureHi'') 64 kind) (\<lambda>t.
         Inr (TrustlineSet l h x y s t)))))))
       else if kind = js ''creditTransfer'' then
         bindE (case map_of obj (js ''path'') of Some (JArr p) \<Rightarrow> Inr p | _ \<Rightarrow> Inl PathNotArray) (\<lambda>raw.
         bindE (mapE parsePathItem (enumerate 0 raw)) (\<lambda>p.
         bindE (readSafeInt obj (js ''amount'') kind) (\<lambda>m.
         bindE (readHex obj (js ''nonce'') 16 kind) (\<lambda>n.
         bindE (readHex obj (js ''signature'') 64 kind) (\<lambda>s.
         Inr (CreditTransfer p m n s))))))
       else if kind = js ''commonsSpend'' then
         bindE (readAccount obj (js ''to'') kind) (\<lambda>t.
         bindE (readSafeInt obj (js ''amount'') kind) (\<lambda>m.
         bindE (readStr obj (js ''policyRef'') kind) (\<lambda>r.
         Inr (CommonsSpend t m r))))
       else Inl (UnknownKind kind)))"

definition parseLedgerEntry :: "json option \<Rightarrow> codec_error + ledger_entry" where
  "parseLedgerEntry value =
     (let what = js ''LedgerEntry'' in
      bindE (asRecord value what) (\<lambda>obj.
      bindE (readSafeInt obj (js ''seq'') what) (\<lambda>s.
      bindE (readSafeInt obj (js ''at'') what) (\<lambda>t.
      bindE (readHex obj (js ''prevHash'') 32 what) (\<lambda>h.
      bindE (parseBody (map_of obj (js ''body''))) (\<lambda>b.
      Inr \<lparr>seq = s, entry_at = t, prevHash = h, body = b\<rparr>))))))"

section \<open>Accounts: facts\<close>

lemma account_bytes_loop_iff:
  "account_bytes_loop a i = Inr bs \<longleftrightarrow> a = map (\<lambda>b. JInt (uint b)) bs"
proof (induction a arbitrary: i bs)
  case (Cons v vs)
  show ?case
  proof (cases v)
    case (JInt n)
    have "0 \<le> n \<and> n \<le> 255 \<Longrightarrow> uint (word_of_int n :: byte) = n" by simp
    moreover have "0 \<le> uint b \<and> uint b \<le> 255" for b :: byte
      using uint_lt2p [of b] by simp
    ultimately show ?thesis
      using JInt by (cases bs) (auto simp: result_iff Cons.IH not_less)
  qed (cases bs; auto)+
qed auto

lemma accountBytesFromJson_iff [result_iff]:
  "accountBytesFromJson a = Inr bs \<longleftrightarrow> length bs = 16 \<and> a = map (\<lambda>b. JInt (uint b)) bs"
  by (auto simp: accountBytesFromJson_def account_bytes_loop_iff)

lemma map_JInt_inj [simp]: "map (\<lambda>b. JInt (uint (b :: byte))) xs = map (\<lambda>b. JInt (uint b)) ys \<longleftrightarrow> xs = ys"
  by (auto intro!: inj_eq injI inj_mapI [THEN injD] simp: inj_def)

lemma accountBytesFromUuid_iff:
  "accountBytesFromUuid u = Inr bs \<longleftrightarrow>
   length bs = 16 \<and> toLowerCase (filter (\<lambda>c. c \<noteq> 45) u) = toHex bs"
proof -
  have "length (filter (\<lambda>c. c \<noteq> 45) u) = 32"
    if "toLowerCase (filter (\<lambda>c. c \<noteq> 45) u) = toHex bs" and "length bs = 16"
  proof -
    have "length (toLowerCase (filter (\<lambda>c. c \<noteq> 45) u)) = length (toHex bs)"
      by (simp only: that(1))
    with that(2) show ?thesis by simp
  qed
  then show ?thesis by (auto simp: accountBytesFromUuid_def Let_def result_iff)
qed

lemma hex_no_dash: "filter (\<lambda>c. c \<noteq> 45) (toHex bs) = toHex bs"
proof -
  have "\<forall>n \<in> set [0..<16]. HEX_ALPHABET ! n \<noteq> 45" by code_simp
  then have "n < 16 \<Longrightarrow> HEX_ALPHABET ! n \<noteq> 45" for n by simp
  then show ?thesis using byte_nibbles by (induction bs) auto
qed

lemma toLowerCase_toHex [simp]: "toLowerCase (toHex bs) = toHex bs"
  using tryFromHex_lower [OF tryFromHex_toHex] by simp

lemma take_js_slice: "a \<le> b \<Longrightarrow> take a h @ js_slice a b h = take b h"
  using take_add [of a "b - a" h] by (simp add: js_slice_def)

lemma uuid_without_dashes:
  assumes "uuidFromAccountBytes bs = Inr u"
  shows "length bs = 16" and "filter (\<lambda>c. c \<noteq> 45) u = toHex bs"
proof -
  have "js_slice 0 8 h @ js_slice 8 12 h @ js_slice 12 16 h @ js_slice 16 20 h @ drop 20 h = h" for h :: js_string
  proof -
    have "js_slice 0 8 h = take 8 h" by (simp add: js_slice_def)
    moreover have "take 8 h @ js_slice 8 12 h = take 12 h" "take 12 h @ js_slice 12 16 h = take 16 h"
      "take 16 h @ js_slice 16 20 h = take 20 h" by (rule take_js_slice; simp)+
    ultimately show ?thesis by (metis append_assoc append_take_drop_id)
  qed
  note parts = this [of "toHex bs"]
  show "length bs = 16" using assms by (auto simp: uuidFromAccountBytes_def split: if_splits)
  have "filter (\<lambda>c. c \<noteq> 45) (js_slice a b (toHex bs)) = js_slice a b (toHex bs)"
    and "filter (\<lambda>c. c \<noteq> 45) (drop a (toHex bs)) = drop a (toHex bs)" for a b
    using hex_no_dash [of bs] unfolding filter_id_conv js_slice_def
    by (meson in_set_dropD in_set_takeD)+
  then show "filter (\<lambda>c. c \<noteq> 45) u = toHex bs"
    using assms parts by (auto simp: uuidFromAccountBytes_def Let_def split: if_splits)
qed

section \<open>The consensus bytes as pure functions\<close>

definition params_bytes :: "economy_params \<Rightarrow> codec_error + bytes" where
  "params_bytes p =
     concatE [u32_bytes (demurrage_ppm_per_period p), i64_bytes (Number (demurrage_period_ms p)),
       i64_bytes (BigInt (demurrage_exempt_threshold p)), i64_bytes (BigInt (ubi_per_epoch p)),
       i64_bytes (Number (ubi_epoch_ms p)), u64_bytes (Number (ubi_max_backfill_epochs p)),
       i64_bytes (BigInt (trustline_max_limit p)), u8_bytes (credit_path_max_hops p)]"

definition account_bytes :: "account_json \<Rightarrow> codec_error + bytes" where
  "account_bytes a = bindE (accountBytesFromJson a) (sized_bytes 16 AccountLength)"

definition hex_blob :: "nat \<Rightarrow> js_string \<Rightarrow> codec_error + bytes" where
  "hex_blob n s = bindE (fromHex s (Some n)) blob_bytes"

definition hex_hash :: "js_string \<Rightarrow> codec_error + bytes" where
  "hex_hash s = bindE (fromHex s (Some 32)) (sized_bytes 32 HashLength)"

fun body_bytes :: "ledger_body \<Rightarrow> codec_error + bytes" where
  "body_bytes (Genesis v p) = concatE [u8_bytes 0, u16_bytes v, params_bytes p]"
| "body_bytes (ParametersUpdated p r) = concatE [u8_bytes 1, params_bytes p, blob_bytes (utf8_encode r)]"
| "body_bytes (AccountOpened a k) = concatE [u8_bytes 2, account_bytes a, hex_blob 32 k]"
| "body_bytes (UbiIssued a f t m) =
     concatE [u8_bytes 3, account_bytes a, u64_bytes (Number f), u64_bytes (Number t), i64_bytes (BigInt m)]"
| "body_bytes (DemurrageCharged a n m) =
     concatE [u8_bytes 4, account_bytes a, u64_bytes (Number n), i64_bytes (BigInt m)]"
| "body_bytes (Transfer f t m n s) =
     concatE [u8_bytes 5, account_bytes f, account_bytes t, i64_bytes (BigInt m), hex_blob 16 n, hex_blob 64 s]"
| "body_bytes (TrustlineSet l h x y s t) =
     concatE [u8_bytes 6, account_bytes l, account_bytes h, i64_bytes (BigInt x), i64_bytes (BigInt y),
       hex_blob 64 s, hex_blob 64 t]"
| "body_bytes (CreditTransfer p m n s) =
     concatE [u8_bytes 7, bindE (mapE accountBytesFromJson p) list_bytes, i64_bytes (BigInt m),
       hex_blob 16 n, hex_blob 64 s]"
| "body_bytes (CommonsSpend t m r) =
     concatE [u8_bytes 8, account_bytes t, i64_bytes (BigInt m), blob_bytes (utf8_encode r)]"

lemma writeParams_writes: "cw.writes (writeParams p) (params_bytes p)"
  unfolding writeParams_def params_bytes_def
  by (intro cw.writes_Cons cw.writes_Nil method_writes)

lemma writeBody_writes: "cw.writes (writeBody b) (body_bytes b)"
  by (cases b)
    (simp_all only: writeBody.simps body_bytes.simps account_bytes_def hex_blob_def;
     intro cw.writes_Cons cw.writes_Nil cw.writes_arg method_writes writeParams_writes)+

lemma entryBodyCanonicalBytes_eq: "entryBodyCanonicalBytes b = body_bytes b"
  unfolding entryBodyCanonicalBytes_def by (intro run_writer_writes writeBody_writes)

lemma entryBytes_eq:
  "entryBytes e =
     concatE [u64_bytes (Number (seq e)), i64_bytes (Number (entry_at e)), hex_hash (prevHash e),
       bindE (body_bytes (body e)) blob_bytes]"
  unfolding entryBytes_def hex_hash_def entryBodyCanonicalBytes_eq
  by (intro run_writer_writes cw.writes_Cons cw.writes_Nil cw.writes_arg method_writes)

lemma headCanonicalBytes_eq:
  "headCanonicalBytes h =
     concatE [u64_bytes (Number (size h)), hex_hash (lastEntryHash h), hex_hash (merkleRootHex h),
       i64_bytes (Number (head_at h))]"
  unfolding headCanonicalBytes_def hex_hash_def
  by (intro run_writer_writes cw.writes_Cons cw.writes_Nil cw.writes_arg method_writes)

lemma transferSigningBytes_eq:
  "transferSigningBytes f t m n =
     (if length n \<noteq> 16 then Inl (NonceLength (length n))
      else concatE [sized_bytes 16 AccountLength f, sized_bytes 16 AccountLength t,
        i64_bytes (BigInt m), blob_bytes n])"
proof -
  have "run_writer (chainE [account f, account t, grains m, bytes_field n]) =
    concatE [sized_bytes 16 AccountLength f, sized_bytes 16 AccountLength t,
        i64_bytes (BigInt m), blob_bytes n]"
    by (intro run_writer_writes cw.writes_Cons cw.writes_Nil method_writes)
  then show ?thesis by (simp add: transferSigningBytes_def)
qed

lemma trustlineSigningBytes_eq:
  "trustlineSigningBytes l h x y =
     concatE [sized_bytes 16 AccountLength l, sized_bytes 16 AccountLength h,
       i64_bytes (BigInt x), i64_bytes (BigInt y)]"
  unfolding trustlineSigningBytes_def
  by (intro run_writer_writes cw.writes_Cons cw.writes_Nil method_writes)

lemma creditTransferSigningBytes_eq:
  "creditTransferSigningBytes p m n =
     (if length n \<noteq> 16 then Inl (NonceLength (length n))
      else concatE [list_bytes p, i64_bytes (BigInt m), blob_bytes n])"
proof -
  have "run_writer (chainE [accountList p, grains m, bytes_field n]) =
    concatE [list_bytes p, i64_bytes (BigInt m), blob_bytes n]"
    by (intro run_writer_writes cw.writes_Cons cw.writes_Nil method_writes)
  then show ?thesis by (simp add: creditTransferSigningBytes_def)
qed

lemma account_bytes_iff [result_iff]:
  "account_bytes a = Inr c \<longleftrightarrow> length c = 16 \<and> a = map (\<lambda>b. JInt (uint b)) c"
  by (auto simp: account_bytes_def result_iff)

lemma hex_blob_iff [result_iff]:
  "n < 2 ^ 32 \<Longrightarrow> hex_blob n s = Inr c \<longleftrightarrow>
   (\<exists>b. toLowerCase s = toHex b \<and> length b = n \<and> c = be_bytes 4 (int n) @ b)"
  by (auto simp: hex_blob_def result_iff)

lemma hex_hash_iff [result_iff]:
  "hex_hash s = Inr c \<longleftrightarrow> toLowerCase s = toHex c \<and> length c = 32"
  by (auto simp: hex_hash_def result_iff)

section \<open>What the consensus bytes determine\<close>

text \<open>
  The content of an entry: hex is read case-insensitively and a text counts as the scalar values
  its UTF-8 form carries.
\<close>

fun norm_body :: "ledger_body \<Rightarrow> ledger_body" where
  "norm_body (Genesis v p) = Genesis v p"
| "norm_body (ParametersUpdated p r) = ParametersUpdated p (scalar_values r)"
| "norm_body (AccountOpened a k) = AccountOpened a (toLowerCase k)"
| "norm_body (UbiIssued a f t m) = UbiIssued a f t m"
| "norm_body (DemurrageCharged a n m) = DemurrageCharged a n m"
| "norm_body (Transfer f t m n s) = Transfer f t m (toLowerCase n) (toLowerCase s)"
| "norm_body (TrustlineSet l h x y s t) = TrustlineSet l h x y (toLowerCase s) (toLowerCase t)"
| "norm_body (CreditTransfer p m n s) = CreditTransfer p m (toLowerCase n) (toLowerCase s)"
| "norm_body (CommonsSpend t m r) = CommonsSpend t m (scalar_values r)"

definition norm_entry :: "ledger_entry \<Rightarrow> ledger_entry" where
  "norm_entry e = e\<lparr>prevHash := toLowerCase (prevHash e), body := norm_body (body e)\<rparr>"

definition norm_head :: "ledger_head \<Rightarrow> ledger_head" where
  "norm_head h = h\<lparr>lastEntryHash := toLowerCase (lastEntryHash h), merkleRootHex := toLowerCase (merkleRootHex h)\<rparr>"

fun body_text_ok :: "ledger_body \<Rightarrow> bool" where
  "body_text_ok (ParametersUpdated p r) = is_js_string r"
| "body_text_ok (CommonsSpend t m r) = is_js_string r"
| "body_text_ok _ = True"

fun body_tag :: "ledger_body \<Rightarrow> int" where
  "body_tag (Genesis _ _) = 0"
| "body_tag (ParametersUpdated _ _) = 1"
| "body_tag (AccountOpened _ _) = 2"
| "body_tag (UbiIssued _ _ _ _) = 3"
| "body_tag (DemurrageCharged _ _ _) = 4"
| "body_tag (Transfer _ _ _ _ _) = 5"
| "body_tag (TrustlineSet _ _ _ _ _ _) = 6"
| "body_tag (CreditTransfer _ _ _ _) = 7"
| "body_tag (CommonsSpend _ _ _) = 8"

lemma body_tag_norm [simp]: "body_tag (norm_body b) = body_tag b"
  by (cases b) auto

lemma body_bytes_tag: "body_bytes b = Inr x \<Longrightarrow> \<exists>r. x = be_bytes 1 (body_tag b) @ r"
  by (cases b) (auto simp: result_iff simp del: be_bytes.simps)

lemma params_code: "params_bytes p = Inr x \<Longrightarrow> params_bytes q = Inr y \<Longrightarrow> length x = 53 \<and> (x = y \<longleftrightarrow> p = q)"
  by (cases p; cases q)
    (auto simp: params_bytes_def result_iff code_eq simp del: be_bytes.simps)

lemma path_bytes_iff:
  "mapE accountBytesFromJson p = Inr bs \<longleftrightarrow>
   list_all (\<lambda>b. length b = 16) bs \<and> p = map (map (\<lambda>b. JInt (uint b))) bs"
proof (induction p arbitrary: bs)
  case (Cons a p)
  show ?case by (cases bs) (auto simp: result_iff Cons.IH)
qed auto

lemma path_code_eq:
  assumes "length xs < 2 ^ 32" "length ys < 2 ^ 32"
    and "list_all (\<lambda>b. length b = 16) xs" "list_all (\<lambda>b. length b = 16) ys"
  shows "be_bytes 4 (int (length xs)) @ concat xs @ r = be_bytes 4 (int (length ys)) @ concat ys @ s \<longleftrightarrow>
         xs = ys \<and> r = s"
  using account_list_split [OF assms] by blast

lemma map_map_JInt_inj [simp]:
  "map (map (\<lambda>b. JInt (uint (b :: byte)))) xs = map (map (\<lambda>b. JInt (uint b))) ys \<longleftrightarrow> xs = ys"
proof -
  have "inj (map (\<lambda>b. JInt (uint (b :: byte))))" by (rule injI) simp
  then show ?thesis by (simp add: inj_map_eq_map)
qed

lemma body_bytes_same_tag:
  assumes "body_tag a = body_tag b" and "body_bytes a = Inr x" and "body_bytes b = Inr y"
    and "body_text_ok a" and "body_text_ok b"
  shows "x = y \<longleftrightarrow> norm_body a = norm_body b"
proof (cases a)
  case (Genesis v p)
  then obtain w q where "b = Genesis w q" using assms(1) by (cases b) auto
  moreover from this Genesis assms obtain c d where "params_bytes p = Inr c" "params_bytes q = Inr d"
    and "x = be_bytes 1 0 @ be_bytes 2 v @ c" "y = be_bytes 1 0 @ be_bytes 2 w @ d"
    and "0 \<le> v" "v \<le> 0xffff" "0 \<le> w" "w \<le> 0xffff"
    by (auto simp: result_iff simp del: be_bytes.simps)
  moreover from this have "c = d \<longleftrightarrow> p = q" using params_code by blast
  ultimately show ?thesis using Genesis by (simp add: u16_code_eq del: be_bytes.simps)
next
  case (ParametersUpdated p r)
  then obtain q s where "b = ParametersUpdated q s" using assms(1) by (cases b) auto
  moreover from this ParametersUpdated assms obtain c d where
    "params_bytes p = Inr c" "params_bytes q = Inr d" "is_js_string r" "is_js_string s"
    and "x = be_bytes 1 1 @ c @ be_bytes 4 (int (length (utf8_encode r))) @ utf8_encode r"
    and "y = be_bytes 1 1 @ d @ be_bytes 4 (int (length (utf8_encode s))) @ utf8_encode s"
    and "length (utf8_encode r) < 2 ^ 32" "length (utf8_encode s) < 2 ^ 32"
    by (auto simp: result_iff simp del: be_bytes.simps)
  moreover from this have "c = d \<longleftrightarrow> p = q" "length c = length d" using params_code by (blast, metis)
  moreover from calculation have "utf8_encode r = utf8_encode s \<longleftrightarrow> scalar_values r = scalar_values s"
    using utf8_encode_eq_iff by blast
  ultimately show ?thesis
    using ParametersUpdated by (cases "utf8_encode r = utf8_encode s") (simp_all del: be_bytes.simps)
next
  case (AccountOpened c k)
  then obtain d l where "b = AccountOpened d l" using assms(1) by (cases b) auto
  with AccountOpened assms show ?thesis
    by (auto simp: result_iff code_eq simp del: be_bytes.simps)
next
  case (UbiIssued c f t m)
  then obtain d g u n where "b = UbiIssued d g u n" using assms(1) by (cases b) auto
  with UbiIssued assms show ?thesis
    by (auto simp: result_iff code_eq simp del: be_bytes.simps)
next
  case (DemurrageCharged c f m)
  then obtain d g n where "b = DemurrageCharged d g n" using assms(1) by (cases b) auto
  with DemurrageCharged assms show ?thesis
    by (auto simp: result_iff code_eq simp del: be_bytes.simps)
next
  case (Transfer c d m n s)
  then obtain c' d' m' n' s' where "b = Transfer c' d' m' n' s'" using assms(1) by (cases b) auto
  with Transfer assms show ?thesis
    by (auto simp: result_iff code_eq simp del: be_bytes.simps)
next
  case (TrustlineSet c d m n s t)
  then obtain c' d' m' n' s' t' where "b = TrustlineSet c' d' m' n' s' t'" using assms(1) by (cases b) auto
  with TrustlineSet assms show ?thesis
    by (auto simp: result_iff code_eq simp del: be_bytes.simps)
next
  case (CreditTransfer p m n s)
  then obtain p' m' n' s' where b: "b = CreditTransfer p' m' n' s'" using assms(1) by (cases b) auto
  let ?tail = "\<lambda>m n s. be_bytes 8 m @ be_bytes 4 16 @ n @ be_bytes 4 64 @ s"
  from b CreditTransfer assms obtain xs ys nb nb' sb sb' where
    p: "p = map (map (\<lambda>b. JInt (uint b))) xs" "p' = map (map (\<lambda>b. JInt (uint b))) ys"
    and ok: "length xs < 2 ^ 32" "length ys < 2 ^ 32"
      "list_all (\<lambda>b. length b = 16) xs" "list_all (\<lambda>b. length b = 16) ys"
    and x: "x = be_bytes 1 7 @ be_bytes 4 (int (length xs)) @ concat xs @ ?tail m nb sb"
    and y: "y = be_bytes 1 7 @ be_bytes 4 (int (length ys)) @ concat ys @ ?tail m' nb' sb'"
    and hex: "toLowerCase n = toHex nb" "toLowerCase n' = toHex nb'" "length nb = 16" "length nb' = 16"
      "toLowerCase s = toHex sb" "toLowerCase s' = toHex sb'" "length sb = 64" "length sb' = 64"
    and m: "I64_MIN \<le> m" "m \<le> I64_MAX" "I64_MIN \<le> m'" "m' \<le> I64_MAX"
    by (auto simp: result_iff path_bytes_iff simp del: be_bytes.simps)
  have "x = y \<longleftrightarrow> xs = ys \<and> ?tail m nb sb = ?tail m' nb' sb'"
    unfolding x y same_append_eq by (rule path_code_eq [OF ok])
  with b CreditTransfer p hex m show ?thesis by (simp add: i64_code_eq del: be_bytes.simps)
next
  case (CommonsSpend c m r)
  then obtain d n s where "b = CommonsSpend d n s" using assms(1) by (cases b) auto
  moreover from this CommonsSpend assms have "utf8_encode r = utf8_encode s \<longleftrightarrow> scalar_values r = scalar_values s"
    using utf8_encode_eq_iff by simp
  ultimately show ?thesis
    using CommonsSpend assms
    by (cases "utf8_encode r = utf8_encode s") (auto simp: result_iff code_eq simp del: be_bytes.simps)
qed

lemma body_bytes_eq_iff:
  assumes "body_bytes a = Inr x" and "body_bytes b = Inr y" and "body_text_ok a" and "body_text_ok b"
  shows "x = y \<longleftrightarrow> norm_body a = norm_body b"
proof (cases "body_tag a = body_tag b")
  case True
  then show ?thesis using body_bytes_same_tag assms by blast
next
  case False
  have "0 \<le> body_tag c \<and> body_tag c \<le> 0xff" for c by (cases c) auto
  moreover obtain r s where "x = be_bytes 1 (body_tag a) @ r" "y = be_bytes 1 (body_tag b) @ s"
    using body_bytes_tag assms by blast
  ultimately have "x \<noteq> y"
    using False u8_code.enc_split [of "body_tag a" "body_tag b" r s]
    by (auto simp del: be_bytes.simps)
  moreover have "norm_body a \<noteq> norm_body b" using False body_tag_norm by metis
  ultimately show ?thesis by simp
qed

lemma entryBytes_eq_iff:
  assumes "entryBytes a = Inr x" and "entryBytes b = Inr y"
    and "body_text_ok (body a)" and "body_text_ok (body b)"
  shows "x = y \<longleftrightarrow> norm_entry a = norm_entry b"
proof -
  let ?bytes = "\<lambda>e h c. be_bytes 8 (seq e) @ be_bytes 8 (entry_at e) @ h @ be_bytes 4 (int (length c)) @ c"
  from assms(1,2) obtain h c k d where
    h: "toLowerCase (prevHash a) = toHex h" "length h = 32"
      "toLowerCase (prevHash b) = toHex k" "length k = 32"
    and c: "body_bytes (body a) = Inr c" "length c < 2 ^ 32"
      "body_bytes (body b) = Inr d" "length d < 2 ^ 32"
    and xy: "x = ?bytes a h c" "y = ?bytes b k d"
    and r: "0 \<le> seq a" "seq a \<le> U64_MAX" "0 \<le> seq b" "seq b \<le> U64_MAX"
      "I64_MIN \<le> entry_at a" "entry_at a \<le> I64_MAX" "I64_MIN \<le> entry_at b" "entry_at b \<le> I64_MAX"
    by (auto simp: entryBytes_eq result_iff)
  have "c = d \<longleftrightarrow> norm_body (body a) = norm_body (body b)"
    using body_bytes_eq_iff c assms(3,4) by blast
  moreover have "x = y \<longleftrightarrow> seq a = seq b \<and> entry_at a = entry_at b \<and> h = k \<and> c = d"
    using h r by (cases "c = d") (auto simp: xy u64_code_eq i64_code_eq)
  ultimately show ?thesis using h by (cases a; cases b) (auto simp: norm_entry_def)
qed

lemma headCanonicalBytes_eq_iff:
  assumes "headCanonicalBytes a = Inr x" and "headCanonicalBytes b = Inr y"
  shows "x = y \<longleftrightarrow> norm_head a = norm_head b"
  using assms
  by (cases a; cases b) (auto simp: headCanonicalBytes_eq result_iff norm_head_def code_eq)

section \<open>What the parsers accept\<close>

definition hex_ok :: "nat \<Rightarrow> js_string \<Rightarrow> bool" where
  "hex_ok n s = (case tryFromHex s of None \<Rightarrow> False | Some bs \<Rightarrow> length bs = n)"

definition account_ok :: "account_json \<Rightarrow> bool" where
  "account_ok a = (case accountBytesFromJson a of Inl _ \<Rightarrow> False | Inr _ \<Rightarrow> True)"

definition params_safe :: "economy_params \<Rightarrow> bool" where
  "params_safe p \<longleftrightarrow>
     isSafeInteger (demurrage_ppm_per_period p) \<and> isSafeInteger (demurrage_period_ms p) \<and>
     isSafeInteger (demurrage_exempt_threshold p) \<and> isSafeInteger (ubi_per_epoch p) \<and>
     isSafeInteger (ubi_epoch_ms p) \<and> isSafeInteger (ubi_max_backfill_epochs p) \<and>
     isSafeInteger (trustline_max_limit p) \<and> isSafeInteger (credit_path_max_hops p)"

fun wf_body :: "ledger_body \<Rightarrow> bool" where
  "wf_body (Genesis v p) \<longleftrightarrow> isSafeInteger v \<and> params_safe p"
| "wf_body (ParametersUpdated p r) \<longleftrightarrow> params_safe p"
| "wf_body (AccountOpened a k) \<longleftrightarrow> account_ok a \<and> hex_ok 32 k"
| "wf_body (UbiIssued a f t m) \<longleftrightarrow> account_ok a \<and> isSafeInteger f \<and> isSafeInteger t \<and> isSafeInteger m"
| "wf_body (DemurrageCharged a n m) \<longleftrightarrow> account_ok a \<and> isSafeInteger n \<and> isSafeInteger m"
| "wf_body (Transfer f t m n s) \<longleftrightarrow>
     account_ok f \<and> account_ok t \<and> isSafeInteger m \<and> hex_ok 16 n \<and> hex_ok 64 s"
| "wf_body (TrustlineSet l h x y s t) \<longleftrightarrow>
     account_ok l \<and> account_ok h \<and> isSafeInteger x \<and> isSafeInteger y \<and> hex_ok 64 s \<and> hex_ok 64 t"
| "wf_body (CreditTransfer p m n s) \<longleftrightarrow>
     list_all account_ok p \<and> isSafeInteger m \<and> hex_ok 16 n \<and> hex_ok 64 s"
| "wf_body (CommonsSpend t m r) \<longleftrightarrow> account_ok t \<and> isSafeInteger m"

definition wf_entry :: "ledger_entry \<Rightarrow> bool" where
  "wf_entry e \<longleftrightarrow> isSafeInteger (seq e) \<and> isSafeInteger (entry_at e) \<and> hex_ok 32 (prevHash e) \<and> wf_body (body e)"

lemma hex_ok_iff: "hex_ok n s \<longleftrightarrow> (\<exists>bs. fromHex s (Some n) = Inr bs)"
  by (auto simp: hex_ok_def fromHex_def split: option.splits)

lemma account_ok_iff: "account_ok a \<longleftrightarrow> (\<exists>bs. accountBytesFromJson a = Inr bs)"
  by (auto simp: account_ok_def split: sum.splits)

lemma readSafeInt_iff [result_iff]:
  "readSafeInt obj key what = Inr v \<longleftrightarrow> map_of obj key = Some (JInt v) \<and> isSafeInteger v"
  by (auto simp: readSafeInt_def split: option.splits json.splits)

lemma readStr_iff [result_iff]: "readStr obj key what = Inr v \<longleftrightarrow> map_of obj key = Some (JStr v)"
  by (auto simp: readStr_def split: option.splits json.splits)

lemma readHex_iff [result_iff]:
  "readHex obj key n what = Inr v \<longleftrightarrow> map_of obj key = Some (JStr v) \<and> hex_ok n v"
  unfolding readHex_def bindE_Inr_iff readStr_iff hex_ok_iff by auto

lemma readAccount_iff [result_iff]:
  "readAccount obj key what = Inr v \<longleftrightarrow> map_of obj key = Some (JArr v) \<and> account_ok v"
  unfolding readAccount_def account_ok_iff
  by (auto simp: bindE_Inr_iff simp del: accountBytesFromJson_iff split: option.splits json.splits)

lemma asRecord_iff [result_iff]: "asRecord v what = Inr obj \<longleftrightarrow> v = Some (JObj obj)"
  by (cases "(v, what)" rule: asRecord.cases) auto

lemma parsePathItem_iff [result_iff]: "parsePathItem (i, v) = Inr a \<longleftrightarrow> v = JArr a \<and> account_ok a"
  unfolding parsePathItem_def account_ok_iff
  by (auto simp: bindE_Inr_iff simp del: accountBytesFromJson_iff split: json.splits)

lemma parse_path_iff:
  "mapE parsePathItem (enumerate i raw) = Inr p \<longleftrightarrow> raw = map JArr p \<and> list_all account_ok p"
proof (induction raw arbitrary: i p)
  case (Cons v raw)
  show ?case by (cases p) (auto simp: result_iff Cons.IH)
qed auto

lemma parseParams_wf: "parseParams v what = Inr p \<Longrightarrow> params_safe p"
  by (auto simp: parseParams_def result_iff params_safe_def)

lemma parseBody_wf: "parseBody v = Inr b \<Longrightarrow> wf_body b"
  unfolding parseBody_def bindE_Inr_iff
  by (elim exE conjE)
    (auto simp: result_iff parse_path_iff dest: parseParams_wf split: if_splits option.splits json.splits)

lemma parseLedgerEntry_wf: "parseLedgerEntry v = Inr e \<Longrightarrow> wf_entry e"
  by (auto simp: parseLedgerEntry_def Let_def result_iff wf_entry_def dest: parseBody_wf)

text \<open>The transport form of an entry: the object the server sends.\<close>

definition params_json :: "economy_params \<Rightarrow> json" where
  "params_json p = JObj [
     (js ''demurrage_ppm_per_period'', JInt (demurrage_ppm_per_period p)),
     (js ''demurrage_period_ms'', JInt (demurrage_period_ms p)),
     (js ''demurrage_exempt_threshold'', JInt (demurrage_exempt_threshold p)),
     (js ''ubi_per_epoch'', JInt (ubi_per_epoch p)),
     (js ''ubi_epoch_ms'', JInt (ubi_epoch_ms p)),
     (js ''ubi_max_backfill_epochs'', JInt (ubi_max_backfill_epochs p)),
     (js ''trustline_max_limit'', JInt (trustline_max_limit p)),
     (js ''credit_path_max_hops'', JInt (credit_path_max_hops p))]"

definition kind_json :: "string \<Rightarrow> (string \<times> json) list \<Rightarrow> json" where
  "kind_json k kvs = JObj (map (\<lambda>(key, v). (js key, v)) ((''kind'', JStr (js k)) # kvs))"

fun body_json :: "ledger_body \<Rightarrow> json" where
  "body_json (Genesis v p) = kind_json ''genesis'' [(''protocolVersion'', JInt v), (''params'', params_json p)]"
| "body_json (ParametersUpdated p r) =
     kind_json ''parametersUpdated'' [(''params'', params_json p), (''policyRef'', JStr r)]"
| "body_json (AccountOpened a k) = kind_json ''accountOpened'' [(''account'', JArr a), (''ownerKey'', JStr k)]"
| "body_json (UbiIssued a f t m) = kind_json ''ubiIssued''
     [(''account'', JArr a), (''fromEpoch'', JInt f), (''toEpoch'', JInt t), (''amount'', JInt m)]"
| "body_json (DemurrageCharged a n m) = kind_json ''demurrageCharged''
     [(''account'', JArr a), (''periods'', JInt n), (''amount'', JInt m)]"
| "body_json (Transfer f t m n s) = kind_json ''transfer''
     [(''from'', JArr f), (''to'', JArr t), (''amount'', JInt m), (''nonce'', JStr n), (''signature'', JStr s)]"
| "body_json (TrustlineSet l h x y s t) = kind_json ''trustlineSet''
     [(''lo'', JArr l), (''hi'', JArr h), (''limitLoToHi'', JInt x), (''limitHiToLo'', JInt y),
      (''signatureLo'', JStr s), (''signatureHi'', JStr t)]"
| "body_json (CreditTransfer p m n s) = kind_json ''creditTransfer''
     [(''path'', JArr (map JArr p)), (''amount'', JInt m), (''nonce'', JStr n), (''signature'', JStr s)]"
| "body_json (CommonsSpend t m r) = kind_json ''commonsSpend''
     [(''to'', JArr t), (''amount'', JInt m), (''policyRef'', JStr r)]"

definition entry_json :: "ledger_entry \<Rightarrow> json" where
  "entry_json e = JObj [(js ''seq'', JInt (seq e)), (js ''at'', JInt (entry_at e)),
     (js ''prevHash'', JStr (prevHash e)), (js ''body'', body_json (body e))]"

lemma parse_params_json: "parseParams (Some (params_json p)) what = Inr p \<longleftrightarrow> params_safe p"
  by (cases p) (auto simp: parseParams_def params_json_def result_iff params_safe_def)

lemma parse_body_json: "wf_body b \<Longrightarrow> parseBody (Some (body_json b)) = Inr b"
  by (cases b)
    (simp_all add: parseBody_def kind_json_def bindE_Inr_iff result_iff parse_params_json parse_path_iff)

lemma parse_entry_json: "wf_entry e \<Longrightarrow> parseLedgerEntry (Some (entry_json e)) = Inr e"
  by (cases e)
    (simp add: parseLedgerEntry_def Let_def entry_json_def wf_entry_def bindE_Inr_iff result_iff parse_body_json)

section \<open>When hashing a parsed entry succeeds\<close>

text \<open>The fixed-width fields the parser does not range-check, and the 32-bit length of the body.\<close>

definition params_narrow :: "economy_params \<Rightarrow> bool" where
  "params_narrow p \<longleftrightarrow>
     0 \<le> demurrage_ppm_per_period p \<and> demurrage_ppm_per_period p \<le> 0xffffffff \<and>
     0 \<le> ubi_max_backfill_epochs p \<and> 0 \<le> credit_path_max_hops p \<and> credit_path_max_hops p \<le> 0xff"

fun body_narrow :: "ledger_body \<Rightarrow> bool" where
  "body_narrow (Genesis v p) \<longleftrightarrow> 0 \<le> v \<and> v \<le> 0xffff \<and> params_narrow p"
| "body_narrow (ParametersUpdated p r) \<longleftrightarrow> params_narrow p \<and> length (utf8_encode r) + 58 < 2 ^ 32"
| "body_narrow (UbiIssued a f t m) \<longleftrightarrow> 0 \<le> f \<and> 0 \<le> t"
| "body_narrow (DemurrageCharged a n m) \<longleftrightarrow> 0 \<le> n"
| "body_narrow (CreditTransfer p m n s) \<longleftrightarrow> 16 * length p + 101 < 2 ^ 32"
| "body_narrow (CommonsSpend t m r) \<longleftrightarrow> length (utf8_encode r) + 29 < 2 ^ 32"
| "body_narrow _ \<longleftrightarrow> True"

lemma safe_in_i64: "isSafeInteger v \<Longrightarrow> I64_MIN \<le> v \<and> v \<le> I64_MAX"
  by (simp add: isSafeInteger_def max_safe_int_def I64_MIN_def I64_MAX_def)

lemma safe_in_u64: "isSafeInteger v \<Longrightarrow> v \<le> U64_MAX"
  by (simp add: isSafeInteger_def max_safe_int_def U64_MAX_def)

lemma params_bytes_defined:
  "params_safe p \<Longrightarrow> (\<exists>x. params_bytes p = Inr x \<and> length x = 53) \<longleftrightarrow> params_narrow p"
  using safe_in_i64 safe_in_u64
  by (auto simp: params_bytes_def params_safe_def params_narrow_def result_iff simp del: be_bytes.simps)

lemma hex_blob_defined: "hex_ok n s \<Longrightarrow> n < 2 ^ 32 \<Longrightarrow> \<exists>c. hex_blob n s = Inr c \<and> length c = n + 4"
  by (auto simp: hex_ok_iff result_iff)

lemma account_bytes_defined: "account_ok a \<Longrightarrow> \<exists>c. account_bytes a = Inr c \<and> length c = 16"
  unfolding account_ok_iff account_bytes_iff accountBytesFromJson_iff by auto

lemma path_defined:
  "list_all account_ok p \<Longrightarrow>
   \<exists>bs. mapE accountBytesFromJson p = Inr bs \<and> length bs = length p \<and> list_all (\<lambda>b. length b = 16) bs"
proof (induction p)
  case (Cons a p)
  then obtain b bs where "accountBytesFromJson a = Inr b" "length b = 16"
    "mapE accountBytesFromJson p = Inr bs" "length bs = length p" "list_all (\<lambda>b. length b = 16) bs"
    by (auto simp: account_ok_iff result_iff)
  then show ?case by simp
qed simp

lemma length_concat_accounts: "list_all (\<lambda>b. length b = n) bs \<Longrightarrow> length (concat bs) = n * length bs"
  by (induction bs) auto

definition out_len :: "codec_error + bytes \<Rightarrow> nat option" where
  "out_len r = (case r of Inl _ \<Rightarrow> None | Inr c \<Rightarrow> Some (length c))"

definition add_len :: "nat option \<Rightarrow> nat option \<Rightarrow> nat option" where
  "add_len a b = (case a of None \<Rightarrow> None | Some m \<Rightarrow> map_option (\<lambda>n. m + n) b)"

lemma out_len_Cons: "out_len (concatE (r # rs)) = add_len (out_len r) (out_len (concatE rs))"
  by (cases r; cases "concatE rs") (auto simp: out_len_def add_len_def concatE.simps)

lemma out_len_Nil: "out_len (Inr []) = Some 0"
  by (simp add: out_len_def)

lemma out_len_eq_Some: "out_len r = Some n \<longleftrightarrow> (\<exists>c. r = Inr c \<and> length c = n)"
  by (auto simp: out_len_def split: sum.splits)

lemma out_len_if: "(\<exists>c. r = Inr c \<and> length c = n) \<longleftrightarrow> b \<Longrightarrow> (\<And>c. r = Inr c \<Longrightarrow> length c = n) \<Longrightarrow>
  out_len r = (if b then Some n else None)"
  by (cases r) (auto simp: out_len_def)

lemma out_len_fields:
  "out_len (u8_bytes k) = (if 0 \<le> k \<and> k \<le> 0xff then Some 1 else None)"
  "out_len (u16_bytes k) = (if 0 \<le> k \<and> k \<le> 0xffff then Some 2 else None)"
  "isSafeInteger v \<Longrightarrow> out_len (u64_bytes (Number v)) = (if 0 \<le> v then Some 8 else None)"
  "isSafeInteger v \<Longrightarrow> out_len (i64_bytes (BigInt v)) = Some 8"
  "isSafeInteger v \<Longrightarrow> out_len (i64_bytes (Number v)) = Some 8"
  "account_ok a \<Longrightarrow> out_len (account_bytes a) = Some 16"
  "hex_ok n s \<Longrightarrow> n < 2 ^ 32 \<Longrightarrow> out_len (hex_blob n s) = Some (n + 4)"
  "hex_ok 32 s \<Longrightarrow> out_len (hex_hash s) = Some 32"
  "params_safe p \<Longrightarrow> out_len (params_bytes p) = (if params_narrow p then Some 53 else None)"
  "out_len (blob_bytes b) = (if length b < 2 ^ 32 then Some (length b + 4) else None)"
proof -
  show "out_len (u8_bytes k) = (if 0 \<le> k \<and> k \<le> 0xff then Some 1 else None)"
    by (auto simp: out_len_def u8_bytes_def)
  show "out_len (u16_bytes k) = (if 0 \<le> k \<and> k \<le> 0xffff then Some 2 else None)"
    by (auto simp: out_len_def u16_bytes_def)
  show "isSafeInteger v \<Longrightarrow> out_len (u64_bytes (Number v)) = (if 0 \<le> v then Some 8 else None)"
    using safe_in_u64 [of v] by (auto simp: out_len_def u64_bytes_def)
  show "isSafeInteger v \<Longrightarrow> out_len (i64_bytes (BigInt v)) = Some 8"
    "isSafeInteger v \<Longrightarrow> out_len (i64_bytes (Number v)) = Some 8"
    using safe_in_i64 [of v] by (auto simp: out_len_def i64_bytes_def)
  show "account_ok a \<Longrightarrow> out_len (account_bytes a) = Some 16"
    using account_bytes_defined by (simp add: out_len_eq_Some)
  show "hex_ok n s \<Longrightarrow> n < 2 ^ 32 \<Longrightarrow> out_len (hex_blob n s) = Some (n + 4)"
    using hex_blob_defined by (simp add: out_len_eq_Some)
  show "hex_ok 32 s \<Longrightarrow> out_len (hex_hash s) = Some 32"
    by (auto simp: out_len_eq_Some hex_ok_iff result_iff)
  show "params_safe p \<Longrightarrow> out_len (params_bytes p) = (if params_narrow p then Some 53 else None)"
    using params_code [of p _ p] by (intro out_len_if params_bytes_defined) auto
  show "out_len (blob_bytes b) = (if length b < 2 ^ 32 then Some (length b + 4) else None)"
  proof (cases "blob_bytes b")
    case (Inl e)
    then have "\<not> length b < 2 ^ 32" using blob_bytes_Inr_iff [of b] by fastforce
    with Inl show ?thesis by (simp add: out_len_def)
  next
    case (Inr c)
    then have "length b < 2 ^ 32 \<and> c = be_bytes 4 (int (length b)) @ b"
      by (simp only: blob_bytes_Inr_iff)
    with Inr show ?thesis by (simp add: out_len_def)
  qed
qed

lemma out_len_path:
  assumes "list_all account_ok p"
  shows "out_len (bindE (mapE accountBytesFromJson p) list_bytes) =
    (if length p < 2 ^ 32 then Some (16 * length p + 4) else None)"
proof -
  obtain bs where bs: "mapE accountBytesFromJson p = Inr bs" "length bs = length p"
    "list_all (\<lambda>b. length b = 16) bs" using path_defined [OF assms] by blast
  show ?thesis
  proof (cases "list_bytes bs")
    case (Inl e)
    with bs have "\<not> length p < 2 ^ 32" using list_bytes_Inr_iff [of bs] by fastforce
    with Inl bs show ?thesis by (simp add: out_len_def)
  next
    case (Inr c)
    then have "length bs < 2 ^ 32 \<and> c = be_bytes 4 (int (length bs)) @ concat bs"
      by (simp only: list_bytes_Inr_iff)
    with Inr bs show ?thesis by (simp add: out_len_def length_concat_accounts)
  qed
qed

lemma body_defined:
  assumes "wf_body b"
  shows "(\<exists>c. body_bytes b = Inr c \<and> length c < 2 ^ 32) \<longleftrightarrow> body_narrow b"
proof -
  have "(\<exists>c. body_bytes b = Inr c \<and> length c < 2 ^ 32) \<longleftrightarrow> (\<exists>n. out_len (body_bytes b) = Some n \<and> n < 2 ^ 32)"
    by (auto simp: out_len_eq_Some)
  also have "\<dots> \<longleftrightarrow> body_narrow b"
    using assms
    by (cases b) (auto simp: out_len_Cons out_len_Nil out_len_fields out_len_path add_len_def)
  finally show ?thesis .
qed

lemma entryHash_defined:
  assumes "wf_entry e"
  shows "(\<exists>h. entryHash sha256 e = Inr h) \<longleftrightarrow> 0 \<le> seq e \<and> body_narrow (body e)"
proof -
  have e: "isSafeInteger (seq e)" "isSafeInteger (entry_at e)" "hex_ok 32 (prevHash e)" "wf_body (body e)"
    using assms by (auto simp: wf_entry_def)
  have "(\<exists>h. entryHash sha256 e = Inr h) \<longleftrightarrow> (\<exists>n. out_len (entryBytes e) = Some n)"
    by (auto simp: entryHash_def bindE_Inr_iff out_len_eq_Some)
  also have "\<dots> \<longleftrightarrow> 0 \<le> seq e \<and> (\<exists>c. body_bytes (body e) = Inr c \<and> length c < 2 ^ 32)"
    using e
    by (cases "body_bytes (body e)")
      (auto simp: entryBytes_eq out_len_Cons out_len_Nil out_len_fields add_len_def out_len_def [of "Inl _"])
  finally show ?thesis using body_defined e by simp
qed

lemma entryBytes_defined:
  assumes "wf_entry e" and "0 \<le> seq e" and "body_narrow (body e)"
  obtains x where "entryBytes e = Inr x"
  using entryHash_defined [OF assms(1), of id] assms by (auto simp: entryHash_def bindE_Inr_iff)

section \<open>Properties\<close>

text \<open>
  UUID round trip: the 16 bytes of an account print as a UUID that reads back to the same
  bytes; any other length is refused.
\<close>

theorem uuid_roundtrip:
  "(\<exists>u. uuidFromAccountBytes bs = Inr u \<and> accountBytesFromUuid u = Inr bs) \<longleftrightarrow> length bs = 16"
proof
  show "\<exists>u. uuidFromAccountBytes bs = Inr u \<and> accountBytesFromUuid u = Inr bs \<Longrightarrow> length bs = 16"
    using uuid_without_dashes by blast
  assume "length bs = 16"
  then obtain u where u: "uuidFromAccountBytes bs = Inr u"
    by (auto simp: uuidFromAccountBytes_def Let_def)
  with uuid_without_dashes [OF u] show "\<exists>u. uuidFromAccountBytes bs = Inr u \<and> accountBytesFromUuid u = Inr bs"
    by (auto simp: accountBytesFromUuid_iff)
qed

text \<open>
  C5. The bytes an entry hash covers determine the entry: two entries that serialize have the same
  bytes exactly when their sequence number, time, parent hash and body agree, hex read
  case-insensitively and texts as the scalar values of their UTF-8 form. No two different
  economic events share a hash input.
\<close>

theorem entry_bytes_determine_entry:
  assumes "entryBytes a = Inr x" and "entryBytes b = Inr y"
    and "body_text_ok (body a)" and "body_text_ok (body b)"
  shows "x = y \<longleftrightarrow> norm_entry a = norm_entry b"
  using assms by (rule entryBytes_eq_iff)

text \<open>Sample values, spelled as the client spells decoded bytes.\<close>

definition sample_account :: "byte \<Rightarrow> account_json" where
  "sample_account b = map (\<lambda>b. JInt (uint b)) (replicate 16 b)"

definition sample_hex :: "nat \<Rightarrow> js_string" where
  "sample_hex n = toHex (replicate n 0xab)"

definition sample_entry :: "int \<Rightarrow> int \<Rightarrow> ledger_entry" where
  "sample_entry s m = \<lparr>seq = s, entry_at = 1700000000000, prevHash = sample_hex 32,
     body = Transfer (sample_account 1) (sample_account 2) m (sample_hex 16) (sample_hex 64)\<rparr>"

lemma sample_hex_ok [simp]: "hex_ok n (sample_hex n)"
  by (simp add: hex_ok_def sample_hex_def)

lemma sample_account_ok [simp]: "account_ok (sample_account b)"
  unfolding account_ok_iff accountBytesFromJson_iff sample_account_def
  by (intro exI [of _ "replicate 16 b"]) (simp only: length_replicate)

lemma sample_entry_wf: "isSafeInteger s \<Longrightarrow> isSafeInteger m \<Longrightarrow> wf_entry (sample_entry s m)"
  by (simp add: wf_entry_def sample_entry_def) (simp add: isSafeInteger_def max_safe_int_def)

lemma sample_entry_defined:
  assumes "isSafeInteger s" and "isSafeInteger m" and "0 \<le> s"
  obtains x where "entryBytes (sample_entry s m) = Inr x"
proof (rule entryBytes_defined [OF sample_entry_wf [OF assms(1,2)]])
  show "0 \<le> seq (sample_entry s m)" using assms(3) by (simp add: sample_entry_def)
  show "body_narrow (body (sample_entry s m))" by (simp add: sample_entry_def)
qed (rule that)

lemma small_safe [simp]: "0 \<le> n \<Longrightarrow> n \<le> 1000 \<Longrightarrow> isSafeInteger n"
  by (simp add: isSafeInteger_def max_safe_int_def)

lemma sample_entry_narrow:
  "body_narrow (body (sample_entry s m))" "body_text_ok (body (sample_entry s m))" "seq (sample_entry s m) = s"
  by (simp_all add: sample_entry_def)

theorem entry_bytes_determine_entry_witness:
  "\<exists>x y. entryBytes (sample_entry 1 5) = Inr x \<and> entryBytes (sample_entry 1 6) = Inr y \<and> x \<noteq> y"
proof -
  obtain x where x: "entryBytes (sample_entry 1 5) = Inr x"
    by (rule sample_entry_defined [of 1 5]) simp_all
  obtain y where y: "entryBytes (sample_entry 1 6) = Inr y"
    by (rule sample_entry_defined [of 1 6]) simp_all
  note xy = x y
  have "norm_entry (sample_entry 1 5) \<noteq> norm_entry (sample_entry 1 6)"
    by (simp add: norm_entry_def sample_entry_def)
  then show ?thesis
    using xy entry_bytes_determine_entry [OF xy] sample_entry_narrow(2) by blast
qed

text \<open>
  The bytes a witness signs determine the journal head: size, last entry hash, Merkle root and
  time, the hashes up to the letter case of their hex.
\<close>

theorem head_bytes_determine_head:
  assumes "headCanonicalBytes a = Inr x" and "headCanonicalBytes b = Inr y"
  shows "x = y \<longleftrightarrow> norm_head a = norm_head b"
  using assms by (rule headCanonicalBytes_eq_iff)

definition sample_head :: "int \<Rightarrow> ledger_head" where
  "sample_head n = \<lparr>size = n, lastEntryHash = sample_hex 32, merkleRootHex = sample_hex 32,
     head_at = 1700000000000\<rparr>"

lemma head_defined:
  assumes "isSafeInteger (size h)" "isSafeInteger (head_at h)" "0 \<le> size h"
    and "hex_ok 32 (lastEntryHash h)" "hex_ok 32 (merkleRootHex h)"
  obtains x where "headCanonicalBytes h = Inr x"
proof -
  have "out_len (headCanonicalBytes h) = Some 80"
    using assms by (simp add: headCanonicalBytes_eq out_len_Cons out_len_Nil out_len_fields add_len_def)
  then show thesis using that by (auto simp: out_len_eq_Some)
qed

lemma sample_head_defined:
  assumes "0 \<le> n" and "n \<le> 1000"
  obtains x where "headCanonicalBytes (sample_head n) = Inr x"
proof (rule head_defined [of "sample_head n"])
  show "isSafeInteger (head_at (sample_head n))"
    by (simp add: sample_head_def isSafeInteger_def max_safe_int_def)
qed (use assms that in \<open>simp_all add: sample_head_def\<close>)

theorem head_bytes_determine_head_witness:
  "\<exists>x y. headCanonicalBytes (sample_head 3) = Inr x \<and> headCanonicalBytes (sample_head 4) = Inr y \<and> x \<noteq> y"
proof -
  obtain x where x: "headCanonicalBytes (sample_head 3) = Inr x"
    by (rule sample_head_defined [of 3]) simp_all
  obtain y where y: "headCanonicalBytes (sample_head 4) = Inr y"
    by (rule sample_head_defined [of 4]) simp_all
  have "norm_head (sample_head 3) \<noteq> norm_head (sample_head 4)"
    by (simp add: norm_head_def sample_head_def)
  then show ?thesis using x y head_bytes_determine_head [OF x y] by blast
qed

text \<open>
  C9. The image of the strict parser: \<open>parseLedgerEntry\<close> returns exactly the well-formed entries,
  every hex field decoding to its length, every account 16 bytes, every number a safe integer. An
  unknown kind, a missing key or a wrong type never yields an entry.
\<close>

theorem parse_entry_image: "(\<exists>v. parseLedgerEntry v = Inr e) \<longleftrightarrow> wf_entry e"
  using parseLedgerEntry_wf parse_entry_json by blast

text \<open>
  After parsing, computing the entry hash can fail only on a negative sequence number or on the
  fixed-width fields the parser leaves unchecked (protocol version, ppm rate, hop bound, epoch
  counters) and on bodies of 4 GiB; on every other parsed entry it returns a hash.
\<close>

theorem parsed_entry_hash_defined:
  assumes "parseLedgerEntry v = Inr e"
  shows "(\<exists>h. entryHash sha256 e = Inr h) \<longleftrightarrow> 0 \<le> seq e \<and> body_narrow (body e)"
  using assms by (intro entryHash_defined parseLedgerEntry_wf)

theorem parsed_entry_hash_defined_witness:
  "parseLedgerEntry (Some (entry_json (sample_entry 1 5))) = Inr (sample_entry 1 5) \<and>
   (\<exists>h. entryHash (\<lambda>bs. take 32 bs) (sample_entry 1 5) = Inr h)"
proof -
  have p: "parseLedgerEntry (Some (entry_json (sample_entry 1 5))) = Inr (sample_entry 1 5)"
    by (rule parse_entry_json, rule sample_entry_wf) simp_all
  moreover have "0 \<le> seq (sample_entry 1 5)" by (simp add: sample_entry_narrow)
  ultimately show ?thesis
    using parsed_entry_hash_defined [OF p] sample_entry_narrow(1) by blast
qed

end
