(* ===== verification/Econ_Merkle.thy ===== *)
theory Econ_Merkle
  imports Econ_Ledger
begin

text \<open>
  \<^verbatim>\<open>packages/flora-client-core/src/economy/merkle.ts\<close>: leaf and node hashes, the Merkle root,
  and the verification of inclusion and consistency proofs. Bitwise operators of the language work
  on 32 bits, so \<open>k << 1\<close> and \<open>oldSize & (oldSize - 1)\<close> are operations on \<open>32 word\<close>; a call that
  never returns is \<open>None\<close>. The reference tree of RFC 6962 (\<open>mth\<close>) has no such bound.
\<close>

section \<open>The code\<close>

definition merkleLeafHash :: "(bytes \<Rightarrow> bytes) \<Rightarrow> bytes \<Rightarrow> bytes" where
  "merkleLeafHash sha256 d = sha256Tagged sha256 FEP_MERKLE_LEAF [d]"

definition merkleNodeHash :: "(bytes \<Rightarrow> bytes) \<Rightarrow> bytes \<Rightarrow> bytes \<Rightarrow> bytes" where
  "merkleNodeHash sha256 left right = sha256Tagged sha256 FEP_MERKLE_NODE [left, right]"

text \<open>\<open>while (k << 1 < n) k <<= 1\<close>: the shifts wrap to a signed 32-bit number.\<close>

partial_function (option) largest_pow2_loop :: "32 word \<Rightarrow> int \<Rightarrow> 32 word option" where
  "largest_pow2_loop k n =
     (if sint (push_bit 1 k) < n then largest_pow2_loop (push_bit 1 k) n else Some k)"

definition largestPowerOfTwoBelow :: "int \<Rightarrow> int option" where
  "largestPowerOfTwoBelow n = map_option sint (largest_pow2_loop 1 n)"

partial_function (option) merkleRoot :: "(bytes \<Rightarrow> bytes) \<Rightarrow> bytes list \<Rightarrow> bytes option" where
  "merkleRoot sha256 leaves =
     (if length leaves = 0 then Some (replicate 32 0)
      else if length leaves = 1 then Some (leaves ! 0)
      else
        Option.bind (largestPowerOfTwoBelow (int (length leaves))) (\<lambda>k.
        Option.bind (merkleRoot sha256 (take (nat k) leaves)) (\<lambda>l.
        Option.bind (merkleRoot sha256 (drop (nat k) leaves)) (\<lambda>r.
        Some (merkleNodeHash sha256 l r)))))"

text \<open>\<open>None\<close>: no return; \<open>Some None\<close>: the code's \<open>null\<close>.\<close>

partial_function (option) rootFromInclusionProof ::
  "(bytes \<Rightarrow> bytes) \<Rightarrow> bytes \<Rightarrow> int \<Rightarrow> int \<Rightarrow> bytes list \<Rightarrow> bytes option option" where
  "rootFromInclusionProof sha256 leaf index size' proof' =
     (if index \<ge> size' then Some None
      else if size' = 1 then Some (if length proof' = 0 then Some leaf else None)
      else if length proof' = 0 then Some None
      else
        Option.bind (largestPowerOfTwoBelow size') (\<lambda>k.
          if index < k then
            Option.bind (rootFromInclusionProof sha256 leaf index k (butlast proof')) (\<lambda>left.
              Some (case left of None \<Rightarrow> None | Some l \<Rightarrow> Some (merkleNodeHash sha256 l (last proof'))))
          else
            Option.bind (rootFromInclusionProof sha256 leaf (index - k) (size' - k) (butlast proof')) (\<lambda>right.
              Some (case right of None \<Rightarrow> None | Some r \<Rightarrow> Some (merkleNodeHash sha256 (last proof') r)))))"

definition verifyInclusion ::
  "(bytes \<Rightarrow> bytes) \<Rightarrow> bytes \<Rightarrow> int \<Rightarrow> int \<Rightarrow> bytes list \<Rightarrow> bytes \<Rightarrow> bool option" where
  "verifyInclusion sha256 leaf index treeSize proof' expectedRoot =
     (if \<not> isSafeInteger index \<or> \<not> isSafeInteger treeSize \<or> index < 0 then Some False
      else
        map_option (\<lambda>root. case root of None \<Rightarrow> False | Some r \<Rightarrow> bytesEqual r expectedRoot)
          (rootFromInclusionProof sha256 leaf index treeSize proof'))"

text \<open>\<open>(n & 1) === 1\<close> on a node index; the indices are never negative.\<close>

definition bit0_set :: "nat \<Rightarrow> bool" where
  "bit0_set n \<longleftrightarrow> (word_of_nat n :: 32 word) AND 1 = 1"

lemma bit0_set_iff: "bit0_set n \<longleftrightarrow> odd n"
proof -
  have "(word_of_nat n :: 32 word) AND 1 = of_bool (odd (word_of_nat n :: 32 word))"
    by (simp add: and_one_eq mod_2_eq_odd)
  moreover have "odd (word_of_nat n :: 32 word) \<longleftrightarrow> odd n"
    using bit_word_of_int_iff [where 'a = 32, of "int n" 0] by (simp add: bit_0)
  ultimately show ?thesis by (simp add: bit0_set_def)
qed

function shift_while_odd :: "nat \<Rightarrow> nat \<Rightarrow> nat \<times> nat" where
  "shift_while_odd fnode snode =
     (if bit0_set fnode then shift_while_odd (fnode div 2) (snode div 2) else (fnode, snode))"
  by pat_completeness auto
termination
  by (relation "measure fst") (auto simp: bit0_set_iff elim: oddE)

function shift_while_even :: "nat \<Rightarrow> nat \<Rightarrow> nat \<times> nat" where
  "shift_while_even fnode snode =
     (if fnode \<noteq> 0 \<and> \<not> bit0_set fnode then shift_while_even (fnode div 2) (snode div 2)
      else (fnode, snode))"
  by pat_completeness auto
termination
  by (relation "measure fst") auto

declare shift_while_odd.simps [simp del] shift_while_even.simps [simp del]

text \<open>The loop over the proof: \<open>None\<close> is the early \<open>return false\<close>.\<close>

fun consistency_loop ::
  "(bytes \<Rightarrow> bytes) \<Rightarrow> bytes list \<Rightarrow> nat \<Rightarrow> nat \<Rightarrow> bytes \<Rightarrow> bytes \<Rightarrow> (nat \<times> bytes \<times> bytes) option" where
  "consistency_loop sha256 [] fnode snode fr sr = Some (snode, fr, sr)"
| "consistency_loop sha256 (c # cs) fnode snode fr sr =
     (if snode = 0 then None
      else if bit0_set fnode \<or> fnode = snode then
        let fr = merkleNodeHash sha256 c fr;
            sr = merkleNodeHash sha256 c sr;
            (fnode, snode) = (if \<not> bit0_set fnode then shift_while_even fnode snode else (fnode, snode))
        in consistency_loop sha256 cs (fnode div 2) (snode div 2) fr sr
      else consistency_loop sha256 cs (fnode div 2) (snode div 2) fr (merkleNodeHash sha256 sr c))"

definition verifyConsistency ::
  "(bytes \<Rightarrow> bytes) \<Rightarrow> int \<Rightarrow> int \<Rightarrow> bytes \<Rightarrow> bytes \<Rightarrow> bytes list \<Rightarrow> bool" where
  "verifyConsistency sha256 oldSize newSize oldRoot newRoot proof' =
     (if \<not> isSafeInteger oldSize \<or> \<not> isSafeInteger newSize \<or> oldSize \<le> 0 \<or> oldSize > newSize then False
      else if oldSize = newSize then length proof' = 0 \<and> bytesEqual oldRoot newRoot
      else
        let oldIsPowerOfTwo = ((word_of_int oldSize :: 32 word) AND word_of_int (oldSize - 1) = 0)
        in if \<not> oldIsPowerOfTwo \<and> length proof' = 0 then False
        else
          let first = (if oldIsPowerOfTwo then oldRoot else hd proof');
              rest = (if oldIsPowerOfTwo then proof' else tl proof');
              (fnode, snode) = shift_while_odd (nat (oldSize - 1)) (nat (newSize - 1))
          in case consistency_loop sha256 rest fnode snode first first of
               None \<Rightarrow> False
             | Some (snode, fr, sr) \<Rightarrow> bytesEqual fr oldRoot \<and> bytesEqual sr newRoot \<and> snode = 0)"

section \<open>The split point\<close>

lemma sint_pow2: "j < 31 \<Longrightarrow> sint (2 ^ j :: 32 word) = 2 ^ j"
proof -
  assume "j < 31"
  then have "(2 :: int) ^ j < 2 ^ 31" by (intro power_strict_increasing) auto
  moreover have "(0 :: int) \<le> 2 ^ j" by simp
  ultimately have "signed_take_bit 31 ((2 :: int) ^ j) = 2 ^ j"
    by (intro signed_take_bit_int_eq_self) linarith+
  moreover have "(2 ^ j :: 32 word) = word_of_int (2 ^ j)" by simp
  ultimately show ?thesis by (simp only: sint_sbintrunc') simp
qed

lemma largest_pow2_loop_step:
  "j < 30 \<Longrightarrow> largest_pow2_loop (2 ^ j) n =
     (if 2 ^ Suc j < n then largest_pow2_loop (2 ^ Suc j) n else Some (2 ^ j))"
  using sint_pow2 [of "Suc j"] largest_pow2_loop.simps [of "2 ^ j" n]
  by (simp add: push_bit_eq_mult mult.commute)

text \<open>The split point of RFC 6962: the greatest power of two below \<open>n\<close>.\<close>

fun pow2_below :: "nat \<Rightarrow> nat" where
  "pow2_below n = (if n \<le> 2 then 1 else 2 * pow2_below ((n + 1) div 2))"

declare pow2_below.simps [simp del]

lemma pow2_below_bounds: "2 \<le> n \<Longrightarrow> \<exists>j. pow2_below n = 2 ^ j \<and> 2 ^ j < n \<and> n \<le> 2 * 2 ^ j"
proof (induction n rule: pow2_below.induct)
  case (1 n)
  show ?case
  proof (cases "n \<le> 2")
    case True
    with 1 show ?thesis using pow2_below.simps [of n] by (intro exI [of _ 0]) simp
  next
    case False
    then have "2 \<le> (n + 1) div 2" by simp
    with False 1 obtain j where j: "pow2_below ((n + 1) div 2) = 2 ^ j" "2 ^ j < (n + 1) div 2"
      "(n + 1) div 2 \<le> 2 * 2 ^ j" by auto
    then have "2 ^ Suc j < n" "n \<le> 2 * 2 ^ Suc j" by auto
    with False j show ?thesis by (intro exI [of _ "Suc j"]) (simp add: pow2_below.simps [of n])
  qed
qed

lemma pow2_below_unique:
  assumes "2 ^ j < n" and "n \<le> 2 * 2 ^ j"
  shows "pow2_below n = 2 ^ j"
proof -
  have "2 \<le> n" using assms(1) by (metis Suc_1 Suc_leI less_one not_less_eq power_eq_0_iff
        zero_neq_numeral le_less_trans one_le_numeral one_le_power not_less less_Suc_eq_le)
  then obtain i where i: "pow2_below n = 2 ^ i" "2 ^ i < n" "n \<le> 2 * 2 ^ i"
    using pow2_below_bounds by blast
  have "(2 :: nat) ^ j < 2 ^ Suc i" "(2 :: nat) ^ i < 2 ^ Suc j" using assms i by auto
  then have "j < Suc i" "i < Suc j" by (meson one_less_numeral_iff power_less_imp_less_exp semiring_norm(76))+
  with i show ?thesis by (simp add: less_Suc_eq_le)
qed

lemma pow2_below_less: "2 \<le> n \<Longrightarrow> pow2_below n < n"
  using pow2_below_bounds by force

lemma pow2_below_pos: "0 < pow2_below n"
  by (induction n rule: pow2_below.induct) (subst pow2_below.simps, auto)

lemma pow2_below_half: "2 \<le> n \<Longrightarrow> n \<le> 2 * pow2_below n"
  using pow2_below_bounds by force

lemma largest_pow2_loop_reaches:
  assumes "j \<le> 29" and "(2 :: int) ^ j < n" and "n \<le> 2 ^ Suc j" and "i \<le> j"
  shows "largest_pow2_loop (2 ^ i) n = Some (2 ^ j)"
  using \<open>i \<le> j\<close>
proof (induction rule: inc_induct)
  case base
  then show ?case using assms by (subst largest_pow2_loop_step) auto
next
  case (step i)
  have "(2 :: int) ^ Suc i \<le> 2 ^ j" using step by (intro power_increasing) auto
  with step assms show ?case by (subst largest_pow2_loop_step) auto
qed

lemma largest_pow2_loop_nonzero: "largest_pow2_loop k n = Some y \<Longrightarrow> \<not> (k = 0 \<and> 0 < n)"
  by (rule largest_pow2_loop.raw_induct [of "\<lambda>k n y. \<not> (k = 0 \<and> 0 < n)" k n y])
    (auto split: if_splits)

lemma largest_pow2_loop_zero: "0 < n \<Longrightarrow> largest_pow2_loop 0 n = None"
  using largest_pow2_loop_nonzero [of 0 n] by (cases "largest_pow2_loop 0 n") auto

lemma largest_pow2_loop_diverges:
  assumes "2 ^ 30 < n" and "i \<le> 30"
  shows "largest_pow2_loop (2 ^ i) n = None"
  using assms(2)
proof (induction rule: inc_induct)
  case base
  have wrap: "(0x100000000 :: 32 word) = 0" by simp
  have "push_bit 1 (2 ^ 30 :: 32 word) = 0x80000000" "push_bit 1 (0x80000000 :: 32 word) = 0"
    "sint (0x80000000 :: 32 word) < n" using assms(1) by simp_all
  then have "largest_pow2_loop (2 ^ 30) n = largest_pow2_loop 0 n"
    using assms(1) by (subst largest_pow2_loop.simps, subst largest_pow2_loop.simps) (simp add: wrap)
  with assms(1) show ?case by (simp add: largest_pow2_loop_zero)
next
  case (step i)
  have "(2 :: int) ^ Suc i \<le> 2 ^ 30" using step by (intro power_increasing) auto
  with step assms show ?case by (subst largest_pow2_loop_step) auto
qed

lemma largestPowerOfTwoBelow_pow2:
  assumes "2 \<le> n" and "n \<le> 2 ^ 30"
  shows "largestPowerOfTwoBelow (int n) = Some (int (pow2_below n))"
proof -
  obtain j where j: "pow2_below n = 2 ^ j" "2 ^ j < n" "n \<le> 2 * 2 ^ j"
    using pow2_below_bounds assms by blast
  have "(2 :: nat) ^ j < 2 ^ 30" using j assms by linarith
  then have "j \<le> 29" using power_less_imp_less_exp [of "2 :: nat" j 30] by simp
  moreover have "(2 :: int) ^ j < int n" "int n \<le> 2 ^ Suc j"
    using j(2,3) of_nat_less_iff [of "2 ^ j" n, where 'a = int] of_nat_le_iff [of n "2 * 2 ^ j", where 'a = int]
    by simp_all
  ultimately have "largest_pow2_loop (2 ^ 0) (int n) = Some (2 ^ j)"
    using largest_pow2_loop_reaches by blast
  with j \<open>j \<le> 29\<close> show ?thesis by (simp add: largestPowerOfTwoBelow_def sint_pow2)
qed

lemma largestPowerOfTwoBelow_diverges: "2 ^ 30 < n \<Longrightarrow> largestPowerOfTwoBelow n = None"
  using largest_pow2_loop_diverges [of n 0] by (simp add: largestPowerOfTwoBelow_def)

section \<open>The reference tree\<close>

text \<open>The Merkle Tree Hash of RFC 6962 over leaf hashes, and every string it feeds to the hash.\<close>

definition node_input :: "bytes \<Rightarrow> bytes \<Rightarrow> bytes" where
  "node_input l r = utf8Bytes FEP_MERKLE_NODE @ l @ r"

lemma merkleNodeHash_input: "merkleNodeHash sha256 l r = sha256 (node_input l r)"
  by (simp add: merkleNodeHash_def sha256Tagged_concat node_input_def)

lemma node_input_inj: "length l = 32 \<Longrightarrow> length l' = 32 \<Longrightarrow> node_input l r = node_input l' r' \<longleftrightarrow> l = l' \<and> r = r'"
  by (simp add: node_input_def)

lemma split_lengths:
  assumes "\<not> length xs \<le> 1"
  shows "length (take (pow2_below (length xs)) xs) < length xs" "length (drop (pow2_below (length xs)) xs) < length xs"
    "min (length xs) (pow2_below (length xs)) < length xs" "length xs - pow2_below (length xs) < length xs"
  using pow2_below_less [of "length xs"] pow2_below_pos [of "length xs"] assms by auto

function mth :: "(bytes \<Rightarrow> bytes) \<Rightarrow> bytes list \<Rightarrow> bytes" where
  "mth sha256 xs =
     (if length xs = 0 then replicate 32 0
      else if length xs = 1 then xs ! 0
      else let k = pow2_below (length xs)
        in merkleNodeHash sha256 (mth sha256 (take k xs)) (mth sha256 (drop k xs)))"
  by pat_completeness auto
termination
  by (relation "measure (\<lambda>(_, xs). length xs)") (auto simp: split_lengths le_Suc_eq)

declare mth.simps [simp del]

function mth_inputs :: "(bytes \<Rightarrow> bytes) \<Rightarrow> bytes list \<Rightarrow> bytes list" where
  "mth_inputs sha256 xs =
     (if length xs \<le> 1 then []
      else let k = pow2_below (length xs)
        in node_input (mth sha256 (take k xs)) (mth sha256 (drop k xs)) #
           mth_inputs sha256 (take k xs) @ mth_inputs sha256 (drop k xs))"
  by pat_completeness auto
termination
  by (relation "measure (\<lambda>(_, xs). length xs)") (auto simp: split_lengths)

declare mth_inputs.simps [simp del]

lemma mth_single [simp]: "mth sha256 [x] = x"
  by (simp add: mth.simps [of _ "[x]"])

lemma mth_split:
  "2 \<le> length xs \<Longrightarrow> mth sha256 xs =
     sha256 (node_input (mth sha256 (take (pow2_below (length xs)) xs)) (mth sha256 (drop (pow2_below (length xs)) xs)))"
  by (subst mth.simps) (auto simp: Let_def merkleNodeHash_input)

lemma mth_inputs_split:
  "2 \<le> length xs \<Longrightarrow> mth_inputs sha256 xs =
     (let k = pow2_below (length xs)
      in node_input (mth sha256 (take k xs)) (mth sha256 (drop k xs)) #
         mth_inputs sha256 (take k xs) @ mth_inputs sha256 (drop k xs))"
  by (subst mth_inputs.simps) simp

lemma length_mth:
  "(\<And>x. length (sha256 x) = 32) \<Longrightarrow> list_all (\<lambda>h. length h = 32) xs \<Longrightarrow> length (mth sha256 xs) = 32"
  by (subst mth.simps) (simp add: Let_def merkleNodeHash_input list_all_length)

lemma merkleRoot_mth: "length xs \<le> 2 ^ 30 \<Longrightarrow> merkleRoot sha256 xs = Some (mth sha256 xs)"
proof (induction sha256 xs rule: mth.induct)
  case (1 sha256 xs)
  show ?case
  proof (cases "length xs \<le> 1")
    case True
    then show ?thesis by (subst merkleRoot.simps, subst mth.simps) (auto simp: le_Suc_eq)
  next
    case False
    then have "largestPowerOfTwoBelow (int (length xs)) = Some (int (pow2_below (length xs)))"
      using 1 by (intro largestPowerOfTwoBelow_pow2) auto
    with False 1 show ?thesis by (subst merkleRoot.simps, subst mth.simps) (simp add: Let_def)
  qed
qed

section \<open>Inclusion\<close>

text \<open>\<open>rootFromInclusionProof\<close> on any tree size, the proof read from the top, and what it hashes.\<close>

fun incl_root :: "(bytes \<Rightarrow> bytes) \<Rightarrow> bytes \<Rightarrow> nat \<Rightarrow> nat \<Rightarrow> bytes list \<Rightarrow> bytes option" where
  "incl_root sha256 leaf i n [] = (if i < n \<and> n = 1 then Some leaf else None)"
| "incl_root sha256 leaf i n (p # ps) =
     (if n \<le> i \<or> n = 1 then None
      else let k = pow2_below n in
        if i < k then map_option (\<lambda>l. sha256 (node_input l p)) (incl_root sha256 leaf i k ps)
        else map_option (\<lambda>r. sha256 (node_input p r)) (incl_root sha256 leaf (i - k) (n - k) ps))"

fun incl_inputs :: "(bytes \<Rightarrow> bytes) \<Rightarrow> bytes \<Rightarrow> nat \<Rightarrow> nat \<Rightarrow> bytes list \<Rightarrow> bytes list" where
  "incl_inputs sha256 leaf i n [] = []"
| "incl_inputs sha256 leaf i n (p # ps) =
     (let k = pow2_below n in
      if i < k then
        (case incl_root sha256 leaf i k ps of None \<Rightarrow> [] | Some l \<Rightarrow> [node_input l p])
          @ incl_inputs sha256 leaf i k ps
      else
        (case incl_root sha256 leaf (i - k) (n - k) ps of None \<Rightarrow> [] | Some r \<Rightarrow> [node_input p r])
          @ incl_inputs sha256 leaf (i - k) (n - k) ps)"

lemma rootFromInclusionProof_eq:
  "n \<le> 2 ^ 30 \<Longrightarrow>
   rootFromInclusionProof sha256 leaf (int i) (int n) proof' = Some (incl_root sha256 leaf i n (rev proof'))"
proof (induction proof' arbitrary: i n rule: rev_induct)
  case Nil
  then show ?case by (subst rootFromInclusionProof.simps) auto
next
  case (snoc p ps)
  show ?case
  proof (cases "n \<le> i \<or> n = 1")
    case True
    then show ?thesis by (subst rootFromInclusionProof.simps) auto
  next
    case False
    then have n: "2 \<le> n" by auto
    then have k: "largestPowerOfTwoBelow (int n) = Some (int (pow2_below n))"
      using snoc.prems by (rule largestPowerOfTwoBelow_pow2)
    show ?thesis
    proof (cases "i < pow2_below n")
      case True
      have "rootFromInclusionProof sha256 leaf (int i) (int (pow2_below n)) ps =
            Some (incl_root sha256 leaf i (pow2_below n) (rev ps))"
        using snoc.prems pow2_below_less [OF n] by (intro snoc.IH) simp
      with False True k show ?thesis
        by (subst rootFromInclusionProof.simps)
          (auto simp: Let_def merkleNodeHash_input split: option.splits)
    next
      case right: False
      have "int i - int (pow2_below n) = int (i - pow2_below n)"
        "int n - int (pow2_below n) = int (n - pow2_below n)"
        using right pow2_below_less [OF n] by (simp_all add: of_nat_diff)
      then have "rootFromInclusionProof sha256 leaf (int i - int (pow2_below n)) (int n - int (pow2_below n)) ps =
            Some (incl_root sha256 leaf (i - pow2_below n) (n - pow2_below n) (rev ps))"
        using snoc.prems snoc.IH [of "n - pow2_below n" "i - pow2_below n"] by (simp only:)
      then show ?thesis using False right k
        by (subst rootFromInclusionProof.simps) (auto simp: Let_def merkleNodeHash_input split: option.splits)
    qed
  qed
qed

lemma length_incl_root:
  assumes "\<And>x. length (sha256 x) = 32" and "length leaf = 32"
  shows "incl_root sha256 leaf i n ps = Some r \<Longrightarrow> length r = 32"
proof (cases ps)
  case (Cons p ps')
  moreover assume "incl_root sha256 leaf i n ps = Some r"
  ultimately show ?thesis using assms by (auto simp: Let_def split: if_splits)
qed (use assms in \<open>auto split: if_splits\<close>)

lemma incl_root_sound:
  assumes len: "\<And>x. length (sha256 x) = 32" and leaf: "length leaf = 32"
  shows "incl_root sha256 leaf i (length xs) ps = Some (mth sha256 xs) \<Longrightarrow>
    list_all (\<lambda>h. length h = 32) xs \<Longrightarrow> list_all (\<lambda>h. length h = 32) ps \<Longrightarrow>
    inj_on sha256 (set (mth_inputs sha256 xs) \<union> set (incl_inputs sha256 leaf i (length xs) ps)) \<Longrightarrow>
    i < length xs \<and> leaf = xs ! i"
proof (induction ps arbitrary: i xs)
  case Nil
  then show ?case by (cases xs) (auto split: if_splits)
next
  case (Cons p ps)
  let ?k = "pow2_below (length xs)"
  from Cons.prems(1) have i: "i < length xs" and n: "2 \<le> length xs" by (auto split: if_splits)
  have k: "?k < length xs" using pow2_below_less [OF n] .
  have ok: "list_all (\<lambda>h. length h = 32) (take ?k xs)" "list_all (\<lambda>h. length h = 32) (drop ?k xs)"
    using Cons.prems(2) by (auto simp: list_all_iff dest: in_set_takeD in_set_dropD)
  note root_len = length_mth [of sha256, OF len] length_incl_root [of sha256, OF len leaf]
  show ?case
  proof (cases "i < ?k")
    case True
    from Cons.prems(1) True i n obtain l where l: "incl_root sha256 leaf i ?k ps = Some l"
      and eq: "sha256 (node_input l p) = mth sha256 xs" by (auto simp: Let_def split: if_splits)
    have "node_input l p = node_input (mth sha256 (take ?k xs)) (mth sha256 (drop ?k xs))"
    proof (rule inj_onD [OF Cons.prems(4)])
      show "sha256 (node_input l p) = sha256 (node_input (mth sha256 (take ?k xs)) (mth sha256 (drop ?k xs)))"
        by (simp only: eq mth_split [OF n])
    qed (use True l in \<open>simp_all add: mth_inputs_split [OF n] Let_def\<close>)
    then have "l = mth sha256 (take ?k xs)"
      using node_input_inj root_len ok l by blast
    moreover have "inj_on sha256 (set (mth_inputs sha256 (take ?k xs)) \<union> set (incl_inputs sha256 leaf i ?k ps))"
      using Cons.prems(4) True n by (auto simp: mth_inputs_split [OF n] Let_def elim!: inj_on_subset)
    ultimately have "i < length (take ?k xs) \<and> leaf = take ?k xs ! i"
      using Cons.prems(3) l k ok by (intro Cons.IH) (simp_all add: min_absorb2)
    then show ?thesis using i by simp
  next
    case False
    from Cons.prems(1) False i n obtain r where r: "incl_root sha256 leaf (i - ?k) (length xs - ?k) ps = Some r"
      and eq: "sha256 (node_input p r) = mth sha256 xs" by (auto simp: Let_def split: if_splits)
    have "node_input p r = node_input (mth sha256 (take ?k xs)) (mth sha256 (drop ?k xs))"
    proof (rule inj_onD [OF Cons.prems(4)])
      show "sha256 (node_input p r) = sha256 (node_input (mth sha256 (take ?k xs)) (mth sha256 (drop ?k xs)))"
        by (simp only: eq mth_split [OF n])
    qed (use False r in \<open>simp_all add: mth_inputs_split [OF n] Let_def\<close>)
    then have "r = mth sha256 (drop ?k xs)"
      using node_input_inj root_len ok Cons.prems(3) by simp
    moreover have "inj_on sha256 (set (mth_inputs sha256 (drop ?k xs)) \<union>
        set (incl_inputs sha256 leaf (i - ?k) (length xs - ?k) ps))"
      using Cons.prems(4) False n by (auto simp: mth_inputs_split [OF n] Let_def elim!: inj_on_subset)
    ultimately have "i - ?k < length (drop ?k xs) \<and> leaf = drop ?k xs ! (i - ?k)"
      using Cons.prems(3) r ok by (intro Cons.IH) simp_all
    then show ?thesis using i False by simp
  qed
qed

text \<open>The proof a server builds for leaf \<open>i\<close>: the siblings, from the root down.\<close>

function incl_path :: "(bytes \<Rightarrow> bytes) \<Rightarrow> bytes list \<Rightarrow> nat \<Rightarrow> bytes list" where
  "incl_path sha256 xs i =
     (if length xs \<le> 1 then []
      else let k = pow2_below (length xs) in
        if i < k then mth sha256 (drop k xs) # incl_path sha256 (take k xs) i
        else mth sha256 (take k xs) # incl_path sha256 (drop k xs) (i - k))"
  by pat_completeness auto
termination
  by (relation "measure (\<lambda>(_, xs, _). length xs)") (auto simp: split_lengths)

declare incl_path.simps [simp del]

lemma incl_root_path: "i < length xs \<Longrightarrow> incl_root sha256 (xs ! i) i (length xs) (incl_path sha256 xs i) = Some (mth sha256 xs)"
proof (induction sha256 xs i rule: incl_path.induct)
  case (1 sha256 xs i)
  show ?case
  proof (cases "length xs \<le> 1")
    case True
    with 1 obtain x where "xs = [x]" by (cases xs) auto
    with 1 show ?thesis by (simp add: incl_path.simps [of _ "[x]"])
  next
    case False
    let ?k = "pow2_below (length xs)"
    have k: "?k < length xs" using False by (intro pow2_below_less) simp
    show ?thesis
    proof (cases "i < ?k")
      case True
      with 1 False k have "incl_root sha256 (xs ! i) i ?k (incl_path sha256 (take ?k xs) i) = Some (mth sha256 (take ?k xs))"
        by (simp add: min_absorb2)
      with True False 1 k show ?thesis
        by (subst incl_path.simps) (simp add: Let_def mth_split [of xs])
    next
      case right: False
      with 1 False k have "incl_root sha256 (xs ! i) (i - ?k) (length xs - ?k) (incl_path sha256 (drop ?k xs) (i - ?k)) =
          Some (mth sha256 (drop ?k xs))" by simp
      with right False 1 k show ?thesis
        by (subst incl_path.simps) (simp add: Let_def mth_split [of xs])
    qed
  qed
qed

lemma merkleRoot_diverges: "2 ^ 30 < length xs \<Longrightarrow> merkleRoot sha256 xs = None"
  by (subst merkleRoot.simps) (auto simp: largestPowerOfTwoBelow_diverges)

lemma verifyInclusion_path:
  assumes "i < length leaves" and "length leaves \<le> 2 ^ 30"
  shows "verifyInclusion sha256 (leaves ! i) (int i) (int (length leaves))
    (rev (incl_path sha256 leaves i)) (mth sha256 leaves) = Some True"
proof -
  have "isSafeInteger (int i)" "isSafeInteger (int (length leaves))"
    using assms by (simp_all add: isSafeInteger_def max_safe_int_def)
  then show ?thesis
    using assms by (simp add: verifyInclusion_def rootFromInclusionProof_eq incl_root_path)
qed

lemma verifyInclusion_sound:
  assumes "\<forall>x. length (sha256 x) = 32" and "length leaf = 32"
    and "list_all (\<lambda>h. length h = 32) leaves" and "list_all (\<lambda>h. length h = 32) proof'"
    and "inj_on sha256 (set (mth_inputs sha256 leaves) \<union>
      set (incl_inputs sha256 leaf (nat index) (length leaves) (rev proof')))"
    and "verifyInclusion sha256 leaf index (int (length leaves)) proof' (mth sha256 leaves) = Some True"
  shows "0 \<le> index \<and> nat index < length leaves \<and> leaf = leaves ! nat index"
proof -
  have idx: "0 \<le> index" using assms(6) by (auto simp: verifyInclusion_def split: if_splits)
  have small: "length leaves \<le> 2 ^ 30 \<or> proof' = [] \<or> int (length leaves) \<le> index"
  proof (rule ccontr)
    assume "\<not> ?thesis"
    then have "rootFromInclusionProof sha256 leaf index (int (length leaves)) proof' = None"
      by (subst rootFromInclusionProof.simps) (auto simp: largestPowerOfTwoBelow_diverges)
    with assms(6) show False by (auto simp: verifyInclusion_def split: if_splits)
  qed
  have "incl_root sha256 leaf (nat index) (length leaves) (rev proof') = Some (mth sha256 leaves)"
  proof (cases "length leaves \<le> 2 ^ 30")
    case True
    with assms(6) idx show ?thesis
      using rootFromInclusionProof_eq [OF True, of sha256 leaf "nat index" proof']
      by (auto simp: verifyInclusion_def split: if_splits option.splits)
  next
    case False
    with small assms(6) idx show ?thesis
      using rootFromInclusionProof.simps [of sha256 leaf index "int (length leaves)" proof']
      by (auto simp: verifyInclusion_def split: if_splits)
  qed
  then show ?thesis
    using incl_root_sound [of sha256 leaf "nat index" leaves "rev proof'"] assms idx by simp
qed

section \<open>Properties\<close>

text \<open>
  \<open>largestPowerOfTwoBelow\<close> returns exactly on sizes up to \<open>2 ^ 30\<close>, and then it is the greatest
  power of two below its argument. Beyond that the 32-bit shift wraps and the loop never ends.
\<close>

theorem largest_power_of_two_below:
  assumes "2 \<le> n"
  shows "largestPowerOfTwoBelow (int n) = Some (int k) \<longleftrightarrow>
    n \<le> 2 ^ 30 \<and> (\<exists>j. k = 2 ^ j) \<and> k < n \<and> n \<le> 2 * k"
proof (cases "n \<le> 2 ^ 30")
  case True
  have "pow2_below n = k \<longleftrightarrow> (\<exists>j. k = 2 ^ j) \<and> k < n \<and> n \<le> 2 * k"
    using pow2_below_bounds [OF assms] pow2_below_unique by auto
  with True show ?thesis by (auto simp: largestPowerOfTwoBelow_pow2 [OF assms])
next
  case False
  then have "largestPowerOfTwoBelow (int n) = None"
    by (intro largestPowerOfTwoBelow_diverges) simp
  with False show ?thesis by simp
qed

theorem largest_power_of_two_below_witness: "largestPowerOfTwoBelow 5 = Some 4"
proof -
  have "\<exists>j. (4 :: nat) = 2 ^ j" by (intro exI [of _ 2]) simp
  then show ?thesis using largest_power_of_two_below [of 5 4] by simp
qed

text \<open>
  C7. \<open>merkleRoot\<close> computes the Merkle Tree Hash of RFC 6962 for every journal of at most
  \<open>2 ^ 30\<close> entries, and does not return on a longer one.
\<close>

theorem merkle_root_is_mth:
  "merkleRoot sha256 leaves = (if length leaves \<le> 2 ^ 30 then Some (mth sha256 leaves) else None)"
  using merkleRoot_mth merkleRoot_diverges by auto

text \<open>
  C6. Completeness of inclusion proofs: for every leaf of a tree of at most \<open>2 ^ 30\<close> leaves the
  audit path of RFC 6962 is accepted, whatever the hash function.
\<close>

theorem inclusion_complete:
  assumes "i < length leaves" and "length leaves \<le> 2 ^ 30"
  shows "verifyInclusion sha256 (leaves ! i) (int i) (int (length leaves))
    (rev (incl_path sha256 leaves i)) (mth sha256 leaves) = Some True"
  using assms by (rule verifyInclusion_path)

definition sample_sha :: "bytes \<Rightarrow> bytes" where
  "sample_sha x = word_of_nat (length x) # replicate 31 0"

definition sample_leaf :: "byte \<Rightarrow> bytes" where
  "sample_leaf b = replicate 32 b"

lemma sample_sha_length: "length (sample_sha x) = 32"
  by (simp add: sample_sha_def)

lemma sample_leaf_length [simp]: "length (sample_leaf b) = 32"
  by (simp add: sample_leaf_def)

theorem inclusion_complete_witness:
  "verifyInclusion sample_sha (sample_leaf 2) 1 2
    (rev (incl_path sample_sha [sample_leaf 1, sample_leaf 2] 1))
    (mth sample_sha [sample_leaf 1, sample_leaf 2]) = Some True"
  using inclusion_complete [of 1 "[sample_leaf 1, sample_leaf 2]" sample_sha] by simp

text \<open>
  Soundness of inclusion proofs: when \<open>verifyInclusion\<close> accepts against the root of a tree of
  32-byte leaf hashes, the leaf is the one at that index, provided the hash has no collision among
  the strings hashed to build that tree and to check that proof.
\<close>

theorem inclusion_sound:
  assumes "\<forall>x. length (sha256 x) = 32" and "length leaf = 32"
    and "list_all (\<lambda>h. length h = 32) leaves" and "list_all (\<lambda>h. length h = 32) proof'"
    and "inj_on sha256 (set (mth_inputs sha256 leaves) \<union>
      set (incl_inputs sha256 leaf (nat index) (length leaves) (rev proof')))"
    and "verifyInclusion sha256 leaf index (int (length leaves)) proof' (mth sha256 leaves) = Some True"
  shows "0 \<le> index \<and> nat index < length leaves \<and> leaf = leaves ! nat index"
  using assms by (rule verifyInclusion_sound)

theorem inclusion_sound_witness:
  "verifyInclusion sample_sha (sample_leaf 2) 1 2 [sample_leaf 1]
     (mth sample_sha [sample_leaf 1, sample_leaf 2]) = Some True \<and>
   sample_leaf 2 = [sample_leaf 1, sample_leaf 2] ! 1"
proof -
  let ?ls = "[sample_leaf 1, sample_leaf 2]"
  have k: "pow2_below 2 = 1" "pow2_below (Suc (Suc 0)) = 1"
    using pow2_below.simps [of 2] by (simp_all add: numeral_2_eq_2)
  have "incl_path sample_sha ?ls 1 = [sample_leaf 1]"
    by (subst incl_path.simps) (simp add: k Let_def incl_path.simps [of _ "[_]"])
  with verifyInclusion_path [of 1 ?ls sample_sha] have v:
    "verifyInclusion sample_sha (sample_leaf 2) 1 (int (length ?ls)) [sample_leaf 1] (mth sample_sha ?ls) = Some True"
    by simp
  have "set (mth_inputs sample_sha ?ls) = {node_input (sample_leaf 1) (sample_leaf 2)}"
    by (subst mth_inputs.simps) (simp add: k Let_def mth_inputs.simps [of _ "[_]"])
  moreover have "set (incl_inputs sample_sha (sample_leaf 2) 1 2 [sample_leaf 1]) \<subseteq> {node_input (sample_leaf 1) (sample_leaf 2)}"
    by (simp add: k)
  ultimately have "inj_on sample_sha (set (mth_inputs sample_sha ?ls) \<union>
      set (incl_inputs sample_sha (sample_leaf 2) (nat 1) (length ?ls) (rev [sample_leaf 1])))"
    by (simp add: inj_on_def k)
  from inclusion_sound [OF _ _ _ _ this v] sample_sha_length v show ?thesis by simp
qed

text \<open>
  C8. A tree size above \<open>2 ^ 30\<close> makes the inclusion check loop forever: whatever the leaf, the root
  and a non-empty proof, the call does not return. The size comes from the head the server sends.
\<close>

theorem inclusion_diverges:
  assumes "2 ^ 30 < treeSize" and "isSafeInteger treeSize" and "0 \<le> index" and "index < treeSize"
  shows "verifyInclusion sha256 leaf index treeSize (p # ps) root = None"
proof -
  have "isSafeInteger index" using assms by (simp add: isSafeInteger_def max_safe_int_def)
  moreover have "rootFromInclusionProof sha256 leaf index treeSize (p # ps) = None"
    using assms by (subst rootFromInclusionProof.simps) (simp add: largestPowerOfTwoBelow_diverges)
  ultimately show ?thesis using assms by (simp add: verifyInclusion_def)
qed

theorem inclusion_diverges_witness:
  "verifyInclusion sample_sha (sample_leaf 1) 0 (2 ^ 30 + 1) [sample_leaf 2] (sample_leaf 3) = None"
  by (rule inclusion_diverges) (simp_all add: isSafeInteger_def max_safe_int_def)

end
