(* ===== verification/Econ_Consistency.thy ===== *)
theory Econ_Consistency
  imports Econ_Merkle
begin

text \<open>
  Why an accepted consistency proof of \<^verbatim>\<open>merkle.ts\<close> means that the journal only grew. The node of
  level \<open>l\<close> and index \<open>i\<close> of a tree covers an aligned slice of its leaves; the loop of
  \<open>verifyConsistency\<close> climbs from the last node of the old tree to the two roots, and read from
  the roots down every hash it used is forced to be the hash of the slice it stands for.
\<close>

section \<open>Nodes as aligned slices\<close>

definition slice :: "nat \<Rightarrow> nat \<Rightarrow> 'a list \<Rightarrow> 'a list" where
  "slice l i xs = take (2 ^ l) (drop (i * 2 ^ l) xs)"

definition node_at :: "(bytes \<Rightarrow> bytes) \<Rightarrow> bytes list \<Rightarrow> nat \<Rightarrow> nat \<Rightarrow> bytes" where
  "node_at sha256 xs l i = mth sha256 (slice l i xs)"

lemma slice_halves:
  "take (2 ^ l) (slice (Suc l) j xs) = slice l (2 * j) xs"
  "drop (2 ^ l) (slice (Suc l) j xs) = slice l (2 * j + 1) xs"
  by (simp_all add: slice_def drop_take algebra_simps min_def)

lemma slice_length_Suc:
  assumes "(2 * j + 1) * 2 ^ l < length xs"
  shows "2 ^ l < length (slice (Suc l) j xs)" "length (slice (Suc l) j xs) \<le> 2 * 2 ^ l"
  using assms by (auto simp: slice_def algebra_simps)

lemma pow2_below_slice:
  "(2 * j + 1) * 2 ^ l < length xs \<Longrightarrow> pow2_below (length (slice (Suc l) j xs)) = 2 ^ l"
  using slice_length_Suc by (rule pow2_below_unique)

lemma slice_at_least_2: "(2 * j + 1) * 2 ^ l < length xs \<Longrightarrow> 2 \<le> length (slice (Suc l) j xs)"
  using slice_length_Suc(1) [of j l xs] one_le_power [of "2 :: nat" l] by linarith

lemma node_at_split:
  "(2 * j + 1) * 2 ^ l < length xs \<Longrightarrow>
   node_at sha256 xs (Suc l) j =
     sha256 (node_input (node_at sha256 xs l (2 * j)) (node_at sha256 xs l (2 * j + 1)))"
  by (simp add: node_at_def mth_split [OF slice_at_least_2] pow2_below_slice slice_halves)

lemma slice_last:
  assumes "length xs \<le> (2 * j + 1) * 2 ^ l"
  shows "slice (Suc l) j xs = slice l (2 * j) xs"
  using assms by (simp add: slice_def algebra_simps)

lemma slice_top: "length xs \<le> 2 ^ l \<Longrightarrow> slice l 0 xs = xs"
  by (simp add: slice_def)

lemma slice_inputs_up:
  "set (mth_inputs sha256 (slice l (2 * j) xs)) \<subseteq> set (mth_inputs sha256 (slice (Suc l) j xs))"
  "set (mth_inputs sha256 (slice l (2 * j + 1) xs)) \<subseteq> set (mth_inputs sha256 (slice (Suc l) j xs))"
proof -
  have "set (mth_inputs sha256 (slice l (2 * j) xs)) \<subseteq> set (mth_inputs sha256 (slice (Suc l) j xs)) \<and>
        set (mth_inputs sha256 (slice l (2 * j + 1) xs)) \<subseteq> set (mth_inputs sha256 (slice (Suc l) j xs))"
  proof (cases "(2 * j + 1) * 2 ^ l < length xs")
    case True
    then show ?thesis
      by (simp add: mth_inputs_split [OF slice_at_least_2] pow2_below_slice slice_halves Let_def) blast
  next
    case False
    moreover from this have "slice l (2 * j + 1) xs = []" by (simp add: slice_def)
    ultimately show ?thesis by (simp add: slice_last mth_inputs.simps [of _ "[]"])
  qed
  then show "set (mth_inputs sha256 (slice l (2 * j) xs)) \<subseteq> set (mth_inputs sha256 (slice (Suc l) j xs))"
    "set (mth_inputs sha256 (slice l (2 * j + 1) xs)) \<subseteq> set (mth_inputs sha256 (slice (Suc l) j xs))" by auto
qed

lemma slice_inputs_below:
  "length xs \<le> 2 ^ (l + d) \<Longrightarrow> set (mth_inputs sha256 (slice l i xs)) \<subseteq> set (mth_inputs sha256 xs)"
proof (induction d arbitrary: l i)
  case 0
  show ?case
  proof (cases i)
    case 0
    with "0.prems" show ?thesis by (simp add: slice_top)
  next
    case (Suc i')
    with "0.prems" have "slice l i xs = []" by (simp add: slice_def)
    then show ?thesis by (simp add: mth_inputs.simps [of _ "[]"])
  qed
next
  case (Suc d)
  have "i = 2 * (i div 2) \<or> i = 2 * (i div 2) + 1" by presburger
  then have "set (mth_inputs sha256 (slice l i xs)) \<subseteq> set (mth_inputs sha256 (slice (Suc l) (i div 2) xs))"
    using slice_inputs_up [of sha256 l "i div 2" xs] by metis
  with Suc.IH [of "Suc l" "i div 2"] Suc.prems show ?case by simp
qed

lemma slice_inputs: "set (mth_inputs sha256 (slice l i xs)) \<subseteq> set (mth_inputs sha256 xs)"
proof -
  have "length xs \<le> 2 ^ (l + length xs)"
    by (metis less_exp less_imp_le order.trans le_add2 one_le_numeral power_increasing)
  then show ?thesis by (rule slice_inputs_below)
qed

lemma node_input_in_tree:
  assumes "(2 * j + 1) * 2 ^ l < length xs"
  shows "node_input (node_at sha256 xs l (2 * j)) (node_at sha256 xs l (2 * j + 1)) \<in> set (mth_inputs sha256 xs)"
proof -
  have "node_input (node_at sha256 xs l (2 * j)) (node_at sha256 xs l (2 * j + 1))
      \<in> set (mth_inputs sha256 (slice (Suc l) j xs))"
    using assms
    by (simp add: mth_inputs_split [OF slice_at_least_2] pow2_below_slice slice_halves Let_def node_at_def)
  then show ?thesis using slice_inputs by blast
qed

section \<open>Equal roots, equal leaves\<close>

lemma mth_inj:
  assumes len: "\<And>x. length (sha256 x) = 32"
  shows "length xs = length ys \<Longrightarrow> list_all (\<lambda>h. length h = 32) xs \<Longrightarrow> list_all (\<lambda>h. length h = 32) ys \<Longrightarrow>
    inj_on sha256 (set (mth_inputs sha256 xs) \<union> set (mth_inputs sha256 ys)) \<Longrightarrow>
    mth sha256 xs = mth sha256 ys \<Longrightarrow> xs = ys"
proof (induction "length xs" arbitrary: xs ys rule: less_induct)
  case less
  show ?case
  proof (cases "length xs \<le> 1")
    case True
    then consider "xs = [] \<and> ys = []" | x y where "xs = [x]" "ys = [y]"
      using less.prems(1) by (cases xs; cases ys) auto
    then show ?thesis using less.prems(5) by cases simp_all
  next
    case False
    let ?k = "pow2_below (length xs)"
    have n: "2 \<le> length xs" and n': "2 \<le> length ys" using False less by auto
    note short = split_lengths [OF False]
    have l32: "list_all (\<lambda>h. length h = 32) (take ?k zs)" "list_all (\<lambda>h. length h = 32) (drop ?k zs)"
      if "list_all (\<lambda>h. length h = 32) zs" for zs :: "bytes list"
      using that by (auto simp: list_all_iff dest: in_set_takeD in_set_dropD)
    let ?inp = "\<lambda>zs. node_input (mth sha256 (take ?k zs)) (mth sha256 (drop ?k zs))"
    have "?inp xs = ?inp ys"
    proof (rule inj_onD [OF less.prems(4)])
      show "sha256 (?inp xs) = sha256 (?inp ys)"
        using less.prems(5) mth_split [OF n, of sha256] mth_split [OF n', of sha256] less.prems(1) by simp
      show "?inp xs \<in> set (mth_inputs sha256 xs) \<union> set (mth_inputs sha256 ys)"
        by (simp add: mth_inputs_split [OF n] Let_def)
      show "?inp ys \<in> set (mth_inputs sha256 xs) \<union> set (mth_inputs sha256 ys)"
        by (simp add: mth_inputs_split [OF n'] Let_def less.prems(1))
    qed
    then have eq: "mth sha256 (take ?k xs) = mth sha256 (take ?k ys)" "mth sha256 (drop ?k xs) = mth sha256 (drop ?k ys)"
      using node_input_inj length_mth [of sha256, OF len] l32 less.prems(2,3) by blast+
    have sub: "set (mth_inputs sha256 (take ?k zs)) \<union> set (mth_inputs sha256 (drop ?k zs)) \<subseteq> set (mth_inputs sha256 zs)"
      if "2 \<le> length zs" "length zs = length xs" for zs
      using that by (simp add: mth_inputs_split [OF that(1)] Let_def) blast
    have "take ?k xs = take ?k ys"
      using less.prems eq(1) l32 short sub [OF n] sub [OF n']
      by (intro less.hyps) (auto elim!: inj_on_subset)
    moreover have "drop ?k xs = drop ?k ys"
      using less.prems eq(2) l32 short sub [OF n] sub [OF n']
      by (intro less.hyps) (auto elim!: inj_on_subset)
    ultimately show ?thesis by (metis append_take_drop_id)
  qed
qed

section \<open>The loop over the proof\<close>

text \<open>Every string \<open>consistency_loop\<close> hashes.\<close>

fun consistency_inputs ::
  "(bytes \<Rightarrow> bytes) \<Rightarrow> bytes list \<Rightarrow> nat \<Rightarrow> nat \<Rightarrow> bytes \<Rightarrow> bytes \<Rightarrow> bytes list" where
  "consistency_inputs sha256 [] fnode snode fr sr = []"
| "consistency_inputs sha256 (c # cs) fnode snode fr sr =
     (if snode = 0 then []
      else if bit0_set fnode \<or> fnode = snode then
        let (f, s) = (if \<not> bit0_set fnode then shift_while_even fnode snode else (fnode, snode))
        in node_input c fr # node_input c sr #
           consistency_inputs sha256 cs (f div 2) (s div 2) (merkleNodeHash sha256 c fr) (merkleNodeHash sha256 c sr)
      else node_input sr c #
           consistency_inputs sha256 cs (fnode div 2) (snode div 2) fr (merkleNodeHash sha256 sr c))"

lemma shift_while_odd_result:
  "shift_while_odd f s = (f', s') \<Longrightarrow>
   \<exists>l. f' = f div 2 ^ l \<and> s' = s div 2 ^ l \<and> even f' \<and> f = f' * 2 ^ l + (2 ^ l - 1)"
proof (induction f s rule: shift_while_odd.induct)
  case (1 f s)
  show ?case
  proof (cases "bit0_set f")
    case True
    with 1 obtain l where l: "f' = f div 2 div 2 ^ l" "s' = s div 2 div 2 ^ l" "even f'"
      "f div 2 = f' * 2 ^ l + (2 ^ l - 1)" by (auto simp: shift_while_odd.simps [of f s])
    have "f = 2 * (f div 2) + 1" using True by (simp add: bit0_set_iff)
    moreover have "(1 :: nat) \<le> 2 ^ l" by simp
    ultimately have "f = f' * 2 ^ Suc l + (2 ^ Suc l - 1)"
      unfolding power_Suc using l(4) mult.left_commute [of 2 f' "2 ^ l"] by linarith
    with l show ?thesis by (intro exI [of _ "Suc l"]) (simp add: div_mult2_eq)
  next
    case False
    with 1 show ?thesis by (intro exI [of _ 0]) (simp add: shift_while_odd.simps [of f s] bit0_set_iff)
  qed
qed

lemma shift_while_even_result:
  "f \<noteq> 0 \<Longrightarrow> shift_while_even f s = (f', s') \<Longrightarrow>
   \<exists>d. f = f' * 2 ^ d \<and> s' = s div 2 ^ d \<and> odd f'"
proof (induction f s rule: shift_while_even.induct)
  case (1 f s)
  show ?case
  proof (cases "bit0_set f")
    case True
    with 1 show ?thesis by (intro exI [of _ 0]) (simp add: shift_while_even.simps [of f s] bit0_set_iff)
  next
    case False
    then have f: "f = 2 * (f div 2)" "f div 2 \<noteq> 0" using 1 by (auto simp: bit0_set_iff elim!: evenE)
    have "shift_while_even (f div 2) (s div 2) = (f', s')"
      using False "1.prems" by (simp add: shift_while_even.simps [of f s])
    with False f "1.IH" "1.prems"(1) obtain d where d: "f div 2 = f' * 2 ^ d" "s' = s div 2 div 2 ^ d" "odd f'" by auto
    then have "f = f' * 2 ^ Suc d" using f(1) by simp
    with d show ?thesis by (intro exI [of _ "Suc d"]) (simp add: div_mult2_eq)
  qed
qed

lemma div_bounds:
  assumes "f = (m - 1) div 2 ^ l" and "0 < (m :: nat)"
  shows "f * 2 ^ l < m" and "m \<le> (f + 1) * 2 ^ l"
proof -
  have "f * 2 ^ l \<le> m - 1" using assms(1) by simp
  then show "f * 2 ^ l < m" using assms(2) by linarith
  have "m - 1 < (f + 1) * 2 ^ l"
    using assms(1) dividend_less_div_times [of "2 ^ l" "m - 1"] by (simp add: algebra_simps)
  then show "m \<le> (f + 1) * 2 ^ l" by linarith
qed

lemma slice_full: "(i + 1) * 2 ^ l \<le> length xs \<Longrightarrow> length (slice l i xs) = 2 ^ l"
  by (simp add: slice_def algebra_simps)

lemma take_next_slice: "take ((i + 1) * 2 ^ l) xs = take (i * 2 ^ l) xs @ slice l i xs"
  using take_add [of "i * 2 ^ l" "2 ^ l" xs] by (simp add: slice_def algebra_simps)

lemma slice_to_end: "length xs \<le> (i + 1) * 2 ^ l \<Longrightarrow> slice l i xs = drop (i * 2 ^ l) xs"
  by (simp add: slice_def algebra_simps)

lemma length_slice_32: "list_all (\<lambda>h. length h = 32) xs \<Longrightarrow> list_all (\<lambda>h. length h = 32) (slice l i xs)"
  by (auto simp: slice_def list_all_iff dest: in_set_takeD in_set_dropD)

lemma length_node_at:
  "(\<And>x. length (sha256 x) = 32) \<Longrightarrow> list_all (\<lambda>h. length h = 32) xs \<Longrightarrow> length (node_at sha256 xs l i) = 32"
  unfolding node_at_def by (intro length_mth length_slice_32)

text \<open>Reading one combining step backwards: a left sibling that both trees share.\<close>

lemma combine_left:
  assumes len: "\<And>x. length (sha256 x) = 32"
    and l32: "list_all (\<lambda>h. length h = 32) old" "list_all (\<lambda>h. length h = 32) new" "length c = 32"
    and inj: "inj_on sha256 S"
    and sub: "set (mth_inputs sha256 old) \<subseteq> S" "set (mth_inputs sha256 new) \<subseteq> S"
      "node_input c fr \<in> S" "node_input c sr \<in> S"
    and j: "(2 * j + 1) * 2 ^ l < length old" "(2 * j + 1) * 2 ^ l < length new"
    and fr: "sha256 (node_input c fr) = node_at sha256 old (Suc l) j"
    and sr: "sha256 (node_input c sr) = node_at sha256 new (Suc l) j"
    and pre: "take (j * 2 ^ Suc l) old = take (j * 2 ^ Suc l) new"
  shows "fr = node_at sha256 old l (2 * j + 1) \<and> sr = node_at sha256 new l (2 * j + 1) \<and>
    take ((2 * j + 1) * 2 ^ l) old = take ((2 * j + 1) * 2 ^ l) new"
proof -
  have step: "x = node_at sha256 xs l (2 * j + 1) \<and> c = node_at sha256 xs l (2 * j)"
    if "(2 * j + 1) * 2 ^ l < length xs" "sha256 (node_input c x) = node_at sha256 xs (Suc l) j"
      "set (mth_inputs sha256 xs) \<subseteq> S" "node_input c x \<in> S" "list_all (\<lambda>h. length h = 32) xs" for x xs
  proof -
    have "node_input c x = node_input (node_at sha256 xs l (2 * j)) (node_at sha256 xs l (2 * j + 1))"
    proof (rule inj_onD [OF inj])
      show "sha256 (node_input c x) = sha256 (node_input (node_at sha256 xs l (2 * j)) (node_at sha256 xs l (2 * j + 1)))"
        by (simp only: that(2) node_at_split [OF that(1)])
      show "node_input (node_at sha256 xs l (2 * j)) (node_at sha256 xs l (2 * j + 1)) \<in> S"
        using node_input_in_tree [OF that(1)] that(3) by blast
    qed (rule that(4))
    then show ?thesis using node_input_inj length_node_at [of sha256, OF len] that(5) l32(3) by blast
  qed
  note f = step [OF j(1) fr sub(1) sub(3) l32(1)]
  note s = step [OF j(2) sr sub(2) sub(4) l32(2)]
  have full: "length (slice l (2 * j) old) = 2 ^ l" "length (slice l (2 * j) new) = 2 ^ l"
    using j by (auto intro!: slice_full)
  have "slice l (2 * j) old = slice l (2 * j) new"
  proof (rule mth_inj [OF len])
    show "inj_on sha256 (set (mth_inputs sha256 (slice l (2 * j) old)) \<union> set (mth_inputs sha256 (slice l (2 * j) new)))"
      using inj sub slice_inputs by (meson inj_on_subset le_sup_iff order_trans)
    show "mth sha256 (slice l (2 * j) old) = mth sha256 (slice l (2 * j) new)"
      using f s by (simp add: node_at_def)
  qed (use full l32 length_slice_32 in auto)
  moreover have "take ((2 * j) * 2 ^ l) old = take ((2 * j) * 2 ^ l) new"
    using pre by (simp only: power_Suc mult.assoc mult.left_commute [of j 2])
  ultimately have "take ((2 * j + 1) * 2 ^ l) old = take ((2 * j + 1) * 2 ^ l) new"
    unfolding take_next_slice by (simp only:)
  with f s show ?thesis by blast
qed

lemma consistency_loop_sound:
  assumes len: "\<And>x. length (sha256 x) = 32"
    and l32: "list_all (\<lambda>h. length h = 32) old" "list_all (\<lambda>h. length h = 32) new"
    and inj: "inj_on sha256 S"
    and sub: "set (mth_inputs sha256 old) \<subseteq> S" "set (mth_inputs sha256 new) \<subseteq> S"
    and size: "0 < length old" "length old \<le> length new"
  shows "consistency_loop sha256 cs f s fr sr = Some (0, mth sha256 old, mth sha256 new) \<Longrightarrow>
    set (consistency_inputs sha256 cs f s fr sr) \<subseteq> S \<Longrightarrow> list_all (\<lambda>h. length h = 32) cs \<Longrightarrow>
    length sr = 32 \<Longrightarrow> f = (length old - 1) div 2 ^ l \<Longrightarrow> s = (length new - 1) div 2 ^ l \<Longrightarrow>
    fr = node_at sha256 old l f \<and> sr = node_at sha256 new l f \<and> take (f * 2 ^ l) old = take (f * 2 ^ l) new"
proof (induction cs arbitrary: f s fr sr l)
  case Nil
  have new: "0 < length new" using size by linarith
  have "s = 0" using Nil by simp
  then have top: "length new \<le> 2 ^ l" using div_bounds(2) [OF Nil.prems(6) new] by simp
  moreover have "f = 0" using Nil.prems(5) top size by simp
  ultimately show ?case using Nil.prems(1) size by (simp add: node_at_def slice_top)
next
  case (Cons c cs)
  have s0: "s \<noteq> 0" using Cons.prems(1) by (auto split: if_splits)
  have fs: "f \<le> s" using Cons.prems(5,6) size by (simp add: div_le_mono)
  have old: "f * 2 ^ l < length old" "length old \<le> (f + 1) * 2 ^ l"
    using div_bounds [OF Cons.prems(5) size(1)] .
  have new: "s * 2 ^ l < length new" "length new \<le> (s + 1) * 2 ^ l"
    using div_bounds [OF Cons.prems(6) less_le_trans [OF size]] .
  show ?case
  proof (cases "bit0_set f \<or> f = s")
    case left: True
    obtain f' s' where fs': "(if \<not> bit0_set f then shift_while_even f s else (f, s)) = (f', s')"
      by (metis surj_pair)
    have f0: "f \<noteq> 0" using left s0 by (cases "f = 0") (simp_all add: bit0_set_iff)
    obtain d where d: "f = f' * 2 ^ d" "s' = s div 2 ^ d" "odd f'" "bit0_set f \<longrightarrow> d = 0"
    proof (cases "bit0_set f")
      case True
      with fs' show thesis by (intro that [of 0]) (auto simp: bit0_set_iff)
    next
      case False
      with fs' f0 shift_while_even_result [of f s f' s'] show thesis by (auto intro: that)
    qed
    define j where "j = f' div 2"
    have f': "f' = 2 * j + 1" using d(3) by (simp add: j_def)
    have at: "f' * 2 ^ (l + d) = f * 2 ^ l" using d(1) by (simp add: power_add)
    have lvl: "f' div 2 = (length old - 1) div 2 ^ Suc (l + d)" "s' div 2 = (length new - 1) div 2 ^ Suc (l + d)"
    proof -
      have up: "x div 2 ^ Suc (l + d) = x div 2 ^ l div 2 ^ d div 2" for x :: nat
        by (simp only: power_Suc2 power_add div_mult2_eq)
      have "f div 2 ^ d = f'" using d(1) by simp
      then show "f' div 2 = (length old - 1) div 2 ^ Suc (l + d)"
        by (simp only: up Cons.prems(5) [symmetric])
      show "s' div 2 = (length new - 1) div 2 ^ Suc (l + d)"
        by (simp only: up Cons.prems(6) [symmetric] d(2))
    qed
    have ih: "sha256 (node_input c fr) = node_at sha256 old (Suc (l + d)) j \<and>
      sha256 (node_input c sr) = node_at sha256 new (Suc (l + d)) j \<and>
      take (j * 2 ^ Suc (l + d)) old = take (j * 2 ^ Suc (l + d)) new"
      unfolding j_def
    proof (rule Cons.IH [OF _ _ _ _ lvl])
      show "consistency_loop sha256 cs (f' div 2) (s' div 2) (sha256 (node_input c fr)) (sha256 (node_input c sr)) =
        Some (0, mth sha256 old, mth sha256 new)"
        using Cons.prems(1) left s0 fs' by (simp add: merkleNodeHash_input)
      show "set (consistency_inputs sha256 cs (f' div 2) (s' div 2) (sha256 (node_input c fr)) (sha256 (node_input c sr))) \<subseteq> S"
        using Cons.prems(2) left s0 fs' by (simp add: merkleNodeHash_input)
    qed (use Cons.prems(3) len in simp_all)
    have mem: "node_input c fr \<in> S" "node_input c sr \<in> S"
      using Cons.prems(2) left s0 fs' by simp_all
    have bnd: "(2 * j + 1) * 2 ^ (l + d) < length old" "(2 * j + 1) * 2 ^ (l + d) < length new"
      unfolding f' [symmetric] at using old(1) size(2) by linarith+
    have "length c = 32" using Cons.prems(3) by simp
    from combine_left [OF len l32 this inj sub mem bnd] ih
    have res: "fr = node_at sha256 old (l + d) f' \<and> sr = node_at sha256 new (l + d) f' \<and>
        take (f' * 2 ^ (l + d)) old = take (f' * 2 ^ (l + d)) new"
      unfolding f' by blast
    have "slice (l + d) f' old = slice l f old \<and> slice (l + d) f' new = slice l f new"
    proof (cases "d = 0")
      case True
      with d(1) show ?thesis by simp
    next
      case False
      with d(4) left have eq: "f = s" by auto
      have "(f + 1) * 2 ^ l \<le> (f' + 1) * 2 ^ (l + d)"
        using at by (simp add: power_increasing)
      moreover have new': "length new \<le> (f + 1) * 2 ^ l" using new(2) unfolding eq .
      ultimately have "length old \<le> (f' + 1) * 2 ^ (l + d)" "length new \<le> (f' + 1) * 2 ^ (l + d)"
        using old(2) by (blast intro: order_trans)+
      with old(2) new' at show ?thesis by (simp add: slice_to_end)
    qed
    with res at show ?thesis by (simp add: node_at_def)
  next
    case False
    define j where "j = f div 2"
    have f: "f = 2 * j" "f < s" using False fs by (auto simp: j_def bit0_set_iff)
    have lvl: "f div 2 = (length old - 1) div 2 ^ Suc l" "s div 2 = (length new - 1) div 2 ^ Suc l"
      by (simp_all only: power_Suc2 div_mult2_eq Cons.prems(5,6) [symmetric])
    have ih: "fr = node_at sha256 old (Suc l) j \<and> sha256 (node_input sr c) = node_at sha256 new (Suc l) j \<and>
      take (j * 2 ^ Suc l) old = take (j * 2 ^ Suc l) new"
      unfolding j_def
    proof (rule Cons.IH [OF _ _ _ _ lvl])
      show "consistency_loop sha256 cs (f div 2) (s div 2) fr (sha256 (node_input sr c)) =
        Some (0, mth sha256 old, mth sha256 new)"
        using Cons.prems(1) False s0 by (simp add: merkleNodeHash_input)
      show "set (consistency_inputs sha256 cs (f div 2) (s div 2) fr (sha256 (node_input sr c))) \<subseteq> S"
        using Cons.prems(2) False s0 by (simp add: merkleNodeHash_input)
    qed (use Cons.prems(3) len in simp_all)
    have "(f + 1) * 2 ^ l \<le> s * 2 ^ l" using f(2) by (intro mult_right_mono) auto
    then have right: "(2 * j + 1) * 2 ^ l < length new" using new(1) f(1) by simp
    have "node_input sr c = node_input (node_at sha256 new l (2 * j)) (node_at sha256 new l (2 * j + 1))"
    proof (rule inj_onD [OF inj])
      show "sha256 (node_input sr c) = sha256 (node_input (node_at sha256 new l (2 * j)) (node_at sha256 new l (2 * j + 1)))"
        using ih by (simp only: node_at_split [OF right])
      show "node_input sr c \<in> S" using Cons.prems(2) False s0 by simp
      show "node_input (node_at sha256 new l (2 * j)) (node_at sha256 new l (2 * j + 1)) \<in> S"
        using node_input_in_tree [OF right] sub(2) by blast
    qed
    then have "sr = node_at sha256 new l f"
      using node_input_inj length_node_at [of sha256, OF len l32(2)] Cons.prems(4) f(1) by blast
    moreover have "node_at sha256 old (Suc l) j = node_at sha256 old l f"
      using old(2) f(1) by (simp add: node_at_def slice_last)
    moreover have "j * 2 ^ Suc l = f * 2 ^ l" using f(1) by simp
    ultimately show ?thesis using ih by (simp only:)
  qed
qed

section \<open>The whole check\<close>

definition verify_inputs :: "(bytes \<Rightarrow> bytes) \<Rightarrow> nat \<Rightarrow> nat \<Rightarrow> bytes \<Rightarrow> bytes list \<Rightarrow> bytes list" where
  "verify_inputs sha256 m n oldRoot proof' =
     (let pow = ((word_of_int (int m) :: 32 word) AND word_of_int (int m - 1) = 0);
          first = (if pow then oldRoot else hd proof');
          (f, s) = shift_while_odd (m - 1) (n - 1)
      in consistency_inputs sha256 (if pow then proof' else tl proof') f s first first)"

lemma verifyConsistency_sound:
  assumes len: "\<And>x. length (sha256 x) = 32"
    and l32: "list_all (\<lambda>h. length h = 32) old" "list_all (\<lambda>h. length h = 32) new"
      "list_all (\<lambda>h. length h = 32) proof'"
    and inj: "inj_on sha256 (set (mth_inputs sha256 old) \<union> set (mth_inputs sha256 new) \<union>
      set (verify_inputs sha256 (length old) (length new) (mth sha256 old) proof'))"
    and ok: "verifyConsistency sha256 (int (length old)) (int (length new)) (mth sha256 old) (mth sha256 new) proof'"
  shows "old = take (length old) new"
proof (cases "length old = length new")
  case True
  have "mth sha256 old = mth sha256 new" using ok True by (auto simp: verifyConsistency_def split: if_splits)
  moreover have "inj_on sha256 (set (mth_inputs sha256 old) \<union> set (mth_inputs sha256 new))"
    by (rule inj_on_subset [OF inj]) blast
  ultimately have "old = new" by (intro mth_inj [OF len True l32(1,2)])
  then show ?thesis by simp
next
  case False
  let ?pow = "(word_of_int (int (length old)) :: 32 word) AND word_of_int (int (length old) - 1) = 0"
  define first where "first = (if ?pow then mth sha256 old else hd proof')"
  define cs where "cs = (if ?pow then proof' else tl proof')"
  obtain f s where fs: "shift_while_odd (length old - 1) (length new - 1) = (f, s)" by (metis surj_pair)
  have size: "0 < length old" "length old \<le> length new"
    using ok by (auto simp: verifyConsistency_def split: if_splits)
  have pow: "?pow \<or> proof' \<noteq> []" using ok False by (auto simp: verifyConsistency_def Let_def split: if_splits)
  have "nat (int (length old) - 1) = length old - 1" "nat (int (length new) - 1) = length new - 1"
    using size by linarith+
  then have run: "consistency_loop sha256 cs f s first first = Some (0, mth sha256 old, mth sha256 new)"
    using ok False fs pow
    by (auto simp: verifyConsistency_def Let_def first_def cs_def split: if_splits option.splits)
  have inputs: "set (consistency_inputs sha256 cs f s first first) =
      set (verify_inputs sha256 (length old) (length new) (mth sha256 old) proof')"
    using fs by (simp add: verify_inputs_def Let_def first_def cs_def)
  have "length first = 32" "list_all (\<lambda>h. length h = 32) cs"
    using pow l32(3) length_mth [of sha256, OF len l32(1)]
    by (auto simp: first_def cs_def neq_Nil_conv)
  moreover obtain l where l: "f = (length old - 1) div 2 ^ l" "s = (length new - 1) div 2 ^ l"
    "length old - 1 = f * 2 ^ l + (2 ^ l - 1)"
    using shift_while_odd_result [OF fs] by blast
  ultimately have res: "first = node_at sha256 old l f \<and> first = node_at sha256 new l f \<and>
      take (f * 2 ^ l) old = take (f * 2 ^ l) new"
    using consistency_loop_sound [OF len l32(1,2) inj _ _ size run _ _ _ l(1,2)] inputs by blast
  have "(1 :: nat) \<le> 2 ^ l" by simp
  then have "length old = f * 2 ^ l + 2 ^ l" using l(3) size(1) by linarith
  then have full: "length old = (f + 1) * 2 ^ l" by simp
  then have "length (slice l f old) = 2 ^ l" "length (slice l f new) = 2 ^ l"
    using size(2) by (auto intro!: slice_full)
  moreover have "inj_on sha256 (set (mth_inputs sha256 (slice l f old)) \<union> set (mth_inputs sha256 (slice l f new)))"
    using slice_inputs by (intro inj_on_subset [OF inj]) blast
  ultimately have "slice l f old = slice l f new"
    using res l32 length_slice_32 by (intro mth_inj [OF len]) (auto simp: node_at_def)
  then have "take ((f + 1) * 2 ^ l) old = take ((f + 1) * 2 ^ l) new"
    using res unfolding take_next_slice by simp
  with full show ?thesis by simp
qed

text \<open>A tree of one leaf that grows to two.\<close>

lemma sample_consistency:
  shows "inj_on sample_sha (set (mth_inputs sample_sha [sample_leaf 1]) \<union>
      set (mth_inputs sample_sha [sample_leaf 1, sample_leaf 2]) \<union>
      set (verify_inputs sample_sha (length [sample_leaf 1]) (length [sample_leaf 1, sample_leaf 2])
        (mth sample_sha [sample_leaf 1]) [sample_leaf 2]))"
    and "verifyConsistency sample_sha (int (length [sample_leaf 1])) (int (length [sample_leaf 1, sample_leaf 2]))
      (mth sample_sha [sample_leaf 1]) (mth sample_sha [sample_leaf 1, sample_leaf 2]) [sample_leaf 2]"
proof -
  let ?new = "[sample_leaf 1, sample_leaf 2]"
  have k: "pow2_below 2 = 1" "pow2_below (Suc (Suc 0)) = 1"
    using pow2_below.simps [of 2] by (simp_all add: numeral_2_eq_2)
  have root: "mth sample_sha ?new = sample_sha (node_input (sample_leaf 1) (sample_leaf 2))"
    using mth_split [of ?new sample_sha] by (simp add: k)
  have shift: "shift_while_odd 0 (Suc 0) = (0, Suc 0)" by (subst shift_while_odd.simps) (simp add: bit0_set_iff)
  have "set (mth_inputs sample_sha ?new) = {node_input (sample_leaf 1) (sample_leaf 2)}"
    by (subst mth_inputs.simps) (simp add: k Let_def mth_inputs.simps [of _ "[_]"])
  moreover have "set (mth_inputs sample_sha [sample_leaf 1]) = {}" by (simp add: mth_inputs.simps [of _ "[_]"])
  moreover have "set (verify_inputs sample_sha 1 2 (mth sample_sha [sample_leaf 1]) [sample_leaf 2]) =
      {node_input (sample_leaf 1) (sample_leaf 2)}"
    by (simp add: verify_inputs_def shift bit0_set_iff)
  ultimately show "inj_on sample_sha (set (mth_inputs sample_sha [sample_leaf 1]) \<union> set (mth_inputs sample_sha ?new) \<union>
      set (verify_inputs sample_sha (length [sample_leaf 1]) (length ?new) (mth sample_sha [sample_leaf 1]) [sample_leaf 2]))"
    by (simp add: inj_on_def numeral_2_eq_2)
  show "verifyConsistency sample_sha (int (length [sample_leaf 1])) (int (length ?new)) (mth sample_sha [sample_leaf 1])
      (mth sample_sha ?new) [sample_leaf 2]"
    by (simp add: verifyConsistency_def isSafeInteger_def max_safe_int_def shift bit0_set_iff root merkleNodeHash_input)
qed

section \<open>Property\<close>

text \<open>
  C1. Soundness of consistency proofs: when \<open>verifyConsistency\<close> accepts for the roots of two trees of
  32-byte leaf hashes, the old leaves are a prefix of the new ones -- the journal only grew --
  provided the hash has no collision among the strings hashed to build the two trees and to check
  the proof. This holds for every size, also where the 32-bit power-of-two test is wrong.
\<close>

theorem consistency_sound:
  assumes "\<forall>x. length (sha256 x) = 32"
    and "list_all (\<lambda>h. length h = 32) old" and "list_all (\<lambda>h. length h = 32) new"
    and "list_all (\<lambda>h. length h = 32) proof'"
    and "inj_on sha256 (set (mth_inputs sha256 old) \<union> set (mth_inputs sha256 new) \<union>
      set (verify_inputs sha256 (length old) (length new) (mth sha256 old) proof'))"
    and "verifyConsistency sha256 (int (length old)) (int (length new)) (mth sha256 old) (mth sha256 new) proof'"
  shows "\<exists>appended. new = old @ appended"
proof -
  have "old = take (length old) new" using assms by (intro verifyConsistency_sound) auto
  then show ?thesis by (metis append_take_drop_id)
qed

theorem consistency_sound_witness:
  "\<exists>appended. [sample_leaf 1, sample_leaf 2] = [sample_leaf 1] @ appended"
  using consistency_sound [OF _ _ _ _ sample_consistency(1,2)] sample_sha_length by simp

end
