(* ===== verification/Econ_Client.thy ===== *)
theory Econ_Client
  imports Econ_Consistency
begin

text \<open>
  The LIV client on top of the journal codec: domain-tagged signatures
  (\<^verbatim>\<open>economy/sign.ts\<close>), witness cosignatures (\<^verbatim>\<open>witness.ts\<close>), the light client
  (\<^verbatim>\<open>lightClient.ts\<close>) and the wallet (\<^verbatim>\<open>wallet.ts\<close>). SHA-256, Ed25519 and the platform's
  random source are packages outside the repository: arguments of the definitions.
\<close>

section \<open>Signatures\<close>

text \<open>The three functions of \<open>@noble/curves/ed25519\<close> the code calls; \<open>None\<close>: \<open>verify\<close> throws.\<close>

record ed25519 =
  getPublicKey :: "bytes \<Rightarrow> bytes"
  ed_sign :: "bytes \<Rightarrow> bytes \<Rightarrow> bytes"
  ed_verify :: "bytes \<Rightarrow> bytes \<Rightarrow> bytes \<Rightarrow> bool option"

definition domainMessage :: "js_string \<Rightarrow> bytes \<Rightarrow> codec_error + bytes" where
  "domainMessage label payload =
     (let labelBytes = utf8Bytes label;
          message = replicate (length labelBytes + length payload) 0
      in bindE (optE ArraySetRange (array_set message labelBytes 0)) (\<lambda>message.
         optE ArraySetRange (array_set message payload (length labelBytes))))"

definition publicKeyFromSeed :: "ed25519 \<Rightarrow> bytes \<Rightarrow> codec_error + bytes" where
  "publicKeyFromSeed ed seed =
     (if length seed \<noteq> 32 then Inl (SeedLength (length seed)) else Inr (getPublicKey ed seed))"

definition signDomainTagged :: "ed25519 \<Rightarrow> js_string \<Rightarrow> bytes \<Rightarrow> bytes \<Rightarrow> codec_error + bytes" where
  "signDomainTagged ed label payload seed =
     (if length seed \<noteq> 32 then Inl (SeedLength (length seed))
      else bindE (domainMessage label payload) (\<lambda>m. Inr (ed_sign ed m seed)))"

definition verifyDomainTagged :: "ed25519 \<Rightarrow> js_string \<Rightarrow> bytes \<Rightarrow> bytes \<Rightarrow> bytes \<Rightarrow> bool" where
  "verifyDomainTagged ed label payload signature publicKey =
     (if length signature \<noteq> 64 \<or> length publicKey \<noteq> 32 then False
      else
        (case domainMessage label payload of
           Inl _ \<Rightarrow> False
         | Inr m \<Rightarrow> (case ed_verify ed signature m publicKey of None \<Rightarrow> False | Some b \<Rightarrow> b)))"

section \<open>Witness cosignatures\<close>

record head_cosign =
  cosign_head :: ledger_head
  witness :: js_string
  signature :: js_string

definition verifyHeadCosign :: "ed25519 \<Rightarrow> head_cosign \<Rightarrow> bool" where
  "verifyHeadCosign ed cosign =
     (case bindE (headCanonicalBytes (cosign_head cosign)) (\<lambda>payload.
           bindE (fromHex (witness cosign) (Some 32)) (\<lambda>w.
           bindE (fromHex (signature cosign) (Some 64)) (\<lambda>s. Inr (payload, w, s)))) of
        Inl _ \<Rightarrow> False
      | Inr (payload, w, s) \<Rightarrow> verifyDomainTagged ed FEP_LEDGER_STH payload s w)"

definition isRegisteredWitness :: "head_cosign \<Rightarrow> js_string list \<Rightarrow> bool" where
  "isRegisteredWitness cosign witnessesHex =
     (let key = toLowerCase (witness cosign) in list_ex (\<lambda>w. toLowerCase w = key) witnessesHex)"

definition cosignHead :: "ed25519 \<Rightarrow> ledger_head \<Rightarrow> bytes \<Rightarrow> codec_error + head_cosign" where
  "cosignHead ed h witnessSeed =
     bindE (publicKeyFromSeed ed witnessSeed) (\<lambda>pk.
     bindE (headCanonicalBytes h) (\<lambda>payload.
     bindE (signDomainTagged ed FEP_LEDGER_STH payload witnessSeed) (\<lambda>s.
     Inr \<lparr>cosign_head = h, witness = toHex pk, signature = toHex s\<rparr>)))"

definition parseHeadCosign :: "json option \<Rightarrow> codec_error + head_cosign" where
  "parseHeadCosign value =
     bindE (asRecord value (js ''HeadCosign'')) (\<lambda>obj.
       case (map_of obj (js ''witness''), map_of obj (js ''signature'')) of
         (Some (JStr w), Some (JStr s)) \<Rightarrow>
           bindE (fromHex w (Some 32)) (\<lambda>_.
           bindE (fromHex s (Some 64)) (\<lambda>_.
           bindE (parseLedgerHead (map_of obj (js ''head''))) (\<lambda>h.
           Inr \<lparr>cosign_head = h, witness = w, signature = s\<rparr>)))
       | _ \<Rightarrow> Inl CosignFields)"

section \<open>The light client\<close>

definition verifyEntryInclusion ::
  "(bytes \<Rightarrow> bytes) \<Rightarrow> ledger_entry \<Rightarrow> js_string list \<Rightarrow> ledger_head \<Rightarrow> bool option" where
  "verifyEntryInclusion sha256 entry proofHex h =
     (case bindE (entryHash sha256 entry) (\<lambda>e.
           bindE (mapE (\<lambda>x. fromHex x (Some 32)) proofHex) (\<lambda>p.
           bindE (fromHex (merkleRootHex h) (Some 32)) (\<lambda>root.
           Inr (merkleLeafHash sha256 e, p, root)))) of
        Inl _ \<Rightarrow> Some False
      | Inr (leaf, p, root) \<Rightarrow> verifyInclusion sha256 leaf (seq entry) (size h) p root)"

datatype advance_refusal =
  SizeRegression | SameSizeDifferentHead | MissingConsistencyProof | ConsistencyFailed

datatype head_advance =
    Advanced ledger_head nat nat
  | Refused advance_refusal ledger_head ledger_head

definition same_hashes :: "ledger_head \<Rightarrow> ledger_head \<Rightarrow> bool" where
  "same_hashes a b \<longleftrightarrow>
     toLowerCase (merkleRootHex a) = toLowerCase (merkleRootHex b) \<and>
     toLowerCase (lastEntryHash a) = toLowerCase (lastEntryHash b)"

text \<open>The checks against the remembered head: \<open>None\<close> when the offered head passes.\<close>

definition check_against_trusted ::
  "(bytes \<Rightarrow> bytes) \<Rightarrow> ledger_head \<Rightarrow> ledger_head \<Rightarrow> js_string list option \<Rightarrow> advance_refusal option" where
  "check_against_trusted sha256 trusted offered consistencyProofHex =
     (if size offered < size trusted then Some SizeRegression
      else if size offered = size trusted then
        (if \<not> same_hashes offered trusted then Some SameSizeDifferentHead else None)
      else
        (case consistencyProofHex of
           None \<Rightarrow> Some MissingConsistencyProof
         | Some proofHex \<Rightarrow>
             let consistent =
               (case bindE (fromHex (merkleRootHex trusted) (Some 32)) (\<lambda>old.
                     bindE (fromHex (merkleRootHex offered) (Some 32)) (\<lambda>new.
                     bindE (mapE (\<lambda>x. fromHex x (Some 32)) proofHex) (\<lambda>p.
                     Inr (verifyConsistency sha256 (size trusted) (size offered) old new p)))) of
                  Inl _ \<Rightarrow> False
                | Inr b \<Rightarrow> b)
             in if \<not> consistent then Some ConsistencyFailed else None))"

primrec count_cosigns ::
  "ed25519 \<Rightarrow> ledger_head \<Rightarrow> js_string list \<Rightarrow> head_cosign list \<Rightarrow> nat \<times> nat \<Rightarrow> nat \<times> nat" where
  "count_cosigns ed offered registry [] counts = counts"
| "count_cosigns ed offered registry (c # cs) counts =
     (let (confirmed, stale) = counts in
      if \<not> verifyHeadCosign ed c then count_cosigns ed offered registry cs counts
      else if length registry > 0 \<and> \<not> isRegisteredWitness c registry
        then count_cosigns ed offered registry cs counts
      else if size (cosign_head c) = size offered \<and> same_hashes (cosign_head c) offered \<and>
              head_at (cosign_head c) = head_at offered
        then count_cosigns ed offered registry cs (confirmed + 1, stale)
        else count_cosigns ed offered registry cs (confirmed, stale + 1))"

definition advanceTrustedHead ::
  "(bytes \<Rightarrow> bytes) \<Rightarrow> ed25519 \<Rightarrow> ledger_head option \<Rightarrow> ledger_head \<Rightarrow> js_string list option \<Rightarrow>
   head_cosign list option \<Rightarrow> js_string list option \<Rightarrow> head_advance" where
  "advanceTrustedHead sha256 ed trusted offered consistencyProofHex cosigns witnessesHex =
     (let accept =
        (let (confirmed, stale) =
           count_cosigns ed offered (case witnessesHex of None \<Rightarrow> [] | Some ws \<Rightarrow> ws)
             (case cosigns of None \<Rightarrow> [] | Some cs \<Rightarrow> cs) (0, 0)
         in Advanced offered confirmed stale)
      in case trusted of
           None \<Rightarrow> accept
         | Some t \<Rightarrow>
             (case check_against_trusted sha256 t offered consistencyProofHex of
                Some r \<Rightarrow> Refused r t offered
              | None \<Rightarrow> accept))"

datatype replay_failure =
  EmptyJournal | SeqGap int | ChainBreak | TimeBackwards | BadEntry codec_error

datatype chain_replay = Replayed ledger_head | ReplayFailed nat replay_failure

text \<open>
  The loop of \<open>replayHashChain\<close>; \<open>prevAt = None\<close> is \<open>-Infinity\<close>. It yields the last hash and the
  leaf hashes, or the failing position.
\<close>

primrec replay_loop ::
  "(bytes \<Rightarrow> bytes) \<Rightarrow> ledger_entry list \<Rightarrow> nat \<Rightarrow> bytes \<Rightarrow> int option \<Rightarrow> bytes list \<Rightarrow>
   (nat \<times> replay_failure) + (bytes \<times> bytes list)" where
  "replay_loop sha256 [] i prev prevAt leaves = Inr (prev, leaves)"
| "replay_loop sha256 (entry # rest) i prev prevAt leaves =
     (if seq entry \<noteq> int i then Inl (i, SeqGap (seq entry))
      else if toLowerCase (prevHash entry) \<noteq> toHex prev then Inl (i, ChainBreak)
      else if (case prevAt of None \<Rightarrow> False | Some t \<Rightarrow> entry_at entry < t) then Inl (i, TimeBackwards)
      else
        (case entryHash sha256 entry of
           Inl e \<Rightarrow> Inl (i, BadEntry e)
         | Inr hash \<Rightarrow>
             replay_loop sha256 rest (Suc i) hash (Some (entry_at entry))
               (leaves @ [merkleLeafHash sha256 hash])))"

text \<open>\<open>None\<close>: the Merkle root of the collected leaves does not return.\<close>

definition replayHashChain :: "(bytes \<Rightarrow> bytes) \<Rightarrow> ledger_entry list \<Rightarrow> chain_replay option" where
  "replayHashChain sha256 entries =
     (if length entries = 0 then Some (ReplayFailed 0 EmptyJournal)
      else
        (case replay_loop sha256 entries 0 zeroHash None [] of
           Inl (i, r) \<Rightarrow> Some (ReplayFailed i r)
         | Inr (prev, leaves) \<Rightarrow>
             map_option (\<lambda>root. Replayed \<lparr>size = int (length entries), lastEntryHash = toHex prev,
                 merkleRootHex = toHex root, head_at = entry_at (last entries)\<rparr>)
               (merkleRoot sha256 leaves)))"

section \<open>The wallet\<close>

text \<open>\<open>crypto.getRandomValues\<close> of the platform, when there is one: the bytes it fills in.\<close>

type_synonym csprng = "(nat \<Rightarrow> bytes) option"

definition cryptoApi :: "csprng \<Rightarrow> codec_error + (nat \<Rightarrow> bytes)" where
  "cryptoApi api = optE NoCsprng api"

definition generateWalletSeed :: "csprng \<Rightarrow> codec_error + bytes" where
  "generateWalletSeed api = bindE (cryptoApi api) (\<lambda>fill. Inr (fill 32))"

definition generateNonce :: "csprng \<Rightarrow> codec_error + bytes" where
  "generateNonce api = bindE (cryptoApi api) (\<lambda>fill. Inr (fill 16))"

definition ownerKeyHexFromSeed :: "ed25519 \<Rightarrow> bytes \<Rightarrow> codec_error + js_string" where
  "ownerKeyHexFromSeed ed seed = bindE (publicKeyFromSeed ed seed) (\<lambda>pk. Inr (toHex pk))"

definition canonicalPairUuids :: "js_string \<Rightarrow> js_string \<Rightarrow> codec_error + (js_string \<times> js_string)" where
  "canonicalPairUuids a b =
     bindE (accountBytesFromUuid a) (\<lambda>bytesA.
     bindE (accountBytesFromUuid b) (\<lambda>bytesB.
     Inr (if compareBytes bytesA bytesB \<le> 0 then (a, b) else (b, a))))"

record signed_transfer =
  fromUuid :: js_string
  toUuid :: js_string
  amountGrains :: int
  nonceHex :: js_string
  signatureHex :: js_string

definition authorizeTransfer ::
  "ed25519 \<Rightarrow> csprng \<Rightarrow> bytes \<Rightarrow> js_string \<Rightarrow> js_string \<Rightarrow> int \<Rightarrow> bytes option \<Rightarrow> codec_error + signed_transfer" where
  "authorizeTransfer ed api seed frm to amount nonceArg =
     bindE (case nonceArg of Some n \<Rightarrow> Inr n | None \<Rightarrow> generateNonce api) (\<lambda>nonce.
     bindE (accountBytesFromUuid frm) (\<lambda>f.
     bindE (accountBytesFromUuid to) (\<lambda>t.
     bindE (transferSigningBytes f t amount nonce) (\<lambda>payload.
     bindE (signDomainTagged ed FEP_TRANSFER_AUTH payload seed) (\<lambda>s.
     Inr \<lparr>fromUuid = frm, toUuid = to, amountGrains = amount, nonceHex = toHex nonce,
           signatureHex = toHex s\<rparr>)))))"

definition signTrustline ::
  "ed25519 \<Rightarrow> bytes \<Rightarrow> js_string \<Rightarrow> js_string \<Rightarrow> int \<Rightarrow> int \<Rightarrow> codec_error + js_string" where
  "signTrustline ed seed loUuid hiUuid limitLoToHi limitHiToLo =
     bindE (canonicalPairUuids loUuid hiUuid) (\<lambda>(lo, hi).
       if lo \<noteq> loUuid \<or> hi \<noteq> hiUuid then Inl PairOrder
       else
         bindE (accountBytesFromUuid lo) (\<lambda>l.
         bindE (accountBytesFromUuid hi) (\<lambda>h.
         bindE (trustlineSigningBytes l h limitLoToHi limitHiToLo) (\<lambda>payload.
         bindE (signDomainTagged ed FEP_TRUSTLINE_AUTH payload seed) (\<lambda>s. Inr (toHex s))))))"

record signed_credit_transfer =
  pathUuids :: "js_string list"
  creditAmountGrains :: int
  creditNonceHex :: js_string
  creditSignatureHex :: js_string

definition authorizeCreditTransfer ::
  "ed25519 \<Rightarrow> csprng \<Rightarrow> bytes \<Rightarrow> js_string list \<Rightarrow> int \<Rightarrow> bytes option \<Rightarrow> codec_error + signed_credit_transfer" where
  "authorizeCreditTransfer ed api seed path amount nonceArg =
     bindE (case nonceArg of Some n \<Rightarrow> Inr n | None \<Rightarrow> generateNonce api) (\<lambda>nonce.
     bindE (mapE accountBytesFromUuid path) (\<lambda>p.
     bindE (creditTransferSigningBytes p amount nonce) (\<lambda>payload.
     bindE (signDomainTagged ed FEP_CREDIT_TRANSFER_AUTH payload seed) (\<lambda>s.
     Inr \<lparr>pathUuids = path, creditAmountGrains = amount, creditNonceHex = toHex nonce,
           creditSignatureHex = toHex s\<rparr>))))"

section \<open>Domain tags are prefix-free\<close>

lemma utf8_ascii: "list_all (\<lambda>c. c < 128) s \<Longrightarrow> utf8Bytes s = map of_nat s"
  unfolding utf8Bytes_def utf8_encode_def
  by (induction s rule: scalar_values.induct)
    (auto simp: utf8_scalar_def high_surrogate_def low_surrogate_def)

lemma ascii_bytes_inj:
  "list_all (\<lambda>c. c < 128) s \<Longrightarrow> list_all (\<lambda>c. c < 128) t \<Longrightarrow>
   map (of_nat :: nat \<Rightarrow> byte) s = map of_nat t \<Longrightarrow> s = t"
proof (induction s arbitrary: t)
  case (Cons c s)
  then obtain d t' where t: "t = d # t'" by (cases t) auto
  have "c < 256" "d < 256" using Cons.prems(1,2) t by simp_all
  then have "unat (of_nat c :: byte) = c" "unat (of_nat d :: byte) = d"
    by (simp_all only: unat_byte_of_nat)
  moreover have "(of_nat c :: byte) = of_nat d" using Cons.prems t by simp
  ultimately have "c = d" by metis
  with Cons t show ?case by auto
qed auto

lemma domain_tags_prefix_free:
  "\<forall>l \<in> set domain_tags. list_all (\<lambda>c. c < 128) l \<and>
     (\<forall>l' \<in> set domain_tags. take (length l) l' = l \<longrightarrow> l = l')"
  by (simp add: domain_tags_def FEP_LEDGER_LEAF_def FEP_LEDGER_STH_def FEP_MERKLE_LEAF_def FEP_MERKLE_NODE_def
      FEP_TRANSFER_AUTH_def FEP_TRUSTLINE_AUTH_def FEP_CREDIT_TRANSFER_AUTH_def)

interpretation tag_code: prefix_code utf8Bytes "\<lambda>l. l \<in> set domain_tags"
proof
  fix x y :: js_string and r s :: bytes
  assume tags: "x \<in> set domain_tags" "y \<in> set domain_tags" and eq: "utf8Bytes x @ r = utf8Bytes y @ s"
  have short: "l = l'" if "l \<in> set domain_tags" "l' \<in> set domain_tags" "utf8Bytes l @ p = utf8Bytes l' @ q"
    "length l \<le> length l'" for l l' :: js_string and p q :: bytes
  proof -
    have a: "list_all (\<lambda>c. c < 128) l" "list_all (\<lambda>c. c < 128) l'"
      using that domain_tags_prefix_free by auto
    then have "map (of_nat :: nat \<Rightarrow> byte) l @ p = map of_nat l' @ q" using that(3) by (simp add: utf8_ascii)
    then have "map (of_nat :: nat \<Rightarrow> byte) l = take (length l) (map of_nat l')"
      using that(4) by (metis append_eq_conv_conj length_map take_append diff_is_0_eq' take_0 append_Nil2)
    then have "map (of_nat :: nat \<Rightarrow> byte) l = map of_nat (take (length l) l')" by (simp add: take_map)
    then have "l = take (length l) l'"
      using a by (intro ascii_bytes_inj) (auto simp: list_all_iff dest: in_set_takeD)
    then show "l = l'" using that(1,2) domain_tags_prefix_free by metis
  qed
  have "x = y"
  proof (cases "length x \<le> length y")
    case True
    with short [OF tags eq] show ?thesis by blast
  next
    case False
    with short [OF tags(2,1) eq [symmetric]] show ?thesis by simp
  qed
  with eq show "x = y \<and> r = s" by simp
qed

lemma domainMessage_eq: "domainMessage label payload = Inr (utf8Bytes label @ payload)"
  using array_set_append [of "[]" 0 "utf8Bytes label" "replicate (length (utf8Bytes label) + length payload) 0"]
    array_set_append [of "utf8Bytes label" "length (utf8Bytes label)" payload "replicate (length payload) 0"]
  by (simp add: domainMessage_def Let_def)

section \<open>Signed operations\<close>

text \<open>Everything the client signs, and the message each signature is taken over.\<close>

datatype signed_op =
    SignHead ledger_head
  | SignTransfer bytes bytes int bytes
  | SignTrustline bytes bytes int int
  | SignCredit "bytes list" int bytes

fun signed_message :: "signed_op \<Rightarrow> codec_error + bytes" where
  "signed_message (SignHead h) = bindE (headCanonicalBytes h) (domainMessage FEP_LEDGER_STH)"
| "signed_message (SignTransfer f t m n) =
     bindE (transferSigningBytes f t m n) (domainMessage FEP_TRANSFER_AUTH)"
| "signed_message (SignTrustline l h x y) =
     bindE (trustlineSigningBytes l h x y) (domainMessage FEP_TRUSTLINE_AUTH)"
| "signed_message (SignCredit p m n) =
     bindE (creditTransferSigningBytes p m n) (domainMessage FEP_CREDIT_TRANSFER_AUTH)"

fun norm_op :: "signed_op \<Rightarrow> signed_op" where
  "norm_op (SignHead h) = SignHead (norm_head h)"
| "norm_op op = op"

fun op_tag :: "signed_op \<Rightarrow> js_string" where
  "op_tag (SignHead _) = FEP_LEDGER_STH"
| "op_tag (SignTransfer _ _ _ _) = FEP_TRANSFER_AUTH"
| "op_tag (SignTrustline _ _ _ _) = FEP_TRUSTLINE_AUTH"
| "op_tag (SignCredit _ _ _) = FEP_CREDIT_TRANSFER_AUTH"

lemma op_tag_in: "op_tag op \<in> set domain_tags"
  by (cases op) (simp_all add: domain_tags_def)

lemma sign_tags_distinct:
  "distinct [FEP_LEDGER_STH, FEP_TRANSFER_AUTH, FEP_TRUSTLINE_AUTH, FEP_CREDIT_TRANSFER_AUTH]"
  by (simp add: FEP_LEDGER_STH_def FEP_TRANSFER_AUTH_def FEP_TRUSTLINE_AUTH_def FEP_CREDIT_TRANSFER_AUTH_def)

lemma signed_message_tag: "signed_message op = Inr x \<Longrightarrow> \<exists>p. x = utf8Bytes (op_tag op) @ p"
  by (cases op) (auto simp: bindE_Inr_iff domainMessage_eq)

lemma transfer_bytes_inj:
  "transferSigningBytes f t m n = Inr x \<Longrightarrow> transferSigningBytes f' t' m' n' = Inr y \<Longrightarrow>
   x = y \<longleftrightarrow> f = f' \<and> t = t' \<and> m = m' \<and> n = n'"
  by (auto simp: transferSigningBytes_eq result_iff i64_code_eq split: if_splits)

lemma trustline_bytes_inj:
  "trustlineSigningBytes l h a b = Inr x \<Longrightarrow> trustlineSigningBytes l' h' a' b' = Inr y \<Longrightarrow>
   x = y \<longleftrightarrow> l = l' \<and> h = h' \<and> a = a' \<and> b = b'"
  by (auto simp: trustlineSigningBytes_eq result_iff i64_code_eq)

lemma credit_bytes_inj:
  assumes "creditTransferSigningBytes p m n = Inr x" and "creditTransferSigningBytes p' m' n' = Inr y"
  shows "x = y \<longleftrightarrow> p = p' \<and> m = m' \<and> n = n'"
proof -
  let ?tail = "\<lambda>m n. be_bytes 8 m @ be_bytes 4 16 @ n"
  from assms have len: "length n = 16" "length n' = 16"
    by (auto simp: creditTransferSigningBytes_eq split: if_splits)
  with assms have r: "I64_MIN \<le> m" "m \<le> I64_MAX" "I64_MIN \<le> m'" "m' \<le> I64_MAX"
    and ok: "length p < 2 ^ 32" "length p' < 2 ^ 32"
      "list_all (\<lambda>b. length b = 16) p" "list_all (\<lambda>b. length b = 16) p'"
    and xy: "x = be_bytes 4 (int (length p)) @ concat p @ ?tail m n"
      "y = be_bytes 4 (int (length p')) @ concat p' @ ?tail m' n'"
    by (auto simp: creditTransferSigningBytes_eq result_iff)
  have "x = y \<longleftrightarrow> p = p' \<and> ?tail m n = ?tail m' n'"
    unfolding xy by (rule path_code_eq [OF ok])
  then show ?thesis using len r by (auto simp: i64_code_eq)
qed

lemma signed_message_inj:
  assumes "signed_message a = Inr x" and "signed_message b = Inr y"
  shows "x = y \<longleftrightarrow> norm_op a = norm_op b"
proof (cases "op_tag a = op_tag b")
  case False
  obtain p q where "x = utf8Bytes (op_tag a) @ p" "y = utf8Bytes (op_tag b) @ q"
    using signed_message_tag assms by blast
  then have "x \<noteq> y" using tag_code.enc_split [OF op_tag_in op_tag_in] False by blast
  moreover have "op_tag (norm_op c) = op_tag c" for c by (cases c) auto
  then have "norm_op a \<noteq> norm_op b" using False by metis
  ultimately show ?thesis by simp
next
  case True
  show ?thesis
  proof (cases a)
    case (SignHead h)
    with True sign_tags_distinct obtain k where b: "b = SignHead k" by (cases b) auto
    with SignHead assms obtain p q where "headCanonicalBytes h = Inr p" "headCanonicalBytes k = Inr q"
      "x = utf8Bytes FEP_LEDGER_STH @ p" "y = utf8Bytes FEP_LEDGER_STH @ q"
      by (auto simp: bindE_Inr_iff domainMessage_eq)
    with b SignHead headCanonicalBytes_eq_iff [of h p k q] show ?thesis by simp
  next
    case (SignTransfer f t m n)
    with True sign_tags_distinct obtain f' t' m' n' where b: "b = SignTransfer f' t' m' n'" by (cases b) auto
    with SignTransfer assms obtain p q where "transferSigningBytes f t m n = Inr p" "transferSigningBytes f' t' m' n' = Inr q"
      "x = utf8Bytes FEP_TRANSFER_AUTH @ p" "y = utf8Bytes FEP_TRANSFER_AUTH @ q"
      by (auto simp: bindE_Inr_iff domainMessage_eq)
    with b SignTransfer transfer_bytes_inj [of f t m n p f' t' m' n' q] show ?thesis by simp
  next
    case (SignTrustline l h m n)
    with True sign_tags_distinct obtain f' t' m' n' where b: "b = SignTrustline f' t' m' n'" by (cases b) auto
    with SignTrustline assms obtain p q where "trustlineSigningBytes l h m n = Inr p" "trustlineSigningBytes f' t' m' n' = Inr q"
      "x = utf8Bytes FEP_TRUSTLINE_AUTH @ p" "y = utf8Bytes FEP_TRUSTLINE_AUTH @ q"
      by (auto simp: bindE_Inr_iff domainMessage_eq)
    with b SignTrustline trustline_bytes_inj [of l h m n p f' t' m' n' q] show ?thesis by simp
  next
    case (SignCredit l m n)
    with True sign_tags_distinct obtain f' m' n' where b: "b = SignCredit f' m' n'" by (cases b) auto
    with SignCredit assms obtain p q where "creditTransferSigningBytes l m n = Inr p" "creditTransferSigningBytes f' m' n' = Inr q"
      "x = utf8Bytes FEP_CREDIT_TRANSFER_AUTH @ p" "y = utf8Bytes FEP_CREDIT_TRANSFER_AUTH @ q"
      by (auto simp: bindE_Inr_iff domainMessage_eq)
    with b SignCredit credit_bytes_inj [of l m n p f' m' n' q] show ?thesis by simp
  qed
qed

section \<open>Journals and the strings their hashes cover\<close>

definition leaf_input :: "bytes \<Rightarrow> bytes" where
  "leaf_input h = utf8Bytes FEP_MERKLE_LEAF @ h"

definition entry_input :: "bytes \<Rightarrow> bytes" where
  "entry_input b = utf8Bytes FEP_LEDGER_LEAF @ b"

definition entry_leaf :: "(bytes \<Rightarrow> bytes) \<Rightarrow> ledger_entry \<Rightarrow> codec_error + bytes" where
  "entry_leaf sha256 e = bindE (entryHash sha256 e) (\<lambda>h. Inr (merkleLeafHash sha256 h))"

definition entry_strings :: "ledger_entry \<Rightarrow> bytes list" where
  "entry_strings e = (case entryBytes e of Inl _ \<Rightarrow> [] | Inr b \<Rightarrow> [entry_input b])"

definition leaf_strings :: "(bytes \<Rightarrow> bytes) \<Rightarrow> ledger_entry \<Rightarrow> bytes list" where
  "leaf_strings sha256 e = (case entryHash sha256 e of Inl _ \<Rightarrow> [] | Inr h \<Rightarrow> [leaf_input h])"

definition journal_strings :: "(bytes \<Rightarrow> bytes) \<Rightarrow> ledger_entry list \<Rightarrow> bytes list" where
  "journal_strings sha256 es = concat (map (\<lambda>e. entry_strings e @ leaf_strings sha256 e) es)"

definition inclusion_strings :: "(bytes \<Rightarrow> bytes) \<Rightarrow> ledger_entry \<Rightarrow> js_string list \<Rightarrow> nat \<Rightarrow> bytes list" where
  "inclusion_strings sha256 entry proofHex n =
     (case (entry_leaf sha256 entry, mapE (\<lambda>x. fromHex x (Some 32)) proofHex) of
        (Inr leaf, Inr p) \<Rightarrow> incl_inputs sha256 leaf (nat (seq entry)) n (rev p)
      | _ \<Rightarrow> [])"

lemma entryHash_iff: "entryHash sha256 e = Inr h \<longleftrightarrow> (\<exists>b. entryBytes e = Inr b \<and> h = sha256 (entry_input b))"
  by (auto simp: entryHash_def bindE_Inr_iff sha256Tagged_concat entry_input_def)

lemma merkleLeafHash_input: "merkleLeafHash sha256 h = sha256 (leaf_input h)"
  by (simp add: merkleLeafHash_def sha256Tagged_concat leaf_input_def)

lemma entry_leaf_iff: "entry_leaf sha256 e = Inr l \<longleftrightarrow> (\<exists>h. entryHash sha256 e = Inr h \<and> l = sha256 (leaf_input h))"
  by (auto simp: entry_leaf_def bindE_Inr_iff merkleLeafHash_input)

lemma entry_strings_mem: "entryBytes e = Inr b \<Longrightarrow> e \<in> set es \<Longrightarrow> entry_input b \<in> set (concat (map entry_strings es))"
  by (auto simp: entry_strings_def intro!: bexI [of _ e])

lemma journal_strings_mem:
  "entryBytes e = Inr b \<Longrightarrow> e \<in> set es \<Longrightarrow> entry_input b \<in> set (journal_strings sha256 es)"
  "entryHash sha256 e = Inr h \<Longrightarrow> e \<in> set es \<Longrightarrow> leaf_input h \<in> set (journal_strings sha256 es)"
  by (auto simp: journal_strings_def entry_strings_def leaf_strings_def intro!: bexI [of _ e])

lemma entryHash_inj:
  assumes "entryHash sha256 a = Inr h" and "entryHash sha256 b = Inr h" and "inj_on sha256 S"
    and "set (entry_strings a) \<subseteq> S" "set (entry_strings b) \<subseteq> S" "body_text_ok (body a)" "body_text_ok (body b)"
  shows "norm_entry a = norm_entry b"
proof -
  obtain x y where xy: "entryBytes a = Inr x" "entryBytes b = Inr y" "sha256 (entry_input x) = sha256 (entry_input y)"
    using assms(1,2) by (auto simp: entryHash_iff)
  moreover have "entry_input x \<in> S" "entry_input y \<in> S"
    using assms(4,5) xy by (auto simp: entry_strings_def)
  ultimately have "entry_input x = entry_input y" using inj_onD [OF assms(3)] by blast
  then have "x = y" by (simp add: entry_input_def)
  with xy assms(6,7) show ?thesis using entryBytes_eq_iff by blast
qed

lemma norm_entry_fields:
  assumes "norm_entry a = norm_entry b"
  shows "seq a = seq b" and "toLowerCase (prevHash a) = toLowerCase (prevHash b)"
  using arg_cong [OF assms, of seq] arg_cong [OF assms, of prevHash] by (simp_all add: norm_entry_def)

lemma fromHex32_length: "mapE (\<lambda>x. fromHex x (Some n)) xs = Inr ys \<Longrightarrow> list_all (\<lambda>h. length h = n) ys"
  by (induction xs arbitrary: ys) (auto simp: result_iff)

lemma entry_leaves_32:
  "mapE (entry_leaf sha256) es = Inr ls \<Longrightarrow> \<forall>x. length (sha256 x) = 32 \<Longrightarrow> list_all (\<lambda>h. length h = 32) ls"
  by (induction es arbitrary: ls) (auto simp: bindE_Inr_iff entry_leaf_iff)

lemma entry_inclusion_sound_aux:
  assumes len: "\<forall>x. length (sha256 x) = 32"
    and leaves: "mapE (entry_leaf sha256) journal = Inr leaves"
    and root: "toLowerCase (merkleRootHex h) = toHex (mth sha256 leaves)" "size h = int (length journal)"
    and textok: "list_all (\<lambda>e. body_text_ok (body e)) (entry # journal)"
    and inj: "inj_on sha256 (set (journal_strings sha256 (entry # journal)) \<union> set (mth_inputs sha256 leaves) \<union>
      set (inclusion_strings sha256 entry proofHex (length journal)))"
    and ok: "verifyEntryInclusion sha256 entry proofHex h = Some True"
  shows "0 \<le> seq entry \<and> nat (seq entry) < length journal \<and> norm_entry entry = norm_entry (journal ! nat (seq entry))"
proof -
  have n: "length leaves = length journal" using mapE_Inr_length [OF leaves] .
  from ok obtain e p r where e: "entryHash sha256 entry = Inr e"
    and p: "mapE (\<lambda>x. fromHex x (Some 32)) proofHex = Inr p"
    and r: "fromHex (merkleRootHex h) (Some 32) = Inr r"
    and v: "verifyInclusion sha256 (sha256 (leaf_input e)) (seq entry) (size h) p r = Some True"
    unfolding verifyEntryInclusion_def
    by (cases "entryHash sha256 entry"; cases "mapE (\<lambda>x. fromHex x (Some 32)) proofHex";
        cases "fromHex (merkleRootHex h) (Some 32)") (auto simp: merkleLeafHash_input)
  have r: "r = mth sha256 leaves" using r root(1) by (simp add: fromHex_Inr_iff)
  have l: "entry_leaf sha256 entry = Inr (sha256 (leaf_input e))" using e by (simp add: entry_leaf_iff)
  have hash32: "list_all (\<lambda>h. length h = 32) leaves"
    using entry_leaves_32 [OF leaves] len by blast
  let ?i = "nat (seq entry)"
  have res: "0 \<le> seq entry \<and> ?i < length leaves \<and> sha256 (leaf_input e) = leaves ! ?i"
  proof (rule verifyInclusion_sound [OF len _ hash32 fromHex32_length [OF p]])
    show "inj_on sha256 (set (mth_inputs sha256 leaves) \<union>
        set (incl_inputs sha256 (sha256 (leaf_input e)) ?i (length leaves) (rev p)))"
      by (rule inj_on_subset [OF inj]) (auto simp: inclusion_strings_def l p n)
  qed (use len v n root(2) r in simp_all)
  then have i: "?i < length journal" using n by simp
  then obtain h' where h': "entryHash sha256 (journal ! ?i) = Inr h'" "leaves ! ?i = sha256 (leaf_input h')"
    using mapE_Inr_nth [OF leaves i] by (auto simp: entry_leaf_iff)
  have "leaf_input e = leaf_input h'"
  proof (rule inj_onD [OF inj])
    show "sha256 (leaf_input e) = sha256 (leaf_input h')" using res h' by simp
  qed (use journal_strings_mem(2) [OF e] journal_strings_mem(2) [OF h'(1)] i in \<open>simp_all add: nth_mem\<close>)
  then have "e = h'" by (simp add: leaf_input_def)
  moreover have "set (entry_strings x) \<subseteq> set (journal_strings sha256 (entry # journal))" if "x \<in> set (entry # journal)" for x
    using that by (auto simp: journal_strings_def)
  ultimately have "norm_entry entry = norm_entry (journal ! ?i)"
    using e h'(1) textok i
    by (intro entryHash_inj [OF _ _ inj]) (auto simp: list_all_iff le_supI1)
  with res i show ?thesis by simp
qed

section \<open>Replaying the hash chain\<close>

definition chained :: "nat \<Rightarrow> bytes \<Rightarrow> ledger_entry list \<Rightarrow> bytes list \<Rightarrow> bool" where
  "chained i prev es hs \<longleftrightarrow>
     list_all (\<lambda>j. seq (es ! j) = int (i + j) \<and> toLowerCase (prevHash (es ! j)) = toHex ((prev # hs) ! j))
       [0..<length es]"

definition time_list :: "int option \<Rightarrow> int list" where
  "time_list t = (case t of None \<Rightarrow> [] | Some x \<Rightarrow> [x])"

lemma chained_alt:
  "chained i prev es hs \<longleftrightarrow>
     (\<forall>j < length es. seq (es ! j) = int (i + j) \<and> toLowerCase (prevHash (es ! j)) = toHex ((prev # hs) ! j))"
  by (auto simp: chained_def list_all_iff)

lemma chained_Cons:
  "chained i prev (e # es) (h # hs) \<longleftrightarrow>
   seq e = int i \<and> toLowerCase (prevHash e) = toHex prev \<and> chained (Suc i) h es hs"
  unfolding chained_alt by (simp add: All_less_Suc2 add.assoc [symmetric] del: of_nat_add)

lemma replay_loop_iff:
  "replay_loop sha256 es i prev prevAt ls = Inr (p, ls') \<longleftrightarrow>
   (\<exists>hs. mapE (entryHash sha256) es = Inr hs \<and> chained i prev es hs \<and> sorted (time_list prevAt @ map entry_at es) \<and>
      p = last (prev # hs) \<and> ls' = ls @ map (merkleLeafHash sha256) hs)"
proof (induction es arbitrary: i prev prevAt ls)
  case Nil
  show ?case by (cases prevAt) (auto simp: chained_def time_list_def)
next
  case (Cons e es)
  show ?case
  proof (cases "entryHash sha256 e")
    case (Inl x)
    then show ?thesis by (auto simp: bindE_Inr_iff split: if_splits)
  next
    case (Inr h)
    have times: "sorted (time_list prevAt @ map entry_at (e # es)) \<longleftrightarrow>
        \<not> (case prevAt of None \<Rightarrow> False | Some t \<Rightarrow> entry_at e < t) \<and> sorted (time_list (Some (entry_at e)) @ map entry_at es)"
      by (cases prevAt) (auto simp: time_list_def)
    have "replay_loop sha256 (e # es) i prev prevAt ls = Inr (p, ls') \<longleftrightarrow>
        seq e = int i \<and> toLowerCase (prevHash e) = toHex prev \<and>
        \<not> (case prevAt of None \<Rightarrow> False | Some t \<Rightarrow> entry_at e < t) \<and>
        replay_loop sha256 es (Suc i) h (Some (entry_at e)) (ls @ [merkleLeafHash sha256 h]) = Inr (p, ls')"
      using Inr by simp
    also have "\<dots> \<longleftrightarrow> (\<exists>hs. mapE (entryHash sha256) es = Inr hs \<and> chained i prev (e # es) (h # hs) \<and>
        sorted (time_list prevAt @ map entry_at (e # es)) \<and> p = last (prev # h # hs) \<and>
        ls' = ls @ map (merkleLeafHash sha256) (h # hs))"
      unfolding Cons.IH chained_Cons times
      by (simp only: last.simps list.distinct if_False append_assoc append_Cons append_Nil list.map) blast
    finally have step: "replay_loop sha256 (e # es) i prev prevAt ls = Inr (p, ls') \<longleftrightarrow>
      (\<exists>hs. mapE (entryHash sha256) es = Inr hs \<and> chained i prev (e # es) (h # hs) \<and>
        sorted (time_list prevAt @ map entry_at (e # es)) \<and> p = last (prev # h # hs) \<and>
        ls' = ls @ map (merkleLeafHash sha256) (h # hs))" .
    have head: "(\<exists>hs'. (\<exists>hs. M hs \<and> hs' = h # hs) \<and> Q hs') \<longleftrightarrow> (\<exists>hs. M hs \<and> Q (h # hs))"
      for M Q :: "bytes list \<Rightarrow> bool" by blast
    have m: "mapE (entryHash sha256) (e # es) = Inr hs' \<longleftrightarrow> (\<exists>hs. mapE (entryHash sha256) es = Inr hs \<and> hs' = h # hs)" for hs'
      using Inr by (auto simp: bindE_Inr_iff)
    show ?thesis unfolding step m head ..
  qed
qed

lemma replayHashChain_iff:
  "replayHashChain sha256 es = Some (Replayed h) \<longleftrightarrow>
     0 < length es \<and> length es \<le> 2 ^ 30 \<and>
     (\<exists>hs. mapE (entryHash sha256) es = Inr hs \<and> chained 0 zeroHash es hs \<and> sorted (map entry_at es) \<and>
        h = \<lparr>size = int (length es), lastEntryHash = toHex (last hs),
             merkleRootHex = toHex (mth sha256 (map (merkleLeafHash sha256) hs)), head_at = entry_at (last es)\<rparr>)"
proof (cases "length es = 0")
  case True
  then show ?thesis by (simp add: replayHashChain_def)
next
  case False
  have len: "mapE (entryHash sha256) es = Inr hs \<Longrightarrow> length hs = length es" for hs
    by (rule mapE_Inr_length)
  show ?thesis
  proof (cases "replay_loop sha256 es 0 zeroHash None []")
    case (Inl x)
    then have "\<not> (\<exists>hs. mapE (entryHash sha256) es = Inr hs \<and> chained 0 zeroHash es hs \<and> sorted (map entry_at es))"
      using replay_loop_iff [of sha256 es 0 zeroHash None "[]"] by (auto simp: time_list_def)
    with Inl show ?thesis by (cases x) (auto simp: replayHashChain_def)
  next
    case (Inr x)
    then obtain p ls where "replay_loop sha256 es 0 zeroHash None [] = Inr (p, ls)" by (cases x) auto
    moreover from this obtain hs where hs: "mapE (entryHash sha256) es = Inr hs" "chained 0 zeroHash es hs"
      "sorted (map entry_at es)" "p = last (zeroHash # hs)" "ls = map (merkleLeafHash sha256) hs"
      by (auto simp: replay_loop_iff time_list_def)
    moreover have "hs \<noteq> []" using len [OF hs(1)] False by auto
    moreover have "merkleRoot sha256 ls = (if length es \<le> 2 ^ 30 then Some (mth sha256 ls) else None)"
      using len [OF hs(1)] hs(5) merkleRoot_mth [of ls] merkleRoot_diverges [of ls] by auto
    ultimately show ?thesis using False by (auto simp: replayHashChain_def)
  qed
qed

lemma chained_nth:
  "chained i prev es hs \<Longrightarrow> j < length es \<Longrightarrow>
   seq (es ! j) = int (i + j) \<and> toLowerCase (prevHash (es ! j)) = toHex ((prev # hs) ! j)"
  by (simp add: chained_def list_all_iff)

text \<open>Two chains that agree on one hash agree on everything before it.\<close>

lemma chained_inj:
  assumes a: "mapE (entryHash sha256) as = Inr hs" "chained 0 p as hs"
    and b: "mapE (entryHash sha256) bs = Inr ks" "chained 0 p bs ks"
    and inj: "inj_on sha256 (set (concat (map entry_strings (as @ bs))))"
    and textok: "list_all (\<lambda>e. body_text_ok (body e)) (as @ bs)"
  shows "j < length as \<Longrightarrow> j < length bs \<Longrightarrow> hs ! j = ks ! j \<Longrightarrow>
    \<forall>i \<le> j. norm_entry (as ! i) = norm_entry (bs ! i)"
proof (induction j)
  case 0
  have "norm_entry (as ! 0) = norm_entry (bs ! 0)"
    using mapE_Inr_nth [OF a(1) 0(1)] mapE_Inr_nth [OF b(1) 0(2)] 0 textok
    by (intro entryHash_inj [OF _ _ inj]) (auto simp: list_all_iff nth_mem)
  then show ?case by simp
next
  case (Suc j)
  have e: "norm_entry (as ! Suc j) = norm_entry (bs ! Suc j)"
    using mapE_Inr_nth [OF a(1) Suc.prems(1)] mapE_Inr_nth [OF b(1) Suc.prems(2)] Suc.prems textok
    by (intro entryHash_inj [OF _ _ inj]) (auto simp: list_all_iff nth_mem)
  then have "toLowerCase (prevHash (as ! Suc j)) = toLowerCase (prevHash (bs ! Suc j))"
    by (rule norm_entry_fields)
  then have "hs ! j = ks ! j"
    using chained_nth [OF a(2) Suc.prems(1)] chained_nth [OF b(2) Suc.prems(2)] by simp
  with Suc have "\<forall>i \<le> j. norm_entry (as ! i) = norm_entry (bs ! i)" by simp
  with e show ?case by (simp add: le_Suc_eq)
qed

section \<open>Advancing the trusted head\<close>

definition consistency_strings :: "(bytes \<Rightarrow> bytes) \<Rightarrow> nat \<Rightarrow> nat \<Rightarrow> bytes \<Rightarrow> js_string list option \<Rightarrow> bytes list" where
  "consistency_strings sha256 m n oldRoot proofHex =
     (case proofHex of None \<Rightarrow> []
      | Some xs \<Rightarrow>
          (case mapE (\<lambda>x. fromHex x (Some 32)) xs of Inl _ \<Rightarrow> []
           | Inr p \<Rightarrow> verify_inputs sha256 m n oldRoot p))"

definition counts_for :: "ed25519 \<Rightarrow> ledger_head \<Rightarrow> js_string list \<Rightarrow> bool \<Rightarrow> head_cosign \<Rightarrow> bool" where
  "counts_for ed offered registry same c \<longleftrightarrow>
     verifyHeadCosign ed c \<and> (if registry = [] then True else isRegisteredWitness c registry) \<and>
     (same \<longleftrightarrow> norm_head (cosign_head c) = norm_head offered)"

lemma same_head_iff:
  "size a = size b \<and> same_hashes a b \<and> head_at a = head_at b \<longleftrightarrow> norm_head a = norm_head b"
  by (cases a; cases b) (auto simp: same_hashes_def norm_head_def)

lemma count_cosigns_eq:
  "count_cosigns ed offered registry cs (c, s) =
     (c + length (filter (counts_for ed offered registry True) cs),
      s + length (filter (counts_for ed offered registry False) cs))"
proof (induction cs arbitrary: c s)
  case (Cons x cs)
  have reg: "0 < length registry \<and> \<not> isRegisteredWitness x registry \<longleftrightarrow>
      \<not> (if registry = [] then True else isRegisteredWitness x registry)" by simp
  show ?case
    unfolding count_cosigns.simps Let_def prod.case reg same_head_iff Cons.IH
    by (simp add: counts_for_def [where c = x])
qed simp

lemma advance_Advanced_iff:
  "advanceTrustedHead sha256 ed trusted offered proofHex cosigns witnesses = Advanced h c s \<longleftrightarrow>
     (case trusted of None \<Rightarrow> True | Some t \<Rightarrow> check_against_trusted sha256 t offered proofHex = None) \<and>
     h = offered \<and>
     (c, s) = count_cosigns ed offered (case witnesses of None \<Rightarrow> [] | Some ws \<Rightarrow> ws)
       (case cosigns of None \<Rightarrow> [] | Some cs \<Rightarrow> cs) (0, 0)"
  by (auto simp: advanceTrustedHead_def Let_def split: option.splits prod.splits)

lemma check_against_trusted_sound:
  assumes len: "\<forall>x. length (sha256 x) = 32"
    and l32: "list_all (\<lambda>h. length h = 32) old" "list_all (\<lambda>h. length h = 32) new"
    and t: "toLowerCase (merkleRootHex t) = toHex (mth sha256 old)" "size t = int (length old)"
    and n: "toLowerCase (merkleRootHex offered) = toHex (mth sha256 new)" "size offered = int (length new)"
    and inj: "inj_on sha256 (set (mth_inputs sha256 old) \<union> set (mth_inputs sha256 new) \<union>
      set (consistency_strings sha256 (length old) (length new) (mth sha256 old) proofHex))"
    and ok: "check_against_trusted sha256 t offered proofHex = None"
  shows "old = take (length old) new"
proof (cases "length old = length new")
  case True
  have "mth sha256 old = mth sha256 new"
    using ok t n True by (auto simp: check_against_trusted_def same_hashes_def split: if_splits)
  moreover have "inj_on sha256 (set (mth_inputs sha256 old) \<union> set (mth_inputs sha256 new))"
    by (rule inj_on_subset [OF inj]) blast
  ultimately have "old = new" using len by (intro mth_inj [OF _ True l32]) auto
  then show ?thesis by simp
next
  case False
  have roots: "fromHex (merkleRootHex t) (Some 32) = Inr (mth sha256 old)"
    "fromHex (merkleRootHex offered) (Some 32) = Inr (mth sha256 new)"
    using t(1) n(1) length_mth [of sha256] len l32 by (simp_all add: fromHex_Inr_iff)
  from ok False t(2) n(2) obtain xs p where p: "proofHex = Some xs" "mapE (\<lambda>x. fromHex x (Some 32)) xs = Inr p"
    and v: "verifyConsistency sha256 (int (length old)) (int (length new)) (mth sha256 old) (mth sha256 new) p"
    by (cases proofHex; cases "mapE (\<lambda>x. fromHex x (Some 32)) (the proofHex)")
      (auto simp: check_against_trusted_def Let_def roots split: if_splits)
  have "set (consistency_strings sha256 (length old) (length new) (mth sha256 old) proofHex) =
      set (verify_inputs sha256 (length old) (length new) (mth sha256 old) p)"
    using p by (simp add: consistency_strings_def)
  with inj len l32 fromHex32_length [OF p(2)] v show ?thesis
    by (intro verifyConsistency_sound [of sha256 old new p]) simp_all
qed

section \<open>Wallet facts\<close>

lemma signTrustline_iff:
  "(\<exists>s. signTrustline ed seed u v x y = Inr s) \<longleftrightarrow>
     length seed = 32 \<and> I64_MIN \<le> x \<and> x \<le> I64_MAX \<and> I64_MIN \<le> y \<and> y \<le> I64_MAX \<and>
     (\<exists>l h. accountBytesFromUuid u = Inr l \<and> accountBytesFromUuid v = Inr h \<and> compareBytes l h \<le> 0)"
proof (cases "\<exists>l h. accountBytesFromUuid u = Inr l \<and> accountBytesFromUuid v = Inr h")
  case False
  then show ?thesis
    by (cases "accountBytesFromUuid u"; cases "accountBytesFromUuid v")
      (auto simp: signTrustline_def canonicalPairUuids_def)
next
  case True
  then obtain l h where lh: "accountBytesFromUuid u = Inr l" "accountBytesFromUuid v = Inr h" by blast
  have len: "length l = 16" "length h = 16" using lh by (auto simp: accountBytesFromUuid_iff)
  have pay: "(\<exists>b. trustlineSigningBytes l h x y = Inr b) \<longleftrightarrow>
      I64_MIN \<le> x \<and> x \<le> I64_MAX \<and> I64_MIN \<le> y \<and> y \<le> I64_MAX"
    using len by (auto simp: trustlineSigningBytes_eq result_iff)
  show ?thesis
  proof (cases "compareBytes l h \<le> 0")
    case le: True
    then show ?thesis using lh pay
      by (cases "trustlineSigningBytes l h x y")
        (auto simp: signTrustline_def canonicalPairUuids_def signDomainTagged_def domainMessage_eq)
  next
    case gt: False
    then have "u \<noteq> v" using lh by auto
    with gt lh show ?thesis by (auto simp: signTrustline_def canonicalPairUuids_def)
  qed
qed

section \<open>Sample values\<close>

definition sample_key :: "byte \<Rightarrow> bytes" where
  "sample_key b = replicate 32 b"

definition sample_id :: "byte \<Rightarrow> bytes" where
  "sample_id b = replicate 16 b"

lemma sample_id_length [simp]: "length (sample_id b) = 16"
  by (simp add: sample_id_def)

text \<open>A deterministic scheme that accepts exactly what it signs.\<close>

definition sample_ed :: ed25519 where
  "sample_ed = \<lparr>getPublicKey = (\<lambda>seed. seed), ed_sign = (\<lambda>m seed. take 64 (seed @ m @ replicate 64 0)),
     ed_verify = (\<lambda>s m pk. Some (s = take 64 (pk @ m @ replicate 64 0)))\<rparr>"

lemma sample_ed_ok:
  "\<forall>m. ed_verify sample_ed (ed_sign sample_ed m seed) m (getPublicKey sample_ed seed) = Some True"
  "\<forall>m. length (ed_sign sample_ed m seed) = 64" "length (getPublicKey sample_ed (sample_key b)) = 32"
  by (auto simp: sample_ed_def sample_key_def min_def)

lemma sample_in_range [simp]: "I64_MIN \<le> 5" "5 \<le> I64_MAX" "I64_MIN \<le> 0" "0 \<le> I64_MAX"
  by (simp_all add: I64_MIN_def I64_MAX_def)

definition sample_genesis :: "js_string \<Rightarrow> ledger_entry" where
  "sample_genesis nonce = \<lparr>seq = 0, entry_at = 1700000000000, prevHash = toHex zeroHash,
     body = Transfer (sample_account 1) (sample_account 2) 5 nonce (sample_hex 64)\<rparr>"

lemma sample_genesis_bytes:
  assumes "hex_ok 16 nonce"
  obtains b where "entryBytes (sample_genesis nonce) = Inr b" "length b = 181"
proof -
  have at: "isSafeInteger 1700000000000" by (simp add: isSafeInteger_def max_safe_int_def)
  have z: "hex_ok 32 (toHex zeroHash)" by (simp add: hex_ok_def zeroHash_def)
  have "out_len (body_bytes (body (sample_genesis nonce))) = Some 129"
    using assms by (simp add: sample_genesis_def out_len_Cons out_len_Nil out_len_fields add_len_def)
  then obtain c where "body_bytes (body (sample_genesis nonce)) = Inr c" "length c = 129"
    by (auto simp: out_len_eq_Some)
  then have "out_len (entryBytes (sample_genesis nonce)) = Some 181"
    using at z by (simp add: entryBytes_eq out_len_Cons out_len_Nil out_len_fields add_len_def)
      (simp add: sample_genesis_def out_len_fields)
  then show thesis using that by (auto simp: out_len_eq_Some)
qed

lemma upper_case_hex: "toLowerCase (map (\<lambda>c. if 97 \<le> c then c - 32 else c) (toHex bs)) = toHex bs"
proof -
  have "\<forall>n \<in> set [0..<16]. lower_unit (if 97 \<le> HEX_ALPHABET ! n then HEX_ALPHABET ! n - 32 else HEX_ALPHABET ! n) = HEX_ALPHABET ! n"
    by code_simp
  then have "n < 16 \<Longrightarrow> lower_unit (if 97 \<le> HEX_ALPHABET ! n then HEX_ALPHABET ! n - 32 else HEX_ALPHABET ! n) = HEX_ALPHABET ! n" for n
    by simp
  then show ?thesis using byte_nibbles by (induction bs) (simp_all add: toLowerCase_def del: if_split)
qed

lemma tag_lengths: "length (utf8Bytes FEP_LEDGER_LEAF) = 28" "length (utf8Bytes FEP_MERKLE_LEAF) = 28"
  by (simp_all add: utf8_ascii FEP_LEDGER_LEAF_def FEP_MERKLE_LEAF_def)

section \<open>Properties\<close>

text \<open>
  Domain separation of signatures. Over every operation the client signs -- a journal head, a
  transfer, a trust line, a credit payment -- the signed message determines the operation and all
  its fields: a signature of one can never be presented as a signature of another.
\<close>

theorem signed_message_determines_operation:
  assumes "signed_message a = Inr x" and "signed_message b = Inr y"
  shows "x = y \<longleftrightarrow> norm_op a = norm_op b"
  using assms by (rule signed_message_inj)

theorem signed_message_determines_operation_witness:
  "\<exists>x y. signed_message (SignTransfer (sample_id 1) (sample_id 2) 5 (sample_id 3)) = Inr x \<and>
     signed_message (SignTrustline (sample_id 1) (sample_id 2) 5 0) = Inr y \<and> x \<noteq> y"
proof -
  obtain x where x: "signed_message (SignTransfer (sample_id 1) (sample_id 2) 5 (sample_id 3)) = Inr x"
    by (simp add: transferSigningBytes_eq bindE_Inr_iff result_iff domainMessage_eq)
  obtain y where y: "signed_message (SignTrustline (sample_id 1) (sample_id 2) 5 0) = Inr y"
    by (simp add: trustlineSigningBytes_eq bindE_Inr_iff result_iff domainMessage_eq)
  show ?thesis using x y signed_message_determines_operation [OF x y] by auto
qed

text \<open>
  A transfer the wallet authorizes verifies. From the request fields alone -- the two UUIDs, the
  amount, the hex nonce -- the verifier rebuilds the signed bytes, and the signature in the request
  passes \<open>verifyDomainTagged\<close> under the seed's public key, for any scheme that accepts its own
  signatures.
\<close>

theorem authorized_transfer_verifies:
  assumes "authorizeTransfer ed api seed frm to amount nonce = Inr tx"
    and "\<forall>m. ed_verify ed (ed_sign ed m seed) m (getPublicKey ed seed) = Some True"
    and "\<forall>m. length (ed_sign ed m seed) = 64" and "length (getPublicKey ed seed) = 32"
  shows "\<exists>f t n payload s pk. publicKeyFromSeed ed seed = Inr pk \<and>
    accountBytesFromUuid (fromUuid tx) = Inr f \<and> accountBytesFromUuid (toUuid tx) = Inr t \<and>
    fromHex (nonceHex tx) (Some 16) = Inr n \<and> transferSigningBytes f t (amountGrains tx) n = Inr payload \<and>
    fromHex (signatureHex tx) (Some 64) = Inr s \<and> verifyDomainTagged ed FEP_TRANSFER_AUTH payload s pk"
proof -
  from assms(1) obtain n f t payload s where
    n: "accountBytesFromUuid frm = Inr f" "accountBytesFromUuid to = Inr t"
      "transferSigningBytes f t amount n = Inr payload"
    and s: "signDomainTagged ed FEP_TRANSFER_AUTH payload seed = Inr s"
    and tx: "tx = \<lparr>fromUuid = frm, toUuid = to, amountGrains = amount, nonceHex = toHex n, signatureHex = toHex s\<rparr>"
    by (auto simp: authorizeTransfer_def bindE_Inr_iff)
  have "length n = 16" using n(3) by (auto simp: transferSigningBytes_def split: if_splits)
  moreover have "length seed = 32" "s = ed_sign ed (utf8Bytes FEP_TRANSFER_AUTH @ payload) seed"
    using s by (auto simp: signDomainTagged_def domainMessage_eq split: if_splits)
  ultimately show ?thesis
    using n tx assms by (simp add: publicKeyFromSeed_def verifyDomainTagged_def domainMessage_eq)
qed

theorem authorized_transfer_verifies_witness:
  "\<exists>tx. authorizeTransfer sample_ed None (sample_key 7) (toHex (sample_id 1)) (toHex (sample_id 2)) 5
     (Some (sample_id 3)) = Inr tx \<and>
   (\<exists>n. fromHex (nonceHex tx) (Some 16) = Inr n)"
proof -
  have acct: "accountBytesFromUuid (toHex (sample_id b)) = Inr (sample_id b)" for b
    by (simp add: accountBytesFromUuid_iff hex_no_dash)
  obtain payload where p: "transferSigningBytes (sample_id 1) (sample_id 2) 5 (sample_id 3) = Inr payload"
    by (simp add: transferSigningBytes_eq result_iff)
  then obtain tx where tx: "authorizeTransfer sample_ed None (sample_key 7) (toHex (sample_id 1))
      (toHex (sample_id 2)) 5 (Some (sample_id 3)) = Inr tx"
    by (simp add: authorizeTransfer_def acct signDomainTagged_def domainMessage_eq sample_key_def)
  from authorized_transfer_verifies [OF tx] sample_ed_ok tx show ?thesis by blast
qed

text \<open>
  When a trust line is signed: exactly for a 32-byte seed, limits in the i64 range and a pair
  whose first account does not come after the second. An account paired with itself is accepted
  although the refusal message demands a strict order.
\<close>

theorem trustline_signed_iff:
  "(\<exists>s. signTrustline ed seed u v x y = Inr s) \<longleftrightarrow>
     length seed = 32 \<and> I64_MIN \<le> x \<and> x \<le> I64_MAX \<and> I64_MIN \<le> y \<and> y \<le> I64_MAX \<and>
     (\<exists>l h. accountBytesFromUuid u = Inr l \<and> accountBytesFromUuid v = Inr h \<and> compareBytes l h \<le> 0)"
  by (rule signTrustline_iff)

text \<open>
  C3. Level L0, an entry is in the journal: when \<open>verifyEntryInclusion\<close> accepts against the head of
  a journal, the entry is the journal's entry at that sequence number, in every field, provided the
  hash has no collision among the strings hashed for the journal and for the check.
\<close>

theorem entry_inclusion_sound:
  assumes "\<forall>x. length (sha256 x) = 32"
    and "mapE (entry_leaf sha256) journal = Inr leaves"
    and "toLowerCase (merkleRootHex h) = toHex (mth sha256 leaves)" and "size h = int (length journal)"
    and "list_all (\<lambda>e. body_text_ok (body e)) (entry # journal)"
    and "inj_on sha256 (set (journal_strings sha256 (entry # journal)) \<union> set (mth_inputs sha256 leaves) \<union>
      set (inclusion_strings sha256 entry proofHex (length journal)))"
    and "verifyEntryInclusion sha256 entry proofHex h = Some True"
  shows "0 \<le> seq entry \<and> nat (seq entry) < length journal \<and> norm_entry entry = norm_entry (journal ! nat (seq entry))"
  using assms by (rule entry_inclusion_sound_aux)

theorem entry_inclusion_sound_witness:
  "\<exists>leaf. entry_leaf sample_sha (sample_genesis (sample_hex 16)) = Inr leaf \<and>
     verifyEntryInclusion sample_sha (sample_genesis (sample_hex 16)) []
       \<lparr>size = 1, lastEntryHash = [], merkleRootHex = toHex leaf, head_at = 0\<rparr> = Some True \<and>
     norm_entry (sample_genesis (sample_hex 16)) = norm_entry ([sample_genesis (sample_hex 16)] ! 0)"
proof -
  let ?e = "sample_genesis (sample_hex 16)"
  obtain b where b: "entryBytes ?e = Inr b" "length b = 181"
    by (rule sample_genesis_bytes [OF sample_hex_ok])
  define h where "h = sample_sha (entry_input b)"
  define leaf where "leaf = sample_sha (leaf_input h)"
  have eh: "entryHash sample_sha ?e = Inr h" using b by (simp add: entryHash_iff h_def)
  have el: "entry_leaf sample_sha ?e = Inr leaf" using eh by (simp add: entry_leaf_iff leaf_def)
  let ?head = "\<lparr>size = 1, lastEntryHash = [], merkleRootHex = toHex leaf, head_at = 0\<rparr>"
  have l32: "length leaf = 32" by (simp add: leaf_def sample_sha_length)
  have root: "fromHex (toHex leaf) (Some 32) = Inr leaf" using l32 by simp
  have s: "seq ?e = 0" "body_text_ok (body ?e)" by (simp_all add: sample_genesis_def)
  have "verifyInclusion sample_sha leaf 0 1 [] leaf = Some True"
    using verifyInclusion_path [of 0 "[leaf]" sample_sha] by (simp add: incl_path.simps [of _ "[_]"])
  then have ok: "verifyEntryInclusion sample_sha ?e [] ?head = Some True"
    using eh root s by (simp add: verifyEntryInclusion_def merkleLeafHash_input leaf_def)
  have "sample_sha (entry_input b) \<noteq> sample_sha (leaf_input h)"
    by (simp add: sample_sha_def entry_input_def leaf_input_def tag_lengths b h_def)
  then have "inj_on sample_sha {entry_input b, leaf_input h}" by (auto simp: inj_on_def)
  moreover have "set (journal_strings sample_sha [?e, ?e]) \<union> set (mth_inputs sample_sha [leaf]) \<union>
      set (inclusion_strings sample_sha ?e [] (length [?e])) \<subseteq> {entry_input b, leaf_input h}"
    using b eh el by (auto simp: journal_strings_def entry_strings_def leaf_strings_def inclusion_strings_def
        mth_inputs.simps [of _ "[_]"])
  ultimately have inj: "inj_on sample_sha (set (journal_strings sample_sha (?e # [?e])) \<union> set (mth_inputs sample_sha [leaf]) \<union>
      set (inclusion_strings sample_sha ?e [] (length [?e])))" by (rule inj_on_subset)
  have "0 \<le> seq ?e \<and> nat (seq ?e) < length [?e] \<and> norm_entry ?e = norm_entry ([?e] ! nat (seq ?e))"
    using sample_sha_length el s by (intro entry_inclusion_sound [OF _ _ _ _ _ inj ok]) simp_all
  with el ok s show ?thesis by auto
qed

text \<open>
  What \<open>replayHashChain\<close> accepts: a non-empty journal of at most \<open>2 ^ 30\<close> entries that all hash,
  numbered without gaps from zero, each carrying the hash of its predecessor (the first the zero
  hash), with times that never go back; the head it returns is the journal's size, last hash,
  Merkle root and last time.
\<close>

theorem replay_accepts_iff:
  "replayHashChain sha256 es = Some (Replayed h) \<longleftrightarrow>
     0 < length es \<and> length es \<le> 2 ^ 30 \<and>
     (\<exists>hs. mapE (entryHash sha256) es = Inr hs \<and>
        list_all (\<lambda>j. seq (es ! j) = int j \<and>
          toLowerCase (prevHash (es ! j)) = toHex ((zeroHash # hs) ! j)) [0..<length es] \<and>
        sorted (map entry_at es) \<and>
        h = \<lparr>size = int (length es), lastEntryHash = toHex (last hs),
             merkleRootHex = toHex (mth sha256 (map (merkleLeafHash sha256) hs)), head_at = entry_at (last es)\<rparr>)"
  unfolding replayHashChain_iff chained_def by simp

text \<open>
  C4. Tamper evidence of the replay: two journals whose replays end in the same last entry hash are
  the same journal, entry by entry and field by field, provided the hash has no collision among the
  entries of the two. Changing, removing or inserting any entry changes the last hash.
\<close>

theorem replay_tamper_evident:
  assumes "replayHashChain sha256 as = Some (Replayed ha)"
    and "replayHashChain sha256 bs = Some (Replayed hb)"
    and "lastEntryHash ha = lastEntryHash hb"
    and "inj_on sha256 (set (concat (map entry_strings (as @ bs))))"
    and "list_all (\<lambda>e. body_text_ok (body e)) (as @ bs)"
  shows "map norm_entry as = map norm_entry bs"
proof -
  from assms(1,2) obtain hs ks where
    a: "as \<noteq> []" "mapE (entryHash sha256) as = Inr hs" "chained 0 zeroHash as hs" "lastEntryHash ha = toHex (last hs)"
    and b: "bs \<noteq> []" "mapE (entryHash sha256) bs = Inr ks" "chained 0 zeroHash bs ks" "lastEntryHash hb = toHex (last ks)"
    unfolding replayHashChain_iff by (auto simp del: toHex_inj)
  have len: "length hs = length as" "length ks = length bs" using a b mapE_Inr_length by blast+
  have "hs \<noteq> []" "ks \<noteq> []" using len a(1) b(1) by force+
  then have last: "hs ! (length as - 1) = ks ! (length bs - 1)"
    using a b assms(3) len last_conv_nth [of hs] last_conv_nth [of ks] by auto
  have la: "length as - 1 < length as" "length bs - 1 < length bs" using a(1) b(1) by simp_all
  have ends: "entryHash sha256 (as ! (length as - 1)) = Inr (hs ! (length as - 1))"
    "entryHash sha256 (bs ! (length bs - 1)) = Inr (ks ! (length bs - 1))"
    using mapE_Inr_nth [OF a(2) la(1)] mapE_Inr_nth [OF b(2) la(2)] .
  have "norm_entry (as ! (length as - 1)) = norm_entry (bs ! (length bs - 1))"
    using ends last a(1) b(1) assms(5)
    by (intro entryHash_inj [OF _ _ assms(4)]) (auto simp: list_all_iff)
  then have "seq (as ! (length as - 1)) = seq (bs ! (length bs - 1))" by (rule norm_entry_fields)
  then have n: "length as = length bs"
    using chained_nth [OF a(3) la(1)] chained_nth [OF b(3) la(2)] la by linarith
  have "\<forall>i \<le> length as - 1. norm_entry (as ! i) = norm_entry (bs ! i)"
    using a(1) b(1) n last by (intro chained_inj [OF a(2,3) b(2,3) assms(4,5)]) auto
  then show ?thesis using n by (intro nth_equalityI) auto
qed

theorem replay_tamper_evident_witness:
  "map norm_entry [sample_genesis (sample_hex 16)] = map norm_entry [sample_genesis (map (\<lambda>c. if 97 \<le> c then c - 32 else c) (sample_hex 16))]"
proof -
  let ?u = "map (\<lambda>c. if 97 \<le> c then c - 32 else c) (sample_hex 16)"
  let ?a = "sample_genesis (sample_hex 16)" and ?b = "sample_genesis ?u"
  have low: "toLowerCase ?u = toLowerCase (sample_hex 16)"
    by (simp only: sample_hex_def upper_case_hex toLowerCase_toHex)
  have uok: "hex_ok 16 ?u"
    using sample_hex_ok [of 16] tryFromHex_toLowerCase [of ?u] tryFromHex_toLowerCase [of "sample_hex 16"]
    by (simp add: hex_ok_def low del: tryFromHex_toLowerCase)
  obtain b where b: "entryBytes ?a = Inr b" by (rule sample_genesis_bytes [OF sample_hex_ok])
  obtain c where c: "entryBytes ?b = Inr c" by (rule sample_genesis_bytes [OF uok])
  have "norm_entry ?a = norm_entry ?b" using low by (simp add: norm_entry_def sample_genesis_def)
  then have bc: "b = c" using entryBytes_eq_iff [OF b c] by (simp add: sample_genesis_def)
  have "\<exists>h. replayHashChain sample_sha [e] = Some (Replayed h) \<and> lastEntryHash h = toHex (sample_sha (entry_input b))"
    if "entryBytes e = Inr b" "seq e = 0" "prevHash e = toHex zeroHash" for e
  proof -
    have "entryHash sample_sha e = Inr (sample_sha (entry_input b))" using that(1) by (simp add: entryHash_iff)
    with that show ?thesis by (simp add: replayHashChain_iff chained_def)
  qed
  note run = this
  have g: "seq (sample_genesis n) = 0" "prevHash (sample_genesis n) = toHex zeroHash" for n
    by (simp_all add: sample_genesis_def)
  obtain ha where ha: "replayHashChain sample_sha [?a] = Some (Replayed ha)" "lastEntryHash ha = toHex (sample_sha (entry_input b))"
    using run [OF b g] by blast
  obtain hb where hb: "replayHashChain sample_sha [?b] = Some (Replayed hb)" "lastEntryHash hb = toHex (sample_sha (entry_input b))"
    using run [OF c [folded bc] g] by blast
  have "inj_on sample_sha (set (concat (map entry_strings ([?a] @ [?b]))))"
    using b c bc by (simp add: entry_strings_def)
  then show ?thesis
    using ha hb by (intro replay_tamper_evident [OF ha(1) hb(1)]) (simp_all add: sample_genesis_def)
qed

text \<open>
  C2. Level L1, the journal is append-only. Let the remembered head carry the root of one list of
  leaf hashes and the offered head the root of another. When \<open>advanceTrustedHead\<close> accepts, it
  returns the offered head, the size has not gone back, and the old leaves are a prefix of the new
  ones, provided the hash has no collision among the strings of the two trees and the proof.
\<close>

theorem advance_append_only:
  assumes "\<forall>x. length (sha256 x) = 32"
    and "list_all (\<lambda>h. length h = 32) old" and "list_all (\<lambda>h. length h = 32) new"
    and "toLowerCase (merkleRootHex t) = toHex (mth sha256 old)" and "size t = int (length old)"
    and "toLowerCase (merkleRootHex offered) = toHex (mth sha256 new)" and "size offered = int (length new)"
    and "inj_on sha256 (set (mth_inputs sha256 old) \<union> set (mth_inputs sha256 new) \<union>
      set (consistency_strings sha256 (length old) (length new) (mth sha256 old) proofHex))"
    and "advanceTrustedHead sha256 ed (Some t) offered proofHex cosigns witnesses = Advanced h c s"
  shows "h = offered \<and> size t \<le> size offered \<and> (\<exists>appended. new = old @ appended)"
proof -
  have ok: "h = offered" "check_against_trusted sha256 t offered proofHex = None"
    using assms(9) by (auto simp: advance_Advanced_iff)
  then have "size t \<le> size offered" by (auto simp: check_against_trusted_def split: if_splits)
  moreover have "old = take (length old) new"
    using assms ok(2) by (intro check_against_trusted_sound)
  ultimately show ?thesis using ok(1) by (metis append_take_drop_id)
qed

theorem advance_append_only_witness:
  "advanceTrustedHead sample_sha sample_ed
     (Some \<lparr>size = 1, lastEntryHash = [], merkleRootHex = toHex (sample_leaf 1), head_at = 0\<rparr>)
     \<lparr>size = 2, lastEntryHash = [], merkleRootHex = toHex (mth sample_sha [sample_leaf 1, sample_leaf 2]), head_at = 1\<rparr>
     (Some [toHex (sample_leaf 2)]) None None =
   Advanced \<lparr>size = 2, lastEntryHash = [], merkleRootHex = toHex (mth sample_sha [sample_leaf 1, sample_leaf 2]), head_at = 1\<rparr> 0 0 \<and>
   (\<exists>appended. [sample_leaf 1, sample_leaf 2] = [sample_leaf 1] @ appended)"
proof -
  let ?new = "[sample_leaf 1, sample_leaf 2]"
  let ?t = "\<lparr>size = 1, lastEntryHash = [], merkleRootHex = toHex (sample_leaf 1), head_at = 0\<rparr> :: ledger_head"
  let ?o = "\<lparr>size = 2, lastEntryHash = [], merkleRootHex = toHex (mth sample_sha ?new), head_at = 1\<rparr> :: ledger_head"
  have l: "length (mth sample_sha ?new) = 32" by (intro length_mth sample_sha_length) simp
  have v: "verifyConsistency sample_sha 1 2 (sample_leaf 1) (mth sample_sha ?new) [sample_leaf 2]"
    using sample_consistency(2) by simp
  have a: "advanceTrustedHead sample_sha sample_ed (Some ?t) ?o (Some [toHex (sample_leaf 2)]) None None = Advanced ?o 0 0"
    using v l by (simp add: advance_Advanced_iff check_against_trusted_def)
  have inj: "inj_on sample_sha (set (mth_inputs sample_sha [sample_leaf 1]) \<union> set (mth_inputs sample_sha ?new) \<union>
      set (consistency_strings sample_sha (length [sample_leaf 1]) (length ?new) (mth sample_sha [sample_leaf 1])
        (Some [toHex (sample_leaf 2)])))"
    using sample_consistency(1) by (simp add: consistency_strings_def)
  have "?o = ?o \<and> size ?t \<le> size ?o \<and> (\<exists>appended. ?new = [sample_leaf 1] @ appended)"
    by (rule advance_append_only [OF _ _ _ _ _ _ _ inj a]) (simp_all add: sample_sha_length)
  with a show ?thesis by simp
qed

text \<open>
  What the cosignature counters count. On an accepted head the confirmed counter is the number of
  cosignatures in the answer that verify, name a registered witness if the registry is not empty,
  and sign exactly this head; the stale counter is the number of those that sign another head. With
  an empty registry no membership is checked, and a repeated cosignature counts every time.
\<close>

theorem cosigns_counted:
  "advanceTrustedHead sha256 ed trusted offered proofHex (Some cosigns) (Some registry) = Advanced h c s \<longleftrightarrow>
     (case trusted of None \<Rightarrow> True | Some t \<Rightarrow> check_against_trusted sha256 t offered proofHex = None) \<and>
     h = offered \<and>
     c = length (filter (\<lambda>x. verifyHeadCosign ed x \<and> (if registry = [] then True else isRegisteredWitness x registry) \<and>
           norm_head (cosign_head x) = norm_head offered) cosigns) \<and>
     s = length (filter (\<lambda>x. verifyHeadCosign ed x \<and> (if registry = [] then True else isRegisteredWitness x registry) \<and>
           norm_head (cosign_head x) \<noteq> norm_head offered) cosigns)"
  by (simp add: advance_Advanced_iff count_cosigns_eq counts_for_def [abs_def])

end
