(* ===== verification/Flora_Text.thy ===== *)
theory Flora_Text
  imports Flora_Prelude
begin

text \<open>
  \<open>TextDecoder.decode\<close> of the platform: the WHATWG UTF-8 decoder with replacement characters and
  byte-order-mark removal, and its inverse relation to \<open>TextEncoder.encode\<close>.
\<close>

section \<open>Decoding\<close>

text \<open>
  The state is the code point being assembled, the continuation bytes still needed, and the bounds
  of the next one. A byte out of bounds ends the sequence with U+FFFD and is read again.
\<close>

function utf8_dec :: "nat \<Rightarrow> nat \<Rightarrow> nat \<Rightarrow> nat \<Rightarrow> nat list \<Rightarrow> nat list" where
  "utf8_dec cp n lo hi [] = (if n = 0 then [] else [0xFFFD])"
| "utf8_dec cp n lo hi (b # bs) =
     (if n = 0 then
        (if b < 0x80 then b # utf8_dec 0 0 0x80 0xBF bs
         else if 0xC2 \<le> b \<and> b \<le> 0xDF then utf8_dec (b - 0xC0) 1 0x80 0xBF bs
         else if 0xE0 \<le> b \<and> b \<le> 0xEF then
           utf8_dec (b - 0xE0) 2 (if b = 0xE0 then 0xA0 else 0x80) (if b = 0xED then 0x9F else 0xBF) bs
         else if 0xF0 \<le> b \<and> b \<le> 0xF4 then
           utf8_dec (b - 0xF0) 3 (if b = 0xF0 then 0x90 else 0x80) (if b = 0xF4 then 0x8F else 0xBF) bs
         else 0xFFFD # utf8_dec 0 0 0x80 0xBF bs)
      else if \<not> (lo \<le> b \<and> b \<le> hi) then 0xFFFD # utf8_dec 0 0 0x80 0xBF (b # bs)
      else if n = 1 then (cp * 64 + (b - 0x80)) # utf8_dec 0 0 0x80 0xBF bs
      else utf8_dec (cp * 64 + (b - 0x80)) (n - 1) 0x80 0xBF bs)"
  by pat_completeness auto
termination
  by (relation "measure (\<lambda>(cp, n, lo, hi, bs). 2 * length bs + (if n = 0 then 0 else 1))") auto

definition utf16_units :: "nat \<Rightarrow> nat list" where
  "utf16_units c =
     (if c < 0x10000 then [c]
      else [0xD800 + (c - 0x10000) div 0x400, 0xDC00 + (c - 0x10000) mod 0x400])"

definition text_decode :: "bytes \<Rightarrow> js_string" where
  "text_decode bs =
     (let cs = utf8_dec 0 0 0x80 0xBF (map unat bs)
      in concat (map utf16_units (if take 1 cs = [0xFEFF] then drop 1 cs else cs)))"

section \<open>Decoding what was encoded\<close>

definition is_scalar :: "nat \<Rightarrow> bool" where
  "is_scalar c \<longleftrightarrow> c < 0x110000 \<and> \<not> (0xD800 \<le> c \<and> c < 0xE000)"

lemma utf8_dec_scalar:
  assumes "is_scalar c"
  shows "utf8_dec 0 0 0x80 0xBF (map unat (utf8_scalar c) @ r) = c # utf8_dec 0 0 0x80 0xBF r"
proof -
  have c: "c < 0x110000" using assms by (simp add: is_scalar_def)
  have two: "c div 64 * 64 + c mod 64 = c" "c div 4096 * 64 + c div 64 mod 64 = c div 64"
    "c div 262144 * 64 + c div 4096 mod 64 = c div 4096"
    using div_mult2_eq [of c 64 64] div_mult2_eq [of c 4096 64] by simp_all
  consider "c < 0x80" | "0x80 \<le> c" "c < 0x800" | "0x800 \<le> c" "c < 0x10000" | "0x10000 \<le> c" by linarith
  then show ?thesis
  proof cases
    case 1
    then show ?thesis by (simp add: utf8_scalar_units [OF c])
  next
    case 2
    define q m where "q = c div 64" and "m = c mod 64"
    have "m \<le> 63" using mod_less_divisor [of 64 c] unfolding m_def by linarith
    moreover have "2 \<le> q" "q < 32" using 2 by (auto simp: q_def)
    moreover have "q * 64 + m = c" by (simp add: q_def m_def)
    ultimately show ?thesis
      unfolding utf8_scalar_units [OF c] q_def [symmetric] m_def [symmetric] using 2 by simp
  next
    case 3
    define q2 q1 m where "q2 = c div 4096" and "q1 = c div 64 mod 64" and "m = c mod 64"
    have b: "q2 < 16" "q1 \<le> 63" "m \<le> 63"
      using 3 mod_less_divisor [of 64 "c div 64"] mod_less_divisor [of 64 c]
      unfolding q2_def q1_def m_def by (simp, linarith+)
    have e: "(q2 * 64 + q1) * 64 + m = c" unfolding q2_def q1_def m_def two(2) by simp
    have e': "q2 * 4096 + q1 * 64 + m = c" using e by simp
    have lo: "(if q2 = 0 then 0xA0 else 0x80) \<le> 0x80 + q1" using e' b 3 by auto
    have hi: "0x80 + q1 \<le> (if q2 = 13 then 0x9F else 0xBF)"
    proof (rule ccontr)
      assume "\<not> ?thesis"
      then have "q2 = 13" "32 \<le> q1" using b by (auto split: if_splits)
      then have "0xD800 \<le> c" "c < 0xE000" using e' b by linarith+
      then show False using assms by (simp add: is_scalar_def)
    qed
    have u: "map unat (utf8_scalar c) = [0xE0 + q2, 0x80 + q1, 0x80 + m]"
      unfolding utf8_scalar_units [OF c] q2_def q1_def m_def using 3 by simp
    show ?thesis unfolding map_append u using b lo hi e by simp
  next
    case 4
    define q3 q2 q1 m where "q3 = c div 262144" and "q2 = c div 4096 mod 64"
      and "q1 = c div 64 mod 64" and "m = c mod 64"
    have b: "q3 \<le> 4" "q2 \<le> 63" "q1 \<le> 63" "m \<le> 63"
      using c mod_less_divisor [of 64 "c div 4096"] mod_less_divisor [of 64 "c div 64"]
        mod_less_divisor [of 64 c]
      unfolding q3_def q2_def q1_def m_def by (simp, linarith+)
    have e: "((q3 * 64 + q2) * 64 + q1) * 64 + m = c"
      unfolding q3_def q2_def q1_def m_def two(3) two(2) by simp
    have e': "q3 * 262144 + q2 * 4096 + q1 * 64 + m = c" using e by simp
    have lo: "(if q3 = 0 then 0x90 else 0x80) \<le> 0x80 + q2" using e' b 4 by auto
    have hi: "0x80 + q2 \<le> (if q3 = 4 then 0x8F else 0xBF)" using e' b c by auto
    have u: "map unat (utf8_scalar c) = [0xF0 + q3, 0x80 + q2, 0x80 + q1, 0x80 + m]"
      unfolding utf8_scalar_units [OF c] q3_def q2_def q1_def m_def using 4 by simp
    show ?thesis unfolding map_append u using b lo hi e by simp
  qed
qed

lemma scalar_values_ok: "is_js_string s \<Longrightarrow> list_all is_scalar (scalar_values s)"
  by (induction s rule: scalar_values.induct)
    (auto simp: is_js_string_def is_scalar_def high_surrogate_def low_surrogate_def)

lemma utf8_dec_encode: "is_js_string s \<Longrightarrow> utf8_dec 0 0 0x80 0xBF (map unat (utf8_encode s)) = scalar_values s"
proof -
  have "list_all is_scalar cs \<Longrightarrow> utf8_dec 0 0 0x80 0xBF (map unat (concat (map utf8_scalar cs))) = cs" for cs
    by (induction cs) (simp_all add: utf8_dec_scalar)
  then show "is_js_string s \<Longrightarrow> ?thesis" by (simp add: utf8_encode_def scalar_values_ok)
qed

text \<open>No unpaired surrogate and no leading byte-order mark.\<close>

fun well_formed :: "js_string \<Rightarrow> bool" where
  "well_formed [] = True"
| "well_formed [c] = (\<not> high_surrogate c \<and> \<not> low_surrogate c)"
| "well_formed (c # d # r) =
     (if high_surrogate c \<and> low_surrogate d then well_formed r
      else \<not> high_surrogate c \<and> \<not> low_surrogate c \<and> well_formed (d # r))"

definition plain_text :: "js_string \<Rightarrow> bool" where
  "plain_text s \<longleftrightarrow> is_js_string s \<and> well_formed s \<and> take 1 s \<noteq> [0xFEFF]"

lemma utf16_scalar_values: "is_js_string s \<Longrightarrow> well_formed s \<Longrightarrow> concat (map utf16_units (scalar_values s)) = s"
proof (induction s rule: scalar_values.induct)
  case (3 c d r)
  show ?case
  proof (cases "high_surrogate c \<and> low_surrogate d")
    case True
    then have "utf16_units (0x10000 + (c - 0xD800) * 0x400 + (d - 0xDC00)) = [c, d]"
    proof -
      obtain j k where "c = 0xD800 + j" "d = 0xDC00 + k" "j < 0x400" "k < 0x400"
        using True by (auto simp: high_surrogate_def low_surrogate_def le_iff_add)
      then show ?thesis by (simp add: utf16_units_def)
    qed
    with True 3 show ?thesis by (simp add: is_js_string_def)
  next
    case False
    with 3 show ?thesis by (auto simp: is_js_string_def utf16_units_def)
  qed
qed (auto simp: is_js_string_def utf16_units_def)

lemma scalar_values_bom: "take 1 s \<noteq> [0xFEFF] \<Longrightarrow> take 1 (scalar_values s) \<noteq> [0xFEFF]"
  by (induction s rule: scalar_values.induct) (auto simp: high_surrogate_def low_surrogate_def)

lemma text_decode_encode: "plain_text s \<Longrightarrow> text_decode (utf8_encode s) = s"
  using scalar_values_bom
  by (simp add: text_decode_def Let_def plain_text_def utf8_dec_encode utf16_scalar_values)

end
