(* ===== verification/Fgce_Wire.thy ===== *)
theory Fgce_Wire
  imports Flora_Text
begin

text \<open>
  The byte transport of the rendering engine binding (\<open>products/fgce/bindings/ts/src/protocol.ts\<close>):
  the growing \<open>Writer\<close> with its deferred blobs, the \<open>Reader\<close>, and the layout predicate \<open>laid\<close> that
  says what a finished request holds. The kernel-side reader of \<open>crates/fgce-wasm/src/wire.rs\<close> is
  in \<open>Fgce_Host\<close>.
\<close>

section \<open>Errors of the binding\<close>

datatype fgce_failure =
    Diverges
  | RangeError
  | Truncated
  | UnknownErrorCode int
  | UnknownKind int
  | Incompatible int
  | EngineDestroyed
  | AllocFailed
  | SubmitRejected
  | UnexpectedKind
  | FgceError string int

section \<open>The writer\<close>

record fgce_writer =
  buffer :: bytes
  position :: nat
  deferred :: "(nat \<times> bytes) list"

definition fresh_writer :: "nat \<Rightarrow> fgce_writer" where
  "fresh_writer capacity = \<lparr>buffer = replicate (max 16 capacity) 0, position = 0, deferred = []\<rparr>"

text \<open>\<open>while (capacity < needed) capacity *= 2\<close>: no result when the loop does not end.\<close>

partial_function (option) double_to :: "nat \<Rightarrow> nat \<Rightarrow> nat option" where
  "double_to needed capacity =
     (if capacity < needed then double_to needed (capacity * 2) else Some capacity)"

definition ensure :: "nat \<Rightarrow> fgce_writer \<Rightarrow> fgce_failure + fgce_writer" where
  "ensure len w =
     (if position w + len \<le> length (buffer w) then Inr w
      else bindE (optE Diverges (double_to (position w + len) (length (buffer w)))) (\<lambda>capacity.
           bindE (optE RangeError
                   (array_set (replicate capacity 0) (take (position w) (buffer w)) 0)) (\<lambda>next.
           Inr (w\<lparr>buffer := next\<rparr>))))"

text \<open>An indexed store past the end of a typed array is ignored, as \<open>list_update\<close> is.\<close>

definition w_u8 :: "int \<Rightarrow> fgce_writer \<Rightarrow> fgce_failure + fgce_writer" where
  "w_u8 value w = bindE (ensure 1 w) (\<lambda>w.
     Inr (w\<lparr>buffer := (buffer w)[position w := word_of_int (value AND 0xFF)],
            position := position w + 1\<rparr>))"

definition w_i8 :: "int \<Rightarrow> fgce_writer \<Rightarrow> fgce_failure + fgce_writer" where
  "w_i8 value = w_u8 (value AND 0xFF)"

definition w_bool :: "bool \<Rightarrow> fgce_writer \<Rightarrow> fgce_failure + fgce_writer" where
  "w_bool value = w_u8 (if value then 1 else 0)"

definition set_view :: "nat \<Rightarrow> bytes \<Rightarrow> fgce_writer \<Rightarrow> fgce_failure + fgce_writer" where
  "set_view pos bs w =
     bindE (optE RangeError (array_set (buffer w) bs pos)) (\<lambda>next. Inr (w\<lparr>buffer := next\<rparr>))"

definition w_u32 :: "int \<Rightarrow> fgce_writer \<Rightarrow> fgce_failure + fgce_writer" where
  "w_u32 value w = bindE (ensure 4 w) (\<lambda>w.
     bindE (set_view (position w) (le_bytes 4 (take_bit 32 value)) w) (\<lambda>w.
     Inr (w\<lparr>position := position w + 4\<rparr>)))"

definition w_i32 :: "int \<Rightarrow> fgce_writer \<Rightarrow> fgce_failure + fgce_writer" where
  "w_i32 value w = bindE (ensure 4 w) (\<lambda>w.
     bindE (set_view (position w) (le_bytes 4 (signed_take_bit 31 value)) w) (\<lambda>w.
     Inr (w\<lparr>position := position w + 4\<rparr>)))"

text \<open>\<open>bytes\<close> returns the offset it wrote at.\<close>

definition w_bytes :: "bytes \<Rightarrow> fgce_writer \<Rightarrow> fgce_failure + nat \<times> fgce_writer" where
  "w_bytes value w =
     (let offset = position w in
      bindE (ensure (length value) w) (\<lambda>w.
      bindE (optE RangeError (array_set (buffer w) value (position w))) (\<lambda>next.
      Inr (offset, w\<lparr>buffer := next, position := position w + length value\<rparr>))))"

definition deferredBlob :: "bytes \<Rightarrow> fgce_writer \<Rightarrow> fgce_failure + fgce_writer" where
  "deferredBlob value w =
     bindE (w_u32 0 (w\<lparr>deferred := deferred w @ [(position w, value)]\<rparr>)) (w_u32 0)"

definition patchU32 :: "nat \<Rightarrow> int \<Rightarrow> fgce_writer \<Rightarrow> fgce_failure + fgce_writer" where
  "patchU32 pos value = set_view pos (le_bytes 4 (take_bit 32 value))"

definition flush_blob :: "nat \<times> bytes \<Rightarrow> fgce_writer \<Rightarrow> fgce_failure + fgce_writer" where
  "flush_blob blob w =
     bindE (w_bytes (snd blob) w) (\<lambda>(offset, w).
     bindE (patchU32 (fst blob) (int offset) w)
           (patchU32 (fst blob + 4) (int (length (snd blob)))))"

definition w_finish :: "fgce_writer \<Rightarrow> fgce_failure + bytes" where
  "w_finish w = bindE (foldE flush_blob (deferred w) w) (\<lambda>w. Inr (take (position w) (buffer w)))"

text \<open>\<open>const writer = new Writer(capacity); ...; return writer.finish()\<close>.\<close>

definition with_writer ::
  "nat \<Rightarrow> (fgce_writer \<Rightarrow> fgce_failure + fgce_writer) list \<Rightarrow> fgce_failure + bytes" where
  "with_writer capacity ops = bindE (chainE ops (fresh_writer capacity)) w_finish"

section \<open>Growth\<close>

lemma double_to_returns:
  "0 < capacity \<Longrightarrow> \<exists>c. double_to needed capacity = Some c \<and> needed \<le> c \<and> capacity \<le> c"
proof (induction "needed - capacity" arbitrary: capacity rule: less_induct)
  case less
  show ?case
  proof (cases "capacity < needed")
    case True
    with less.prems have "needed - capacity * 2 < needed - capacity" "0 < capacity * 2" by auto
    then obtain c where "double_to needed (capacity * 2) = Some c" "needed \<le> c" "capacity * 2 \<le> c"
      using less.hyps by blast
    with True show ?thesis by (simp add: double_to.simps [of needed capacity])
  next
    case False
    then show ?thesis by (simp add: double_to.simps [of needed capacity])
  qed
qed

text \<open>The bytes written so far and the invariant of a writer.\<close>

definition written :: "fgce_writer \<Rightarrow> bytes" where
  "written w = take (position w) (buffer w)"

definition fgce_writer_ok :: "fgce_writer \<Rightarrow> bool" where
  "fgce_writer_ok w \<longleftrightarrow> 16 \<le> length (buffer w) \<and> position w \<le> length (buffer w)"

lemma length_written: "fgce_writer_ok w \<Longrightarrow> length (written w) = position w"
  by (simp add: written_def fgce_writer_ok_def)

lemma fresh_fgce_writer: "fgce_writer_ok (fresh_writer n)" "written (fresh_writer n) = []"
  "deferred (fresh_writer n) = []" "position (fresh_writer n) = 0"
  by (simp_all add: fgce_writer_ok_def fresh_writer_def written_def)

lemma ensure_result:
  assumes "fgce_writer_ok w"
  shows "\<exists>b. ensure n w = Inr (w\<lparr>buffer := b\<rparr>) \<and> position w + n \<le> length b \<and> 16 \<le> length b \<and>
             take (position w) b = written w"
proof (cases "position w + n \<le> length (buffer w)")
  case True
  then show ?thesis
    using assms by (intro exI [of _ "buffer w"]) (simp add: ensure_def written_def fgce_writer_ok_def)
next
  case False
  obtain c where c: "double_to (position w + n) (length (buffer w)) = Some c"
    "position w + n \<le> c" "length (buffer w) \<le> c"
    using double_to_returns [of "length (buffer w)" "position w + n"] assms
    by (fastforce simp: fgce_writer_ok_def)
  have "16 \<le> length (buffer w)" "position w \<le> length (buffer w)" using assms by (simp_all add: fgce_writer_ok_def)
  then have "position w \<le> c" "16 \<le> c" using c(3) by linarith+
  with c False assms show ?thesis
    by (auto simp: ensure_def array_set_def written_def fgce_writer_ok_def min_def)
qed

definition advanced :: "fgce_writer \<Rightarrow> bytes \<Rightarrow> fgce_writer \<Rightarrow> bool" where
  "advanced w bs w' \<longleftrightarrow> fgce_writer_ok w' \<and> written w' = written w @ bs \<and> deferred w' = deferred w"

lemma advanced_position: "fgce_writer_ok w \<Longrightarrow> advanced w bs w' \<Longrightarrow> position w' = position w + length bs"
  using length_written [of w'] length_written [of w] by (simp add: advanced_def)

lemma w_u8_advanced:
  assumes "fgce_writer_ok w"
  shows "\<exists>w'. w_u8 v w = Inr w' \<and> advanced w [word_of_int v] w'"
proof -
  obtain b where b: "ensure 1 w = Inr (w\<lparr>buffer := b\<rparr>)" "position w + 1 \<le> length b" "16 \<le> length b"
    "take (position w) b = written w"
    using ensure_result [OF assms] by blast
  have "v AND 255 = take_bit 8 v" by (simp add: take_bit_eq_mask mask_eq_exp_minus_1)
  then have e: "(word_of_int (v AND 255) :: byte) = word_of_int v"
    by (simp add: word_uint_eq_iff take_bit_eq_mod)
  show ?thesis
    using b by (simp add: w_u8_def e advanced_def fgce_writer_ok_def written_def take_Suc_conv_app_nth)
qed

lemma word32_le_bytes: "take_bit 32 v = take_bit 32 (v' :: int) \<Longrightarrow> le_bytes 4 v = le_bytes 4 v'"
proof -
  assume e: "take_bit 32 v = take_bit 32 v'"
  have "bit v i = bit v' i" if "i < 32" for i
    using that arg_cong [OF e, of "\<lambda>x. bit x i"] by (simp add: bit_take_bit_iff)
  then have "take_bit 8 (drop_bit (8 * k) v) = take_bit 8 (drop_bit (8 * k) v')" if "k < 4" for k
    using that by (intro bit_eqI) (auto simp: bit_take_bit_iff bit_drop_bit_eq)
  from this [of 0] this [of 1] this [of 2] this [of 3] show ?thesis
    by (simp add: numeral_eq_Suc word_of_int_eq_iff)
qed

lemma le_bytes_take32 [simp]: "le_bytes 4 (take_bit 32 v) = le_bytes 4 v"
  by (rule word32_le_bytes) simp

lemma le_bytes_signed32 [simp]: "le_bytes 4 (signed_take_bit 31 v) = le_bytes 4 v"
  by (rule word32_le_bytes) (simp add: take_bit_signed_take_bit)

lemma array_set_fits:
  assumes "p + length bs \<le> length b"
  shows "\<exists>b'. array_set b bs p = Some b' \<and> length b' = length b \<and>
            take (p + length bs) b' = take p b @ bs"
  using assms by (simp add: array_set_def)

lemma w_word_advanced:
  assumes "fgce_writer_ok w" and "length bs = 4"
  shows "\<exists>w'. bindE (ensure 4 w) (\<lambda>w. bindE (set_view (position w) bs w) (\<lambda>w.
                Inr (w\<lparr>position := position w + 4\<rparr>))) = Inr w' \<and> advanced w bs w'"
proof -
  obtain b where b: "ensure 4 w = Inr (w\<lparr>buffer := b\<rparr>)" "position w + 4 \<le> length b" "16 \<le> length b"
    "take (position w) b = written w"
    using ensure_result [OF assms(1)] by blast
  moreover obtain b' where "array_set b bs (position w) = Some b'" "length b' = length b"
    "take (position w + length bs) b' = take (position w) b @ bs"
    using array_set_fits [of "position w" bs b] b assms(2) by auto
  ultimately show ?thesis
    using assms(2) by (simp add: set_view_def advanced_def fgce_writer_ok_def written_def)
qed

lemma w_u32_advanced: "fgce_writer_ok w \<Longrightarrow> \<exists>w'. w_u32 v w = Inr w' \<and> advanced w (le_bytes 4 v) w'"
  using w_word_advanced [of w "le_bytes 4 v"] by (simp add: w_u32_def)

lemma w_i32_advanced: "fgce_writer_ok w \<Longrightarrow> \<exists>w'. w_i32 v w = Inr w' \<and> advanced w (le_bytes 4 v) w'"
  using w_word_advanced [of w "le_bytes 4 v"] by (simp add: w_i32_def)

lemma w_bytes_advanced:
  assumes "fgce_writer_ok w"
  shows "\<exists>w'. w_bytes bs w = Inr (position w, w') \<and> advanced w bs w'"
proof -
  obtain b where b: "ensure (length bs) w = Inr (w\<lparr>buffer := b\<rparr>)" "position w + length bs \<le> length b"
    "16 \<le> length b" "take (position w) b = written w"
    using ensure_result [OF assms] by blast
  moreover obtain b' where "array_set b bs (position w) = Some b'" "length b' = length b"
    "take (position w + length bs) b' = take (position w) b @ bs"
    using array_set_fits [of "position w" bs b] b by auto
  ultimately show ?thesis
    by (simp add: w_bytes_def Let_def advanced_def fgce_writer_ok_def written_def)
qed

section \<open>Pieces of a request\<close>

text \<open>
  A request is a sequence of fixed bytes and of blobs. A blob takes an \<open>offset\<close> and a \<open>length\<close> word
  in the fixed part; its bytes are appended when the request is finished.
\<close>

datatype piece = Raw byte | Blob bytes

fun piece_width :: "piece \<Rightarrow> nat" where
  "piece_width (Raw b) = 1"
| "piece_width (Blob bs) = 8"

fun slot :: "piece \<Rightarrow> bytes" where
  "slot (Raw b) = [b]"
| "slot (Blob bs) = replicate 8 0"

definition pieces_width :: "piece list \<Rightarrow> nat" where
  "pieces_width ps = sum_list (map piece_width ps)"

fun blobs :: "nat \<Rightarrow> piece list \<Rightarrow> (nat \<times> bytes) list" where
  "blobs p [] = []"
| "blobs p (Raw b # ps) = blobs (p + 1) ps"
| "blobs p (Blob bs # ps) = (p, bs) # blobs (p + 8) ps"

definition total_size :: "piece list \<Rightarrow> nat" where
  "total_size ps = pieces_width ps + sum_list (map (\<lambda>x. length (snd x)) (blobs 0 ps))"

definition raw :: "bytes \<Rightarrow> piece list" where
  "raw bs = map Raw bs"

lemma width_simps [simp]: "pieces_width [] = 0" "pieces_width (p # ps) = piece_width p + pieces_width ps"
  "pieces_width (ps @ qs) = pieces_width ps + pieces_width qs"
  by (simp_all add: pieces_width_def)

lemma pieces_width_raw [simp]: "pieces_width (raw bs) = length bs"
  by (induction bs) (simp_all add: raw_def)

lemma length_slot [simp]: "length (slot p) = piece_width p"
  by (cases p) simp_all

lemma length_slots [simp]: "length (concat (map slot ps)) = pieces_width ps"
  by (induction ps) simp_all

lemma slots_raw [simp]: "concat (map slot (raw bs)) = bs"
  by (induction bs) (simp_all add: raw_def)

lemma blobs_append: "blobs p (ps @ qs) = blobs p ps @ blobs (p + pieces_width ps) qs"
  by (induction p ps rule: blobs.induct) (simp_all add: ac_simps)

lemma blobs_raw [simp]: "blobs p (raw bs) = []"
  by (induction bs arbitrary: p) (simp_all add: raw_def)

text \<open>What a writer holds, and the operations that append pieces to it.\<close>

definition holds :: "fgce_writer \<Rightarrow> piece list \<Rightarrow> bool" where
  "holds w ps \<longleftrightarrow> fgce_writer_ok w \<and> written w = concat (map slot ps) \<and> deferred w = blobs 0 ps"

lemma holds_position: "holds w ps \<Longrightarrow> position w = pieces_width ps"
  using length_written [of w] by (simp add: holds_def)

lemma holds_advanced: "holds w ps \<Longrightarrow> advanced w bs w' \<Longrightarrow> holds w' (ps @ raw bs)"
  by (simp add: holds_def advanced_def blobs_append)

lemma deferredBlob_holds:
  assumes "holds w ps" shows "\<exists>w'. deferredBlob bs w = Inr w' \<and> holds w' (ps @ [Blob bs])"
proof -
  let ?w = "w\<lparr>deferred := deferred w @ [(position w, bs)]\<rparr>"
  have zero: "le_bytes 4 0 = replicate 4 (0 :: byte)" by (simp add: numeral_eq_Suc)
  have ok: "fgce_writer_ok ?w" using assms by (simp add: holds_def fgce_writer_ok_def)
  then obtain w1 where w1: "w_u32 0 ?w = Inr w1" "advanced ?w (le_bytes 4 0) w1"
    using w_u32_advanced by blast
  then obtain w2 where w2: "w_u32 0 w1 = Inr w2" "advanced w1 (le_bytes 4 0) w2"
    using w_u32_advanced [of w1 0] unfolding advanced_def by blast
  have "written w2 = written w @ replicate 8 0"
    using w1 w2 by (simp add: advanced_def zero written_def numeral_eq_Suc)
  moreover have "deferred w2 = deferred w @ [(position w, bs)]" "fgce_writer_ok w2"
    using w1 w2 by (simp_all add: advanced_def)
  ultimately show ?thesis
    using w1 w2 assms holds_position [OF assms]
    by (simp add: deferredBlob_def holds_def blobs_append)
qed

section \<open>Finishing a request\<close>

text \<open>
  The layout of a finished request: \<open>laid data p ps\<close> says that \<open>data\<close> holds the pieces \<open>ps\<close> from
  position \<open>p\<close> on, every blob being where its two words say it is; \<open>laid_from base\<close> also says that
  no blob lies before \<open>base\<close>.
\<close>

fun laid_from :: "nat \<Rightarrow> bytes \<Rightarrow> nat \<Rightarrow> piece list \<Rightarrow> bool" where
  "laid_from base data p [] = (p \<le> length data)"
| "laid_from base data p (Raw b # ps) = (p < length data \<and> data ! p = b \<and> laid_from base data (p + 1) ps)"
| "laid_from base data p (Blob bs # ps) =
     (p + 8 \<le> length data \<and>
      (\<exists>off \<le> length data. base \<le> off \<and>
         take 8 (drop p data) = le_bytes 4 (int off) @ le_bytes 4 (int (length bs)) \<and>
         off + length bs \<le> length data \<and> take (length bs) (drop off data) = bs) \<and>
      laid_from base data (p + 8) ps)"

abbreviation laid :: "bytes \<Rightarrow> nat \<Rightarrow> piece list \<Rightarrow> bool" where
  "laid \<equiv> laid_from 0"

lemma laid_from_mono: "laid_from base data p ps \<Longrightarrow> b \<le> base \<Longrightarrow> laid_from b data p ps"
proof (induction base data p ps rule: laid_from.induct)
  case (3 base data p bs ps)
  then show ?case unfolding laid_from.simps by (meson le_trans)
qed simp_all

lemma laid_append:
  "laid_from base data p (ps @ qs) \<longleftrightarrow>
   laid_from base data p ps \<and> laid_from base data (p + pieces_width ps) qs"
proof (induction base data p ps rule: laid_from.induct)
  case (1 base data p)
  have "laid_from base data p qs \<Longrightarrow> p \<le> length data"
    by (cases "(base, data, p, qs)" rule: laid_from.cases) auto
  then show ?case by auto
next
  case (2 base data p b ps)
  then show ?case by (simp add: add.assoc)
next
  case (3 base data p bs ps)
  have e: "p + pieces_width (Blob bs # ps) = p + 8 + pieces_width ps" by simp
  show ?case unfolding append_Cons laid_from.simps 3 e by blast
qed

lemma laid_raw: "laid_from base data p (raw bs) \<longleftrightarrow> p + length bs \<le> length data \<and> take (length bs) (drop p data) = bs"
proof (induction bs arbitrary: p)
  case Nil
  then show ?case by (simp add: raw_def)
next
  case (Cons b bs)
  have r: "raw (b # bs) = Raw b # raw bs" by (simp add: raw_def)
  show ?case
  proof (cases "p < length data")
    case True
    then have "drop p data = data ! p # drop (p + 1) data" by (simp add: Cons_nth_drop_Suc)
    with True show ?thesis unfolding r laid_from.simps Cons by (simp add: conj_commute conj_left_commute)
  next
    case False
    then show ?thesis unfolding r laid_from.simps by simp
  qed
qed

definition patch :: "bytes \<Rightarrow> nat \<Rightarrow> bytes \<Rightarrow> bytes" where
  "patch c q x = take q c @ x @ drop (q + length x) c"

lemma length_patch: "q + length x \<le> length c \<Longrightarrow> length (patch c q x) = length c"
  by (simp add: patch_def)

lemma patch_nth:
  "q + length x \<le> length c \<Longrightarrow> i < length c \<Longrightarrow>
   patch c q x ! i = (if q \<le> i \<and> i < q + length x then x ! (i - q) else c ! i)"
  by (auto simp: patch_def nth_append min_def)

lemma patch_patch:
  "q + length x + length y \<le> length c \<Longrightarrow> patch (patch c q x) (q + length x) y = patch c q (x @ y)"
  by (intro nth_equalityI) (auto simp: patch_nth length_patch nth_append)

lemma set_view_written:
  assumes "fgce_writer_ok w" "q + length x \<le> position w"
  shows "\<exists>w'. set_view q x w = Inr w' \<and> fgce_writer_ok w' \<and> written w' = patch (written w) q x \<and>
              position w' = position w"
proof -
  let ?b = "take q (buffer w) @ x @ drop (q + length x) (buffer w)"
  have fit: "position w \<le> length (buffer w)" "q + length x \<le> length (buffer w)"
    using assms by (simp_all add: fgce_writer_ok_def)
  have "take (position w) ?b = patch (take (position w) (buffer w)) q x"
  proof (rule nth_equalityI)
    show len: "length (take (position w) ?b) = length (patch (take (position w) (buffer w)) q x)"
      using fit assms(2) by (simp add: length_patch)
    fix i assume "i < length (take (position w) ?b)"
    then have "i < position w" by simp
    then show "take (position w) ?b ! i = patch (take (position w) (buffer w)) q x ! i"
      using fit assms(2) by (auto simp: patch_nth nth_append)
  qed
  then show ?thesis
    using assms fit by (simp add: set_view_def array_set_def fgce_writer_ok_def written_def)
qed

lemma flush_blob_written:
  assumes ok: "fgce_writer_ok w" and q: "q + 8 \<le> position w"
  shows "\<exists>w'. flush_blob (q, bs) w = Inr w' \<and> fgce_writer_ok w' \<and> position w' = position w + length bs \<and>
     written w' = patch (written w @ bs) q (le_bytes 4 (int (position w)) @ le_bytes 4 (int (length bs)))"
proof -
  obtain w1 where w1: "w_bytes bs w = Inr (position w, w1)" "advanced w bs w1"
    using w_bytes_advanced [OF ok] by blast
  have p1: "position w1 = position w + length bs" "fgce_writer_ok w1"
    using advanced_position [OF ok w1(2)] w1(2) by (simp_all add: advanced_def)
  obtain w2 where w2: "patchU32 q (int (position w)) w1 = Inr w2" "fgce_writer_ok w2"
    "written w2 = patch (written w1) q (le_bytes 4 (int (position w)))" "position w2 = position w1"
    using set_view_written [of w1 q "le_bytes 4 (int (position w))"] p1 q by (auto simp: patchU32_def)
  obtain w3 where w3: "patchU32 (q + 4) (int (length bs)) w2 = Inr w3" "fgce_writer_ok w3"
    "written w3 = patch (written w2) (q + 4) (le_bytes 4 (int (length bs)))" "position w3 = position w2"
    using set_view_written [of w2 "q + 4" "le_bytes 4 (int (length bs))"] p1 q w2 by (auto simp: patchU32_def)
  have "written w3 = patch (written w1) q (le_bytes 4 (int (position w)) @ le_bytes 4 (int (length bs)))"
    using patch_patch [of q "le_bytes 4 (int (position w))" "le_bytes 4 (int (length bs))" "written w1"]
      length_written [OF p1(2)] p1 q w2(3) w3(3) by simp
  then show ?thesis
    using w1 w2 w3 p1 by (simp add: flush_blob_def advanced_def)
qed

lemma laid_blobI:
  assumes "q + 8 \<le> length data" "off + length bs \<le> length data" "base \<le> off"
    and "take 8 (drop q data) = le_bytes 4 (int off) @ le_bytes 4 (int (length bs))"
    and "take (length bs) (drop off data) = bs" "laid_from base data (q + 8) ps"
  shows "laid_from base data q (Blob bs # ps)"
  unfolding laid_from.simps using assms by (intro conjI exI [of _ off]) auto

lemma slice_eqI:
  assumes "q + n \<le> length d" "q + n \<le> length c" "\<And>i. q \<le> i \<Longrightarrow> i < q + n \<Longrightarrow> d ! i = c ! i"
  shows "take n (drop q d) = take n (drop q c)"
  using assms by (intro nth_equalityI) auto

lemma flush_laid:
  assumes "fgce_writer_ok w" "p + pieces_width ps \<le> position w"
    and "take (pieces_width ps) (drop p (written w)) = concat (map slot ps)"
  shows "\<exists>w'. foldE flush_blob (blobs p ps) w = Inr w' \<and> fgce_writer_ok w' \<and>
     position w' = position w + sum_list (map (\<lambda>x. length (snd x)) (blobs p ps)) \<and>
     laid_from (position w) (written w') p ps \<and>
     (\<forall>i < position w. \<not> (p \<le> i \<and> i < p + pieces_width ps) \<longrightarrow> written w' ! i = written w ! i)"
  using assms
proof (induction p ps arbitrary: w rule: blobs.induct)
  case (1 p)
  then show ?case using length_written [of w] by auto
next
  case (2 p b ps)
  have lw: "length (written w) = position w" by (rule length_written [OF "2.prems"(1)])
  have p: "p < length (written w)" using "2.prems"(2) lw by simp
  have d: "drop p (written w) = written w ! p # drop (p + 1) (written w)"
    using p by (simp add: Cons_nth_drop_Suc)
  have "take (pieces_width ps) (drop (p + 1) (written w)) = concat (map slot ps)" and b: "written w ! p = b"
    using "2.prems"(3) unfolding d by simp_all
  then obtain w' where w': "foldE flush_blob (blobs (p + 1) ps) w = Inr w'" "fgce_writer_ok w'"
    "position w' = position w + sum_list (map (\<lambda>x. length (snd x)) (blobs (p + 1) ps))"
    "laid_from (position w) (written w') (p + 1) ps"
    "\<forall>i < position w. \<not> (p + 1 \<le> i \<and> i < p + 1 + pieces_width ps) \<longrightarrow> written w' ! i = written w ! i"
    using "2.IH" [of w] "2.prems" by auto
  have "written w' ! p = b" using w'(5) b p lw by simp
  moreover have "p < length (written w')" using p lw length_written [OF w'(2)] w'(3) by simp
  ultimately show ?case using w' by (intro exI [of _ w']) auto
next
  case (3 p bs ps)
  have lw: "length (written w) = position w" by (rule length_written [OF "3.prems"(1)])
  let ?h = "le_bytes 4 (int (position w)) @ le_bytes 4 (int (length bs))"
  have p8: "p + 8 \<le> position w" using "3.prems"(2) by simp
  obtain w1 where w1: "flush_blob (p, bs) w = Inr w1" "fgce_writer_ok w1"
    "position w1 = position w + length bs" "written w1 = patch (written w @ bs) p ?h"
    using flush_blob_written [OF "3.prems"(1) p8, of bs] by blast
  have n1: "i < position w1 \<Longrightarrow>
      written w1 ! i = (if p \<le> i \<and> i < p + 8 then ?h ! (i - p) else (written w @ bs) ! i)" for i
    unfolding w1(4) using p8 w1(3) lw by (subst patch_nth) auto
  have l1: "length (written w1) = position w1" by (rule length_written [OF w1(2)])
  have "take (pieces_width ps) (drop (p + 8) (written w1)) = take (pieces_width ps) (drop (p + 8) (written w))"
    using "3.prems"(2) l1 lw w1(3) n1 by (intro slice_eqI) (auto simp: nth_append)
  also have "\<dots> = drop 8 (take (pieces_width (Blob bs # ps)) (drop p (written w)))"
    by (simp add: drop_take add.commute)
  finally have "take (pieces_width ps) (drop (p + 8) (written w1)) = concat (map slot ps)"
    using "3.prems"(3) by simp
  then obtain w' where w': "foldE flush_blob (blobs (p + 8) ps) w1 = Inr w'" "fgce_writer_ok w'"
    "position w' = position w1 + sum_list (map (\<lambda>x. length (snd x)) (blobs (p + 8) ps))"
    "laid_from (position w1) (written w') (p + 8) ps"
    "\<forall>i < position w1. \<not> (p + 8 \<le> i \<and> i < p + 8 + pieces_width ps) \<longrightarrow> written w' ! i = written w1 ! i"
    using "3.IH" [of w1] "3.prems"(2) w1 by auto
  have l': "length (written w') = position w'" by (rule length_written [OF w'(2)])
  have n': "i < position w1 \<Longrightarrow> \<not> (p + 8 \<le> i \<and> i < p + 8 + pieces_width ps) \<Longrightarrow> written w' ! i = written w1 ! i" for i
    using w'(5) by blast
  have "laid_from (position w) (written w') p (Blob bs # ps)"
  proof (rule laid_blobI)
    show "p + 8 \<le> length (written w')" "position w + length bs \<le> length (written w')"
      using l' w'(3) w1(3) p8 by simp_all
    show "take 8 (drop p (written w')) = ?h"
      using l' w'(3) w1(3) p8 n' n1 by (intro nth_equalityI) auto
    show "take (length bs) (drop (position w) (written w')) = bs"
      using l' lw w'(3) w1(3) "3.prems"(2) n' n1 by (intro nth_equalityI) (auto simp: nth_append)
    show "laid_from (position w) (written w') (p + 8) ps"
      by (rule laid_from_mono [OF w'(4)]) (simp add: w1(3))
    show "position w \<le> position w" by simp
  qed
  moreover have "written w' ! i = written w ! i"
    if "i < position w" "\<not> (p \<le> i \<and> i < p + pieces_width (Blob bs # ps))" for i
    using that n' n1 w1(3) lw by (auto simp: nth_append)
  ultimately show ?case using w1 w' by (intro exI [of _ w']) auto
qed

lemma finish_laid:
  assumes "holds w ps"
  shows "\<exists>bs. w_finish w = Inr bs \<and> length bs = total_size ps \<and> laid_from (pieces_width ps) bs 0 ps"
proof -
  have w: "fgce_writer_ok w" "position w = pieces_width ps" "written w = concat (map slot ps)" "deferred w = blobs 0 ps"
    using assms holds_position [OF assms] by (simp_all add: holds_def)
  then obtain w' where w': "foldE flush_blob (blobs 0 ps) w = Inr w'" "fgce_writer_ok w'"
    "position w' = position w + sum_list (map (\<lambda>x. length (snd x)) (blobs 0 ps))" "laid_from (position w) (written w') 0 ps"
    using flush_laid [of w 0 ps] by auto
  then show ?thesis
    using w length_written [OF w'(2)] by (auto simp: w_finish_def total_size_def written_def)
qed

section \<open>The contract of a piece sink\<close>

locale piece_sink =
  fixes rep :: "'s \<Rightarrow> piece list \<Rightarrow> bool"
    and put :: "piece \<Rightarrow> 's \<Rightarrow> 'e + 's"
  assumes put_rep: "rep s ps \<Longrightarrow> \<exists>s'. put p s = Inr s' \<and> rep s' (ps @ [p])"
begin

definition appends :: "('s \<Rightarrow> 'e + 's) \<Rightarrow> piece list \<Rightarrow> bool" where
  "appends op ps \<longleftrightarrow> (\<forall>s qs. rep s qs \<longrightarrow> (\<exists>s'. op s = Inr s' \<and> rep s' (qs @ ps)))"

lemma appendsI: "(\<And>s qs. rep s qs \<Longrightarrow> \<exists>s'. op s = Inr s' \<and> rep s' (qs @ ps)) \<Longrightarrow> appends op ps"
  by (simp add: appends_def)

lemma appendsD: "appends op ps \<Longrightarrow> rep s qs \<Longrightarrow> \<exists>s'. op s = Inr s' \<and> rep s' (qs @ ps)"
  by (simp add: appends_def)

lemma appends_put: "appends (put p) [p]"
  by (simp add: appends_def put_rep)

lemma appends_skip: "appends Inr []"
  by (simp add: appends_def)

lemma appends_Nil: "appends (chainE []) []"
  by (simp add: appends_def)

lemma appends_Cons:
  assumes "appends op ps" and "appends (chainE ops) qs" shows "appends (chainE (op # ops)) (ps @ qs)"
proof (rule appendsI)
  fix s rs assume "rep s rs"
  then obtain s' where "op s = Inr s'" "rep s' (rs @ ps)" using assms(1) appendsD by blast
  moreover from this obtain s'' where "chainE ops s' = Inr s''" "rep s'' ((rs @ ps) @ qs)"
    using assms(2) appendsD by blast
  ultimately show "\<exists>s'. chainE (op # ops) s = Inr s' \<and> rep s' (rs @ ps @ qs)" by simp
qed

lemma appends_pair: "appends f ps \<Longrightarrow> appends g qs \<Longrightarrow> appends (chainE [f, g]) (ps @ qs)"
  using appends_Cons [OF _ appends_Cons [OF _ appends_Nil], of f ps g qs] by simp

lemma appends_map:
  "(\<And>x. x \<in> set xs \<Longrightarrow> appends (f x) (g x)) \<Longrightarrow> appends (chainE (map f xs)) (concat (map g xs))"
proof (induction xs)
  case Nil
  show ?case by (simp add: appends_Nil appends_skip)
next
  case (Cons x xs)
  have "appends (f x) (g x)" "appends (chainE (map f xs)) (concat (map g xs))"
    using Cons by auto
  then show ?case unfolding list.map concat.simps by (rule appends_Cons)
qed

end

fun put_piece :: "piece \<Rightarrow> fgce_writer \<Rightarrow> fgce_failure + fgce_writer" where
  "put_piece (Raw b) = w_u8 (uint b)"
| "put_piece (Blob bs) = deferredBlob bs"

interpretation tw: piece_sink holds put_piece
proof
  fix w ps p assume h: "holds w ps"
  show "\<exists>w'. put_piece p w = Inr w' \<and> holds w' (ps @ [p])"
  proof (cases p)
    case (Raw b)
    obtain w' where "w_u8 (uint b) w = Inr w'" "advanced w [b] w'"
      using w_u8_advanced [of w "uint b"] h by (auto simp: holds_def)
    then show ?thesis using Raw holds_advanced [OF h, of "[b]" w'] by (simp add: raw_def)
  next
    case (Blob bs)
    then show ?thesis using deferredBlob_holds [OF h] by simp
  qed
qed

lemma appends_advanced:
  "(\<And>w. fgce_writer_ok w \<Longrightarrow> \<exists>w'. op w = Inr w' \<and> advanced w bs w') \<Longrightarrow> tw.appends op (raw bs)"
  by (rule tw.appendsI) (metis holds_advanced holds_def)

lemma appends_u8: "tw.appends (w_u8 v) (raw [word_of_int v])"
  by (rule appends_advanced) (rule w_u8_advanced)

lemma appends_u32: "tw.appends (w_u32 v) (raw (le_bytes 4 v))"
  by (rule appends_advanced) (rule w_u32_advanced)

lemma appends_i32: "tw.appends (w_i32 v) (raw (le_bytes 4 v))"
  by (rule appends_advanced) (rule w_i32_advanced)

lemma byte_and_255: "(word_of_int (v AND 255) :: byte) = word_of_int v"
proof -
  have "v AND 255 = take_bit 8 v" by (simp add: take_bit_eq_mask mask_eq_exp_minus_1)
  then show ?thesis by (simp add: word_uint_eq_iff take_bit_eq_mod)
qed

lemma appends_i8: "tw.appends (w_i8 v) (raw [word_of_int v])"
  using appends_u8 [of "v AND 255"] by (simp add: w_i8_def byte_and_255)

lemma appends_bool: "tw.appends (w_bool b) (raw [if b then 1 else 0])"
  using appends_u8 [of "if b then 1 else 0"] by (simp add: w_bool_def split: if_splits)

lemma appends_blob: "tw.appends (deferredBlob bs) [Blob bs]"
  using tw.appends_put [of "Blob bs"] by simp

lemma with_writer_laid_from:
  assumes "tw.appends (chainE ops) ps"
  shows "\<exists>bs. with_writer n ops = Inr bs \<and> length bs = total_size ps \<and> laid_from (pieces_width ps) bs 0 ps"
proof -
  have "holds (fresh_writer n) []" by (simp add: holds_def fresh_fgce_writer)
  then obtain w where "chainE ops (fresh_writer n) = Inr w" "holds w ps"
    using tw.appendsD [OF assms] by fastforce
  then show ?thesis using finish_laid [of w ps] by (simp add: with_writer_def)
qed

lemma with_writer_laid:
  "tw.appends (chainE ops) ps \<Longrightarrow>
   \<exists>bs. with_writer n ops = Inr bs \<and> length bs = total_size ps \<and> laid bs 0 ps"
  using with_writer_laid_from laid_from_mono by blast

section \<open>The contract of a byte source\<close>

type_synonym ('e, 'a) reader = "bytes \<Rightarrow> nat \<Rightarrow> 'e + 'a \<times> nat"

definition rret :: "'a \<Rightarrow> ('e, 'a) reader" where
  "rret x = (\<lambda>data p. Inr (x, p))"

definition rfail :: "'e \<Rightarrow> ('e, 'a) reader" where
  "rfail e = (\<lambda>data p. Inl e)"

definition rbind :: "('e, 'a) reader \<Rightarrow> ('a \<Rightarrow> ('e, 'b) reader) \<Rightarrow> ('e, 'b) reader" where
  "rbind m f = (\<lambda>data p. bindE (m data p) (\<lambda>(x, q). f x data q))"

locale byte_source =
  fixes ok :: "bytes \<Rightarrow> bool"
    and take_bytes :: "nat \<Rightarrow> ('e, bytes) reader"
    and exhausted :: 'e
  assumes take_in: "ok data \<Longrightarrow> p + n \<le> length data \<Longrightarrow>
      take_bytes n data p = Inr (take n (drop p data), p + n)"
    and take_out: "length data < p + n \<Longrightarrow> take_bytes n data p = Inl exhausted"
begin

definition reads :: "('e, 'a) reader \<Rightarrow> piece list \<Rightarrow> 'a \<Rightarrow> bool" where
  "reads rd ps v \<longleftrightarrow> (\<forall>data p. ok data \<longrightarrow> laid data p ps \<longrightarrow> rd data p = Inr (v, p + pieces_width ps))"

lemma readsI: "(\<And>data p. ok data \<Longrightarrow> laid data p ps \<Longrightarrow> rd data p = Inr (v, p + pieces_width ps)) \<Longrightarrow> reads rd ps v"
  by (simp add: reads_def)

lemma readsD: "reads rd ps v \<Longrightarrow> ok data \<Longrightarrow> laid data p ps \<Longrightarrow> rd data p = Inr (v, p + pieces_width ps)"
  by (simp add: reads_def)

lemma reads_take: "length bs = n \<Longrightarrow> reads (take_bytes n) (raw bs) bs"
  by (rule readsI) (auto simp: laid_raw take_in)

lemma reads_ret: "reads (rret v) [] v"
  by (simp add: reads_def rret_def)

lemma reads_bind: "reads m ps x \<Longrightarrow> reads (f x) qs v \<Longrightarrow> reads (rbind m f) (ps @ qs) v"
  by (simp add: reads_def rbind_def laid_append add.assoc)

lemma reads_map: "reads m ps x \<Longrightarrow> f x = v \<Longrightarrow> reads (rbind m (\<lambda>x. rret (f x))) ps v"
  using reads_bind [of m ps x "\<lambda>x. rret (f x)" "[]" v] by (simp add: reads_ret)

text \<open>
  A reader is \<open>exact\<close> on some bytes when it reads the value from them wherever they stand, and fails
  as exhausted when the buffer ends inside them.
\<close>

definition exact :: "('e, 'a) reader \<Rightarrow> bytes \<Rightarrow> 'a \<Rightarrow> bool" where
  "exact rd bs v \<longleftrightarrow>
     (\<forall>pre post. ok (pre @ bs @ post) \<longrightarrow> rd (pre @ bs @ post) (length pre) = Inr (v, length pre + length bs)) \<and>
     (\<forall>pre n. n < length bs \<longrightarrow> ok (pre @ take n bs) \<longrightarrow> rd (pre @ take n bs) (length pre) = Inl exhausted)"

lemma exactI:
  "(\<And>pre post. ok (pre @ bs @ post) \<Longrightarrow> rd (pre @ bs @ post) (length pre) = Inr (v, length pre + length bs)) \<Longrightarrow>
   (\<And>pre n. n < length bs \<Longrightarrow> ok (pre @ take n bs) \<Longrightarrow> rd (pre @ take n bs) (length pre) = Inl exhausted) \<Longrightarrow>
   exact rd bs v"
  by (simp add: exact_def)

lemma exact_reads:
  "exact rd bs v \<Longrightarrow> ok (pre @ bs @ post) \<Longrightarrow> rd (pre @ bs @ post) (length pre) = Inr (v, length pre + length bs)"
  by (simp add: exact_def)

lemma exact_cut:
  "exact rd bs v \<Longrightarrow> n < length bs \<Longrightarrow> ok (pre @ take n bs) \<Longrightarrow>
   rd (pre @ take n bs) (length pre) = Inl exhausted"
  by (simp add: exact_def)

lemma exact_take: "length bs = n \<Longrightarrow> exact (take_bytes n) bs bs"
  by (rule exactI) (simp_all add: take_in take_out)

lemma exact_ret: "exact (rret v) [] v"
  by (rule exactI) (simp_all add: rret_def)

lemma exact_bind:
  assumes m: "exact m as x" and f: "exact (f x) bs v" shows "exact (rbind m f) (as @ bs) v"
proof (rule exactI)
  fix pre post assume "ok (pre @ (as @ bs) @ post)"
  then show "rbind m f (pre @ (as @ bs) @ post) (length pre) = Inr (v, length pre + length (as @ bs))"
    using exact_reads [OF m, of pre "bs @ post"] exact_reads [OF f, of "pre @ as" post]
    by (simp add: rbind_def add.assoc)
next
  fix pre n assume n: "n < length (as @ bs)" and ok: "ok (pre @ take n (as @ bs))"
  show "rbind m f (pre @ take n (as @ bs)) (length pre) = Inl exhausted"
  proof (cases "n < length as")
    case True
    then show ?thesis using exact_cut [OF m True, of pre] ok by (simp add: rbind_def)
  next
    case False
    then have "n - length as < length bs" using n by simp
    with False ok show ?thesis
      using exact_reads [OF m, of pre "take (n - length as) bs"]
        exact_cut [OF f, of "n - length as" "pre @ as"]
      by (simp add: rbind_def)
  qed
qed

lemma exact_step: "exact m as x \<Longrightarrow> f x = g \<Longrightarrow> exact g bs v \<Longrightarrow> exact (rbind m f) (as @ bs) v"
  by (rule exact_bind [where x = x]) simp_all

lemma exact_last: "exact m as x \<Longrightarrow> f x = rret v \<Longrightarrow> exact (rbind m f) as v"
  using exact_step [of m as x f "rret v" "[]" v] by (simp add: exact_ret)

end

section \<open>The reader of the binding\<close>

definition need :: "nat \<Rightarrow> bytes \<Rightarrow> nat \<Rightarrow> fgce_failure + unit" where
  "need n data p = (if p + n > length data then Inl Truncated else Inr ())"

definition r_u8 :: "(fgce_failure, int) reader" where
  "r_u8 data p = bindE (need 1 data p) (\<lambda>_. Inr (uint (data ! p), p + 1))"

definition r_i8 :: "(fgce_failure, int) reader" where
  "r_i8 = rbind r_u8 (\<lambda>v. rret (signed_take_bit 7 v))"

definition r_bool :: "(fgce_failure, bool) reader" where
  "r_bool = rbind r_u8 (\<lambda>v. rret (v \<noteq> 0))"

definition view_bytes :: "nat \<Rightarrow> (fgce_failure, bytes) reader" where
  "view_bytes n data p = bindE (need n data p) (\<lambda>_. Inr (take n (drop p data), p + n))"

definition r_u32 :: "(fgce_failure, int) reader" where
  "r_u32 = rbind (view_bytes 4) (\<lambda>b. rret (le_value b))"

definition r_i32 :: "(fgce_failure, int) reader" where
  "r_i32 = rbind (view_bytes 4) (\<lambda>b. rret (signed_take_bit 31 (le_value b)))"

text \<open>
  \<open>Number(bigint)\<close>: the nearest double, ties to the even significand. Integers of at most 53 bits
  are kept; larger ones are rounded to 53 significant bits.
\<close>

definition round_even :: "nat \<Rightarrow> nat \<Rightarrow> nat" where
  "round_even n unit =
     (let q = n div unit; r = n mod unit in
      if 2 * r > unit \<or> (2 * r = unit \<and> odd q) then (q + 1) * unit else q * unit)"

fun excess_unit :: "nat \<Rightarrow> nat" where
  "excess_unit n = (if n < 2 ^ 53 then 1 else 2 * excess_unit (n div 2))"

declare excess_unit.simps [simp del]

definition bigint_to_number :: "int \<Rightarrow> int" where
  "bigint_to_number v = sgn v * int (round_even (nat \<bar>v\<bar>) (excess_unit (nat \<bar>v\<bar>)))"

definition r_u64 :: "(fgce_failure, int) reader" where
  "r_u64 = rbind (view_bytes 8) (\<lambda>b. rret (bigint_to_number (le_value b)))"

definition r_i64 :: "(fgce_failure, int) reader" where
  "r_i64 = rbind (view_bytes 8) (\<lambda>b. rret (bigint_to_number (signed_take_bit 63 (le_value b))))"

definition r_bytes :: "nat \<Rightarrow> (fgce_failure, bytes) reader" where
  "r_bytes n data p = bindE (need n data p) (\<lambda>_. Inr (take n (drop p data), p + n))"

interpretation tr: byte_source "\<lambda>_. True" view_bytes Truncated
  by unfold_locales (simp_all add: view_bytes_def need_def)

end
