(* ===== verification/Fgce_Protocol.thy ===== *)
theory Fgce_Protocol
  imports Fgce_Wire
begin

text \<open>
  The requests of the rendering engine as the binding encodes them
  (\<open>products/fgce/bindings/ts/src/protocol.ts\<close>): the value types, the field writers and one encoder
  per request.
\<close>

section \<open>Value types\<close>

record rect =
  rx1 :: int
  ry1 :: int
  rx2 :: int
  ry2 :: int

record color =
  c_r :: int
  c_g :: int
  c_b :: int
  c_a :: int

text \<open>\<open>Pin\<close>, \<open>Align\<close> and \<open>DebugPoint\<close> are all \<open>{ x, y }\<close>.\<close>

record xy =
  xy_x :: int
  xy_y :: int

datatype edge = GridEdge int "int option" "int option" | PixelEdge int

record edges =
  ex1 :: edge
  ey1 :: edge
  ex2 :: edge
  ey2 :: edge

record inset =
  left_side :: "edge option"
  top_side :: "edge option"
  right_side :: "edge option"
  bottom_side :: "edge option"

datatype radius = RadiusEdge edge | RadiusPercent int

datatype verb =
    MoveTo int int
  | LineTo int int
  | QuadTo int int int int
  | CubicTo int int int int int int
  | ClosePath

datatype fill_rule = NonZero | EvenOdd

record fill =
  f_rule :: fill_rule

datatype join = Miter int | Bevel | RoundJoin

datatype cap = ButtCap | SquareCap | RoundCap

datatype stroke_align = Inside | Outside | Center

datatype peak = Light | Nominal

record stroke =
  widthQ8 :: int
  s_align :: stroke_align
  s_join :: join
  s_cap :: cap
  s_peak :: "peak option"

record debug_grid_style =
  base_color :: color
  tip_color :: color
  label_base :: "color option"
  label_tip :: "color option"
  label_alpha :: int
  label_scale :: int

datatype pixel_format = Rgb8 | Rgba8 | Alpha8

datatype alpha_mode = Premul | Straight

datatype blend = SrcOver | Src | ClearBlend | DstOut

datatype sample = Crisp | Area

text \<open>The kinds of an entity; the type of a stroke differs on the two sides of the wire.\<close>

datatype 's entity_kind =
    Photo pixel_format int "color option"
  | Glyph pixel_format int "color option"
  | VectorKind "verb list" "fill option" "'s option" color
  | FlatKind color
  | BoxKind "fill option" "'s option" color
  | EmptyKind

record entity_options =
  opt_onGrid :: "bool option"
  opt_align :: "xy option"
  opt_blend :: "blend option"
  opt_radius :: "radius option"

record box_options =
  opt_pin :: "xy option"
  opt_snap :: "bool option"
  opt_inset :: "inset option"

section \<open>Code tables\<close>

fun format_code :: "pixel_format \<Rightarrow> int" where
  "format_code Rgb8 = 0" | "format_code Rgba8 = 1" | "format_code Alpha8 = 2"

fun alpha_code :: "alpha_mode \<Rightarrow> int" where
  "alpha_code Premul = 0" | "alpha_code Straight = 1"

fun blend_code :: "blend \<Rightarrow> int" where
  "blend_code SrcOver = 0" | "blend_code Src = 1" | "blend_code ClearBlend = 2" | "blend_code DstOut = 3"

fun rule_code :: "fill_rule \<Rightarrow> int" where
  "rule_code NonZero = 0" | "rule_code EvenOdd = 1"

fun sample_code :: "sample \<Rightarrow> int" where
  "sample_code Crisp = 0" | "sample_code Area = 1"

fun stroke_align_code :: "stroke_align \<Rightarrow> int" where
  "stroke_align_code Inside = 0" | "stroke_align_code Outside = 1" | "stroke_align_code Center = 2"

fun peak_code :: "peak \<Rightarrow> int" where
  "peak_code Light = 0" | "peak_code Nominal = 1"

fun cap_code :: "cap \<Rightarrow> int" where
  "cap_code ButtCap = 0" | "cap_code SquareCap = 1" | "cap_code RoundCap = 2"

fun entity_code :: "'s entity_kind \<Rightarrow> int" where
  "entity_code (Photo f i t) = 0"
| "entity_code (Glyph f i t) = 1"
| "entity_code (VectorKind v f s c) = 2"
| "entity_code (FlatKind c) = 3"
| "entity_code (BoxKind f s c) = 4"
| "entity_code EmptyKind = 5"

section \<open>Field writers\<close>

type_synonym writes = "fgce_writer \<Rightarrow> fgce_failure + fgce_writer"

text \<open>\<open>if (value) write(writer, value)\<close>.\<close>

definition when_some :: "'a option \<Rightarrow> ('a \<Rightarrow> writes) \<Rightarrow> writes" where
  "when_some x f = (case x of None \<Rightarrow> Inr | Some v \<Rightarrow> f v)"

definition writeRect :: "rect \<Rightarrow> writes" where
  "writeRect r = chainE [w_i32 (rx1 r), w_i32 (ry1 r), w_i32 (rx2 r), w_i32 (ry2 r)]"

definition writeColor :: "color \<Rightarrow> writes" where
  "writeColor c = chainE [w_u8 (c_r c), w_u8 (c_g c), w_u8 (c_b c), w_u8 (c_a c)]"

definition writeOptionalColor :: "color option \<Rightarrow> writes" where
  "writeOptionalColor c = chainE [w_bool (c \<noteq> None), when_some c writeColor]"

definition writeOptionalBlend :: "blend option \<Rightarrow> writes" where
  "writeOptionalBlend b = chainE [w_bool (b \<noteq> None), when_some b (\<lambda>v. w_u8 (blend_code v))]"

definition writeEdge :: "edge \<Rightarrow> writes" where
  "writeEdge e =
     (case e of
        GridEdge primary fine spx \<Rightarrow>
          chainE [w_u8 0, w_i32 primary,
                  w_bool (fine \<noteq> None), when_some fine w_u8,
                  w_bool (spx \<noteq> None), when_some spx w_i32]
      | PixelEdge v \<Rightarrow> chainE [w_u8 1, w_i32 v])"

definition writeRadius :: "radius \<Rightarrow> writes" where
  "writeRadius r =
     (case r of
        RadiusEdge e \<Rightarrow> chainE [w_u8 0, writeEdge e]
      | RadiusPercent v \<Rightarrow> chainE [w_u8 1, w_u8 v])"

definition writeOptionalRadius :: "radius option \<Rightarrow> writes" where
  "writeOptionalRadius r = chainE [w_bool (r \<noteq> None), when_some r writeRadius]"

definition writeEdges :: "edges \<Rightarrow> writes" where
  "writeEdges e = chainE [writeEdge (ex1 e), writeEdge (ey1 e), writeEdge (ex2 e), writeEdge (ey2 e)]"

definition write_side :: "edge option \<Rightarrow> writes" where
  "write_side s = chainE [w_bool (s \<noteq> None), when_some s writeEdge]"

definition writeOptionalInset :: "inset option \<Rightarrow> writes" where
  "writeOptionalInset i =
     chainE [w_bool (i \<noteq> None),
       when_some i (\<lambda>i.
         foldE write_side [left_side i, top_side i, right_side i, bottom_side i])]"

definition writeFill :: "fill \<Rightarrow> writes" where
  "writeFill f = w_u8 (rule_code (f_rule f))"

definition writeOptionalFill :: "fill option \<Rightarrow> writes" where
  "writeOptionalFill f = chainE [w_bool (f \<noteq> None), when_some f writeFill]"

definition writeStroke :: "stroke \<Rightarrow> writes" where
  "writeStroke s =
     chainE [w_u32 (widthQ8 s), w_u8 (stroke_align_code (s_align s)),
       (case s_join s of
          Miter limitQ8 \<Rightarrow> chainE [w_u8 0, w_u32 limitQ8]
        | j \<Rightarrow> w_u8 (if j = Bevel then 1 else 2)),
       w_u8 (cap_code (s_cap s)),
       w_u8 (peak_code (case s_peak s of None \<Rightarrow> Light | Some p \<Rightarrow> p))]"

definition writeOptionalStroke :: "stroke option \<Rightarrow> writes" where
  "writeOptionalStroke s = chainE [w_bool (s \<noteq> None), when_some s writeStroke]"

definition writeVerb :: "verb \<Rightarrow> writes" where
  "writeVerb v =
     (case v of
        MoveTo x y \<Rightarrow> chainE [w_u8 0, w_i32 x, w_i32 y]
      | LineTo x y \<Rightarrow> chainE [w_u8 1, w_i32 x, w_i32 y]
      | QuadTo cx cy x y \<Rightarrow> chainE [w_u8 2, w_i32 cx, w_i32 cy, w_i32 x, w_i32 y]
      | CubicTo c0x c0y c1x c1y x y \<Rightarrow>
          chainE [w_u8 3, w_i32 c0x, w_i32 c0y, w_i32 c1x, w_i32 c1y, w_i32 x, w_i32 y]
      | ClosePath \<Rightarrow> chainE [w_u8 4])"

definition writeVerbsBlob :: "verb list \<Rightarrow> writes" where
  "writeVerbsBlob verbs w =
     bindE (with_writer (length verbs * 12 + 8) (map writeVerb verbs)) (\<lambda>bytes. deferredBlob bytes w)"

definition writeChildrenBlob :: "int list \<Rightarrow> writes" where
  "writeChildrenBlob children w =
     bindE (with_writer (length children * 4) (map w_u32 children)) (\<lambda>bytes. deferredBlob bytes w)"

definition writeBytesBlob :: "bytes \<Rightarrow> writes" where
  "writeBytesBlob bytes = deferredBlob bytes"

definition writeKind :: "stroke entity_kind \<Rightarrow> writes" where
  "writeKind kind =
     chainE [w_u8 (entity_code kind),
       (case kind of
          Photo format img tint \<Rightarrow>
            chainE [w_u8 (format_code format), w_u32 img, writeOptionalColor tint]
        | Glyph format img tint \<Rightarrow>
            chainE [w_u8 (format_code format), w_u32 img, writeOptionalColor tint]
        | VectorKind verbs fill stroke color \<Rightarrow>
            chainE [writeVerbsBlob verbs, writeOptionalFill fill, writeOptionalStroke stroke,
                    writeColor color]
        | FlatKind color \<Rightarrow> writeColor color
        | BoxKind fill stroke color \<Rightarrow>
            chainE [writeOptionalFill fill, writeOptionalStroke stroke, writeColor color]
        | EmptyKind \<Rightarrow> Inr)]"

definition writeAlign :: "xy \<Rightarrow> writes" where
  "writeAlign a = chainE [w_i8 (xy_x a), w_i8 (xy_y a)]"

definition writePoint :: "xy \<Rightarrow> writes" where
  "writePoint p = chainE [w_i32 (xy_x p), w_i32 (xy_y p)]"

definition writeDebugStyle :: "debug_grid_style \<Rightarrow> writes" where
  "writeDebugStyle s =
     chainE [writeColor (base_color s), writeColor (tip_color s),
             writeOptionalColor (label_base s), writeOptionalColor (label_tip s),
             w_u8 (label_alpha s), w_u8 (label_scale s)]"

section \<open>The request encoders\<close>

text \<open>Every encoder fills a writer of its own and finishes it; the opcode is the first byte.\<close>

definition encodeInfo :: "fgce_failure + bytes" where
  "encodeInfo = with_writer 1 [w_u8 1]"

definition encodeGrid :: "int \<Rightarrow> fgce_failure + bytes" where
  "encodeGrid k = with_writer 5 [w_u8 2, w_u32 k]"

definition encodeLength :: "int \<Rightarrow> int \<Rightarrow> fgce_failure + bytes" where
  "encodeLength n k = with_writer 9 [w_u8 3, w_u32 n, w_u32 k]"

definition encodeLattice :: "int \<Rightarrow> int \<Rightarrow> int \<Rightarrow> int \<Rightarrow> int \<Rightarrow> fgce_failure + bytes" where
  "encodeLattice spanX spanY step pinX pinY =
     with_writer 15 [w_u8 4, w_u32 spanX, w_u32 spanY, w_u32 step, w_i8 pinX, w_i8 pinY]"

definition encodeEdgePx :: "edge \<Rightarrow> int \<Rightarrow> fgce_failure + bytes" where
  "encodeEdgePx e k = with_writer 16 [w_u8 5, writeEdge e, w_u32 k]"

definition encodeMeasure :: "verb list \<Rightarrow> fill option \<Rightarrow> stroke option \<Rightarrow> fgce_failure + bytes" where
  "encodeMeasure verbs fill stroke =
     with_writer 32 [w_u8 6, writeVerbsBlob verbs, writeOptionalFill fill, writeOptionalStroke stroke]"

definition encodeBegin :: "int \<Rightarrow> int \<Rightarrow> fgce_failure + bytes" where
  "encodeBegin width height = with_writer 9 [w_u8 7, w_u32 width, w_u32 height]"

definition encodeEnd :: "fgce_failure + bytes" where
  "encodeEnd = with_writer 1 [w_u8 8]"

definition encodeDrawTree :: "fgce_failure + bytes" where
  "encodeDrawTree = with_writer 1 [w_u8 27]"

definition encodeReadPixels :: "rect \<Rightarrow> alpha_mode \<Rightarrow> fgce_failure + bytes" where
  "encodeReadPixels r alpha = with_writer 22 [w_u8 9, writeRect r, w_u8 (alpha_code alpha)]"

definition encodeUpload ::
  "int \<Rightarrow> int \<Rightarrow> int \<Rightarrow> int \<Rightarrow> pixel_format \<Rightarrow> alpha_mode \<Rightarrow> bytes \<Rightarrow> fgce_failure + bytes" where
  "encodeUpload oid width height stride format alpha bytes =
     with_writer (32 + length bytes)
       [w_u8 10, w_u32 oid, w_u32 width, w_u32 height, w_u32 stride,
        w_u8 (format_code format), w_u8 (alpha_code alpha), writeBytesBlob bytes]"

definition encodeDrop :: "int \<Rightarrow> fgce_failure + bytes" where
  "encodeDrop oid = with_writer 5 [w_u8 11, w_u32 oid]"

definition encodeFillRect ::
  "rect \<Rightarrow> color \<Rightarrow> blend option \<Rightarrow> radius option \<Rightarrow> fgce_failure + bytes" where
  "encodeFillRect r color blend radius =
     with_writer 40 [w_u8 12, writeRect r, writeColor color, writeOptionalBlend blend,
                     writeOptionalRadius radius]"

definition encodeStrokeRoundRect ::
  "rect \<Rightarrow> radius option \<Rightarrow> stroke \<Rightarrow> color \<Rightarrow> blend option \<Rightarrow> fgce_failure + bytes" where
  "encodeStrokeRoundRect r radius stroke color blend =
     with_writer 48 [w_u8 28, writeRect r, writeOptionalRadius radius, writeStroke stroke,
                     writeColor color, writeOptionalBlend blend]"

definition encodeEntity ::
  "int \<Rightarrow> stroke entity_kind \<Rightarrow> edges \<Rightarrow> entity_options \<Rightarrow> fgce_failure + bytes" where
  "encodeEntity oid kind edges options =
     with_writer 64
       [w_u8 13, w_u32 oid, writeKind kind,
        w_bool (opt_onGrid options \<noteq> None), when_some (opt_onGrid options) w_bool,
        writeEdges edges,
        w_bool (opt_align options \<noteq> None), when_some (opt_align options) writeAlign,
        writeOptionalBlend (opt_blend options), writeOptionalRadius (opt_radius options)]"

definition encodeGroup :: "int \<Rightarrow> int \<Rightarrow> int list \<Rightarrow> box_options \<Rightarrow> fgce_failure + bytes" where
  "encodeGroup oid parent children options =
     with_writer (32 + length children * 4)
       [w_u8 14, w_u32 oid, w_u32 parent, writeChildrenBlob children,
        w_i8 (case opt_pin options of None \<Rightarrow> 0 | Some p \<Rightarrow> xy_x p),
        w_i8 (case opt_pin options of None \<Rightarrow> 0 | Some p \<Rightarrow> xy_y p),
        w_bool (case opt_snap options of None \<Rightarrow> False | Some s \<Rightarrow> s),
        writeOptionalInset (opt_inset options)]"

text \<open>The alignment, blend and radius of the options are accepted and never written.\<close>

definition encodeArbitrary ::
  "int \<Rightarrow> int \<Rightarrow> edges \<Rightarrow> int list \<Rightarrow> entity_options \<Rightarrow> box_options \<Rightarrow> fgce_failure + bytes" where
  "encodeArbitrary oid parent edges children entity box =
     with_writer (64 + length children * 4)
       [w_u8 15, w_u32 oid, w_u32 parent,
        w_bool (opt_onGrid entity \<noteq> None), when_some (opt_onGrid entity) w_bool,
        writeEdges edges, writeChildrenBlob children,
        w_i8 (case opt_pin box of None \<Rightarrow> 0 | Some p \<Rightarrow> xy_x p),
        w_i8 (case opt_pin box of None \<Rightarrow> 0 | Some p \<Rightarrow> xy_y p),
        w_bool (case opt_snap box of None \<Rightarrow> False | Some s \<Rightarrow> s),
        writeOptionalInset (opt_inset box)]"

definition encodeShow :: "int \<Rightarrow> rect \<Rightarrow> fgce_failure + bytes" where
  "encodeShow oid r = with_writer 21 [w_u8 16, w_u32 oid, writeRect r]"

definition encodePlace :: "int \<Rightarrow> rect \<Rightarrow> fgce_failure + bytes" where
  "encodePlace oid r = with_writer 21 [w_u8 17, w_u32 oid, writeRect r]"

definition encodeRemove :: "int \<Rightarrow> fgce_failure + bytes" where
  "encodeRemove oid = with_writer 5 [w_u8 18, w_u32 oid]"

definition encodeSnapshot :: "fgce_failure + bytes" where
  "encodeSnapshot = with_writer 1 [w_u8 19]"

definition encodeDefineReference ::
  "int \<Rightarrow> int \<Rightarrow> int \<Rightarrow> int \<Rightarrow> int \<Rightarrow> xy \<Rightarrow> int \<Rightarrow> int \<Rightarrow> fgce_failure + bytes" where
  "encodeDefineReference oid canonW canonH k d pin enterCols enterRows =
     with_writer 32
       [w_u8 20, w_u32 oid, w_u32 canonW, w_u32 canonH, w_u32 k, w_u32 d,
        w_i8 (xy_x pin), w_i8 (xy_y pin), w_u32 enterCols, w_u32 enterRows]"

definition encodeUseReference :: "int \<Rightarrow> fgce_failure + bytes" where
  "encodeUseReference oid = with_writer 5 [w_u8 21, w_u32 oid]"

definition encodeClipPush :: "rect \<Rightarrow> fgce_failure + bytes" where
  "encodeClipPush r = with_writer 17 [w_u8 22, writeRect r]"

definition encodeClipPop :: "fgce_failure + bytes" where
  "encodeClipPop = with_writer 1 [w_u8 23]"

definition encodeBlit ::
  "int \<Rightarrow> rect \<Rightarrow> rect \<Rightarrow> sample \<Rightarrow> color option \<Rightarrow> blend option \<Rightarrow> radius option \<Rightarrow>
   fgce_failure + bytes" where
  "encodeBlit oid dest src sample tint blend radius =
     with_writer 48
       [w_u8 24, w_u32 oid, writeRect dest, writeRect src, w_u8 (sample_code sample),
        writeOptionalColor tint, writeOptionalBlend blend, writeOptionalRadius radius]"

definition encodeFillPath ::
  "verb list \<Rightarrow> fill_rule \<Rightarrow> color \<Rightarrow> blend option \<Rightarrow> fgce_failure + bytes" where
  "encodeFillPath verbs rule color blend =
     with_writer 32 [w_u8 25, writeVerbsBlob verbs, w_u8 (rule_code rule), writeColor color,
                     writeOptionalBlend blend]"

definition encodeFillLattice ::
  "rect \<Rightarrow> int \<Rightarrow> int option \<Rightarrow> color \<Rightarrow> color \<Rightarrow> blend option \<Rightarrow> fgce_failure + bytes" where
  "encodeFillLattice r step primaryStep fineColor primaryColor blend =
     with_writer 44
       [w_u8 29, writeRect r, w_u32 step, w_bool (primaryStep \<noteq> None), when_some primaryStep w_u32,
        writeColor fineColor, writeColor primaryColor, writeOptionalBlend blend]"

definition encodeStrokePath ::
  "verb list \<Rightarrow> stroke \<Rightarrow> color \<Rightarrow> blend option \<Rightarrow> fgce_failure + bytes" where
  "encodeStrokePath verbs stroke color blend =
     with_writer 48 [w_u8 26, writeVerbsBlob verbs, writeStroke stroke, writeColor color,
                     writeOptionalBlend blend]"

definition encodeDebugGrid :: "debug_grid_style option \<Rightarrow> fgce_failure + bytes" where
  "encodeDebugGrid style =
     with_writer 24 [w_u8 30, w_bool (style \<noteq> None), when_some style writeDebugStyle]"

definition encodeDebugHover :: "xy option \<Rightarrow> fgce_failure + bytes" where
  "encodeDebugHover point =
     with_writer 9 [w_u8 31, w_bool (point \<noteq> None), when_some point writePoint]"

definition encodeDebugLabel :: "int \<Rightarrow> js_string option \<Rightarrow> fgce_failure + bytes" where
  "encodeDebugLabel oid text =
     with_writer 16 [w_u8 32, w_u32 oid, w_bool (text \<noteq> None),
                     when_some text (\<lambda>t. deferredBlob (utf8_encode t))]"

end
