(* ===== verification/Fgce_Host.thy ===== *)
theory Fgce_Host
  imports Fgce_Protocol
begin

text \<open>
  The other end of the wire: the request decoder of the host adapter
  (\<open>products/fgce/crates/fgce-wasm/src/wire.rs\<close>) that reads what the binding writes. Its slices are
  shorter than \<open>2^32\<close> bytes: \<open>usize\<close> is 32 bits wide in a wasm module.
\<close>

section \<open>The reader of the adapter\<close>

datatype kernel_error =
    ScaleOutOfRange | SurfaceOutOfRange | NotBegun | UnknownImage | UnknownNode | ImageTooLarge
  | BufferLayout | ClipUnderflow | ClipOverflow | BadCell | Overflow | BadStroke | BadPath | BadNudge
  | BadAnchor | BadGroup | BadArbitrary | BadInset | BoxOverflow | OffGrid | BadParent
  | ReferenceMissing | ReferenceBusy | BadRadius

type_synonym 'a rs = "(kernel_error, 'a) reader"

definition rs_take :: "nat \<Rightarrow> bytes rs" where
  "rs_take len data p =
     (if p + len \<ge> 2 ^ 32 then Inl BufferLayout
      else if p + len > length data then Inl BufferLayout
      else Inr (take len (drop p data), p + len))"

definition rs_u8 :: "int rs" where
  "rs_u8 = rbind (rs_take 1) (\<lambda>b. rret (uint (b ! 0)))"

definition rs_i8 :: "int rs" where
  "rs_i8 = rbind rs_u8 (\<lambda>v. rret (signed_take_bit 7 v))"

definition rs_bool :: "bool rs" where
  "rs_bool = rbind rs_u8 (\<lambda>v. rret (v \<noteq> 0))"

definition rs_u32 :: "int rs" where
  "rs_u32 = rbind (rs_take 4) (\<lambda>b. rret (le_value b))"

definition rs_i32 :: "int rs" where
  "rs_i32 = rbind rs_u32 (\<lambda>v. rret (signed_take_bit 31 v))"

definition sub_slice :: "bytes \<Rightarrow> int \<Rightarrow> int \<Rightarrow> kernel_error + bytes" where
  "sub_slice data offset len =
     (let start = nat offset; stop = start + nat len in
      if stop \<ge> 2 ^ 32 then Inl BufferLayout
      else if stop > length data then Inl BufferLayout
      else Inr (take (nat len) (drop start data)))"

section \<open>Field readers\<close>

definition read_opt :: "'a rs \<Rightarrow> 'a option rs" where
  "read_opt rd = rbind rs_bool (\<lambda>b. if b then rbind rd (\<lambda>x. rret (Some x)) else rret None)"

definition read_edge :: "edge rs" where
  "read_edge = rbind rs_u8 (\<lambda>t.
     if t = 0 then
       rbind rs_i32 (\<lambda>primary. rbind (read_opt rs_u8) (\<lambda>fine. rbind (read_opt rs_i32) (\<lambda>spx.
       rret (GridEdge primary fine spx))))
     else if t = 1 then rbind rs_i32 (\<lambda>v. rret (PixelEdge v))
     else rfail BufferLayout)"

definition read_edges :: "edges rs" where
  "read_edges =
     rbind read_edge (\<lambda>x1. rbind read_edge (\<lambda>y1. rbind read_edge (\<lambda>x2. rbind read_edge (\<lambda>y2.
     rret \<lparr>ex1 = x1, ey1 = y1, ex2 = x2, ey2 = y2\<rparr>))))"

definition read_inset :: "inset option rs" where
  "read_inset = rbind rs_bool (\<lambda>b.
     if \<not> b then rret None
     else rbind (read_opt read_edge) (\<lambda>l. rbind (read_opt read_edge) (\<lambda>t.
          rbind (read_opt read_edge) (\<lambda>r. rbind (read_opt read_edge) (\<lambda>b.
          rret (Some \<lparr>left_side = l, top_side = t, right_side = r, bottom_side = b\<rparr>))))))"

definition read_rect :: "rect rs" where
  "read_rect = rbind rs_i32 (\<lambda>x1. rbind rs_i32 (\<lambda>y1. rbind rs_i32 (\<lambda>x2. rbind rs_i32 (\<lambda>y2.
     rret \<lparr>rx1 = x1, ry1 = y1, rx2 = x2, ry2 = y2\<rparr>))))"

definition read_color :: "color rs" where
  "read_color = rbind rs_u8 (\<lambda>r. rbind rs_u8 (\<lambda>g. rbind rs_u8 (\<lambda>b. rbind rs_u8 (\<lambda>a.
     rret \<lparr>c_r = r, c_g = g, c_b = b, c_a = a\<rparr>))))"

definition read_verb :: "verb rs" where
  "read_verb = rbind rs_u8 (\<lambda>t.
     if t = 0 then rbind rs_i32 (\<lambda>x. rbind rs_i32 (\<lambda>y. rret (MoveTo x y)))
     else if t = 1 then rbind rs_i32 (\<lambda>x. rbind rs_i32 (\<lambda>y. rret (LineTo x y)))
     else if t = 2 then
       rbind rs_i32 (\<lambda>cx. rbind rs_i32 (\<lambda>cy. rbind rs_i32 (\<lambda>x. rbind rs_i32 (\<lambda>y.
       rret (QuadTo cx cy x y)))))
     else if t = 3 then
       rbind rs_i32 (\<lambda>a. rbind rs_i32 (\<lambda>b. rbind rs_i32 (\<lambda>c. rbind rs_i32 (\<lambda>d.
       rbind rs_i32 (\<lambda>x. rbind rs_i32 (\<lambda>y. rret (CubicTo a b c d x y)))))))
     else if t = 4 then rret ClosePath
     else rfail BufferLayout)"

record r_stroke =
  width_q8 :: int
  r_align :: stroke_align
  r_join :: join
  r_cap :: cap
  r_peak :: peak

definition read_stroke :: "r_stroke rs" where
  "read_stroke =
     rbind rs_u32 (\<lambda>w.
     rbind (rbind rs_u8 (\<lambda>t. if t = 0 then rret Inside else if t = 1 then rret Outside
                             else if t = 2 then rret Center else rfail BufferLayout)) (\<lambda>al.
     rbind (rbind rs_u8 (\<lambda>t. if t = 0 then rbind rs_u32 (\<lambda>l. rret (Miter l))
                             else if t = 1 then rret Bevel
                             else if t = 2 then rret RoundJoin else rfail BufferLayout)) (\<lambda>jn.
     rbind (rbind rs_u8 (\<lambda>t. if t = 0 then rret ButtCap else if t = 1 then rret SquareCap
                             else if t = 2 then rret RoundCap else rfail BufferLayout)) (\<lambda>cp.
     rbind (rbind rs_u8 (\<lambda>t. if t = 0 then rret Light else if t = 1 then rret Nominal
                             else rfail BufferLayout)) (\<lambda>pk.
     rret \<lparr>width_q8 = w, r_align = al, r_join = jn, r_cap = cp, r_peak = pk\<rparr>)))))"

definition read_fill :: "fill rs" where
  "read_fill = rbind rs_u8 (\<lambda>t.
     if t = 0 then rret \<lparr>f_rule = NonZero\<rparr> else if t = 1 then rret \<lparr>f_rule = EvenOdd\<rparr>
     else rfail BufferLayout)"

definition read_format :: "pixel_format rs" where
  "read_format = rbind rs_u8 (\<lambda>t.
     if t = 0 then rret Rgb8 else if t = 1 then rret Rgba8 else if t = 2 then rret Alpha8
     else rfail BufferLayout)"

definition read_alpha :: "alpha_mode rs" where
  "read_alpha = rbind rs_u8 (\<lambda>t.
     if t = 0 then rret Premul else if t = 1 then rret Straight else rfail BufferLayout)"

definition read_sample :: "sample rs" where
  "read_sample = rbind rs_u8 (\<lambda>t.
     if t = 0 then rret Crisp else if t = 1 then rret Area else rfail BufferLayout)"

definition read_blend :: "blend rs" where
  "read_blend = rbind rs_u8 (\<lambda>t.
     if t = 0 then rret SrcOver else if t = 1 then rret Src else if t = 2 then rret ClearBlend
     else if t = 3 then rret DstOut else rfail BufferLayout)"

definition read_radius :: "radius rs" where
  "read_radius = rbind rs_u8 (\<lambda>t.
     if t = 0 then rbind read_edge (\<lambda>e. rret (RadiusEdge e))
     else if t = 1 then rbind rs_u8 (\<lambda>v. rret (RadiusPercent v))
     else rfail BufferLayout)"

definition read_align :: "xy rs" where
  "read_align = rbind rs_i8 (\<lambda>x. rbind rs_i8 (\<lambda>y. rret \<lparr>xy_x = x, xy_y = y\<rparr>))"

definition read_point :: "xy rs" where
  "read_point = rbind rs_i32 (\<lambda>x. rbind rs_i32 (\<lambda>y. rret \<lparr>xy_x = x, xy_y = y\<rparr>))"

definition read_debug_style :: "debug_grid_style rs" where
  "read_debug_style =
     rbind read_color (\<lambda>b. rbind read_color (\<lambda>t.
     rbind (read_opt read_color) (\<lambda>lb. rbind (read_opt read_color) (\<lambda>lt.
     rbind rs_u8 (\<lambda>la. rbind rs_u8 (\<lambda>ls.
     rret \<lparr>base_color = b, tip_color = t, label_base = lb, label_tip = lt,
           label_alpha = la, label_scale = ls\<rparr>))))))"

section \<open>Payloads addressed by offset\<close>

lemma bindE_cong [fundef_cong]:
  "m = m' \<Longrightarrow> (\<And>x. m' = Inr x \<Longrightarrow> f x = f' x) \<Longrightarrow> bindE m f = bindE m' f'"
  by (cases m') auto

definition advances :: "'a rs \<Rightarrow> bool" where
  "advances rd \<longleftrightarrow> (\<forall>data p x q. rd data p = Inr (x, q) \<longrightarrow> p < q)"

definition keeps :: "'a rs \<Rightarrow> bool" where
  "keeps rd \<longleftrightarrow> (\<forall>data p x q. rd data p = Inr (x, q) \<longrightarrow> p \<le> q)"

lemma advances_keeps: "advances rd \<Longrightarrow> keeps rd"
  unfolding advances_def keeps_def using less_imp_le by blast

lemma keeps_ret: "keeps (rret x)" "keeps (rfail e)"
  by (simp_all add: keeps_def rret_def rfail_def)

lemma keeps_bind: "keeps m \<Longrightarrow> (\<And>x. keeps (f x)) \<Longrightarrow> keeps (rbind m f)"
  unfolding keeps_def rbind_def by (fastforce simp: result_iff)

lemma advances_bind: "advances m \<Longrightarrow> (\<And>x. keeps (f x)) \<Longrightarrow> advances (rbind m f)"
  unfolding keeps_def advances_def rbind_def by (fastforce simp: result_iff)

lemma advances_u8: "advances rs_u8"
  by (auto simp: advances_def rs_u8_def rbind_def rret_def rs_take_def result_iff split: if_splits)

lemma keeps_i32: "keeps rs_i32"
  by (auto simp: keeps_def rs_i32_def rs_u32_def rbind_def rret_def rs_take_def result_iff split: if_splits)

lemma advances_verb: "advances read_verb"
  unfolding read_verb_def
  by (rule advances_bind [OF advances_u8])
    (auto intro!: keeps_bind keeps_i32 keeps_ret)

function verbs_loop :: "bytes \<Rightarrow> nat \<Rightarrow> kernel_error + verb list" where
  "verbs_loop data p =
     (if length data \<le> p then Inr []
      else bindE (read_verb data p) (\<lambda>(v, q). bindE (verbs_loop data q) (\<lambda>vs. Inr (v # vs))))"
  by pat_completeness auto
termination
  using advances_verb
  by (relation "measure (\<lambda>(data, p). length data - p)") (fastforce simp: advances_def)+

declare verbs_loop.simps [simp del]

definition read_verbs :: "verb list rs" where
  "read_verbs = rbind rs_u32 (\<lambda>offset. rbind rs_u32 (\<lambda>len. \<lambda>data p.
     bindE (sub_slice data offset len) (\<lambda>bytes.
     bindE (verbs_loop bytes 0) (\<lambda>verbs. Inr (verbs, p)))))"

fun children_loop :: "nat \<Rightarrow> int list rs" where
  "children_loop 0 = rret []"
| "children_loop (Suc n) = rbind rs_u32 (\<lambda>c. rbind (children_loop n) (\<lambda>cs. rret (c # cs)))"

definition read_children :: "int list rs" where
  "read_children = rbind rs_u32 (\<lambda>offset. rbind rs_u32 (\<lambda>count. \<lambda>data p.
     bindE (sub_slice data offset (min (count * 4) (2 ^ 32 - 1))) (\<lambda>bytes.
     bindE (children_loop (nat count) bytes 0) (\<lambda>(children, _). Inr (children, p)))))"

definition read_blob :: "bytes rs" where
  "read_blob = rbind rs_u32 (\<lambda>offset. rbind rs_u32 (\<lambda>len. \<lambda>data p.
     bindE (sub_slice data offset len) (\<lambda>bytes. Inr (bytes, p))))"

text \<open>\<open>String::from_utf8\<close>: the scalar values of a well-formed sequence, otherwise an error.\<close>

definition from_utf8 :: "bytes \<Rightarrow> nat list option" where
  "from_utf8 bs =
     (let cs = utf8_dec 0 0 0x80 0xBF (map unat bs)
      in if concat (map utf8_scalar cs) = bs then Some cs else None)"

definition read_text :: "nat list rs" where
  "read_text = (\<lambda>data p. bindE (read_blob data p) (\<lambda>(bytes, q).
     bindE (optE BufferLayout (from_utf8 bytes)) (\<lambda>cs. Inr (cs, q))))"

definition read_kind :: "r_stroke entity_kind rs" where
  "read_kind = rbind rs_u8 (\<lambda>t.
     if t = 0 then rbind read_format (\<lambda>f. rbind rs_u32 (\<lambda>i. rbind (read_opt read_color) (\<lambda>c. rret (Photo f i c))))
     else if t = 1 then rbind read_format (\<lambda>f. rbind rs_u32 (\<lambda>i. rbind (read_opt read_color) (\<lambda>c. rret (Glyph f i c))))
     else if t = 2 then
       rbind read_verbs (\<lambda>v. rbind (read_opt read_fill) (\<lambda>f. rbind (read_opt read_stroke) (\<lambda>s.
       rbind read_color (\<lambda>c. rret (VectorKind v f s c)))))
     else if t = 3 then rbind read_color (\<lambda>c. rret (FlatKind c))
     else if t = 4 then
       rbind (read_opt read_fill) (\<lambda>f. rbind (read_opt read_stroke) (\<lambda>s.
       rbind read_color (\<lambda>c. rret (BoxKind f s c))))
     else if t = 5 then rret EmptyKind
     else rfail BufferLayout)"

record box_owned =
  b_id :: int
  b_parent :: int
  b_children :: "int list"
  b_pin :: xy
  b_snap :: bool
  b_inset :: "inset option"
  b_on_grid :: "bool option"
  b_edges :: edges

record entity_owned =
  e_id :: int
  e_kind :: "r_stroke entity_kind"
  e_on_grid :: "bool option"
  e_edges :: edges
  e_align :: "xy option"
  e_blend :: "blend option"
  e_radius :: "radius option"

definition read_box :: "bool \<Rightarrow> box_owned rs" where
  "read_box arbitrary =
     rbind rs_u32 (\<lambda>oid. rbind rs_u32 (\<lambda>parent.
     rbind (if arbitrary then read_opt rs_bool else rret None) (\<lambda>on_grid.
     rbind (if arbitrary then read_edges
            else rret \<lparr>ex1 = PixelEdge 0, ey1 = PixelEdge 0, ex2 = PixelEdge 0, ey2 = PixelEdge 0\<rparr>) (\<lambda>edges.
     rbind read_children (\<lambda>children.
     rbind read_align (\<lambda>pin.
     rbind rs_bool (\<lambda>snap.
     rbind read_inset (\<lambda>inset.
     rret \<lparr>b_id = oid, b_parent = parent, b_children = children, b_pin = pin, b_snap = snap,
           b_inset = inset, b_on_grid = on_grid, b_edges = edges\<rparr>))))))))"

section \<open>Requests\<close>

datatype decoded =
    DInfo
  | DGrid int
  | DLength int int
  | DLattice int int int int int
  | DEdgePx edge int
  | DMeasure "verb list" "fill option" "r_stroke option"
  | DBegin int int
  | DEnd
  | DReadPixels rect alpha_mode
  | DUpload int int int int pixel_format alpha_mode bytes
  | DDrop int
  | DFillRect rect color "blend option" "radius option"
  | DEntity entity_owned
  | DGroup box_owned
  | DArbitrary box_owned
  | DShow int rect
  | DPlace int rect
  | DRemove int
  | DSnapshot
  | DDefineReference int int int int int xy int int
  | DUseReference int
  | DClipPush rect
  | DClipPop
  | DBlit int rect rect sample "color option" "blend option" "radius option"
  | DFillPath "verb list" fill_rule color "blend option"
  | DStrokePath "verb list" r_stroke color "blend option"
  | DDrawTree
  | DStrokeRoundRect rect "radius option" r_stroke color "blend option"
  | DFillLattice rect int "int option" color color "blend option"
  | DDebugGrid "debug_grid_style option"
  | DDebugHover "xy option"
  | DDebugLabel int "nat list option"

definition decode_reader :: "decoded rs" where
  "decode_reader = rbind rs_u8 (\<lambda>op.
     if op = 1 then rret DInfo
     else if op = 2 then rbind rs_u32 (\<lambda>a. rret (DGrid a))
     else if op = 3 then rbind rs_u32 (\<lambda>a. rbind rs_u32 (\<lambda>b. rret (DLength a b)))
     else if op = 4 then rbind rs_u32 (\<lambda>a.
         rbind rs_u32 (\<lambda>b. rbind rs_u32 (\<lambda>c.
         rbind rs_i8 (\<lambda>d. rbind rs_i8 (\<lambda>e.
         rret (DLattice a b c d e))))))
     else if op = 5 then rbind read_edge (\<lambda>a. rbind rs_u32 (\<lambda>b. rret (DEdgePx a b)))
     else if op = 6 then rbind read_verbs (\<lambda>a.
         rbind (read_opt read_fill) (\<lambda>b. rbind (read_opt read_stroke) (\<lambda>c.
         rret (DMeasure a b c))))
     else if op = 7 then rbind rs_u32 (\<lambda>a. rbind rs_u32 (\<lambda>b. rret (DBegin a b)))
     else if op = 8 then rret DEnd
     else if op = 9 then rbind read_rect (\<lambda>a. rbind read_alpha (\<lambda>b. rret (DReadPixels a b)))
     else if op = 10 then rbind rs_u32 (\<lambda>a.
         rbind rs_u32 (\<lambda>b. rbind rs_u32 (\<lambda>c.
         rbind rs_u32 (\<lambda>d. rbind read_format (\<lambda>e.
         rbind read_alpha (\<lambda>f. rbind read_blob (\<lambda>g.
         rret (DUpload a b c d e f g))))))))
     else if op = 11 then rbind rs_u32 (\<lambda>a. rret (DDrop a))
     else if op = 12 then rbind read_rect (\<lambda>a.
         rbind read_color (\<lambda>b. rbind (read_opt read_blend) (\<lambda>c.
         rbind (read_opt read_radius) (\<lambda>d. rret (DFillRect a b c d)))))
     else if op = 28 then rbind read_rect (\<lambda>a.
         rbind (read_opt read_radius) (\<lambda>b. rbind read_stroke (\<lambda>c.
         rbind read_color (\<lambda>d. rbind (read_opt read_blend) (\<lambda>e.
         rret (DStrokeRoundRect a b c d e))))))
     else if op = 29 then rbind read_rect (\<lambda>a.
         rbind rs_u32 (\<lambda>b. rbind (read_opt rs_u32) (\<lambda>c.
         rbind read_color (\<lambda>d. rbind read_color (\<lambda>e.
         rbind (read_opt read_blend) (\<lambda>f. rret (DFillLattice a b c d e f)))))))
     else if op = 13 then rbind rs_u32 (\<lambda>oid. rbind read_kind (\<lambda>kind. rbind (read_opt rs_bool) (\<lambda>g.
         rbind read_edges (\<lambda>edges. rbind (read_opt read_align) (\<lambda>al.
         rbind (read_opt read_blend) (\<lambda>bl. rbind (read_opt read_radius) (\<lambda>rad.
         rret (DEntity \<lparr>e_id = oid, e_kind = kind, e_on_grid = g, e_edges = edges,
                 e_align = al, e_blend = bl, e_radius = rad\<rparr>))))))))
     else if op = 14 then rbind (read_box False) (\<lambda>b. rret (DGroup b))
     else if op = 15 then rbind (read_box True) (\<lambda>b. rret (DArbitrary b))
     else if op = 16 then rbind rs_u32 (\<lambda>a. rbind read_rect (\<lambda>b. rret (DShow a b)))
     else if op = 17 then rbind rs_u32 (\<lambda>a. rbind read_rect (\<lambda>b. rret (DPlace a b)))
     else if op = 18 then rbind rs_u32 (\<lambda>a. rret (DRemove a))
     else if op = 19 then rret DSnapshot
     else if op = 20 then rbind rs_u32 (\<lambda>a.
         rbind rs_u32 (\<lambda>b. rbind rs_u32 (\<lambda>c.
         rbind rs_u32 (\<lambda>d. rbind rs_u32 (\<lambda>e.
         rbind read_align (\<lambda>f. rbind rs_u32 (\<lambda>g.
         rbind rs_u32 (\<lambda>h. rret (DDefineReference a b c d e f g h)))))))))
     else if op = 21 then rbind rs_u32 (\<lambda>a. rret (DUseReference a))
     else if op = 22 then rbind read_rect (\<lambda>a. rret (DClipPush a))
     else if op = 23 then rret DClipPop
     else if op = 24 then rbind rs_u32 (\<lambda>a.
         rbind read_rect (\<lambda>b. rbind read_rect (\<lambda>c.
         rbind read_sample (\<lambda>d. rbind (read_opt read_color) (\<lambda>e.
         rbind (read_opt read_blend) (\<lambda>f. rbind (read_opt read_radius) (\<lambda>g.
         rret (DBlit a b c d e f g))))))))
     else if op = 25 then rbind read_verbs (\<lambda>a.
         rbind (rbind read_fill (\<lambda>f. rret (f_rule f))) (\<lambda>b. rbind read_color (\<lambda>c.
         rbind (read_opt read_blend) (\<lambda>d. rret (DFillPath a b c d)))))
     else if op = 26 then rbind read_verbs (\<lambda>a.
         rbind read_stroke (\<lambda>b. rbind read_color (\<lambda>c.
         rbind (read_opt read_blend) (\<lambda>d. rret (DStrokePath a b c d)))))
     else if op = 27 then rret DDrawTree
     else if op = 30 then rbind (read_opt read_debug_style) (\<lambda>a. rret (DDebugGrid a))
     else if op = 31 then rbind (read_opt read_point) (\<lambda>a. rret (DDebugHover a))
     else if op = 32 then rbind rs_u32 (\<lambda>a. rbind (read_opt read_text) (\<lambda>b. rret (DDebugLabel a b)))
     else rfail BufferLayout)"

definition decode_request :: "bytes \<Rightarrow> kernel_error + decoded" where
  "decode_request data = bindE (decode_reader data 0) (\<lambda>(d, _). Inr d)"

text \<open>A buffer whose positions are \<open>usize\<close> values.\<close>

definition addressable :: "bytes \<Rightarrow> bool" where
  "addressable data \<longleftrightarrow> length data < 2 ^ 32"

interpretation rs: byte_source addressable rs_take BufferLayout
  by unfold_locales (simp_all add: rs_take_def addressable_def)

end
