(* ===== verification/Fgce_Roundtrip.thy ===== *)
theory Fgce_Roundtrip
  imports Fgce_Host
begin

text \<open>
  What the binding writes is what the host adapter reads: the contract \<open>codes\<close> between a writer
  operation and a reader, its field instances, and the round trip of every request.
\<close>

section \<open>A writer operation and the reader of its bytes\<close>

locale piece_codec =
  piece_sink rep put + byte_source ok take_bytes exhausted
  for rep :: "'s \<Rightarrow> piece list \<Rightarrow> bool"
    and put :: "piece \<Rightarrow> 's \<Rightarrow> 'e + 's"
    and ok :: "bytes \<Rightarrow> bool"
    and take_bytes :: "nat \<Rightarrow> ('f, bytes) reader"
    and exhausted :: 'f
begin

definition codes :: "('s \<Rightarrow> 'e + 's) \<Rightarrow> ('f, 'a) reader \<Rightarrow> 'a \<Rightarrow> bool" where
  "codes op rd v \<longleftrightarrow> (\<exists>ps. appends op ps \<and> reads rd ps v)"

lemma codesI: "appends op ps \<Longrightarrow> reads rd ps v \<Longrightarrow> codes op rd v"
  by (auto simp: codes_def)

lemma codes_ret: "codes (chainE []) (rret v) v"
  by (rule codesI [OF appends_Nil reads_ret])

lemma codes_end: "w = v \<Longrightarrow> codes (chainE []) (rret w) v"
  using codes_ret by simp

lemma codes_skip: "codes Inr (rret v) v"
  by (rule codesI [OF appends_skip reads_ret])

lemma codes_done: "codes (chainE [Inr]) (rret v) v"
  using codesI [OF appends_Cons [OF appends_skip appends_Nil], of "rret v" v] reads_ret [of v] by simp

lemma codes_chain:
  assumes "codes op rd x" and "codes (chainE ops) (f x) v"
  shows "codes (chainE (op # ops)) (rbind rd f) v"
proof -
  obtain ps where p: "appends op ps" "reads rd ps x" using assms(1) by (auto simp: codes_def)
  obtain qs where q: "appends (chainE ops) qs" "reads (f x) qs v" using assms(2) by (auto simp: codes_def)
  show ?thesis by (rule codesI [OF appends_Cons [OF p(1) q(1)] reads_bind [where f = f, OF p(2) q(2)]])
qed

lemma codes_step:
  "codes op rd x \<Longrightarrow> f x = g \<Longrightarrow> codes (chainE ops) g v \<Longrightarrow> codes (chainE (op # ops)) (rbind rd f) v"
  by (rule codes_chain, assumption) simp

lemma codes_one:
  assumes "codes op rd x" and "f x = rret v" shows "codes op (rbind rd f) v"
proof -
  obtain ps where p: "appends op ps" "reads rd ps x" using assms(1) by (auto simp: codes_def)
  have "reads (f x) [] v" using assms(2) by (simp add: reads_ret)
  then have "reads (rbind rd f) ps v" using reads_bind [of rd ps x f "[]" v] p(2) by simp
  then show ?thesis by (rule codesI [OF p(1)])
qed

lemma codes_last:
  "codes op rd x \<Longrightarrow> f x = rret v \<Longrightarrow> codes (chainE [op]) (rbind rd f) v"
  by (rule codes_step [OF _ _ codes_ret])

lemma codes_nest: "codes (chainE [f, g]) rd x \<Longrightarrow> codes (chainE ops) (k x) v \<Longrightarrow>
   codes (chainE (f # g # ops)) (rbind rd k) v"
proof -
  assume 1: "codes (chainE [f, g]) rd x" and 2: "codes (chainE ops) (k x) v"
  have "chainE (f # g # ops) = chainE (chainE [f, g] # ops)"
  proof (rule ext)
    fix s show "chainE (f # g # ops) s = chainE (chainE [f, g] # ops) s"
      by (cases "f s") (simp_all add: bindE_assoc)
  qed
  with codes_chain [of "chainE [f, g]" rd x ops k v, OF 1 2] show ?thesis by simp
qed

end

interpretation fw: piece_codec holds put_piece addressable rs_take BufferLayout
  by unfold_locales

section \<open>Fields\<close>

named_theorems in_range \<open>values that fit their wire width\<close>

definition is_u8 :: "int \<Rightarrow> bool" where "is_u8 v \<longleftrightarrow> 0 \<le> v \<and> v < 2 ^ 8"
definition is_i8 :: "int \<Rightarrow> bool" where "is_i8 v \<longleftrightarrow> - (2 ^ 7) \<le> v \<and> v < 2 ^ 7"
definition is_u32 :: "int \<Rightarrow> bool" where "is_u32 v \<longleftrightarrow> 0 \<le> v \<and> v < 2 ^ 32"
definition is_i32 :: "int \<Rightarrow> bool" where "is_i32 v \<longleftrightarrow> - (2 ^ 31) \<le> v \<and> v < 2 ^ 31"

lemma reads_u8: "rs.reads rs_u8 (raw [word_of_int v]) (v mod 256)"
  unfolding rs_u8_def by (rule rs.reads_map [OF rs.reads_take]) simp_all

lemma codes_u8: "is_u8 v \<Longrightarrow> fw.codes (w_u8 v) rs_u8 v"
  using fw.codesI [OF appends_u8 reads_u8, of v] by (simp add: is_u8_def)

lemma signed_small: "- (2 ^ n) \<le> v \<Longrightarrow> v < 2 ^ n \<Longrightarrow> signed_take_bit n (v mod 2 ^ Suc n) = (v :: int)"
  by (simp add: signed_take_bit_int_eq_self signed_take_bit_take_bit del: power_Suc flip: take_bit_eq_mod)

lemma codes_i8: "is_i8 v \<Longrightarrow> fw.codes (w_i8 v) rs_i8 v"
  unfolding rs_i8_def
  by (rule fw.codesI [OF appends_i8 rs.reads_map [OF reads_u8]])
    (use signed_small [of 7 v] in \<open>simp add: is_i8_def\<close>)

lemma codes_bool: "fw.codes (w_bool b) rs_bool b"
proof (rule fw.codesI [OF appends_bool])
  have "rs.reads rs_u8 (raw [if b then 1 else 0]) (if b then 1 else 0)"
    using reads_u8 [of "if b then 1 else 0"] by (simp split: if_splits)
  then show "rs.reads rs_bool (raw [if b then 1 else 0]) b"
    unfolding rs_bool_def by (rule rs.reads_map) simp
qed

lemma reads_u32: "rs.reads rs_u32 (raw (le_bytes 4 v)) (v mod 2 ^ 32)"
  unfolding rs_u32_def
  by (rule rs.reads_map [OF rs.reads_take]) (simp_all add: le_value_le_bytes)

lemma codes_u32: "is_u32 v \<Longrightarrow> fw.codes (w_u32 v) rs_u32 v"
  using fw.codesI [OF appends_u32 reads_u32, of v] by (simp add: is_u32_def)

lemma codes_i32: "is_i32 v \<Longrightarrow> fw.codes (w_i32 v) rs_i32 v"
  unfolding rs_i32_def
  by (rule fw.codesI [OF appends_i32 rs.reads_map [OF reads_u32]])
    (use signed_small [of 31 v] in \<open>simp add: is_i32_def\<close>)

definition in_opt :: "('a \<Rightarrow> bool) \<Rightarrow> 'a option \<Rightarrow> bool" where
  "in_opt P x = (case x of None \<Rightarrow> True | Some v \<Rightarrow> P v)"

lemma in_opt_simps [simp]: "in_opt P None" "in_opt P (Some v) = P v"
  by (simp_all add: in_opt_def)

lemma codes_opt:
  assumes "\<And>v. x = Some v \<Longrightarrow> fw.codes (wr v) rd (g v)"
  shows "fw.codes (chainE [w_bool (x \<noteq> None), when_some x wr]) (read_opt rd) (map_option g x)"
proof (cases x)
  case None
  show ?thesis unfolding read_opt_def None
    by (rule fw.codes_step [OF codes_bool]) (auto simp: when_some_def intro: fw.codes_done)
next
  case (Some v)
  show ?thesis unfolding read_opt_def Some
    by (rule fw.codes_step [OF codes_bool])
      (auto simp: when_some_def intro: fw.codes_last [OF assms [OF Some]])
qed

lemma codes_opt_field:
  assumes "in_opt P x" and "\<And>v. P v \<Longrightarrow> fw.codes (wr v) rd (g v)"
    and "fw.codes (chainE ops) (k (map_option g x)) r"
  shows "fw.codes (chainE (w_bool (x \<noteq> None) # when_some x wr # ops)) (rbind (read_opt rd) k) r"
proof (rule fw.codes_nest [where k = k, OF codes_opt assms(3)])
  fix v assume "x = Some v"
  with assms(1,2) show "fw.codes (wr v) rd (g v)" by simp
qed

lemma codes_opt_same:
  assumes "in_opt P x" and "\<And>v. P v \<Longrightarrow> fw.codes (wr v) rd v"
  shows "fw.codes (chainE [w_bool (x \<noteq> None), when_some x wr]) (read_opt rd) x"
proof -
  have "fw.codes (chainE [w_bool (x \<noteq> None), when_some x wr]) (read_opt rd) (map_option (\<lambda>v. v) x)"
  proof (rule codes_opt)
    fix v assume "x = Some v"
    with assms show "fw.codes (wr v) rd v" by simp
  qed
  then show ?thesis by (simp add: option.map_ident)
qed

lemma codes_opt_field_same:
  assumes "in_opt P x" and "\<And>v. P v \<Longrightarrow> fw.codes (wr v) rd v"
    and "fw.codes (chainE ops) (k x) r"
  shows "fw.codes (chainE (w_bool (x \<noteq> None) # when_some x wr # ops)) (rbind (read_opt rd) k) r"
  by (rule fw.codes_nest [where k = k, OF codes_opt_same [OF assms(1,2)] assms(3)])

lemma tag_ok: "0 \<le> v \<Longrightarrow> v < 256 \<Longrightarrow> is_u8 v"
  by (simp add: is_u8_def)

lemmas codes_tag = fw.codes_step [OF codes_u8 [OF tag_ok]]

fun in_rect :: "rect \<Rightarrow> bool" where
  "in_rect r = (is_i32 (rx1 r) \<and> is_i32 (ry1 r) \<and> is_i32 (rx2 r) \<and> is_i32 (ry2 r))"

lemma codes_rect: "in_rect r \<Longrightarrow> fw.codes (writeRect r) read_rect r"
  unfolding writeRect_def read_rect_def
  by (rule fw.codes_chain codes_i32 fw.codes_end | simp)+

fun in_color :: "color \<Rightarrow> bool" where
  "in_color c = (is_u8 (c_r c) \<and> is_u8 (c_g c) \<and> is_u8 (c_b c) \<and> is_u8 (c_a c))"

lemma codes_color: "in_color c \<Longrightarrow> fw.codes (writeColor c) read_color c"
  unfolding writeColor_def read_color_def
  by (rule fw.codes_chain codes_u8 fw.codes_end | simp)+

lemma codes_opt_color: "in_opt in_color c \<Longrightarrow> fw.codes (writeOptionalColor c) (read_opt read_color) c"
  unfolding writeOptionalColor_def by (rule codes_opt_same [OF _ codes_color])

lemma codes_blend: "fw.codes (w_u8 (blend_code b)) read_blend b"
  unfolding read_blend_def
  by (cases b; rule fw.codes_one [OF codes_u8]) (simp_all add: is_u8_def)

lemma codes_opt_blend: "fw.codes (writeOptionalBlend b) (read_opt read_blend) b"
  unfolding writeOptionalBlend_def
  by (rule codes_opt_same [of "\<lambda>_. True"]) (simp_all add: in_opt_def codes_blend split: option.split)

fun in_edge :: "edge \<Rightarrow> bool" where
  "in_edge (GridEdge primary fine spx) = (is_i32 primary \<and> in_opt is_u8 fine \<and> in_opt is_i32 spx)"
| "in_edge (PixelEdge v) = is_i32 v"

lemmas opt_u8_field = codes_opt_field_same [of is_u8, OF _ codes_u8]
lemmas opt_i32_field = codes_opt_field_same [of is_i32, OF _ codes_i32]
lemmas opt_u32_field = codes_opt_field_same [of is_u32, OF _ codes_u32]

lemmas walk = codes_tag opt_u8_field opt_i32_field opt_u32_field fw.codes_chain
  codes_i32 codes_u8 codes_u32 codes_i8 codes_bool fw.codes_end

lemma codes_edge: "in_edge e \<Longrightarrow> fw.codes (writeEdge e) read_edge e"
  unfolding writeEdge_def read_edge_def
  by (cases e; simp only: edge.simps; (rule walk | assumption | simp)+)

lemmas opt_edge = codes_opt_same [of in_edge, OF _ codes_edge]

fun in_edges :: "edges \<Rightarrow> bool" where
  "in_edges e = (in_edge (ex1 e) \<and> in_edge (ey1 e) \<and> in_edge (ex2 e) \<and> in_edge (ey2 e))"

lemma codes_edges: "in_edges e \<Longrightarrow> fw.codes (writeEdges e) read_edges e"
  unfolding writeEdges_def read_edges_def by (rule walk codes_edge | simp)+

fun in_inset :: "inset \<Rightarrow> bool" where
  "in_inset i = (in_opt in_edge (left_side i) \<and> in_opt in_edge (top_side i) \<and>
     in_opt in_edge (right_side i) \<and> in_opt in_edge (bottom_side i))"

definition read_sides :: "inset rs" where
  "read_sides = rbind (read_opt read_edge) (\<lambda>l. rbind (read_opt read_edge) (\<lambda>t.
     rbind (read_opt read_edge) (\<lambda>r. rbind (read_opt read_edge) (\<lambda>b.
     rret \<lparr>left_side = l, top_side = t, right_side = r, bottom_side = b\<rparr>))))"

lemma rbind_assoc: "rbind (rbind m f) g = rbind m (\<lambda>x. rbind (f x) g)"
  by (simp add: rbind_def bindE_assoc case_prod_unfold)

lemma rbind_ret [simp]: "rbind (rret x) f = f x"
  by (simp add: rbind_def rret_def)

lemma read_inset_opt: "read_inset = read_opt read_sides"
  unfolding read_inset_def read_opt_def read_sides_def
  by (rule arg_cong [of _ _ "rbind rs_bool"]) (simp add: rbind_assoc fun_eq_iff)

lemma codes_side: "in_opt in_edge s \<Longrightarrow> fw.codes (write_side s) (read_opt read_edge) s"
  unfolding write_side_def by (rule opt_edge)

lemma codes_inset: "in_opt in_inset i \<Longrightarrow> fw.codes (writeOptionalInset i) read_inset i"
  unfolding writeOptionalInset_def read_inset_opt
proof (rule codes_opt_same)
  fix i assume i: "in_inset i"
  have "fw.codes (chainE (map write_side [left_side i, top_side i, right_side i, bottom_side i])) read_sides i"
    unfolding read_sides_def list.map using i by - (rule walk codes_side | simp)+
  then show "fw.codes (foldE write_side [left_side i, top_side i, right_side i, bottom_side i]) read_sides i"
    by (simp only: chainE_def foldE_map)
qed

lemma codes_fill: "fw.codes (writeFill f) read_fill f"
  unfolding writeFill_def read_fill_def
proof (cases f)
  case (fields r)
  show "fw.codes (w_u8 (rule_code (f_rule f))) (rbind rs_u8 (\<lambda>t.
     if t = 0 then rret \<lparr>f_rule = NonZero\<rparr> else if t = 1 then rret \<lparr>f_rule = EvenOdd\<rparr>
     else rfail BufferLayout)) f"
    unfolding fields by (cases r; rule fw.codes_one [OF codes_u8]) (simp_all add: is_u8_def)
qed

lemma in_opt_True [simp]: "in_opt (\<lambda>_. True) x"
  by (simp add: in_opt_def split: option.split)

lemma codes_opt_fill: "fw.codes (writeOptionalFill f) (read_opt read_fill) f"
  unfolding writeOptionalFill_def by (rule codes_opt_same [of "\<lambda>_. True"]) (simp_all add: codes_fill)

fun in_radius :: "radius \<Rightarrow> bool" where
  "in_radius (RadiusEdge e) = in_edge e"
| "in_radius (RadiusPercent v) = is_u8 v"

lemma codes_radius: "in_radius r \<Longrightarrow> fw.codes (writeRadius r) read_radius r"
  unfolding writeRadius_def read_radius_def
  by (cases r; simp only: radius.simps; (rule walk codes_edge | simp)+)

lemma codes_opt_radius: "in_opt in_radius r \<Longrightarrow> fw.codes (writeOptionalRadius r) (read_opt read_radius) r"
  unfolding writeOptionalRadius_def by (rule codes_opt_same [OF _ codes_radius])

fun in_join :: "join \<Rightarrow> bool" where
  "in_join (Miter l) = is_u32 l"
| "in_join j = True"

definition in_stroke :: "stroke \<Rightarrow> bool" where
  "in_stroke s \<longleftrightarrow> is_u32 (widthQ8 s) \<and> in_join (s_join s)"

text \<open>The stroke the adapter sees: an omitted peak is the light one.\<close>

definition host_stroke :: "stroke \<Rightarrow> r_stroke" where
  "host_stroke s = \<lparr>width_q8 = widthQ8 s, r_align = s_align s, r_join = s_join s, r_cap = s_cap s,
     r_peak = (case s_peak s of None \<Rightarrow> Light | Some p \<Rightarrow> p)\<rparr>"

lemma codes_stroke_align: "fw.codes (w_u8 (stroke_align_code a))
   (rbind rs_u8 (\<lambda>t. if t = 0 then rret Inside else if t = 1 then rret Outside
                     else if t = 2 then rret Center else rfail BufferLayout)) a"
  by (cases a; rule fw.codes_one [OF codes_u8]) (simp_all add: is_u8_def)

lemma codes_cap: "fw.codes (w_u8 (cap_code c))
   (rbind rs_u8 (\<lambda>t. if t = 0 then rret ButtCap else if t = 1 then rret SquareCap
                     else if t = 2 then rret RoundCap else rfail BufferLayout)) c"
  by (cases c; rule fw.codes_one [OF codes_u8]) (simp_all add: is_u8_def)

lemma codes_peak: "fw.codes (w_u8 (peak_code p))
   (rbind rs_u8 (\<lambda>t. if t = 0 then rret Light else if t = 1 then rret Nominal
                     else rfail BufferLayout)) p"
  by (cases p; rule fw.codes_one [OF codes_u8]) (simp_all add: is_u8_def)

lemma codes_join: "in_join j \<Longrightarrow> fw.codes
   (case j of Miter limitQ8 \<Rightarrow> chainE [w_u8 0, w_u32 limitQ8] | j \<Rightarrow> w_u8 (if j = Bevel then 1 else 2))
   (rbind rs_u8 (\<lambda>t. if t = 0 then rbind rs_u32 (\<lambda>l. rret (Miter l))
                     else if t = 1 then rret Bevel
                     else if t = 2 then rret RoundJoin else rfail BufferLayout)) j"
proof (cases j)
  case (Miter l)
  assume "in_join j"
  with Miter show ?thesis unfolding Miter join.simps by - (rule walk | simp)+
next
  case Bevel
  show ?thesis unfolding Bevel join.simps by (rule fw.codes_one [OF codes_u8]) (simp_all add: is_u8_def)
next
  case RoundJoin
  show ?thesis unfolding RoundJoin join.simps by (rule fw.codes_one [OF codes_u8]) (simp_all add: is_u8_def)
qed

lemma codes_stroke: "in_stroke s \<Longrightarrow> fw.codes (writeStroke s) read_stroke (host_stroke s)"
  unfolding writeStroke_def read_stroke_def in_stroke_def
  by (rule fw.codes_chain codes_u32 codes_stroke_align codes_join codes_cap codes_peak fw.codes_end
      | simp add: host_stroke_def)+

lemma codes_opt_stroke:
  "in_opt in_stroke s \<Longrightarrow>
   fw.codes (writeOptionalStroke s) (read_opt read_stroke) (map_option host_stroke s)"
  unfolding writeOptionalStroke_def by (rule codes_opt) (simp add: codes_stroke)

section \<open>Payloads\<close>

lemma raw_append [simp]: "raw (a @ b) = raw a @ raw b"
  by (simp add: raw_def)

lemma raw_Nil [simp]: "raw [] = []"
  by (simp add: raw_def)

lemma blob_words:
  assumes ok: "addressable data" and laid: "laid_from base data p [Blob bs]"
  shows "\<exists>off. base \<le> off \<and> rs_u32 data p = Inr (int off, p + 4) \<and>
     rs_u32 data (p + 4) = Inr (int (length bs), p + 8) \<and>
     sub_slice data (int off) (int (length bs)) = Inr bs \<and> off + length bs \<le> length data"
proof -
  from laid obtain off where o: "p + 8 \<le> length data" "off + length bs \<le> length data"
    and base: "base \<le> off" and o2:
    "take 8 (drop p data) = le_bytes 4 (int off) @ le_bytes 4 (int (length bs))"
    "take (length bs) (drop off data) = bs" by auto
  note o = o o2
  have small: "length data < 2 ^ 32" using ok by (simp add: addressable_def)
  have "laid data p (raw (le_bytes 4 (int off)) @ raw (le_bytes 4 (int (length bs))))"
    using o(1,3) unfolding raw_append [symmetric] laid_raw by simp
  then have w: "laid data p (raw (le_bytes 4 (int off)))"
      "laid data (p + 4) (raw (le_bytes 4 (int (length bs))))"
    by (simp_all add: laid_append)
  have "rs_u32 data p = Inr (int off mod 2 ^ 32, p + 4)"
    using rs.readsD [OF reads_u32 ok w(1)] by simp
  moreover have "rs_u32 data (p + 4) = Inr (int (length bs) mod 2 ^ 32, p + 8)"
    using rs.readsD [OF reads_u32 ok w(2)] by simp
  moreover have "int off mod 2 ^ 32 = int off" "int (length bs) mod 2 ^ 32 = int (length bs)"
    using o(2) small by (auto intro!: mod_pos_pos_trivial)
  ultimately show ?thesis
    using o base small by (intro exI [of _ off]) (simp add: sub_slice_def Let_def)
qed

lemma codes_blob: "fw.codes (deferredBlob bs) read_blob bs"
proof (rule fw.codesI [OF appends_blob rs.readsI])
  fix data p assume "addressable data" "laid data p [Blob bs]"
  then show "read_blob data p = Inr (bs, p + pieces_width [Blob bs])"
    using blob_words [of data 0 p bs] by (auto simp: read_blob_def rbind_def add.assoc)
qed

text \<open>A sub-writer of raw bytes finishes to exactly those bytes.\<close>

lemma laid_end: "laid_from base data p ps \<Longrightarrow> p + pieces_width ps \<le> length data"
  by (induction base data p ps rule: laid_from.induct) auto

lemma with_writer_raw:
  assumes "tw.appends (chainE ops) (raw bs)" shows "with_writer n ops = Inr bs"
proof -
  obtain d where d: "with_writer n ops = Inr d" "length d = total_size (raw bs)" "laid d 0 (raw bs)"
    using with_writer_laid [OF assms] by blast
  then have "length d = length bs" by (simp add: total_size_def)
  with d show ?thesis by (simp add: laid_raw)
qed

lemma blob_of_subwriter:
  assumes "tw.appends (chainE ops) (raw bs)"
  shows "(\<lambda>w. bindE (with_writer n ops) (\<lambda>b. deferredBlob b w)) = deferredBlob bs"
  using with_writer_raw [OF assms] by simp

fun verb_bytes :: "verb \<Rightarrow> bytes" where
  "verb_bytes (MoveTo x y) = [0] @ le_bytes 4 x @ le_bytes 4 y"
| "verb_bytes (LineTo x y) = [1] @ le_bytes 4 x @ le_bytes 4 y"
| "verb_bytes (QuadTo cx cy x y) = [2] @ le_bytes 4 cx @ le_bytes 4 cy @ le_bytes 4 x @ le_bytes 4 y"
| "verb_bytes (CubicTo a b c d x y) =
     [3] @ le_bytes 4 a @ le_bytes 4 b @ le_bytes 4 c @ le_bytes 4 d @ le_bytes 4 x @ le_bytes 4 y"
| "verb_bytes ClosePath = [4]"

lemma appends_raw_Cons:
  "tw.appends op (raw a) \<Longrightarrow> tw.appends (chainE ops) (raw b) \<Longrightarrow> tw.appends (chainE (op # ops)) (raw (a @ b))"
  using tw.appends_Cons by simp

lemma appends_raw_last: "tw.appends op (raw a) \<Longrightarrow> tw.appends (chainE [op]) (raw a)"
  using appends_raw_Cons [of op a "[]" "[]"] tw.appends_Nil by simp

lemma appends_verb: "tw.appends (writeVerb v) (raw (verb_bytes v))"
  unfolding writeVerb_def
  by (cases v; simp only: verb.simps verb_bytes.simps)
    (rule appends_raw_last appends_raw_Cons appends_i32 appends_u8 [of 0, simplified] appends_u8 [of 1, simplified]
      appends_u8 [of 2, simplified] appends_u8 [of 3, simplified] appends_u8 [of 4, simplified])+

lemma reads_step:
  "rs.reads m ps x \<Longrightarrow> f x = g \<Longrightarrow> rs.reads g qs v \<Longrightarrow> rs.reads (rbind m f) (ps @ qs) v"
  by (rule rs.reads_bind [where x = x]) simp_all

lemma reads_last: "rs.reads m ps x \<Longrightarrow> f x = rret v \<Longrightarrow> rs.reads (rbind m f) ps v"
  using reads_step [of m ps x f "rret v" "[]" v] by (simp add: rs.reads_ret)

lemma reads_i32: "is_i32 v \<Longrightarrow> rs.reads rs_i32 (raw (le_bytes 4 v)) v"
  unfolding rs_i32_def
  by (rule rs.reads_map [OF reads_u32]) (use signed_small [of 31 v] in \<open>simp add: is_i32_def\<close>)

lemma reads_tag: "rs.reads rs_u8 (raw [word_of_int v]) (v mod 256)"
  by (rule reads_u8)

fun in_verb :: "verb \<Rightarrow> bool" where
  "in_verb (MoveTo x y) = (is_i32 x \<and> is_i32 y)"
| "in_verb (LineTo x y) = (is_i32 x \<and> is_i32 y)"
| "in_verb (QuadTo a b x y) = (is_i32 a \<and> is_i32 b \<and> is_i32 x \<and> is_i32 y)"
| "in_verb (CubicTo a b c d x y) = (is_i32 a \<and> is_i32 b \<and> is_i32 c \<and> is_i32 d \<and> is_i32 x \<and> is_i32 y)"
| "in_verb ClosePath = True"

lemma reads_verb:
  assumes "in_verb v" shows "rs.reads read_verb (raw (verb_bytes v)) v"
proof (cases v)
  case (MoveTo x y)
  show ?thesis using assms unfolding read_verb_def MoveTo verb_bytes.simps raw_append
    by - (rule reads_step [OF reads_tag [of 0, simplified]], simp,
          (rule rs.reads_bind reads_last reads_i32 | simp)+)
next
  case (LineTo x y)
  show ?thesis using assms unfolding read_verb_def LineTo verb_bytes.simps raw_append
    by - (rule reads_step [OF reads_tag [of 1, simplified]], simp,
          (rule rs.reads_bind reads_last reads_i32 | simp)+)
next
  case (QuadTo a b x y)
  show ?thesis using assms unfolding read_verb_def QuadTo verb_bytes.simps raw_append
    by - (rule reads_step [OF reads_tag [of 2, simplified]], simp,
          (rule rs.reads_bind reads_last reads_i32 | simp)+)
next
  case (CubicTo a b c d x y)
  show ?thesis using assms unfolding read_verb_def CubicTo verb_bytes.simps raw_append
    by - (rule reads_step [OF reads_tag [of 3, simplified]], simp,
          (rule rs.reads_bind reads_last reads_i32 | simp)+)
next
  case ClosePath
  show ?thesis unfolding read_verb_def ClosePath verb_bytes.simps
    by (rule reads_last [OF reads_tag [of 4, simplified]]) simp
qed

lemma verbs_loop_bytes:
  "addressable data \<Longrightarrow> list_all in_verb vs \<Longrightarrow> laid data p (raw (concat (map verb_bytes vs))) \<Longrightarrow>
   p + length (concat (map verb_bytes vs)) = length data \<Longrightarrow> verbs_loop data p = Inr vs"
proof (induction vs arbitrary: p)
  case Nil
  then show ?case by (subst verbs_loop.simps) simp
next
  case (Cons v vs)
  have laid: "laid data p (raw (verb_bytes v))"
    "laid data (p + length (verb_bytes v)) (raw (concat (map verb_bytes vs)))"
    using Cons.prems(3) by (simp_all add: laid_append)
  have "read_verb data p = Inr (v, p + length (verb_bytes v))"
    using rs.readsD [OF reads_verb Cons.prems(1) laid(1)] Cons.prems(2) by simp
  moreover have "p < length data"
    using Cons.prems(4) by (cases v) simp_all
  moreover have "verbs_loop data (p + length (verb_bytes v)) = Inr vs"
    using Cons.IH [OF Cons.prems(1) _ laid(2)] Cons.prems(2,4) by (simp add: add.assoc)
  ultimately show ?case by (simp add: verbs_loop.simps [of data p])
qed

lemma addressable_sub:
  "off + length bs \<le> length data \<Longrightarrow> addressable data \<Longrightarrow> addressable bs"
  by (simp add: addressable_def)

lemma laid_whole: "laid bs 0 (raw bs)"
  by (simp add: laid_raw)

lemma verbs_blob: "writeVerbsBlob vs = deferredBlob (concat (map verb_bytes vs))"
proof -
  have "tw.appends (chainE (map writeVerb vs)) (concat (map (\<lambda>v. raw (verb_bytes v)) vs))"
    by (rule tw.appends_map [OF appends_verb])
  moreover have "concat (map (\<lambda>v. raw (verb_bytes v)) vs) = raw (concat (map verb_bytes vs))"
    by (induction vs) simp_all
  ultimately show ?thesis
    unfolding writeVerbsBlob_def [abs_def] by (intro blob_of_subwriter) simp
qed

lemma codes_verbs:
  assumes "list_all in_verb vs" shows "fw.codes (writeVerbsBlob vs) read_verbs vs"
  unfolding verbs_blob
proof (rule fw.codesI [OF appends_blob rs.readsI])
  let ?bs = "concat (map verb_bytes vs)"
  fix data p assume d: "addressable data" "laid data p [Blob ?bs]"
  obtain off where o: "rs_u32 data p = Inr (int off, p + 4)"
    "rs_u32 data (p + 4) = Inr (int (length ?bs), p + 8)"
    "sub_slice data (int off) (int (length ?bs)) = Inr ?bs" "off + length ?bs \<le> length data"
    using blob_words [OF d] by blast
  have "verbs_loop ?bs 0 = Inr vs"
    by (rule verbs_loop_bytes [OF addressable_sub [OF o(4) d(1)] assms laid_whole]) simp
  with o(1-3) show "read_verbs data p = Inr (vs, p + pieces_width [Blob ?bs])"
    by (simp add: read_verbs_def rbind_def)
qed

section \<open>Kinds and options\<close>

fun in_kind :: "stroke entity_kind \<Rightarrow> bool" where
  "in_kind (Photo f i t) = (is_u32 i \<and> in_opt in_color t)"
| "in_kind (Glyph f i t) = (is_u32 i \<and> in_opt in_color t)"
| "in_kind (VectorKind vs f s c) = (list_all in_verb vs \<and> in_opt in_stroke s \<and> in_color c)"
| "in_kind (FlatKind c) = in_color c"
| "in_kind (BoxKind f s c) = (in_opt in_stroke s \<and> in_color c)"
| "in_kind EmptyKind = True"

definition host_kind :: "stroke entity_kind \<Rightarrow> r_stroke entity_kind" where
  "host_kind = map_entity_kind host_stroke"

lemma codes_format: "fw.codes (w_u8 (format_code f)) read_format f"
  unfolding read_format_def by (cases f; rule fw.codes_one [OF codes_u8]) (simp_all add: is_u8_def)

lemma codes_alpha: "fw.codes (w_u8 (alpha_code f)) read_alpha f"
  unfolding read_alpha_def by (cases f; rule fw.codes_one [OF codes_u8]) (simp_all add: is_u8_def)

lemma codes_sample: "fw.codes (w_u8 (sample_code f)) read_sample f"
  unfolding read_sample_def by (cases f; rule fw.codes_one [OF codes_u8]) (simp_all add: is_u8_def)

lemmas field_walk = codes_tag codes_verbs codes_opt_fill codes_opt_stroke codes_color codes_opt_color
  codes_format fw.codes_chain codes_u32 fw.codes_end

lemma codes_single: "fw.codes op rd v \<Longrightarrow> fw.codes (chainE [op]) rd v"
proof -
  have "chainE [op] = op" by (rule ext) simp
  then show "fw.codes op rd v \<Longrightarrow> ?thesis" by simp
qed

lemma codes_kind:
  assumes "in_kind k" shows "fw.codes (writeKind k) read_kind (host_kind k)"
proof (cases k)
  case (Photo f i t)
  show ?thesis using assms unfolding writeKind_def read_kind_def host_kind_def Photo entity_kind.simps entity_code.simps
    by - (rule codes_tag, simp, simp, simp, rule codes_single,
      (rule fw.codes_chain codes_format codes_u32 codes_opt_color fw.codes_end | simp)+)
next
  case (Glyph f i t)
  show ?thesis using assms unfolding writeKind_def read_kind_def host_kind_def Glyph entity_kind.simps entity_code.simps
    by - (rule codes_tag, simp, simp, simp, rule codes_single,
      (rule fw.codes_chain codes_format codes_u32 codes_opt_color fw.codes_end | simp)+)
next
  case (VectorKind vs f s c)
  show ?thesis using assms unfolding writeKind_def read_kind_def host_kind_def VectorKind entity_kind.simps entity_code.simps
    by - (rule codes_tag, simp, simp, simp, rule codes_single,
      (rule fw.codes_chain codes_verbs codes_opt_fill codes_opt_stroke codes_color fw.codes_end | simp)+)
next
  case (FlatKind c)
  show ?thesis using assms unfolding writeKind_def read_kind_def host_kind_def FlatKind entity_kind.simps entity_code.simps
    by - (rule codes_tag, simp, simp, simp, rule codes_single, rule fw.codes_one, rule codes_color, simp_all)
next
  case (BoxKind f s c)
  show ?thesis using assms unfolding writeKind_def read_kind_def host_kind_def BoxKind entity_kind.simps entity_code.simps
    by - (rule codes_tag, simp, simp, simp, rule codes_single,
      (rule fw.codes_chain codes_opt_fill codes_opt_stroke codes_color fw.codes_end | simp)+)
next
  case EmptyKind
  show ?thesis unfolding writeKind_def read_kind_def host_kind_def EmptyKind entity_kind.simps entity_code.simps
    by (rule codes_tag, simp, simp, simp, rule fw.codes_done)
qed

lemma in_opt_mono: "in_opt P x \<Longrightarrow> (\<And>v. P v \<Longrightarrow> Q v) \<Longrightarrow> in_opt Q x"
  by (cases x) simp_all

fun in_i8_pair :: "xy \<Rightarrow> bool" where "in_i8_pair p = (is_i8 (xy_x p) \<and> is_i8 (xy_y p))"
fun in_i32_pair :: "xy \<Rightarrow> bool" where "in_i32_pair p = (is_i32 (xy_x p) \<and> is_i32 (xy_y p))"

lemma codes_align: "in_i8_pair a \<Longrightarrow> fw.codes (writeAlign a) read_align a"
  unfolding writeAlign_def read_align_def by (rule fw.codes_chain codes_i8 fw.codes_end | simp)+

lemma codes_point: "in_i32_pair a \<Longrightarrow> fw.codes (writePoint a) read_point a"
  unfolding writePoint_def read_point_def by (rule fw.codes_chain codes_i32 fw.codes_end | simp)+

fun in_style :: "debug_grid_style \<Rightarrow> bool" where
  "in_style s = (in_color (base_color s) \<and> in_color (tip_color s) \<and> in_opt in_color (label_base s) \<and>
     in_opt in_color (label_tip s) \<and> is_u8 (label_alpha s) \<and> is_u8 (label_scale s))"

lemma codes_style: "in_style s \<Longrightarrow> fw.codes (writeDebugStyle s) read_debug_style s"
  unfolding writeDebugStyle_def read_debug_style_def
  by (rule fw.codes_chain codes_color codes_opt_color codes_u8 fw.codes_end | simp)+

lemma utf8_dec_scalars: "list_all is_scalar cs \<Longrightarrow>
   utf8_dec 0 0 0x80 0xBF (map unat (concat (map utf8_scalar cs))) = cs"
  by (induction cs) (simp_all add: utf8_dec_scalar)

lemma from_utf8_encode: "is_js_string s \<Longrightarrow> from_utf8 (utf8_encode s) = Some (scalar_values s)"
  by (simp add: from_utf8_def Let_def utf8_encode_def utf8_dec_scalars scalar_values_ok)

lemma codes_text: "is_js_string s \<Longrightarrow> fw.codes (deferredBlob (utf8_encode s)) read_text (scalar_values s)"
proof -
  assume s: "is_js_string s"
  obtain ps where "tw.appends (deferredBlob (utf8_encode s)) ps" "rs.reads read_blob ps (utf8_encode s)"
    using codes_blob [of "utf8_encode s"] by (auto simp: fw.codes_def)
  moreover from this(2) s have "rs.reads read_text ps (scalar_values s)"
    by (simp add: rs.reads_def read_text_def from_utf8_encode)
  ultimately show ?thesis by (blast intro: fw.codesI)
qed

end
