(* ===== verification/Fgce_Calls.thy ===== *)
theory Fgce_Calls
  imports Fgce_Roundtrip
begin

text \<open>
  The requests of the engine facade (\<open>products/fgce/bindings/ts/src/engine.ts\<close>) as one datatype, the
  encoder each of them calls, and what the host adapter decodes from the result.
\<close>

section \<open>Calls of the facade\<close>

text \<open>A call carries the arguments of the method; omitted options are records of \<open>None\<close>.\<close>

datatype call =
    DoInfo
  | DoGrid int
  | DoLength int int
  | DoLattice int int int int int
  | DoEdgePx edge int
  | DoMeasure "verb list" "fill option" "stroke option"
  | DoBegin int int
  | DoEnd
  | DoReadPixels rect alpha_mode
  | DoUpload int int int int pixel_format alpha_mode bytes
  | DoDropImage int
  | DoFillRect rect color "blend option" "radius option"
  | DoDrawTree
  | DoStrokeRoundRect rect "radius option" stroke color "blend option"
  | DoFillLattice rect int "int option" color color "blend option"
  | DoDebugGrid "debug_grid_style option"
  | DoDebugHover "xy option"
  | DoDebugLabel int "js_string option"
  | DoEntityCall int "stroke entity_kind" edges entity_options
  | DoGroupCall int int "int list" box_options
  | DoArbitraryCall int int edges "int list" entity_options box_options
  | DoShow int rect
  | DoPlace int rect
  | DoRemove int
  | DoSnapshotCall
  | DoDefineReference int int int int int xy int int
  | DoUseReference int
  | DoClipPush rect
  | DoClipPop
  | DoBlit int rect rect sample "color option" "blend option" "radius option"
  | DoFillPath "verb list" fill_rule color "blend option"
  | DoStrokePath "verb list" stroke color "blend option"

fun request_of :: "call \<Rightarrow> fgce_failure + bytes" where
  "request_of DoInfo = encodeInfo"
| "request_of (DoGrid a) = encodeGrid a"
| "request_of (DoLength a b) = encodeLength a b"
| "request_of (DoLattice a b c d e) = encodeLattice a b c d e"
| "request_of (DoEdgePx a b) = encodeEdgePx a b"
| "request_of (DoMeasure a b c) = encodeMeasure a b c"
| "request_of (DoBegin a b) = encodeBegin a b"
| "request_of DoEnd = encodeEnd"
| "request_of (DoReadPixels a b) = encodeReadPixels a b"
| "request_of (DoUpload a b c d e f g) = encodeUpload a b c d e f g"
| "request_of (DoDropImage a) = encodeDrop a"
| "request_of (DoFillRect a b c d) = encodeFillRect a b c d"
| "request_of DoDrawTree = encodeDrawTree"
| "request_of (DoStrokeRoundRect a b c d e) = encodeStrokeRoundRect a b c d e"
| "request_of (DoFillLattice a b c d e f) = encodeFillLattice a b c d e f"
| "request_of (DoDebugGrid a) = encodeDebugGrid a"
| "request_of (DoDebugHover a) = encodeDebugHover a"
| "request_of (DoDebugLabel a b) = encodeDebugLabel a b"
| "request_of (DoEntityCall a b c d) = encodeEntity a b c d"
| "request_of (DoGroupCall a b c d) = encodeGroup a b c d"
| "request_of (DoArbitraryCall a b c d e f) = encodeArbitrary a b c d e f"
| "request_of (DoShow a b) = encodeShow a b"
| "request_of (DoPlace a b) = encodePlace a b"
| "request_of (DoRemove a) = encodeRemove a"
| "request_of DoSnapshotCall = encodeSnapshot"
| "request_of (DoDefineReference a b c d e f g h) = encodeDefineReference a b c d e f g h"
| "request_of (DoUseReference a) = encodeUseReference a"
| "request_of (DoClipPush a) = encodeClipPush a"
| "request_of DoClipPop = encodeClipPop"
| "request_of (DoBlit a b c d e f g) = encodeBlit a b c d e f g"
| "request_of (DoFillPath a b c d) = encodeFillPath a b c d"
| "request_of (DoStrokePath a b c d) = encodeStrokePath a b c d"

section \<open>What the host sees\<close>

fun in_entity_options :: "entity_options \<Rightarrow> bool" where
  "in_entity_options opts = (in_opt in_i8_pair (opt_align opts) \<and> in_opt in_radius (opt_radius opts))"

fun in_box_options :: "box_options \<Rightarrow> bool" where
  "in_box_options opts = (in_opt in_i8_pair (opt_pin opts) \<and> in_opt in_inset (opt_inset opts))"

definition no_edges :: edges where
  "no_edges = \<lparr>ex1 = PixelEdge 0, ey1 = PixelEdge 0, ex2 = PixelEdge 0, ey2 = PixelEdge 0\<rparr>"

definition host_box ::
  "int \<Rightarrow> int \<Rightarrow> int list \<Rightarrow> edges \<Rightarrow> bool option \<Rightarrow> box_options \<Rightarrow> box_owned" where
  "host_box oid parent children edges on_grid opts =
     \<lparr>b_id = oid, b_parent = parent, b_children = children,
      b_pin = (case opt_pin opts of None \<Rightarrow> \<lparr>xy_x = 0, xy_y = 0\<rparr> | Some p \<Rightarrow> p),
      b_snap = (case opt_snap opts of None \<Rightarrow> False | Some s \<Rightarrow> s),
      b_inset = opt_inset opts, b_on_grid = on_grid, b_edges = edges\<rparr>"

text \<open>The arguments fit the widths they have on the wire.\<close>

fun in_call :: "call \<Rightarrow> bool" where
  "in_call DoInfo = True"
| "in_call (DoGrid a) = (is_u32 a)"
| "in_call (DoLength a b) = (is_u32 a \<and> is_u32 b)"
| "in_call (DoLattice a b c d e) = (is_u32 a \<and> is_u32 b \<and> is_u32 c \<and> is_i8 d \<and> is_i8 e)"
| "in_call (DoEdgePx a b) = (in_edge a \<and> is_u32 b)"
| "in_call (DoMeasure a _ c) = (list_all in_verb a \<and> in_opt in_stroke c)"
| "in_call (DoBegin a b) = (is_u32 a \<and> is_u32 b)"
| "in_call DoEnd = True"
| "in_call (DoReadPixels a _) = (in_rect a)"
| "in_call (DoUpload a b c d _ _ _) = (is_u32 a \<and> is_u32 b \<and> is_u32 c \<and> is_u32 d)"
| "in_call (DoDropImage a) = (is_u32 a)"
| "in_call (DoFillRect a b _ d) = (in_rect a \<and> in_color b \<and> in_opt in_radius d)"
| "in_call DoDrawTree = True"
| "in_call (DoStrokeRoundRect a b c d _) = (in_rect a \<and> in_opt in_radius b \<and> in_stroke c \<and> in_color d)"
| "in_call (DoFillLattice a b c d e _) = (in_rect a \<and> is_u32 b \<and> in_opt is_u32 c \<and> in_color d \<and> in_color e)"
| "in_call (DoDebugGrid a) = (in_opt in_style a)"
| "in_call (DoDebugHover a) = (in_opt in_i32_pair a)"
| "in_call (DoDebugLabel a b) = (is_u32 a \<and> in_opt is_js_string b)"
| "in_call (DoEntityCall a b c d) = (is_u32 a \<and> in_kind b \<and> in_edges c \<and> in_entity_options d)"
| "in_call (DoGroupCall a b c d) = (is_u32 a \<and> is_u32 b \<and> in_box_options d)"
| "in_call (DoArbitraryCall a b c d _ f) = (is_u32 a \<and> is_u32 b \<and> in_edges c \<and> in_box_options f)"
| "in_call (DoShow a b) = (is_u32 a \<and> in_rect b)"
| "in_call (DoPlace a b) = (is_u32 a \<and> in_rect b)"
| "in_call (DoRemove a) = (is_u32 a)"
| "in_call DoSnapshotCall = True"
| "in_call (DoDefineReference a b c d e f g h) = (is_u32 a \<and> is_u32 b \<and> is_u32 c \<and> is_u32 d \<and> is_u32 e \<and> in_i8_pair f \<and> is_u32 g \<and> is_u32 h)"
| "in_call (DoUseReference a) = (is_u32 a)"
| "in_call (DoClipPush a) = (in_rect a)"
| "in_call DoClipPop = True"
| "in_call (DoBlit a b c _ e _ g) = (is_u32 a \<and> in_rect b \<and> in_rect c \<and> in_opt in_color e \<and> in_opt in_radius g)"
| "in_call (DoFillPath a _ c _) = (list_all in_verb a \<and> in_color c)"
| "in_call (DoStrokePath a b c _) = (list_all in_verb a \<and> in_stroke b \<and> in_color c)"

fun childless :: "call \<Rightarrow> bool" where
  "childless (DoGroupCall a b c d) \<longleftrightarrow> c = []"
| "childless (DoArbitraryCall a b c d e f) \<longleftrightarrow> d = []"
| "childless c \<longleftrightarrow> True"

text \<open>
  The request that the adapter decodes from a call without children: every argument of the method, an
  omitted option as such or at its default (the light peak, the pin 0, no snapping), a text as scalar values. Of the
  options of an entity an arbitrary box keeps only \<open>onGrid\<close>: \<open>encodeArbitrary\<close> writes neither alignment, blend
  nor radius.
\<close>

fun host_call :: "call \<Rightarrow> decoded" where
  "host_call DoInfo = DInfo"
| "host_call (DoGrid a) = DGrid a"
| "host_call (DoLength a b) = DLength a b"
| "host_call (DoLattice a b c d e) = DLattice a b c d e"
| "host_call (DoEdgePx a b) = DEdgePx a b"
| "host_call (DoMeasure a b c) = DMeasure a b (map_option host_stroke c)"
| "host_call (DoBegin a b) = DBegin a b"
| "host_call DoEnd = DEnd"
| "host_call (DoReadPixels a b) = DReadPixels a b"
| "host_call (DoUpload a b c d e f g) = DUpload a b c d e f g"
| "host_call (DoDropImage a) = DDrop a"
| "host_call (DoFillRect a b c d) = DFillRect a b c d"
| "host_call DoDrawTree = DDrawTree"
| "host_call (DoStrokeRoundRect a b c d e) = DStrokeRoundRect a b (host_stroke c) d e"
| "host_call (DoFillLattice a b c d e f) = DFillLattice a b c d e f"
| "host_call (DoDebugGrid a) = DDebugGrid a"
| "host_call (DoDebugHover a) = DDebugHover a"
| "host_call (DoDebugLabel a b) = DDebugLabel a (map_option scalar_values b)"
| "host_call (DoEntityCall a b c d) = DEntity \<lparr>e_id = a, e_kind = host_kind b, e_on_grid = opt_onGrid d, e_edges = c, e_align = opt_align d, e_blend = opt_blend d, e_radius = opt_radius d\<rparr>"
| "host_call (DoGroupCall a b c d) = DGroup (host_box a b [] no_edges None d)"
| "host_call (DoArbitraryCall a b c d e f) = DArbitrary (host_box a b [] c (opt_onGrid e) f)"
| "host_call (DoShow a b) = DShow a b"
| "host_call (DoPlace a b) = DPlace a b"
| "host_call (DoRemove a) = DRemove a"
| "host_call DoSnapshotCall = DSnapshot"
| "host_call (DoDefineReference a b c d e f g h) = DDefineReference a b c d e f g h"
| "host_call (DoUseReference a) = DUseReference a"
| "host_call (DoClipPush a) = DClipPush a"
| "host_call DoClipPop = DClipPop"
| "host_call (DoBlit a b c d e f g) = DBlit a b c d e f g"
| "host_call (DoFillPath a b c d) = DFillPath a b c d"
| "host_call (DoStrokePath a b c d) = DStrokePath a (host_stroke b) c d"

section \<open>Round trip\<close>

text \<open>A request is \<open>sent\<close> as a value when the host adapter decodes exactly that value from it.\<close>

definition sent :: "fgce_failure + bytes \<Rightarrow> decoded \<Rightarrow> bool" where
  "sent m d \<longleftrightarrow> (\<forall>bs. m = Inr bs \<longrightarrow> length bs < 2 ^ 32 \<longrightarrow> decode_request bs = Inr d)"

lemma sent_writer:
  assumes "fw.codes (chainE ops) decode_reader d" shows "sent (with_writer n ops) d"
  unfolding sent_def
proof (intro allI impI)
  fix bs assume bs: "with_writer n ops = Inr bs" "length bs < 2 ^ 32"
  obtain ps where ps: "tw.appends (chainE ops) ps" "rs.reads decode_reader ps d"
    using assms by (auto simp: fw.codes_def)
  then have "laid bs 0 ps" using with_writer_laid [OF ps(1), of n] bs(1) by auto
  moreover have "addressable bs" using bs(2) by (simp add: addressable_def)
  ultimately show "decode_request bs = Inr d"
    using rs.readsD [OF ps(2)] by (simp add: decode_request_def)
qed

lemmas opt_bool_field = codes_opt_field_same [of "\<lambda>_. True", OF in_opt_True codes_bool]
lemmas opt_align_field = codes_opt_field_same [of in_i8_pair, OF _ codes_align]

lemmas opt_style_field = codes_opt_field_same [of in_style, OF _ codes_style]
lemmas opt_point_field = codes_opt_field_same [of in_i32_pair, OF _ codes_point]
lemmas opt_text_field = codes_opt_field [of is_js_string, OF _ codes_text]

lemma codes_rule: "fw.codes (w_u8 (rule_code r)) (rbind read_fill (\<lambda>f. rret (f_rule f))) r"
proof (rule fw.codes_one)
  show "fw.codes (w_u8 (rule_code r)) read_fill \<lparr>f_rule = r\<rparr>"
    using codes_fill [of "\<lparr>f_rule = r\<rparr>"] by (simp add: writeFill_def)
  show "rret (f_rule \<lparr>f_rule = r\<rparr>) = rret r" by (simp only: fill.select_convs)
qed

lemma pin_field:
  "in_i8_pair p \<Longrightarrow> fw.codes (chainE ops) (k p) v \<Longrightarrow>
   fw.codes (chainE (w_i8 (xy_x p) # w_i8 (xy_y p) # ops)) (rbind read_align k) v"
  by (rule fw.codes_nest [where x = p and k = k])
    (use codes_align [of p] in \<open>simp_all only: writeAlign_def\<close>)

lemma codes_bytes: "fw.codes (writeBytesBlob bs) read_blob bs"
  unfolding writeBytesBlob_def by (rule codes_blob)

lemmas call_walk = opt_u32_field opt_bool_field opt_align_field opt_style_field opt_point_field
  opt_text_field pin_field codes_rule codes_bytes fw.codes_chain
  codes_u32 codes_i8 codes_bool codes_rect codes_color codes_opt_color
  codes_opt_blend codes_opt_radius codes_edge codes_edges codes_stroke codes_opt_stroke
  codes_opt_fill codes_verbs codes_alpha codes_format codes_sample codes_kind codes_blob
  codes_inset codes_align codes_point codes_style codes_text fw.codes_end

lemma sent_Info: "sent encodeInfo (DInfo)"
  unfolding encodeInfo_def
  by (rule sent_writer, unfold decode_reader_def, rule codes_tag, simp, simp, simp, (rule call_walk | simp)+)

lemma sent_Grid: "is_u32 a \<Longrightarrow> sent (encodeGrid a) (DGrid a)"
  unfolding encodeGrid_def
  by (rule sent_writer, unfold decode_reader_def, rule codes_tag, simp, simp, simp, (rule call_walk | simp)+)

lemma sent_Length: "is_u32 a \<Longrightarrow> is_u32 b \<Longrightarrow> sent (encodeLength a b) (DLength a b)"
  unfolding encodeLength_def
  by (rule sent_writer, unfold decode_reader_def, rule codes_tag, simp, simp, simp, (rule call_walk | simp)+)

lemma sent_Lattice: "is_u32 a \<Longrightarrow> is_u32 b \<Longrightarrow> is_u32 c \<Longrightarrow> is_i8 d \<Longrightarrow> is_i8 e \<Longrightarrow> sent (encodeLattice a b c d e) (DLattice a b c d e)"
  unfolding encodeLattice_def
  by (rule sent_writer, unfold decode_reader_def, rule codes_tag, simp, simp, simp, (rule call_walk | simp)+)

lemma sent_EdgePx: "in_edge a \<Longrightarrow> is_u32 b \<Longrightarrow> sent (encodeEdgePx a b) (DEdgePx a b)"
  unfolding encodeEdgePx_def
  by (rule sent_writer, unfold decode_reader_def, rule codes_tag, simp, simp, simp, (rule call_walk | simp)+)

lemma sent_Measure: "list_all in_verb a \<Longrightarrow> in_opt in_stroke c \<Longrightarrow> sent (encodeMeasure a b c) (DMeasure a b (map_option host_stroke c))"
  unfolding encodeMeasure_def
  by (rule sent_writer, unfold decode_reader_def, rule codes_tag, simp, simp, simp, (rule call_walk | simp)+)

lemma sent_Begin: "is_u32 a \<Longrightarrow> is_u32 b \<Longrightarrow> sent (encodeBegin a b) (DBegin a b)"
  unfolding encodeBegin_def
  by (rule sent_writer, unfold decode_reader_def, rule codes_tag, simp, simp, simp, (rule call_walk | simp)+)

lemma sent_End: "sent encodeEnd (DEnd)"
  unfolding encodeEnd_def
  by (rule sent_writer, unfold decode_reader_def, rule codes_tag, simp, simp, simp, (rule call_walk | simp)+)

lemma sent_ReadPixels: "in_rect a \<Longrightarrow> sent (encodeReadPixels a b) (DReadPixels a b)"
  unfolding encodeReadPixels_def
  by (rule sent_writer, unfold decode_reader_def, rule codes_tag, simp, simp, simp, (rule call_walk | simp)+)

lemma sent_Upload: "is_u32 a \<Longrightarrow> is_u32 b \<Longrightarrow> is_u32 c \<Longrightarrow> is_u32 d \<Longrightarrow> sent (encodeUpload a b c d e f g) (DUpload a b c d e f g)"
  unfolding encodeUpload_def
  by (rule sent_writer, unfold decode_reader_def, rule codes_tag, simp, simp, simp, (rule call_walk | simp)+)

lemma sent_DropImage: "is_u32 a \<Longrightarrow> sent (encodeDrop a) (DDrop a)"
  unfolding encodeDrop_def
  by (rule sent_writer, unfold decode_reader_def, rule codes_tag, simp, simp, simp, (rule call_walk | simp)+)

lemma sent_FillRect: "in_rect a \<Longrightarrow> in_color b \<Longrightarrow> in_opt in_radius d \<Longrightarrow> sent (encodeFillRect a b c d) (DFillRect a b c d)"
  unfolding encodeFillRect_def
  by (rule sent_writer, unfold decode_reader_def, rule codes_tag, simp, simp, simp, (rule call_walk | simp)+)

lemma sent_DrawTree: "sent encodeDrawTree (DDrawTree)"
  unfolding encodeDrawTree_def
  by (rule sent_writer, unfold decode_reader_def, rule codes_tag, simp, simp, simp, (rule call_walk | simp)+)

lemma sent_StrokeRoundRect: "in_rect a \<Longrightarrow> in_opt in_radius b \<Longrightarrow> in_stroke c \<Longrightarrow> in_color d \<Longrightarrow> sent (encodeStrokeRoundRect a b c d e) (DStrokeRoundRect a b (host_stroke c) d e)"
  unfolding encodeStrokeRoundRect_def
  by (rule sent_writer, unfold decode_reader_def, rule codes_tag, simp, simp, simp, (rule call_walk | simp)+)

lemma sent_FillLattice: "in_rect a \<Longrightarrow> is_u32 b \<Longrightarrow> in_opt is_u32 c \<Longrightarrow> in_color d \<Longrightarrow> in_color e \<Longrightarrow> sent (encodeFillLattice a b c d e f) (DFillLattice a b c d e f)"
  unfolding encodeFillLattice_def
  by (rule sent_writer, unfold decode_reader_def, rule codes_tag, simp, simp, simp, (rule call_walk | simp)+)

lemma sent_DebugGrid: "in_opt in_style a \<Longrightarrow> sent (encodeDebugGrid a) (DDebugGrid a)"
  unfolding encodeDebugGrid_def
  by (rule sent_writer, unfold decode_reader_def, rule codes_tag, simp, simp, simp, (rule call_walk | simp)+)

lemma sent_DebugHover: "in_opt in_i32_pair a \<Longrightarrow> sent (encodeDebugHover a) (DDebugHover a)"
  unfolding encodeDebugHover_def
  by (rule sent_writer, unfold decode_reader_def, rule codes_tag, simp, simp, simp, (rule call_walk | simp)+)

lemma sent_DebugLabel: "is_u32 a \<Longrightarrow> in_opt is_js_string b \<Longrightarrow> sent (encodeDebugLabel a b) (DDebugLabel a (map_option scalar_values b))"
  unfolding encodeDebugLabel_def
  by (rule sent_writer, unfold decode_reader_def, rule codes_tag, simp, simp, simp, (rule call_walk | simp)+)

lemma sent_Show: "is_u32 a \<Longrightarrow> in_rect b \<Longrightarrow> sent (encodeShow a b) (DShow a b)"
  unfolding encodeShow_def
  by (rule sent_writer, unfold decode_reader_def, rule codes_tag, simp, simp, simp, (rule call_walk | simp)+)

lemma sent_Place: "is_u32 a \<Longrightarrow> in_rect b \<Longrightarrow> sent (encodePlace a b) (DPlace a b)"
  unfolding encodePlace_def
  by (rule sent_writer, unfold decode_reader_def, rule codes_tag, simp, simp, simp, (rule call_walk | simp)+)

lemma sent_Remove: "is_u32 a \<Longrightarrow> sent (encodeRemove a) (DRemove a)"
  unfolding encodeRemove_def
  by (rule sent_writer, unfold decode_reader_def, rule codes_tag, simp, simp, simp, (rule call_walk | simp)+)

lemma sent_SnapshotCall: "sent encodeSnapshot (DSnapshot)"
  unfolding encodeSnapshot_def
  by (rule sent_writer, unfold decode_reader_def, rule codes_tag, simp, simp, simp, (rule call_walk | simp)+)

lemma sent_DefineReference: "is_u32 a \<Longrightarrow> is_u32 b \<Longrightarrow> is_u32 c \<Longrightarrow> is_u32 d \<Longrightarrow> is_u32 e \<Longrightarrow> in_i8_pair f \<Longrightarrow> is_u32 g \<Longrightarrow> is_u32 h \<Longrightarrow> sent (encodeDefineReference a b c d e f g h) (DDefineReference a b c d e f g h)"
  unfolding encodeDefineReference_def
  by (rule sent_writer, unfold decode_reader_def, rule codes_tag, simp, simp, simp, (rule call_walk | simp)+)

lemma sent_UseReference: "is_u32 a \<Longrightarrow> sent (encodeUseReference a) (DUseReference a)"
  unfolding encodeUseReference_def
  by (rule sent_writer, unfold decode_reader_def, rule codes_tag, simp, simp, simp, (rule call_walk | simp)+)

lemma sent_ClipPush: "in_rect a \<Longrightarrow> sent (encodeClipPush a) (DClipPush a)"
  unfolding encodeClipPush_def
  by (rule sent_writer, unfold decode_reader_def, rule codes_tag, simp, simp, simp, (rule call_walk | simp)+)

lemma sent_ClipPop: "sent encodeClipPop (DClipPop)"
  unfolding encodeClipPop_def
  by (rule sent_writer, unfold decode_reader_def, rule codes_tag, simp, simp, simp, (rule call_walk | simp)+)

lemma sent_Blit: "is_u32 a \<Longrightarrow> in_rect b \<Longrightarrow> in_rect c \<Longrightarrow> in_opt in_color e \<Longrightarrow> in_opt in_radius g \<Longrightarrow> sent (encodeBlit a b c d e f g) (DBlit a b c d e f g)"
  unfolding encodeBlit_def
  by (rule sent_writer, unfold decode_reader_def, rule codes_tag, simp, simp, simp, (rule call_walk | simp)+)

lemma sent_FillPath: "list_all in_verb a \<Longrightarrow> in_color c \<Longrightarrow> sent (encodeFillPath a b c d) (DFillPath a b c d)"
  unfolding encodeFillPath_def
  by (rule sent_writer, unfold decode_reader_def, rule codes_tag, simp, simp, simp, (rule call_walk | simp)+)

lemma sent_StrokePath: "list_all in_verb a \<Longrightarrow> in_stroke b \<Longrightarrow> in_color c \<Longrightarrow> sent (encodeStrokePath a b c d) (DStrokePath a (host_stroke b) c d)"
  unfolding encodeStrokePath_def
  by (rule sent_writer, unfold decode_reader_def, rule codes_tag, simp, simp, simp, (rule call_walk | simp)+)

lemma sent_Entity:
  "is_u32 a \<Longrightarrow> in_kind b \<Longrightarrow> in_edges c \<Longrightarrow> in_entity_options d \<Longrightarrow>
   sent (encodeEntity a b c d)
     (DEntity \<lparr>e_id = a, e_kind = host_kind b, e_on_grid = opt_onGrid d, e_edges = c,
               e_align = opt_align d, e_blend = opt_blend d, e_radius = opt_radius d\<rparr>)"
  unfolding encodeEntity_def in_entity_options.simps
  by (rule sent_writer, unfold decode_reader_def, rule codes_tag, simp, simp, simp, (rule call_walk | simp)+)

text \<open>An empty child list is the one list whose byte length is also its number of ids.\<close>

definition child_bytes :: "int list \<Rightarrow> bytes" where
  "child_bytes cs = concat (map (le_bytes 4) cs)"

lemma length_child_bytes: "length (child_bytes cs) = 4 * length cs"
  by (induction cs) (simp_all add: child_bytes_def)

lemma children_blob: "writeChildrenBlob cs = deferredBlob (child_bytes cs)"
proof -
  have "tw.appends (chainE (map w_u32 cs)) (concat (map (\<lambda>c. raw (le_bytes 4 c)) cs))"
    by (rule tw.appends_map [OF appends_u32])
  moreover have "concat (map (\<lambda>c. raw (le_bytes 4 c)) cs) = raw (child_bytes cs)"
    by (induction cs) (simp_all add: child_bytes_def)
  ultimately show ?thesis
    unfolding writeChildrenBlob_def [abs_def] by (intro blob_of_subwriter) simp
qed

lemma codes_no_children: "fw.codes (writeChildrenBlob []) read_children []"
  unfolding children_blob
proof (rule fw.codesI [OF appends_blob rs.readsI])
  fix data p assume d: "addressable data" "laid data p [Blob (child_bytes [])]"
  then show "read_children data p = Inr ([], p + pieces_width [Blob (child_bytes [])])"
    using blob_words [OF d] by (auto simp: read_children_def rbind_def child_bytes_def rret_def)
qed

lemma box_pin:
  "(case pin of None \<Rightarrow> 0 | Some p \<Rightarrow> xy_x p) = xy_x (case pin of None \<Rightarrow> \<lparr>xy_x = 0, xy_y = 0\<rparr> | Some p \<Rightarrow> p)"
  "(case pin of None \<Rightarrow> 0 | Some p \<Rightarrow> xy_y p) = xy_y (case pin of None \<Rightarrow> \<lparr>xy_x = 0, xy_y = 0\<rparr> | Some p \<Rightarrow> p)"
  by (simp_all split: option.split)

lemma pin_range: "in_opt in_i8_pair pin \<Longrightarrow> in_i8_pair (case pin of None \<Rightarrow> \<lparr>xy_x = 0, xy_y = 0\<rparr> | Some p \<Rightarrow> p)"
  by (cases pin) (simp_all add: is_i8_def)

lemma box_tail:
  assumes "in_box_options o1"
    and "\<And>v. v = host_box oid parent cs es g o1 \<Longrightarrow> k v = rret w"
  shows "fw.codes (chainE [
        w_i8 (case opt_pin o1 of None \<Rightarrow> 0 | Some p \<Rightarrow> xy_x p),
        w_i8 (case opt_pin o1 of None \<Rightarrow> 0 | Some p \<Rightarrow> xy_y p),
        w_bool (case opt_snap o1 of None \<Rightarrow> False | Some s \<Rightarrow> s),
        writeOptionalInset (opt_inset o1)])
     (rbind read_align (\<lambda>pin. rbind rs_bool (\<lambda>snap. rbind read_inset (\<lambda>inset.
        k \<lparr>b_id = oid, b_parent = parent, b_children = cs, b_pin = pin, b_snap = snap,
           b_inset = inset, b_on_grid = g, b_edges = es\<rparr>)))) w"
proof -
  have "in_opt in_inset (opt_inset o1)" "in_opt in_i8_pair (opt_pin o1)" using assms(1) by simp_all
  then show ?thesis
    unfolding box_pin using assms(2)
    by - (rule pin_field, rule pin_range, assumption, rule fw.codes_chain, rule codes_bool,
          rule fw.codes_last, rule codes_inset, assumption, simp add: host_box_def)
qed

lemma sent_Group:
  "is_u32 a \<Longrightarrow> is_u32 b \<Longrightarrow> in_box_options d \<Longrightarrow>
   sent (encodeGroup a b [] d) (DGroup (host_box a b [] no_edges None d))"
  unfolding encodeGroup_def
  by (rule sent_writer, unfold decode_reader_def, rule codes_tag, simp, simp, simp,
      unfold read_box_def rbind_assoc if_False rbind_ret,
      rule fw.codes_chain, erule codes_u32, rule fw.codes_chain, erule codes_u32,
      rule fw.codes_chain, rule codes_no_children, rule box_tail, assumption)
    (simp add: no_edges_def)

lemma sent_Arbitrary:
  "is_u32 a \<Longrightarrow> is_u32 b \<Longrightarrow> in_edges c \<Longrightarrow> in_box_options f \<Longrightarrow>
   sent (encodeArbitrary a b c [] e f) (DArbitrary (host_box a b [] c (opt_onGrid e) f))"
  unfolding encodeArbitrary_def
  by (rule sent_writer, unfold decode_reader_def, rule codes_tag, simp, simp, simp,
      unfold read_box_def rbind_assoc if_True rbind_ret,
      rule fw.codes_chain, erule codes_u32, rule fw.codes_chain, erule codes_u32,
      rule opt_bool_field, rule fw.codes_chain, erule codes_edges,
      rule fw.codes_chain, rule codes_no_children, rule box_tail, assumption) simp

lemmas sent_calls = sent_Info sent_Grid sent_Length sent_Lattice sent_EdgePx
  sent_Measure sent_Begin sent_End sent_ReadPixels sent_Upload
  sent_DropImage sent_FillRect sent_DrawTree sent_StrokeRoundRect sent_FillLattice
  sent_DebugGrid sent_DebugHover sent_DebugLabel sent_Show sent_Place
  sent_Remove sent_SnapshotCall sent_DefineReference sent_UseReference sent_ClipPush
  sent_ClipPop sent_Blit sent_FillPath sent_StrokePath sent_Entity
  sent_Group sent_Arbitrary

section \<open>Encoding always returns\<close>

text \<open>Operations that append some pieces, whatever their argument is: no range is asked for.\<close>

definition fluent :: "writes \<Rightarrow> bool" where
  "fluent op \<longleftrightarrow> (\<exists>ps. tw.appends op ps)"

lemma fluentI: "tw.appends op ps \<Longrightarrow> fluent op"
  by (auto simp: fluent_def)

lemmas fluent_basic = fluentI [OF appends_u8] fluentI [OF appends_i8] fluentI [OF appends_u32]
  fluentI [OF appends_i32] fluentI [OF appends_bool] fluentI [OF appends_blob] fluentI [OF tw.appends_skip]

lemma fluent_Nil: "fluent (chainE [])"
  by (rule fluentI [OF tw.appends_Nil])

lemma fluent_Cons: "fluent op \<Longrightarrow> fluent (chainE ops) \<Longrightarrow> fluent (chainE (op # ops))"
  unfolding fluent_def using tw.appends_Cons by blast

lemma fluent_when: "(\<And>v. fluent (f v)) \<Longrightarrow> fluent (when_some x f)"
  by (cases x) (simp_all add: when_some_def fluent_basic)

lemmas fluent_intros = fluent_Nil fluent_Cons fluent_when fluent_basic

lemma fluent_fields:
  "fluent (writeRect r)" "fluent (writeColor c)" "fluent (writeOptionalColor oc)"
  "fluent (writeOptionalBlend ob)" "fluent (writeFill f)" "fluent (writeOptionalFill of1)"
  "fluent (writeAlign al)" "fluent (writePoint pt)" "fluent (writeBytesBlob bs)"
  unfolding writeRect_def writeColor_def writeOptionalColor_def writeOptionalBlend_def writeFill_def
    writeOptionalFill_def writeAlign_def writePoint_def writeBytesBlob_def
  by (intro fluent_intros)+

lemma fluent_edge: "fluent (writeEdge e)"
  unfolding writeEdge_def by (cases e; simp only: edge.simps; intro fluent_intros)

lemma fluent_radius: "fluent (writeRadius r)"
  unfolding writeRadius_def by (cases r; simp only: radius.simps; intro fluent_intros fluent_edge)

lemma fluent_stroke: "fluent (writeStroke s)"
  unfolding writeStroke_def
  by (cases "s_join s"; simp only: join.simps; intro fluent_intros)

lemma fluent_more:
  "fluent (writeOptionalRadius orad)" "fluent (writeEdges es)" "fluent (write_side sd)"
  "fluent (writeOptionalStroke os)" "fluent (writeDebugStyle st)"
  unfolding writeOptionalRadius_def writeEdges_def write_side_def writeOptionalStroke_def writeDebugStyle_def
  by (intro fluent_intros fluent_radius fluent_edge fluent_stroke fluent_fields)+

lemma fluent_inset: "fluent (writeOptionalInset i)"
proof -
  have "fluent (chainE (map write_side [left_side j, top_side j, right_side j, bottom_side j]))" for j
    unfolding list.map by (intro fluent_intros fluent_more)
  then show ?thesis
    unfolding writeOptionalInset_def by (intro fluent_intros) (simp only: chainE_def foldE_map)
qed

lemma fluent_verbs: "fluent (writeVerbsBlob vs)"
  by (simp only: verbs_blob fluent_basic)

lemma fluent_children: "fluent (writeChildrenBlob cs)"
  by (simp only: children_blob fluent_basic)

lemma fluent_kind: "fluent (writeKind k)"
  unfolding writeKind_def
  by (cases k; simp only: entity_kind.simps; intro fluent_intros fluent_fields fluent_more fluent_verbs)

lemma fluent_returns: "fluent (chainE ops) \<Longrightarrow> \<exists>bs. with_writer n ops = Inr bs"
  unfolding fluent_def using with_writer_laid by blast

lemmas fluent_all = fluent_intros fluent_fields fluent_edge fluent_radius fluent_stroke fluent_more
  fluent_inset fluent_verbs fluent_children fluent_kind

lemmas encoder_defs = encodeInfo_def encodeGrid_def encodeLength_def encodeLattice_def encodeEdgePx_def
  encodeMeasure_def encodeBegin_def encodeEnd_def encodeDrawTree_def encodeReadPixels_def
  encodeUpload_def encodeDrop_def encodeFillRect_def encodeStrokeRoundRect_def encodeEntity_def
  encodeGroup_def encodeArbitrary_def encodeShow_def encodePlace_def encodeRemove_def
  encodeSnapshot_def encodeDefineReference_def encodeUseReference_def encodeClipPush_def
  encodeClipPop_def encodeBlit_def encodeFillPath_def encodeFillLattice_def encodeStrokePath_def
  encodeDebugGrid_def encodeDebugHover_def encodeDebugLabel_def

lemma encoding_returns: "\<exists>bs. request_of c = Inr bs"
  by (cases c; simp only: request_of.simps encoder_defs; rule fluent_returns; intro fluent_all)

lemma tagged_nonempty:
  assumes "with_writer n (w_u8 tag # ops) = Inr bs" and "fluent (chainE ops)" shows "bs \<noteq> []"
proof -
  obtain ps where "tw.appends (chainE ops) ps" using assms(2) by (auto simp: fluent_def)
  then have "tw.appends (chainE (w_u8 tag # ops)) (raw [word_of_int tag] @ ps)" by (rule tw.appends_Cons [OF appends_u8])
  from with_writer_laid [OF this, of n] assms(1) have "length bs = total_size (raw [word_of_int tag] @ ps)" by auto
  then show ?thesis by (auto simp: total_size_def)
qed

lemma request_not_empty: "request_of c = Inr bs \<Longrightarrow> bs \<noteq> []"
  by (cases c; simp only: request_of.simps encoder_defs; erule tagged_nonempty; intro fluent_all)

text \<open>
  Encoding a request always ends with a buffer: for any arguments whatever no encoder throws a
  \<open>RangeError\<close>, and the doubling loop of the growing writer ends.
\<close>

theorem request_returns: "\<exists>bs. request_of c = Inr bs"
  by (rule encoding_returns)

section \<open>Children of a group\<close>

definition plain :: "writes \<Rightarrow> bool" where
  "plain op \<longleftrightarrow> (\<exists>bs. tw.appends op (raw bs))"

lemma plainI: "tw.appends op (raw bs) \<Longrightarrow> plain op"
  by (auto simp: plain_def)

lemma plain_skip: "plain Inr"
  using tw.appends_skip by (intro plainI [of _ "[]"]) simp

lemma plain_Nil: "plain (chainE [])"
  using tw.appends_Nil by (intro plainI [of _ "[]"]) simp

lemma plain_Cons: "plain op \<Longrightarrow> plain (chainE ops) \<Longrightarrow> plain (chainE (op # ops))"
  unfolding plain_def using appends_raw_Cons by blast

lemma plain_when: "(\<And>v. plain (f v)) \<Longrightarrow> plain (when_some x f)"
  by (cases x) (simp_all add: when_some_def plain_skip)

lemmas plain_intros = plain_Nil plain_Cons plain_when plainI [OF appends_u8] plainI [OF appends_i8]
  plainI [OF appends_u32] plainI [OF appends_i32] plainI [OF appends_bool] plain_skip

lemma plain_edge: "plain (writeEdge e)"
  unfolding writeEdge_def by (cases e; simp only: edge.simps; intro plain_intros)

lemma plain_side: "plain (write_side s)"
  unfolding write_side_def by (intro plain_intros plain_edge)

lemma plain_inset: "plain (writeOptionalInset i)"
proof -
  have "plain (chainE (map write_side [left_side j, top_side j, right_side j, bottom_side j]))" for j
    unfolding list.map by (intro plain_intros plain_side)
  then show ?thesis
    unfolding writeOptionalInset_def by (intro plain_intros) (simp only: chainE_def foldE_map)
qed

lemma blobs_of_group:
  "total_size (raw a @ [Blob bs] @ raw b) = pieces_width (raw a @ [Blob bs] @ raw b) + length bs"
  by (simp add: total_size_def blobs_append)

text \<open>The offset of the only blob of a request is the end of its fixed part.\<close>

lemma only_blob_last:
  assumes "laid_from (pieces_width (raw a @ [Blob bs] @ raw b)) data 0 (raw a @ [Blob bs] @ raw b)"
    and "length data = total_size (raw a @ [Blob bs] @ raw b)" and "addressable data"
  shows "\<exists>off. rs_u32 data (length a) = Inr (int off, length a + 4) \<and>
     rs_u32 data (length a + 4) = Inr (int (length bs), length a + 8) \<and>
     length data = off + length bs"
proof -
  let ?w = "pieces_width (raw a @ [Blob bs] @ raw b)"
  have "laid_from ?w data (length a) [Blob bs]"
    using assms(1) by (simp only: laid_append pieces_width_raw add_0)
  then obtain off where o: "?w \<le> off" "rs_u32 data (length a) = Inr (int off, length a + 4)"
    "rs_u32 data (length a + 4) = Inr (int (length bs), length a + 8)" "off + length bs \<le> length data"
    using blob_words [OF assms(3)] by blast
  moreover have "length data = ?w + length bs" using assms(2) blobs_of_group by simp
  ultimately show ?thesis by (intro exI [of _ off]) auto
qed

lemma laid_single_request: "with_writer n ops = Inr bs \<Longrightarrow> tw.appends (chainE ops) ps \<Longrightarrow>
  length bs = total_size ps \<and> laid_from (pieces_width ps) bs 0 ps"
  using with_writer_laid_from [of ops ps n] by auto

lemma read_children_short:
  assumes "rs_u32 data p = Inr (int off, p + 4)" "rs_u32 data (p + 4) = Inr (int (4 * n), p + 8)"
    and "length data = off + 4 * n" "0 < n" "0 < off" "addressable data"
  shows "read_children data p = Inl BufferLayout"
proof -
  have "length data < nat (int off) + nat (min (int (4 * n) * 4) (2 ^ 32 - 1)) \<or>
        2 ^ 32 \<le> nat (int off) + nat (min (int (4 * n) * 4) (2 ^ 32 - 1))"
    using assms(3-6) by (auto simp: min_def)
  then have "sub_slice data (int off) (min (int (4 * n) * 4) (2 ^ 32 - 1)) = Inl BufferLayout"
    by (auto simp: sub_slice_def Let_def)
  with assms(1,2) show ?thesis by (simp add: read_children_def rbind_def)
qed

text \<open>What an operation appends is determined, when it is bytes only.\<close>

lemma no_blobs_raw: "blobs p ps = [] \<Longrightarrow> ps = raw (concat (map slot ps))"
  by (induction p ps rule: blobs.induct) (simp_all add: raw_def)

lemma appends_raw_unique:
  assumes "tw.appends op (raw bs)" and "tw.appends op ps" shows "ps = raw bs"
proof -
  have h: "holds (fresh_writer 0) []" by (simp add: holds_def fresh_fgce_writer)
  obtain w where w: "op (fresh_writer 0) = Inr w" "holds w (raw bs)" using tw.appendsD [OF assms(1) h] by auto
  moreover have "holds w ps" using tw.appendsD [OF assms(2) h] w(1) by auto
  ultimately have "blobs 0 ps = []" "concat (map slot ps) = bs" by (auto simp: holds_def)
  then show ?thesis using no_blobs_raw by metis
qed

lemma plain_reads:
  assumes "plain op" and "fw.codes op rd v"
  obtains bs where "tw.appends op (raw bs)" "rs.reads rd (raw bs) v"
  using assms appends_raw_unique unfolding plain_def fw.codes_def by metis

lemma appends_chain_append:
  assumes "tw.appends (chainE xs) ps" and "tw.appends (chainE ys) qs"
  shows "tw.appends (chainE (xs @ ys)) (ps @ qs)"
proof -
  have e: "chainE (xs @ ys) s = bindE (chainE xs s) (chainE ys)" for s
  proof (induction xs arbitrary: s)
    case (Cons op xs)
    then show ?case by (cases "op s") simp_all
  qed simp
  have "chainE [f] = f" for f :: writes by (rule ext) simp
  then have "chainE (xs @ ys) = chainE [chainE xs, chainE ys]" by (intro ext) (simp add: e)
  then show ?thesis using tw.appends_pair [OF assms] by simp
qed

text \<open>
  A request with children after a head \<open>hs\<close> of plain bytes: the binding writes the byte length of the child list
  where the adapter reads the number of ids, so the adapter looks for four times as many bytes as the request holds.
\<close>

lemma children_too_short:
  assumes "plain (chainE hs)" and "fw.codes (chainE hs) rd v" and "plain (chainE ts)" and "children \<noteq> []"
    and "with_writer n (hs @ writeChildrenBlob children # ts) = Inr bs" and "length bs < 2 ^ 32"
  obtains q where "rd bs 0 = Inr (v, q)" "read_children bs q = Inl BufferLayout"
proof -
  let ?cb = "child_bytes children"
  obtain h where h: "tw.appends (chainE hs) (raw h)" "rs.reads rd (raw h) v" by (rule plain_reads [OF assms(1,2)])
  obtain r where r: "tw.appends (chainE ts) (raw r)" using assms(3) by (auto simp: plain_def)
  have "tw.appends (chainE (writeChildrenBlob children # ts)) ([Blob ?cb] @ raw r)"
    unfolding children_blob by (rule tw.appends_Cons [OF appends_blob r])
  then have app: "tw.appends (chainE (hs @ writeChildrenBlob children # ts)) (raw h @ [Blob ?cb] @ raw r)"
    by (rule appends_chain_append [OF h(1)])
  note bs = laid_single_request [OF assms(5) app]
  have ok: "addressable bs" using assms(6) by (simp add: addressable_def)
  have "laid bs 0 (raw h @ [Blob ?cb] @ raw r)" using laid_from_mono [OF bs[THEN conjunct2], of 0] by simp
  then have "laid bs 0 (raw h)" by (simp add: laid_append)
  then have rd: "rd bs 0 = Inr (v, length h)" using rs.readsD [OF h(2) ok] by simp
  obtain off where off: "rs_u32 bs (length h) = Inr (int off, length h + 4)"
      "rs_u32 bs (length h + 4) = Inr (int (length ?cb), length h + 8)" "length bs = off + length ?cb"
    using only_blob_last [OF _ _ ok] bs by blast
  have "off = pieces_width (raw h @ [Blob ?cb] @ raw r)" using bs off(3) blobs_of_group [of h ?cb r] by linarith
  then have "0 < off" by simp
  then have "read_children bs (length h) = Inl BufferLayout"
    using read_children_short [of bs "length h" off "length children"] off ok assms(4)
    by (simp add: length_child_bytes)
  with rd show ?thesis by (rule that)
qed

lemma box_tail_plain:
  "plain (chainE [w_i8 (case opt_pin o1 of None \<Rightarrow> 0 | Some p \<Rightarrow> xy_x p),
     w_i8 (case opt_pin o1 of None \<Rightarrow> 0 | Some p \<Rightarrow> xy_y p),
     w_bool (case opt_snap o1 of None \<Rightarrow> False | Some s \<Rightarrow> s), writeOptionalInset (opt_inset o1)])"
  by (intro plain_intros plain_inset)

lemma plain_edges: "plain (writeEdges e)"
  unfolding writeEdges_def by (intro plain_intros plain_edge)

lemma group_children_rejected:
  assumes "children \<noteq> []" and "is_u32 oid" and "is_u32 parent"
    and "encodeGroup oid parent children opts = Inr bs" and "length bs < 2 ^ 32"
  shows "decode_request bs = Inl BufferLayout"
proof -
  let ?hd = "[w_u8 14, w_u32 oid, w_u32 parent]"
  let ?rd = "rbind rs_u8 (\<lambda>t. rbind rs_u32 (\<lambda>a. rbind rs_u32 (\<lambda>b. rret (t, a, b))))"
  have "plain (chainE ?hd)" by (intro plain_intros)
  moreover have "fw.codes (chainE ?hd) ?rd (14, oid, parent)"
    by (rule codes_tag, simp, simp, simp, (rule call_walk | simp add: assms(2,3))+)
  ultimately obtain q where q: "?rd bs 0 = Inr ((14, oid, parent), q)" "read_children bs q = Inl BufferLayout"
    by (rule children_too_short [OF _ _ box_tail_plain assms(1) _ assms(5)])
      (use assms(4) in \<open>simp add: encodeGroup_def\<close>)
  from q(1) obtain p1 p2 where "rs_u8 bs 0 = Inr (14, p1)" "rs_u32 bs p1 = Inr (oid, p2)" "rs_u32 bs p2 = Inr (parent, q)"
    by (auto simp: rbind_def rret_def bindE_Inr_iff)
  with q(2) show ?thesis
    by (simp add: decode_request_def decode_reader_def read_box_def rbind_def rret_def)
qed

lemma arbitrary_children_rejected:
  assumes "children \<noteq> []" and "is_u32 oid" and "is_u32 parent" and "in_edges es"
    and "encodeArbitrary oid parent es children e1 o1 = Inr bs" and "length bs < 2 ^ 32"
  shows "decode_request bs = Inl BufferLayout"
proof -
  let ?g = "opt_onGrid e1"
  let ?hd = "[w_u8 15, w_u32 oid, w_u32 parent, w_bool (?g \<noteq> None), when_some ?g w_bool, writeEdges es]"
  let ?rd = "rbind rs_u8 (\<lambda>t. rbind rs_u32 (\<lambda>a. rbind rs_u32 (\<lambda>b. rbind (read_opt rs_bool) (\<lambda>g.
    rbind read_edges (\<lambda>es. rret (t, a, b, g, es))))))"
  have "plain (chainE ?hd)" by (intro plain_intros plain_edges)
  moreover have "fw.codes (chainE ?hd) ?rd (15, oid, parent, ?g, es)"
    by (rule codes_tag, simp, simp, simp, (rule call_walk | simp only: assms(2-4) | simp)+)
  ultimately obtain q where q: "?rd bs 0 = Inr ((15, oid, parent, ?g, es), q)" "read_children bs q = Inl BufferLayout"
    by (rule children_too_short [OF _ _ box_tail_plain assms(1) _ assms(6)])
      (use assms(5) in \<open>simp add: encodeArbitrary_def\<close>)
  from q(1) obtain p1 p2 p3 p4 where "rs_u8 bs 0 = Inr (15, p1)" "rs_u32 bs p1 = Inr (oid, p2)" "rs_u32 bs p2 = Inr (parent, p3)"
      "read_opt rs_bool bs p3 = Inr (?g, p4)" "read_edges bs p4 = Inr (es, q)"
    by (auto simp: rbind_def rret_def bindE_Inr_iff)
  with q(2) show ?thesis
    by (simp add: decode_request_def decode_reader_def read_box_def rbind_def rret_def)
qed

section \<open>Every call\<close>

lemma call_sent: "in_call c \<Longrightarrow> childless c \<Longrightarrow> sent (request_of c) (host_call c)"
  by (cases c; hypsubst; simp only: request_of.simps host_call.simps in_call.simps childless.simps sent_calls)

lemma request_decoded:
  assumes "in_call c" and "request_of c = Inr bs" and "length bs < 2 ^ 32"
  shows "decode_request bs = (if childless c then Inr (host_call c) else Inl BufferLayout)"
proof (cases "childless c")
  case True
  with call_sent [OF assms(1) True] assms(2,3) show ?thesis by (simp add: sent_def)
next
  case False
  then consider a b d f where "c = DoGroupCall a b d f" "d \<noteq> []"
    | a b es d e f where "c = DoArbitraryCall a b es d e f" "d \<noteq> []"
    by (cases c) simp_all
  then show ?thesis
  proof cases
    case 1
    then show ?thesis using assms group_children_rejected [of d a b f bs] by simp
  next
    case 2
    then show ?thesis using assms arbitrary_children_rejected [of d a b es e f bs] by (simp del: in_edges.simps)
  qed
qed

text \<open>
  C10. What the binding writes is what the engine reads: for every call whose arguments fit their wire widths,
  whatever its options, the host adapter decodes from the encoded request the opcode and the arguments of the
  call, omitted options at their defaults; of the options of an arbitrary box alignment, blend and radius are
  not among them, as the binding does not write them (\<open>host_call\<close>). The one kind of request that is
  not understood is a group or an arbitrary box with children: the adapter rejects every one with \<open>BufferLayout\<close>.
\<close>

theorem request_roundtrip:
  assumes "in_call c" and "request_of c = Inr bs" and "length bs < 2 ^ 32"
  shows "decode_request bs = (if childless c then Inr (host_call c) else Inl BufferLayout)"
  by (rule request_decoded [OF assms])

theorem request_roundtrip_witness:
  "request_of (DoLattice 5 6 1 (-1) 0) = Inr [4, 5, 0, 0, 0, 6, 0, 0, 0, 1, 0, 0, 0, 255, 0] \<and>
   decode_request [4, 5, 0, 0, 0, 6, 0, 0, 0, 1, 0, 0, 0, 255, 0] = Inr (DLattice 5 6 1 (-1) 0)"
proof -
  have e: "request_of (DoLattice 5 6 1 (-1) 0) = Inr [4, 5, 0, 0, 0, 6, 0, 0, 0, 1, 0, 0, 0, 255, 0]"
    by (simp add: encodeLattice_def with_writer_def fresh_writer_def w_u8_def w_u32_def w_i8_def ensure_def
      set_view_def array_set_def w_finish_def numeral_eq_Suc take_bit_eq_mod drop_bit_eq_div)
  show ?thesis using e request_roundtrip [OF _ e] by (simp add: is_u32_def is_i8_def)
qed

end
