(* ===== verification/Fgce_Decode.thy ===== *)
theory Fgce_Decode
  imports Fgce_Roundtrip
begin

text \<open>
  Responses: \<open>decodeResponse\<close> of the binding (\<open>products/fgce/bindings/ts/src/protocol.ts\<close>) and
  \<open>encode_response\<close> of the host adapter (\<open>products/fgce/crates/fgce-wasm/src/wire.rs\<close>).
\<close>

section \<open>Decoding in the binding\<close>

record info =
  version :: js_string
  maxSide :: int
  maxK :: int
  maxClip :: int
  maxVertices :: int
  maxCoord :: int
  pixelFormat :: pixel_format
  premultiplied :: bool

record grid_info =
  g_fine :: int
  g_primary :: int

record lattice =
  countX :: int
  countY :: int
  originX :: int
  originY :: int

record snapshot_node =
  sn_id :: int
  sn_parent :: int
  sn_rect :: rect

record snapshot =
  generation :: int
  nodes :: "snapshot_node list"

record frame =
  f_width :: int
  f_height :: int
  f_stride :: int
  f_pixels :: bytes

record pixels =
  p_x :: int
  p_y :: int
  p_width :: int
  p_height :: int
  p_stride :: int
  p_bytes :: bytes

datatype response =
    RNone
  | RInfo info
  | RGrid grid_info
  | RLength int
  | RLattice lattice
  | REdgePx int
  | RMeasure rect
  | RFrame frame
  | RPixels pixels
  | RSnapshot snapshot
  | RError string int

definition FGCE_ERROR_NAMES :: "string list" where
  "FGCE_ERROR_NAMES =
     [''ScaleOutOfRange'', ''SurfaceOutOfRange'', ''NotBegun'', ''UnknownImage'', ''UnknownNode'',
      ''ImageTooLarge'', ''BufferLayout'', ''ClipUnderflow'', ''ClipOverflow'', ''BadCell'', ''Overflow'',
      ''BadStroke'', ''BadPath'', ''BadNudge'', ''BadAnchor'', ''BadGroup'', ''BadArbitrary'', ''BadInset'',
      ''BoxOverflow'', ''OffGrid'', ''BadParent'', ''ReferenceMissing'', ''ReferenceBusy'', ''BadRadius'']"

text \<open>\<open>FORMAT_NAME[code] ?? "rgba8"\<close>: an unknown format reads as \<open>rgba8\<close>.\<close>

definition format_name :: "int \<Rightarrow> pixel_format" where
  "format_name code = (if code = 0 then Rgb8 else if code = 1 then Rgba8 else if code = 2 then Alpha8 else Rgba8)"

definition r_rect :: "(fgce_failure, rect) reader" where
  "r_rect = rbind r_i32 (\<lambda>x1. rbind r_i32 (\<lambda>y1. rbind r_i32 (\<lambda>x2. rbind r_i32 (\<lambda>y2.
     rret \<lparr>rx1 = x1, ry1 = y1, rx2 = x2, ry2 = y2\<rparr>))))"

fun r_nodes :: "nat \<Rightarrow> (fgce_failure, snapshot_node list) reader" where
  "r_nodes 0 = rret []"
| "r_nodes (Suc n) =
     rbind r_u32 (\<lambda>oid. rbind r_u32 (\<lambda>parent. rbind r_rect (\<lambda>rect.
     rbind (r_nodes n) (\<lambda>rest.
     rret (\<lparr>sn_id = oid, sn_parent = parent, sn_rect = rect\<rparr> # rest)))))"

definition response_reader :: "(fgce_failure, response) reader" where
  "response_reader = rbind r_u8 (\<lambda>kind.
     if kind = 0 then rret RNone
     else if kind = 1 then
       rbind r_u32 (\<lambda>n. rbind (r_bytes (nat n)) (\<lambda>v.
       rbind r_u32 (\<lambda>a. rbind r_u32 (\<lambda>b. rbind r_u32 (\<lambda>c. rbind r_u32 (\<lambda>d. rbind r_u32 (\<lambda>e.
       rbind r_u8 (\<lambda>f. rbind r_bool (\<lambda>p.
       rret (RInfo \<lparr>version = text_decode v, maxSide = a, maxK = b, maxClip = c, maxVertices = d,
                    maxCoord = e, pixelFormat = format_name f, premultiplied = p\<rparr>))))))))))
     else if kind = 2 then rbind r_u32 (\<lambda>a. rbind r_u32 (\<lambda>b. rret (RGrid \<lparr>g_fine = a, g_primary = b\<rparr>)))
     else if kind = 3 then rbind r_u32 (\<lambda>a. rret (RLength a))
     else if kind = 4 then
       rbind r_u32 (\<lambda>a. rbind r_u32 (\<lambda>b. rbind r_i64 (\<lambda>c. rbind r_i64 (\<lambda>d.
       rret (RLattice \<lparr>countX = a, countY = b, originX = c, originY = d\<rparr>)))))
     else if kind = 5 then rbind r_i32 (\<lambda>a. rret (REdgePx a))
     else if kind = 6 then rbind r_rect (\<lambda>r. rret (RMeasure r))
     else if kind = 7 then
       rbind r_u32 (\<lambda>w. rbind r_u32 (\<lambda>h. rbind r_u32 (\<lambda>s. rbind r_u32 (\<lambda>n. rbind (r_bytes (nat n)) (\<lambda>px.
       rret (RFrame \<lparr>f_width = w, f_height = h, f_stride = s, f_pixels = px\<rparr>))))))
     else if kind = 8 then
       rbind r_i32 (\<lambda>x. rbind r_i32 (\<lambda>y. rbind r_u32 (\<lambda>w. rbind r_u32 (\<lambda>h. rbind r_u32 (\<lambda>s.
       rbind r_u32 (\<lambda>n. rbind (r_bytes (nat n)) (\<lambda>px.
       rret (RPixels \<lparr>p_x = x, p_y = y, p_width = w, p_height = h, p_stride = s, p_bytes = px\<rparr>))))))))
     else if kind = 9 then
       rbind r_u64 (\<lambda>g. rbind r_u32 (\<lambda>n. rbind (r_nodes (nat n)) (\<lambda>ns.
       rret (RSnapshot \<lparr>generation = g, nodes = ns\<rparr>))))
     else if kind = 10 then
       rbind r_u8 (\<lambda>codeIndex.
         if nat codeIndex < length FGCE_ERROR_NAMES
         then rret (RError (FGCE_ERROR_NAMES ! nat codeIndex) codeIndex)
         else rfail (UnknownErrorCode codeIndex))
     else rfail (UnknownKind kind))"

definition decodeResponse :: "bytes \<Rightarrow> fgce_failure + response" where
  "decodeResponse data = bindE (response_reader data 0) (\<lambda>(r, _). Inr r)"

section \<open>Encoding in the host adapter\<close>

text \<open>Strings of the kernel are scalar values; its integers are at their width.\<close>

datatype k_response =
    KNone
  | KInfo "nat list" int int int int int pixel_format bool
  | KGrid int int
  | KLength int
  | KLattice int int int int
  | KEdgePx int
  | KMeasure rect
  | KFrame int int int bytes
  | KPixels int int int int int bytes
  | KSnapshot int "snapshot_node list"

definition rect_bytes :: "rect \<Rightarrow> bytes" where
  "rect_bytes r = le_bytes 4 (rx1 r) @ le_bytes 4 (ry1 r) @ le_bytes 4 (rx2 r) @ le_bytes 4 (ry2 r)"

definition node_bytes :: "snapshot_node \<Rightarrow> bytes" where
  "node_bytes n = le_bytes 4 (sn_id n) @ le_bytes 4 (sn_parent n) @ rect_bytes (sn_rect n)"

fun encode_response :: "k_response \<Rightarrow> bytes" where
  "encode_response KNone = [0]"
| "encode_response (KInfo v a b c d e f p) =
     (let s = concat (map utf8_scalar v) in
      [1] @ le_bytes 4 (int (length s)) @ s @ le_bytes 4 a @ le_bytes 4 b @ le_bytes 4 c @
      le_bytes 4 d @ le_bytes 4 e @ [word_of_int (format_code f)] @ [if p then 1 else 0])"
| "encode_response (KGrid a b) = [2] @ le_bytes 4 a @ le_bytes 4 b"
| "encode_response (KLength a) = [3] @ le_bytes 4 a"
| "encode_response (KLattice a b c d) = [4] @ le_bytes 4 a @ le_bytes 4 b @ le_bytes 8 c @ le_bytes 8 d"
| "encode_response (KEdgePx a) = [5] @ le_bytes 4 a"
| "encode_response (KMeasure r) = [6] @ rect_bytes r"
| "encode_response (KFrame w h s px) =
     [7] @ le_bytes 4 w @ le_bytes 4 h @ le_bytes 4 s @ le_bytes 4 (int (length px)) @ px"
| "encode_response (KPixels x y w h s px) =
     [8] @ le_bytes 4 x @ le_bytes 4 y @ le_bytes 4 w @ le_bytes 4 h @ le_bytes 4 s @
     le_bytes 4 (int (length px)) @ px"
| "encode_response (KSnapshot g ns) =
     [9] @ le_bytes 8 g @ le_bytes 4 (int (length ns)) @ concat (map node_bytes ns)"

fun error_code :: "kernel_error \<Rightarrow> int" where
  "error_code ScaleOutOfRange = 0" | "error_code SurfaceOutOfRange = 1" | "error_code NotBegun = 2"
| "error_code UnknownImage = 3" | "error_code UnknownNode = 4" | "error_code ImageTooLarge = 5"
| "error_code BufferLayout = 6" | "error_code ClipUnderflow = 7" | "error_code ClipOverflow = 8"
| "error_code BadCell = 9" | "error_code Overflow = 10" | "error_code BadStroke = 11"
| "error_code BadPath = 12" | "error_code BadNudge = 13" | "error_code BadAnchor = 14"
| "error_code BadGroup = 15" | "error_code BadArbitrary = 16" | "error_code BadInset = 17"
| "error_code BoxOverflow = 18" | "error_code OffGrid = 19" | "error_code BadParent = 20"
| "error_code ReferenceMissing = 21" | "error_code ReferenceBusy = 22" | "error_code BadRadius = 23"

definition error_response :: "kernel_error \<Rightarrow> bytes" where
  "error_response e = [10, word_of_int (error_code e)]"

section \<open>Field readers\<close>

definition is_i64 :: "int \<Rightarrow> bool" where "is_i64 v \<longleftrightarrow> - (2 ^ 63) \<le> v \<and> v < 2 ^ 63"
definition is_u64 :: "int \<Rightarrow> bool" where "is_u64 v \<longleftrightarrow> 0 \<le> v \<and> v < 2 ^ 64"

lemma r_u8_view: "r_u8 = rbind (view_bytes 1) (\<lambda>b. rret (uint (b ! 0)))"
  by (intro ext) (simp add: r_u8_def rbind_def view_bytes_def need_def rret_def)

lemma r_bytes_view: "r_bytes = view_bytes"
  by (intro ext) (simp add: r_bytes_def view_bytes_def)

lemma exact_u8: "tr.exact r_u8 [b] (uint b)"
  unfolding r_u8_view by (rule tr.exact_last [OF tr.exact_take]) simp_all

lemma exact_kind: "0 \<le> k \<Longrightarrow> k < 256 \<Longrightarrow> tr.exact r_u8 [word_of_int k] k"
  using exact_u8 [of "word_of_int k"] by simp

lemma exact_bool: "tr.exact r_bool [if b then 1 else 0] b"
  unfolding r_bool_def by (rule tr.exact_last [OF exact_u8]) (cases b; simp)

lemma exact_end: "tr.exact m as x \<Longrightarrow> f x = rret w \<Longrightarrow> w = v \<Longrightarrow> tr.exact (rbind m f) as v"
  by (rule tr.exact_last, assumption) simp

lemma exact_u32: "is_u32 v \<Longrightarrow> tr.exact r_u32 (le_bytes 4 v) v"
  unfolding r_u32_def by (rule tr.exact_last [OF tr.exact_take]) (simp_all add: le_value_le_bytes is_u32_def)

lemma exact_i32: "is_i32 v \<Longrightarrow> tr.exact r_i32 (le_bytes 4 v) v"
  unfolding r_i32_def
  by (rule tr.exact_last [OF tr.exact_take])
    (use signed_small [of 31 v] in \<open>simp_all add: le_value_le_bytes is_i32_def\<close>)

lemma exact_u64: "is_u64 v \<Longrightarrow> tr.exact r_u64 (le_bytes 8 v) (bigint_to_number v)"
  unfolding r_u64_def by (rule tr.exact_last [OF tr.exact_take]) (simp_all add: le_value_le_bytes is_u64_def)

lemma exact_i64: "is_i64 v \<Longrightarrow> tr.exact r_i64 (le_bytes 8 v) (bigint_to_number v)"
  unfolding r_i64_def
  by (rule tr.exact_last [OF tr.exact_take])
    (use signed_small [of 63 v] in \<open>simp_all add: le_value_le_bytes is_i64_def\<close>)

lemma exact_bytes: "n = int (length bs) \<Longrightarrow> tr.exact (r_bytes (nat n)) bs bs"
  unfolding r_bytes_view by (rule tr.exact_take) simp

lemma exact_rect: "in_rect r \<Longrightarrow> tr.exact r_rect (rect_bytes r) r"
  unfolding r_rect_def rect_bytes_def
  by (rule tr.exact_bind exact_end exact_i32 | simp)+

fun in_node :: "snapshot_node \<Rightarrow> bool" where
  "in_node n = (is_u32 (sn_id n) \<and> is_u32 (sn_parent n) \<and> in_rect (sn_rect n))"

declare in_node.simps [simp del]

lemma exact_nodes: "list_all in_node ns \<Longrightarrow> tr.exact (r_nodes (length ns)) (concat (map node_bytes ns)) ns"
proof (induction ns)
  case Nil
  then show ?case by (simp add: tr.exact_ret)
next
  case (Cons n ns)
  have n: "is_u32 (sn_id n)" "is_u32 (sn_parent n)" "in_rect (sn_rect n)" "list_all in_node ns"
    using Cons.prems in_node.simps [of n] by auto
  show ?case
    unfolding list.size list.map concat.simps node_bytes_def [of n] append_assoc add_Suc_right add_0_right r_nodes.simps
    by (rule tr.exact_bind [OF exact_u32 [OF n(1)]], rule tr.exact_bind [OF exact_u32 [OF n(2)]],
        rule tr.exact_bind [OF exact_rect [OF n(3)]], rule exact_end [OF Cons.IH [OF n(4)]], rule refl) simp
qed

lemma excess_unit_small: "n < 2 ^ 53 \<Longrightarrow> excess_unit n = 1"
  by (simp add: excess_unit.simps [of n])

lemma bigint_exact: "\<bar>v\<bar> < 2 ^ 53 \<Longrightarrow> bigint_to_number v = v"
proof -
  assume "\<bar>v\<bar> < 2 ^ 53"
  then have "nat \<bar>v\<bar> < 2 ^ 53" by (simp add: nat_less_iff)
  then show ?thesis
    by (simp add: bigint_to_number_def excess_unit_small round_even_def Let_def sgn_if)
qed

section \<open>Round trip of responses\<close>

fun in_response :: "k_response \<Rightarrow> bool" where
  "in_response KNone = True"
| "in_response (KInfo v a b c d e f p) =
     (list_all is_scalar v \<and> take 1 v \<noteq> [0xFEFF] \<and> length (concat (map utf8_scalar v)) < 2 ^ 32 \<and>
      is_u32 a \<and> is_u32 b \<and> is_u32 c \<and> is_u32 d \<and> is_u32 e)"
| "in_response (KGrid a b) = (is_u32 a \<and> is_u32 b)"
| "in_response (KLength a) = is_u32 a"
| "in_response (KLattice a b c d) = (is_u32 a \<and> is_u32 b \<and> is_i64 c \<and> is_i64 d)"
| "in_response (KEdgePx a) = is_i32 a"
| "in_response (KMeasure r) = in_rect r"
| "in_response (KFrame w h s px) = (is_u32 w \<and> is_u32 h \<and> is_u32 s \<and> length px < 2 ^ 32)"
| "in_response (KPixels x y w h s px) =
     (is_i32 x \<and> is_i32 y \<and> is_u32 w \<and> is_u32 h \<and> is_u32 s \<and> length px < 2 ^ 32)"
| "in_response (KSnapshot g ns) = (is_u64 g \<and> list_all in_node ns \<and> length ns < 2 ^ 32)"

fun client_view :: "k_response \<Rightarrow> response" where
  "client_view KNone = RNone"
| "client_view (KInfo v a b c d e f p) =
     RInfo \<lparr>version = concat (map utf16_units v), maxSide = a, maxK = b, maxClip = c, maxVertices = d,
            maxCoord = e, pixelFormat = f, premultiplied = p\<rparr>"
| "client_view (KGrid a b) = RGrid \<lparr>g_fine = a, g_primary = b\<rparr>"
| "client_view (KLength a) = RLength a"
| "client_view (KLattice a b c d) =
     RLattice \<lparr>countX = a, countY = b, originX = bigint_to_number c, originY = bigint_to_number d\<rparr>"
| "client_view (KEdgePx a) = REdgePx a"
| "client_view (KMeasure r) = RMeasure r"
| "client_view (KFrame w h s px) = RFrame \<lparr>f_width = w, f_height = h, f_stride = s, f_pixels = px\<rparr>"
| "client_view (KPixels x y w h s px) =
     RPixels \<lparr>p_x = x, p_y = y, p_width = w, p_height = h, p_stride = s, p_bytes = px\<rparr>"
| "client_view (KSnapshot g ns) = RSnapshot \<lparr>generation = bigint_to_number g, nodes = ns\<rparr>"

lemma text_decode_scalars:
  "list_all is_scalar v \<Longrightarrow> take 1 v \<noteq> [0xFEFF] \<Longrightarrow>
   text_decode (concat (map utf8_scalar v)) = concat (map utf16_units v)"
  by (simp add: text_decode_def Let_def utf8_dec_scalars)

lemma exact_format: "tr.exact r_u8 [word_of_int (format_code f)] (format_code f)"
  by (rule exact_kind) (cases f; simp)+

lemma format_name_code [simp]: "format_name (format_code f) = f"
  by (cases f) (simp_all add: format_name_def)

lemma is_u32_length: "length xs < 2 ^ 32 \<Longrightarrow> is_u32 (int (length xs))"
  by (simp add: is_u32_def)

lemma exact_tag:
  "0 \<le> k \<Longrightarrow> k < 256 \<Longrightarrow> f k = g \<Longrightarrow> tr.exact g bs v \<Longrightarrow> tr.exact (rbind r_u8 f) ([word_of_int k] @ bs) v"
  by (rule tr.exact_step [OF exact_kind])

lemma exact_tags:
  "f 1 = g \<Longrightarrow> tr.exact g bs v \<Longrightarrow> tr.exact (rbind r_u8 f) ([1] @ bs) v"
  "f (numeral k) = g \<Longrightarrow> numeral k < (256 :: int) \<Longrightarrow> tr.exact g bs v \<Longrightarrow>
   tr.exact (rbind r_u8 f) ([numeral k] @ bs) v"
  using exact_tag [of 1 f g bs v] exact_tag [of "numeral k" f g bs v] by simp_all

lemma exact_node_list: "list_all in_node ns \<Longrightarrow> n = int (length ns) \<Longrightarrow>
   tr.exact (r_nodes (nat n)) (concat (map node_bytes ns)) ns"
  using exact_nodes by simp

lemmas response_walk = exact_bytes exact_format exact_bool exact_u32 exact_i32 exact_i64 exact_u64
  exact_rect exact_node_list is_u32_length tr.exact_bind exact_end

lemma exact_response:
  assumes "in_response r" shows "tr.exact response_reader (encode_response r) (client_view r)"
proof (cases r)
  case KNone
  show ?thesis unfolding response_reader_def KNone encode_response.simps client_view.simps
    by (rule tr.exact_last [OF exact_kind [of 0, simplified]]) simp
next
  case (KInfo v a b c d e f p)
  show ?thesis using assms unfolding response_reader_def KInfo encode_response.simps client_view.simps Let_def
    by - (rule exact_tags, simp, (rule response_walk | simp add: text_decode_scalars)+)
qed ((use assms in \<open>simp only: response_reader_def encode_response.simps client_view.simps\<close>;
      rule exact_tags, simp, simp?, (rule response_walk | simp)+)+)

lemma exact_decode: "tr.exact response_reader bs v \<Longrightarrow> decodeResponse bs = Inr v"
  using tr.exact_reads [of response_reader bs v "[]" "[]"] by (simp add: decodeResponse_def)

text \<open>
  C14. The binding reads back every response of the engine: lengths, offsets and strides unchanged,
  pixel bytes as they are, the version as the text it encodes, and 64-bit numbers as the nearest
  double.
\<close>

theorem response_roundtrip:
  assumes "in_response r" shows "decodeResponse (encode_response r) = Inr (client_view r)"
  by (rule exact_decode [OF exact_response [OF assms]])

lemma le4:
  "le_bytes 4 v = [word_of_int v, word_of_int (drop_bit 8 v), word_of_int (drop_bit 16 v), word_of_int (drop_bit 24 v)]"
proof -
  have "(4 :: nat) = Suc (Suc (Suc (Suc 0)))" by simp
  then show ?thesis by (simp only: le_bytes.simps drop_bit_drop_bit) simp
qed

theorem response_roundtrip_witness:
  "decodeResponse [8, 1, 0, 0, 0, 9, 0, 0, 0, 2, 0, 0, 0, 1, 0, 0, 0, 8, 0, 0, 0, 3, 0, 0, 0, 7, 8, 9] =
   Inr (RPixels \<lparr>p_x = 1, p_y = 9, p_width = 2, p_height = 1, p_stride = 8, p_bytes = [7, 8, 9]\<rparr>)"
  using response_roundtrip [of "KPixels 1 9 2 1 8 [7, 8, 9]"] by (simp add: is_i32_def is_u32_def le4 drop_bit_eq_div)

text \<open>
  A response cut short is never mistaken for a shorter one: on every strict prefix of an encoded
  response the binding throws its truncation error.
\<close>

theorem response_truncated:
  assumes "in_response r" and "n < length (encode_response r)"
  shows "decodeResponse (take n (encode_response r)) = Inl Truncated"
  using tr.exact_cut [OF exact_response [OF assms(1)] assms(2), of "[]"] by (simp add: decodeResponse_def)

theorem response_truncated_witness: "decodeResponse [2, 1, 0, 0, 0, 7] = Inl Truncated"
  using response_truncated [of "KGrid 1 7" 6]
  by (simp add: is_u32_def le4 drop_bit_eq_div)

text \<open>The name of an error is the name of its constructor.\<close>

fun error_name :: "kernel_error \<Rightarrow> string" where
  "error_name ScaleOutOfRange = ''ScaleOutOfRange''" | "error_name SurfaceOutOfRange = ''SurfaceOutOfRange''"
| "error_name NotBegun = ''NotBegun''" | "error_name UnknownImage = ''UnknownImage''"
| "error_name UnknownNode = ''UnknownNode''" | "error_name ImageTooLarge = ''ImageTooLarge''"
| "error_name BufferLayout = ''BufferLayout''" | "error_name ClipUnderflow = ''ClipUnderflow''"
| "error_name ClipOverflow = ''ClipOverflow''" | "error_name BadCell = ''BadCell''"
| "error_name Overflow = ''Overflow''" | "error_name BadStroke = ''BadStroke''"
| "error_name BadPath = ''BadPath''" | "error_name BadNudge = ''BadNudge''"
| "error_name BadAnchor = ''BadAnchor''" | "error_name BadGroup = ''BadGroup''"
| "error_name BadArbitrary = ''BadArbitrary''" | "error_name BadInset = ''BadInset''"
| "error_name BoxOverflow = ''BoxOverflow''" | "error_name OffGrid = ''OffGrid''"
| "error_name BadParent = ''BadParent''" | "error_name ReferenceMissing = ''ReferenceMissing''"
| "error_name ReferenceBusy = ''ReferenceBusy''" | "error_name BadRadius = ''BadRadius''"

lemma decode_error_response:
  "decodeResponse (error_response e) = Inr (RError (error_name e) (error_code e))"
  by (cases e)
    (simp_all add: decodeResponse_def error_response_def response_reader_def r_u8_def rbind_def need_def
      rret_def FGCE_ERROR_NAMES_def)

text \<open>
  The error table of the binding agrees with the kernel: every kernel error arrives under its own
  name with its own index.
\<close>

theorem error_names_agree:
  "decodeResponse (error_response e) = Inr (RError (error_name e) (error_code e))"
  by (rule decode_error_response)

end
