(* ===== verification/Fgce_Engine.thy ===== *)
theory Fgce_Engine
  imports Fgce_Calls Fgce_Decode "HOL-Library.Multiset"
begin

text \<open>
  The engine facade (\<open>products/fgce/bindings/ts/src/engine.ts\<close>): one request through the wasm
  exports, the typed methods on top of it, and the life cycle of the engine handle. The exports of
  the module and its linear memory are a parameter.
\<close>

section \<open>The wasm module\<close>

record 'w wasm =
  fgce_abi_version :: "'w \<Rightarrow> int"
  fgce_engine_new :: "'w \<Rightarrow> nat \<times> 'w"
  fgce_engine_free :: "nat \<Rightarrow> 'w \<Rightarrow> 'w"
  fgce_alloc :: "nat \<Rightarrow> 'w \<Rightarrow> nat \<times> 'w"
  fgce_free :: "nat \<Rightarrow> nat \<Rightarrow> 'w \<Rightarrow> 'w"
  fgce_submit :: "nat \<Rightarrow> nat \<Rightarrow> nat \<Rightarrow> 'w \<Rightarrow> int \<times> 'w"
  fgce_response_ptr :: "nat \<Rightarrow> 'w \<Rightarrow> nat"
  fgce_response_len :: "nat \<Rightarrow> 'w \<Rightarrow> nat"
  memory :: "'w \<Rightarrow> bytes"
  memory_set :: "nat \<Rightarrow> bytes \<Rightarrow> 'w \<Rightarrow> 'w"

record engine =
  destroyed :: bool
  handle :: nat

definition FGCE_ABI_VERSION :: int where
  "FGCE_ABI_VERSION = 3"

definition load_engine :: "'w wasm \<Rightarrow> 'w \<Rightarrow> (fgce_failure + engine) \<times> 'w" where
  "load_engine W w =
     (let abi = fgce_abi_version W w in
      if abi \<noteq> FGCE_ABI_VERSION then (Inl (Incompatible abi), w)
      else (let (h, w) = fgce_engine_new W w in (Inr \<lparr>destroyed = False, handle = h\<rparr>, w)))"

section \<open>One request\<close>

text \<open>The body of the \<open>try\<close> block; \<open>new Uint8Array(buffer, p, n)\<close> throws when the view does not fit.\<close>

definition submit_body ::
  "'w wasm \<Rightarrow> engine \<Rightarrow> bytes \<Rightarrow> nat \<Rightarrow> 'w \<Rightarrow> (fgce_failure + response) \<times> 'w" where
  "submit_body W e request pointer w =
     (if request \<noteq> [] \<and> pointer + length request > length (memory W w) then (Inl RangeError, w)
      else
        let w = (if request \<noteq> [] then memory_set W pointer request w else w);
            (code, w) = fgce_submit W (handle e) pointer (length request) w
        in if code \<noteq> 0 then (Inl SubmitRejected, w)
           else
             let len = fgce_response_len W (handle e) w;
                 ptr = fgce_response_ptr W (handle e) w
             in if ptr + len > length (memory W w) then (Inl RangeError, w)
                else (decodeResponse (take len (drop ptr (memory W w))), w))"

definition submit :: "'w wasm \<Rightarrow> engine \<Rightarrow> bytes \<Rightarrow> 'w \<Rightarrow> (fgce_failure + response) \<times> 'w" where
  "submit W e request w =
     (if destroyed e then (Inl EngineDestroyed, w)
      else
        let (pointer, w) = (if request = [] then (0, w) else fgce_alloc W (length request) w) in
        if request \<noteq> [] \<and> pointer = 0 then (Inl AllocFailed, w)
        else
          let (r, w) = submit_body W e request pointer w
          in (r, if pointer \<noteq> 0 then fgce_free W pointer (length request) w else w))"

definition ok_response :: "fgce_failure + response \<Rightarrow> fgce_failure + response" where
  "ok_response m = bindE m (\<lambda>r. case r of RError code i \<Rightarrow> Inl (FgceError code i) | _ \<Rightarrow> Inr r)"

section \<open>Methods\<close>

fun kind_of :: "response \<Rightarrow> nat" where
  "kind_of RNone = 0" | "kind_of (RInfo _) = 1" | "kind_of (RGrid _) = 2" | "kind_of (RLength _) = 3"
| "kind_of (RLattice _) = 4" | "kind_of (REdgePx _) = 5" | "kind_of (RMeasure _) = 6"
| "kind_of (RFrame _) = 7" | "kind_of (RPixels _) = 8" | "kind_of (RSnapshot _) = 9"
| "kind_of (RError _ _) = 10"

definition requireKind :: "nat \<Rightarrow> response \<Rightarrow> fgce_failure + response" where
  "requireKind k r = (if kind_of r \<noteq> k then Inl UnexpectedKind else Inr r)"

text \<open>The kind a method requires; the other methods return nothing.\<close>

fun required_kind :: "call \<Rightarrow> nat option" where
  "required_kind DoInfo = Some 1"
| "required_kind (DoGrid _) = Some 2"
| "required_kind (DoLength _ _) = Some 3"
| "required_kind (DoLattice _ _ _ _ _) = Some 4"
| "required_kind (DoEdgePx _ _) = Some 5"
| "required_kind (DoMeasure _ _ _) = Some 6"
| "required_kind DoEnd = Some 7"
| "required_kind (DoReadPixels _ _) = Some 8"
| "required_kind DoSnapshotCall = Some 9"
| "required_kind _ = None"

definition method_result :: "call \<Rightarrow> response \<Rightarrow> fgce_failure + response" where
  "method_result c r = (case required_kind c of None \<Rightarrow> Inr RNone | Some k \<Rightarrow> requireKind k r)"

definition perform :: "'w wasm \<Rightarrow> engine \<Rightarrow> call \<Rightarrow> 'w \<Rightarrow> (fgce_failure + response) \<times> 'w" where
  "perform W e c w =
     (case request_of c of
        Inl failure \<Rightarrow> (Inl failure, w)
      | Inr request \<Rightarrow>
          let (r, w) = submit W e request w in (bindE (ok_response r) (method_result c), w))"

definition destroy :: "'w wasm \<Rightarrow> engine \<Rightarrow> 'w \<Rightarrow> engine \<times> 'w" where
  "destroy W e w =
     (if destroyed e then (e, w) else (e\<lparr>destroyed := True\<rparr>, fgce_engine_free W (handle e) w))"

section \<open>Traces\<close>

text \<open>The module observed: every call of an export that takes or gives back a resource is logged.\<close>

datatype event =
    Allocated nat nat
  | Freed nat nat
  | Submitted nat
  | EngineFreed nat

definition traced :: "'w wasm \<Rightarrow> ('w \<times> event list) wasm" where
  "traced W = \<lparr>
     fgce_abi_version = (\<lambda>(w, l). fgce_abi_version W w),
     fgce_engine_new = (\<lambda>(w, l). let (h, w) = fgce_engine_new W w in (h, (w, l))),
     fgce_engine_free = (\<lambda>h (w, l). (fgce_engine_free W h w, l @ [EngineFreed h])),
     fgce_alloc = (\<lambda>n (w, l). let (p, w) = fgce_alloc W n w in (p, (w, l @ [Allocated p n]))),
     fgce_free = (\<lambda>p n (w, l). (fgce_free W p n w, l @ [Freed p n])),
     fgce_submit = (\<lambda>h p n (w, l). let (c, w) = fgce_submit W h p n w in (c, (w, l @ [Submitted h]))),
     fgce_response_ptr = (\<lambda>h (w, l). fgce_response_ptr W h w),
     fgce_response_len = (\<lambda>h (w, l). fgce_response_len W h w),
     memory = (\<lambda>(w, l). memory W w),
     memory_set = (\<lambda>p bs (w, l). (memory_set W p bs w, l))\<rparr>"

text \<open>The blocks the client holds after a trace; a null pointer is no block.\<close>

fun held_after :: "(nat \<times> nat) multiset \<Rightarrow> event \<Rightarrow> (nat \<times> nat) multiset" where
  "held_after m (Allocated p n) = (if p = 0 then m else add_mset (p, n) m)"
| "held_after m (Freed p n) = m - {#(p, n)#}"
| "held_after m _ = m"

definition held :: "event list \<Rightarrow> (nat \<times> nat) multiset" where
  "held l = foldl held_after {#} l"

lemma held_simps [simp]:
  "held [] = {#}" "held (l @ [e]) = held_after (held l) e"
  by (simp_all add: held_def)

lemma body_trace:
  "\<exists>w' ev. snd (submit_body (traced W) e request p (w, l)) = (w', l @ ev) \<and> (ev = [] \<or> ev = [Submitted (handle e)])"
  by (cases "fgce_submit W (handle e) p (length request) (if request \<noteq> [] then memory_set W p request w else w)")
    (auto simp: submit_body_def traced_def Let_def split: prod.splits)

lemma body_log:
  obtains w' ev where "snd (submit_body (traced W) e request p (w, l)) = (w', l @ ev)"
    and "ev = [] \<or> ev = [Submitted (handle e)]"
  using body_trace [of W e request p w l] that by (elim exE conjE)

text \<open>The four shapes of the log of one request.\<close>

lemma submit_trace:
  "\<exists>w' ev. snd (submit (traced W) e request (w, l)) = (w', l @ ev) \<and>
     (destroyed e \<longrightarrow> ev = []) \<and>
     (\<exists>p b. (b = [] \<or> b = [Submitted (handle e)]) \<and>
        (ev = [] \<or> ev = b \<or> ev = [Allocated 0 (length request)] \<or>
         p \<noteq> 0 \<and> ev = [Allocated p (length request)] @ b @ [Freed p (length request)]))"
proof (cases "destroyed e \<or> request = []")
  case True
  obtain w' ev where "snd (submit_body (traced W) e request 0 (w, l)) = (w', l @ ev)"
    "ev = [] \<or> ev = [Submitted (handle e)]" by (rule body_log)
  with True show ?thesis by (auto simp: submit_def Let_def split: prod.splits)
next
  case False
  obtain p v where a: "fgce_alloc W (length request) w = (p, v)" by (rule prod.exhaust)
  then have t: "fgce_alloc (traced W) (length request) (w, l) = (p, (v, l @ [Allocated p (length request)]))"
    by (simp add: traced_def)
  obtain w' b where b: "snd (submit_body (traced W) e request p (v, l @ [Allocated p (length request)])) =
      (w', (l @ [Allocated p (length request)]) @ b)" "b = [] \<or> b = [Submitted (handle e)]"
    by (rule body_log)
  have f: "fgce_free (traced W) p (length request) (w', k) = (fgce_free W p (length request) w', k @ [Freed p (length request)])" for k
    by (simp add: traced_def)
  show ?thesis
  proof (cases "p = 0")
    case True
    with False t show ?thesis by (auto simp: submit_def Let_def)
  next
    case p: False
    have "snd (submit (traced W) e request (w, l)) =
        (fgce_free W p (length request) w',
         l @ [Allocated p (length request)] @ b @ [Freed p (length request)])"
      using False p t b(1) f by (simp add: submit_def Let_def case_prod_unfold)
    with b(2) p False show ?thesis by blast
  qed
qed

lemma held_balanced:
  assumes "b = [] \<or> b = [Submitted h]"
    and "ev = [] \<or> ev = b \<or> ev = [Allocated 0 n] \<or> p \<noteq> 0 \<and> ev = [Allocated p n] @ b @ [Freed p n]"
  shows "held (l @ ev) = held l"
  using assms by (auto simp: held_def)

lemma submit_held: "held (snd (snd (submit (traced W) e request (w, l)))) = held l"
proof -
  obtain w' ev p b where s: "snd (submit (traced W) e request (w, l)) = (w', l @ ev)"
    "b = [] \<or> b = [Submitted (handle e)]"
    "ev = [] \<or> ev = b \<or> ev = [Allocated 0 (length request)] \<or>
     p \<noteq> 0 \<and> ev = [Allocated p (length request)] @ b @ [Freed p (length request)]"
    using submit_trace [of W e request w l] by blast
  show ?thesis using held_balanced [OF s(2,3), of l] s(1) by simp
qed

text \<open>
  C12. No request leaks: whatever the module does, and on every path out of a method (a refused
  allocation, a view that does not fit, a rejected submit, a response that cannot be decoded, an
  unexpected kind), each block of linear memory the method allocated has been given back with the
  length it was asked for.
\<close>

theorem perform_no_leak: "held (snd (snd (perform (traced W) e c (w, l)))) = held l"
proof (cases "request_of c")
  case (Inr request)
  obtain r v where "submit (traced W) e request (w, l) = (r, v)" by (rule prod.exhaust)
  then show ?thesis using Inr submit_held [of W e request w l] by (simp add: perform_def)
qed (simp add: perform_def)

section \<open>Life cycle\<close>

text \<open>What a client does with an engine: calls, in any order and number, and \<open>destroy\<close>.\<close>

inductive uses :: "'w wasm \<Rightarrow> engine \<times> 'w \<Rightarrow> engine \<times> 'w \<Rightarrow> bool" for W where
  uses_refl: "uses W s s"
| uses_call: "uses W s (e, w) \<Longrightarrow> perform W e c w = (r, w') \<Longrightarrow> uses W s (e, w')"
| uses_destroy: "uses W s (e, w) \<Longrightarrow> uses W s (destroy W e w)"

inductive_cases uses_call_cases: "uses W s (e, w)"

definition orderly :: "engine \<Rightarrow> event list \<Rightarrow> bool" where
  "orderly e l \<longleftrightarrow>
     (\<exists>calls. list_all (\<lambda>ev. ev \<noteq> EngineFreed (handle e)) calls \<and>
        l = (if destroyed e then calls @ [EngineFreed (handle e)] else calls))"

lemma perform_orderly:
  assumes "orderly e l" and "perform (traced W) e c (w, l) = (r, (w', l'))"
  shows "orderly e l'"
proof (cases "request_of c")
  case (Inl x)
  with assms show ?thesis by (simp add: perform_def)
next
  case (Inr request)
  then have "snd (submit (traced W) e request (w, l)) = (w', l')"
    using assms(2) by (auto simp: perform_def split: prod.splits)
  with submit_trace [of W e request w l] obtain ev p b where s: "l' = l @ ev" "destroyed e \<longrightarrow> ev = []"
    "b = [] \<or> b = [Submitted (handle e)]"
    "ev = [] \<or> ev = b \<or> ev = [Allocated 0 (length request)] \<or>
     p \<noteq> 0 \<and> ev = [Allocated p (length request)] @ b @ [Freed p (length request)]"
    by auto
  show ?thesis
  proof (cases "destroyed e")
    case False
    have "list_all (\<lambda>ev. ev \<noteq> EngineFreed (handle e)) ev" using s(3,4) by auto
    with False assms(1) s(1) show ?thesis by (auto simp: orderly_def)
  qed (use assms(1) s in simp)
qed

lemma destroy_orderly:
  assumes "orderly e l" shows "\<exists>e' w' l'. destroy (traced W) e (w, l) = (e', (w', l')) \<and> orderly e' l'"
  using assms by (auto simp: destroy_def orderly_def traced_def)

text \<open>
  C13. The engine handle is freed at most once and never used afterwards: in every interleaving of
  calls and \<open>destroy\<close>s of a fresh engine the release of the handle is the last thing the module sees,
  and it has happened exactly when the engine is marked destroyed.
\<close>

theorem handle_freed_once:
  assumes "uses (traced W) (\<lparr>destroyed = False, handle = h\<rparr>, (w, [])) (e, (w', l))"
  shows "orderly e l"
proof -
  have "orderly (fst t) (snd (snd t))"
    if "uses (traced W) s t" "orderly (fst s) (snd (snd s))" for s t
    using that
  proof (induction rule: uses.induct)
    case (uses_call s e v c r v')
    then show ?case by (cases v; cases v') (auto intro: perform_orderly)
  next
    case (uses_destroy s e v)
    then show ?case using destroy_orderly [of e "snd v" W "fst v"] by auto
  qed simp
  from this [OF assms] show ?thesis by (simp add: orderly_def)
qed

section \<open>From a method to the kernel and back\<close>

text \<open>
  \<open>fgce_submit\<close> of the host adapter: decode, run the kernel, encode its answer; a request that does
  not decode is answered as an error. The kernel is a parameter.
\<close>

definition adapter_response :: "(decoded \<Rightarrow> kernel_error + k_response) \<Rightarrow> bytes \<Rightarrow> bytes" where
  "adapter_response kern data =
     (case decode_request data of
        Inl e \<Rightarrow> error_response e
      | Inr d \<Rightarrow> (case kern d of Inl e \<Rightarrow> error_response e | Inr r \<Rightarrow> encode_response r))"

text \<open>
  The module behaves like the adapter on one request: the allocation succeeds inside the memory, the
  memory keeps what is stored, and \<open>fgce_submit\<close> leaves the adapter's answer in the response area.
\<close>

definition well_served ::
  "'w wasm \<Rightarrow> (decoded \<Rightarrow> kernel_error + k_response) \<Rightarrow> nat \<Rightarrow> bytes \<Rightarrow> 'w \<Rightarrow> bool" where
  "well_served W kern h request w =
     (let (p, w1) = fgce_alloc W (length request) w;
          w2 = memory_set W p request w1;
          (code, w3) = fgce_submit W h p (length request) w2;
          len = fgce_response_len W h w3; ptr = fgce_response_ptr W h w3
      in p \<noteq> 0 \<and> p + length request \<le> length (memory W w1) \<and>
         take (length request) (drop p (memory W w2)) = request \<and>
         code = 0 \<and> ptr + len \<le> length (memory W w3) \<and>
         take len (drop ptr (memory W w3)) =
           adapter_response kern (take (length request) (drop p (memory W w2))))"

text \<open>What the caller of a method gets for an answer of the kernel.\<close>

definition answer :: "call \<Rightarrow> kernel_error + k_response \<Rightarrow> fgce_failure + response" where
  "answer c k =
     (case k of
        Inl e \<Rightarrow> Inl (FgceError (error_name e) (error_code e))
      | Inr r \<Rightarrow> method_result c (client_view r))"

lemma submit_served:
  assumes "\<not> destroyed e" "request \<noteq> []" "well_served W kern (handle e) request w"
  shows "fst (submit W e request w) = decodeResponse (adapter_response kern request)"
  using assms
  by (auto simp: well_served_def submit_def submit_body_def Let_def split: prod.splits)

lemma ok_client_view: "ok_response (Inr (client_view r)) = Inr (client_view r)"
  by (cases r) (simp_all add: ok_response_def)

text \<open>
  C11. A method returns what the kernel computed for its arguments: with a module that behaves like the
  adapter, a call in range without children gives the kernel's answer to the decoded call (\<open>host_call\<close>: the
  arguments and options of the call, but alignment, blend and radius of an arbitrary box, which the binding does
  not write), viewed through the response decoder and the kind the method requires, and a kernel error is thrown under
  its name. A group or an arbitrary box with children throws \<open>BufferLayout\<close> and never reaches the kernel.
\<close>

theorem method_reaches_kernel:
  assumes "in_call c" and "request_of c = Inr request" and "length request < 2 ^ 32"
    and "\<not> destroyed e" and "well_served W kern (handle e) request w"
    and "case kern (host_call c) of Inl _ \<Rightarrow> True | Inr r \<Rightarrow> in_response r"
  shows "fst (perform W e c w) =
    (if childless c then answer c (kern (host_call c))
     else Inl (FgceError (error_name BufferLayout) (error_code BufferLayout)))"
proof -
  note dec = request_decoded [OF assms(1-3)]
  have "fst (submit W e request w) = decodeResponse (adapter_response kern request)"
    by (rule submit_served [OF assms(4) request_not_empty [OF assms(2)] assms(5)])
  then have p: "fst (perform W e c w) =
      bindE (ok_response (decodeResponse (adapter_response kern request))) (method_result c)"
    using assms(2) by (simp add: perform_def case_prod_unfold)
  show ?thesis
  proof (cases "childless c")
    case False
    then show ?thesis using p dec by (simp add: adapter_response_def decode_error_response ok_response_def)
  next
    case True
    show ?thesis
    proof (cases "kern (host_call c)")
      case (Inl err)
      then show ?thesis
        using p dec True by (simp add: adapter_response_def decode_error_response ok_response_def answer_def)
    next
      case (Inr r)
      then have "decodeResponse (encode_response r) = Inr (client_view r)"
        using assms(6) exact_decode [OF exact_response] by simp
      with Inr show ?thesis
        using p dec True by (simp add: adapter_response_def ok_client_view answer_def)
    qed
  qed
qed

text \<open>A module with one block of memory, to apply the theorems to.\<close>

definition one_block_module :: "(decoded \<Rightarrow> kernel_error + k_response) \<Rightarrow> (bytes \<times> bytes) wasm" where
  "one_block_module kern = \<lparr>
     fgce_abi_version = (\<lambda>w. 3),
     fgce_engine_new = (\<lambda>w. (1, w)),
     fgce_engine_free = (\<lambda>h w. w),
     fgce_alloc = (\<lambda>n (m, r). (8, (replicate (8 + n) 0, r))),
     fgce_free = (\<lambda>p n w. w),
     fgce_submit = (\<lambda>h p n (m, r). (0, (m, adapter_response kern (take n (drop p m))))),
     fgce_response_ptr = (\<lambda>h (m, r). length m),
     fgce_response_len = (\<lambda>h (m, r). length r),
     memory = (\<lambda>(m, r). m @ r),
     memory_set = (\<lambda>p bs (m, r). (take p m @ bs @ drop (p + length bs) m, r))\<rparr>"

lemma one_block_serves: "well_served (one_block_module kern) kern h request ([], [])"
  by (simp add: well_served_def one_block_module_def)

theorem method_reaches_kernel_witness:
  "fst (perform (one_block_module (\<lambda>d. Inr (KGrid 12 48))) \<lparr>destroyed = False, handle = 1\<rparr> (DoGrid 5) ([], [])) =
   Inr (RGrid \<lparr>g_fine = 12, g_primary = 48\<rparr>)"
proof -
  let ?e = "\<lparr>destroyed = False, handle = 1\<rparr>"
  have r: "request_of (DoGrid 5) = Inr [2, 5, 0, 0, 0]"
    by (simp add: encodeGrid_def with_writer_def fresh_writer_def w_u8_def w_u32_def ensure_def
      set_view_def array_set_def w_finish_def numeral_eq_Suc take_bit_eq_mod drop_bit_eq_div)
  show ?thesis
    using method_reaches_kernel [OF _ r, of ?e "one_block_module (\<lambda>d. Inr (KGrid 12 48))"
      "\<lambda>d. Inr (KGrid 12 48)" "([], [])"]
    by (simp add: one_block_serves is_u32_def answer_def method_result_def requireKind_def)
qed

theorem handle_freed_once_witness:
  "orderly \<lparr>destroyed = True, handle = 4\<rparr> [EngineFreed 4]"
proof -
  let ?W = "one_block_module (\<lambda>d. Inr KNone)" and ?e = "\<lparr>destroyed = False, handle = 4\<rparr>"
  have "uses (traced ?W) (?e, (([], []), [])) (destroy (traced ?W) ?e (([], []), []))"
    by (intro uses_destroy uses_refl)
  then have "uses (traced ?W) (?e, (([], []), [])) (\<lparr>destroyed = True, handle = 4\<rparr>, (([], []), [EngineFreed 4]))"
    by (simp add: destroy_def traced_def one_block_module_def)
  then show ?thesis by (rule handle_freed_once)
qed

text \<open>
  A destroyed engine is inert: every method throws the destroyed error and calls no export, and a
  second \<open>destroy\<close> does nothing.
\<close>

theorem destroyed_is_inert:
  assumes "destroyed e"
  shows "perform W e c w = (Inl EngineDestroyed, w) \<and> destroy W e w = (e, w)"
proof -
  obtain bs where "request_of c = Inr bs" using encoding_returns by blast
  with assms show ?thesis
    by (simp add: perform_def submit_def ok_response_def destroy_def)
qed

theorem destroyed_is_inert_witness:
  "perform (one_block_module (\<lambda>d. Inr KNone)) \<lparr>destroyed = True, handle = 4\<rparr> DoEnd ([], []) =
   (Inl EngineDestroyed, ([], []))"
  using destroyed_is_inert [of "\<lparr>destroyed = True, handle = 4\<rparr>" "one_block_module (\<lambda>d. Inr KNone)" DoEnd "([], [])"]
  by simp

end
