(* ===== verification/Chat_Folders.thy ===== *)
theory Chat_Folders
  imports Flora_Prelude "HOL-Library.Multiset"
begin

text \<open>
  The rules of the chat list (\<open>packages/flora-client-core/src/messaging/chatListFolders.ts\<close>): custom
  folders, archive and mute flags, the icon row and its limit, filters and pruning. A flag record
  \<open>Record<string, true>\<close> is the list of its keys in insertion order; keys are identifiers, never names
  that an object inherits from its prototype.
\<close>

section \<open>Strings and records of the language\<close>

type_synonym flags = "js_string list"

text \<open>\<open>{ ...a, ...b }\<close> on flag records: the keys of \<open>a\<close>, then the new keys of \<open>b\<close>.\<close>

definition spread :: "flags \<Rightarrow> flags \<Rightarrow> flags" where
  "spread a b = a @ filter (\<lambda>k. k \<notin> set a) b"

text \<open>
  A function that gives back its argument itself when nothing changes: callers compare references
  with \<open>===\<close>, so the two outcomes are kept apart.
\<close>

datatype 'a updated = Unchanged | Changed 'a

fun the_updated :: "'a \<Rightarrow> 'a updated \<Rightarrow> 'a" where
  "the_updated x Unchanged = x"
| "the_updated x (Changed y) = y"

datatype 'a nullable = Undefined | Null | Value 'a

section \<open>Constants and types\<close>

definition CHAT_LIST_MAX_FOLDER_ICONS :: nat where "CHAT_LIST_MAX_FOLDER_ICONS = 4"
definition CHAT_LIST_FOLDER_LABEL_MAX :: nat where "CHAT_LIST_FOLDER_LABEL_MAX = 80"
definition CHAT_LIST_ARCHIVE_FOLDER_ID :: js_string where "CHAT_LIST_ARCHIVE_FOLDER_ID = js ''archived''"

definition CHAT_LIST_FOLDER_ICON_NAMES :: "js_string list" where
  "CHAT_LIST_FOLDER_ICON_NAMES = map js
     [''folder-outline'', ''briefcase-outline'', ''heart-outline'', ''star-outline'', ''flash-outline'',
      ''home-outline'', ''game-controller-outline'', ''musical-notes-outline'', ''airplane-outline'',
      ''cafe-outline'', ''book-outline'', ''construct-outline'']"

definition isChatListFolderIconName :: "js_string \<Rightarrow> bool" where
  "isChatListFolderIconName value = (value \<in> set CHAT_LIST_FOLDER_ICON_NAMES)"

datatype entity_class = FolderEntity | GroupEntity

record folder_def =
  fd_id :: js_string
  fd_label :: js_string
  fd_kind :: "entity_class option"
  fd_icon :: "js_string option"
  fd_avatar :: "js_string nullable"

record entity =
  ent_id :: js_string
  ent_kind :: entity_class
  ent_label :: js_string
  ent_icon :: "js_string option"
  ent_avatar :: "js_string nullable"
  ent_peers :: "js_string list"
  ent_conversations :: "js_string list option"
  ent_created :: int

record overlay =
  entities :: "entity list"
  archivedByPeer :: flags
  mutedByPeer :: flags
  archivedByConversation :: "flags option"
  mutedByConversation :: "flags option"
  revision :: "int option"
  migratedToOrg :: "bool option"

text \<open>The label of the archive is the Russian word, as code units.\<close>

definition CHAT_LIST_FOLDER_ARCHIVE :: folder_def where
  "CHAT_LIST_FOLDER_ARCHIVE =
     \<lparr>fd_id = CHAT_LIST_ARCHIVE_FOLDER_ID,
      fd_label = [0x410, 0x440, 0x445, 0x438, 0x432],
      fd_kind = Some FolderEntity, fd_icon = None, fd_avatar = Undefined\<rparr>"

definition emptyChatListOverlayState :: overlay where
  "emptyChatListOverlayState =
     \<lparr>entities = [], archivedByPeer = [], mutedByPeer = [], archivedByConversation = Some [],
      mutedByConversation = Some [], revision = Some 0, migratedToOrg = Some False\<rparr>"

section \<open>Entities\<close>

fun uniquePeerUuids_loop :: "js_string list \<Rightarrow> js_string list \<Rightarrow> js_string list" where
  "uniquePeerUuids_loop seen [] = []"
| "uniquePeerUuids_loop seen (p # ps) =
     (let k = trim p in
      if k = [] \<or> k \<in> set seen then uniquePeerUuids_loop seen ps
      else k # uniquePeerUuids_loop (seen @ [k]) ps)"

definition uniquePeerUuids :: "js_string list \<Rightarrow> js_string list" where
  "uniquePeerUuids peers = uniquePeerUuids_loop [] peers"

definition entitiesToFolderDefs :: "entity list \<Rightarrow> folder_def list" where
  "entitiesToFolderDefs es = map (\<lambda>e.
     \<lparr>fd_id = ent_id e, fd_label = ent_label e, fd_kind = Some (ent_kind e), fd_icon = ent_icon e,
      fd_avatar = ent_avatar e\<rparr>) es"

text \<open>The membership record, the last entity with an id winning.\<close>

definition membershipByEntityId :: "entity list \<Rightarrow> js_string \<Rightarrow> js_string list option" where
  "membershipByEntityId es = map_of (rev (map (\<lambda>e. (ent_id e, ent_peers e)) es))"

definition add_peer :: "js_string \<Rightarrow> js_string \<Rightarrow> entity \<Rightarrow> entity" where
  "add_peer entityId peer e =
     (if ent_id e \<noteq> entityId then e
      else if peer \<in> set (ent_peers e) then e
      else e\<lparr>ent_peers := ent_peers e @ [peer]\<rparr>)"

definition addPeerToChatListEntity :: "entity list \<Rightarrow> js_string \<Rightarrow> js_string \<Rightarrow> entity list updated" where
  "addPeerToChatListEntity es entityId peerUuid =
     (let peer = trim peerUuid in
      if peer = [] then Unchanged
      else if list_ex (\<lambda>e. ent_id e = entityId \<and> peer \<notin> set (ent_peers e)) es
      then Changed (map (add_peer entityId peer) es)
      else Unchanged)"

definition removeChatListEntity :: "entity list \<Rightarrow> js_string \<Rightarrow> entity list updated" where
  "removeChatListEntity es entityId =
     (let next = filter (\<lambda>e. ent_id e \<noteq> entityId) es in
      if length next = length es then Unchanged else Changed next)"

section \<open>Flags and counts\<close>

definition countArchivedPeers :: "flags \<Rightarrow> js_string set option \<Rightarrow> nat" where
  "countArchivedPeers archived known =
     (case known of
        None \<Rightarrow> length archived
      | Some ks \<Rightarrow> length (filter (\<lambda>k. k \<in> ks) archived))"

definition isConversationArchived :: "js_string \<Rightarrow> flags option \<Rightarrow> bool" where
  "isConversationArchived conv archived = (case archived of None \<Rightarrow> False | Some m \<Rightarrow> conv \<in> set m)"

definition isPeerArchived :: "js_string \<Rightarrow> flags \<Rightarrow> bool" where
  "isPeerArchived peer archived = (peer \<in> set archived)"

definition countArchivedForFolderIcon :: "flags \<Rightarrow> flags option \<Rightarrow> js_string set option \<Rightarrow> nat" where
  "countArchivedForFolderIcon peers convs dms =
     (let peerCount = countArchivedPeers peers None;
          convKeys = (case convs of None \<Rightarrow> [] | Some m \<Rightarrow> m)
      in case dms of
           Some ds \<Rightarrow> peerCount + length (filter (\<lambda>k. \<not> (k \<in> ds \<or> toLowerCase k \<in> ds)) convKeys)
         | None \<Rightarrow> peerCount + (length convKeys - peerCount))"

definition countArchivedGroupConversations :: "flags option \<Rightarrow> js_string set \<Rightarrow> nat" where
  "countArchivedGroupConversations archived known =
     (case archived of None \<Rightarrow> 0 | Some m \<Rightarrow> length (filter (\<lambda>k. k \<in> known) m))"

definition setPeerArchivedFlag :: "flags \<Rightarrow> js_string \<Rightarrow> bool \<Rightarrow> flags updated" where
  "setPeerArchivedFlag m peer archived =
     (if archived then (if peer \<in> set m then Unchanged else Changed (m @ [peer]))
      else if peer \<notin> set m then Unchanged
      else Changed (filter (\<lambda>k. k \<noteq> peer) m))"

definition setPeerMutedFlag :: "flags \<Rightarrow> js_string \<Rightarrow> bool \<Rightarrow> flags updated" where
  "setPeerMutedFlag = setPeerArchivedFlag"

text \<open>The loop over the conversations that disappeared: the key itself and its lower-case form go.\<close>

definition drop_key :: "js_string \<Rightarrow> flags \<Rightarrow> flags" where
  "drop_key k m = filter (\<lambda>x. x \<noteq> k) m"

fun prune_loop :: "js_string list \<Rightarrow> flags \<times> bool \<Rightarrow> flags \<times> bool" where
  "prune_loop [] s = s"
| "prune_loop (u # us) (next, changed) =
     (let (next, changed) = (if u \<in> set next then (drop_key u next, True) else (next, changed));
          l = toLowerCase u;
          (next, changed) = (if l \<noteq> u \<and> l \<in> set next then (drop_key l next, True) else (next, changed))
      in prune_loop us (next, changed))"

definition pruneArchivedConversations :: "flags option \<Rightarrow> js_string list \<Rightarrow> flags updated" where
  "pruneArchivedConversations archived gone =
     (let src = (case archived of None \<Rightarrow> [] | Some m \<Rightarrow> m) in
      if gone = [] then Unchanged
      else case prune_loop gone (src, False) of (next, changed) \<Rightarrow> if changed then Changed next else Unchanged)"

definition pruneArchivedPeers :: "flags \<Rightarrow> js_string set \<Rightarrow> flags updated" where
  "pruneArchivedPeers archived known =
     (if list_ex (\<lambda>k. k \<notin> known) archived then Changed (filter (\<lambda>k. k \<in> known) archived) else Unchanged)"

section \<open>The icon row\<close>

fun order_loop :: "js_string list \<Rightarrow> folder_def list \<Rightarrow> folder_def list \<times> bool" where
  "order_loop seen [] = ([], False)"
| "order_loop seen (f # fs) =
     (if fd_id f = CHAT_LIST_ARCHIVE_FOLDER_ID then (fst (order_loop seen fs), True)
      else if fd_id f \<in> set seen then order_loop seen fs
      else (f # fst (order_loop (fd_id f # seen) fs), snd (order_loop (fd_id f # seen) fs)))"

definition orderChatListFolders :: "folder_def list \<Rightarrow> folder_def list" where
  "orderChatListFolders folders =
     (let (custom, archive) = order_loop [] folders
      in if archive then custom @ [CHAT_LIST_FOLDER_ARCHIVE] else custom)"

definition maxCustomChatListFolders :: "int \<Rightarrow> int \<Rightarrow> int" where
  "maxCustomChatListFolders archivedCount maxIcons =
     max 0 (maxIcons - (if archivedCount > 0 then 1 else 0))"

definition canCreateChatListFolder :: "int \<Rightarrow> int \<Rightarrow> int \<Rightarrow> bool" where
  "canCreateChatListFolder archivedCount customCount maxIcons =
     (customCount < maxCustomChatListFolders archivedCount maxIcons)"

definition canArchiveChatListPeer :: "int \<Rightarrow> int \<Rightarrow> int \<Rightarrow> bool" where
  "canArchiveChatListPeer archivedCount customCount maxIcons =
     (if archivedCount > 0 then True else customCount < maxIcons)"

definition listVisibleChatFolders :: "int \<Rightarrow> folder_def list \<Rightarrow> int \<Rightarrow> folder_def list" where
  "listVisibleChatFolders archivedCount customFolders maxIcons =
     (let cap = maxCustomChatListFolders archivedCount maxIcons;
          folders = take (nat cap) customFolders
      in orderChatListFolders
           (if archivedCount > 0 then folders @ [CHAT_LIST_FOLDER_ARCHIVE] else folders))"

definition chatListFolderPageIds :: "folder_def list \<Rightarrow> js_string list" where
  "chatListFolderPageIds visible = js ''all'' # map fd_id visible"

fun index_of :: "'a \<Rightarrow> 'a list \<Rightarrow> int" where
  "index_of x [] = -1"
| "index_of x (y # ys) = (if x = y then 0 else let i = index_of x ys in if i < 0 then -1 else i + 1)"

definition chatListFolderPageIndex :: "js_string list \<Rightarrow> js_string \<Rightarrow> int" where
  "chatListFolderPageIndex pages folder = (let i = index_of folder pages in if i < 0 then 0 else i)"

definition normalizeChatListFolder :: "js_string \<Rightarrow> int \<Rightarrow> js_string set option \<Rightarrow> js_string" where
  "normalizeChatListFolder folder archivedCount known =
     (if folder = js ''archived'' \<and> archivedCount \<le> 0 then js ''all''
      else if folder \<noteq> js ''all'' \<and> folder \<noteq> js ''archived'' \<and>
              (case known of None \<Rightarrow> False | Some ks \<Rightarrow> folder \<notin> ks) then js ''all''
      else folder)"

section \<open>Filters\<close>

definition filterConversationsByFolder ::
  "('c \<Rightarrow> js_string) \<Rightarrow> 'c list \<Rightarrow> js_string \<Rightarrow> flags \<Rightarrow> (js_string \<Rightarrow> js_string list option) \<Rightarrow> 'c list" where
  "filterConversationsByFolder peer_of items folder archived membership =
     (if folder = js ''archived'' then filter (\<lambda>i. isPeerArchived (peer_of i) archived) items
      else if folder = js ''all'' then filter (\<lambda>i. \<not> isPeerArchived (peer_of i) archived) items
      else case membership folder of
             None \<Rightarrow> []
           | Some members \<Rightarrow>
               filter (\<lambda>i. peer_of i \<in> set members \<and> \<not> isPeerArchived (peer_of i) archived) items)"

definition filterGroupsByFolder ::
  "('c \<Rightarrow> js_string) \<Rightarrow> 'c list \<Rightarrow> js_string \<Rightarrow> flags option \<Rightarrow> 'c list" where
  "filterGroupsByFolder conv_of items folder archived =
     (if folder = js ''archived'' then filter (\<lambda>i. isConversationArchived (conv_of i) archived) items
      else if folder = js ''all'' then filter (\<lambda>i. \<not> isConversationArchived (conv_of i) archived) items
      else [])"

section \<open>Flag records\<close>

lemma the_updated_flag:
  "set (the_updated m (setPeerArchivedFlag m p a)) = (if a then insert p (set m) else set m - {p})"
  by (auto simp: setPeerArchivedFlag_def)

lemma distinct_updated_flag: "distinct m \<Longrightarrow> distinct (the_updated m (setPeerArchivedFlag m p a))"
  by (auto simp: setPeerArchivedFlag_def)

lemma flag_unchanged_iff: "setPeerArchivedFlag m p a = Unchanged \<longleftrightarrow> (p \<in> set m \<longleftrightarrow> a)"
  by (auto simp: setPeerArchivedFlag_def)

lemma set_spread [simp]: "set (spread a b) = set a \<union> set b"
  by (auto simp: spread_def)

lemma distinct_spread: "distinct a \<Longrightarrow> distinct b \<Longrightarrow> distinct (spread a b)"
  by (auto simp: spread_def)

definition goes_with :: "js_string list \<Rightarrow> js_string \<Rightarrow> bool" where
  "goes_with gone k \<longleftrightarrow> list_ex (\<lambda>u. k = u \<or> k = toLowerCase u) gone"

lemma prune_loop_result:
  "prune_loop us (m, c) =
   (filter (\<lambda>k. \<not> goes_with us k) m, c \<or> list_ex (goes_with us) m)"
proof (induction us arbitrary: m c)
  case Nil
  then show ?case by (simp add: goes_with_def list_ex_iff)
next
  case (Cons u us)
  let ?l = "toLowerCase u"
  let ?m = "filter (\<lambda>k. k \<noteq> u \<and> k \<noteq> ?l) m"
  have step: "prune_loop (u # us) (m, c) = prune_loop us (?m, c \<or> u \<in> set m \<or> ?l \<in> set m)"
  proof -
    have "x \<notin> set m \<Longrightarrow> filter (\<lambda>k. k \<noteq> x) m = m" for x by (metis (mono_tags) filter_True)
    moreover have "filter (\<lambda>k. k \<noteq> ?l) (filter (\<lambda>k. k \<noteq> u) m) = ?m" by (simp add: conj_commute)
    ultimately show ?thesis
      by (cases "u \<in> set m"; cases "?l = u"; cases "?l \<in> set m")
        (auto simp: Let_def drop_key_def filter_filter intro!: arg_cong2 [of _ _ _ _ prune_loop] filter_cong)
  qed
  show ?case unfolding step Cons.IH
    by (auto simp: goes_with_def list_ex_iff intro!: filter_cong)
qed

text \<open>
  Pruning forgets exactly the archive flags of the conversations that disappeared (under their
  own key or its lower-case form), keeps every other flag in place, and gives the record itself back
  exactly when there was nothing to forget.
\<close>

theorem prune_drops_exactly:
  "the_updated m (pruneArchivedConversations (Some m) gone) = filter (\<lambda>k. \<not> goes_with gone k) m \<and>
   (pruneArchivedConversations (Some m) gone = Unchanged \<longleftrightarrow> \<not> list_ex (goes_with gone) m)"
proof (cases "gone = []")
  case True
  then show ?thesis by (simp add: pruneArchivedConversations_def goes_with_def list_ex_iff)
next
  case False
  show ?thesis
  proof (cases "list_ex (goes_with gone) m")
    case True
    with False show ?thesis by (simp add: pruneArchivedConversations_def prune_loop_result)
  next
    case none: False
    then have "filter (\<lambda>k. \<not> goes_with gone k) m = m" by (auto simp: list_ex_iff intro: filter_True)
    with False none show ?thesis by (simp add: pruneArchivedConversations_def prune_loop_result)
  qed
qed

section \<open>Filters\<close>

text \<open>
  The main list and the archive split the conversations: every conversation is shown in exactly
  one of the two, in the order of the list, and a custom folder shows only conversations of its
  members that the main list shows too.
\<close>

theorem filters_partition:
  "mset (filterConversationsByFolder peer_of items (js ''all'') archived membership) +
   mset (filterConversationsByFolder peer_of items (js ''archived'') archived membership) = mset items \<and>
   set (filterConversationsByFolder peer_of items folder archived membership) \<subseteq>
   set (filterConversationsByFolder peer_of items
          (if folder = js ''archived'' then folder else js ''all'') archived membership)"
proof
  have "js ''all'' \<noteq> js ''archived''" by simp
  then show "mset (filterConversationsByFolder peer_of items (js ''all'') archived membership) +
   mset (filterConversationsByFolder peer_of items (js ''archived'') archived membership) = mset items"
    by (simp add: filterConversationsByFolder_def add.commute)
next
  show "set (filterConversationsByFolder peer_of items folder archived membership) \<subseteq>
   set (filterConversationsByFolder peer_of items
          (if folder = js ''archived'' then folder else js ''all'') archived membership)"
    by (auto simp: filterConversationsByFolder_def split: option.splits)
qed

section \<open>The icon row\<close>

lemma order_loop_custom:
  "CHAT_LIST_ARCHIVE_FOLDER_ID \<notin> set (map fd_id fs) \<Longrightarrow> \<not> snd (order_loop seen fs)"
  by (induction fs arbitrary: seen) auto

lemma order_loop_distinct:
  "distinct (map fd_id (fst (order_loop seen fs))) \<and>
   set (map fd_id (fst (order_loop seen fs))) \<inter> set seen = {} \<and>
   CHAT_LIST_ARCHIVE_FOLDER_ID \<notin> set (map fd_id (fst (order_loop seen fs)))"
proof (induction fs arbitrary: seen)
  case (Cons f fs)
  then show ?case using Cons.IH [of seen] Cons.IH [of "fd_id f # seen"] by auto
qed simp

lemma order_loop_set:
  "set (map fd_id (fst (order_loop seen fs))) = set (map fd_id fs) - set seen - {CHAT_LIST_ARCHIVE_FOLDER_ID}"
  by (induction fs arbitrary: seen) auto

lemma order_loop_append_archive:
  "order_loop seen (fs @ [CHAT_LIST_FOLDER_ARCHIVE]) = (fst (order_loop seen fs), True)"
  by (induction fs arbitrary: seen) (auto simp: CHAT_LIST_FOLDER_ARCHIVE_def)

lemma length_order_loop: "length (fst (order_loop seen fs)) \<le> length fs"
proof (induction fs arbitrary: seen)
  case (Cons f fs)
  then show ?case using Cons.IH [of seen] Cons.IH [of "fd_id f # seen"] by (auto intro: le_SucI)
qed simp

definition icon_row_ok :: "int \<Rightarrow> int \<Rightarrow> folder_def list \<Rightarrow> bool" where
  "icon_row_ok archivedCount maxIcons row \<longleftrightarrow>
     int (length row) \<le> maxIcons \<and> distinct (map fd_id row) \<and>
     (CHAT_LIST_ARCHIVE_FOLDER_ID \<in> set (map fd_id row) \<longleftrightarrow> archivedCount > 0) \<and>
     (if archivedCount > 0 then row \<noteq> [] \<and> last row = CHAT_LIST_FOLDER_ARCHIVE else True)"

text \<open>
  Whatever the cached folders are, the row of folder icons never exceeds its limit, shows no folder
  twice, and contains the archive exactly when something is archived, always as the last icon.
\<close>

theorem visible_row_ok:
  assumes "1 \<le> maxIcons" and "CHAT_LIST_ARCHIVE_FOLDER_ID \<notin> set (map fd_id customFolders)"
  shows "icon_row_ok archivedCount maxIcons (listVisibleChatFolders archivedCount customFolders maxIcons)"
proof -
  define cap where "cap = nat (maxCustomChatListFolders archivedCount maxIcons)"
  let ?fs = "take cap customFolders"
  have no: "CHAT_LIST_ARCHIVE_FOLDER_ID \<notin> set (map fd_id ?fs)"
    using assms(2) by (auto dest: in_set_takeD)
  have len: "length (fst (order_loop [] ?fs)) \<le> cap"
    using length_order_loop [of "[]" ?fs] by (simp add: le_trans)
  have d: "distinct (map fd_id (fst (order_loop [] ?fs)))"
    "CHAT_LIST_ARCHIVE_FOLDER_ID \<notin> set (map fd_id (fst (order_loop [] ?fs)))"
    using order_loop_distinct [of "[]" ?fs] by simp_all
  have arch: "fd_id CHAT_LIST_FOLDER_ARCHIVE = CHAT_LIST_ARCHIVE_FOLDER_ID"
    by (simp add: CHAT_LIST_FOLDER_ARCHIVE_def)
  show ?thesis
  proof (cases "archivedCount > 0")
    case True
    then have "int cap + 1 \<le> maxIcons" using assms(1) by (simp add: cap_def maxCustomChatListFolders_def)
    with True len d arch show ?thesis
      by (simp add: icon_row_ok_def listVisibleChatFolders_def Let_def cap_def [symmetric]
          orderChatListFolders_def order_loop_append_archive)
  next
    case False
    have "int cap \<le> maxIcons" using assms(1) False by (simp add: cap_def maxCustomChatListFolders_def)
    with False len d order_loop_custom [OF no, of "[]"] show ?thesis
      by (simp add: icon_row_ok_def listVisibleChatFolders_def Let_def cap_def [symmetric]
          orderChatListFolders_def case_prod_unfold)
  qed
qed

theorem visible_row_ok_witness:
  "icon_row_ok 2 4 (listVisibleChatFolders 2 (map (\<lambda>i. \<lparr>fd_id = [i], fd_label = [65], fd_kind = None,
     fd_icon = None, fd_avatar = Undefined\<rparr>) [1, 2, 2, 3, 4]) 4)"
  by (rule visible_row_ok) (simp_all add: CHAT_LIST_ARCHIVE_FOLDER_ID_def)

lemma length_uniquePeers_loop_distinct:
  "distinct (uniquePeerUuids_loop seen ps) \<and> set (uniquePeerUuids_loop seen ps) \<inter> set seen = {}"
proof (induction ps arbitrary: seen)
  case (Cons p ps)
  then show ?case using Cons.IH [of seen] Cons.IH [of "seen @ [trim p]"] by (auto simp: Let_def)
qed simp

lemma distinct_uniquePeerUuids: "distinct (uniquePeerUuids ps)"
  using length_uniquePeers_loop_distinct [of "[]" ps] by (simp add: uniquePeerUuids_def)

end
