(* ===== verification/Fscp_Ids.thy ===== *)
theory Fscp_Ids
  imports Flora_Prelude
begin

text \<open>The derived identifiers of \<open>products/FSCP/ts/src/deriveIds.ts\<close>.\<close>

section \<open>Identifiers\<close>

text \<open>The name-based \<open>uuidv5\<close> is a parameter.\<close>

definition dmConversationUuid :: "(js_string \<Rightarrow> js_string) \<Rightarrow> js_string \<Rightarrow> js_string \<Rightarrow> js_string" where
  "dmConversationUuid uuidv5 userA userB =
     (let a = toLowerCase userA; b = toLowerCase userB;
          (x, y) = (if js_less a b then (a, b) else (b, a))
      in uuidv5 (x @ js ''|'' @ y @ js ''|fscp-dm-v1''))"

definition agreementPublicKeyId :: "(js_string \<Rightarrow> js_string) \<Rightarrow> js_string \<Rightarrow> js_string \<Rightarrow> js_string" where
  "agreementPublicKeyId uuidv5 userUuid keyEpochId =
     uuidv5 (toLowerCase userUuid @ js ''|'' @ toLowerCase keyEpochId @ js ''|agreement-v1'')"

text \<open>Both members of a conversation derive the same identifier.\<close>

lemma dmConversationUuid_sym: "dmConversationUuid h a b = dmConversationUuid h b a"
  using js_less_trans [of "toLowerCase a" "toLowerCase b" "toLowerCase a"] js_less_linear [of "toLowerCase a" "toLowerCase b"]
    js_less_irrefl [of "toLowerCase a"]
  by (auto simp: dmConversationUuid_def Let_def)

end
