(* ===== verification/Chat_Organizer.thy ===== *)
theory Chat_Organizer
  imports Chat_Folders Fscp_Ids "HOL-Library.AList"
begin

text \<open>
  The organizer of the chat list: the mapping between the local state and the encrypted plaintext
  (\<open>messaging/chatOrganizerMap.ts\<close>), the conversations of the archived peers, and the intents with their application and undo
  (\<open>messaging/chatOrganizerSession.ts\<close>). The hash behind a name-based identifier is a parameter.
\<close>

section \<open>Plaintext\<close>

record plain_entity =
  pe_id :: js_string
  pe_kind :: entity_class
  pe_label :: js_string
  pe_icon :: "js_string option"
  pe_avatar :: "js_string nullable"
  pe_peers :: "js_string list"
  pe_conversations :: "js_string list"
  pe_created :: int

record plaintext =
  pl_entities :: "plain_entity list"
  pl_archivedByPeer :: flags
  pl_mutedByPeer :: flags
  pl_archivedByConversation :: flags
  pl_mutedByConversation :: flags
  clientUpdatedAt :: js_string

definition entity_to_plain :: "entity \<Rightarrow> plain_entity" where
  "entity_to_plain e =
     \<lparr>pe_id = ent_id e, pe_kind = ent_kind e, pe_label = take CHAT_LIST_FOLDER_LABEL_MAX (ent_label e),
      pe_icon = ent_icon e, pe_avatar = (case ent_avatar e of Undefined \<Rightarrow> Null | a \<Rightarrow> a),
      pe_peers = ent_peers e,
      pe_conversations = (case ent_conversations e of None \<Rightarrow> [] | Some cs \<Rightarrow> cs),
      pe_created = ent_created e\<rparr>"

definition or_empty :: "flags option \<Rightarrow> flags" where
  "or_empty m = (case m of None \<Rightarrow> [] | Some f \<Rightarrow> f)"

definition overlayStateToOrganizerPlaintext :: "overlay \<Rightarrow> js_string \<Rightarrow> plaintext" where
  "overlayStateToOrganizerPlaintext s nowIso =
     \<lparr>pl_entities = map entity_to_plain (entities s),
      pl_archivedByPeer = archivedByPeer s,
      pl_mutedByPeer = mutedByPeer s,
      pl_archivedByConversation = or_empty (archivedByConversation s),
      pl_mutedByConversation = or_empty (mutedByConversation s),
      clientUpdatedAt = nowIso\<rparr>"

definition entity_from_plain :: "plain_entity \<Rightarrow> entity" where
  "entity_from_plain e =
     \<lparr>ent_id = pe_id e, ent_kind = pe_kind e, ent_label = take CHAT_LIST_FOLDER_LABEL_MAX (pe_label e),
      ent_icon = pe_icon e, ent_avatar = pe_avatar e, ent_peers = pe_peers e,
      ent_conversations = Some (pe_conversations e), ent_created = pe_created e\<rparr>"

definition organizerPlaintextToOverlayState :: "plaintext \<Rightarrow> int option \<Rightarrow> bool option \<Rightarrow> overlay" where
  "organizerPlaintextToOverlayState p rv migrated =
     \<lparr>entities = map entity_from_plain (pl_entities p),
      archivedByPeer = pl_archivedByPeer p,
      mutedByPeer = pl_mutedByPeer p,
      archivedByConversation = Some (pl_archivedByConversation p),
      mutedByConversation = Some (pl_mutedByConversation p),
      revision = Some (case rv of None \<Rightarrow> 0 | Some r \<Rightarrow> r),
      migratedToOrg = Some (case migrated of None \<Rightarrow> True | Some m \<Rightarrow> m)\<rparr>"

text \<open>\<open>Map.set\<close> for each entity, first the server's, then the local ones.\<close>

definition set_entities :: "entity list \<Rightarrow> (js_string \<times> entity) list \<Rightarrow> (js_string \<times> entity) list" where
  "set_entities es m = fold (\<lambda>e. AList.update (ent_id e) e) es m"

definition mergeOverlayForMigrate :: "overlay \<Rightarrow> overlay option \<Rightarrow> overlay" where
  "mergeOverlayForMigrate l fromApi =
     (case fromApi of
        None \<Rightarrow> l
      | Some a \<Rightarrow>
          \<lparr>entities = map snd (set_entities (entities l) (set_entities (entities a) [])),
           archivedByPeer = spread (archivedByPeer a) (archivedByPeer l),
           mutedByPeer = spread (mutedByPeer a) (mutedByPeer l),
           archivedByConversation =
             Some (spread (or_empty (archivedByConversation a)) (or_empty (archivedByConversation l))),
           mutedByConversation =
             Some (spread (or_empty (mutedByConversation a)) (or_empty (mutedByConversation l))),
           revision = Some 0, migratedToOrg = Some False\<rparr>)"

definition emptyOrganizerPlaintext :: "js_string \<Rightarrow> plaintext" where
  "emptyOrganizerPlaintext nowIso = overlayStateToOrganizerPlaintext emptyChatListOverlayState nowIso"

section \<open>Conversation identifiers\<close>

definition dmConversationUuidsOfArchivedPeers ::
  "(js_string \<Rightarrow> js_string) \<Rightarrow> js_string \<Rightarrow> flags \<Rightarrow> js_string set" where
  "dmConversationUuidsOfArchivedPeers uuidv5 ownerUserUuid archived =
     (let owner = trim ownerUserUuid in
      if owner = [] then {}
      else set (concat (map (\<lambda>peer.
             let i = dmConversationUuid uuidv5 owner peer in [i, toLowerCase i]) archived)))"

definition archivedSlotCount :: "(js_string \<Rightarrow> js_string) \<Rightarrow> overlay \<Rightarrow> js_string option \<Rightarrow> nat" where
  "archivedSlotCount uuidv5 s owner =
     countArchivedForFolderIcon (archivedByPeer s) (archivedByConversation s)
       (case owner of
          None \<Rightarrow> None
        | Some u \<Rightarrow> if trim u = [] then None
                    else Some (dmConversationUuidsOfArchivedPeers uuidv5 (trim u) (archivedByPeer s)))"

section \<open>Intents\<close>

datatype intent =
    CreateFolder entity
  | AddPeer js_string js_string
  | RemoveFolder js_string "entity option"
  | SetArchived js_string js_string bool
  | SetGroupArchived js_string bool
  | SetMuted js_string js_string bool

text \<open>\<open>null\<close>, the very state object, or a new one.\<close>

datatype outcome = Refused | Same | Next overlay

text \<open>
  \<open>flag(record ?? {}, key)\<close> followed by \<open>=== (record ?? {})\<close>: an absent record is a fresh object on
  both sides, so it never compares equal.
\<close>

definition conv_flag :: "flags option \<Rightarrow> js_string \<Rightarrow> bool \<Rightarrow> flags option updated" where
  "conv_flag rcd conv on =
     (let u = (if conv = [] then Unchanged else setPeerArchivedFlag (or_empty rcd) conv on) in
      if rcd \<noteq> None \<and> u = Unchanged then Unchanged
      else Changed (Some (the_updated (or_empty rcd) u)))"

definition set_archived :: "overlay \<Rightarrow> js_string \<Rightarrow> js_string \<Rightarrow> bool \<Rightarrow> outcome" where
  "set_archived s peer conversationUuid archived =
     (let p = setPeerArchivedFlag (archivedByPeer s) peer archived;
          c = conv_flag (archivedByConversation s) (trim conversationUuid) archived
      in if p = Unchanged \<and> c = Unchanged then Same
         else Next (s\<lparr>archivedByPeer := the_updated (archivedByPeer s) p,
                      archivedByConversation := the_updated (archivedByConversation s) c\<rparr>))"

fun applyIntent :: "(js_string \<Rightarrow> js_string) \<Rightarrow> overlay \<Rightarrow> intent \<Rightarrow> js_string option \<Rightarrow> outcome" where
  "applyIntent h s (CreateFolder e) owner =
     (if list_ex (\<lambda>x. ent_id x = ent_id e) (entities s)
      then Next (s\<lparr>entities := map (\<lambda>x. if ent_id x = ent_id e then e else x) (entities s)\<rparr>)
      else Next (s\<lparr>entities := entities s @ [e]\<rparr>))"
| "applyIntent h s (AddPeer entityId peer) owner =
     (case addPeerToChatListEntity (entities s) entityId peer of
        Unchanged \<Rightarrow> Refused
      | Changed es \<Rightarrow> Next (s\<lparr>entities := es\<rparr>))"
| "applyIntent h s (RemoveFolder entityId removed) owner =
     (case removeChatListEntity (entities s) entityId of
        Unchanged \<Rightarrow> Refused
      | Changed es \<Rightarrow> Next (s\<lparr>entities := es\<rparr>))"
| "applyIntent h s (SetArchived peer conv archived) owner =
     (if archived \<and> \<not> canArchiveChatListPeer (int (archivedSlotCount h s owner)) (int (length (entities s)))
           (int CHAT_LIST_MAX_FOLDER_ICONS)
      then Refused else set_archived s peer conv archived)"
| "applyIntent h s (SetGroupArchived conversationUuid archived) owner =
     (let conv = trim conversationUuid in
      if conv = [] then Refused
      else if archived \<and> \<not> canArchiveChatListPeer (int (archivedSlotCount h s owner)) (int (length (entities s)))
           (int CHAT_LIST_MAX_FOLDER_ICONS)
      then Refused
      else case conv_flag (archivedByConversation s) conv archived of
             Unchanged \<Rightarrow> Same
           | Changed c \<Rightarrow> Next (s\<lparr>archivedByConversation := c\<rparr>))"
| "applyIntent h s (SetMuted peer conversationUuid muted) owner =
     (let p = setPeerMutedFlag (mutedByPeer s) peer muted;
          c = conv_flag (mutedByConversation s) (trim conversationUuid) muted
      in if p = Unchanged \<and> c = Unchanged then Same
         else Next (s\<lparr>mutedByPeer := the_updated (mutedByPeer s) p,
                      mutedByConversation := the_updated (mutedByConversation s) c\<rparr>))"

text \<open>\<open>outcome ?? state\<close>.\<close>

fun or_state :: "overlay \<Rightarrow> outcome \<Rightarrow> overlay" where
  "or_state s Refused = s"
| "or_state s Same = s"
| "or_state s (Next t) = t"

fun revertIntent :: "(js_string \<Rightarrow> js_string) \<Rightarrow> overlay \<Rightarrow> intent \<Rightarrow> js_string option \<Rightarrow> overlay" where
  "revertIntent h s (CreateFolder e) owner =
     s\<lparr>entities := filter (\<lambda>x. ent_id x \<noteq> ent_id e) (entities s)\<rparr>"
| "revertIntent h s (AddPeer entityId peer) owner =
     s\<lparr>entities := map (\<lambda>x. if ent_id x \<noteq> entityId then x
                            else x\<lparr>ent_peers := filter (\<lambda>p. p \<noteq> peer) (ent_peers x)\<rparr>) (entities s)\<rparr>"
| "revertIntent h s (RemoveFolder entityId removed) owner =
     (case removed of
        None \<Rightarrow> s
      | Some e \<Rightarrow> if list_ex (\<lambda>x. ent_id x = ent_id e) (entities s) then s
                  else s\<lparr>entities := entities s @ [e]\<rparr>)"
| "revertIntent h s (SetArchived peer conv archived) owner =
     or_state s (applyIntent h s (SetArchived peer conv (\<not> archived)) owner)"
| "revertIntent h s (SetGroupArchived conv archived) owner =
     or_state s (applyIntent h s (SetGroupArchived conv (\<not> archived)) owner)"
| "revertIntent h s (SetMuted peer conv muted) owner =
     or_state s (applyIntent h s (SetMuted peer conv (\<not> muted)) owner)"

section \<open>Plaintext round trip\<close>

definition plain_entity_ok :: "plain_entity \<Rightarrow> bool" where
  "plain_entity_ok e \<longleftrightarrow> length (pe_label e) \<le> CHAT_LIST_FOLDER_LABEL_MAX \<and> pe_avatar e \<noteq> Undefined"

definition entity_ok :: "entity \<Rightarrow> bool" where
  "entity_ok e \<longleftrightarrow>
     length (ent_label e) \<le> CHAT_LIST_FOLDER_LABEL_MAX \<and> ent_avatar e \<noteq> Undefined \<and> ent_conversations e \<noteq> None"

definition overlay_complete :: "overlay \<Rightarrow> bool" where
  "overlay_complete s \<longleftrightarrow>
     list_all entity_ok (entities s) \<and> archivedByConversation s \<noteq> None \<and> mutedByConversation s \<noteq> None \<and>
     revision s \<noteq> None \<and> migratedToOrg s \<noteq> None"

lemma entity_round: "entity_ok e \<Longrightarrow> entity_from_plain (entity_to_plain e) = e"
  by (cases e; cases "ent_avatar e") (auto simp: entity_ok_def entity_from_plain_def entity_to_plain_def)

lemma plain_entity_round: "plain_entity_ok e \<Longrightarrow> entity_to_plain (entity_from_plain e) = e"
  by (cases e; cases "pe_avatar e") (auto simp: plain_entity_ok_def entity_from_plain_def entity_to_plain_def)

text \<open>
  What is encrypted is what another device shows: a complete local state is rebuilt exactly from
  its plaintext (with its own revision and migration mark), and a plaintext survives a pass through
  the local state.
\<close>

theorem organizer_roundtrip:
  assumes "overlay_complete s" and "list_all plain_entity_ok (pl_entities p)"
  shows "organizerPlaintextToOverlayState (overlayStateToOrganizerPlaintext s now) (revision s) (migratedToOrg s) = s \<and>
         overlayStateToOrganizerPlaintext (organizerPlaintextToOverlayState p r m) (clientUpdatedAt p) = p"
proof
  have "map (entity_from_plain \<circ> entity_to_plain) (entities s) = entities s"
    using assms(1) by (intro map_idI) (auto simp: overlay_complete_def list_all_iff entity_round)
  with assms(1)
  show "organizerPlaintextToOverlayState (overlayStateToOrganizerPlaintext s now) (revision s) (migratedToOrg s) = s"
    by (cases s)
      (auto simp: overlay_complete_def organizerPlaintextToOverlayState_def
        overlayStateToOrganizerPlaintext_def or_empty_def)
next
  have "map (entity_to_plain \<circ> entity_from_plain) (pl_entities p) = pl_entities p"
    using assms(2) by (intro map_idI) (auto simp: list_all_iff plain_entity_round)
  then show "overlayStateToOrganizerPlaintext (organizerPlaintextToOverlayState p r m) (clientUpdatedAt p) = p"
    by (cases p)
      (simp add: organizerPlaintextToOverlayState_def overlayStateToOrganizerPlaintext_def or_empty_def)
qed

theorem organizer_roundtrip_witness:
  "let e = \<lparr>ent_id = [1], ent_kind = FolderEntity, ent_label = [87], ent_icon = None, ent_avatar = Null,
            ent_peers = [[5]], ent_conversations = Some [], ent_created = 3\<rparr>;
       s = \<lparr>entities = [e], archivedByPeer = [[5]], mutedByPeer = [], archivedByConversation = Some [],
            mutedByConversation = Some [], revision = Some 4, migratedToOrg = Some True\<rparr>
   in organizerPlaintextToOverlayState (overlayStateToOrganizerPlaintext s [50]) (Some 4) (Some True) = s"
proof -
  let ?e = "\<lparr>ent_id = [1], ent_kind = FolderEntity, ent_label = [87], ent_icon = None, ent_avatar = Null,
            ent_peers = [[5]], ent_conversations = Some [], ent_created = 3\<rparr>"
  let ?s = "\<lparr>entities = [?e], archivedByPeer = [[5]], mutedByPeer = [], archivedByConversation = Some [],
            mutedByConversation = Some [], revision = Some 4, migratedToOrg = Some True\<rparr>"
  have "overlay_complete ?s" by (simp add: overlay_complete_def entity_ok_def CHAT_LIST_FOLDER_LABEL_MAX_def)
  moreover have "list_all plain_entity_ok (pl_entities (emptyOrganizerPlaintext []))"
    by (simp add: emptyOrganizerPlaintext_def overlayStateToOrganizerPlaintext_def emptyChatListOverlayState_def)
  ultimately show ?thesis using organizer_roundtrip [of ?s "emptyOrganizerPlaintext []" "[50]"] by simp
qed

section \<open>First migration\<close>

lemma find_append:
  "find P (xs @ ys) = (case find P xs of None \<Rightarrow> find P ys | Some x \<Rightarrow> Some x)"
  by (induction xs) auto

lemma map_of_set_entities:
  "map_of (set_entities es m) i = (case find (\<lambda>e. ent_id e = i) (rev es) of Some e \<Rightarrow> Some e | None \<Rightarrow> map_of m i)"
proof (induction es arbitrary: m)
  case (Cons e es)
  have "set_entities (e # es) m = set_entities es (AList.update (ent_id e) e m)"
    by (simp add: set_entities_def)
  then show ?case
    by (simp add: Cons.IH AList.update_conv find_append split: option.split)
qed (simp add: set_entities_def)

lemma find_distinct_rev:
  "distinct (map f xs) \<Longrightarrow> find (\<lambda>x. f x = i) (rev xs) = find (\<lambda>x. f x = i) xs"
proof (induction xs)
  case (Cons x xs)
  show ?case
  proof (cases "f x = i")
    case True
    then have "i \<notin> f ` set xs" using Cons.prems by auto
    then have "find (\<lambda>x. f x = i) xs = None" by (auto simp: find_None_iff)
    with Cons True show ?thesis by (simp add: find_append)
  next
    case False
    with Cons show ?thesis by (simp add: find_append split: option.split)
  qed
qed simp

definition keyed :: "(js_string \<times> entity) list \<Rightarrow> bool" where
  "keyed m \<longleftrightarrow> list_all (\<lambda>(k, e). k = ent_id e) m \<and> distinct (map fst m)"

lemma keyed_update: "keyed m \<Longrightarrow> keyed (AList.update (ent_id e) e m)"
proof -
  have "list_all (\<lambda>(k, e). k = ent_id e) m \<Longrightarrow> list_all (\<lambda>(k, e). k = ent_id e) (AList.update (ent_id e) e m)"
    by (induction m) auto
  then show "keyed m \<Longrightarrow> ?thesis" by (simp add: keyed_def AList.distinct_update)
qed

lemma keyed_set_entities: "keyed m \<Longrightarrow> keyed (set_entities es m)"
  by (induction es arbitrary: m) (simp_all add: set_entities_def keyed_update)

lemma keyed_find: "keyed m \<Longrightarrow> find (\<lambda>e. ent_id e = i) (map snd m) = map_of m i"
  by (induction m) (auto simp: keyed_def)

lemma keyed_ids: "keyed m \<Longrightarrow> map ent_id (map snd m) = map fst m"
  by (auto simp: keyed_def list_all_iff)

text \<open>
  The first migration loses nothing: in the merged state every folder of either side is there once,
  under one identifier, the local version winning, and a flag is set exactly when one side has it.
\<close>

theorem merge_keeps_everything:
  assumes "distinct (map ent_id (entities l))" and "distinct (map ent_id (entities a))"
  shows "distinct (map ent_id (entities (mergeOverlayForMigrate l (Some a)))) \<and>
     find (\<lambda>e. ent_id e = i) (entities (mergeOverlayForMigrate l (Some a))) =
       (case find (\<lambda>e. ent_id e = i) (entities l) of
          Some e \<Rightarrow> Some e
        | None \<Rightarrow> find (\<lambda>e. ent_id e = i) (entities a)) \<and>
     set (archivedByPeer (mergeOverlayForMigrate l (Some a))) = set (archivedByPeer a) \<union> set (archivedByPeer l) \<and>
     set (mutedByPeer (mergeOverlayForMigrate l (Some a))) = set (mutedByPeer a) \<union> set (mutedByPeer l) \<and>
     set (or_empty (archivedByConversation (mergeOverlayForMigrate l (Some a)))) =
       set (or_empty (archivedByConversation a)) \<union> set (or_empty (archivedByConversation l))"
proof -
  let ?m = "set_entities (entities l) (set_entities (entities a) [])"
  have k: "keyed ?m" by (intro keyed_set_entities) (simp add: keyed_def)
  have "distinct (map ent_id (map snd ?m))"
    unfolding keyed_ids [OF k] using k by (simp add: keyed_def)
  moreover have "find (\<lambda>e. ent_id e = i) (map snd ?m) =
      (case find (\<lambda>e. ent_id e = i) (entities l) of Some e \<Rightarrow> Some e
       | None \<Rightarrow> find (\<lambda>e. ent_id e = i) (entities a))"
    unfolding keyed_find [OF k] map_of_set_entities
    by (simp add: find_distinct_rev assms split: option.split)
  ultimately show ?thesis by (simp add: mergeOverlayForMigrate_def or_empty_def)
qed

theorem merge_keeps_everything_witness:
  "find (\<lambda>e. ent_id e = [2]) (entities (mergeOverlayForMigrate
     (emptyChatListOverlayState\<lparr>archivedByPeer := [[9]]\<rparr>)
     (Some (emptyChatListOverlayState\<lparr>entities := [\<lparr>ent_id = [2], ent_kind = FolderEntity, ent_label = [65],
        ent_icon = None, ent_avatar = Null, ent_peers = [], ent_conversations = None, ent_created = 0\<rparr>]\<rparr>)))) =
   Some \<lparr>ent_id = [2], ent_kind = FolderEntity, ent_label = [65],
        ent_icon = None, ent_avatar = Null, ent_peers = [], ent_conversations = None, ent_created = 0\<rparr>"
  using merge_keeps_everything [of "emptyChatListOverlayState\<lparr>archivedByPeer := [[9]]\<rparr>"
     "emptyChatListOverlayState\<lparr>entities := [\<lparr>ent_id = [2], ent_kind = FolderEntity, ent_label = [65],
        ent_icon = None, ent_avatar = Null, ent_peers = [], ent_conversations = None, ent_created = 0\<rparr>]\<rparr>" "[2]"]
  by (simp add: emptyChatListOverlayState_def)

section \<open>The icon limit\<close>

lemma slots_zero_iff:
  "archivedSlotCount h s owner = 0 \<longleftrightarrow> archivedByPeer s = [] \<and> or_empty (archivedByConversation s) = []"
  by (cases "archivedByPeer s"; cases "archivedByConversation s"; cases owner)
    (auto simp: archivedSlotCount_def countArchivedForFolderIcon_def countArchivedPeers_def or_empty_def
      dmConversationUuidsOfArchivedPeers_def Let_def filter_empty_conv)

text \<open>The icons of a state: its folders, and the archive when something is archived.\<close>

definition icon_count :: "(js_string \<Rightarrow> js_string) \<Rightarrow> overlay \<Rightarrow> js_string option \<Rightarrow> nat" where
  "icon_count h s owner = length (entities s) + (if archivedSlotCount h s owner > 0 then 1 else 0)"

definition may_apply :: "(js_string \<Rightarrow> js_string) \<Rightarrow> overlay \<Rightarrow> intent \<Rightarrow> js_string option \<Rightarrow> bool" where
  "may_apply h s i owner =
     (case i of
        CreateFolder e \<Rightarrow>
          list_ex (\<lambda>x. ent_id x = ent_id e) (entities s) \<or>
          canCreateChatListFolder (int (archivedSlotCount h s owner)) (int (length (entities s)))
            (int CHAT_LIST_MAX_FOLDER_ICONS)
      | _ \<Rightarrow> True)"

lemma icon_count_mono:
  assumes "length (entities t) \<le> length (entities s)"
    and "archivedByPeer s = [] \<and> or_empty (archivedByConversation s) = [] \<Longrightarrow>
         archivedByPeer t = [] \<and> or_empty (archivedByConversation t) = []"
  shows "icon_count h t owner \<le> icon_count h s owner"
  using assms slots_zero_iff [of h s owner] slots_zero_iff [of h t owner]
  by (auto simp: icon_count_def)

lemma icon_count_archive:
  assumes "entities t = entities s"
    and "canArchiveChatListPeer (int (archivedSlotCount h s owner)) (int (length (entities s)))
           (int CHAT_LIST_MAX_FOLDER_ICONS)"
    and "icon_count h s owner \<le> CHAT_LIST_MAX_FOLDER_ICONS"
  shows "icon_count h t owner \<le> CHAT_LIST_MAX_FOLDER_ICONS"
  using assms by (auto simp: icon_count_def canArchiveChatListPeer_def split: if_splits)

lemma or_empty_Some [simp]: "or_empty (Some m) = m"
  by (simp add: or_empty_def)

lemma unarchive_flags:
  "m = [] \<Longrightarrow> the_updated m (setPeerArchivedFlag m p False) = []"
  by (simp add: setPeerArchivedFlag_def)

lemma conv_unflag:
  "or_empty m = [] \<Longrightarrow> or_empty (the_updated m (conv_flag m conv False)) = []"
  by (cases m) (auto simp: conv_flag_def setPeerArchivedFlag_def Let_def or_empty_def)

text \<open>
  The icon limit is an invariant of the organizer: from a state whose folders and archive fit the
  row, every intent that may be applied leads to a state that fits it again.
\<close>

theorem intent_keeps_icon_limit:
  assumes "icon_count h s owner \<le> CHAT_LIST_MAX_FOLDER_ICONS"
    and "may_apply h s i owner" and "applyIntent h s i owner = Next t"
  shows "icon_count h t owner \<le> CHAT_LIST_MAX_FOLDER_ICONS"
proof (cases i)
  case (CreateFolder e)
  show ?thesis
  proof (cases "list_ex (\<lambda>x. ent_id x = ent_id e) (entities s)")
    case True
    with assms(3) CreateFolder have "t = s\<lparr>entities := map (\<lambda>x. if ent_id x = ent_id e then e else x) (entities s)\<rparr>"
      by simp
    then have "icon_count h t owner \<le> icon_count h s owner" by (intro icon_count_mono) simp_all
    with assms(1) show ?thesis by simp
  next
    case False
    with assms(3) CreateFolder have t: "t = s\<lparr>entities := entities s @ [e]\<rparr>" by simp
    then have "archivedSlotCount h t owner = archivedSlotCount h s owner"
      by (cases owner) (simp_all add: archivedSlotCount_def)
    with False assms(2) CreateFolder t show ?thesis
      by (auto simp: may_apply_def canCreateChatListFolder_def maxCustomChatListFolders_def icon_count_def
          CHAT_LIST_MAX_FOLDER_ICONS_def split: if_splits)
  qed
next
  case (AddPeer f p)
  with assms(3) have "icon_count h t owner \<le> icon_count h s owner"
    by (intro icon_count_mono)
      (auto simp: addPeerToChatListEntity_def Let_def split: updated.splits if_splits)
  with assms(1) show ?thesis by simp
next
  case (RemoveFolder f r)
  with assms(3) have "icon_count h t owner \<le> icon_count h s owner"
    by (intro icon_count_mono)
      (auto simp: removeChatListEntity_def Let_def split: updated.splits if_splits)
  with assms(1) show ?thesis by simp
next
  case (SetArchived p c a)
  show ?thesis
  proof (cases a)
    case True
    with SetArchived assms show ?thesis
      by (intro icon_count_archive [of t s]) (auto simp: set_archived_def Let_def split: if_splits)
  next
    case False
    with SetArchived assms(3) have "icon_count h t owner \<le> icon_count h s owner"
      by (intro icon_count_mono)
        (auto simp: set_archived_def Let_def unarchive_flags conv_unflag split: if_splits)
    with assms(1) show ?thesis by simp
  qed
next
  case (SetGroupArchived c a)
  show ?thesis
  proof (cases a)
    case True
    with SetGroupArchived assms show ?thesis
      by (intro icon_count_archive [of t s]) (auto simp: Let_def split: if_splits updated.splits)
  next
    case False
    from SetGroupArchived assms(3) False obtain m where
      m: "conv_flag (archivedByConversation s) (trim c) False = Changed m" "t = s\<lparr>archivedByConversation := m\<rparr>"
      by (auto simp: Let_def split: if_splits updated.splits)
    then have "icon_count h t owner \<le> icon_count h s owner"
      using conv_unflag [of "archivedByConversation s" "trim c"] by (intro icon_count_mono) simp_all
    with assms(1) show ?thesis by simp
  qed
next
  case (SetMuted p c a)
  with assms(3) have "icon_count h t owner \<le> icon_count h s owner"
    by (intro icon_count_mono) (auto simp: Let_def split: if_splits)
  with assms(1) show ?thesis by simp
qed

theorem intent_keeps_icon_limit_witness:
  "icon_count (\<lambda>x. x) (emptyChatListOverlayState\<lparr>archivedByPeer := [js ''p''], archivedByConversation := Some []\<rparr>)
     (Some (js ''u'')) \<le> CHAT_LIST_MAX_FOLDER_ICONS"
proof (rule intent_keeps_icon_limit)
  show "icon_count (\<lambda>x. x) emptyChatListOverlayState (Some (js ''u'')) \<le> CHAT_LIST_MAX_FOLDER_ICONS"
    using slots_zero_iff [of "\<lambda>x. x" emptyChatListOverlayState "Some (js ''u'')"]
    by (simp add: icon_count_def emptyChatListOverlayState_def or_empty_def)
  show "may_apply (\<lambda>x. x) emptyChatListOverlayState (SetArchived (js ''p'') [] True) (Some (js ''u''))"
    by (simp add: may_apply_def)
  show "applyIntent (\<lambda>x. x) emptyChatListOverlayState (SetArchived (js ''p'') [] True) (Some (js ''u'')) =
    Next (emptyChatListOverlayState\<lparr>archivedByPeer := [js ''p''], archivedByConversation := Some []\<rparr>)"
    by (simp add: set_archived_def setPeerArchivedFlag_def conv_flag_def emptyChatListOverlayState_def
        canArchiveChatListPeer_def CHAT_LIST_MAX_FOLDER_ICONS_def trim_def or_empty_def)
qed

section \<open>Undo\<close>

text \<open>States with the same folders, up to their order, and the same flags.\<close>

definition same_content :: "overlay \<Rightarrow> overlay \<Rightarrow> bool" where
  "same_content s t \<longleftrightarrow>
     mset (entities s) = mset (entities t) \<and>
     set (archivedByPeer s) = set (archivedByPeer t) \<and> set (mutedByPeer s) = set (mutedByPeer t) \<and>
     set (or_empty (archivedByConversation s)) = set (or_empty (archivedByConversation t)) \<and>
     set (or_empty (mutedByConversation s)) = set (or_empty (mutedByConversation t))"

text \<open>An intent is fresh when all it sets was the opposite before.\<close>

definition fresh_flag :: "flags \<Rightarrow> flags option \<Rightarrow> js_string \<Rightarrow> js_string \<Rightarrow> bool \<Rightarrow> bool" where
  "fresh_flag m c peer conv on \<longleftrightarrow>
     (peer \<in> set m \<longleftrightarrow> \<not> on) \<and> (if trim conv = [] then True else trim conv \<in> set (or_empty c) \<longleftrightarrow> \<not> on)"

definition fresh_intent :: "overlay \<Rightarrow> intent \<Rightarrow> bool" where
  "fresh_intent s i \<longleftrightarrow>
     (case i of
        CreateFolder e \<Rightarrow> ent_id e \<notin> set (map ent_id (entities s))
      | AddPeer f p \<Rightarrow> trim p = p \<and> list_all (\<lambda>e. ent_id e \<noteq> f \<or> p \<notin> set (ent_peers e)) (entities s)
      | RemoveFolder f r \<Rightarrow> r = find (\<lambda>e. ent_id e = f) (entities s) \<and> distinct (map ent_id (entities s))
      | SetArchived p c on \<Rightarrow> on \<and> fresh_flag (archivedByPeer s) (archivedByConversation s) p c on
      | SetGroupArchived c on \<Rightarrow> on \<and> trim c \<notin> set (or_empty (archivedByConversation s))
      | SetMuted p c on \<Rightarrow> fresh_flag (mutedByPeer s) (mutedByConversation s) p c on)"

lemma set_conv_flag:
  "set (or_empty (the_updated m (conv_flag m c on))) =
   (if c = [] then set (or_empty m) else if on then insert c (set (or_empty m)) else set (or_empty m) - {c})"
  by (cases m) (auto simp: conv_flag_def Let_def setPeerArchivedFlag_def or_empty_def)


definition flagged :: "'a \<Rightarrow> bool \<Rightarrow> 'a set \<Rightarrow> 'a set" where
  "flagged k on S = (if on then insert k S else S - {k})"

definition conv_flagged :: "js_string \<Rightarrow> bool \<Rightarrow> js_string set \<Rightarrow> js_string set" where
  "conv_flagged c on S = (if trim c = [] then S else flagged (trim c) on S)"

lemma set_flag: "set (the_updated m (setPeerArchivedFlag m p on)) = flagged p on (set m)"
  by (simp add: the_updated_flag flagged_def)

lemma set_conv: "set (or_empty (the_updated m (conv_flag m (trim c) on))) = conv_flagged c on (set (or_empty m))"
  by (simp add: set_conv_flag conv_flagged_def flagged_def)

lemma unflag_same: "setPeerArchivedFlag m p on = Unchanged \<Longrightarrow> flagged p on (set m) = set m"
  by (auto simp: flag_unchanged_iff flagged_def)

lemma conv_same: "conv_flag m (trim c) on = Unchanged \<Longrightarrow> conv_flagged c on (set (or_empty m)) = set (or_empty m)"
  using set_conv [of m c on] by simp

lemma archived_content:
  "set (archivedByPeer (or_state s (set_archived s p c on))) = flagged p on (set (archivedByPeer s))"
  "set (or_empty (archivedByConversation (or_state s (set_archived s p c on)))) =
   conv_flagged c on (set (or_empty (archivedByConversation s)))"
  "entities (or_state s (set_archived s p c on)) = entities s"
  "mutedByPeer (or_state s (set_archived s p c on)) = mutedByPeer s"
  "mutedByConversation (or_state s (set_archived s p c on)) = mutedByConversation s"
  by (simp_all add: set_archived_def Let_def set_flag set_conv unflag_same conv_same)

lemma muted_content:
  "set (mutedByPeer (or_state s (applyIntent h s (SetMuted p c on) owner))) = flagged p on (set (mutedByPeer s))"
  "set (or_empty (mutedByConversation (or_state s (applyIntent h s (SetMuted p c on) owner)))) =
   conv_flagged c on (set (or_empty (mutedByConversation s)))"
  "entities (or_state s (applyIntent h s (SetMuted p c on) owner)) = entities s"
  "archivedByPeer (or_state s (applyIntent h s (SetMuted p c on) owner)) = archivedByPeer s"
  "archivedByConversation (or_state s (applyIntent h s (SetMuted p c on) owner)) = archivedByConversation s"
  by (simp_all add: Let_def setPeerMutedFlag_def set_flag set_conv unflag_same conv_same)

lemma group_content:
  assumes "trim c \<noteq> []" and "\<not> on \<or> canArchiveChatListPeer (int (archivedSlotCount h s owner))
     (int (length (entities s))) (int CHAT_LIST_MAX_FOLDER_ICONS)"
  defines "t \<equiv> or_state s (applyIntent h s (SetGroupArchived c on) owner)"
  shows "set (or_empty (archivedByConversation t)) = conv_flagged c on (set (or_empty (archivedByConversation s)))"
    and "entities t = entities s" "archivedByPeer t = archivedByPeer s" "mutedByPeer t = mutedByPeer s"
      "mutedByConversation t = mutedByConversation s"
proof -
  have "t = or_state s (case conv_flag (archivedByConversation s) (trim c) on of
      Unchanged \<Rightarrow> Same | Changed m \<Rightarrow> Next (s\<lparr>archivedByConversation := m\<rparr>))"
    using assms(1,2) unfolding t_def by (auto simp: Let_def)
  then show "set (or_empty (archivedByConversation t)) = conv_flagged c on (set (or_empty (archivedByConversation s)))"
    "entities t = entities s" "archivedByPeer t = archivedByPeer s" "mutedByPeer t = mutedByPeer s"
    "mutedByConversation t = mutedByConversation s"
    using set_conv [of "archivedByConversation s" c on]
    by (simp_all add: conv_same split: updated.splits)
qed

lemma flagged_undo: "(k \<in> S \<longleftrightarrow> \<not> on) \<Longrightarrow> flagged k (\<not> on) (flagged k on S) = S"
  by (auto simp: flagged_def)

lemma conv_flagged_undo:
  "(if trim c = [] then True else trim c \<in> S \<longleftrightarrow> \<not> on) \<Longrightarrow> conv_flagged c (\<not> on) (conv_flagged c on S) = S"
  by (simp add: conv_flagged_def flagged_undo split: if_splits)

lemma mset_put_back:
  "distinct (map ent_id es) \<Longrightarrow> find (\<lambda>e. ent_id e = f) es = Some e \<Longrightarrow>
   mset (filter (\<lambda>x. ent_id x \<noteq> f) es @ [e]) = mset es"
proof (induction es)
  case (Cons x es)
  show ?case
  proof (cases "ent_id x = f")
    case True
    then have "f \<notin> ent_id ` set es" using Cons.prems(1) by auto
    then have "filter (\<lambda>y. ent_id y \<noteq> f) es = es" by (auto intro!: filter_True)
    with True Cons.prems show ?thesis by simp
  next
    case False
    with Cons show ?thesis by simp
  qed
qed simp

lemma removed_changed:
  "removeChatListEntity es f = Changed fs \<Longrightarrow> fs = filter (\<lambda>x. ent_id x \<noteq> f) es \<and> (\<exists>e. find (\<lambda>e. ent_id e = f) es = Some e)"
proof -
  assume r: "removeChatListEntity es f = Changed fs"
  then have fs: "fs = filter (\<lambda>x. ent_id x \<noteq> f) es" and l: "length fs \<noteq> length es"
    by (auto simp: removeChatListEntity_def Let_def split: if_splits)
  have "find (\<lambda>e. ent_id e = f) es \<noteq> None"
  proof
    assume "find (\<lambda>e. ent_id e = f) es = None"
    then have "filter (\<lambda>x. ent_id x \<noteq> f) es = es" by (auto simp: find_None_iff intro: filter_True)
    with fs l show False by simp
  qed
  with fs show ?thesis by auto
qed

lemma add_peer_undo:
  assumes "trim p = p" and "list_all (\<lambda>e. ent_id e \<noteq> f \<or> p \<notin> set (ent_peers e)) es"
  shows "map (\<lambda>x. if ent_id x \<noteq> f then x else x\<lparr>ent_peers := filter (\<lambda>q. q \<noteq> p) (ent_peers x)\<rparr>)
           (map (add_peer f (trim p)) es) = es"
  unfolding map_map
proof (rule map_idI)
  fix e assume "e \<in> set es"
  with assms(2) have "ent_id e \<noteq> f \<or> p \<notin> set (ent_peers e)" by (auto simp: list_all_iff)
  moreover have "p \<notin> set (ent_peers e) \<Longrightarrow> filter (\<lambda>q. q \<noteq> p) (ent_peers e) = ent_peers e"
    by (auto intro: filter_True)
  ultimately show "((\<lambda>x. if ent_id x \<noteq> f then x else x\<lparr>ent_peers := filter (\<lambda>q. q \<noteq> p) (ent_peers x)\<rparr>)
      \<circ> add_peer f (trim p)) e = e"
    using assms(1) by (auto simp: add_peer_def)
qed

lemma group_revert:
  assumes "fresh_intent s (SetGroupArchived c on)" "applyIntent h s (SetGroupArchived c on) owner = Next t"
  shows "same_content (revertIntent h t (SetGroupArchived c on) owner) s"
proof -
  have on: "on" "trim c \<notin> set (or_empty (archivedByConversation s))" using assms(1) by (simp_all add: fresh_intent_def)
  have c: "trim c \<noteq> []" and g: "canArchiveChatListPeer (int (archivedSlotCount h s owner))
      (int (length (entities s))) (int CHAT_LIST_MAX_FOLDER_ICONS)"
    using assms(2) on(1) by (auto simp: Let_def split: if_splits)
  have t: "t = or_state s (applyIntent h s (SetGroupArchived c on) owner)" using assms(2) by simp
  note a = group_content [OF c, of on h s owner, folded t]
  note b = group_content [OF c, of "\<not> on" h t owner]
  show ?thesis
    using a b g on c conv_flagged_undo [of c "set (or_empty (archivedByConversation s))" on]
    by (simp add: same_content_def del: applyIntent.simps)
qed

text \<open>
  Undoing a failed change restores what was there: after a fresh intent has been applied, reverting
  it gives back the folders (up to their order) and all flags of the state before.
\<close>

theorem revert_undoes:
  assumes "fresh_intent s i" and "applyIntent h s i owner = Next t"
  shows "same_content (revertIntent h t i owner) s"
proof (cases i)
  case (CreateFolder e)
  have "\<not> list_ex (\<lambda>x. ent_id x = ent_id e) (entities s)"
    using assms(1) CreateFolder by (auto simp: fresh_intent_def list_ex_iff image_iff)
  with assms(2) CreateFolder have t: "t = s\<lparr>entities := entities s @ [e]\<rparr>" by simp
  have "filter (\<lambda>x. ent_id x \<noteq> ent_id e) (entities s) = entities s"
    using assms(1) CreateFolder by (auto simp: fresh_intent_def image_iff intro!: filter_True)
  with CreateFolder t show ?thesis by (simp add: same_content_def)
next
  case (AddPeer f p)
  with assms have t: "t = s\<lparr>entities := map (add_peer f (trim p)) (entities s)\<rparr>"
    by (auto simp: addPeerToChatListEntity_def Let_def split: updated.splits if_splits)
  with AddPeer add_peer_undo [of p f "entities s"] assms(1) show ?thesis
    by (simp add: same_content_def fresh_intent_def)
next
  case (RemoveFolder f r)
  with assms(2) obtain es where es: "removeChatListEntity (entities s) f = Changed es" "t = s\<lparr>entities := es\<rparr>"
    by (auto split: updated.splits)
  from removed_changed [OF es(1)] obtain e where e: "es = filter (\<lambda>x. ent_id x \<noteq> f) (entities s)"
    "find (\<lambda>e. ent_id e = f) (entities s) = Some e" by blast
  have r: "r = Some e" "distinct (map ent_id (entities s))" using assms(1) RemoveFolder e(2) by (simp_all add: fresh_intent_def)
  have "ent_id e = f" using e(2) by (auto simp: find_Some_iff)
  then have "\<not> list_ex (\<lambda>x. ent_id x = ent_id e) es" using e(1) by (auto simp: list_ex_iff)
  then show ?thesis using RemoveFolder es(2) r mset_put_back [OF r(2) e(2)] e(1) by (simp add: same_content_def)
next
  case (SetArchived p c on)
  have on: "on" "fresh_flag (archivedByPeer s) (archivedByConversation s) p c on"
    using assms(1) SetArchived by (auto simp: fresh_intent_def)
  have t: "t = or_state s (set_archived s p c on)" using assms(2) SetArchived by (auto split: if_splits)
  have "revertIntent h t i owner = or_state t (set_archived t p c (\<not> on))" using on(1) SetArchived by simp
  with on(2) t show ?thesis
    by (simp add: same_content_def archived_content fresh_flag_def flagged_undo conv_flagged_undo)
next
  case (SetGroupArchived c on)
  with assms group_revert show ?thesis by blast
next
  case (SetMuted p c on)
  have f: "fresh_flag (mutedByPeer s) (mutedByConversation s) p c on"
    using assms(1) SetMuted by (simp add: fresh_intent_def)
  have t: "t = or_state s (applyIntent h s (SetMuted p c on) owner)" using assms(2) SetMuted by simp
  have "revertIntent h t i owner = or_state t (applyIntent h t (SetMuted p c (\<not> on)) owner)" using SetMuted by simp
  with f show ?thesis
    unfolding t by (simp add: same_content_def muted_content fresh_flag_def flagged_undo conv_flagged_undo del: applyIntent.simps)
qed

theorem revert_undoes_witness:
  "same_content
     (revertIntent (\<lambda>x. x) (emptyChatListOverlayState\<lparr>mutedByPeer := [js ''p''], mutedByConversation := Some []\<rparr>)
        (SetMuted (js ''p'') [] True) None)
     emptyChatListOverlayState"
proof (rule revert_undoes)
  show "fresh_intent emptyChatListOverlayState (SetMuted (js ''p'') [] True)"
    by (simp add: fresh_intent_def fresh_flag_def emptyChatListOverlayState_def trim_def)
  show "applyIntent (\<lambda>x. x) emptyChatListOverlayState (SetMuted (js ''p'') [] True) None =
    Next (emptyChatListOverlayState\<lparr>mutedByPeer := [js ''p''], mutedByConversation := Some []\<rparr>)"
    by (simp add: setPeerMutedFlag_def setPeerArchivedFlag_def conv_flag_def emptyChatListOverlayState_def
        trim_def or_empty_def)
qed

end
