(* ===== verification/Chat_Put.thy ===== *)
theory Chat_Put
  imports Chat_Organizer
begin

text \<open>
  Saving the organizer (\<open>putState\<close> in \<open>messaging/chatOrganizerSession.ts\<close>): encrypt, put, and on a
  conflict read the stored blob, apply the intent to it and try again. The function is cut at its
  \<open>await\<close>s: a run waits for one request, and the reply gives the next request or the end. The type
  variables stand for the keys and the wires of the crypto library.
\<close>

section \<open>Requests and replies\<close>

definition MAX_409_RETRIES :: nat where "MAX_409_RETRIES = 3"

text \<open>An \<open>ApiRequestError\<close> with status 409, or anything else that was thrown (its message).\<close>

datatype thrown = Http409 | Thrown js_string

datatype ('k, 'w) request =
    BuildWire js_string int plaintext "'k option"
  | PutBlob 'w
  | GetBlob
  | DecryptWire js_string 'w "'k option"

datatype 'w reply =
    Built 'w
  | Stored
  | Found "'w option"
  | Decrypted plaintext int
  | Threw thrown

fun fits :: "('k, 'w) request \<Rightarrow> 'w reply \<Rightarrow> bool" where
  "fits (BuildWire _ _ _ _) (Built _) = True"
| "fits (PutBlob _) Stored = True"
| "fits GetBlob (Found _) = True"
| "fits (DecryptWire _ _ _) (Decrypted _ _) = True"
| "fits _ (Threw _) = True"
| "fits _ _ = False"

section \<open>One run\<close>

text \<open>The loop variables \<open>working\<close>, \<open>revision\<close> and \<open>attempt\<close>.\<close>

record put_run =
  working :: overlay
  base_revision :: int
  attempt :: nat

datatype ('k, 'w) put_state = Wait put_run "('k, 'w) request" | Saved overlay | Failed thrown

definition build_request ::
  "js_string \<Rightarrow> 'k option \<Rightarrow> js_string \<Rightarrow> put_run \<Rightarrow> ('k, 'w) request" where
  "build_request now ks own r =
     BuildWire own (base_revision r + 1) (overlayStateToOrganizerPlaintext (working r) now) ks"

definition putState ::
  "js_string \<Rightarrow> 'k option \<Rightarrow> js_string \<Rightarrow> int \<Rightarrow> overlay \<Rightarrow> ('k, 'w) put_state" where
  "putState now ks own base s =
     (if ks = None then Failed (Thrown (js ''FSCP keys not ready''))
      else let r = \<lparr>working = s, base_revision = base, attempt = 0\<rparr> in Wait r (build_request now ks own r))"

text \<open>The saved state, and the next round after a conflict.\<close>

definition saved_state :: "put_run \<Rightarrow> overlay" where
  "saved_state r = (working r)\<lparr>revision := Some (base_revision r + 1), migratedToOrg := Some True\<rparr>"

definition reapply :: "(js_string \<Rightarrow> js_string) \<Rightarrow> js_string \<Rightarrow> intent option \<Rightarrow> plaintext \<Rightarrow> int \<Rightarrow> overlay" where
  "reapply h own i p rv =
     (let w = organizerPlaintextToOverlayState p (Some rv) (Some True)
      in case i of None \<Rightarrow> w | Some i' \<Rightarrow> or_state w (applyIntent h w i' (Some own)))"

fun put_reply ::
  "(js_string \<Rightarrow> js_string) \<Rightarrow> js_string \<Rightarrow> 'k option \<Rightarrow> js_string \<Rightarrow> intent option \<Rightarrow>
   put_run \<Rightarrow> ('k, 'w) request \<Rightarrow> 'w reply \<Rightarrow> ('k, 'w) put_state" where
  "put_reply h now ks own i r (BuildWire _ _ _ _) (Built w) = Wait r (PutBlob w)"
| "put_reply h now ks own i r (PutBlob _) Stored = Saved (saved_state r)"
| "put_reply h now ks own i r (PutBlob _) (Threw e) =
     (if e \<noteq> Http409 then Failed e
      else if attempt r = MAX_409_RETRIES then Failed e
      else Wait r GetBlob)"
| "put_reply h now ks own i r GetBlob (Found None) = Failed Http409"
| "put_reply h now ks own i r GetBlob (Found (Some w)) = Wait r (DecryptWire own w ks)"
| "put_reply h now ks own i r (DecryptWire _ _ _) (Decrypted p rv) =
     (if base_revision r \<ge> 1 \<and> rv < base_revision r then Failed Http409
      else let r' = \<lparr>working = reapply h own i p rv, base_revision = rv, attempt = attempt r + 1\<rparr>
           in Wait r' (build_request now ks own r'))"
| "put_reply h now ks own i r q (Threw e) = Failed e"
| "put_reply h now ks own i r q _ = Wait r q"

section \<open>It ends\<close>

fun request_rank :: "('k, 'w) request \<Rightarrow> nat" where
  "request_rank (BuildWire _ _ _ _) = 3"
| "request_rank (PutBlob _) = 2"
| "request_rank GetBlob = 1"
| "request_rank (DecryptWire _ _ _) = 0"

definition put_rank :: "put_run \<Rightarrow> ('k, 'w) request \<Rightarrow> nat" where
  "put_rank r q = 4 * (MAX_409_RETRIES - attempt r) + request_rank q"

text \<open>After the last attempt the blob is not read again.\<close>

fun rounds_ok :: "('k, 'w) put_state \<Rightarrow> bool" where
  "rounds_ok (Wait r q) = (attempt r \<le> MAX_409_RETRIES \<and>
     (case q of GetBlob \<Rightarrow> attempt r < MAX_409_RETRIES | DecryptWire _ _ _ \<Rightarrow> attempt r < MAX_409_RETRIES | _ \<Rightarrow> True))"
| "rounds_ok _ = True"

lemma put_reply_found:
  "put_reply h now ks own i r GetBlob (Found b) =
   (case b of None \<Rightarrow> Failed Http409 | Some w \<Rightarrow> Wait r (DecryptWire own w ks))"
  by (cases b) simp_all

lemma rounds_ok_start: "rounds_ok (putState now ks own base s)"
  by (simp add: putState_def build_request_def Let_def)

lemma rounds_ok_reply:
  "fits q x \<Longrightarrow> rounds_ok (Wait r q) \<Longrightarrow> rounds_ok (put_reply h now ks own i r q x)"
  by (cases q; cases x) (auto simp: build_request_def Let_def put_reply_found split: option.splits)

lemma rank_reply:
  "fits q x \<Longrightarrow> rounds_ok (Wait r q) \<Longrightarrow> put_reply h now ks own i r q x = Wait r' q' \<Longrightarrow>
   put_rank r' q' < put_rank r q"
  by (cases q; cases x)
    (auto simp: build_request_def Let_def put_rank_def put_reply_found split: option.splits if_splits)

text \<open>
  A whole run against an environment: the reply to a request, the time and the keys held may depend on
  the number of replies given so far. The second part of the result lists the requests.
\<close>

fun drive ::
  "(js_string \<Rightarrow> js_string) \<Rightarrow> (nat \<Rightarrow> js_string) \<Rightarrow> (nat \<Rightarrow> 'k option) \<Rightarrow> js_string \<Rightarrow> intent option \<Rightarrow>
   (nat \<Rightarrow> ('k, 'w) request \<Rightarrow> 'w reply) \<Rightarrow> nat \<Rightarrow> nat \<Rightarrow> ('k, 'w) put_state \<Rightarrow>
   ('k, 'w) put_state \<times> ('k, 'w) request list" where
  "drive h now ks own i env n (Suc fuel) (Wait r q) =
     (case drive h now ks own i env (Suc n) fuel (put_reply h (now n) (ks n) own i r q (env n q)) of
        (e, qs) \<Rightarrow> (e, q # qs))"
| "drive h now ks own i env n fuel e = (e, [])"

fun is_put :: "('k, 'w) request \<Rightarrow> bool" where
  "is_put (PutBlob _) = True"
| "is_put _ = False"

fun waiting :: "('k, 'w) put_state \<Rightarrow> bool" where
  "waiting (Wait _ _) = True"
| "waiting _ = False"

lemma drive_ends:
  assumes env: "\<And>n q. fits q (env n q)"
  shows "rounds_ok e \<Longrightarrow> (case e of Wait r q \<Rightarrow> put_rank r q < fuel | _ \<Rightarrow> True) \<Longrightarrow>
    \<not> waiting (fst (drive h now ks own i env n fuel e))"
proof (induction fuel arbitrary: n e)
  case 0
  then show ?case by (cases e) simp_all
next
  case (Suc fuel)
  show ?case
  proof (cases e)
    case (Wait r q)
    let ?e = "put_reply h (now n) (ks n) own i r q (env n q)"
    have "rounds_ok ?e" using rounds_ok_reply [OF env] Suc.prems(1) Wait by blast
    moreover have "case ?e of Wait r' q' \<Rightarrow> put_rank r' q' < fuel | _ \<Rightarrow> True"
      using rank_reply [OF env] Suc.prems Wait by (fastforce split: put_state.splits)
    ultimately have "\<not> waiting (fst (drive h now ks own i env (Suc n) fuel ?e))" by (rule Suc.IH)
    with Wait show ?thesis by (simp add: case_prod_beta)
  qed simp_all
qed

fun puts_left :: "('k, 'w) put_state \<Rightarrow> nat" where
  "puts_left (Wait r q) = MAX_409_RETRIES - attempt r + (case q of BuildWire _ _ _ _ \<Rightarrow> 1 | PutBlob _ \<Rightarrow> 1 | _ \<Rightarrow> 0)"
| "puts_left _ = 0"

lemma puts_left_reply:
  "fits q x \<Longrightarrow> rounds_ok (Wait r q) \<Longrightarrow>
   puts_left (put_reply h now ks own i r q x) + (if is_put q then 1 else 0) \<le> puts_left (Wait r q)"
  by (cases q; cases x) (auto simp: build_request_def Let_def put_reply_found split: option.splits)

lemma drive_puts:
  assumes env: "\<And>n q. fits q (env n q)"
  shows "rounds_ok e \<Longrightarrow> length (filter is_put (snd (drive h now ks own i env n fuel e))) \<le> puts_left e"
proof (induction fuel arbitrary: n e)
  case 0
  then show ?case by (cases e) simp_all
next
  case (Suc fuel)
  show ?case
  proof (cases e)
    case (Wait r q)
    let ?e = "put_reply h (now n) (ks n) own i r q (env n q)"
    have ok: "rounds_ok ?e" using rounds_ok_reply [OF env] Suc.prems Wait by blast
    have "puts_left ?e + (if is_put q then 1 else 0) \<le> puts_left e"
      using puts_left_reply [OF env] Suc.prems Wait by blast
    with Suc.IH [OF ok, of "Suc n"] Wait show ?thesis
      by (simp add: case_prod_beta del: puts_left.simps split: if_splits)
  qed simp_all
qed

text \<open>
  Saving always comes to an end: whatever the crypto library and the server answer, after sixteen
  replies the save has succeeded or failed, and it has put at most four blobs.
\<close>

theorem put_state_ends:
  fixes env :: "nat \<Rightarrow> ('k, 'w) request \<Rightarrow> 'w reply"
  assumes "\<And>n q. fits q (env n q)"
  shows "(let (e, qs) = drive h now ks own i env 0 16 (putState t k own base s)
          in \<not> waiting e \<and> length (filter is_put qs) \<le> 4)"
proof -
  let ?e = "putState t k own base s :: ('k, 'w) put_state"
  have a: "case ?e of Wait r q \<Rightarrow> put_rank r q < 16 | _ \<Rightarrow> True" and b: "puts_left ?e \<le> 4"
    by (simp_all add: putState_def build_request_def Let_def put_rank_def MAX_409_RETRIES_def)
  have "\<not> waiting (fst (drive h now ks own i env 0 16 ?e))"
    by (rule drive_ends [OF _ rounds_ok_start a]) (rule assms)
  moreover have "length (filter is_put (snd (drive h now ks own i env 0 16 ?e))) \<le> puts_left ?e"
    by (rule drive_puts [OF _ rounds_ok_start]) (rule assms)
  ultimately show ?thesis using b by (simp add: case_prod_beta del: drive.simps puts_left.simps)
qed

theorem put_state_ends_witness:
  "(let (e, qs) = drive (\<lambda>x. x) (\<lambda>_. []) (\<lambda>_. Some (0::nat)) [1] None (\<lambda>_ q. Threw Http409 :: nat reply) 0 16
        (putState [] (Some 0) [1] 0 emptyChatListOverlayState)
    in \<not> waiting e \<and> length (filter is_put qs) \<le> 4)"
  by (rule put_state_ends) simp

end
