(* ===== verification/Chat_Server.thy ===== *)
theory Chat_Server
  imports Chat_Put
begin

text \<open>
  Saving the organizer against the server while other devices of the owner write too. The server keeps
  one blob per owner and accepts only the next revision
  (\<open>flora-chat-organizer/src/infrastructure/mod.rs\<close>); the wire is taken as an envelope that only the
  owner can open, with the checks that \<open>products/FSCP/ts/src/chatOrganizer.ts\<close> makes on its content.
\<close>

section \<open>Envelopes\<close>

definition FSCP_ORGANIZER_MAX_ENTITIES :: nat where "FSCP_ORGANIZER_MAX_ENTITIES = 64"
definition FSCP_ORGANIZER_LABEL_MAX :: nat where "FSCP_ORGANIZER_LABEL_MAX = 80"

record org_wire =
  wire_owner :: js_string
  wire_rev :: int
  wire_plain :: plaintext

definition norm_owner :: "js_string \<Rightarrow> js_string" where
  "norm_owner u = toLowerCase (trim u)"

definition buildFscpOrganizerWireEnvelope :: "js_string \<Rightarrow> int \<Rightarrow> plaintext \<Rightarrow> thrown + org_wire" where
  "buildFscpOrganizerWireEnvelope owner rv p =
     (let u = norm_owner owner in
      if u = [] then Inl (Thrown (js ''FSCP-ORG: ownerUserUuid''))
      else if rv < 1 then Inl (Thrown (js ''FSCP-ORG: revision''))
      else if length (pl_entities p) > FSCP_ORGANIZER_MAX_ENTITIES then Inl (Thrown (js ''FSCP-ORG: entities''))
      else Inr \<lparr>wire_owner = u, wire_rev = rv, wire_plain = p\<rparr>)"

text \<open>Normalization of a plaintext whose members have the types of the schema.\<close>

fun uniqueIds_loop :: "js_string list \<Rightarrow> js_string list \<Rightarrow> js_string list" where
  "uniqueIds_loop seen [] = []"
| "uniqueIds_loop seen (x # xs) =
     (let i = trim x in
      if i = [] \<or> i \<in> set seen then uniqueIds_loop seen xs else i # uniqueIds_loop (i # seen) xs)"

definition flagMap :: "flags \<Rightarrow> flags" where
  "flagMap m = filter (\<lambda>k. trim k \<noteq> []) m"

definition normalize_entity :: "plain_entity \<Rightarrow> plain_entity option" where
  "normalize_entity e =
     (if trim (pe_id e) = [] \<or> trim (pe_label e) = [] then None
      else Some \<lparr>pe_id = trim (pe_id e), pe_kind = pe_kind e,
                 pe_label = take FSCP_ORGANIZER_LABEL_MAX (trim (pe_label e)),
                 pe_icon = (case pe_icon e of None \<Rightarrow> None | Some i \<Rightarrow> if trim i = [] then None else Some (trim i)),
                 pe_avatar = pe_avatar e,
                 pe_peers = uniqueIds_loop [] (pe_peers e),
                 pe_conversations = uniqueIds_loop [] (pe_conversations e),
                 pe_created = pe_created e\<rparr>)"

definition normalizeFscpOrganizerState :: "plaintext \<Rightarrow> plaintext" where
  "normalizeFscpOrganizerState p =
     \<lparr>pl_entities = take FSCP_ORGANIZER_MAX_ENTITIES (List.map_filter normalize_entity (pl_entities p)),
      pl_archivedByPeer = flagMap (pl_archivedByPeer p), pl_mutedByPeer = flagMap (pl_mutedByPeer p),
      pl_archivedByConversation = flagMap (pl_archivedByConversation p),
      pl_mutedByConversation = flagMap (pl_mutedByConversation p),
      clientUpdatedAt = clientUpdatedAt p\<rparr>"

definition decryptFscpOrganizerWireEnvelope :: "org_wire \<Rightarrow> js_string \<Rightarrow> thrown + plaintext \<times> int" where
  "decryptFscpOrganizerWireEnvelope w owner =
     (if wire_rev w < 1 then Inl (Thrown (js ''malformed_envelope''))
      else if norm_owner (wire_owner w) \<noteq> norm_owner owner then Inl (Thrown (js ''no_recipient_entry''))
      else Inr (normalizeFscpOrganizerState (wire_plain w), wire_rev w))"

section \<open>The server\<close>

text \<open>The row of an owner: the revision and the wire. The flag says whether a row was written.\<close>

definition put_if_next_revision ::
  "(int \<times> org_wire) option \<Rightarrow> int \<Rightarrow> org_wire \<Rightarrow> (int \<times> org_wire) option \<times> bool" where
  "put_if_next_revision row rv w =
     (if rv = 1 then (case row of None \<Rightarrow> (Some (rv, w), True) | Some x \<Rightarrow> (Some x, False))
      else case row of
             None \<Rightarrow> (None, False)
           | Some (cur, x) \<Rightarrow> if cur = rv - 1 then (Some (rv, w), True) else (Some (cur, x), False))"

text \<open>All blobs the owner has had, the stored one first.\<close>

type_synonym history = "(int \<times> org_wire) list"

fun stored :: "history \<Rightarrow> (int \<times> org_wire) option" where
  "stored [] = None"
| "stored (x # xs) = Some x"

definition accepted :: "history \<Rightarrow> org_wire \<Rightarrow> bool" where
  "accepted H w = snd (put_if_next_revision (stored H) (wire_rev w) w)"

text \<open>The revisions of a history count up from 1 without a gap.\<close>

definition history_ok :: "history \<Rightarrow> bool" where
  "history_ok H \<longleftrightarrow> map fst H = map int (rev [1..<Suc (length H)]) \<and> list_all (\<lambda>(rv, w). rv = wire_rev w) H"

text \<open>The reply to a request, and the history after it.\<close>

fun server_answer :: "history \<Rightarrow> ('k, org_wire) request \<Rightarrow> org_wire reply \<times> history" where
  "server_answer H (BuildWire own rv p ks) =
     (case buildFscpOrganizerWireEnvelope own rv p of Inl e \<Rightarrow> Threw e | Inr w \<Rightarrow> Built w, H)"
| "server_answer H (PutBlob w) =
     (if accepted H w then (Stored, (wire_rev w, w) # H) else (Threw Http409, H))"
| "server_answer H GetBlob = (Found (map_option snd (stored H)), H)"
| "server_answer H (DecryptWire own w ks) =
     (case decryptFscpOrganizerWireEnvelope w own of Inl e \<Rightarrow> Threw e | Inr (p, rv) \<Rightarrow> Decrypted p rv, H)"

section \<open>Concurrent devices\<close>

text \<open>
  A save in progress and the history. Besides the replies, another device may have a wire accepted at
  any time, and the connection may fail, before the request has had its effect or after it.
\<close>

inductive saving ::
  "(js_string \<Rightarrow> js_string) \<Rightarrow> js_string \<Rightarrow> intent option \<Rightarrow> ('k, org_wire) put_state \<Rightarrow> history \<Rightarrow> bool"
  for h :: "js_string \<Rightarrow> js_string" and own :: js_string and i :: "intent option" where
  saving_start: "history_ok H \<Longrightarrow> saving h own i (putState now ks own base s) H"
| saving_other: "saving h own i e H \<Longrightarrow> accepted H w \<Longrightarrow> saving h own i e ((wire_rev w, w) # H)"
| saving_reply: "saving h own i (Wait r q) H \<Longrightarrow> server_answer H q = (x, H') \<Longrightarrow>
     saving h own i (put_reply h now ks own i r q x) H'"
| saving_lost: "saving h own i (Wait r q) H \<Longrightarrow> H' = H \<or> H' = snd (server_answer H q) \<Longrightarrow>
     saving h own i (put_reply h now ks own i r q (Threw (Thrown m))) H'"

lemma stored_revision: "history_ok H \<Longrightarrow> stored H = Some (rv, w) \<Longrightarrow> rv = int (length H) \<and> wire_rev w = rv"
  by (cases H) (auto simp: history_ok_def)

lemma accepted_iff: "history_ok H \<Longrightarrow> accepted H w \<longleftrightarrow> wire_rev w = int (length H) + 1"
proof (cases H)
  case (Cons x H')
  assume "history_ok H"
  with Cons have "fst x = int (length H)" using stored_revision [of H "fst x" "snd x"] by simp
  with Cons show ?thesis
    by (cases x) (auto simp: accepted_def put_if_next_revision_def)
qed (auto simp: accepted_def put_if_next_revision_def)

lemma history_ok_grow: "history_ok H \<Longrightarrow> accepted H w \<Longrightarrow> history_ok ((wire_rev w, w) # H)"
  by (simp add: accepted_iff) (simp add: history_ok_def)

lemma history_ok_answer: "history_ok H \<Longrightarrow> history_ok (snd (server_answer H q))"
  by (cases q) (auto simp: history_ok_grow)

lemma history_ok_answer_eq: "server_answer H q = (x, H') \<Longrightarrow> history_ok H \<Longrightarrow> history_ok H'"
  using history_ok_answer [of H q] by simp

lemma history_ok_saving: "saving h own i e H \<Longrightarrow> history_ok H"
  by (induction rule: saving.induct) (auto simp: history_ok_grow history_ok_answer dest: history_ok_answer_eq)

text \<open>A stored revision is never written again.\<close>

lemma history_unique:
  "history_ok H \<Longrightarrow> (rv, w) \<in> set H \<Longrightarrow> (rv, w') \<in> set H \<Longrightarrow> w = w'"
proof -
  assume H: "history_ok H" and m: "(rv, w) \<in> set H" "(rv, w') \<in> set H"
  have "distinct (map fst H)" using H by (simp add: history_ok_def distinct_map inj_on_def)
  then show "w = w'" using m by (rule eq_key_imp_eq_value)
qed

lemma saving_grows: "server_answer H q = (x, H') \<Longrightarrow> set H \<subseteq> set H'"
  by (cases q) (auto split: if_splits)

text \<open>
  What is waiting after a conflict: the working state is the intent applied to a stored blob of the
  base revision, and the wire in flight holds the working state.
\<close>

definition based :: "(js_string \<Rightarrow> js_string) \<Rightarrow> js_string \<Rightarrow> intent option \<Rightarrow> put_run \<Rightarrow> history \<Rightarrow> bool" where
  "based h own i r H \<longleftrightarrow> (\<exists>w. (base_revision r, w) \<in> set H \<and>
     working r = reapply h own i (normalizeFscpOrganizerState (wire_plain w)) (base_revision r))"

fun in_flight :: "js_string \<Rightarrow> put_run \<Rightarrow> ('k, org_wire) request \<Rightarrow> history \<Rightarrow> bool" where
  "in_flight own r (BuildWire u rv p ks) H \<longleftrightarrow>
     rv = base_revision r + 1 \<and> (\<exists>now. p = overlayStateToOrganizerPlaintext (working r) now)"
| "in_flight own r (PutBlob w) H \<longleftrightarrow>
     wire_rev w = base_revision r + 1 \<and> (\<exists>now. wire_plain w = overlayStateToOrganizerPlaintext (working r) now)"
| "in_flight own r GetBlob H \<longleftrightarrow> True"
| "in_flight own r (DecryptWire u w ks) H \<longleftrightarrow> (wire_rev w, w) \<in> set H"

fun save_ok :: "(js_string \<Rightarrow> js_string) \<Rightarrow> js_string \<Rightarrow> intent option \<Rightarrow> ('k, org_wire) put_state \<Rightarrow> history \<Rightarrow> bool" where
  "save_ok h own i (Wait r q) H \<longleftrightarrow> (attempt r > 0 \<longrightarrow> based h own i r H) \<and> in_flight own r q H"
| "save_ok h own i _ H \<longleftrightarrow> True"

lemma save_ok_mono: "set H \<subseteq> set H' \<Longrightarrow> save_ok h own i e H \<Longrightarrow> save_ok h own i e H'"
proof (cases e)
  case (Wait r q)
  assume "set H \<subseteq> set H'" "save_ok h own i e H"
  with Wait show ?thesis by (cases q) (auto simp: based_def)
qed simp_all

lemma answer_mono: "set H \<subseteq> set (snd (server_answer H q))"
  by (cases q) auto

lemma save_ok_threw: "save_ok h own i (Wait r q) H \<Longrightarrow> save_ok h own i (put_reply h now ks own i r q (Threw e)) H"
  by (cases q) auto

lemma save_ok_stored: "save_ok h own i (put_reply h now ks own i r q Stored) H \<longleftrightarrow>
   (case q of PutBlob w \<Rightarrow> True | _ \<Rightarrow> save_ok h own i (Wait r q) H)"
  by (cases q) auto

lemma stored_mem: "stored H = Some x \<Longrightarrow> x \<in> set H"
  by (cases H) auto

lemma save_ok_reply:
  assumes "history_ok H" and ok: "save_ok h own i (Wait r q) H" and a: "server_answer H q = (x, H')"
  shows "save_ok h own i (put_reply h now ks own i r q x) H"
proof (cases q)
  case (BuildWire u rv p k)
  show ?thesis
  proof (cases "buildFscpOrganizerWireEnvelope u rv p")
    case (Inl e)
    with a BuildWire ok show ?thesis using save_ok_threw [OF ok] by auto
  next
    case (Inr w)
    then have "wire_rev w = rv" "wire_plain w = p"
      by (auto simp: buildFscpOrganizerWireEnvelope_def Let_def split: if_splits)
    with Inr a BuildWire ok show ?thesis by auto
  qed
next
  case (PutBlob w)
  with a ok show ?thesis by (auto split: if_splits)
next
  case GetBlob
  have "(wire_rev w, w) \<in> set H" if "stored H = Some (rv, w)" for rv w
    using stored_revision [OF assms(1) that] stored_mem [OF that] by simp
  with a ok GetBlob show ?thesis by (cases "stored H") auto
next
  case (DecryptWire u w k)
  show ?thesis
  proof (cases "decryptFscpOrganizerWireEnvelope w u")
    case (Inl e)
    with a DecryptWire ok show ?thesis using save_ok_threw [OF ok] by auto
  next
    case (Inr y)
    then have "y = (normalizeFscpOrganizerState (wire_plain w), wire_rev w)"
      by (auto simp: decryptFscpOrganizerWireEnvelope_def split: if_splits)
    with Inr a DecryptWire ok show ?thesis by (auto simp: Let_def build_request_def based_def)
  qed
qed

lemma save_ok_saving: "saving h own i e H \<Longrightarrow> save_ok h own i e H"
proof (induction rule: saving.induct)
  case (saving_start H now ks base s)
  show ?case by (auto simp: putState_def Let_def build_request_def)
next
  case (saving_other e H w)
  show ?case by (rule save_ok_mono [OF _ saving_other.IH]) auto
next
  case (saving_reply r q H x H' now ks)
  have "set H \<subseteq> set H'" using answer_mono [of H q] saving_reply.hyps(2) by simp
  then show ?case
    by (rule save_ok_mono)
      (rule save_ok_reply [OF history_ok_saving [OF saving_reply.hyps(1)] saving_reply.IH saving_reply.hyps(2)])
next
  case (saving_lost r q H H' now ks m)
  have "set H \<subseteq> set H'" using answer_mono [of H q] saving_lost.hyps(2) by auto
  then show ?case by (rule save_ok_mono) (rule save_ok_threw [OF saving_lost.IH])
qed

section \<open>No lost update\<close>

text \<open>
  C15. No change of another device is lost: when a put after a conflict is accepted, the blob it replaces
  is the very one the intent has been applied to, so the new blob is the stored content with the intent
  applied (or the stored content itself when there is no intent), at the next revision.
\<close>

theorem retry_is_atomic:
  assumes "saving h own i (Wait r (PutBlob w)) H" and "attempt r > 0" and "accepted H w"
  shows "\<exists>cur now. stored H = Some (base_revision r, cur) \<and>
     stored ((wire_rev w, w) # H) = Some (base_revision r + 1, w) \<and>
     wire_plain w = overlayStateToOrganizerPlaintext
       (reapply h own i (normalizeFscpOrganizerState (wire_plain cur)) (base_revision r)) now"
proof -
  have H: "history_ok H" by (rule history_ok_saving [OF assms(1)])
  from save_ok_saving [OF assms(1)] assms(2)
  obtain v now where v: "(base_revision r, v) \<in> set H"
      "working r = reapply h own i (normalizeFscpOrganizerState (wire_plain v)) (base_revision r)"
    and w: "wire_rev w = base_revision r + 1" "wire_plain w = overlayStateToOrganizerPlaintext (working r) now"
    by (auto simp: based_def)
  from v(1) obtain rv cur where c: "stored H = Some (rv, cur)" by (cases H) auto
  have "rv = base_revision r"
    using accepted_iff [OF H, of w] assms(3) w(1) stored_revision [OF H c] by simp
  with c have "cur = v" using history_unique [OF H _ v(1)] stored_mem [OF c] by simp
  with c \<open>rv = base_revision r\<close> v(2) w show ?thesis by auto
qed

text \<open>A save that starts without a local revision and meets the blob of another device.\<close>

definition sample_wire :: "int \<Rightarrow> org_wire" where
  "sample_wire n = \<lparr>wire_owner = [117], wire_rev = n, wire_plain = emptyOrganizerPlaintext []\<rparr>"

definition sample_run :: "nat \<Rightarrow> put_run" where
  "sample_run n =
     \<lparr>working = (if n = 0 then emptyChatListOverlayState
                 else reapply (\<lambda>x. x) [117] None (emptyOrganizerPlaintext []) 1),
      base_revision = int n, attempt = n\<rparr>"

lemmas sample_simps = sample_wire_def sample_run_def build_request_def buildFscpOrganizerWireEnvelope_def
  decryptFscpOrganizerWireEnvelope_def norm_owner_def trim_def is_space_unit_def toLowerCase_def lower_unit_def
  FSCP_ORGANIZER_MAX_ENTITIES_def emptyOrganizerPlaintext_def overlayStateToOrganizerPlaintext_def
  emptyChatListOverlayState_def or_empty_def accepted_def put_if_next_revision_def MAX_409_RETRIES_def
  normalizeFscpOrganizerState_def List.map_filter_def flagMap_def reapply_def organizerPlaintextToOverlayState_def

lemma sample_saving:
  "saving (\<lambda>x. x) [117] None (Wait (sample_run 1) (PutBlob (sample_wire 2)) :: (nat, org_wire) put_state)
     [(1, sample_wire 1)]"
proof -
  let ?S = "\<lambda>e :: (nat, org_wire) put_state. saving (\<lambda>x. x) [117] None e [(1, sample_wire 1)]"
  have reply: "?S e'" if "?S (Wait r q)" "server_answer [(1, sample_wire 1)] q = (x, [(1, sample_wire 1)])"
      "put_reply (\<lambda>x. x) [] (Some 0) [117] None r q x = e'" for r q x e'
    using saving_reply [OF that(1,2), of "[]" "Some 0"] that(3) by simp
  have "?S (putState [] (Some 0) [117] 0 emptyChatListOverlayState)"
    by (rule saving_start) (simp add: history_ok_def sample_wire_def)
  then have "?S (Wait (sample_run 0) (build_request [] (Some 0) [117] (sample_run 0)))"
    by (simp add: putState_def sample_run_def Let_def)
  then have "?S (Wait (sample_run 0) (PutBlob (sample_wire 1)))"
    by (rule reply [where x = "Built (sample_wire 1)"]) (simp_all add: sample_simps)
  then have "?S (Wait (sample_run 0) GetBlob)"
    by (rule reply [where x = "Threw Http409"]) (simp_all add: sample_simps)
  then have "?S (Wait (sample_run 0) (DecryptWire [117] (sample_wire 1) (Some 0)))"
    by (rule reply [where x = "Found (Some (sample_wire 1))"]) simp_all
  then have "?S (Wait (sample_run 1) (build_request [] (Some 0) [117] (sample_run 1)))"
    by (rule reply [where x = "Decrypted (emptyOrganizerPlaintext []) 1"]) (simp_all add: sample_simps)
  then show ?thesis
    by (rule reply [where x = "Built (sample_wire 2)"]) (simp_all add: sample_simps)
qed

theorem retry_is_atomic_witness:
  "\<exists>cur now. stored [(1, sample_wire 1)] = Some (1, cur) \<and>
     wire_plain (sample_wire 2) = overlayStateToOrganizerPlaintext
       (reapply (\<lambda>x. x) [117] None (normalizeFscpOrganizerState (wire_plain cur)) 1) now"
proof -
  have "attempt (sample_run 1) > 0" and b: "base_revision (sample_run 1) = 1"
    and "accepted [(1, sample_wire 1)] (sample_wire 2)"
    by (simp_all add: sample_simps)
  from retry_is_atomic [OF sample_saving this(1,3)] show ?thesis unfolding b by blast
qed

end
