(* ===== verification/Chat_Session.thy ===== *)
theory Chat_Session
  imports Chat_Put
begin

text \<open>
  The organizer session (\<open>createChatOrganizerSession\<close> in \<open>messaging/chatOrganizerSession.ts\<close>): the
  snapshot a view reads, the local store, the serial queue of writes and the refreshes in progress. Every
  asynchronous function is cut at its \<open>await\<close>s, so an execution is a list of events: a call, the start
  of the next write, or the reply to a request. The snapshot's owner is never the empty string, since
  only \<open>hydrate\<close> sets it.
\<close>

section \<open>State\<close>

datatype decrypt_error = RollbackRejected int int | BlobMissing | DecryptFailed thrown

text \<open>What the caller of a change gets when its write has ended.\<close>

datatype promise = NoAnswer | CreateAnswer entity | ArchivedAnswer js_string js_string bool | GroupAnswer js_string bool

datatype answer_value = AnswerEntity entity | AnswerBool bool

datatype write_task = MutateTask js_string intent promise | MigrateTask js_string nat overlay | PruneTask js_string

text \<open>The write in progress: a save, or the pull of a migration that met another device's blob.\<close>

datatype ('k, 'w) write_job = Saving put_run "('k, 'w) request" | Pulling "('k, 'w) request"

datatype ('k, 'w) sync_wait = SyncRequest "('k, 'w) request" | SyncOverlay overlay

text \<open>Calls that are not waited for, and the mirrors of archive flags on the server.\<close>

datatype side_call =
    ReconcileDm js_string overlay
  | ReconcileGroups js_string overlay
  | MirrorDm js_string js_string bool
  | MirrorGroup js_string bool

record ('k, 'w) session =
  owner :: "js_string option"
  shown :: overlay
  syncing :: bool
  keysReady :: bool
  decryptError :: "decrypt_error option"
  fscp_keys :: "'k option"
  refreshSeq :: nat
  archiveFlagsReconciledForOwner :: "js_string option"
  stickyKnownGroupUuids :: "js_string list option"
  store :: "js_string \<Rightarrow> overlay"
  write_queue :: "write_task list"
  writing :: "(write_task \<times> ('k, 'w) write_job) option"
  syncs :: "(js_string \<times> nat \<times> ('k, 'w) sync_wait) list"
  side_calls :: "side_call list"
  answers :: "answer_value option list"

definition new_session :: "(js_string \<Rightarrow> overlay) \<Rightarrow> ('k, 'w) session" where
  "new_session st =
     \<lparr>owner = None, shown = emptyChatListOverlayState, syncing = False, keysReady = False, decryptError = None,
      fscp_keys = None, refreshSeq = 0, archiveFlagsReconciledForOwner = None, stickyKnownGroupUuids = None,
      store = st, write_queue = [], writing = None, syncs = [], side_calls = [], answers = []\<rparr>"

text \<open>The context: the hash behind conversation identifiers and whether the http adapter reads the old overlay.\<close>

record session_context =
  uuid_hash :: "js_string \<Rightarrow> js_string"
  has_plaintext_overlay :: bool

definition rev_of :: "overlay \<Rightarrow> int" where
  "rev_of s = (case revision s of None \<Rightarrow> 0 | Some r \<Rightarrow> r)"

definition persist :: "js_string \<Rightarrow> overlay \<Rightarrow> ('k, 'w) session \<Rightarrow> ('k, 'w) session" where
  "persist u t s = s\<lparr>store := (store s)(u := t), shown := t\<rparr>"

definition persist_if :: "js_string \<Rightarrow> overlay \<Rightarrow> ('k, 'w) session \<Rightarrow> ('k, 'w) session" where
  "persist_if u t s = (if owner s = Some u then persist u t s else s)"

definition call_side :: "side_call list \<Rightarrow> ('k, 'w) session \<Rightarrow> ('k, 'w) session" where
  "call_side cs s = s\<lparr>side_calls := side_calls s @ cs\<rparr>"

definition enqueueWrite :: "write_task \<Rightarrow> ('k, 'w) session \<Rightarrow> ('k, 'w) session" where
  "enqueueWrite t s = s\<lparr>write_queue := write_queue s @ [t]\<rparr>"

section \<open>Refresh\<close>

definition syncFromServer :: "('k, 'w) session \<Rightarrow> ('k, 'w) session" where
  "syncFromServer s =
     (case (owner s, fscp_keys s) of
        (Some u, Some k) \<Rightarrow>
          s\<lparr>refreshSeq := refreshSeq s + 1, syncing := True, decryptError := None,
            syncs := syncs s @ [(u, refreshSeq s + 1, SyncRequest GetBlob)]\<rparr>
      | _ \<Rightarrow> s)"

definition is_stale :: "js_string \<Rightarrow> nat \<Rightarrow> ('k, 'w) session \<Rightarrow> bool" where
  "is_stale u n s \<longleftrightarrow> owner s \<noteq> Some u \<or> n \<noteq> refreshSeq s"

text \<open>The \<open>finally\<close> block.\<close>

definition sync_end :: "js_string \<Rightarrow> nat \<Rightarrow> ('k, 'w) session \<Rightarrow> ('k, 'w) session" where
  "sync_end u n s = (if is_stale u n s then s else s\<lparr>syncing := False\<rparr>)"

text \<open>The rest of a refresh after the server said that there is no blob.\<close>

definition sync_missing ::
  "session_context \<Rightarrow> js_string \<Rightarrow> nat \<Rightarrow> ('k, 'w) session \<Rightarrow> ('k, 'w) session \<times> ('k, 'w) sync_wait option" where
  "sync_missing c u n s =
     (let l = store s u in
      if migratedToOrg l = Some True \<or> rev_of l > 0
      then (sync_end u n (s\<lparr>decryptError := Some BlobMissing\<rparr>), None)
      else if has_plaintext_overlay c then (s, Some (SyncOverlay l))
      else (enqueueWrite (MigrateTask u n l) s, None))"

definition sync_decrypted ::
  "js_string \<Rightarrow> nat \<Rightarrow> plaintext \<Rightarrow> int \<Rightarrow> ('k, 'w) session \<Rightarrow> ('k, 'w) session" where
  "sync_decrypted u n p rv s =
     (if is_stale u n s then s
      else let l = rev_of (shown s) in
           if l \<ge> 1 \<and> rv < l then sync_end u n (s\<lparr>decryptError := Some (RollbackRejected rv l)\<rparr>)
           else let t = organizerPlaintextToOverlayState p (Some rv) (Some True)
                in sync_end u n (call_side [ReconcileDm u t, ReconcileGroups u t] (persist u t s)))"

datatype 'w sync_reply = SyncReply "'w reply" | OverlayRead "overlay option" | OverlayThrew

text \<open>The session after a reply, and what the refresh waits for next.\<close>

fun sync_step ::
  "session_context \<Rightarrow> js_string \<Rightarrow> nat \<Rightarrow> ('k, 'w) sync_wait \<Rightarrow> 'w sync_reply \<Rightarrow> ('k, 'w) session \<Rightarrow>
   ('k, 'w) session \<times> ('k, 'w) sync_wait option" where
  "sync_step c u n (SyncRequest GetBlob) (SyncReply (Found b)) s =
     (if is_stale u n s then (s, None)
      else case b of
             Some w \<Rightarrow> (s, Some (SyncRequest (DecryptWire u w (fscp_keys s))))
           | None \<Rightarrow> sync_missing c u n s)"
| "sync_step c u n (SyncRequest GetBlob) (SyncReply (Threw e)) s = (sync_end u n s, None)"
| "sync_step c u n (SyncRequest (DecryptWire _ _ _)) (SyncReply (Decrypted p rv)) s = (sync_decrypted u n p rv s, None)"
| "sync_step c u n (SyncRequest (DecryptWire _ _ _)) (SyncReply (Threw e)) s =
     (sync_end u n (s\<lparr>decryptError := Some (DecryptFailed e)\<rparr>), None)"
| "sync_step c u n (SyncOverlay l) (OverlayRead a) s = (enqueueWrite (MigrateTask u n (mergeOverlayForMigrate l a)) s, None)"
| "sync_step c u n (SyncOverlay l) OverlayThrew s = (enqueueWrite (MigrateTask u n l) s, None)"
| "sync_step c u n w r s = (s, Some w)"

definition sync_reply :: "session_context \<Rightarrow> nat \<Rightarrow> 'w sync_reply \<Rightarrow> ('k, 'w) session \<Rightarrow> ('k, 'w) session" where
  "sync_reply c j r s =
     (if j < length (syncs s)
      then case syncs s ! j of
             (u, n, w) \<Rightarrow>
               (case sync_step c u n w r (s\<lparr>syncs := take j (syncs s) @ drop (Suc j) (syncs s)\<rparr>) of
                  (t, None) \<Rightarrow> t
                | (t, Some w') \<Rightarrow> t\<lparr>syncs := (syncs s)[j := (u, n, w')]\<rparr>)
      else s)"

section \<open>Writes\<close>

text \<open>What happens after the task: the answer of a change, or the \<open>finally\<close> block of a refresh.\<close>

definition give_answer :: "promise \<Rightarrow> ('k, 'w) session \<Rightarrow> ('k, 'w) session" where
  "give_answer a s =
     (case a of
        NoAnswer \<Rightarrow> s\<lparr>answers := answers s @ [None]\<rparr>
      | CreateAnswer e \<Rightarrow>
          s\<lparr>answers := answers s @ [Some (AnswerEntity
             (case find (\<lambda>x. ent_id x = ent_id e) (entities (shown s)) of Some x \<Rightarrow> x | None \<Rightarrow> e))]\<rparr>
      | ArchivedAnswer p conv on \<Rightarrow>
          (let ok = (isPeerArchived p (archivedByPeer (shown s)) = on)
           in call_side (if ok \<and> conv \<noteq> [] then [MirrorDm conv p on] else [])
                (s\<lparr>answers := answers s @ [Some (AnswerBool ok)]\<rparr>))
      | GroupAnswer conv on \<Rightarrow>
          (let ok = (isConversationArchived conv (archivedByConversation (shown s)) = on)
           in call_side (if ok then [MirrorGroup conv on] else [])
                (s\<lparr>answers := answers s @ [Some (AnswerBool ok)]\<rparr>)))"

definition task_end :: "write_task \<Rightarrow> ('k, 'w) session \<Rightarrow> ('k, 'w) session" where
  "task_end t s =
     (let s' = s\<lparr>writing := None\<rparr> in
      case t of
        MutateTask u i a \<Rightarrow> give_answer a s'
      | MigrateTask u n seed \<Rightarrow> sync_end u n s'
      | PruneTask u \<Rightarrow> s')"

definition task_owner :: "write_task \<Rightarrow> js_string" where
  "task_owner t = (case t of MutateTask u i a \<Rightarrow> u | MigrateTask u n seed \<Rightarrow> u | PruneTask u \<Rightarrow> u)"

definition task_intent :: "write_task \<Rightarrow> intent option" where
  "task_intent t = (case t of MutateTask u i a \<Rightarrow> Some i | _ \<Rightarrow> None)"

text \<open>The base revision and the state a task starts to save.\<close>

definition task_base :: "session_context \<Rightarrow> write_task \<Rightarrow> ('k, 'w) session \<Rightarrow> int \<times> overlay" where
  "task_base c t s =
     (case t of
        MutateTask u i a \<Rightarrow>
          (let w = or_state (shown s) (applyIntent (uuid_hash c) (shown s) i (Some u)) in (rev_of w, w))
      | MigrateTask u n seed \<Rightarrow> (0, seed\<lparr>revision := Some 0\<rparr>)
      | PruneTask u \<Rightarrow> (rev_of (shown s), shown s))"

definition write_failed :: "session_context \<Rightarrow> write_task \<Rightarrow> thrown \<Rightarrow> ('k, 'w) session \<Rightarrow> ('k, 'w) session" where
  "write_failed c t e s =
     (case t of
        MutateTask u i a \<Rightarrow>
          task_end t (persist_if u (revertIntent (uuid_hash c) (shown s) i (Some u)) s)
      | MigrateTask u n seed \<Rightarrow>
          (if e = Http409 then s\<lparr>writing := Some (t, Pulling GetBlob)\<rparr> else task_end t s)
      | PruneTask u \<Rightarrow> task_end t s)"

definition write_result ::
  "session_context \<Rightarrow> write_task \<Rightarrow> ('k, 'w) put_state \<Rightarrow> ('k, 'w) session \<Rightarrow> ('k, 'w) session" where
  "write_result c t e s =
     (case e of
        Wait r q \<Rightarrow> s\<lparr>writing := Some (t, Saving r q)\<rparr>
      | Saved x \<Rightarrow> task_end t (persist_if (task_owner t) x s)
      | Failed x \<Rightarrow> write_failed c t x s)"

definition start_write :: "session_context \<Rightarrow> js_string \<Rightarrow> ('k, 'w) session \<Rightarrow> ('k, 'w) session" where
  "start_write c now s =
     (case (writing s, write_queue s) of
        (None, t # ts) \<Rightarrow>
          (let s' = s\<lparr>write_queue := ts\<rparr> in
           if owner s' \<noteq> Some (task_owner t) \<or> fscp_keys s' = None then task_end t s'
           else case task_base c t s' of
                  (base, x) \<Rightarrow> write_result c t (putState now (fscp_keys s') (task_owner t) base x) s')
      | _ \<Rightarrow> s)"

fun pull_reply ::
  "write_task \<Rightarrow> ('k, 'w) request \<Rightarrow> 'w reply \<Rightarrow> ('k, 'w) session \<Rightarrow> ('k, 'w) session" where
  "pull_reply t GetBlob (Found (Some w)) s =
     (case fscp_keys s of
        None \<Rightarrow> task_end t s
      | Some k \<Rightarrow> s\<lparr>writing := Some (t, Pulling (DecryptWire (task_owner t) w (Some k)))\<rparr>)"
| "pull_reply t GetBlob (Found None) s = task_end t s"
| "pull_reply t (DecryptWire _ _ _) (Decrypted p rv) s =
     task_end t (persist_if (task_owner t) (organizerPlaintextToOverlayState p (Some rv) (Some True)) s)"
| "pull_reply t q (Threw e) s = task_end t s"
| "pull_reply t q r s = s"

definition write_reply :: "session_context \<Rightarrow> js_string \<Rightarrow> 'w reply \<Rightarrow> ('k, 'w) session \<Rightarrow> ('k, 'w) session" where
  "write_reply c now x s =
     (case writing s of
        None \<Rightarrow> s
      | Some (t, Saving r q) \<Rightarrow>
          write_result c t (put_reply (uuid_hash c) now (fscp_keys s) (task_owner t) (task_intent t) r q x) s
      | Some (t, Pulling q) \<Rightarrow> pull_reply t q x s)"

section \<open>Calls\<close>

definition hydrate :: "js_string option \<Rightarrow> ('k, 'w) session \<Rightarrow> ('k, 'w) session" where
  "hydrate userUuid s =
     (let u = (case userUuid of None \<Rightarrow> None | Some x \<Rightarrow> if trim x = [] then None else Some (trim x)) in
      if owner s = u \<and> u \<noteq> None then (if fscp_keys s \<noteq> None then syncFromServer s else s)
      else let t = s\<lparr>archiveFlagsReconciledForOwner := None, stickyKnownGroupUuids := None, owner := u,
                     shown := (case u of None \<Rightarrow> emptyChatListOverlayState | Some x \<Rightarrow> store s x),
                     decryptError := None\<rparr>
           in if u \<noteq> None \<and> fscp_keys t \<noteq> None then syncFromServer t else t)"

definition setKeys :: "'k option \<Rightarrow> ('k, 'w) session \<Rightarrow> ('k, 'w) session" where
  "setKeys ks s =
     (let t = s\<lparr>fscp_keys := ks, keysReady := (ks \<noteq> None)\<rparr>
      in if ks \<noteq> None \<and> owner t \<noteq> None then syncFromServer t else t)"

definition mutateWithIntent ::
  "intent \<Rightarrow> promise \<Rightarrow> overlay \<Rightarrow> ('k, 'w) session \<Rightarrow> ('k, 'w) session" where
  "mutateWithIntent i a optimistic s =
     (case (owner s, fscp_keys s) of
        (Some u, Some k) \<Rightarrow> enqueueWrite (MutateTask u i a) (persist u optimistic s)
      | _ \<Rightarrow> give_answer a s)"

definition refuse :: "answer_value option \<Rightarrow> ('k, 'w) session \<Rightarrow> ('k, 'w) session" where
  "refuse v s = s\<lparr>answers := answers s @ [v]\<rparr>"

text \<open>The label of a folder without a name is the Russian word, as code units.\<close>

definition folder_label :: "js_string option \<Rightarrow> js_string" where
  "folder_label label =
     take CHAT_LIST_FOLDER_LABEL_MAX
       (case label of
          None \<Rightarrow> [0x41F, 0x430, 0x43F, 0x43A, 0x430]
        | Some l \<Rightarrow> if trim l = [] then [0x41F, 0x430, 0x43F, 0x43A, 0x430] else trim l)"

definition createFolder ::
  "session_context \<Rightarrow> js_string \<Rightarrow> int \<Rightarrow> js_string \<Rightarrow> js_string list \<Rightarrow> js_string option \<Rightarrow>
   ('k, 'w) session \<Rightarrow> ('k, 'w) session" where
  "createFolder c newId nowMs icon members label s =
     (if owner s = None \<or> fscp_keys s = None then refuse None s
      else if \<not> canCreateChatListFolder (int (archivedSlotCount (uuid_hash c) (shown s) (owner s)))
                 (int (length (entities (shown s)))) (int CHAT_LIST_MAX_FOLDER_ICONS) then refuse None s
      else if \<not> isChatListFolderIconName icon then refuse None s
      else let e = \<lparr>ent_id = newId, ent_kind = FolderEntity, ent_label = folder_label label, ent_icon = Some icon,
                    ent_avatar = Undefined, ent_peers = members, ent_conversations = Some [], ent_created = nowMs\<rparr>
           in case applyIntent (uuid_hash c) (shown s) (CreateFolder e) (owner s) of
                Refused \<Rightarrow> refuse None s
              | o' \<Rightarrow> mutateWithIntent (CreateFolder e) (CreateAnswer e) (or_state (shown s) o') s)"

definition addPeerToFolder :: "session_context \<Rightarrow> js_string \<Rightarrow> js_string \<Rightarrow> ('k, 'w) session \<Rightarrow> ('k, 'w) session" where
  "addPeerToFolder c entityId peerUuid s =
     (case applyIntent (uuid_hash c) (shown s) (AddPeer entityId peerUuid) (owner s) of
        Refused \<Rightarrow> refuse None s
      | o' \<Rightarrow> mutateWithIntent (AddPeer entityId peerUuid) NoAnswer (or_state (shown s) o') s)"

definition removeFolder :: "session_context \<Rightarrow> js_string \<Rightarrow> ('k, 'w) session \<Rightarrow> ('k, 'w) session" where
  "removeFolder c entityId s =
     (let i = RemoveFolder entityId (find (\<lambda>e. ent_id e = entityId) (entities (shown s))) in
      case applyIntent (uuid_hash c) (shown s) i (owner s) of
        Refused \<Rightarrow> refuse None s
      | o' \<Rightarrow> mutateWithIntent i NoAnswer (or_state (shown s) o') s)"

definition setArchived ::
  "session_context \<Rightarrow> js_string \<Rightarrow> js_string \<Rightarrow> bool \<Rightarrow> ('k, 'w) session \<Rightarrow> ('k, 'w) session" where
  "setArchived c peerUuid conversationUuid archived s =
     (let peer = trim peerUuid; conv = trim conversationUuid; i = SetArchived peer conv archived in
      if peer = [] \<or> fscp_keys s = None then refuse (Some (AnswerBool False)) s
      else case applyIntent (uuid_hash c) (shown s) i (owner s) of
             Refused \<Rightarrow> refuse (Some (AnswerBool False)) s
           | Same \<Rightarrow> refuse (Some (AnswerBool True)) (call_side (if conv \<noteq> [] then [MirrorDm conv peer archived] else []) s)
           | Next t \<Rightarrow> mutateWithIntent i (ArchivedAnswer peer conv archived) t s)"

definition setGroupArchived :: "session_context \<Rightarrow> js_string \<Rightarrow> bool \<Rightarrow> ('k, 'w) session \<Rightarrow> ('k, 'w) session" where
  "setGroupArchived c conversationUuid archived s =
     (let conv = trim conversationUuid; i = SetGroupArchived conv archived in
      if conv = [] \<or> fscp_keys s = None then refuse (Some (AnswerBool False)) s
      else case applyIntent (uuid_hash c) (shown s) i (owner s) of
             Refused \<Rightarrow> refuse (Some (AnswerBool False)) s
           | Same \<Rightarrow> refuse (Some (AnswerBool True)) (call_side [MirrorGroup conv archived] s)
           | Next t \<Rightarrow> mutateWithIntent i (GroupAnswer conv archived) t s)"

definition setMuted ::
  "session_context \<Rightarrow> js_string \<Rightarrow> js_string \<Rightarrow> bool \<Rightarrow> ('k, 'w) session \<Rightarrow> ('k, 'w) session" where
  "setMuted c peerUuid conversationUuid muted s =
     (if trim peerUuid = [] then refuse None s
      else case applyIntent (uuid_hash c) (shown s) (SetMuted peerUuid conversationUuid muted) (owner s) of
             Next t \<Rightarrow> mutateWithIntent (SetMuted peerUuid conversationUuid muted) NoAnswer t s
           | _ \<Rightarrow> refuse None s)"

text \<open>\<open>Set.add\<close> keeps the order of insertion.\<close>

definition set_of :: "js_string list \<Rightarrow> js_string list" where
  "set_of xs = fold (\<lambda>x acc. if x \<in> set acc then acc else acc @ [x]) xs []"

definition setKnownGroupUuids :: "js_string list \<Rightarrow> ('k, 'w) session \<Rightarrow> ('k, 'w) session" where
  "setKnownGroupUuids conversationUuids s =
     (let plain = filter (\<lambda>u. u \<noteq> []) (map trim conversationUuids);
          known = set_of (plain @ map toLowerCase plain);
          t = s\<lparr>stickyKnownGroupUuids := Some known\<rparr>
      in case owner s of
           None \<Rightarrow> t
         | Some u \<Rightarrow>
             (let t' = (case stickyKnownGroupUuids s of
                          None \<Rightarrow> t
                        | Some prev \<Rightarrow>
                            (let arch = archivedByConversation (shown s);
                                 pr = pruneArchivedConversations arch (filter (\<lambda>g. g \<notin> set known) prev)
                             in if arch \<noteq> None \<and> pr = Unchanged then t
                                else let t2 = persist u ((shown t)\<lparr>archivedByConversation :=
                                                  Some (the_updated (or_empty arch) pr)\<rparr>) t
                                     in if fscp_keys t2 = None then t2 else enqueueWrite (PruneTask u) t2))
              in call_side [ReconcileGroups u (shown t')] t'))"

section \<open>Events\<close>

datatype ('k, 'w) event =
    Hydrate "js_string option"
  | SetKeys "'k option"
  | Refresh
  | CallCreateFolder js_string int js_string "js_string list" "js_string option"
  | CallAddPeer js_string js_string
  | CallRemoveFolder js_string
  | CallSetArchived js_string js_string bool
  | CallSetGroupArchived js_string bool
  | CallSetMuted js_string js_string bool
  | CallKnownGroups "js_string list"
  | StartWrite js_string
  | WriteReply js_string "'w reply"
  | SyncAnswered nat "'w sync_reply"

fun session_step :: "session_context \<Rightarrow> ('k, 'w) event \<Rightarrow> ('k, 'w) session \<Rightarrow> ('k, 'w) session" where
  "session_step c (Hydrate u) s = hydrate u s"
| "session_step c (SetKeys ks) s = setKeys ks s"
| "session_step c Refresh s = syncFromServer s"
| "session_step c (CallCreateFolder i t icon ms l) s = createFolder c i t icon ms l s"
| "session_step c (CallAddPeer f p) s = addPeerToFolder c f p s"
| "session_step c (CallRemoveFolder f) s = removeFolder c f s"
| "session_step c (CallSetArchived p g on) s = setArchived c p g on s"
| "session_step c (CallSetGroupArchived g on) s = setGroupArchived c g on s"
| "session_step c (CallSetMuted p g on) s = setMuted c p g on s"
| "session_step c (CallKnownGroups gs) s = setKnownGroupUuids gs s"
| "session_step c (StartWrite now) s = start_write c now s"
| "session_step c (WriteReply now x) s = write_reply c now x s"
| "session_step c (SyncAnswered j r) s = sync_reply c j r s"

definition session_run :: "session_context \<Rightarrow> ('k, 'w) event list \<Rightarrow> ('k, 'w) session \<Rightarrow> ('k, 'w) session" where
  "session_run c es s = fold (session_step c) es s"

end
