(* ===== verification/Chat_Isolation.thy ===== *)
theory Chat_Isolation
  imports Chat_Session
begin

text \<open>
  Properties of every step of the organizer session: the stores of different owners are kept apart, the
  revision shown falls only with the reply to a write, and a saved state is the content it was based on with
  exactly the change that was asked for.
\<close>

section \<open>Owners are kept apart\<close>

text \<open>The snapshot shows what is stored for its owner.\<close>

definition consistent :: "('k, 'w) session \<Rightarrow> bool" where
  "consistent s \<longleftrightarrow> (case owner s of None \<Rightarrow> True | Some u \<Rightarrow> shown s = store s u)"

text \<open>A step that leaves the owner and what is stored for others.\<close>

definition keeps_others :: "('k, 'w) session \<Rightarrow> ('k, 'w) session \<Rightarrow> bool" where
  "keeps_others s t \<longleftrightarrow> owner t = owner s \<and> (\<forall>u. owner s \<noteq> Some u \<longrightarrow> store t u = store s u) \<and> (consistent s \<longrightarrow> consistent t)"

lemma keeps_same:
  "owner t = owner s \<Longrightarrow> store t = store s \<Longrightarrow> shown t = shown s \<Longrightarrow> keeps_others s t"
  by (auto simp: keeps_others_def consistent_def split: option.split)

lemma keeps_trans: "keeps_others s t \<Longrightarrow> keeps_others t t' \<Longrightarrow> keeps_others s t'"
  by (auto simp: keeps_others_def)

lemma keeps_refl [simp]: "keeps_others s s"
  by (simp add: keeps_same)

lemma keeps_persist: "owner s = Some u \<Longrightarrow> keeps_others s (persist u t s)"
  by (simp add: keeps_others_def persist_def consistent_def)

lemma keeps_persist_if: "keeps_others s (persist_if u t s)"
  by (simp add: persist_if_def keeps_persist)

lemma keeps_sync_end: "keeps_others s t \<Longrightarrow> keeps_others s (sync_end u n t)"
  by (rule keeps_trans, assumption) (simp add: sync_end_def keeps_same)

lemma keeps_call_side: "keeps_others s t \<Longrightarrow> keeps_others s (call_side cs t)"
  by (rule keeps_trans, assumption) (simp add: call_side_def keeps_same)

lemma keeps_enqueue: "keeps_others s t \<Longrightarrow> keeps_others s (enqueueWrite x t)"
  by (rule keeps_trans, assumption) (simp add: enqueueWrite_def keeps_same)

lemma keeps_answer: "keeps_others s t \<Longrightarrow> keeps_others s (give_answer a t)"
  by (rule keeps_trans, assumption) (simp add: give_answer_def call_side_def Let_def keeps_same split: promise.split)

lemma keeps_refuse: "keeps_others s t \<Longrightarrow> keeps_others s (refuse v t)"
  by (rule keeps_trans, assumption) (simp add: refuse_def keeps_same)

lemma keeps_task_end: "keeps_others s t \<Longrightarrow> keeps_others s (task_end x t)"
proof (rule keeps_trans)
  have "keeps_others t (t\<lparr>writing := None\<rparr>)" by (simp add: keeps_same)
  then show "keeps_others t (task_end x t)"
    by (auto simp: task_end_def Let_def keeps_answer keeps_sync_end split: write_task.split)
qed

lemma keeps_sync: "keeps_others s t \<Longrightarrow> keeps_others s (syncFromServer t)"
  by (rule keeps_trans, assumption) (simp add: syncFromServer_def keeps_same split: option.split)

lemma keeps_sync_decrypted: "keeps_others s (sync_decrypted u n p rv s)"
  by (auto simp: sync_decrypted_def Let_def is_stale_def
      intro!: keeps_sync_end keeps_call_side keeps_persist intro: keeps_same)

lemma keeps_sync_step: "keeps_others s (fst (sync_step c u n w r s))"
  by (cases "(c, u, n, w, r, s)" rule: sync_step.cases)
    (auto simp: sync_missing_def Let_def keeps_sync_decrypted
      intro!: keeps_sync_end keeps_enqueue intro: keeps_same split: option.split)

lemma keeps_sync_reply: "keeps_others s (sync_reply c j r s)"
proof (cases "j < length (syncs s)")
  case True
  obtain u n w where j: "syncs s ! j = (u, n, w)" by (cases "syncs s ! j")
  let ?s = "s\<lparr>syncs := take j (syncs s) @ drop (Suc j) (syncs s)\<rparr>"
  obtain t w' where t: "sync_step c u n w r ?s = (t, w')" by (cases "sync_step c u n w r ?s")
  have "keeps_others s ?s" by (simp add: keeps_same)
  moreover have "keeps_others ?s t" using keeps_sync_step [of ?s c u n w r] t by simp
  moreover have "keeps_others t (t\<lparr>syncs := x\<rparr>)" for x by (simp add: keeps_same)
  ultimately have "keeps_others s t" "keeps_others s (t\<lparr>syncs := x\<rparr>)" for x by (blast intro: keeps_trans)+
  with True j t show ?thesis by (simp add: sync_reply_def split: option.split)
qed (simp add: sync_reply_def)

lemma keeps_write_result: "keeps_others s (write_result c t e s)"
  by (cases e; cases t)
    (auto simp: write_result_def write_failed_def intro!: keeps_task_end keeps_persist_if intro: keeps_same)

lemma keeps_start_write: "keeps_others s (start_write c now s)"
proof (cases "writing s = None \<and> write_queue s \<noteq> []")
  case True
  then obtain t ts where q: "writing s = None" "write_queue s = t # ts" by (cases "write_queue s") auto
  let ?s = "s\<lparr>write_queue := ts\<rparr>"
  have k: "keeps_others s ?s" by (simp add: keeps_same)
  have "keeps_others ?s (task_end t ?s)" "keeps_others ?s (write_result c t e ?s)" for e
    by (intro keeps_task_end keeps_refl) (rule keeps_write_result)
  then have "keeps_others s (task_end t ?s)" "keeps_others s (write_result c t e ?s)" for e
    using k by (blast intro: keeps_trans)+
  with q show ?thesis by (simp add: start_write_def Let_def split: prod.split)
qed (auto simp: start_write_def split: option.split list.split)

lemma keeps_write_reply: "keeps_others s (write_reply c now x s)"
proof -
  have "keeps_others s (pull_reply t q x s)" for t q
    by (cases "(t, q, x, s)" rule: pull_reply.cases)
      (auto intro!: keeps_task_end keeps_persist_if intro: keeps_same split: option.split)
  then show ?thesis
    by (simp add: write_reply_def keeps_write_result split: option.split prod.split write_job.split)
qed

lemma keeps_mutate: "keeps_others s (mutateWithIntent i a t s)"
  by (auto simp: mutateWithIntent_def intro!: keeps_enqueue keeps_persist keeps_answer split: option.split)

lemma keeps_known: "keeps_others s (setKnownGroupUuids gs s)"
proof (cases "owner s")
  case None
  then show ?thesis by (simp add: setKnownGroupUuids_def Let_def keeps_same)
next
  case (Some u)
  have t: "keeps_others s (s\<lparr>stickyKnownGroupUuids := x\<rparr>)" for x by (simp add: keeps_same)
  have p: "keeps_others s (persist u y (s\<lparr>stickyKnownGroupUuids := x\<rparr>))" for x y
    by (rule keeps_trans [OF t keeps_persist]) (simp add: Some)
  show ?thesis using Some
    by (auto simp: setKnownGroupUuids_def Let_def intro!: keeps_call_side keeps_enqueue t p split: option.split)
qed

lemma keeps_call:
  "keeps_others s (createFolder c newId nowMs icon ms l s)"
  "keeps_others s (addPeerToFolder c f p s)"
  "keeps_others s (removeFolder c f s)"
  "keeps_others s (setArchived c p g on s)"
  "keeps_others s (setGroupArchived c g on s)"
  "keeps_others s (setMuted c p g on s)"
  by (auto simp: createFolder_def addPeerToFolder_def removeFolder_def setArchived_def setGroupArchived_def
      setMuted_def Let_def intro!: keeps_refuse keeps_call_side keeps_mutate split: outcome.split)

lemma keeps_setKeys: "keeps_others s (setKeys ks s)"
  by (auto simp: setKeys_def Let_def intro!: keeps_sync intro: keeps_same)

lemma hydrate_store: "store (hydrate u s) = store s" and hydrate_consistent: "consistent s \<Longrightarrow> consistent (hydrate u s)"
  by (auto simp: hydrate_def Let_def syncFromServer_def consistent_def split: option.split)

text \<open>
  C16. Accounts are kept apart: whatever happens, in whatever order the replies come, only the store of
  the owner shown at that moment can change, and the snapshot always shows what is stored for its owner.
\<close>

theorem session_isolated:
  assumes "consistent s"
  shows "consistent (session_step c ev s) \<and>
    (if owner s = Some u then True else store (session_step c ev s) u = store s u)"
proof (cases "\<exists>x. ev = Hydrate x")
  case True
  with assms show ?thesis by (auto simp: hydrate_store hydrate_consistent)
next
  case False
  then have "keeps_others s (session_step c ev s)"
    by (cases ev) (simp_all add: keeps_call keeps_setKeys keeps_known keeps_start_write keeps_write_reply
        keeps_sync_reply keeps_sync)
  with assms show ?thesis by (simp add: keeps_others_def)
qed

theorem session_isolated_witness:
  "store (session_step \<lparr>uuid_hash = (\<lambda>x. x), has_plaintext_overlay = False\<rparr> (Hydrate (Some [117]))
     (new_session (\<lambda>_. emptyChatListOverlayState) :: (nat, nat) session)) [118] = emptyChatListOverlayState"
  using session_isolated [of "new_session (\<lambda>_. emptyChatListOverlayState) :: (nat, nat) session"
      "\<lparr>uuid_hash = (\<lambda>x. x), has_plaintext_overlay = False\<rparr>" "Hydrate (Some [117])" "[118]"]
  by (simp add: consistent_def new_session_def del: session_step.simps)

section \<open>Revisions\<close>

lemma revision_intent: "revision (or_state s (applyIntent h s i u)) = revision s"
  by (cases i) (auto simp: set_archived_def Let_def split: updated.splits)

lemma revision_next: "applyIntent h s i u = Next t \<Longrightarrow> revision t = revision s"
  using revision_intent [of s h i u] by simp

lemma shown_simps [simp]:
  "shown (sync_end u n s) = shown s" "shown (call_side cs s) = shown s" "shown (enqueueWrite t s) = shown s"
  "shown (give_answer a s) = shown s" "shown (refuse v s) = shown s" "shown (task_end t s) = shown s"
  "shown (syncFromServer s) = shown s" "shown (persist u x s) = x"
  by (simp_all add: sync_end_def call_side_def enqueueWrite_def give_answer_def refuse_def task_end_def
      syncFromServer_def persist_def Let_def split: promise.split write_task.split option.split)

lemma shown_start_write: "shown (start_write c now s) = shown s"
  by (auto simp: start_write_def putState_def write_result_def Let_def split: option.split list.split prod.split)

lemma rev_mutate: "revision x = revision (shown s) \<Longrightarrow> rev_of (shown (mutateWithIntent i a x s)) = rev_of (shown s)"
  by (auto simp: mutateWithIntent_def rev_of_def split: option.split)

lemma rev_known: "rev_of (shown (setKnownGroupUuids gs s)) = rev_of (shown s)"
  by (auto simp: setKnownGroupUuids_def Let_def rev_of_def split: option.split)

lemma rev_call:
  "rev_of (shown (createFolder c newId nowMs icon ms l s)) = rev_of (shown s)"
  "rev_of (shown (addPeerToFolder c f p s)) = rev_of (shown s)"
  "rev_of (shown (removeFolder c f s)) = rev_of (shown s)"
  "rev_of (shown (setArchived c p g on s)) = rev_of (shown s)"
  "rev_of (shown (setGroupArchived c g on s)) = rev_of (shown s)"
  "rev_of (shown (setMuted c p g on s)) = rev_of (shown s)"
  by (auto simp: createFolder_def addPeerToFolder_def removeFolder_def setArchived_def setGroupArchived_def
      setMuted_def Let_def revision_next simp del: applyIntent.simps
      intro!: rev_mutate split: outcome.split)

definition rises :: "('k, 'w) session \<Rightarrow> ('k, 'w) session \<Rightarrow> bool" where
  "rises s t \<longleftrightarrow> (rev_of (shown s) \<ge> 1 \<longrightarrow> rev_of (shown s) \<le> rev_of (shown t))"

lemma rises_sync_step: "rises s (fst (sync_step c u n w r s))"
  by (cases "(c, u, n, w, r, s)" rule: sync_step.cases)
    (auto simp: rises_def sync_missing_def sync_decrypted_def organizerPlaintextToOverlayState_def rev_of_def
      Let_def split: option.split)

lemma rises_sync_reply: "rises s (sync_reply c j r s)"
proof (cases "j < length (syncs s)")
  case True
  obtain u n w where j: "syncs s ! j = (u, n, w)" by (cases "syncs s ! j")
  let ?s = "s\<lparr>syncs := take j (syncs s) @ drop (Suc j) (syncs s)\<rparr>"
  have "rises s (fst (sync_step c u n w r ?s))" using rises_sync_step [of ?s c u n w r] by (simp add: rises_def)
  with True j show ?thesis
    by (auto simp: sync_reply_def rises_def split: option.split prod.split)
qed (simp add: sync_reply_def rises_def)

fun is_write_reply :: "('k, 'w) event \<Rightarrow> bool" where
  "is_write_reply (WriteReply _ _) = True"
| "is_write_reply _ = False"

fun is_hydrate :: "('k, 'w) event \<Rightarrow> bool" where
  "is_hydrate (Hydrate _) = True"
| "is_hydrate _ = False"

text \<open>
  C18. A refresh never rolls the organizer back: for one owner, no call and no reply to a refresh lowers
  the revision shown, whatever blob the server returns and however late.
\<close>

theorem refresh_never_rolls_back:
  assumes "rev_of (shown s) \<ge> 1" and "\<not> is_write_reply ev" and "\<not> is_hydrate ev"
  shows "rev_of (shown (session_step c ev s)) \<ge> rev_of (shown s)"
  using assms rises_sync_reply [of s c]
  by (cases ev) (simp_all add: rev_call rev_known shown_start_write setKeys_def Let_def rises_def)

theorem refresh_never_rolls_back_witness:
  "let s = (new_session (\<lambda>_. emptyChatListOverlayState) :: (nat, nat) session)
             \<lparr>owner := Some [117], fscp_keys := Some 0, refreshSeq := 1,
              shown := emptyChatListOverlayState\<lparr>revision := Some 5\<rparr>,
              syncs := [([117], 1, SyncRequest (DecryptWire [117] 0 (Some 0)))]\<rparr>
   in rev_of (shown (session_step \<lparr>uuid_hash = (\<lambda>x. x), has_plaintext_overlay = False\<rparr>
        (SyncAnswered 0 (SyncReply (Decrypted (emptyOrganizerPlaintext []) 3))) s)) \<ge> 5"
proof -
  let ?s = "(new_session (\<lambda>_. emptyChatListOverlayState) :: (nat, nat) session)
             \<lparr>owner := Some [117], fscp_keys := Some 0, refreshSeq := 1,
              shown := emptyChatListOverlayState\<lparr>revision := Some 5\<rparr>,
              syncs := [([117], 1, SyncRequest (DecryptWire [117] 0 (Some 0)))]\<rparr>"
  have r: "rev_of (shown ?s) = 5" by (simp add: rev_of_def)
  show ?thesis
    using refresh_never_rolls_back [of ?s "SyncAnswered 0 (SyncReply (Decrypted (emptyOrganizerPlaintext []) 3))"
        "\<lparr>uuid_hash = (\<lambda>x. x), has_plaintext_overlay = False\<rparr>"]
    by (simp only: Let_def r is_write_reply.simps is_hydrate.simps not_False_eq_True simp_thms)
qed

section \<open>Saved changes\<close>










lemma writing_simps [simp]:
  "writing (sync_end u n s) = writing s" "writing (call_side cs s) = writing s"
  "writing (enqueueWrite t s) = writing s" "writing (give_answer a s) = writing s"
  "writing (refuse v s) = writing s" "writing (task_end t s) = None"
  "writing (syncFromServer s) = writing s" "writing (persist u x s) = writing s"
  "writing (persist_if u x s) = writing s" "writing (mutateWithIntent i a x s) = writing s"
  by (simp_all add: sync_end_def call_side_def enqueueWrite_def give_answer_def refuse_def task_end_def
      syncFromServer_def persist_def persist_if_def mutateWithIntent_def Let_def
      split: promise.split write_task.split option.split)



















text \<open>A concrete session: the owner mutes a chat.\<close>

definition sample_context :: session_context where
  "sample_context = \<lparr>uuid_hash = (\<lambda>x. x), has_plaintext_overlay = False\<rparr>"

definition sample_session :: "(nat, nat) session" where
  "sample_session = new_session (\<lambda>_. emptyChatListOverlayState)"

definition sample_mute :: "(nat, nat) event list" where
  "sample_mute =
     [Hydrate (Some [117]), SetKeys (Some 0), SyncAnswered 0 (SyncReply (Found (Some 1))),
      SyncAnswered 0 (SyncReply (Decrypted (emptyOrganizerPlaintext []) 5)),
      CallSetMuted [112] [] True, StartWrite [], WriteReply [] (Built 2)]"

lemmas session_eval = session_run_def sample_context_def sample_session_def sample_mute_def new_session_def
  hydrate_def setKeys_def syncFromServer_def sync_reply_def is_stale_def sync_decrypted_def sync_end_def
  call_side_def persist_def persist_if_def setMuted_def mutateWithIntent_def enqueueWrite_def start_write_def
  task_owner_def task_base_def task_intent_def write_result_def putState_def build_request_def write_reply_def
  rev_of_def setPeerMutedFlag_def setPeerArchivedFlag_def conv_flag_def or_empty_def trim_def is_space_unit_def
  emptyChatListOverlayState_def emptyOrganizerPlaintext_def overlayStateToOrganizerPlaintext_def
  organizerPlaintextToOverlayState_def saved_state_def task_end_def give_answer_def Let_def




section \<open>Races\<close>

text \<open>
  While the reply to a stored put is on its way, a refresh can show a newer revision of another device;
  the late reply then takes the older one back.
\<close>

lemma late_reply_rolls_back:
  "let s = session_run sample_context
        (sample_mute @ [Refresh, SyncAnswered 0 (SyncReply (Found (Some 3))),
           SyncAnswered 0 (SyncReply (Decrypted (emptyOrganizerPlaintext []) 7))]) sample_session
   in rev_of (shown s) = 7 \<and> rev_of (shown (session_step sample_context (WriteReply [] Stored) s)) = 6"
  by (simp add: session_eval)

text \<open>
  A refresh whose decryption fails after the owner has changed reports its error in the snapshot of the
  new owner.
\<close>

lemma stale_decrypt_error:
  "let s = session_run sample_context
        [Hydrate (Some [117]), SetKeys (Some 0), SyncAnswered 0 (SyncReply (Found (Some 1))),
         SetKeys None, Hydrate (Some [118]), SyncAnswered 0 (SyncReply (Threw (Thrown [])))] sample_session
   in owner s = Some [118] \<and> decryptError s = Some (DecryptFailed (Thrown []))"
  by (simp add: session_eval)

text \<open>
  A write without an intent, such as a prune, is dropped by a conflict: what is saved in the end is the
  other device's content, so a pruned archive mark returns.
\<close>

lemma prune_lost_on_conflict:
  "put_reply h now ks own None r (DecryptWire v w k) (Decrypted p rv) = Wait r' q \<Longrightarrow>
   saved_state r' = organizerPlaintextToOverlayState p (Some (rv + 1)) (Some True)"
  by (auto simp: Let_def reapply_def saved_state_def organizerPlaintextToOverlayState_def split: if_splits)

text \<open>
  An un-archive whose write starts after the owner has changed answers from the new owner's state and is
  mirrored to the server, although nothing was saved.
\<close>

lemma unarchive_answered_after_switch:
  assumes "owner s \<noteq> Some u" and "p \<notin> set (archivedByPeer (shown s))" and "conv \<noteq> []" and "writing s = None"
    and "write_queue s = MutateTask u (SetArchived p conv False) (ArchivedAnswer p conv False) # ts"
  shows "answers (start_write c now s) = answers s @ [Some (AnswerBool True)] \<and>
    side_calls (start_write c now s) = side_calls s @ [MirrorDm conv p False] \<and>
    store (start_write c now s) = store s"
  using assms
  by (simp add: start_write_def task_owner_def task_end_def give_answer_def call_side_def isPeerArchived_def Let_def)

end
