(* ===== verification/Auth_Coordinator.thy ===== *)
theory Auth_Coordinator
  imports Flora_Prelude
begin

text \<open>
  The coordinator of session refreshes (\<open>packages/flora-client-core/src/api/sessionCoordinator.ts\<close>): one
  refresh at a time reads the stored session, sends its refresh capability to the server and commits the
  answer with a compare-and-set, unless it has been superseded by a login or logout. A run is cut at its
  \<open>await\<close>s: a phase says what it waits for, and a reply leads to the next phase or to the outcome. The
  session store, the network, the lock and the parser of the login payload are the environment.
\<close>

section \<open>Sessions and snapshots\<close>

datatype capability = Cookie | Token js_string

record session_record =
  access_token :: "js_string option"
  refresh_cap :: "capability option"
  expires_at :: "js_string option"

record snapshot_record =
  snap_revision :: int
  snap_session :: "session_record option"

datatype store_mode = Atomic | Legacy

record stored_snapshot =
  stored_mode :: store_mode
  stored_snap :: snapshot_record

text \<open>What the store answers to a read: its snapshot, the three values of an old store, or an error.\<close>

datatype store_read =
    AtomicRead snapshot_record
  | LegacyRead "js_string option" "js_string option" "js_string option"
  | ReadThrew

definition MAX_SAFE_INTEGER :: int where "MAX_SAFE_INTEGER = 2 ^ 53 - 1"

definition validateSnapshot :: "snapshot_record \<Rightarrow> snapshot_record option" where
  "validateSnapshot s =
     (if snap_revision s > MAX_SAFE_INTEGER \<or> snap_revision s < 0 then None
      else case snap_session s of
             None \<Rightarrow> Some \<lparr>snap_revision = snap_revision s, snap_session = None\<rparr>
           | Some r \<Rightarrow> if refresh_cap r = Some (Token []) then None else Some s)"

definition readStoredSnapshot :: "store_read \<Rightarrow> stored_snapshot option" where
  "readStoredSnapshot x =
     (case x of
        AtomicRead s \<Rightarrow>
          (case validateSnapshot s of None \<Rightarrow> None | Some s' \<Rightarrow> Some \<lparr>stored_mode = Atomic, stored_snap = s'\<rparr>)
      | LegacyRead a r e \<Rightarrow>
          Some \<lparr>stored_mode = Legacy,
                stored_snap = \<lparr>snap_revision = 0,
                  snap_session =
                    (if a = None \<and> r = None \<and> e = None then None
                     else Some \<lparr>access_token = a,
                                refresh_cap = (case r of None \<Rightarrow> None | Some t \<Rightarrow> if t = [] then None else Some (Token t)),
                                expires_at = e\<rparr>)\<rparr>\<rparr>
      | ReadThrew \<Rightarrow> None)"

fun refreshCapabilitiesEqual :: "capability option \<Rightarrow> capability option \<Rightarrow> bool" where
  "refreshCapabilitiesEqual None y = (y = None)"
| "refreshCapabilitiesEqual x None = (x = None)"
| "refreshCapabilitiesEqual (Some Cookie) (Some y) = (y = Cookie)"
| "refreshCapabilitiesEqual (Some (Token t)) (Some y) = (case y of Cookie \<Rightarrow> False | Token u \<Rightarrow> t = u)"

fun sessionRecordsEqual :: "session_record option \<Rightarrow> session_record option \<Rightarrow> bool" where
  "sessionRecordsEqual None y = (y = None)"
| "sessionRecordsEqual x None = (x = None)"
| "sessionRecordsEqual (Some a) (Some b) =
     (access_token a = access_token b \<and> expires_at a = expires_at b \<and>
      refreshCapabilitiesEqual (refresh_cap a) (refresh_cap b))"

definition snapshotsEqual :: "stored_snapshot \<Rightarrow> stored_snapshot \<Rightarrow> bool" where
  "snapshotsEqual l r =
     (if stored_mode l \<noteq> stored_mode r then False
      else if stored_mode l = Atomic \<and> snap_revision (stored_snap l) \<noteq> snap_revision (stored_snap r) then False
      else sessionRecordsEqual (snap_session (stored_snap l)) (snap_session (stored_snap r)))"

section \<open>State\<close>

datatype change = SetSession session_record | ClearSession

record mutation =
  mut_change :: change
  mut_store :: nat
  mut_epoch :: nat
  mut_base :: stored_snapshot

definition mutationWasApplied :: "mutation \<Rightarrow> stored_snapshot \<Rightarrow> bool" where
  "mutationWasApplied m cur =
     (if stored_mode (mut_base m) \<noteq> stored_mode cur then False
      else if \<not> (stored_mode cur = Legacy \<or>
                 snap_revision (stored_snap cur) \<noteq> snap_revision (stored_snap (mut_base m))) then False
      else case mut_change m of
             ClearSession \<Rightarrow> snap_session (stored_snap cur) = None
           | SetSession next \<Rightarrow> sessionRecordsEqual (snap_session (stored_snap cur)) (Some next))"

datatype refresh_outcome = Ready | Invalid | Transient | ProtocolError | StoragePending | Superseded

text \<open>The options of a call: the store, whether a platform lock is given, and the retry flag of the backend.\<close>

record refresh_options =
  opt_store :: nat
  opt_lock :: bool
  retrySafeRefreshBackend :: bool

datatype refresh_phase =
    ReadBaseline
  | AwaitLock stored_snapshot
  | ReadCurrent stored_snapshot
  | FetchFirst stored_snapshot capability
  | Sleeping stored_snapshot capability
  | ReadAfterLoss stored_snapshot capability
  | FetchSecond stored_snapshot capability
  | ReadingBody stored_snapshot capability
  | ReadBeforeCommit stored_snapshot change
  | Committing mutation
  | Releasing refresh_outcome

record coordinator =
  epoch :: nat
  pending :: "mutation option"
  confirmedInvalidEpoch :: "nat option"
  inFlight :: "(refresh_options \<times> nat \<times> refresh_phase) option"

definition new_coordinator :: coordinator where
  "new_coordinator = \<lparr>epoch = 0, pending = None, confirmedInvalidEpoch = None, inFlight = None\<rparr>"

definition supersede :: "coordinator \<Rightarrow> coordinator" where
  "supersede c = c\<lparr>epoch := epoch c + 1, pending := None, confirmedInvalidEpoch := None\<rparr>"

definition currentPending :: "coordinator \<Rightarrow> nat \<Rightarrow> mutation option" where
  "currentPending c st =
     (case pending c of
        None \<Rightarrow> None
      | Some m \<Rightarrow> if mut_store m \<noteq> st \<or> mut_epoch m \<noteq> epoch c then None else Some m)"

definition hasPendingCommit :: "coordinator \<Rightarrow> nat \<Rightarrow> bool" where
  "hasPendingCommit c st =
     (case pending c of None \<Rightarrow> False | Some m \<Rightarrow> mut_store m = st \<and> mut_epoch m = epoch c)"

definition isCurrent :: "refresh_options \<Rightarrow> nat \<Rightarrow> coordinator \<Rightarrow> bool" where
  "isCurrent opt ep c \<longleftrightarrow>
     epoch c = ep \<and> (case pending c of None \<Rightarrow> True | Some m \<Rightarrow> mut_store m = opt_store opt)"

section \<open>A refresh\<close>

datatype refresh_answer =
    StoreRead store_read
  | LockGranted
  | LockThrew
  | Response int
  | FetchThrew
  | Woke
  | Body "(js_string \<times> js_string \<times> js_string) option"
  | BodyThrew
  | Committed bool
  | CommitThrew
  | Released
  | ReleaseThrew

text \<open>The next phase, or the outcome.\<close>

datatype refresh_next = Phase refresh_phase | Done refresh_outcome

text \<open>The end of the operation that runs under the lock.\<close>

definition leave :: "refresh_options \<Rightarrow> refresh_outcome \<Rightarrow> refresh_next" where
  "leave opt out = (if opt_lock opt then Phase (Releasing out) else Done out)"

text \<open>The \<open>catch\<close> block of a commit.\<close>

definition commit_threw ::
  "refresh_options \<Rightarrow> nat \<Rightarrow> mutation \<Rightarrow> coordinator \<Rightarrow> coordinator \<times> refresh_next" where
  "commit_threw opt ep m c =
     (if \<not> isCurrent opt ep c then (c, leave opt Superseded)
      else (c\<lparr>pending := Some m\<rparr>, leave opt StoragePending))"

definition commitMutation ::
  "refresh_options \<Rightarrow> nat \<Rightarrow> mutation \<Rightarrow> coordinator \<Rightarrow> coordinator \<times> refresh_next" where
  "commitMutation opt ep m c =
     (if \<not> isCurrent opt ep c then (c, leave opt Superseded)
      else case mut_change m of
             ClearSession \<Rightarrow> (c, Phase (Committing m))
           | SetSession next \<Rightarrow>
               (if stored_mode (mut_base m) = Legacy \<and>
                   (case refresh_cap next of Some (Token t) \<Rightarrow> False | _ \<Rightarrow> True)
                then commit_threw opt ep m c
                else (c, Phase (Committing m))))"

definition commit_result ::
  "refresh_options \<Rightarrow> nat \<Rightarrow> mutation \<Rightarrow> bool \<Rightarrow> coordinator \<Rightarrow> coordinator \<times> refresh_next" where
  "commit_result opt ep m committed c =
     (if \<not> isCurrent opt ep c then (c, leave opt Superseded)
      else let c' = c\<lparr>pending := None\<rparr> in
           if \<not> committed
           then ((case mut_change m of ClearSession \<Rightarrow> c'\<lparr>confirmedInvalidEpoch := None\<rparr> | SetSession _ \<Rightarrow> c'),
                 leave opt Superseded)
           else case mut_change m of
                  SetSession _ \<Rightarrow> (c'\<lparr>confirmedInvalidEpoch := None\<rparr>, leave opt Ready)
                | ClearSession \<Rightarrow> (c', leave opt Invalid))"

definition retryPending ::
  "refresh_options \<Rightarrow> nat \<Rightarrow> mutation \<Rightarrow> stored_snapshot \<Rightarrow> coordinator \<Rightarrow> coordinator \<times> refresh_next" where
  "retryPending opt ep m cur c =
     (if \<not> isCurrent opt ep c then (c, leave opt Superseded)
      else if mutationWasApplied m cur
      then (c\<lparr>pending := None\<rparr>, leave opt (case mut_change m of SetSession _ \<Rightarrow> Ready | ClearSession \<Rightarrow> Invalid))
      else if \<not> snapshotsEqual (mut_base m) cur
      then ((case mut_change m of
               ClearSession \<Rightarrow> c\<lparr>pending := None, confirmedInvalidEpoch := None\<rparr>
             | SetSession _ \<Rightarrow> c\<lparr>pending := None\<rparr>), leave opt Superseded)
      else commitMutation opt ep m c)"

text \<open>After the request: only \<open>ready\<close> and \<open>invalid\<close> go on to the commit.\<close>

definition after_request ::
  "refresh_options \<Rightarrow> nat \<Rightarrow> stored_snapshot \<Rightarrow> refresh_outcome + change \<Rightarrow> coordinator \<Rightarrow> coordinator \<times> refresh_next" where
  "after_request opt ep base r c =
     (if \<not> isCurrent opt ep c then (c, leave opt Superseded)
      else case r of
             Inl out \<Rightarrow> (c, leave opt out)
           | Inr ch \<Rightarrow> (c, Phase (ReadBeforeCommit base ch)))"

definition response_ok :: "int \<Rightarrow> bool" where
  "response_ok status \<longleftrightarrow> 200 \<le> status \<and> status \<le> 299"

definition on_response ::
  "refresh_options \<Rightarrow> nat \<Rightarrow> stored_snapshot \<Rightarrow> capability \<Rightarrow> int \<Rightarrow> coordinator \<Rightarrow> coordinator \<times> refresh_next" where
  "on_response opt ep base cap status c =
     (if \<not> isCurrent opt ep c then after_request opt ep base (Inl Superseded) c
      else if status = 401 then after_request opt ep base (Inr ClearSession) c
      else if status = 403 \<and> cap = Cookie then after_request opt ep base (Inr ClearSession) c
      else if \<not> response_ok status
      then after_request opt ep base
             (Inl (if status = 408 \<or> status = 425 \<or> status = 429 \<or> status \<ge> 500 then Transient else ProtocolError)) c
      else (c, Phase (ReadingBody base cap)))"

definition refreshed :: "capability \<Rightarrow> js_string \<times> js_string \<times> js_string \<Rightarrow> session_record" where
  "refreshed cap p =
     (case p of
        (accessToken, refreshToken, expiresAt) \<Rightarrow>
          \<lparr>access_token = Some accessToken,
           refresh_cap = Some (case cap of Cookie \<Rightarrow> Cookie | Token _ \<Rightarrow> Token refreshToken),
           expires_at = Some expiresAt\<rparr>)"

definition on_baseline ::
  "refresh_options \<Rightarrow> nat \<Rightarrow> store_read \<Rightarrow> coordinator \<Rightarrow> coordinator \<times> refresh_next" where
  "on_baseline opt ep x c =
     (case readStoredSnapshot x of
        None \<Rightarrow> (c, Done (if epoch c = ep then StoragePending else Superseded))
      | Some base \<Rightarrow>
          (if \<not> isCurrent opt ep c then (c, Done Superseded)
           else (c, Phase (if opt_lock opt then AwaitLock base else ReadCurrent base))))"

definition on_current ::
  "refresh_options \<Rightarrow> nat \<Rightarrow> stored_snapshot \<Rightarrow> store_read \<Rightarrow> coordinator \<Rightarrow> coordinator \<times> refresh_next" where
  "on_current opt ep base x c =
     (case readStoredSnapshot x of
        None \<Rightarrow> (c, leave opt (if epoch c = ep then StoragePending else Superseded))
      | Some cur \<Rightarrow>
          (if \<not> isCurrent opt ep c then (c, leave opt Superseded)
           else case currentPending c (opt_store opt) of
                  Some m \<Rightarrow> retryPending opt ep m cur c
                | None \<Rightarrow>
                    (if \<not> snapshotsEqual base cur then (c, leave opt Superseded)
                     else case Option.bind (snap_session (stored_snap base)) refresh_cap of
                            None \<Rightarrow> (c, leave opt Superseded)
                          | Some cap \<Rightarrow> (c, Phase (FetchFirst base cap)))))"

definition on_loss_read ::
  "refresh_options \<Rightarrow> nat \<Rightarrow> stored_snapshot \<Rightarrow> capability \<Rightarrow> store_read \<Rightarrow> coordinator \<Rightarrow> coordinator \<times> refresh_next" where
  "on_loss_read opt ep base cap x c =
     (case readStoredSnapshot x of
        None \<Rightarrow> after_request opt ep base (Inl StoragePending) c
      | Some cur \<Rightarrow>
          (if \<not> snapshotsEqual base cur then after_request opt ep base (Inl Superseded) c
           else (c, Phase (FetchSecond base cap))))"

definition on_body ::
  "refresh_options \<Rightarrow> nat \<Rightarrow> stored_snapshot \<Rightarrow> capability \<Rightarrow> (js_string \<times> js_string \<times> js_string) option \<Rightarrow>
   coordinator \<Rightarrow> coordinator \<times> refresh_next" where
  "on_body opt ep base cap p c =
     (case p of
        None \<Rightarrow> after_request opt ep base (Inl ProtocolError) c
      | Some t \<Rightarrow> after_request opt ep base (Inr (SetSession (refreshed cap t))) c)"

definition on_commit_read ::
  "refresh_options \<Rightarrow> nat \<Rightarrow> stored_snapshot \<Rightarrow> change \<Rightarrow> store_read \<Rightarrow> coordinator \<Rightarrow> coordinator \<times> refresh_next" where
  "on_commit_read opt ep base ch x c =
     (case readStoredSnapshot x of
        None \<Rightarrow> (c, leave opt StoragePending)
      | Some cur \<Rightarrow>
          (if \<not> isCurrent opt ep c \<or> \<not> snapshotsEqual base cur then (c, leave opt Superseded)
           else commitMutation opt ep \<lparr>mut_change = ch, mut_store = opt_store opt, mut_epoch = ep, mut_base = base\<rparr>
                  (case ch of ClearSession \<Rightarrow> c\<lparr>confirmedInvalidEpoch := Some ep\<rparr> | SetSession _ \<Rightarrow> c)))"

text \<open>A reply that does not belong to the phase cannot come; it changes nothing.\<close>

definition refresh_reply ::
  "refresh_options \<Rightarrow> nat \<Rightarrow> refresh_phase \<Rightarrow> refresh_answer \<Rightarrow> coordinator \<Rightarrow> coordinator \<times> refresh_next" where
  "refresh_reply opt ep ph r c =
     (let stay = (c, Phase ph);
          unless_current = (if isCurrent opt ep c then Transient else Superseded)
      in case ph of
        ReadBaseline \<Rightarrow> (case r of StoreRead x \<Rightarrow> on_baseline opt ep x c | _ \<Rightarrow> stay)
      | AwaitLock base \<Rightarrow>
          (case r of LockGranted \<Rightarrow> (c, Phase (ReadCurrent base)) | LockThrew \<Rightarrow> (c, Done unless_current) | _ \<Rightarrow> stay)
      | ReadCurrent base \<Rightarrow> (case r of StoreRead x \<Rightarrow> on_current opt ep base x c | _ \<Rightarrow> stay)
      | FetchFirst base cap \<Rightarrow>
          (case r of
             Response status \<Rightarrow> on_response opt ep base cap status c
           | FetchThrew \<Rightarrow>
               (if \<not> retrySafeRefreshBackend opt then after_request opt ep base (Inl Transient) c
                else (c, Phase (Sleeping base cap)))
           | _ \<Rightarrow> stay)
      | Sleeping base cap \<Rightarrow>
          (case r of
             Woke \<Rightarrow>
               (if \<not> isCurrent opt ep c then after_request opt ep base (Inl Superseded) c
                else (c, Phase (ReadAfterLoss base cap)))
           | _ \<Rightarrow> stay)
      | ReadAfterLoss base cap \<Rightarrow> (case r of StoreRead x \<Rightarrow> on_loss_read opt ep base cap x c | _ \<Rightarrow> stay)
      | FetchSecond base cap \<Rightarrow>
          (case r of
             Response status \<Rightarrow> on_response opt ep base cap status c
           | FetchThrew \<Rightarrow> after_request opt ep base (Inl Transient) c
           | _ \<Rightarrow> stay)
      | ReadingBody base cap \<Rightarrow>
          (case r of
             Body p \<Rightarrow> on_body opt ep base cap p c
           | BodyThrew \<Rightarrow> after_request opt ep base (Inl ProtocolError) c
           | _ \<Rightarrow> stay)
      | ReadBeforeCommit base ch \<Rightarrow> (case r of StoreRead x \<Rightarrow> on_commit_read opt ep base ch x c | _ \<Rightarrow> stay)
      | Committing m \<Rightarrow>
          (case r of Committed b \<Rightarrow> commit_result opt ep m b c | CommitThrew \<Rightarrow> commit_threw opt ep m c | _ \<Rightarrow> stay)
      | Releasing out \<Rightarrow>
          (case r of Released \<Rightarrow> (c, Done out) | ReleaseThrew \<Rightarrow> (c, Done unless_current) | _ \<Rightarrow> stay))"

text \<open>A call joins the refresh in flight, or starts one.\<close>

definition refresh :: "refresh_options \<Rightarrow> coordinator \<Rightarrow> coordinator" where
  "refresh opt c = (if inFlight c \<noteq> None then c else c\<lparr>inFlight := Some (opt, epoch c, ReadBaseline)\<rparr>)"

text \<open>A reply to the refresh in flight; the outcome when it ends.\<close>

definition on_reply :: "refresh_answer \<Rightarrow> coordinator \<Rightarrow> coordinator \<times> refresh_outcome option" where
  "on_reply r c =
     (case inFlight c of
        None \<Rightarrow> (c, None)
      | Some (opt, ep, ph) \<Rightarrow>
          (case refresh_reply opt ep ph r c of
             (c', Phase ph') \<Rightarrow> (c'\<lparr>inFlight := Some (opt, ep, ph')\<rparr>, None)
           | (c', Done out) \<Rightarrow> (c'\<lparr>inFlight := None\<rparr>, Some out)))"

section \<open>The effective session\<close>

text \<open>
  \<open>readEffectiveSession\<close> before and after its read of the store: the first part remembers the pending
  mutation; the second gives the session, or \<open>None\<close> when the read error is passed on.
\<close>

definition read_effective_begin :: "nat \<Rightarrow> coordinator \<Rightarrow> mutation option" where
  "read_effective_begin st c = currentPending c st"

definition volatile_session :: "mutation \<Rightarrow> session_record option" where
  "volatile_session m = (case mut_change m of SetSession next \<Rightarrow> Some next | ClearSession \<Rightarrow> None)"

definition read_effective_end ::
  "mutation option \<Rightarrow> store_read \<Rightarrow> coordinator \<Rightarrow> coordinator \<times> session_record option option" where
  "read_effective_end held x c =
     (case held of
        None \<Rightarrow> (c, (case readStoredSnapshot x of None \<Rightarrow> None | Some cur \<Rightarrow> Some (snap_session (stored_snap cur))))
      | Some m \<Rightarrow>
          (case readStoredSnapshot x of
             None \<Rightarrow> (c, Some (volatile_session m))
           | Some cur \<Rightarrow>
               (if mutationWasApplied m cur then (c\<lparr>pending := None\<rparr>, Some (volatile_session m))
                else if \<not> snapshotsEqual (mut_base m) cur
                then ((case mut_change m of
                         ClearSession \<Rightarrow> c\<lparr>pending := None, confirmedInvalidEpoch := None\<rparr>
                       | SetSession _ \<Rightarrow> c\<lparr>pending := None\<rparr>), Some (snap_session (stored_snap cur)))
                else (c, Some (volatile_session m)))))"

text \<open>\<open>isConfirmedInvalidReadyToNotify\<close>, its guard before the read and its answer after it.\<close>

definition confirmed_guard :: "coordinator \<Rightarrow> bool" where
  "confirmed_guard c \<longleftrightarrow> confirmedInvalidEpoch c = Some (epoch c)"

definition confirmed_answer :: "nat \<Rightarrow> session_record option option \<Rightarrow> coordinator \<Rightarrow> bool" where
  "confirmed_answer st r c =
     (if r \<noteq> Some None then False
      else case currentPending c st of None \<Rightarrow> True | Some m \<Rightarrow> mut_change m \<noteq> ClearSession)"

end
