(* ===== verification/Auth_Refresh.thy ===== *)
theory Auth_Refresh
  imports Auth_Coordinator
begin

text \<open>
  Properties of session refreshes: they end, they send the capability at most once (twice when the
  backend allows it), a session is only cleared after the server has refused it, and a superseded refresh
  changes nothing.
\<close>

section \<open>Equality\<close>

lemma refreshCapabilitiesEqual_iff [simp]: "refreshCapabilitiesEqual x y \<longleftrightarrow> x = y"
  by (cases "(x, y)" rule: refreshCapabilitiesEqual.cases) (auto split: capability.split)

lemma sessionRecordsEqual_iff [simp]: "sessionRecordsEqual x y \<longleftrightarrow> x = y"
  by (cases "(x, y)" rule: sessionRecordsEqual.cases) auto

lemma snapshotsEqual_atomic:
  "snapshotsEqual a b \<Longrightarrow> stored_mode a = Atomic \<Longrightarrow> stored_mode b = Atomic \<and> stored_snap a = stored_snap b"
  by (cases "stored_snap a"; cases "stored_snap b") (auto simp: snapshotsEqual_def split: if_splits)

lemma snapshotsEqual_refl [simp]: "snapshotsEqual a a"
  by (simp add: snapshotsEqual_def)

section \<open>Every refresh ends\<close>

fun belongs :: "refresh_phase \<Rightarrow> refresh_answer \<Rightarrow> bool" where
  "belongs ReadBaseline r = (case r of StoreRead _ \<Rightarrow> True | _ \<Rightarrow> False)"
| "belongs (AwaitLock _) r = (r = LockGranted \<or> r = LockThrew)"
| "belongs (ReadCurrent _) r = (case r of StoreRead _ \<Rightarrow> True | _ \<Rightarrow> False)"
| "belongs (FetchFirst _ _) r = (case r of Response _ \<Rightarrow> True | FetchThrew \<Rightarrow> True | _ \<Rightarrow> False)"
| "belongs (Sleeping _ _) r = (r = Woke)"
| "belongs (ReadAfterLoss _ _) r = (case r of StoreRead _ \<Rightarrow> True | _ \<Rightarrow> False)"
| "belongs (FetchSecond _ _) r = (case r of Response _ \<Rightarrow> True | FetchThrew \<Rightarrow> True | _ \<Rightarrow> False)"
| "belongs (ReadingBody _ _) r = (case r of Body _ \<Rightarrow> True | BodyThrew \<Rightarrow> True | _ \<Rightarrow> False)"
| "belongs (ReadBeforeCommit _ _) r = (case r of StoreRead _ \<Rightarrow> True | _ \<Rightarrow> False)"
| "belongs (Committing _) r = (case r of Committed _ \<Rightarrow> True | CommitThrew \<Rightarrow> True | _ \<Rightarrow> False)"
| "belongs (Releasing _) r = (r = Released \<or> r = ReleaseThrew)"

fun phase_rank :: "refresh_phase \<Rightarrow> nat" where
  "phase_rank ReadBaseline = 11"
| "phase_rank (AwaitLock _) = 10"
| "phase_rank (ReadCurrent _) = 9"
| "phase_rank (FetchFirst _ _) = 8"
| "phase_rank (Sleeping _ _) = 7"
| "phase_rank (ReadAfterLoss _ _) = 6"
| "phase_rank (FetchSecond _ _) = 5"
| "phase_rank (ReadingBody _ _) = 4"
| "phase_rank (ReadBeforeCommit _ _) = 3"
| "phase_rank (Committing _) = 2"
| "phase_rank (Releasing _) = 1"

fun sends_capability :: "refresh_phase \<Rightarrow> bool" where
  "sends_capability (FetchFirst _ _) = True"
| "sends_capability (FetchSecond _ _) = True"
| "sends_capability _ = False"

definition sends_left :: "refresh_options \<Rightarrow> refresh_phase \<Rightarrow> nat" where
  "sends_left opt ph =
     (if phase_rank ph \<ge> 8 then (if retrySafeRefreshBackend opt then 2 else 1)
      else if phase_rank ph \<ge> 5 then 1 else 0)"

lemmas step_defs = on_baseline_def on_current_def on_response_def on_loss_read_def on_body_def on_commit_read_def
  after_request_def commitMutation_def commit_threw_def commit_result_def retryPending_def leave_def

lemmas step_splits = option.splits if_splits change.splits capability.splits

lemma reply_down:
  assumes "belongs ph r" and "refresh_reply opt ep ph r c = (c', Phase ph')"
  shows "phase_rank ph' < phase_rank ph \<and>
    sends_left opt ph' + (if sends_capability ph then 1 else 0) \<le> sends_left opt ph"
proof (cases ph)
  case ReadBaseline
  with assms show ?thesis
    by (cases r) (auto simp: refresh_reply_def sends_left_def on_baseline_def split: step_splits)
next
  case (ReadCurrent base)
  with assms show ?thesis
    by (cases r) (auto simp: refresh_reply_def sends_left_def on_current_def retryPending_def commitMutation_def
        commit_threw_def leave_def split: step_splits)
next
  case (FetchFirst base cap)
  with assms show ?thesis
    by (cases r) (auto simp: refresh_reply_def sends_left_def on_response_def after_request_def leave_def split: step_splits)
next
  case (FetchSecond base cap)
  with assms show ?thesis
    by (cases r) (auto simp: refresh_reply_def sends_left_def on_response_def after_request_def leave_def split: step_splits)
next
  case (ReadBeforeCommit base ch)
  with assms show ?thesis
    by (cases r) (auto simp: refresh_reply_def sends_left_def on_commit_read_def commitMutation_def commit_threw_def
        leave_def split: step_splits)
next
  case (Committing m)
  with assms show ?thesis
    by (cases r) (auto simp: refresh_reply_def sends_left_def commit_result_def commit_threw_def Let_def leave_def split: step_splits)
qed (use assms in \<open>cases r; auto simp: refresh_reply_def sends_left_def on_loss_read_def on_body_def after_request_def
       leave_def split: step_splits\<close>)+

text \<open>
  A whole run: before each reply the environment may change the coordinator (other calls run in between).
  The list holds the phases passed.
\<close>

fun refresh_run ::
  "refresh_options \<Rightarrow> nat \<Rightarrow> (nat \<Rightarrow> coordinator \<Rightarrow> refresh_phase \<Rightarrow> coordinator \<times> refresh_answer) \<Rightarrow> nat \<Rightarrow> nat \<Rightarrow>
   coordinator \<times> refresh_next \<Rightarrow> refresh_next \<times> refresh_phase list" where
  "refresh_run opt ep env n (Suc fuel) (c, Phase ph) =
     (case env n c ph of
        (c', r) \<Rightarrow>
          (case refresh_run opt ep env (Suc n) fuel (refresh_reply opt ep ph r c') of (e, phs) \<Rightarrow> (e, ph # phs)))"
| "refresh_run opt ep env n fuel (c, e) = (e, [])"

fun ended :: "refresh_next \<Rightarrow> bool" where
  "ended (Done _) = True"
| "ended (Phase _) = False"

lemma refresh_run_bounds:
  assumes env: "\<And>n c ph. belongs ph (snd (env n c ph))"
  shows "(case e of Phase ph \<Rightarrow> phase_rank ph \<le> fuel | Done _ \<Rightarrow> True) \<Longrightarrow>
    ended (fst (refresh_run opt ep env n fuel (c, e))) \<and>
    length (filter sends_capability (snd (refresh_run opt ep env n fuel (c, e)))) \<le>
      (case e of Phase ph \<Rightarrow> sends_left opt ph | Done _ \<Rightarrow> 0)"
proof (induction fuel arbitrary: n c e)
  case 0
  then show ?case by (cases e) (auto elim: phase_rank.elims)
next
  case (Suc fuel)
  show ?case
  proof (cases e)
    case (Phase ph)
    obtain c' r where r: "env n c ph = (c', r)" by (cases "env n c ph")
    obtain c2 e2 where s: "refresh_reply opt ep ph r c' = (c2, e2)" by (cases "refresh_reply opt ep ph r c'")
    have b: "belongs ph r" using env [where n = n and c = c and ph = ph] r by simp
    have d: "phase_rank ph' < phase_rank ph \<and>
        sends_left opt ph' + (if sends_capability ph then 1 else 0) \<le> sends_left opt ph" if "e2 = Phase ph'" for ph'
      using reply_down [OF b, of opt ep c' c2 ph'] s that by simp
    have s1: "sends_capability ph \<Longrightarrow> sends_left opt ph \<ge> 1"
      by (cases ph) (simp_all add: sends_left_def)
    have "case e2 of Phase ph' \<Rightarrow> phase_rank ph' \<le> fuel | Done _ \<Rightarrow> True"
      using d Suc.prems Phase by (fastforce split: refresh_next.split)
    from Suc.IH [OF this, of "Suc n" c2] d s1 show ?thesis
      by (cases e2) (auto simp: Phase r s case_prod_beta)
  qed simp
qed

text \<open>
  C21. Every refresh ends, and a refresh token is not replayed: whatever the store, the lock, the network
  and other calls do in between, a refresh has an outcome after at most eleven replies, and it sends the
  capability to the server once, or at most twice when the backend is known to tolerate a retry.
\<close>

theorem refresh_ends:
  assumes "\<And>n c ph. belongs ph (snd (env n c ph))"
  shows "let (e, phs) = refresh_run opt ep env 0 11 (c, Phase ReadBaseline)
         in ended e \<and> length (filter sends_capability phs) \<le> (if retrySafeRefreshBackend opt then 2 else 1)"
proof -
  have "case Phase ReadBaseline of Phase ph \<Rightarrow> phase_rank ph \<le> 11 | Done _ \<Rightarrow> True" by simp
  from refresh_run_bounds [where env = env, OF assms this, of opt ep 0 c]
  show ?thesis by (simp add: case_prod_beta sends_left_def del: refresh_run.simps)
qed

fun failing_reply :: "refresh_phase \<Rightarrow> refresh_answer" where
  "failing_reply (AwaitLock _) = LockThrew"
| "failing_reply (FetchFirst _ _) = FetchThrew"
| "failing_reply (Sleeping _ _) = Woke"
| "failing_reply (FetchSecond _ _) = FetchThrew"
| "failing_reply (ReadingBody _ _) = BodyThrew"
| "failing_reply (Committing _) = CommitThrew"
| "failing_reply (Releasing _) = ReleaseThrew"
| "failing_reply _ = StoreRead ReadThrew"

theorem refresh_ends_witness:
  "let (e, phs) = refresh_run \<lparr>opt_store = 0, opt_lock = False, retrySafeRefreshBackend = False\<rparr> 0
        (\<lambda>_ c ph. (c, failing_reply ph)) 0 11 (new_coordinator, Phase ReadBaseline)
   in ended e \<and> length (filter sends_capability phs) \<le> 1"
proof -
  have "belongs ph (snd (c, failing_reply ph))" for c :: coordinator and ph
    by (cases ph) simp_all
  from refresh_ends [of "\<lambda>_ c ph. (c, failing_reply ph)", OF this,
      of "\<lparr>opt_store = 0, opt_lock = False, retrySafeRefreshBackend = False\<rparr>" 0 new_coordinator]
  show ?thesis by (simp del: refresh_run.simps)
qed

section \<open>A superseded refresh\<close>

text \<open>Neither a commit nor success: what a superseded refresh may still lead to.\<close>

fun harmless :: "refresh_next \<Rightarrow> bool" where
  "harmless (Done out) = (out = Superseded \<or> out = StoragePending)"
| "harmless (Phase (Releasing out)) = (out = Superseded \<or> out = StoragePending)"
| "harmless (Phase (Committing _)) = False"
| "harmless (Phase _) = True"

text \<open>
  After a login or logout the old refresh is inert: once the epoch has moved on, no reply makes it
  change the coordinator, start a commit or report success, whatever it was waiting for (the release of
  the lock, which only passes on an earlier outcome, apart).
\<close>

theorem superseded_is_inert:
  assumes "epoch c \<noteq> ep" and "belongs ph r"
  shows "fst (refresh_reply opt ep ph r c) = c \<and>
    (case ph of Releasing _ \<Rightarrow> True | _ \<Rightarrow> harmless (snd (refresh_reply opt ep ph r c)))"
proof -
  have "\<not> isCurrent opt ep c" using assms(1) by (simp add: isCurrent_def)
  with assms show ?thesis
    by (cases ph; cases r) (auto simp: refresh_reply_def step_defs split: step_splits)
qed

theorem superseded_is_inert_witness:
  "fst (refresh_reply \<lparr>opt_store = 0, opt_lock = False, retrySafeRefreshBackend = False\<rparr> 0
      (FetchFirst \<lparr>stored_mode = Atomic, stored_snap = \<lparr>snap_revision = 1, snap_session = None\<rparr>\<rparr> Cookie) (Response 401)
      (supersede new_coordinator)) = supersede new_coordinator"
  using superseded_is_inert [of "supersede new_coordinator" 0
      "FetchFirst \<lparr>stored_mode = Atomic, stored_snap = \<lparr>snap_revision = 1, snap_session = None\<rparr>\<rparr> Cookie" "Response 401"
      "\<lparr>opt_store = 0, opt_lock = False, retrySafeRefreshBackend = False\<rparr>"]
  by (simp add: supersede_def new_coordinator_def)

section \<open>A rotated token is not forgotten\<close>

text \<open>
  C22. When the commit of a refreshed session fails, the new session stays in force: it is what callers
  read as long as the store is unreachable or still holds the old one, and the next refresh only repeats
  the commit, without sending the old token again.
\<close>

theorem rotated_token_kept:
  assumes "isCurrent opt ep c" and "mut_change m = SetSession new" and "mut_store m = opt_store opt"
    and "mut_epoch m = ep" and "readStoredSnapshot x = Some (mut_base m)"
    and "stored_mode (mut_base m) = Atomic"
  shows "let (c', e) = refresh_reply opt ep (Committing m) CommitThrew c in
     snd (read_effective_end (read_effective_begin (opt_store opt) c') ReadThrew c') = Some (Some new) \<and>
     snd (read_effective_end (read_effective_begin (opt_store opt) c') x c') = Some (Some new) \<and>
     refresh_reply opt (epoch c') (ReadCurrent (mut_base m)) (StoreRead x) c' = (c', Phase (Committing m))"
proof -
  have "\<not> mutationWasApplied m (mut_base m)" using assms(6) by (simp add: mutationWasApplied_def)
  with assms show ?thesis
    by (simp add: refresh_reply_def commit_threw_def isCurrent_def read_effective_begin_def currentPending_def
        read_effective_end_def volatile_session_def on_current_def retryPending_def commitMutation_def
        readStoredSnapshot_def [of ReadThrew] split: option.splits)
qed

theorem rotated_token_kept_witness:
  "let base = \<lparr>stored_mode = Atomic, stored_snap = \<lparr>snap_revision = 1, snap_session = None\<rparr>\<rparr>;
       new = \<lparr>access_token = Some [1], refresh_cap = Some (Token [2]), expires_at = Some [3]\<rparr>;
       opt = \<lparr>opt_store = 0, opt_lock = False, retrySafeRefreshBackend = False\<rparr>;
       m = \<lparr>mut_change = SetSession new, mut_store = 0, mut_epoch = 0, mut_base = base\<rparr>;
       c = fst (refresh_reply opt 0 (Committing m) CommitThrew new_coordinator)
   in snd (read_effective_end (read_effective_begin 0 c) ReadThrew c) = Some (Some new)"
proof -
  let ?base = "\<lparr>stored_mode = Atomic, stored_snap = \<lparr>snap_revision = 1, snap_session = None\<rparr>\<rparr>"
  let ?new = "\<lparr>access_token = Some [1], refresh_cap = Some (Token [2]), expires_at = Some [3]\<rparr>"
  let ?opt = "\<lparr>opt_store = 0, opt_lock = False, retrySafeRefreshBackend = False\<rparr>"
  let ?m = "\<lparr>mut_change = SetSession ?new, mut_store = 0, mut_epoch = 0, mut_base = ?base\<rparr>"
  have "isCurrent ?opt 0 new_coordinator" by (simp add: isCurrent_def new_coordinator_def)
  moreover have "readStoredSnapshot (AtomicRead (stored_snap ?base)) = Some ?base"
    by (simp add: readStoredSnapshot_def validateSnapshot_def MAX_SAFE_INTEGER_def)
  ultimately show ?thesis
    using rotated_token_kept [of ?opt 0 new_coordinator ?m ?new "AtomicRead (stored_snap ?base)"]
    by (simp add: case_prod_beta)
qed

text \<open>
  It is forgotten when the store cannot be read just before the commit: the outcome says that the commit
  is pending, but nothing is, and the old session stays in force.
\<close>

lemma rotated_token_dropped:
  assumes "isCurrent opt ep c" and "pending c = None" and "\<not> opt_lock opt"
  shows "refresh_reply opt ep (ReadBeforeCommit base (SetSession new)) (StoreRead ReadThrew) c = (c, Done StoragePending) \<and>
    read_effective_begin (opt_store opt) c = None"
  using assms by (simp add: refresh_reply_def on_commit_read_def readStoredSnapshot_def leave_def read_effective_begin_def
      currentPending_def)

text \<open>A refresh that has been superseded while it waited for the store can still send the token again.\<close>

lemma superseded_sends_again:
  "readStoredSnapshot x = Some base \<Longrightarrow>
   refresh_reply opt ep (ReadAfterLoss base cap) (StoreRead x) c = (c, Phase (FetchSecond base cap))"
  by (simp add: refresh_reply_def on_loss_read_def)

end
