(* ===== verification/Auth_World.thy ===== *)
theory Auth_World
  imports Auth_Refresh
begin

text \<open>
  Refreshes over whole executions: when a session may be cleared, and what a commit replaces in a store with
  the atomic bridge that other tabs, processes, logins and logouts write too. An observer notes the snapshot that
  was read first and the capability that was sent, so that the theorem does not rest on what the coordinator remembers.
\<close>

section \<open>Clearing needs a refusal\<close>

text \<open>Everything that happens to a coordinator. An effective read may have begun at any earlier time.\<close>

datatype coordinator_event =
    CallRefresh refresh_options
  | CallSupersede
  | Reply refresh_answer
  | EffectiveRead "mutation option" store_read

fun coordinator_step :: "coordinator_event \<Rightarrow> coordinator \<Rightarrow> coordinator" where
  "coordinator_step (CallRefresh opt) c = refresh opt c"
| "coordinator_step CallSupersede c = supersede c"
| "coordinator_step (Reply r) c = fst (on_reply r c)"
| "coordinator_step (EffectiveRead held x) c = fst (read_effective_end held x c)"

text \<open>The server refuses the capability with 401; the cookie proxy may also answer 403.\<close>

fun refuses :: "coordinator \<Rightarrow> coordinator_event \<Rightarrow> bool" where
  "refuses c (Reply (Response status)) =
     (case inFlight c of
        Some (opt, ep, FetchFirst base cap) \<Rightarrow> status = 401 \<or> status = 403 \<and> cap = Cookie
      | Some (opt, ep, FetchSecond base cap) \<Rightarrow> status = 401 \<or> status = 403 \<and> cap = Cookie
      | _ \<Rightarrow> False)"
| "refuses c _ = False"

fun saw_refusal :: "coordinator \<Rightarrow> coordinator_event list \<Rightarrow> bool" where
  "saw_refusal c [] = False"
| "saw_refusal c (e # es) = (refuses c e \<or> saw_refusal (coordinator_step e c) es)"

definition coordinator_run :: "coordinator_event list \<Rightarrow> coordinator \<Rightarrow> coordinator" where
  "coordinator_run es c = fold coordinator_step es c"

fun clearing :: "refresh_phase \<Rightarrow> bool" where
  "clearing (ReadBeforeCommit base ch) = (ch = ClearSession)"
| "clearing (Committing m) = (mut_change m = ClearSession)"
| "clearing (Releasing out) = (out = Invalid)"
| "clearing _ = False"

definition pending_clear :: "coordinator \<Rightarrow> bool" where
  "pending_clear c \<longleftrightarrow> (case pending c of None \<Rightarrow> False | Some m \<Rightarrow> mut_change m = ClearSession)"

definition may_clear :: "coordinator \<Rightarrow> bool" where
  "may_clear c \<longleftrightarrow> pending_clear c \<or> (case inFlight c of None \<Rightarrow> False | Some (opt, ep, ph) \<Rightarrow> clearing ph)"

fun clearing_next :: "refresh_next \<Rightarrow> bool" where
  "clearing_next (Phase ph) = clearing ph"
| "clearing_next (Done out) = (out = Invalid)"

lemma clear_reply:
  assumes "refresh_reply opt ep ph r c = (c', e)" and "\<not> clearing ph" and "\<not> pending_clear c"
    and "\<not> (case (ph, r) of
           (FetchFirst base cap, Response status) \<Rightarrow> status = 401 \<or> status = 403 \<and> cap = Cookie
         | (FetchSecond base cap, Response status) \<Rightarrow> status = 401 \<or> status = 403 \<and> cap = Cookie
         | _ \<Rightarrow> False)"
  shows "\<not> clearing_next e \<and> \<not> pending_clear c'"
proof (cases ph)
  case (ReadCurrent base)
  with assms show ?thesis
    by (cases r) (auto simp: refresh_reply_def on_current_def retryPending_def commitMutation_def commit_threw_def
        leave_def currentPending_def pending_clear_def split: step_splits)
next
  case (ReadBeforeCommit base ch)
  with assms show ?thesis
    by (cases r) (auto simp: refresh_reply_def on_commit_read_def commitMutation_def commit_threw_def leave_def
        pending_clear_def split: step_splits)
next
  case (Committing m)
  with assms show ?thesis
    by (cases r) (auto simp: refresh_reply_def commit_result_def commit_threw_def leave_def Let_def pending_clear_def
        split: step_splits)
qed (use assms in \<open>cases r; auto simp: refresh_reply_def on_baseline_def on_response_def on_loss_read_def on_body_def
       after_request_def leave_def split: step_splits\<close>)+

lemma step_clears:
  assumes "\<not> may_clear c" and "\<not> refuses c e"
  shows "\<not> may_clear (coordinator_step e c)"
proof (cases e)
  case (CallRefresh opt)
  with assms(1) show ?thesis by (auto simp: refresh_def may_clear_def pending_clear_def)
next
  case CallSupersede
  with assms(1) show ?thesis by (auto simp: supersede_def may_clear_def pending_clear_def)
next
  case (Reply r)
  show ?thesis
  proof (cases "inFlight c")
    case None
    with assms(1) Reply show ?thesis by (simp add: on_reply_def)
  next
    case (Some y)
    obtain opt ep ph where y: "y = (opt, ep, ph)" by (cases y)
    obtain c' e' where s: "refresh_reply opt ep ph r c = (c', e')" by (cases "refresh_reply opt ep ph r c")
    have "\<not> clearing_next e' \<and> \<not> pending_clear c'"
      using assms Reply Some y by (intro clear_reply [OF s])
        (auto simp: may_clear_def split: refresh_phase.splits refresh_answer.splits)
    then show ?thesis using Reply Some y s
      by (cases e') (auto simp: on_reply_def may_clear_def pending_clear_def)
  qed
next
  case (EffectiveRead held x)
  with assms(1) show ?thesis
    by (auto simp: read_effective_end_def may_clear_def pending_clear_def split: option.splits if_splits change.splits)
qed

lemma run_clears: "\<not> may_clear c \<Longrightarrow> \<not> saw_refusal c es \<Longrightarrow> \<not> may_clear (coordinator_run es c)"
proof (induction es arbitrary: c)
  case (Cons e es)
  then have "\<not> may_clear (coordinator_step e c)" by (intro step_clears) auto
  with Cons show ?case by (simp add: coordinator_run_def)
qed (simp add: coordinator_run_def)

definition about_to_clear :: "coordinator \<Rightarrow> bool" where
  "about_to_clear c \<longleftrightarrow>
     (case inFlight c of Some (opt, ep, Committing m) \<Rightarrow> mut_change m = ClearSession | _ \<Rightarrow> False)"

text \<open>
  C20. Nobody is logged out by accident: in every execution, a stored session is only about to be cleared
  after the server has answered a refresh with 401 (or 403 to a cookie). Network failures, server errors,
  malformed answers and storage failures never lead there.
\<close>

theorem cleared_only_if_refused:
  "if about_to_clear (coordinator_run es new_coordinator) then saw_refusal new_coordinator es else True"
proof -
  have "\<not> may_clear new_coordinator" by (simp add: may_clear_def pending_clear_def new_coordinator_def)
  moreover have "about_to_clear c \<Longrightarrow> may_clear c" for c
    by (auto simp: about_to_clear_def may_clear_def split: option.splits prod.splits refresh_phase.splits)
  ultimately show ?thesis using run_clears by auto
qed

section \<open>A store that others write\<close>

text \<open>
  The snapshots of a store with the atomic bridge, the present one first. A successful write publishes a
  newer revision; a read returns a snapshot, which may be old when it arrives; compare-and-set and
  compare-and-clear succeed when the expected revision is the present one.
\<close>

type_synonym store_history = "snapshot_record list"

definition store_ok :: "store_history \<Rightarrow> bool" where
  "store_ok H \<longleftrightarrow> H \<noteq> [] \<and> sorted_wrt (\<lambda>a b. snap_revision b < snap_revision a) H"

definition change_session :: "change \<Rightarrow> session_record option" where
  "change_session ch = (case ch of SetSession next \<Rightarrow> Some next | ClearSession \<Rightarrow> None)"

definition cas_succeeds :: "store_history \<Rightarrow> mutation \<Rightarrow> bool" where
  "cas_succeeds H m \<longleftrightarrow> snap_revision (hd H) = snap_revision (stored_snap (mut_base m))"

text \<open>How the store and the other environment answer a phase, and the history afterwards.\<close>

inductive answers_phase :: "store_history \<Rightarrow> refresh_phase \<Rightarrow> refresh_answer \<Rightarrow> store_history \<Rightarrow> bool" where
  answer_read: "(\<exists>s\<in>set H. x = AtomicRead s) \<or> x = ReadThrew \<Longrightarrow> answers_phase H ph (StoreRead x) H"
| answer_stored: "cas_succeeds H m \<Longrightarrow> snap_revision (hd H) < v \<Longrightarrow> b = True \<or> b = False \<Longrightarrow>
    answers_phase H (Committing m) (if b then Committed True else CommitThrew)
      (\<lparr>snap_revision = v, snap_session = change_session (mut_change m)\<rparr> # H)"
| answer_refused: "\<not> cas_succeeds H m \<Longrightarrow> answers_phase H (Committing m) (Committed False) H"
| answer_other: "case r of StoreRead x \<Rightarrow> False | Committed b \<Rightarrow> False | _ \<Rightarrow> True \<Longrightarrow> answers_phase H ph r H"

text \<open>
  What an observer of the store and of the network notes: the snapshot that the last refresh read first, and the last
  capability sent to the server with the snapshot read first at that time.
\<close>

record refresh_trace =
  tr_baseline :: "snapshot_record option"
  tr_sent :: "(snapshot_record \<times> capability) option"

fun read_trace :: "refresh_phase \<Rightarrow> refresh_answer \<Rightarrow> refresh_trace \<Rightarrow> refresh_trace" where
  "read_trace ReadBaseline (StoreRead (AtomicRead s)) t = t\<lparr>tr_baseline := Some s\<rparr>"
| "read_trace ph r t = t"

fun sent_capability :: "refresh_phase \<Rightarrow> capability option" where
  "sent_capability (FetchFirst b cap) = Some cap"
| "sent_capability (FetchSecond b cap) = Some cap"
| "sent_capability ph = None"

definition send_trace :: "coordinator \<Rightarrow> refresh_trace \<Rightarrow> refresh_trace" where
  "send_trace c t =
     (case Option.bind (inFlight c) (\<lambda>(opt, ep, ph). sent_capability ph) of
        None \<Rightarrow> t
      | Some cap \<Rightarrow> t\<lparr>tr_sent := map_option (\<lambda>s. (s, cap)) (tr_baseline t)\<rparr>)"

inductive world :: "coordinator \<Rightarrow> store_history \<Rightarrow> refresh_trace \<Rightarrow> bool" where
  world_start: "store_ok H \<Longrightarrow> world new_coordinator H \<lparr>tr_baseline = None, tr_sent = None\<rparr>"
| world_call: "world c H t \<Longrightarrow> opt_store opt = 0 \<Longrightarrow> world (refresh opt c) H t"
| world_supersede: "world c H t \<Longrightarrow> world (supersede c) H t"
| world_write: "world c H t \<Longrightarrow> snap_revision (hd H) < snap_revision s \<Longrightarrow> world c (s # H) t"
| world_reply: "world c H t \<Longrightarrow> inFlight c = Some (opt, ep, ph) \<Longrightarrow> answers_phase H ph r H' \<Longrightarrow>
    world (fst (on_reply r c)) H' (send_trace (fst (on_reply r c)) (read_trace ph r t))"
| world_effective: "world c H t \<Longrightarrow> world (fst (read_effective_end held x c)) H t"

inductive_cases answers_phaseE: "answers_phase H ph r H'"

lemma store_ok_grow: "store_ok H \<Longrightarrow> snap_revision (hd H) < snap_revision s \<Longrightarrow> store_ok (s # H)"
  by (cases H) (auto simp: store_ok_def)

lemma answers_history: "answers_phase H ph r H' \<Longrightarrow> store_ok H \<Longrightarrow> store_ok H' \<and> set H \<subseteq> set H'"
  by (erule answers_phaseE) (auto intro: store_ok_grow)

lemma store_unique:
  "store_ok H \<Longrightarrow> s \<in> set H \<Longrightarrow> snap_revision s = snap_revision (hd H) \<Longrightarrow> s = hd H"
  by (cases H) (auto simp: store_ok_def)

text \<open>Every base is a snapshot the store has had, and the capability sent last is the one of the base.\<close>

definition of_store :: "store_history \<Rightarrow> stored_snapshot \<Rightarrow> bool" where
  "of_store H b \<longleftrightarrow> stored_mode b = Atomic \<and> stored_snap b \<in> set H"

definition own_capability :: "stored_snapshot \<Rightarrow> capability \<Rightarrow> bool" where
  "own_capability b cap \<longleftrightarrow> Option.bind (snap_session (stored_snap b)) refresh_cap = Some cap"

definition sent_from :: "refresh_trace \<Rightarrow> stored_snapshot \<Rightarrow> capability \<Rightarrow> bool" where
  "sent_from t b cap \<longleftrightarrow> tr_sent t = Some (stored_snap b, cap) \<and> own_capability b cap"

definition read_first :: "store_history \<Rightarrow> refresh_trace \<Rightarrow> stored_snapshot \<Rightarrow> bool" where
  "read_first H t b \<longleftrightarrow> of_store H b \<and> tr_baseline t = Some (stored_snap b)"

definition mutation_ok :: "store_history \<Rightarrow> refresh_trace \<Rightarrow> mutation \<Rightarrow> bool" where
  "mutation_ok H t m \<longleftrightarrow> of_store H (mut_base m) \<and> (\<exists>cap. sent_from t (mut_base m) cap) \<and> mut_store m = 0"

text \<open>While a request is under way nothing is pending; \<open>p\<close> is the pending mutation and \<open>ep\<close> the epoch of the refresh.\<close>

fun phase_ok :: "store_history \<Rightarrow> refresh_trace \<Rightarrow> mutation option \<Rightarrow> nat \<Rightarrow> refresh_phase \<Rightarrow> bool" where
  "phase_ok H t p ep ReadBaseline = True"
| "phase_ok H t p ep (AwaitLock b) = read_first H t b"
| "phase_ok H t p ep (ReadCurrent b) = read_first H t b"
| "phase_ok H t p ep (FetchFirst b cap) = (read_first H t b \<and> sent_from t b cap \<and> p = None)"
| "phase_ok H t p ep (Sleeping b cap) = (read_first H t b \<and> sent_from t b cap \<and> p = None)"
| "phase_ok H t p ep (ReadAfterLoss b cap) = (read_first H t b \<and> sent_from t b cap \<and> p = None)"
| "phase_ok H t p ep (FetchSecond b cap) = (read_first H t b \<and> sent_from t b cap \<and> p = None)"
| "phase_ok H t p ep (ReadingBody b cap) = (read_first H t b \<and> sent_from t b cap \<and> p = None)"
| "phase_ok H t p ep (ReadBeforeCommit b ch) = (of_store H b \<and> (\<exists>cap. sent_from t b cap) \<and> p = None)"
| "phase_ok H t p ep (Committing m) = (mutation_ok H t m \<and> mut_epoch m = ep)"
| "phase_ok H t p ep (Releasing out) = True"

text \<open>A first request is not noted yet when the reply that leads to it is handled.\<close>

fun next_ok :: "store_history \<Rightarrow> refresh_trace \<Rightarrow> mutation option \<Rightarrow> nat \<Rightarrow> refresh_next \<Rightarrow> bool" where
  "next_ok H t p ep (Phase (FetchFirst b cap)) = (read_first H t b \<and> own_capability b cap \<and> p = None)"
| "next_ok H t p ep (Phase ph) = phase_ok H t p ep ph"
| "next_ok H t p ep (Done out) = True"

definition pending_ok :: "store_history \<Rightarrow> refresh_trace \<Rightarrow> coordinator \<Rightarrow> bool" where
  "pending_ok H t c \<longleftrightarrow> (case pending c of None \<Rightarrow> True | Some m \<Rightarrow> mutation_ok H t m \<and> mut_epoch m = epoch c)"

definition world_ok :: "coordinator \<Rightarrow> store_history \<Rightarrow> refresh_trace \<Rightarrow> bool" where
  "world_ok c H t \<longleftrightarrow> store_ok H \<and> pending_ok H t c \<and>
     (case inFlight c of None \<Rightarrow> True | Some (opt, ep, ph) \<Rightarrow> opt_store opt = 0 \<and> phase_ok H t (pending c) ep ph)"

lemma of_store_mono: "set H \<subseteq> set H' \<Longrightarrow> of_store H b \<Longrightarrow> of_store H' b"
  by (auto simp: of_store_def)

lemma mutation_ok_mono: "set H \<subseteq> set H' \<Longrightarrow> mutation_ok H t m \<Longrightarrow> mutation_ok H' t m"
  by (auto simp: mutation_ok_def intro: of_store_mono)

lemma phase_ok_mono: "set H \<subseteq> set H' \<Longrightarrow> phase_ok H t p ep ph \<Longrightarrow> phase_ok H' t p ep ph"
  by (cases ph) (auto simp: read_first_def intro: of_store_mono mutation_ok_mono)

lemma next_ok_mono: "set H \<subseteq> set H' \<Longrightarrow> next_ok H t p ep e \<Longrightarrow> next_ok H' t p ep e"
  by (cases "(H, t, p, ep, e)" rule: next_ok.cases) (auto simp: read_first_def intro: of_store_mono mutation_ok_mono)

lemma pending_ok_mono: "set H \<subseteq> set H' \<Longrightarrow> pending_ok H t c \<Longrightarrow> pending_ok H' t c"
  by (auto simp: pending_ok_def intro: mutation_ok_mono split: option.splits)

lemma phase_ok_unpending: "phase_ok H t p ep ph \<Longrightarrow> phase_ok H t None ep ph"
  by (cases ph) auto

lemma pending_ok_none [simp]: "pending c = None \<Longrightarrow> pending_ok H t c"
  by (simp add: pending_ok_def)

lemma leave_ok [simp]: "next_ok H t p ep (leave opt out)"
  by (simp add: leave_def)

lemma read_of_store:
  "(\<exists>s\<in>set H. x = AtomicRead s) \<or> x = ReadThrew \<Longrightarrow> readStoredSnapshot x = Some b \<Longrightarrow>
   of_store H b \<and> x = AtomicRead (stored_snap b)"
proof -
  have "validateSnapshot s = Some s' \<Longrightarrow> s' = s" for s s'
    by (cases s) (auto simp: validateSnapshot_def split: if_splits option.splits)
  moreover assume "(\<exists>s\<in>set H. x = AtomicRead s) \<or> x = ReadThrew" "readStoredSnapshot x = Some b"
  ultimately show "of_store H b \<and> x = AtomicRead (stored_snap b)"
    by (fastforce simp: readStoredSnapshot_def of_store_def split: option.splits)
qed

lemma commit_ok:
  assumes "commitMutation opt ep m c = (c', e)" and "pending_ok H t c" and "mutation_ok H t m" and "mut_epoch m = ep"
  shows "pending_ok H t c' \<and> next_ok H t (pending c') ep e"
  using assms by (auto simp: commitMutation_def commit_threw_def pending_ok_def isCurrent_def split: step_splits)

lemma retry_ok:
  assumes "retryPending opt ep m cur c = (c', e)" and "pending_ok H t c" and "mutation_ok H t m" and "mut_epoch m = ep"
  shows "pending_ok H t c' \<and> next_ok H t (pending c') ep e"
  using assms
  by (auto simp: retryPending_def split: if_splits change.splits dest: commit_ok)

lemma answers_read:
  "answers_phase H ph (StoreRead x) H' \<Longrightarrow> (\<exists>s\<in>set H. x = AtomicRead s) \<or> x = ReadThrew"
  by (erule answers_phaseE) (auto split: if_splits)

lemma request_ok:
  "after_request opt ep base r c = (c', e) \<Longrightarrow> pending_ok H t c \<Longrightarrow> of_store H base \<Longrightarrow> sent_from t base cap \<Longrightarrow>
   pending c = None \<Longrightarrow> pending_ok H t c' \<and> next_ok H t (pending c') ep e"
  by (auto simp: after_request_def split: if_splits sum.splits)

lemma response_ok_next:
  "on_response opt ep base cap status c = (c', e) \<Longrightarrow> pending_ok H t c \<Longrightarrow> read_first H t base \<Longrightarrow> sent_from t base cap \<Longrightarrow>
   pending c = None \<Longrightarrow> pending_ok H t c' \<and> next_ok H t (pending c') ep e"
  by (auto simp: on_response_def read_first_def split: if_splits dest: request_ok)

lemma current_ok:
  assumes "on_current opt ep base x c = (c', e)" and "pending_ok H t c" and "read_first H t base" and "opt_store opt = 0"
  shows "pending_ok H t c' \<and> next_ok H t (pending c') ep e"
proof (cases "readStoredSnapshot x")
  case None
  with assms show ?thesis by (auto simp: on_current_def)
next
  case (Some cur)
  show ?thesis
  proof (cases "isCurrent opt ep c \<and> currentPending c (opt_store opt) \<noteq> None")
    case True
    then obtain m where m: "currentPending c (opt_store opt) = Some m" by auto
    then have "mutation_ok H t m \<and> mut_epoch m = ep"
      using assms(2) True by (auto simp: currentPending_def pending_ok_def isCurrent_def split: option.splits if_splits)
    moreover have "retryPending opt ep m cur c = (c', e)" using True Some m assms(1) by (simp add: on_current_def)
    ultimately show ?thesis using retry_ok assms(2) by blast
  next
    case False
    have "pending c = None" if "isCurrent opt ep c" "currentPending c (opt_store opt) = None"
      using that assms(2,4) by (auto simp: currentPending_def pending_ok_def mutation_ok_def split: option.splits if_splits)
    with False Some assms show ?thesis
      by (auto simp: on_current_def own_capability_def split: option.splits if_splits)
  qed
qed

lemma commit_read_ok:
  assumes "on_commit_read opt ep base ch x c = (c', e)" and "of_store H base" and "sent_from t base cap"
    and "pending c = None" and "opt_store opt = 0"
  shows "pending_ok H t c' \<and> next_ok H t (pending c') ep e"
proof -
  let ?m = "\<lparr>mut_change = ch, mut_store = 0, mut_epoch = ep, mut_base = base\<rparr>"
  let ?c = "case ch of ClearSession \<Rightarrow> c\<lparr>confirmedInvalidEpoch := Some ep\<rparr> | SetSession _ \<Rightarrow> c"
  have m: "mutation_ok H t ?m" "mut_epoch ?m = ep" using assms by (auto simp: mutation_ok_def)
  have p: "pending_ok H t ?c" "pending_ok H t c" using assms(4) by (simp_all add: pending_ok_def split: change.split)
  have "commitMutation opt ep ?m ?c = (c', e) \<or> c' = c \<and> (\<exists>out. e = leave opt out)"
    using assms(1,5) by (auto simp: on_commit_read_def split: option.splits if_splits)
  then show ?thesis
    using commit_ok [OF _ p(1) m] p(2) by auto
qed

lemma baseline_ok:
  assumes "on_baseline opt ep x c = (c', e)" and "pending_ok H t c"
    and "(\<exists>s\<in>set H. x = AtomicRead s) \<or> x = ReadThrew"
  shows "pending_ok H (read_trace ReadBaseline (StoreRead x) t) c' \<and> next_ok H (read_trace ReadBaseline (StoreRead x) t) (pending c') ep e"
proof (cases "readStoredSnapshot x")
  case (Some base)
  note x = read_of_store [OF assms(3) Some]
  have "pending_ok H (t\<lparr>tr_baseline := v\<rparr>) c" for v
    using assms(2) by (simp add: pending_ok_def mutation_ok_def sent_from_def split: option.splits)
  with Some x assms show ?thesis
    by (auto simp: on_baseline_def read_first_def split: if_splits)
next
  case None
  have "pending_ok H (read_trace ReadBaseline (StoreRead x) t) c"
    using assms(2) by (cases x) (simp_all add: pending_ok_def mutation_ok_def sent_from_def split: option.splits)
  then show ?thesis using None assms(1) by (auto simp: on_baseline_def)
qed

lemma reply_ok:
  assumes "refresh_reply opt ep ph r c = (c', e)" and "pending_ok H t c" and "phase_ok H t (pending c) ep ph" and "opt_store opt = 0"
    and "case r of StoreRead x \<Rightarrow> (\<exists>s\<in>set H. x = AtomicRead s) \<or> x = ReadThrew | _ \<Rightarrow> True"
  shows "pending_ok H (read_trace ph r t) c' \<and> next_ok H (read_trace ph r t) (pending c') ep e"
proof (cases ph)
  case ReadBaseline
  note b = ReadBaseline
  show ?thesis
  proof (cases r)
    case (StoreRead x)
    with b assms show ?thesis
      unfolding b StoreRead by (intro baseline_ok [of opt ep x c]) (simp_all add: refresh_reply_def)
  qed (use b assms in \<open>auto simp: refresh_reply_def\<close>)
next
  case (ReadCurrent base)
  with assms show ?thesis by (cases r) (auto simp: refresh_reply_def dest: current_ok)
next
  case (ReadBeforeCommit base ch)
  with assms show ?thesis by (cases r) (auto simp: refresh_reply_def dest: commit_read_ok)
next
  case (Committing m)
  with assms show ?thesis
    by (cases r) (auto simp: refresh_reply_def commit_result_def commit_threw_def pending_ok_def isCurrent_def Let_def
        split: if_splits change.splits)
next
  case (ReadAfterLoss base cap)
  with assms show ?thesis
    by (cases r) (auto simp: refresh_reply_def on_loss_read_def read_first_def dest: request_ok split: option.splits if_splits)
next
  case (Sleeping base cap)
  with assms show ?thesis
    by (cases r) (auto simp: refresh_reply_def read_first_def dest: request_ok split: if_splits)
next
  case (ReadingBody base cap)
  with assms show ?thesis
    by (cases r) (auto simp: refresh_reply_def on_body_def read_first_def dest: request_ok split: option.splits)
next
  case (FetchFirst base cap)
  with assms show ?thesis
    by (cases r) (auto simp: refresh_reply_def read_first_def sent_from_def dest: response_ok_next [unfolded read_first_def] 
        request_ok [unfolded sent_from_def] split: if_splits)
next
  case (FetchSecond base cap)
  with assms show ?thesis
    by (cases r) (auto simp: refresh_reply_def read_first_def dest: response_ok_next [unfolded read_first_def] request_ok)
qed (use assms in \<open>cases r; auto simp: refresh_reply_def\<close>)+

text \<open>Once the request is noted, the next phase is in order.\<close>

lemma noted_ok:
  assumes "next_ok H t (pending c) ep (Phase ph)" and "pending_ok H t c" and "inFlight c = Some (opt, ep, ph)"
  shows "pending_ok H (send_trace c t) c \<and> phase_ok H (send_trace c t) (pending c) ep ph"
  using assms
  by (cases ph) (auto simp: send_trace_def read_first_def sent_from_def)

lemma pending_ok_in_flight [simp]: "pending_ok H t (c\<lparr>inFlight := v\<rparr>) = pending_ok H t c"
  by (simp add: pending_ok_def split: option.split)

lemma world_ok_world: "world c H t \<Longrightarrow> world_ok c H t"
proof (induction rule: world.induct)
  case (world_write c H t s)
  then have "set H \<subseteq> set (s # H)" and "store_ok (s # H)" by (auto simp: world_ok_def intro: store_ok_grow)
  with world_write show ?case
    by (auto simp: world_ok_def intro: pending_ok_mono phase_ok_mono split: option.splits)
next
  case (world_reply c H t opt ep ph r H')
  obtain c' e where s: "refresh_reply opt ep ph r c = (c', e)" by (cases "refresh_reply opt ep ph r c")
  have h: "store_ok H'" "set H \<subseteq> set H'"
    using answers_history [OF world_reply.hyps(3)] world_reply.IH by (auto simp: world_ok_def)
  have "pending_ok H (read_trace ph r t) c' \<and> next_ok H (read_trace ph r t) (pending c') ep e"
    using world_reply by (intro reply_ok [OF s]) (auto simp: world_ok_def dest: answers_read split: refresh_answer.splits)
  then have n: "pending_ok H' (read_trace ph r t) c'" "next_ok H' (read_trace ph r t) (pending c') ep e"
    using h(2) by (auto intro: pending_ok_mono next_ok_mono)
  show ?case
  proof (cases e)
    case (Phase ph')
    let ?c = "c'\<lparr>inFlight := Some (opt, ep, ph')\<rparr>"
    have "pending_ok H' (send_trace ?c (read_trace ph r t)) ?c \<and> phase_ok H' (send_trace ?c (read_trace ph r t)) (pending ?c) ep ph'"
      by (rule noted_ok) (use n Phase in simp_all)
    then show ?thesis
      using h(1) s world_reply.hyps(2) world_reply.IH Phase by (simp add: world_ok_def on_reply_def)
  next
    case (Done out)
    then show ?thesis
      using h(1) s n(1) world_reply.hyps(2) by (simp add: world_ok_def on_reply_def send_trace_def)
  qed
next
  case (world_effective c H t held x)
  then show ?case
    by (auto simp: world_ok_def read_effective_end_def intro: phase_ok_unpending split: option.splits if_splits change.splits)
next
  case (world_supersede c H t)
  then show ?case by (auto simp: world_ok_def supersede_def intro: phase_ok_unpending split: option.splits)
next
  case (world_call c H t opt)
  then show ?case by (auto simp: world_ok_def refresh_def pending_ok_def split: option.splits)
qed (simp_all add: world_ok_def new_coordinator_def)

text \<open>An execution: a cookie session is refused and about to be cleared.\<close>

definition sample_snapshot :: snapshot_record where
  "sample_snapshot = \<lparr>snap_revision = 1,
     snap_session = Some \<lparr>access_token = Some [97], refresh_cap = Some Cookie, expires_at = None\<rparr>\<rparr>"

definition sample_base :: stored_snapshot where
  "sample_base = \<lparr>stored_mode = Atomic, stored_snap = sample_snapshot\<rparr>"

definition sample_options :: refresh_options where
  "sample_options = \<lparr>opt_store = 0, opt_lock = False, retrySafeRefreshBackend = False\<rparr>"

definition sample_at :: "nat option \<Rightarrow> refresh_phase \<Rightarrow> coordinator" where
  "sample_at k ph = \<lparr>epoch = 0, pending = None, confirmedInvalidEpoch = k, inFlight = Some (sample_options, 0, ph)\<rparr>"

definition sample_clear :: mutation where
  "sample_clear = \<lparr>mut_change = ClearSession, mut_store = 0, mut_epoch = 0, mut_base = sample_base\<rparr>"

lemmas sample_defs = sample_at_def sample_options_def sample_base_def sample_snapshot_def sample_clear_def
  new_coordinator_def refresh_def on_reply_def refresh_reply_def step_defs readStoredSnapshot_def validateSnapshot_def
  MAX_SAFE_INTEGER_def isCurrent_def currentPending_def Let_def

definition sample_trace :: refresh_trace where
  "sample_trace = \<lparr>tr_baseline = Some sample_snapshot, tr_sent = Some (sample_snapshot, Cookie)\<rparr>"

lemmas trace_defs = send_trace_def sample_trace_def

lemma sample_reply:
  assumes "world (sample_at k ph) [sample_snapshot] t"
    and "r = StoreRead (AtomicRead sample_snapshot) \<or> r = Response 401"
    and "fst (on_reply r (sample_at k ph)) = c" and "send_trace c (read_trace ph r t) = t'"
  shows "world c [sample_snapshot] t'"
proof -
  have "inFlight (sample_at k ph) = Some (sample_options, 0, ph)" by (simp add: sample_at_def)
  moreover have "answers_phase [sample_snapshot] ph r [sample_snapshot]"
    using assms(2) by (elim disjE) (simp_all add: answer_read answer_other)
  ultimately show ?thesis using world_reply [OF assms(1)] assms(3,4) by auto
qed

lemma sample_world:
  "world (sample_at None (FetchFirst sample_base Cookie)) [sample_snapshot] sample_trace"
  "world (sample_at (Some 0) (Committing sample_clear)) [sample_snapshot] sample_trace"
proof -
  have "world (refresh sample_options new_coordinator) [sample_snapshot] \<lparr>tr_baseline = None, tr_sent = None\<rparr>"
    by (intro world_call world_start) (simp_all add: store_ok_def sample_options_def)
  then have "world (sample_at None ReadBaseline) [sample_snapshot] \<lparr>tr_baseline = None, tr_sent = None\<rparr>"
    by (simp add: refresh_def new_coordinator_def sample_at_def)
  then have "world (sample_at None (ReadCurrent sample_base)) [sample_snapshot]
      \<lparr>tr_baseline = Some sample_snapshot, tr_sent = None\<rparr>"
    by (rule sample_reply [where r = "StoreRead (AtomicRead sample_snapshot)"]) (simp_all add: sample_defs trace_defs)
  then show f: "world (sample_at None (FetchFirst sample_base Cookie)) [sample_snapshot] sample_trace"
    by (rule sample_reply [where r = "StoreRead (AtomicRead sample_snapshot)"])
      (simp_all add: sample_defs trace_defs snapshotsEqual_def)
  then have "world (sample_at None (ReadBeforeCommit sample_base ClearSession)) [sample_snapshot] sample_trace"
    by (rule sample_reply [where r = "Response 401"]) (simp_all add: sample_defs trace_defs)
  then show "world (sample_at (Some 0) (Committing sample_clear)) [sample_snapshot] sample_trace"
    by (rule sample_reply [where r = "StoreRead (AtomicRead sample_snapshot)"])
      (simp_all add: sample_defs trace_defs snapshotsEqual_def)
qed

text \<open>
  C19. No lost update, in a store with the atomic bridge: in every execution with other writers, when a
  commit is under way and its compare-and-set will succeed, the snapshot it replaces is the one whose
  refresh capability the last request carried, the one its refresh had read first. A session that another
  tab, a login or a logout has written since then is never overwritten.
\<close>

theorem commit_replaces_its_base:
  assumes "world c H t" and "inFlight c = Some (opt, ep, Committing m)" and "cas_succeeds H m"
  shows "\<exists>cap. tr_sent t = Some (hd H, cap) \<and> Option.bind (snap_session (hd H)) refresh_cap = Some cap"
proof -
  have ok: "store_ok H" "mutation_ok H t m" using world_ok_world [OF assms(1)] assms(2) by (simp_all add: world_ok_def)
  then have "stored_snap (mut_base m) = hd H"
    using assms(3) by (intro store_unique) (simp_all add: mutation_ok_def of_store_def cas_succeeds_def)
  with ok(2) show ?thesis by (auto simp: mutation_ok_def sent_from_def own_capability_def)
qed

theorem commit_replaces_its_base_witness:
  "\<exists>cap. tr_sent sample_trace = Some (sample_snapshot, cap) \<and>
     Option.bind (snap_session sample_snapshot) refresh_cap = Some cap"
  using commit_replaces_its_base [OF sample_world(2), of sample_options 0 sample_clear]
  by (simp add: sample_at_def cas_succeeds_def sample_clear_def sample_base_def)

text \<open>
  The capability that is sent belongs to the session the refresh started from, a snapshot the store
  has really had: a refresh never mixes the sessions of two logins.
\<close>

theorem sends_own_capability:
  assumes "world c H t" and "inFlight c = Some (opt, ep, ph)" and "ph = FetchFirst base cap \<or> ph = FetchSecond base cap"
  shows "stored_snap base \<in> set H \<and> Option.bind (snap_session (stored_snap base)) refresh_cap = Some cap"
proof -
  have "phase_ok H t (pending c) ep ph" using world_ok_world [OF assms(1)] assms(2) by (simp add: world_ok_def)
  with assms(3) show ?thesis by (auto simp: read_first_def of_store_def sent_from_def own_capability_def)
qed

theorem sends_own_capability_witness:
  "Option.bind (snap_session (stored_snap sample_base)) refresh_cap = Some Cookie"
  using sends_own_capability [OF sample_world(1), of sample_options 0 "FetchFirst sample_base Cookie" sample_base Cookie]
  by (simp only: sample_at_def coordinator.simps simp_thms)

text \<open>
  A store without the atomic bridge has no compare-and-set: a write between the last read and the commit is
  lost there. What the code keeps is that the last read still showed the session the refresh started from.
\<close>

lemma legacy_commit_was_current:
  "on_commit_read opt ep base ch x c = (c', Phase (Committing m)) \<Longrightarrow>
   \<exists>cur. readStoredSnapshot x = Some cur \<and> stored_mode cur = stored_mode base \<and>
     sessionRecordsEqual (snap_session (stored_snap base)) (snap_session (stored_snap cur)) \<and> mut_base m = base"
  by (auto simp: on_commit_read_def commitMutation_def commit_threw_def snapshotsEqual_def leave_def split: step_splits)

end
