(* ===== verification/Auth_Fetch.thy ===== *)
theory Auth_Fetch
  imports Auth_Coordinator
begin

text \<open>
  Authorized requests (\<open>packages/flora-client-core/src/api/client.ts\<close>): the proactive refresh with its
  throttle, the recovery from a 401 and the request itself. What the coordinator, the clock and the network
  answer, call by call, is the environment; the state counts the calls made so far and logs what is visible
  outside.
\<close>

section \<open>Environment and log\<close>

text \<open>
  The n-th answer of each callee. A rejected effective read is caught and reads as no session; a rejected
  request has no status.
\<close>

record client_env =
  env_effective :: "nat \<Rightarrow> session_record option"
  env_confirmed :: "nat \<Rightarrow> bool"
  env_outcome :: "nat \<Rightarrow> refresh_outcome"
  env_status :: "nat \<Rightarrow> int option"
  env_now :: int
  env_pendingCommit :: bool
  env_parseDate :: "js_string \<Rightarrow> int option"
  env_jwtExp :: "js_string \<Rightarrow> int option"

datatype client_effect = Sent js_string | RefreshCalled | Unauthorized | UpgradeRequired

record client_state =
  client_log :: "client_effect list"
  reads_done :: nat
  checks_done :: nat
  refreshes_done :: nat
  sent_done :: nat
  lastProactiveRefreshAttemptAt :: int

definition log_effect :: "client_effect \<Rightarrow> client_state \<Rightarrow> client_state" where
  "log_effect x s = s\<lparr>client_log := client_log s @ [x]\<rparr>"

text \<open>\<open>(await readEffectiveSessionRecord().catch(() => null))?.accessToken\<close>, where \<open>null\<close> and the empty
  token are both falsy.\<close>

definition read_effective :: "client_env \<Rightarrow> client_state \<Rightarrow> session_record option \<times> client_state" where
  "read_effective E s = (env_effective E (reads_done s), s\<lparr>reads_done := reads_done s + 1\<rparr>)"

definition effective_access :: "client_env \<Rightarrow> client_state \<Rightarrow> js_string option \<times> client_state" where
  "effective_access E s =
     (case read_effective E s of (r, t) \<Rightarrow> (Option.bind r access_token, t))"

definition refreshSession :: "client_env \<Rightarrow> client_state \<Rightarrow> refresh_outcome \<times> client_state" where
  "refreshSession E s =
     (env_outcome E (refreshes_done s), log_effect RefreshCalled (s\<lparr>refreshes_done := refreshes_done s + 1\<rparr>))"

definition doFetch :: "client_env \<Rightarrow> js_string \<Rightarrow> client_state \<Rightarrow> int option \<times> client_state" where
  "doFetch E token s = (env_status E (sent_done s), log_effect (Sent token) (s\<lparr>sent_done := sent_done s + 1\<rparr>))"

definition notifyIfSessionRevoked :: "client_env \<Rightarrow> client_state \<Rightarrow> bool \<times> client_state" where
  "notifyIfSessionRevoked E s =
     (let t = s\<lparr>checks_done := checks_done s + 1\<rparr> in
      if env_confirmed E (checks_done s) then (True, log_effect Unauthorized t) else (False, t))"

section \<open>Refreshing\<close>

definition DEFAULT_ACCESS_SKEW_MS :: int where "DEFAULT_ACCESS_SKEW_MS = 120000"
definition MIN_PROACTIVE_REFRESH_MS :: int where "MIN_PROACTIVE_REFRESH_MS = 60000"

definition resolveAccessExpiresAtMs :: "client_env \<Rightarrow> session_record \<Rightarrow> js_string \<Rightarrow> int option" where
  "resolveAccessExpiresAtMs E r accessToken =
     (case (if truthy (expires_at r) then Option.bind (expires_at r) (env_parseDate E) else None) of
        Some ms \<Rightarrow> Some ms
      | None \<Rightarrow> env_jwtExp E accessToken)"

definition should_refresh :: "client_env \<Rightarrow> session_record \<Rightarrow> bool" where
  "should_refresh E r =
     (if \<not> truthy (access_token r) then True
      else case resolveAccessExpiresAtMs E r (the (access_token r)) of
             None \<Rightarrow> True
           | Some ms \<Rightarrow> env_now E \<ge> ms - DEFAULT_ACCESS_SKEW_MS)"

definition ensureFreshAccessToken :: "client_env \<Rightarrow> client_state \<Rightarrow> client_state" where
  "ensureFreshAccessToken E s =
     (if env_pendingCommit E then snd (refreshSession E s)
      else case read_effective E s of
             (r, t) \<Rightarrow>
               (case r of
                  None \<Rightarrow> t
                | Some rc \<Rightarrow>
                    (if refresh_cap rc = None then t
                     else if \<not> should_refresh E rc then t
                     else if env_now E - lastProactiveRefreshAttemptAt t < MIN_PROACTIVE_REFRESH_MS then t
                     else snd (refreshSession E (t\<lparr>lastProactiveRefreshAttemptAt := env_now E\<rparr>)))))"

definition refreshSessionIfPossible ::
  "client_env \<Rightarrow> js_string option option \<Rightarrow> client_state \<Rightarrow> bool \<times> client_state" where
  "refreshSessionIfPossible E previousAccess s =
     (case (case previousAccess of None \<Rightarrow> effective_access E s | Some b \<Rightarrow> (b, s)) of
        (before, s1) \<Rightarrow>
          (case refreshSession E s1 of
             (out, s2) \<Rightarrow>
               (if out = Ready then (True, s2)
                else if out = StoragePending
                then (case effective_access E s2 of (a, s3) \<Rightarrow> (truthy a, s3))
                else if out \<noteq> Superseded then (False, s2)
                else (case effective_access E s2 of (a, s3) \<Rightarrow> (truthy a \<and> a \<noteq> before, s3)))))"

section \<open>Requests\<close>

text \<open>After a 401: the token and the response to go on with; \<open>None\<close> when a request was rejected.\<close>

definition retry_refreshed ::
  "client_env \<Rightarrow> js_string \<Rightarrow> int \<Rightarrow> client_state \<Rightarrow> (js_string \<times> int) option \<times> client_state" where
  "retry_refreshed E token response s =
     (case refreshSession E s of
        (out, s1) \<Rightarrow>
          (if out = Invalid then (Some (token, response), snd (notifyIfSessionRevoked E s1))
           else case effective_access E s1 of
             (latest, s2) \<Rightarrow>
               (if \<not> truthy latest then (Some (token, response), s2)
                else if out = Ready \<or> out = StoragePending \<or> out = Superseded \<or>
                        out = Transient \<and> latest \<noteq> Some token
                then (case doFetch E (the latest) s2 of (r, s3) \<Rightarrow> (map_option (\<lambda>x. (the latest, x)) r, s3))
                else (Some (token, response), s2))))"

definition recoverFromResourceUnauthorized ::
  "client_env \<Rightarrow> js_string \<Rightarrow> int \<Rightarrow> client_state \<Rightarrow> (js_string \<times> int) option \<times> client_state" where
  "recoverFromResourceUnauthorized E usedToken response s =
     (case effective_access E s of
        (latest, s1) \<Rightarrow>
          (if truthy latest \<and> latest \<noteq> Some usedToken
           then (case doFetch E (the latest) s1 of
                   (None, s2) \<Rightarrow> (None, s2)
                 | (Some r, s2) \<Rightarrow>
                     (if r \<noteq> 401 then (Some (the latest, r), s2) else retry_refreshed E (the latest) r s2))
           else retry_refreshed E usedToken response s1))"

datatype fetch_failure = SessionExpired | UpgradeNeeded | UnauthorizedResponse | NetworkThrew

text \<open>The last part of a request: a 426 or a 401 is thrown, anything else is returned.\<close>

definition finish_fetch :: "int \<Rightarrow> client_state \<Rightarrow> (fetch_failure + int) \<times> client_state" where
  "finish_fetch r s =
     (if r = 426 then (Inl UpgradeNeeded, log_effect UpgradeRequired s)
      else if r = 401 then (Inl UnauthorizedResponse, s)
      else (Inr r, s))"

definition authFetch :: "client_env \<Rightarrow> client_state \<Rightarrow> (fetch_failure + int) \<times> client_state" where
  "authFetch E s =
     (case notifyIfSessionRevoked E (ensureFreshAccessToken E s) of
        (True, s1) \<Rightarrow> (Inl SessionExpired, s1)
      | (False, s1) \<Rightarrow>
          (case effective_access E s1 of
             (token, s2) \<Rightarrow>
               (if \<not> truthy token then (Inl SessionExpired, s2)
                else case doFetch E (the token) s2 of
                       (None, s3) \<Rightarrow> (Inl NetworkThrew, s3)
                     | (Some r, s3) \<Rightarrow>
                         (if r = 426 then (Inl UpgradeNeeded, log_effect UpgradeRequired s3)
                          else if r \<noteq> 401 then finish_fetch r s3
                          else case recoverFromResourceUnauthorized E (the token) r s3 of
                                 (None, s4) \<Rightarrow> (Inl NetworkThrew, s4)
                               | (Some (t, r'), s4) \<Rightarrow> finish_fetch r' s4))))"

section \<open>What a request may do\<close>

text \<open>What a part of a request has done: requests sent, refreshes, checks, and whether the handler of a
  revoked session was called.\<close>

definition costs :: "client_env \<Rightarrow> client_state \<Rightarrow> client_state \<Rightarrow> nat \<Rightarrow> nat \<Rightarrow> bool" where
  "costs E s t n k \<longleftrightarrow>
     sent_done t \<le> sent_done s + n \<and> refreshes_done t \<le> refreshes_done s + k \<and>
     checks_done s \<le> checks_done t \<and>
     (\<exists>xs. client_log t = client_log s @ xs \<and>
       (Unauthorized \<in> set xs \<longrightarrow> (\<exists>j. checks_done s \<le> j \<and> j < checks_done t \<and> env_confirmed E j)))"

lemma costs_trans: "costs E s t n k \<Longrightarrow> costs E t u n' k' \<Longrightarrow> costs E s u (n + n') (k + k')"
proof -
  assume a: "costs E s t n k" and b: "costs E t u n' k'"
  from a obtain xs where x: "client_log t = client_log s @ xs"
    "Unauthorized \<in> set xs \<Longrightarrow> \<exists>j. checks_done s \<le> j \<and> j < checks_done t \<and> env_confirmed E j"
    by (auto simp: costs_def)
  from b obtain ys where y: "client_log u = client_log t @ ys"
    "Unauthorized \<in> set ys \<Longrightarrow> \<exists>j. checks_done t \<le> j \<and> j < checks_done u \<and> env_confirmed E j"
    by (auto simp: costs_def)
  have le: "checks_done s \<le> checks_done t" "checks_done t \<le> checks_done u" using a b by (simp_all add: costs_def)
  have "\<exists>j. checks_done s \<le> j \<and> j < checks_done u \<and> env_confirmed E j" if "Unauthorized \<in> set (xs @ ys)"
    using that x(2) y(2) le less_le_trans order_trans by fastforce
  with x(1) y(1) le a b show "costs E s u (n + n') (k + k')"
    by (auto simp: costs_def)
qed

lemma costs_mono: "costs E s t n k \<Longrightarrow> n \<le> n' \<Longrightarrow> k \<le> k' \<Longrightarrow> costs E s t n' k'"
  by (auto simp: costs_def)

lemma costs_refl: "costs E s s 0 0"
  by (simp add: costs_def)

lemma costs_read: "costs E s (snd (effective_access E s)) 0 0" "costs E s (snd (read_effective E s)) 0 0"
  by (simp_all add: costs_def effective_access_def read_effective_def)

lemma costs_refresh: "costs E s (snd (refreshSession E s)) 0 1"
  by (simp add: costs_def refreshSession_def log_effect_def)

lemma costs_fetch: "costs E s (snd (doFetch E token s)) 1 0"
  by (simp add: costs_def doFetch_def log_effect_def)

lemma costs_notify: "costs E s (snd (notifyIfSessionRevoked E s)) 0 0"
  by (auto simp: costs_def notifyIfSessionRevoked_def log_effect_def Let_def)

lemma costs_upgrade: "costs E s (log_effect UpgradeRequired s) 0 0"
  by (simp add: costs_def log_effect_def)

lemma costs_finish: "costs E s (snd (finish_fetch r s)) 0 0"
  by (simp add: costs_def finish_fetch_def log_effect_def)

lemma costs_ensure: "costs E s (ensureFreshAccessToken E s) 0 1"
  by (auto simp: costs_def ensureFreshAccessToken_def read_effective_def refreshSession_def log_effect_def
      split: option.split)

lemma costs_snd: "costs E s (snd p) n k \<Longrightarrow> p = (x, t) \<Longrightarrow> costs E s t n k"
  by simp

lemma costs_retry: "costs E s (snd (retry_refreshed E token r s)) 1 1"
proof -
  obtain out s1 where o1: "refreshSession E s = (out, s1)" by fastforce
  obtain l s2 where l: "effective_access E s1 = (l, s2)" by fastforce
  have c1: "costs E s s1 0 1" by (rule costs_snd [OF costs_refresh o1])
  have c2: "costs E s s2 0 1" using costs_trans [OF c1 costs_snd [OF costs_read(1) l]] by simp
  have n: "costs E s (snd (notifyIfSessionRevoked E s1)) 1 1"
    by (rule costs_mono [OF costs_trans [OF c1 costs_notify]]) simp_all
  have d: "costs E s (snd (doFetch E (the l) s2)) 1 1" using costs_trans [OF c2 costs_fetch] by simp
  have "costs E s s2 1 1" using c2 by (rule costs_mono) simp_all
  with n d o1 l show ?thesis by (simp add: retry_refreshed_def case_prod_beta)
qed

lemma costs_recover: "costs E s (snd (recoverFromResourceUnauthorized E used r s)) 2 1"
proof -
  obtain l s1 where l: "effective_access E s = (l, s1)" by fastforce
  obtain f s2 where f: "doFetch E (the l) s1 = (f, s2)" by fastforce
  have c1: "costs E s s1 0 0" by (rule costs_snd [OF costs_read(1) l])
  have c2: "costs E s s2 1 0" using costs_trans [OF c1 costs_snd [OF costs_fetch f]] by simp
  have "costs E s s2 2 1" using c2 by (rule costs_mono) simp_all
  moreover have "costs E s (snd (retry_refreshed E t x s2)) 2 1" for t x
    using costs_trans [OF c2 costs_retry] by (simp add: numeral_2_eq_2)
  moreover have "costs E s (snd (retry_refreshed E t x s1)) 2 1" for t x
    by (rule costs_mono [OF costs_trans [OF c1 costs_retry]]) simp_all
  ultimately show ?thesis using l f by (auto simp: recoverFromResourceUnauthorized_def split: option.split)
qed

lemma costs_auth: "costs E s (snd (authFetch E s)) 3 2"
proof -
  let ?s0 = "ensureFreshAccessToken E s"
  obtain b s1 where b: "notifyIfSessionRevoked E ?s0 = (b, s1)" by fastforce
  obtain token s2 where t: "effective_access E s1 = (token, s2)" by fastforce
  obtain f s3 where f: "doFetch E (the token) s2 = (f, s3)" by fastforce
  have c1: "costs E s s1 0 1" using costs_trans [OF costs_ensure costs_snd [OF costs_notify b]] by simp
  have c2: "costs E s s2 0 1" using costs_trans [OF c1 costs_snd [OF costs_read(1) t]] by simp
  have c3: "costs E s s3 1 1" using costs_trans [OF c2 costs_snd [OF costs_fetch f]] by simp
  have small: "costs E s s1 3 2" "costs E s s2 3 2" "costs E s s3 3 2"
    using c1 c2 c3 by (auto intro: costs_mono)
  have up: "costs E s (log_effect UpgradeRequired s3) 3 2"
    using costs_trans [OF small(3) costs_upgrade] by simp
  have fin: "costs E s (snd (finish_fetch r s3)) 3 2" for r
    using costs_trans [OF small(3) costs_finish] by simp
  obtain y s4 where r: "recoverFromResourceUnauthorized E (the token) 401 s3 = (y, s4)" by fastforce
  have c4: "costs E s s4 3 2"
    using costs_trans [OF c3 costs_snd [OF costs_recover r]] by (simp add: eval_nat_numeral)
  have fin4: "costs E s (snd (finish_fetch r s4)) 3 2" for r
    using costs_trans [OF c4 costs_finish] by simp
  from b t f r small up fin c4 fin4 show ?thesis
    by (auto simp: authFetch_def split: bool.split option.split prod.split)
qed

text \<open>
  C23. An authorized request is bounded and fair: it sends at most three requests and refreshes at most
  twice, whatever answers come; it never returns a 401 or a 426 as a response; and the handler that logs
  the user out is called only if the coordinator has confirmed, during this request, that the session is
  invalid.
\<close>

theorem auth_fetch_bounded:
  "sent_done (snd (authFetch E s)) \<le> sent_done s + 3 \<and>
   refreshes_done (snd (authFetch E s)) \<le> refreshes_done s + 2 \<and>
   (case fst (authFetch E s) of Inr r \<Rightarrow> r \<noteq> 401 \<and> r \<noteq> 426 | Inl _ \<Rightarrow> True) \<and>
   (\<exists>xs. client_log (snd (authFetch E s)) = client_log s @ xs \<and>
     (if Unauthorized \<in> set xs
      then \<exists>j. checks_done s \<le> j \<and> j < checks_done (snd (authFetch E s)) \<and> env_confirmed E j else True))"
proof -
  have "case fst (authFetch E s) of Inr r \<Rightarrow> r \<noteq> 401 \<and> r \<noteq> 426 | Inl _ \<Rightarrow> True"
    by (auto simp: authFetch_def finish_fetch_def split: prod.split bool.split option.split)
  with costs_auth [of E s] show ?thesis unfolding costs_def by auto
qed

end
