(* ===== verification/Json_Read.thy ===== *)
theory Json_Read
  imports Flora_Prelude
begin

text \<open>
  The tolerant readers of parsed JSON (\<open>packages/flora-client-core/src/contracts/parse.ts\<close>), shared by the
  parsers of signals and presence. The callback that reports a fallback to the second spelling of a key is
  telemetry and left out.
\<close>

section \<open>Readers\<close>

type_synonym json_record = "(js_string \<times> json) list"

fun as_record :: "json \<Rightarrow> json_record option" where
  "as_record (JObj o') = Some o'"
| "as_record _ = None"

fun read_str :: "json_record \<Rightarrow> js_string list \<Rightarrow> js_string" where
  "read_str o' [] = []"
| "read_str o' (k # ks) = (case map_of o' k of Some (JStr v) \<Rightarrow> v | _ \<Rightarrow> read_str o' ks)"

fun read_bool :: "json_record \<Rightarrow> js_string list \<Rightarrow> bool" where
  "read_bool o' [] = False"
| "read_bool o' (k # ks) = (case map_of o' k of Some (JBool v) \<Rightarrow> v | _ \<Rightarrow> read_bool o' ks)"

fun str_item :: "json \<Rightarrow> js_string option" where
  "str_item (JStr s) = Some s"
| "str_item _ = None"

fun read_str_array :: "json_record \<Rightarrow> js_string list \<Rightarrow> js_string list" where
  "read_str_array o' [] = []"
| "read_str_array o' (k # ks) =
     (case map_of o' k of Some (JArr xs) \<Rightarrow> List.map_filter str_item xs | _ \<Rightarrow> read_str_array o' ks)"

definition or_null :: "js_string \<Rightarrow> js_string option" where
  "or_null s = (if s = [] then None else Some s)"

text \<open>\<open>o.key ?? o.Key\<close>: a missing member and \<open>null\<close> fall through.\<close>

definition coalesce :: "json_record \<Rightarrow> js_string \<Rightarrow> js_string \<Rightarrow> json option" where
  "coalesce o' a b =
     (case map_of o' a of
        Some JNull \<Rightarrow> map_of o' b
      | None \<Rightarrow> map_of o' b
      | Some v \<Rightarrow> Some v)"

definition is_true :: "json option \<Rightarrow> bool" where
  "is_true v \<longleftrightarrow> v = Some (JBool True) \<or> v = Some (JStr (js ''true''))"

end
