(* ===== verification/Signals_Stream.thy ===== *)
theory Signals_Stream
  imports Json_Read
begin

text \<open>
  The stream of real-time signals (\<open>packages/flora-client-core/src/signals/stream.ts\<close>): the parsers of
  the signals, the splitting of the event stream into
  blocks, and the connection with its reconnects. \<open>JSON.parse\<close> is a parameter.
\<close>

section \<open>Signals\<close>

datatype message_kind = Dm | GroupChat

record app_update =
  up_version :: js_string
  up_versionCode :: "int option"
  up_apkUrl :: js_string
  up_sha256 :: js_string
  up_sizeBytes :: "int option"

record notification_signal =
  nt_uuid :: js_string
  nt_type :: js_string
  nt_category :: js_string
  nt_text :: js_string
  nt_actor :: "js_string option"
  nt_post :: "js_string option"
  nt_comment :: "js_string option"
  nt_createdAt :: js_string
  nt_update :: "app_update option"

datatype signal =
    ConnectedSignal js_string
  | MessageSignal js_string js_string js_string "message_kind option"
  | NotificationSignal notification_signal
  | NotificationRemoved js_string "js_string option"
  | PresenceSignal js_string bool "js_string option"
  | TypingSignal js_string js_string bool
  | ReadSignal js_string js_string

definition parseMessageSignal :: "json \<Rightarrow> signal option" where
  "parseMessageSignal raw =
     Option.bind (as_record raw) (\<lambda>o'.
       let conv = read_str o' [js ''conversationUuid'', js ''ConversationUuid''];
           sender = read_str o' [js ''senderUserUuid'', js ''SenderUserUuid''];
           sentAt = read_str o' [js ''sentAt'', js ''SentAt'']
       in if conv = [] \<or> sender = [] then None
          else let k = toLowerCase (trim (read_str o' [js ''kind'', js ''Kind'']))
               in Some (MessageSignal conv sender sentAt
                    (if k = js ''groupchat'' \<or> k = js ''group'' then Some GroupChat
                     else if k = js ''dm'' then Some Dm else None)))"

definition is_hex64 :: "js_string \<Rightarrow> bool" where
  "is_hex64 s \<longleftrightarrow> length s = 64 \<and> list_all (\<lambda>c. 48 \<le> c \<and> c \<le> 57 \<or> 97 \<le> c \<and> c \<le> 102) s"

text \<open>
  \<open>Number.parseInt(s, 10)\<close> is a parameter; \<open>None\<close> is \<open>NaN\<close>. A fractional version code or size of a number
  member is outside the model.
\<close>

definition parseAppUpdatePayload :: "(js_string \<Rightarrow> int option) \<Rightarrow> json \<Rightarrow> app_update option" where
  "parseAppUpdatePayload parseInt raw =
     Option.bind (as_record raw) (\<lambda>o'.
       let version = read_str o' [js ''version'', js ''Version''];
           apkUrl = read_str o' [js ''apkUrl'', js ''ApkUrl''];
           sha = toLowerCase (read_str o' [js ''sha256'', js ''Sha256'']);
           code = (case coalesce o' (js ''versionCode'') (js ''VersionCode'') of
                     Some (JInt n) \<Rightarrow> Some n | Some (JStr s) \<Rightarrow> parseInt s | _ \<Rightarrow> None);
           size = (case coalesce o' (js ''sizeBytes'') (js ''SizeBytes'') of
                     Some (JInt n) \<Rightarrow> if n > 0 then Some n else None | Some (JStr s) \<Rightarrow> parseInt s | _ \<Rightarrow> None)
       in if version = [] \<or> apkUrl = [] \<or> (case code of Some n \<Rightarrow> n < 1 | None \<Rightarrow> False) \<or> \<not> is_hex64 sha then None
          else Some
            \<lparr>up_version = version, up_versionCode = code, up_apkUrl = apkUrl, up_sha256 = sha,
             up_sizeBytes = (case size of Some k \<Rightarrow> if k > 0 then Some k else None | None \<Rightarrow> None)\<rparr>)"

definition parseNotificationSignal :: "(js_string \<Rightarrow> int option) \<Rightarrow> json \<Rightarrow> signal option" where
  "parseNotificationSignal parseInt raw =
     Option.bind (as_record raw) (\<lambda>o'.
       let uuid = read_str o' [js ''notificationUuid'', js ''NotificationUuid''];
           type = read_str o' [js ''type'', js ''Type''];
           category = read_str o' [js ''category'', js ''Category''];
           update = coalesce o' (js ''update'') (js ''Update'')
       in if uuid = [] then None
          else Some (NotificationSignal
            \<lparr>nt_uuid = uuid,
             nt_type = (if type = [] then js ''default'' else type),
             nt_category = (if category = [] then js ''social'' else category),
             nt_text = read_str o' [js ''text'', js ''Text''],
             nt_actor = or_null (read_str o' [js ''actorUserUuid'', js ''ActorUserUuid'']),
             nt_post = or_null (read_str o' [js ''postUuid'', js ''PostUuid'']),
             nt_comment = or_null (read_str o' [js ''commentUuid'', js ''CommentUuid'']),
             nt_createdAt = read_str o' [js ''createdAt'', js ''CreatedAt''],
             nt_update = Option.bind update (parseAppUpdatePayload parseInt)\<rparr>))"

definition parseConnectedSignal :: "json \<Rightarrow> signal option" where
  "parseConnectedSignal raw =
     Option.bind (as_record raw) (\<lambda>o'.
       let c = read_str o' [js ''connectionId'', js ''ConnectionId'']
       in if c = [] then None else Some (ConnectedSignal c))"

definition parsePresenceSignal :: "json \<Rightarrow> signal option" where
  "parsePresenceSignal raw =
     Option.bind (as_record raw) (\<lambda>o'.
       let u = read_str o' [js ''userUuid'', js ''UserUuid'']
       in if u = [] then None
          else Some (PresenceSignal u (is_true (coalesce o' (js ''isOnline'') (js ''IsOnline'')))
                 (or_null (read_str o' [js ''lastSeenAt'', js ''LastSeenAt'']))))"

definition parseTypingSignal :: "json \<Rightarrow> signal option" where
  "parseTypingSignal raw =
     Option.bind (as_record raw) (\<lambda>o'.
       let conv = read_str o' [js ''conversationUuid'', js ''ConversationUuid''];
           u = read_str o' [js ''userUuid'', js ''UserUuid'']
       in if conv = [] \<or> u = [] then None
          else Some (TypingSignal conv u (is_true (coalesce o' (js ''isTyping'') (js ''IsTyping'')))))"

definition parseReadSignal :: "json \<Rightarrow> signal option" where
  "parseReadSignal raw =
     Option.bind (as_record raw) (\<lambda>o'.
       let conv = read_str o' [js ''conversationUuid'', js ''ConversationUuid''];
           u = read_str o' [js ''readerUserUuid'', js ''ReaderUserUuid'']
       in if conv = [] \<or> u = [] then None else Some (ReadSignal conv u))"

definition parseNotificationRemovedSignal :: "json \<Rightarrow> signal option" where
  "parseNotificationRemovedSignal raw =
     Option.bind (as_record raw) (\<lambda>o'.
       let n = read_str o' [js ''notificationUuid'', js ''NotificationUuid'']
       in if n = [] then None
          else Some (NotificationRemoved n (or_null (read_str o' [js ''groupKey'', js ''GroupKey'']))))"

text \<open>The parameters: \<open>JSON.parse\<close> (\<open>None\<close> when it throws) and \<open>Number.parseInt\<close>.\<close>

record stream_env =
  json_parse :: "js_string \<Rightarrow> json option"
  parse_int :: "js_string \<Rightarrow> int option"

definition dispatchSseEvent :: "stream_env \<Rightarrow> js_string \<Rightarrow> js_string \<Rightarrow> signal option" where
  "dispatchSseEvent V name data =
     (if trim data = [] then None
      else Option.bind (json_parse V data) (\<lambda>raw.
        if name = js ''connected'' then parseConnectedSignal raw
        else if name = js ''message'' then parseMessageSignal raw
        else if name = js ''notification'' then parseNotificationSignal (parse_int V) raw
        else if name = js ''notification_removed'' then parseNotificationRemovedSignal raw
        else if name = js ''presence'' then parsePresenceSignal raw
        else if name = js ''typing'' then parseTypingSignal raw
        else if name = js ''read'' then parseReadSignal raw
        else None))"

section \<open>Blocks\<close>

text \<open>\<open>buffer.split("\n\n")\<close>: the pieces that are complete, and the last one.\<close>

fun split_blocks :: "js_string \<Rightarrow> js_string list \<times> js_string" where
  "split_blocks [] = ([], [])"
| "split_blocks [c] = ([], [c])"
| "split_blocks (c # d # s) =
     (if c = 10 \<and> d = 10 then (case split_blocks s of (bs, r) \<Rightarrow> ([] # bs, r))
      else case split_blocks (d # s) of
             ([], r) \<Rightarrow> ([], c # r)
           | (b # bs, r) \<Rightarrow> ((c # b) # bs, r))"

fun split_lines :: "js_string \<Rightarrow> js_string list" where
  "split_lines [] = [[]]"
| "split_lines (c # s) =
     (if c = 10 then [] # split_lines s
      else case split_lines s of [] \<Rightarrow> [[c]] | l # ls \<Rightarrow> (c # l) # ls)"

text \<open>One line: the event name and the data lines so far.\<close>

definition sse_line :: "js_string \<Rightarrow> js_string \<times> js_string list \<Rightarrow> js_string \<times> js_string list" where
  "sse_line l acc =
     (case acc of
        (name, ds) \<Rightarrow>
          (if starts_with (js ''event:'') l then (trim (drop 6 l), ds)
           else if starts_with (js ''data:'') l then (name, ds @ [trim (drop 5 l)])
           else (name, ds)))"

fun join_lines :: "js_string list \<Rightarrow> js_string" where
  "join_lines [] = []"
| "join_lines [l] = l"
| "join_lines (l # ls) = l @ 10 # join_lines ls"

definition block_signal :: "stream_env \<Rightarrow> js_string \<Rightarrow> signal option" where
  "block_signal V b =
     (if trim b = [] \<or> starts_with (js '':'') (dropWhile is_space_unit b) then None
      else case fold sse_line (split_lines b) (js ''message'', []) of
             (name, ds) \<Rightarrow> if ds = [] then None else dispatchSseEvent V name (join_lines ds))"

definition parseSseChunk :: "stream_env \<Rightarrow> js_string \<Rightarrow> signal list \<times> js_string" where
  "parseSseChunk V buffer =
     (case split_blocks buffer of (bs, r) \<Rightarrow> (List.map_filter (block_signal V) bs, r))"

section \<open>Any fragmentation gives the same signals\<close>

definition on_chunk :: "stream_env \<Rightarrow> js_string \<Rightarrow> signal list \<times> js_string \<Rightarrow> signal list \<times> js_string" where
  "on_chunk V chunk acc =
     (case acc of
        (out, buffer) \<Rightarrow>
          (case parseSseChunk V (buffer @ chunk) of (xs, rest) \<Rightarrow> (out @ xs, rest)))"

lemma split_blocks_rest: "split_blocks s = (bs, r) \<Longrightarrow> split_blocks r = ([], r)"
proof (induction s arbitrary: bs r rule: split_blocks.induct)
  case (3 c d s)
  show ?case
  proof (cases "c = 10 \<and> d = 10")
    case True
    with 3 show ?thesis by (auto split: prod.splits)
  next
    case False
    obtain bs' r' where r: "split_blocks (d # s) = (bs', r')" by fastforce
    have r': "split_blocks r' = ([], r')" using 3(2) False r by blast
    show ?thesis
    proof (cases bs')
      case Nil
      then have "r' \<noteq> [] \<and> hd r' = d"
        using r by (cases s) (auto split: if_splits prod.splits list.splits)
      then obtain u where "r' = d # u" by (cases r') auto
      with Nil r r' False 3(3) show ?thesis by auto
    next
      case (Cons b bs'')
      with r r' False 3(3) show ?thesis by auto
    qed
  qed
qed auto

lemma split_blocks_append:
  "split_blocks x = (bs, r) \<Longrightarrow> split_blocks (x @ y) = (case split_blocks (r @ y) of (bs', r') \<Rightarrow> (bs @ bs', r'))"
proof (induction x arbitrary: bs r rule: split_blocks.induct)
  case (3 c d s)
  show ?case
  proof (cases "c = 10 \<and> d = 10")
    case True
    with 3 show ?thesis by (auto split: prod.splits)
  next
    case False
    obtain bs' r' where r: "split_blocks (d # s) = (bs', r')" by fastforce
    have ih: "split_blocks (d # s @ y) = (case split_blocks (r' @ y) of (bs2, r2) \<Rightarrow> (bs' @ bs2, r2))"
      using 3(2) [OF False r] by simp
    show ?thesis
    proof (cases bs')
      case Nil
      then have "r' \<noteq> [] \<and> hd r' = d"
        using r by (cases s) (auto split: if_splits prod.splits list.splits)
      then obtain u where u: "r' = d # u" by (cases r') auto
      from Nil r False 3(3) have "bs = []" "r = c # d # u" by (auto simp: u)
      with False ih Nil u show ?thesis by (auto split: prod.splits list.splits)
    next
      case (Cons b bs'')
      with r False 3(3) ih show ?thesis by (auto split: prod.splits)
    qed
  qed
qed (auto split: prod.splits)

lemma map_filter_append: "List.map_filter f (xs @ ys) = List.map_filter f xs @ List.map_filter f ys"
  by (simp add: List.map_filter_def)

lemma fold_chunks:
  "split_blocks buffer = ([], buffer) \<Longrightarrow>
   fold (on_chunk V) chunks (out, buffer) =
     (case parseSseChunk V (buffer @ concat chunks) of (xs, rest) \<Rightarrow> (out @ xs, rest))"
proof (induction chunks arbitrary: out buffer)
  case Nil
  then show ?case by (simp add: parseSseChunk_def List.map_filter_def)
next
  case (Cons c cs)
  obtain bs r where s: "split_blocks (buffer @ c) = (bs, r)" by fastforce
  have step: "on_chunk V c (out, buffer) = (out @ List.map_filter (block_signal V) bs, r)"
    by (simp add: on_chunk_def parseSseChunk_def s)
  show ?case
    using Cons.IH [OF split_blocks_rest [OF s], of "out @ List.map_filter (block_signal V) bs"]
      split_blocks_append [OF s, of "concat cs"]
    by (simp add: step parseSseChunk_def map_filter_append split: prod.splits)
qed

text \<open>
  C24. The network may cut the stream anywhere: feeding the chunks one by one gives the same signals in the
  same order, and leaves the same unfinished rest, as parsing the whole text at once.
\<close>

theorem chunks_do_not_matter:
  "fold (on_chunk V) chunks ([], []) = parseSseChunk V (concat chunks)"
  using fold_chunks [of "[]" V chunks "[]"] by (simp split: prod.split)

end
