(* ===== verification/Signals_Connection.thy ===== *)
theory Signals_Connection
  imports Signals_Stream
begin

text \<open>
  The connection of the signal stream (\<open>connectSignalsStream\<close> in
  \<open>packages/flora-client-core/src/signals/stream.ts\<close>) with its reconnects, as a machine over the events of the
  host: a response, a read, a timer that fires, a call of \<open>close()\<close>. The text of a chunk is the text that
  the streaming \<open>TextDecoder\<close> returned for it.
\<close>

section \<open>State\<close>

text \<open>What the outside sees, in order: the requests, the callbacks and the delays of the timers.\<close>

datatype sc_out = Fetch | OnOpen | OnClose | OnError | Deliver signal | Arm nat

text \<open>
  One call of the inner \<open>run\<close> that has not returned. \<open>rn_aborted\<close> is \<open>signal.aborted\<close> of its own controller;
  \<open>rn_buffer\<close> is \<open>None\<close> while the request is out and the local \<open>buffer\<close> from the first read on.
\<close>

record run =
  rn_aborted :: bool
  rn_buffer :: "js_string option"

text \<open>
  The variables of the closure, then what the host keeps: the timeouts that are armed (\<open>sc_timers\<close>) and the
  runs in flight (\<open>sc_runs\<close>), under identities handed out by \<open>sc_next\<close>. \<open>sc_abort\<close> and \<open>sc_reader\<close> name
  the run that \<open>abortController\<close> and \<open>activeReader\<close> belong to.
\<close>

record conn =
  sc_closed :: bool
  sc_connected :: bool
  sc_attempt :: nat
  sc_abort :: "nat option"
  sc_reader :: "nat option"
  sc_timer :: "nat option"
  sc_timers :: "nat list"
  sc_runs :: "(nat \<times> run) list"
  sc_next :: nat
  sc_log :: "sc_out list"

definition conn_init :: conn where
  "conn_init =
     \<lparr>sc_closed = False, sc_connected = False, sc_attempt = 0, sc_abort = None, sc_reader = None,
      sc_timer = None, sc_timers = [], sc_runs = [], sc_next = 0, sc_log = []\<rparr>"

text \<open>
  The caller's callbacks may throw: a handler of a signal by the signal, \<open>onOpen\<close> and \<open>onError\<close> by what has
  happened so far. What \<open>onClose\<close> throws is ignored by the code. No callback calls \<open>close()\<close> itself.
\<close>

record conn_env = stream_env +
  handler_throws :: "signal \<Rightarrow> bool"
  open_throws :: "sc_out list \<Rightarrow> bool"
  error_throws :: "sc_out list \<Rightarrow> bool"

datatype fetched = FetchThrew bool | Response bool bool

datatype read_result = ReadThrew bool | ReadDone | Chunk js_string

text \<open>
  \<open>FetchThrew\<close> and \<open>ReadThrew\<close> carry whether the error is an \<open>AbortError\<close>, \<open>Response\<close> whether it is \<open>ok\<close>
  and whether it has a body. The last argument of the first three events is what \<open>enabled()\<close> answers then.
\<close>

datatype sc_event =
    Fetched nat fetched bool
  | Read nat read_result bool
  | Fired nat bool
  | Close

section \<open>Operations\<close>

definition reconnect_delay :: "nat \<Rightarrow> nat" where
  "reconnect_delay k = min 30000 (1000 * 2 ^ k)"

definition scheduleReconnect :: "bool \<Rightarrow> conn \<Rightarrow> conn" where
  "scheduleReconnect en s =
     (if sc_closed s then s
      else if \<not> en then s
      else s\<lparr>sc_attempt := sc_attempt s + 1,
             sc_timer := Some (sc_next s),
             sc_timers := sc_timers s @ [sc_next s],
             sc_next := sc_next s + 1,
             sc_log := sc_log s @ [Arm (reconnect_delay (sc_attempt s))]\<rparr>)"

definition set_run :: "nat \<Rightarrow> (run \<Rightarrow> run) \<Rightarrow> (nat \<times> run) list \<Rightarrow> (nat \<times> run) list" where
  "set_run i f rs = map (\<lambda>(j, r). if j = i then (j, f r) else (j, r)) rs"

definition abort_run :: "nat option \<Rightarrow> (nat \<times> run) list \<Rightarrow> (nat \<times> run) list" where
  "abort_run c rs = (case c of None \<Rightarrow> rs | Some i \<Rightarrow> set_run i (rn_aborted_update (\<lambda>_. True)) rs)"

text \<open>\<open>run\<close> up to its first \<open>await\<close>.\<close>

definition run_begin :: "bool \<Rightarrow> conn \<Rightarrow> conn" where
  "run_begin en s =
     (if sc_closed s then s
      else if \<not> en then s
      else s\<lparr>sc_reader := None,
             sc_abort := Some (sc_next s),
             sc_runs := abort_run (sc_abort s) (sc_runs s) @ [(sc_next s, \<lparr>rn_aborted = False, rn_buffer = None\<rparr>)],
             sc_next := sc_next s + 1,
             sc_log := sc_log s @ [Fetch]\<rparr>)"

text \<open>The \<open>finally\<close> block and the end of the run.\<close>

definition run_finally :: "nat \<Rightarrow> bool \<Rightarrow> conn \<Rightarrow> conn" where
  "run_finally i en s =
     scheduleReconnect en
       (s\<lparr>sc_reader := None,
          sc_connected := False,
          sc_runs := filter (\<lambda>(j, r). j \<noteq> i) (sc_runs s),
          sc_log := sc_log s @ (if sc_connected s then [OnClose] else [])\<rparr>)"

definition run_catch :: "nat \<Rightarrow> run \<Rightarrow> bool \<Rightarrow> bool \<Rightarrow> conn \<Rightarrow> conn" where
  "run_catch i r isAbort en s =
     run_finally i en
       (if \<not> sc_closed s \<and> \<not> rn_aborted r \<and> \<not> isAbort then s\<lparr>sc_log := sc_log s @ [OnError]\<rparr> else s)"

definition start_reading :: "nat \<Rightarrow> conn \<Rightarrow> conn" where
  "start_reading i s =
     s\<lparr>sc_reader := Some i, sc_runs := set_run i (rn_buffer_update (\<lambda>_. Some [])) (sc_runs s)\<rparr>"

definition on_fetched :: "conn_env \<Rightarrow> nat \<Rightarrow> run \<Rightarrow> fetched \<Rightarrow> bool \<Rightarrow> conn \<Rightarrow> conn" where
  "on_fetched E i r f en s =
     (case f of
        FetchThrew isAbort \<Rightarrow> run_catch i r isAbort en s
      | Response ok body \<Rightarrow>
          if sc_closed s \<or> rn_aborted r then run_finally i en s
          else if \<not> ok \<or> \<not> body then run_catch i r False en s
          else let opened = s\<lparr>sc_connected := True, sc_attempt := 0, sc_log := sc_log s @ [OnOpen]\<rparr>
               in if \<not> open_throws E (sc_log opened) then start_reading i opened
                  else let told = opened\<lparr>sc_log := sc_log opened @ [OnError]\<rparr>
                       in if error_throws E (sc_log told) then run_catch i r False en told
                          else start_reading i told)"

text \<open>The handlers in order, up to the first that throws.\<close>

fun deliver :: "(signal \<Rightarrow> bool) \<Rightarrow> signal list \<Rightarrow> signal list \<times> bool" where
  "deliver bad [] = ([], False)"
| "deliver bad (x # xs) =
     (if bad x then ([x], True) else case deliver bad xs of (ys, threw) \<Rightarrow> (x # ys, threw))"

definition on_read :: "conn_env \<Rightarrow> nat \<Rightarrow> run \<Rightarrow> js_string \<Rightarrow> read_result \<Rightarrow> bool \<Rightarrow> conn \<Rightarrow> conn" where
  "on_read E i r buffer v en s =
     (case v of
        ReadThrew isAbort \<Rightarrow> run_catch i r isAbort en s
      | ReadDone \<Rightarrow> run_finally i en s
      | Chunk c \<Rightarrow>
          (case parseSseChunk (stream_env.truncate E) (buffer @ c) of
             (xs, rest) \<Rightarrow>
               (case deliver (handler_throws E) xs of
                  (ys, threw) \<Rightarrow>
                    let told = s\<lparr>sc_log := sc_log s @ map Deliver ys\<rparr>
                    in if threw then run_catch i r False en told
                       else if sc_closed s \<or> rn_aborted r then run_finally i en told
                       else told\<lparr>sc_runs := set_run i (rn_buffer_update (\<lambda>_. Some rest)) (sc_runs s)\<rparr>)))"

definition on_fired :: "nat \<Rightarrow> bool \<Rightarrow> conn \<Rightarrow> conn" where
  "on_fired t en s =
     (if t \<in> set (sc_timers s)
      then run_begin en (s\<lparr>sc_timer := None, sc_timers := removeAll t (sc_timers s)\<rparr>)
      else s)"

definition close_conn :: "conn \<Rightarrow> conn" where
  "close_conn s =
     s\<lparr>sc_closed := True,
       sc_connected := False,
       sc_timers := (case sc_timer s of None \<Rightarrow> sc_timers s | Some t \<Rightarrow> removeAll t (sc_timers s)),
       sc_timer := None,
       sc_reader := None,
       sc_runs := abort_run (sc_abort s) (sc_runs s)\<rparr>"

text \<open>An event of a run that is not in flight, or not waiting for it, does not happen.\<close>

definition sc_step :: "conn_env \<Rightarrow> sc_event \<Rightarrow> conn \<Rightarrow> conn" where
  "sc_step E ev s =
     (case ev of
        Fetched i f en \<Rightarrow>
          (case map_of (sc_runs s) i of
             Some r \<Rightarrow> (case rn_buffer r of None \<Rightarrow> on_fetched E i r f en s | Some b \<Rightarrow> s)
           | None \<Rightarrow> s)
      | Read i v en \<Rightarrow>
          (case map_of (sc_runs s) i of
             Some r \<Rightarrow> (case rn_buffer r of Some b \<Rightarrow> on_read E i r b v en s | None \<Rightarrow> s)
           | None \<Rightarrow> s)
      | Fired t en \<Rightarrow> on_fired t en s
      | Close \<Rightarrow> close_conn s)"

text \<open>\<open>connectSignalsStream\<close> kicks the first run, then the events come.\<close>

definition connect :: "conn_env \<Rightarrow> bool \<Rightarrow> sc_event list \<Rightarrow> conn" where
  "connect E en evs = fold (sc_step E) evs (run_begin en conn_init)"

section \<open>The invariant\<close>

definition idle :: "conn \<Rightarrow> bool" where
  "idle s \<longleftrightarrow> sc_runs s = [] \<and> sc_timers s = [] \<and> sc_timer s = None \<and> \<not> sc_connected s"

definition reconnect_due :: "conn \<Rightarrow> bool" where
  "reconnect_due s \<longleftrightarrow> (\<exists>t. sc_runs s = [] \<and> sc_timers s = [t] \<and> sc_timer s = Some t \<and> \<not> sc_connected s \<and> \<not> sc_closed s)"

definition running :: "conn \<Rightarrow> bool" where
  "running s \<longleftrightarrow>
     (\<exists>i r. sc_runs s = [(i, r)] \<and> sc_abort s = Some i \<and> sc_timers s = [] \<and> sc_timer s = None \<and>
            rn_aborted r = sc_closed s \<and> (sc_connected s \<longleftrightarrow> rn_buffer r \<noteq> None \<and> \<not> sc_closed s))"

lemmas phase_defs = idle_def reconnect_due_def running_def

lemma set_run_single [simp]: "set_run i f [(i, r)] = [(i, f r)]"
  by (simp add: set_run_def)

lemma abort_run_single [simp]: "abort_run (Some i) [(i, r)] = [(i, r\<lparr>rn_aborted := True\<rparr>)]"
  by (simp add: abort_run_def)

lemma abort_run_Nil [simp]: "abort_run c [] = []"
  by (simp add: abort_run_def set_run_def split: option.split)

lemma run_begin_phase: "idle s \<Longrightarrow> running (run_begin en s) \<or> idle (run_begin en s) \<and> (sc_closed s \<or> \<not> en)"
  by (auto simp: run_begin_def phase_defs)

text \<open>A run that ends leaves a timer, or nothing when the stream is closed or disabled.\<close>

definition over :: "bool \<Rightarrow> conn \<Rightarrow> conn \<Rightarrow> bool" where
  "over en s s' \<longleftrightarrow> sc_closed s' = sc_closed s \<and> (reconnect_due s' \<or> idle s' \<and> (sc_closed s \<or> \<not> en))"

definition lone :: "nat \<Rightarrow> conn \<Rightarrow> bool" where
  "lone i s \<longleftrightarrow> sc_timers s = [] \<and> sc_timer s = None \<and> (\<exists>r. sc_runs s = [(i, r)])"

lemma run_finally_over: "lone i s \<Longrightarrow> over en s (run_finally i en s)"
  by (auto simp: lone_def over_def run_finally_def scheduleReconnect_def phase_defs)

lemma run_catch_over: "lone i s \<Longrightarrow> over en s (run_catch i r ab en s)"
  using run_finally_over [of i "s\<lparr>sc_log := sc_log s @ [OnError]\<rparr>" en] run_finally_over [of i s en]
  by (auto simp: run_catch_def lone_def over_def)

text \<open>A callback or a signal only adds to the log, and opening sets the two variables of the closure.\<close>

lemma lone_update [simp]:
  "lone i (s\<lparr>sc_log := l\<rparr>) = lone i s" "lone i (s\<lparr>sc_connected := b\<rparr>) = lone i s"
  "lone i (s\<lparr>sc_attempt := k\<rparr>) = lone i s"
  by (simp_all add: lone_def)

lemma over_update [simp]:
  "over en (s\<lparr>sc_log := l\<rparr>) s' = over en s s'" "over en (s\<lparr>sc_connected := b\<rparr>) s' = over en s s'"
  "over en (s\<lparr>sc_attempt := k\<rparr>) s' = over en s s'"
  by (simp_all add: over_def)

lemma running_lone: "running s \<Longrightarrow> map_of (sc_runs s) i = Some r \<Longrightarrow> lone i s \<and> sc_runs s = [(i, r)]"
  by (auto simp: running_def lone_def split: if_splits)

lemma on_fetched_phase:
  assumes "running s" "map_of (sc_runs s) i = Some r"
  shows "over en s (on_fetched E i r f en s) \<or> running (on_fetched E i r f en s)"
proof -
  have l: "lone i s" "sc_runs s = [(i, r)]" using running_lone [OF assms] by auto
  note ends = run_catch_over [of i _ en r] run_finally_over [of i _ en]
  show ?thesis
  proof (cases f)
    case (FetchThrew ab)
    with l show ?thesis by (simp add: on_fetched_def ends)
  next
    case (Response ok body)
    let ?opened = "s\<lparr>sc_connected := True, sc_attempt := 0, sc_log := sc_log s @ [OnOpen]\<rparr>"
    have "over en s (run_catch i r False en (?opened\<lparr>sc_log := l'\<rparr>))" for l'
      using ends(1) [of "?opened\<lparr>sc_log := l'\<rparr>" False] l(1) by simp
    moreover have "\<not> sc_closed s \<Longrightarrow> running (start_reading i (?opened\<lparr>sc_log := l'\<rparr>))" for l'
      using assms(1) l(2) by (auto simp: running_def start_reading_def)
    ultimately show ?thesis
      using l ends [of s] Response by (auto simp: on_fetched_def Let_def)
  qed
qed

lemma on_read_phase:
  assumes "running s" "map_of (sc_runs s) i = Some r" "rn_buffer r = Some b"
  shows "over en s (on_read E i r b v en s) \<or> running (on_read E i r b v en s)"
proof -
  have l: "lone i s" "sc_runs s = [(i, r)]" using running_lone [OF assms(1,2)] by auto
  note ends = run_catch_over [of i _ en r] run_finally_over [of i _ en]
  show ?thesis
  proof (cases v)
    case (Chunk c)
    have "over en s (run_catch i r False en (s\<lparr>sc_log := l'\<rparr>))"
         "over en s (run_finally i en (s\<lparr>sc_log := l'\<rparr>))" for l'
      using ends [of "s\<lparr>sc_log := l'\<rparr>"] l(1) by simp_all
    moreover have "running (s\<lparr>sc_log := l', sc_runs := [(i, r\<lparr>rn_buffer := Some b'\<rparr>)]\<rparr>)" for l' b'
      using assms l(2) by (auto simp: running_def)
    ultimately show ?thesis
      using l Chunk by (auto simp: on_read_def Let_def split: prod.splits)
  qed (use l ends [of s] in \<open>simp_all add: on_read_def\<close>)
qed

definition enabled_at :: "sc_event \<Rightarrow> bool" where
  "enabled_at ev = (case ev of Fetched i f en \<Rightarrow> en | Read i v en \<Rightarrow> en | Fired t en \<Rightarrow> en | Close \<Rightarrow> False)"

definition phased :: "conn \<Rightarrow> bool" where
  "phased s \<longleftrightarrow> idle s \<or> reconnect_due s \<or> running s"

definition alive :: "conn \<Rightarrow> bool" where
  "alive s \<longleftrightarrow> \<not> sc_closed s \<and> (reconnect_due s \<or> running s)"

lemma over_phased: "over en s s' \<Longrightarrow> phased s'"
  by (auto simp: over_def phased_def)

lemma over_alive: "over True s s' \<Longrightarrow> \<not> sc_closed s \<Longrightarrow> alive s'"
  by (auto simp: over_def alive_def)

lemma close_phased: "phased s \<Longrightarrow> phased (close_conn s)"
  by (auto simp: phased_def phase_defs close_conn_def)

lemma on_fired_phase:
  "phased s \<Longrightarrow> on_fired t en s = s \<or> (reconnect_due s \<and> (running (on_fired t en s) \<or> idle (on_fired t en s) \<and> \<not> en))"
  by (auto simp: phased_def phase_defs on_fired_def run_begin_def)

lemma fetched_step_phase:
  "phased s \<Longrightarrow> sc_step E (Fetched i f en) s = s \<or> running s \<and> (over en s (sc_step E (Fetched i f en) s) \<or> running (sc_step E (Fetched i f en) s))"
proof (cases "map_of (sc_runs s) i")
  case (Some r)
  assume "phased s"
  with Some have "running s" by (auto simp: phased_def phase_defs)
  with Some show ?thesis
    using on_fetched_phase [OF _ Some] by (auto simp: sc_step_def split: option.split)
qed (simp add: sc_step_def)

lemma read_step_phase:
  "phased s \<Longrightarrow> sc_step E (Read i v en) s = s \<or> running s \<and> (over en s (sc_step E (Read i v en) s) \<or> running (sc_step E (Read i v en) s))"
proof (cases "map_of (sc_runs s) i")
  case (Some r)
  assume "phased s"
  with Some have "running s" by (auto simp: phased_def phase_defs)
  with Some show ?thesis
    using on_read_phase [OF _ Some] by (auto simp: sc_step_def split: option.split)
qed (simp add: sc_step_def)

lemma step_phased: "phased s \<Longrightarrow> phased (sc_step E ev s)"
proof (cases ev)
  case (Fetched i f en)
  assume "phased s"
  then show ?thesis
    using fetched_step_phase [of s E i f en] over_phased [of en s] Fetched by (auto simp: phased_def)
next
  case (Read i v en)
  assume "phased s"
  then show ?thesis
    using read_step_phase [of s E i v en] over_phased [of en s] Read by (auto simp: phased_def)
next
  case (Fired t en)
  assume "phased s"
  then show ?thesis using on_fired_phase [of s t en] Fired by (auto simp: phased_def sc_step_def)
next
  case Close
  assume "phased s"
  then show ?thesis using Close by (simp add: sc_step_def close_phased)
qed

text \<open>\<open>closed\<close> is written by \<open>close()\<close> only.\<close>

lemma closed_ends [simp]:
  "sc_closed (run_begin en s) = sc_closed s" "sc_closed (run_finally i en s) = sc_closed s"
  "sc_closed (run_catch i r ab en s) = sc_closed s" "sc_closed (start_reading i s) = sc_closed s"
  by (simp_all add: run_begin_def run_finally_def run_catch_def scheduleReconnect_def start_reading_def)

lemma closed_step: "ev \<noteq> Close \<Longrightarrow> sc_closed (sc_step E ev s) = sc_closed s"
  by (cases ev)
    (auto simp: sc_step_def on_fetched_def on_read_def on_fired_def Let_def
      split: option.splits fetched.splits read_result.splits prod.splits)

lemma fold_closed: "Close \<notin> set evs \<Longrightarrow> sc_closed (fold (sc_step E) evs s) = sc_closed s"
proof (induction evs arbitrary: s)
  case (Cons ev evs)
  then show ?case using closed_step [of ev E s] by auto
qed simp

lemma step_alive: "alive s \<Longrightarrow> enabled_at ev \<Longrightarrow> alive (sc_step E ev s)"
proof -
  assume a: "alive s" and e: "enabled_at ev"
  have ne: "ev \<noteq> Close" using e by (auto simp: enabled_at_def)
  have p: "phased s" and c: "\<not> sc_closed (sc_step E ev s)"
    using a closed_step [OF ne, of E s] by (auto simp: alive_def phased_def)
  have step: "sc_step E ev s = s \<or> over True s (sc_step E ev s) \<or> running (sc_step E ev s)"
  proof (cases ev)
    case (Fetched i f en)
    with e fetched_step_phase [OF p, of E i f True] show ?thesis by (auto simp: enabled_at_def)
  next
    case (Read i v en)
    with e read_step_phase [OF p, of E i v True] show ?thesis by (auto simp: enabled_at_def)
  next
    case (Fired t en)
    with e on_fired_phase [OF p, of t True] show ?thesis by (auto simp: enabled_at_def sc_step_def)
  qed (simp add: ne)
  show ?thesis
    using step a c over_alive [of s "sc_step E ev s"] by (auto simp: alive_def)
qed

lemma fold_phased: "phased s \<Longrightarrow> phased (fold (sc_step E) evs s)"
  by (induction evs arbitrary: s) (auto simp: step_phased)

lemma fold_alive: "alive s \<Longrightarrow> list_all enabled_at evs \<Longrightarrow> alive (fold (sc_step E) evs s)"
  by (induction evs arbitrary: s) (auto simp: step_alive)

lemma init_idle: "idle conn_init" "\<not> sc_closed conn_init"
  by (simp_all add: idle_def conn_init_def)

lemma connect_phased: "phased (connect E en evs)"
  unfolding connect_def using run_begin_phase [OF init_idle(1), of en] by (intro fold_phased) (auto simp: phased_def)

text \<open>
  There is one stream at a time: whatever the host does, at most one run or one timer is pending, the
  timer the code remembers is the timer that is armed, and \<open>connected\<close> is true exactly while an open
  stream is being read and was not closed.
\<close>

theorem one_stream_at_a_time:
  "let s = connect E en evs
   in length (sc_runs s) + length (sc_timers s) \<le> 1 \<and>
      sc_timers s = (case sc_timer s of None \<Rightarrow> [] | Some t \<Rightarrow> [t]) \<and>
      (sc_connected s \<longleftrightarrow> \<not> sc_closed s \<and> list_ex (\<lambda>(i, r). rn_buffer r \<noteq> None) (sc_runs s))"
  using connect_phased [of E en evs] by (auto simp: Let_def phased_def phase_defs)

text \<open>
  C25. The stream never gives up: while nobody closes it and it stays enabled, after any sequence of failed
  requests, broken reads, throwing callbacks and timers there is still a run in flight or a timer armed.
\<close>

theorem stream_never_gives_up:
  assumes "list_all enabled_at evs"
  shows "length (sc_runs (connect E True evs)) + length (sc_timers (connect E True evs)) = 1"
proof -
  have "alive (run_begin True conn_init)"
    using run_begin_phase [OF init_idle(1), of True] init_idle(2) by (auto simp: alive_def)
  from fold_alive [OF this assms, of E] have "alive (connect E True evs)" by (simp add: connect_def)
  then show ?thesis by (auto simp: alive_def phase_defs)
qed

section \<open>The protocol of the connection\<close>

text \<open>
  What the caller may rely on, without the closure: a request is opened or fails, signals come only while the
  stream is open, an open stream is closed before the next request, and the \<open>k\<close>-th failure in a row is
  followed by a pause of \<open>min(30 s, 2^k s)\<close>.
\<close>

datatype sc_mode = Start | Requested | Open | Ended | Paused

definition protocol :: "nat \<times> sc_mode \<Rightarrow> sc_out \<Rightarrow> (nat \<times> sc_mode) option" where
  "protocol st ev =
     (case (st, ev) of
        ((k, Start), Fetch) \<Rightarrow> Some (k, Requested)
      | ((k, Paused), Fetch) \<Rightarrow> Some (k, Requested)
      | ((k, Requested), OnOpen) \<Rightarrow> Some (0, Open)
      | ((k, Requested), OnError) \<Rightarrow> Some (k, Ended)
      | ((k, Requested), Arm d) \<Rightarrow> if d = reconnect_delay k then Some (k + 1, Paused) else None
      | ((k, Open), Deliver x) \<Rightarrow> Some (k, Open)
      | ((k, Open), OnError) \<Rightarrow> Some (k, Open)
      | ((k, Open), OnClose) \<Rightarrow> Some (k, Ended)
      | ((k, Ended), Arm d) \<Rightarrow> if d = reconnect_delay k then Some (k + 1, Paused) else None
      | _ \<Rightarrow> None)"

primrec follow :: "sc_out list \<Rightarrow> nat \<times> sc_mode \<Rightarrow> (nat \<times> sc_mode) option" where
  "follow [] st = Some st"
| "follow (x # xs) st = Option.bind (protocol st x) (follow xs)"

lemma follow_append [simp]: "follow (xs @ ys) st = Option.bind (follow xs st) (follow ys)"
  by (induction xs arbitrary: st) (auto split: bind_split)

lemma protocol_simps [simp]:
  "protocol (k, Start) Fetch = Some (k, Requested)"
  "protocol (k, Paused) Fetch = Some (k, Requested)"
  "protocol (k, Requested) OnOpen = Some (0, Open)"
  "protocol (k, Requested) OnError = Some (k, Ended)"
  "protocol (k, Requested) (Arm d) = (if d = reconnect_delay k then Some (k + 1, Paused) else None)"
  "protocol (k, Open) (Deliver x) = Some (k, Open)"
  "protocol (k, Open) OnError = Some (k, Open)"
  "protocol (k, Open) OnClose = Some (k, Ended)"
  "protocol (k, Ended) (Arm d) = (if d = reconnect_delay k then Some (k + 1, Paused) else None)"
  by (simp_all add: protocol_def)

lemma follow_delivers [simp]: "follow (map Deliver xs) (k, Open) = Some (k, Open)"
  by (induction xs) auto

text \<open>The mode of a state: what the run or the timer that is pending has come to.\<close>

definition mode_of :: "conn \<Rightarrow> sc_mode" where
  "mode_of s = (case sc_runs s of [] \<Rightarrow> Paused | (i, r) # _ \<Rightarrow> if rn_buffer r = None then Requested else Open)"

definition conforms :: "conn \<Rightarrow> bool" where
  "conforms s \<longleftrightarrow>
     (\<exists>m. follow (sc_log s) (0, Start) = Some (sc_attempt s, m) \<and> (alive s \<longrightarrow> m = mode_of s))"

definition at_mode :: "sc_mode \<Rightarrow> conn \<Rightarrow> bool" where
  "at_mode m s \<longleftrightarrow> follow (sc_log s) (0, Start) = Some (sc_attempt s, m)"

lemma schedule_conforms:
  "at_mode m s \<Longrightarrow> m = Requested \<or> m = Ended \<Longrightarrow> idle s \<Longrightarrow> conforms (scheduleReconnect en s)"
  by (auto simp: scheduleReconnect_def conforms_def at_mode_def mode_of_def alive_def phase_defs)

lemma finally_conforms:
  assumes "lone i s" "at_mode m s" "m = (if sc_connected s then Open else m')" "m' = Requested \<or> m' = Ended"
  shows "conforms (run_finally i en s)"
  unfolding run_finally_def using assms
  by (intro schedule_conforms [of "if sc_connected s then Ended else m'"]) (auto simp: lone_def at_mode_def idle_def)

lemma catch_conforms:
  assumes "lone i s" "at_mode m s" "m = (if sc_connected s then Open else Requested)"
  shows "conforms (run_catch i r ab en s)"
proof -
  have "at_mode (if sc_connected s then Open else Ended) (s\<lparr>sc_log := sc_log s @ [OnError]\<rparr>)"
    using assms(2,3) by (auto simp: at_mode_def)
  then have "conforms (run_finally i en (s\<lparr>sc_log := sc_log s @ [OnError]\<rparr>))"
    using assms(1) by (intro finally_conforms [of _ _ "if sc_connected s then Open else Ended" Ended]) auto
  moreover have "conforms (run_finally i en s)"
    using assms by (intro finally_conforms [of _ _ m Requested]) auto
  ultimately show ?thesis by (simp add: run_catch_def)
qed

lemma running_mode:
  "running s \<Longrightarrow> conforms s \<Longrightarrow> \<not> sc_closed s \<Longrightarrow>
   at_mode (mode_of s) s \<and> mode_of s = (if sc_connected s then Open else Requested)"
  by (auto simp: conforms_def at_mode_def alive_def mode_of_def running_def)

lemma reading_conforms:
  "at_mode Open s \<Longrightarrow> sc_runs s = [(i, r)] \<Longrightarrow> rn_buffer r = Some b \<Longrightarrow> conforms s"
  by (auto simp: conforms_def at_mode_def mode_of_def)

lemma on_fetched_conforms:
  assumes s: "running s" "conforms s" "\<not> sc_closed s" and r: "map_of (sc_runs s) i = Some r" "rn_buffer r = None"
  shows "conforms (on_fetched E i r f en s)"
proof -
  have l: "lone i s" "sc_runs s = [(i, r)]" using running_lone [OF s(1) r(1)] by auto
  then have c: "\<not> sc_connected s" "\<not> rn_aborted r" using s r by (auto simp: running_def)
  with running_mode [OF s] have m: "at_mode Requested s" by auto
  note fails = catch_conforms [OF l(1) m, of r _ en]
  let ?opened = "s\<lparr>sc_connected := True, sc_attempt := 0, sc_log := sc_log s @ [OnOpen]\<rparr>"
  have o: "at_mode Open ?opened" "at_mode Open (?opened\<lparr>sc_log := sc_log ?opened @ [OnError]\<rparr>)"
    using m by (auto simp: at_mode_def)
  have "conforms (start_reading i (?opened\<lparr>sc_log := l'\<rparr>))" if "at_mode Open (?opened\<lparr>sc_log := l'\<rparr>)" for l'
    using that l(2) by (intro reading_conforms) (auto simp: start_reading_def at_mode_def)
  moreover have "conforms (run_catch i r False en (?opened\<lparr>sc_log := l'\<rparr>))" if "at_mode Open (?opened\<lparr>sc_log := l'\<rparr>)" for l'
    using that l(1) by (intro catch_conforms) auto
  ultimately show ?thesis
    using o fails c s(3) by (auto simp: on_fetched_def Let_def split: fetched.split)
qed

lemma on_read_conforms:
  assumes s: "running s" "conforms s" "\<not> sc_closed s" and r: "map_of (sc_runs s) i = Some r" "rn_buffer r = Some b"
  shows "conforms (on_read E i r b v en s)"
proof -
  have l: "lone i s" "sc_runs s = [(i, r)]" using running_lone [OF s(1) r(1)] by auto
  then have c: "sc_connected s" "\<not> rn_aborted r" using s r by (auto simp: running_def)
  with running_mode [OF s] have m: "at_mode Open s" by auto
  have told: "at_mode Open (s\<lparr>sc_log := sc_log s @ map Deliver ys\<rparr>)" for ys
    using m by (simp add: at_mode_def)
  have "conforms (run_catch i r ab en (s\<lparr>sc_log := sc_log s @ map Deliver ys\<rparr>))" for ab ys
    using told l(1) c by (intro catch_conforms) auto
  moreover have "conforms (run_catch i r ab en s)" for ab
    using m l(1) c by (intro catch_conforms) auto
  moreover have "conforms (run_finally i en s)"
    using m l(1) c by (intro finally_conforms [of _ _ Open Ended]) auto
  moreover have "conforms (s\<lparr>sc_log := sc_log s @ map Deliver ys, sc_runs := [(i, r\<lparr>rn_buffer := Some b'\<rparr>)]\<rparr>)" for ys b'
    using told [of ys] by (intro reading_conforms) (auto simp: at_mode_def)
  ultimately show ?thesis
    using c s(3) l(2) by (auto simp: on_read_def Let_def split: read_result.split prod.split)
qed

lemma on_fired_conforms: "phased s \<Longrightarrow> conforms s \<Longrightarrow> conforms (on_fired t en s)"
  by (auto simp: conforms_def on_fired_def run_begin_def phased_def alive_def phase_defs mode_of_def)

lemma step_conforms:
  assumes "phased s" "conforms s" "\<not> sc_closed s" "ev \<noteq> Close"
  shows "conforms (sc_step E ev s)"
proof -
  have run: "map_of (sc_runs s) i = Some r \<Longrightarrow> running s" for i r
    using assms(1) by (auto simp: phased_def phase_defs)
  show ?thesis
    using assms run on_fetched_conforms [of s] on_read_conforms [of s] on_fired_conforms [of s]
    by (cases ev) (auto simp: sc_step_def split: option.split)
qed

lemma fold_conforms:
  "phased s \<Longrightarrow> conforms s \<Longrightarrow> \<not> sc_closed s \<Longrightarrow> Close \<notin> set evs \<Longrightarrow> conforms (fold (sc_step E) evs s)"
  by (induction evs arbitrary: s) (auto simp: step_conforms step_phased closed_step)

text \<open>
  C26. The connection implements the protocol: until it is closed, whatever the host and the callbacks do, the
  requests, callbacks, signals and pauses are a run of \<open>protocol\<close>, the number of failures it counts is
  the code's \<open>reconnectAttempt\<close>, and it is in the mode of the run or timer that is pending.
\<close>

theorem connection_follows_protocol:
  assumes "Close \<notin> set evs"
  shows "\<exists>m. follow (sc_log (connect E en evs)) (0, Start) = Some (sc_attempt (connect E en evs), m) \<and>
             (sc_runs (connect E en evs) \<noteq> [] \<or> sc_timers (connect E en evs) \<noteq> [] \<longrightarrow> m = mode_of (connect E en evs))"
proof -
  have p: "phased (run_begin en conn_init)" "conforms (run_begin en conn_init)" "\<not> sc_closed (run_begin en conn_init)"
    by (auto simp: phased_def phase_defs conforms_def alive_def mode_of_def run_begin_def conn_init_def)
  have c: "conforms (connect E en evs)" "phased (connect E en evs)" and "\<not> sc_closed (connect E en evs)"
    using fold_conforms [OF p assms, of E] connect_phased fold_closed [OF assms] p(3) by (simp_all add: connect_def)
  then show ?thesis by (auto simp: conforms_def alive_def phased_def idle_def)
qed

section \<open>After close()\<close>

definition reading :: "conn \<Rightarrow> bool" where
  "reading s \<longleftrightarrow> list_ex (\<lambda>(i, r). rn_buffer r \<noteq> None) (sc_runs s)"

text \<open>A run of a closed stream ends at its next event, and only a chunk it was reading is still delivered.\<close>

lemma finally_closed:
  "sc_closed s \<Longrightarrow> \<not> sc_connected s \<Longrightarrow> sc_log (run_finally i en s) = sc_log s"
  "sc_closed s \<Longrightarrow> sc_runs (run_finally i en s) = filter (\<lambda>(j, r). j \<noteq> i) (sc_runs s)"
  by (simp_all add: run_finally_def scheduleReconnect_def)

lemma catch_closed: "sc_closed s \<Longrightarrow> run_catch i r ab en s = run_finally i en s"
  by (simp add: run_catch_def)

lemma closed_step_silent:
  assumes "phased s" "sc_closed s"
  shows "\<exists>xs. sc_log (sc_step E ev s) = sc_log s @ map Deliver xs \<and> (xs \<noteq> [] \<longrightarrow> reading s) \<and>
              (reading (sc_step E ev s) \<longrightarrow> reading s)"
proof -
  have log: "\<exists>xs. sc_log s = sc_log s @ map Deliver xs" by (intro exI [of _ "[]"]) simp
  have run: "map_of (sc_runs s) i = Some r \<Longrightarrow> sc_runs s = [(i, r)] \<and> rn_aborted r \<and> \<not> sc_connected s" for i r
    using assms by (auto simp: phased_def phase_defs split: if_splits)
  have timers: "sc_timers s = []" using assms by (auto simp: phased_def phase_defs)
  show ?thesis
  proof (cases ev)
    case (Fetched i f en)
    then show ?thesis
      using run [of i] assms(2)
      by (auto simp: sc_step_def on_fetched_def finally_closed catch_closed reading_def split: option.split fetched.split)
  next
    case (Read i v en)
    show ?thesis
    proof (cases "map_of (sc_runs s) i")
      case (Some r)
      note r = run [OF Some]
      show ?thesis
      proof (cases v)
        case (Chunk c)
        with Read Some r assms(2) show ?thesis
          by (auto simp: sc_step_def on_read_def finally_closed catch_closed Let_def reading_def
              split: option.split prod.split)
      qed (use Read Some r assms(2) in \<open>auto simp: sc_step_def on_read_def finally_closed catch_closed reading_def split: option.split\<close>)
    qed (use Read in \<open>simp add: sc_step_def\<close>)
  next
    case (Fired t en)
    with timers show ?thesis by (simp add: sc_step_def on_fired_def)
  next
    case Close
    then show ?thesis using assms
      by (auto simp: sc_step_def close_conn_def reading_def phased_def phase_defs)
  qed
qed

lemma closed_stays: "sc_closed s \<Longrightarrow> sc_closed (sc_step E ev s)"
  using closed_step [of ev E s] by (cases "ev = Close") (auto simp: sc_step_def close_conn_def)

lemma fold_closed_silent:
  "phased s \<Longrightarrow> sc_closed s \<Longrightarrow>
   \<exists>xs. sc_log (fold (sc_step E) evs s) = sc_log s @ map Deliver xs \<and> (xs \<noteq> [] \<longrightarrow> reading s)"
proof (induction evs arbitrary: s)
  case Nil
  show ?case by (intro exI [of _ "[]"]) simp
next
  case (Cons ev evs)
  obtain xs where x: "sc_log (sc_step E ev s) = sc_log s @ map Deliver xs" "xs \<noteq> [] \<longrightarrow> reading s"
      "reading (sc_step E ev s) \<longrightarrow> reading s"
    using closed_step_silent [OF Cons.prems, of E ev] by blast
  obtain ys where y: "sc_log (fold (sc_step E) evs (sc_step E ev s)) = sc_log (sc_step E ev s) @ map Deliver ys"
      "ys \<noteq> [] \<longrightarrow> reading (sc_step E ev s)"
    using Cons.IH [OF step_phased [OF Cons.prems(1)] closed_stays [OF Cons.prems(2)], of E ev] by blast
  show ?case using x y by (intro exI [of _ "xs @ ys"]) auto
qed

text \<open>
  A closed stream is quiet: after \<open>close()\<close> no request is sent, no timer is armed and \<open>onOpen\<close>,
  \<open>onClose\<close> and \<open>onError\<close> are not called, whatever still arrives. Signals are delivered only if a read was
  in flight.
\<close>

theorem closed_stream_is_quiet:
  "let s = connect E en evs; s' = connect E en (evs @ Close # later)
   in (\<exists>xs. sc_log s' = sc_log s @ map Deliver xs \<and> (xs = [] \<or> reading s)) \<and>
      sc_timers s' = [] \<and> sc_timer s' = None \<and> \<not> sc_connected s'"
proof -
  let ?s = "close_conn (connect E en evs)"
  have s': "connect E en (evs @ Close # later) = fold (sc_step E) later ?s"
    by (simp add: connect_def sc_step_def)
  have c: "sc_closed ?s" and l: "sc_log ?s = sc_log (connect E en evs)" by (simp_all add: close_conn_def)
  have r: "reading ?s \<Longrightarrow> reading (connect E en evs)"
    using connect_phased [of E en evs] by (auto simp: phased_def phase_defs close_conn_def reading_def)
  have "sc_closed (fold (sc_step E) later ?s)"
    using c by (induction later rule: rev_induct) (auto simp: closed_stays)
  then show ?thesis
    using fold_closed_silent [OF close_phased [OF connect_phased] c, of E later] r l
      connect_phased [of E en "evs @ Close # later"]
    by (auto simp: Let_def s' phased_def phase_defs)
qed

section \<open>What one open stream delivers\<close>

lemma deliver_all: "\<forall>x. \<not> bad x \<Longrightarrow> deliver bad xs = (xs, False)"
  by (induction xs) auto

lemma read_chunks:
  assumes quiet: "\<forall>x. \<not> handler_throws E x"
  shows "sc_runs s = [(i, r)] \<Longrightarrow> rn_buffer r = Some b \<Longrightarrow> \<not> rn_aborted r \<Longrightarrow> \<not> sc_closed s \<Longrightarrow>
    split_blocks b = ([], b) \<Longrightarrow>
    sc_log (fold (sc_step E) (map (\<lambda>c. Read i (Chunk c) en) chunks) s) =
      sc_log s @ map Deliver (fst (fold (on_chunk (stream_env.truncate E)) chunks ([], b)))"
proof (induction chunks arbitrary: s r b)
  case (Cons c cs)
  let ?V = "stream_env.truncate E"
  obtain xs rest where p: "parseSseChunk ?V (b @ c) = (xs, rest)" by fastforce
  then have rest: "split_blocks rest = ([], rest)"
    by (auto simp: parseSseChunk_def split: prod.splits dest: split_blocks_rest)
  let ?s = "s\<lparr>sc_log := sc_log s @ map Deliver xs, sc_runs := [(i, r\<lparr>rn_buffer := Some rest\<rparr>)]\<rparr>"
  have step: "sc_step E (Read i (Chunk c) en) s = ?s"
    using Cons.prems p by (simp add: sc_step_def on_read_def deliver_all [OF quiet])
  have "fold (on_chunk ?V) cs (xs, rest) = (xs @ fst (parseSseChunk ?V (rest @ concat cs)), snd (parseSseChunk ?V (rest @ concat cs)))"
    "fold (on_chunk ?V) cs ([], rest) = parseSseChunk ?V (rest @ concat cs)"
    using fold_chunks [OF rest, of ?V cs] by (simp_all split: prod.splits)
  moreover have chunk: "on_chunk ?V c ([], b) = (xs, rest)" by (simp add: on_chunk_def p)
  ultimately show ?case
    using Cons.IH [of ?s "r\<lparr>rn_buffer := Some rest\<rparr>" rest] Cons.prems rest
    by (simp add: step chunk)
qed simp

text \<open>
  An open stream delivers exactly its signals: when the response is good and the callbacks return, the
  handlers are called with the signals of the whole text received so far, in order and once each, however
  the network cut it.
\<close>

theorem open_stream_delivers_text:
  assumes "\<forall>x. \<not> handler_throws E x" "\<forall>l. \<not> open_throws E l"
  shows "sc_log (connect E True (Fetched 0 (Response True True) True # map (\<lambda>c. Read 0 (Chunk c) True) chunks)) =
         Fetch # OnOpen # map Deliver (fst (parseSseChunk (stream_env.truncate E) (concat chunks)))"
proof -
  let ?s = "sc_step E (Fetched 0 (Response True True) True) (run_begin True conn_init)"
  have s: "sc_runs ?s = [(0, \<lparr>rn_aborted = False, rn_buffer = Some []\<rparr>)]" "\<not> sc_closed ?s" "sc_log ?s = [Fetch, OnOpen]"
    using assms(2) by (simp_all add: sc_step_def run_begin_def conn_init_def on_fetched_def start_reading_def abort_run_def)
  show ?thesis
    using read_chunks [OF assms(1) s(1), of "[]" True chunks] s(2,3)
      fold_chunks [of "[]" "stream_env.truncate E" chunks "[]"]
    by (simp add: connect_def split: prod.splits)
qed

section \<open>Concrete runs\<close>

definition calm_env :: conn_env where
  "calm_env =
     \<lparr>json_parse = (\<lambda>t. if t = js ''1'' then Some (JObj [(js ''connectionId'', JStr (js ''c''))]) else None),
      parse_int = (\<lambda>_. None),
      handler_throws = (\<lambda>_. False), open_throws = (\<lambda>_. False), error_throws = (\<lambda>_. True)\<rparr>"

lemma stream_never_gives_up_witness:
  "let evs = [Fetched 0 (FetchThrew False) True, Fired 1 True, Fetched 2 (Response True True) True, Read 2 ReadDone True]
   in list_all enabled_at evs \<and>
      length (sc_runs (connect calm_env True evs)) + length (sc_timers (connect calm_env True evs)) = 1"
  using stream_never_gives_up [of "[Fetched 0 (FetchThrew False) True, Fired 1 True,
      Fetched 2 (Response True True) True, Read 2 ReadDone True]" calm_env]
  by (simp add: enabled_at_def)

lemma connection_follows_protocol_witness:
  "let evs = [Fetched 0 (Response True True) True, Read 0 (Chunk (js ''data:1'' @ [10, 10])) True, Read 0 ReadDone True]
   in Close \<notin> set evs \<and>
      follow [Fetch, OnOpen, Deliver (ConnectedSignal (js ''c'')), OnClose, Arm 1000] (0, Start) = Some (1, Paused) \<and>
      (\<exists>m. follow (sc_log (connect calm_env True evs)) (0, Start) = Some (sc_attempt (connect calm_env True evs), m) \<and>
           (sc_runs (connect calm_env True evs) \<noteq> [] \<or> sc_timers (connect calm_env True evs) \<noteq> [] \<longrightarrow>
            m = mode_of (connect calm_env True evs)))"
  using connection_follows_protocol [of "[Fetched 0 (Response True True) True,
      Read 0 (Chunk (js ''data:1'' @ [10, 10])) True, Read 0 ReadDone True]" calm_env True]
  by (simp add: reconnect_delay_def)

lemma open_stream_delivers_text_witness:
  "sc_log (connect calm_env True
     (Fetched 0 (Response True True) True #
      map (\<lambda>c. Read 0 (Chunk c) True) [js ''event:connected'' @ [10] @ js ''da'', js ''ta: 1'' @ [10], [10]])) =
   [Fetch, OnOpen, Deliver (ConnectedSignal (js ''c''))]"
proof -
  have calm: "\<forall>x. \<not> handler_throws calm_env x" "\<forall>l. \<not> open_throws calm_env l"
    by (simp_all add: calm_env_def)
  have "parseSseChunk (stream_env.truncate calm_env)
          (concat [js ''event:connected'' @ [10] @ js ''da'', js ''ta: 1'' @ [10], [10]]) = ([ConnectedSignal (js ''c'')], [])"
    by (simp add: calm_env_def stream_env.defs parseSseChunk_def List.map_filter_def block_signal_def dispatchSseEvent_def
        sse_line_def starts_with_def trim_def is_space_unit_def parseConnectedSignal_def)
  then have "Fetch # OnOpen # map Deliver (fst (parseSseChunk (stream_env.truncate calm_env)
          (concat [js ''event:connected'' @ [10] @ js ''da'', js ''ta: 1'' @ [10], [10]]))) =
        [Fetch, OnOpen, Deliver (ConnectedSignal (js ''c''))]"
    by (simp only: fst_conv list.map)
  with open_stream_delivers_text [OF calm] show ?thesis by (rule trans)
qed

end
