(* ===== verification/Presence_Store.thy ===== *)
theory Presence_Store
  imports Json_Read "HOL-Library.AList"
begin

text \<open>
  The presence store (\<open>packages/flora-client-core/src/presence/store.ts\<close>): which snapshot of a peer wins, the
  surfaces that name the peers on screen, the watch list sent to the server, and the two timers that keep it
  fresh. The module flag \<open>presenceMutationsDenied\<close> is part of the state. Answers of the server are events
  that may come at any time, also after \<open>clear()\<close>.
\<close>

section \<open>Snapshots\<close>

record presence_snapshot =
  ps_user :: js_string
  ps_online :: bool
  ps_seen :: "js_string option"

definition parseSnapshot :: "json \<Rightarrow> presence_snapshot option" where
  "parseSnapshot raw =
     Option.bind (as_record raw) (\<lambda>o'.
       let u = read_str o' [js ''userUuid'', js ''UserUuid'']
       in if u = [] then None
          else Some \<lparr>ps_user = u, ps_online = is_true (coalesce o' (js ''isOnline'') (js ''IsOnline'')),
                     ps_seen = or_null (read_str o' [js ''lastSeenAt'', js ''LastSeenAt''])\<rparr>)"

definition shouldApply :: "presence_snapshot \<Rightarrow> presence_snapshot \<Rightarrow> bool" where
  "shouldApply snap prev =
     (if \<not> ps_online snap \<and> \<not> truthy (ps_seen snap) then ps_online prev \<or> ps_seen prev \<noteq> None
      else if truthy (ps_seen snap) \<and> truthy (ps_seen prev) then
        (if js_less (the (ps_seen snap)) (the (ps_seen prev)) then False
         else if js_less (the (ps_seen prev)) (the (ps_seen snap)) then True
         else ps_online snap \<noteq> ps_online prev)
      else if truthy (ps_seen snap) \<and> \<not> truthy (ps_seen prev) then True
      else if \<not> truthy (ps_seen snap) \<and> truthy (ps_seen prev) then False
      else ps_online snap \<noteq> ps_online prev)"

section \<open>State\<close>

definition PRESENCE_MAX_WATCH :: nat where
  "PRESENCE_MAX_WATCH = 100"

definition SURFACE_PRIORITY :: "js_string list" where
  "SURFACE_PRIORITY =
     [js ''messages'', js ''messages-list'', js ''chat-header'', js ''public-profile'', js ''people'']"

datatype request = Heartbeat | Watch js_string "js_string list" | GetPresence "js_string list"

text \<open>
  A \<open>Map\<close> with its order of insertion is an association list, a \<open>Set\<close> the list of its members in order.
  \<open>pr_emits\<close> counts the calls of the listeners, \<open>pr_sent\<close> is the requests so far.
\<close>

record presence =
  pr_byUser :: "js_string \<Rightarrow> presence_snapshot option"
  pr_surfaces :: "(js_string \<times> js_string list) list"
  pr_connectionId :: "js_string option"
  pr_acceptSurfaces :: bool
  pr_sessionEpoch :: nat
  pr_watchTimer :: bool
  pr_refreshTimer :: bool
  pr_denied :: bool
  pr_emits :: nat
  pr_sent :: "request list"

definition new_store :: presence where
  "new_store =
     \<lparr>pr_byUser = (\<lambda>_. None), pr_surfaces = [], pr_connectionId = None, pr_acceptSurfaces = True,
      pr_sessionEpoch = 0, pr_watchTimer = False, pr_refreshTimer = False, pr_denied = False,
      pr_emits = 0, pr_sent = []\<rparr>"

definition emit :: "presence \<Rightarrow> presence" where
  "emit s = s\<lparr>pr_emits := pr_emits s + 1\<rparr>"

section \<open>Applying snapshots\<close>

definition wins :: "presence \<Rightarrow> presence_snapshot \<Rightarrow> bool" where
  "wins s snap = (case pr_byUser s (ps_user snap) of None \<Rightarrow> True | Some prev \<Rightarrow> shouldApply snap prev)"

definition put_snapshot :: "presence_snapshot \<Rightarrow> presence \<Rightarrow> presence" where
  "put_snapshot snap s = s\<lparr>pr_byUser := (pr_byUser s)(ps_user snap := Some snap)\<rparr>"

definition applySnapshot :: "presence_snapshot \<Rightarrow> presence \<Rightarrow> presence" where
  "applySnapshot snap s = (if wins s snap then emit (put_snapshot snap s) else s)"

fun apply_items :: "presence_snapshot list \<Rightarrow> presence \<times> bool \<Rightarrow> presence \<times> bool" where
  "apply_items [] (s, changed) = (s, changed)"
| "apply_items (x # xs) (s, changed) =
     (if wins s x then apply_items xs (put_snapshot x s, True) else apply_items xs (s, changed))"

definition applyMany :: "presence_snapshot list \<Rightarrow> presence \<Rightarrow> presence" where
  "applyMany items s = (case apply_items items (s, False) of (s', changed) \<Rightarrow> if changed then emit s' else s')"

text \<open>\<open>dtoLastSeen ?? null\<close> is the argument itself: \<open>undefined\<close> and \<open>null\<close> are both \<open>None\<close>.\<close>

definition overlayOnline :: "presence \<Rightarrow> js_string \<Rightarrow> bool \<Rightarrow> js_string option \<Rightarrow> bool \<times> js_string option" where
  "overlayOnline s userUuid dtoOnline dtoLastSeen =
     (case pr_byUser s userUuid of
        None \<Rightarrow> (False, dtoLastSeen)
      | Some snap \<Rightarrow>
          if \<not> ps_online snap \<and> \<not> truthy (ps_seen snap) then (False, None)
          else (ps_online snap,
                if truthy dtoLastSeen \<and>
                   (\<not> truthy (ps_seen snap) \<or> js_less (the (ps_seen snap)) (the dtoLastSeen))
                then dtoLastSeen else ps_seen snap))"

section \<open>Surfaces and the watch list\<close>

definition set_add :: "js_string \<Rightarrow> js_string list \<Rightarrow> js_string list" where
  "set_add u out = (if u \<in> set out then out else out @ [u])"

definition js_set :: "js_string list \<Rightarrow> js_string list" where
  "js_set us = fold set_add us []"

fun add_from :: "js_string list \<Rightarrow> js_string list \<Rightarrow> js_string list" where
  "add_from [] out = out"
| "add_from (u # us) out =
     (if length (set_add u out) \<ge> PRESENCE_MAX_WATCH then set_add u out else add_from us (set_add u out))"

fun add_sets :: "js_string list list \<Rightarrow> js_string list \<Rightarrow> js_string list" where
  "add_sets [] out = out"
| "add_sets (us # uss) out =
     (if length (add_from us out) \<ge> PRESENCE_MAX_WATCH then add_from us out else add_sets uss (add_from us out))"

definition priority_sets :: "(js_string \<times> js_string list) list \<Rightarrow> js_string list list" where
  "priority_sets sf = List.map_filter (map_of sf) SURFACE_PRIORITY"

definition other_sets :: "(js_string \<times> js_string list) list \<Rightarrow> js_string list list" where
  "other_sets sf = map snd (filter (\<lambda>(k, us). k \<notin> set SURFACE_PRIORITY) sf)"

definition mergedWatchUuids :: "presence \<Rightarrow> js_string list" where
  "mergedWatchUuids s =
     (let first = add_sets (priority_sets (pr_surfaces s)) []
      in if length first \<ge> PRESENCE_MAX_WATCH then first else add_sets (other_sets (pr_surfaces s)) first)"

definition scheduleWatchSync :: "presence \<Rightarrow> presence" where
  "scheduleWatchSync s = s\<lparr>pr_watchTimer := True\<rparr>"

definition ensureWatchRefresh :: "presence \<Rightarrow> presence" where
  "ensureWatchRefresh s =
     (if pr_refreshTimer s then s
      else if \<not> truthy (pr_connectionId s) \<or> pr_surfaces s = [] then s
      else s\<lparr>pr_refreshTimer := True\<rparr>)"

definition stopWatchRefresh :: "presence \<Rightarrow> presence" where
  "stopWatchRefresh s = s\<lparr>pr_refreshTimer := False\<rparr>"

definition setConnectionId :: "js_string option \<Rightarrow> presence \<Rightarrow> presence" where
  "setConnectionId c s =
     (if truthy c then
        let s1 = s\<lparr>pr_connectionId := c, pr_acceptSurfaces := True,
                   pr_sessionEpoch := pr_sessionEpoch s + (if pr_acceptSurfaces s then 0 else 1)\<rparr>;
            s2 = ensureWatchRefresh (scheduleWatchSync s1)
        in if pr_acceptSurfaces s then s2 else emit s2
      else stopWatchRefresh (s\<lparr>pr_connectionId := c\<rparr>))"

definition registerSurface :: "js_string \<Rightarrow> js_string list \<Rightarrow> presence \<Rightarrow> presence" where
  "registerSurface key userUuids s =
     (if \<not> pr_acceptSurfaces s then s
      else ensureWatchRefresh (scheduleWatchSync
        (s\<lparr>pr_surfaces := AList.update key
             (js_set (take PRESENCE_MAX_WATCH (filter (\<lambda>u. u \<noteq> []) userUuids))) (pr_surfaces s)\<rparr>)))"

definition unregisterSurface :: "js_string \<Rightarrow> presence \<Rightarrow> presence" where
  "unregisterSurface key s =
     (if key \<notin> fst ` set (pr_surfaces s) then s
      else let s1 = scheduleWatchSync (s\<lparr>pr_surfaces := AList.delete key (pr_surfaces s)\<rparr>)
           in if pr_surfaces s1 = [] then stopWatchRefresh s1 else s1)"

section \<open>Requests and answers\<close>

definition send :: "request \<Rightarrow> presence \<Rightarrow> presence" where
  "send r s = s\<lparr>pr_sent := pr_sent s @ [r]\<rparr>"

definition apiPresenceWatch :: "js_string \<Rightarrow> js_string list \<Rightarrow> presence \<Rightarrow> presence" where
  "apiPresenceWatch c us s = send (Watch c (take PRESENCE_MAX_WATCH us)) s"

definition apiGetPresence :: "js_string list \<Rightarrow> presence \<Rightarrow> presence" where
  "apiGetPresence us s = (if us = [] then s else send (GetPresence (take PRESENCE_MAX_WATCH us)) s)"

definition syncWatch :: "presence \<Rightarrow> presence" where
  "syncWatch s =
     (if pr_denied s then s
      else if \<not> truthy (pr_connectionId s) then s
      else apiPresenceWatch (the (pr_connectionId s)) (mergedWatchUuids s) s)"

definition resyncSnapshots :: "presence \<Rightarrow> presence" where
  "resyncSnapshots s =
     (let us = mergedWatchUuids s in if us = [] then s else apiGetPresence us s)"

text \<open>\<open>postPresenceMutation\<close> when the answer arrives; what it throws otherwise is ignored by its callers.\<close>

definition on_mutation_answer :: "nat \<Rightarrow> presence \<Rightarrow> presence" where
  "on_mutation_answer status s = (if status = 403 then s\<lparr>pr_denied := True\<rparr> else s)"

definition presence_items :: "json \<Rightarrow> presence_snapshot list" where
  "presence_items j =
     (case Option.bind (as_record j) (\<lambda>o'. map_of o' (js ''items'')) of
        Some (JArr xs) \<Rightarrow> List.map_filter parseSnapshot xs
      | _ \<Rightarrow> (case j of JArr xs \<Rightarrow> List.map_filter parseSnapshot xs | _ \<Rightarrow> []))"

definition on_presence_answer :: "bool \<Rightarrow> json \<Rightarrow> presence \<Rightarrow> presence" where
  "on_presence_answer ok j s = (if ok then applyMany (presence_items j) s else s)"

definition clear :: "presence \<Rightarrow> presence" where
  "clear s =
     emit (stopWatchRefresh (s\<lparr>pr_denied := False, pr_watchTimer := False\<rparr>)
       \<lparr>pr_byUser := (\<lambda>_. None), pr_surfaces := [], pr_connectionId := None, pr_acceptSurfaces := False,
        pr_sessionEpoch := pr_sessionEpoch s + 1\<rparr>)"

datatype pr_event =
    SetConnection "js_string option"
  | Apply presence_snapshot
  | ApplyMany "presence_snapshot list"
  | Register js_string "js_string list"
  | Unregister js_string
  | WatchFires
  | RefreshFires
  | MutationAnswer nat
  | PresenceAnswer bool json
  | Clear

definition pr_step :: "pr_event \<Rightarrow> presence \<Rightarrow> presence" where
  "pr_step ev s =
     (case ev of
        SetConnection c \<Rightarrow> setConnectionId c s
      | Apply x \<Rightarrow> applySnapshot x s
      | ApplyMany xs \<Rightarrow> applyMany xs s
      | Register k us \<Rightarrow> registerSurface k us s
      | Unregister k \<Rightarrow> unregisterSurface k s
      | WatchFires \<Rightarrow> if pr_watchTimer s then syncWatch (s\<lparr>pr_watchTimer := False\<rparr>) else s
      | RefreshFires \<Rightarrow> if pr_refreshTimer s then resyncSnapshots (syncWatch s) else s
      | MutationAnswer status \<Rightarrow> on_mutation_answer status s
      | PresenceAnswer ok j \<Rightarrow> on_presence_answer ok j s
      | Clear \<Rightarrow> clear s)"

definition pr_run :: "pr_event list \<Rightarrow> presence" where
  "pr_run evs = fold pr_step evs new_store"

section \<open>The watch list\<close>

lemma set_add_set [simp]: "set (set_add u out) = insert u (set out)"
  by (auto simp: set_add_def)

lemma set_add_distinct: "distinct out \<Longrightarrow> distinct (set_add u out)"
  by (simp add: set_add_def)

lemma fold_set_add: "\<exists>zs. fold set_add us out = out @ zs"
proof (induction us arbitrary: out)
  case (Cons u us)
  from Cons [of "set_add u out"] show ?case by (auto simp: set_add_def)
qed simp

lemma fold_set_add_set [simp]: "set (fold set_add us out) = set us \<union> set out"
  by (induction us arbitrary: out) auto

lemma fold_set_add_distinct: "distinct out \<Longrightarrow> distinct (fold set_add us out)"
  by (induction us arbitrary: out) (auto intro: set_add_distinct)

lemma fold_set_add_length: "length (fold set_add us out) \<le> length out + length us"
proof (induction us arbitrary: out)
  case (Cons u us)
  from Cons [of "set_add u out"] show ?case by (auto simp: set_add_def split: if_splits)
qed simp

lemma set_add_length: "length (set_add u out) \<le> Suc (length out)"
  by (simp add: set_add_def)

lemma take_fold_full: "length out = n \<Longrightarrow> take n (fold set_add us out) = out"
  using fold_set_add [of us out] by auto

lemma add_from_take:
  "length out < PRESENCE_MAX_WATCH \<Longrightarrow> add_from us out = take PRESENCE_MAX_WATCH (fold set_add us out)"
proof (induction us arbitrary: out)
  case (Cons u us)
  show ?case
  proof (cases "length (set_add u out) \<ge> PRESENCE_MAX_WATCH")
    case True
    with Cons.prems have "length (set_add u out) = PRESENCE_MAX_WATCH"
      using set_add_length [of u out] by simp
    with True show ?thesis by (simp add: take_fold_full)
  next
    case False
    with Cons.IH [of "set_add u out"] show ?thesis by simp
  qed
qed simp

lemma add_sets_take:
  "length out < PRESENCE_MAX_WATCH \<Longrightarrow>
   add_sets uss out = take PRESENCE_MAX_WATCH (fold set_add (concat uss) out)"
proof (induction uss arbitrary: out)
  case (Cons us uss)
  let ?all = "fold set_add us out"
  note f = add_from_take [OF Cons.prems, of us]
  show ?case
  proof (cases "length ?all \<ge> PRESENCE_MAX_WATCH")
    case True
    moreover obtain zs where "fold set_add (concat uss) ?all = ?all @ zs" using fold_set_add by blast
    ultimately show ?thesis by (simp add: f)
  next
    case False
    then have "add_from us out = ?all" by (simp add: f)
    with False Cons.IH [of ?all] show ?thesis by simp
  qed
qed simp

definition ordered_surfaces :: "(js_string \<times> js_string list) list \<Rightarrow> js_string list list" where
  "ordered_surfaces sf = priority_sets sf @ other_sets sf"

lemma merged_watch_list:
  "mergedWatchUuids s = take PRESENCE_MAX_WATCH (js_set (concat (ordered_surfaces (pr_surfaces s))))"
proof -
  let ?p = "fold set_add (concat (priority_sets (pr_surfaces s))) []"
  have pos: "length ([] :: js_string list) < PRESENCE_MAX_WATCH" by (simp add: PRESENCE_MAX_WATCH_def)
  note first = add_sets_take [OF pos, of "priority_sets (pr_surfaces s)"]
  show ?thesis
  proof (cases "length ?p \<ge> PRESENCE_MAX_WATCH")
    case True
    obtain zs where "fold set_add (concat (other_sets (pr_surfaces s))) ?p = ?p @ zs" using fold_set_add by blast
    with True first show ?thesis by (simp add: mergedWatchUuids_def js_set_def ordered_surfaces_def Let_def)
  next
    case False
    then have "add_sets (priority_sets (pr_surfaces s)) [] = ?p" using first by simp
    with False show ?thesis
      by (simp add: mergedWatchUuids_def js_set_def ordered_surfaces_def Let_def add_sets_take)
  qed
qed

lemma js_set_distinct [simp]: "distinct (js_set us)"
  by (simp add: js_set_def fold_set_add_distinct)

lemma js_set_set [simp]: "set (js_set us) = set us"
  by (simp add: js_set_def)

lemma js_set_length: "length (js_set us) \<le> length us"
  using fold_set_add_length [of us "[]"] by (simp add: js_set_def)

lemma merged_bounded: "length (mergedWatchUuids s) \<le> PRESENCE_MAX_WATCH"
  by (simp add: merged_watch_list)

lemma ordered_surfaces_set:
  "distinct (map fst sf) \<Longrightarrow> set (ordered_surfaces sf) = snd ` set sf"
  by (force simp: ordered_surfaces_def priority_sets_def other_sets_def List.map_filter_def image_iff
      dest: map_of_SomeD split: option.splits)

section \<open>The invariant of the store\<close>

definition last_watch :: "request list \<Rightarrow> (js_string \<times> js_string list) option" where
  "last_watch rs = fold (\<lambda>r acc. case r of Watch c us \<Rightarrow> Some (c, us) | _ \<Rightarrow> acc) rs None"

lemma last_watch_snoc [simp]:
  "last_watch (rs @ [Watch c us]) = Some (c, us)" "last_watch (rs @ [GetPresence us]) = last_watch rs"
  by (simp_all add: last_watch_def)

definition good_surface :: "js_string list \<Rightarrow> bool" where
  "good_surface us \<longleftrightarrow> distinct us \<and> [] \<notin> set us \<and> length us \<le> PRESENCE_MAX_WATCH"

definition surfaces_ok :: "presence \<Rightarrow> bool" where
  "surfaces_ok s \<longleftrightarrow> distinct (map fst (pr_surfaces s)) \<and> list_all (\<lambda>(k, us). good_surface us) (pr_surfaces s)"

definition timers_ok :: "presence \<Rightarrow> bool" where
  "timers_ok s \<longleftrightarrow>
     (pr_refreshTimer s \<longleftrightarrow> truthy (pr_connectionId s) \<and> pr_surfaces s \<noteq> []) \<and>
     (\<not> pr_acceptSurfaces s \<longrightarrow> pr_surfaces s = [] \<and> \<not> truthy (pr_connectionId s))"

text \<open>What the server was told last is the current list, or a timer is armed that will tell it.\<close>

definition watch_ok :: "presence \<Rightarrow> bool" where
  "watch_ok s \<longleftrightarrow>
     (truthy (pr_connectionId s) \<and> \<not> pr_denied s \<longrightarrow>
      pr_watchTimer s \<or> last_watch (pr_sent s) = Some (the (pr_connectionId s), mergedWatchUuids s))"

definition pr_ok :: "presence \<Rightarrow> bool" where
  "pr_ok s \<longleftrightarrow> surfaces_ok s \<and> timers_ok s \<and> watch_ok s"

lemmas pr_ok_defs = pr_ok_def timers_ok_def watch_ok_def

lemma merged_update [simp]:
  "mergedWatchUuids (s\<lparr>pr_watchTimer := b\<rparr>) = mergedWatchUuids s"
  "mergedWatchUuids (s\<lparr>pr_refreshTimer := b\<rparr>) = mergedWatchUuids s"
  "mergedWatchUuids (s\<lparr>pr_denied := b\<rparr>) = mergedWatchUuids s"
  "mergedWatchUuids (s\<lparr>pr_emits := n\<rparr>) = mergedWatchUuids s"
  "mergedWatchUuids (s\<lparr>pr_byUser := m\<rparr>) = mergedWatchUuids s"
  "mergedWatchUuids (s\<lparr>pr_sent := rs\<rparr>) = mergedWatchUuids s"
  by (simp_all add: mergedWatchUuids_def Let_def)

lemma surfaces_ok_cong: "pr_surfaces s' = pr_surfaces s \<Longrightarrow> surfaces_ok s' = surfaces_ok s"
  by (simp add: surfaces_ok_def)

text \<open>Applying snapshots touches the map and the listeners only.\<close>

lemma apply_items_frame:
  "apply_items xs (s, b) = (s', b') \<Longrightarrow> \<exists>m. s' = s\<lparr>pr_byUser := m\<rparr>"
proof (induction xs arbitrary: s b)
  case Nil
  then show ?case by (intro exI [of _ "pr_byUser s"]) simp
next
  case (Cons x xs)
  then show ?case by (fastforce simp: put_snapshot_def split: if_splits)
qed

lemma applyMany_frame: "\<exists>m n. applyMany xs s = s\<lparr>pr_byUser := m, pr_emits := n\<rparr>"
proof -
  obtain s' b where a: "apply_items xs (s, False) = (s', b)" by fastforce
  then obtain m where "s' = s\<lparr>pr_byUser := m\<rparr>" using apply_items_frame by blast
  with a show ?thesis
    by (intro exI [of _ m] exI [of _ "if b then pr_emits s + 1 else pr_emits s"])
      (simp add: applyMany_def emit_def)
qed

lemma frame_ok: "pr_ok s \<Longrightarrow> pr_ok (s\<lparr>pr_byUser := m, pr_emits := n\<rparr>)"
  by (simp add: pr_ok_defs surfaces_ok_def)

lemma applyMany_ok: "pr_ok s \<Longrightarrow> pr_ok (applyMany xs s)"
  using applyMany_frame [of xs s] frame_ok by fastforce

lemma applySnapshot_ok: "pr_ok s \<Longrightarrow> pr_ok (applySnapshot x s)"
  using frame_ok [where s = s and m = "(pr_byUser s)(ps_user x \<mapsto> x)" and n = "pr_emits s + 1"]
  by (simp add: applySnapshot_def put_snapshot_def emit_def)

lemma setConnectionId_ok: "pr_ok s \<Longrightarrow> pr_ok (setConnectionId c s)"
  by (auto simp: pr_ok_defs surfaces_ok_def setConnectionId_def ensureWatchRefresh_def scheduleWatchSync_def
      stopWatchRefresh_def emit_def Let_def)

lemma good_js_set: "good_surface (js_set (take PRESENCE_MAX_WATCH (filter (\<lambda>u. u \<noteq> []) us)))"
proof -
  let ?f = "filter (\<lambda>u. u \<noteq> []) us"
  have "[] \<notin> set (take PRESENCE_MAX_WATCH ?f)" by (auto dest: in_set_takeD)
  moreover have "length (js_set (take PRESENCE_MAX_WATCH ?f)) \<le> PRESENCE_MAX_WATCH"
    using js_set_length [of "take PRESENCE_MAX_WATCH ?f"] by simp
  ultimately show ?thesis by (simp add: good_surface_def)
qed

lemma update_good:
  "list_all (\<lambda>(k, us). good_surface us) sf \<Longrightarrow> good_surface v \<Longrightarrow>
   list_all (\<lambda>(k, us). good_surface us) (AList.update k v sf)"
  by (induction sf) auto

lemma registerSurface_ok: "pr_ok s \<Longrightarrow> pr_ok (registerSurface k us s)"
  using update_good [OF _ good_js_set, of "pr_surfaces s" k us]
  by (auto simp: pr_ok_defs surfaces_ok_def registerSurface_def ensureWatchRefresh_def scheduleWatchSync_def
      distinct_update)

lemma delete_good:
  "list_all (\<lambda>(k, us). good_surface us) sf \<Longrightarrow> list_all (\<lambda>(k, us). good_surface us) (AList.delete k sf)"
  by (auto simp: AList.delete_eq list_all_iff)

lemma unregisterSurface_ok: "pr_ok s \<Longrightarrow> pr_ok (unregisterSurface k s)"
  using delete_good [of "pr_surfaces s" k]
  by (auto simp: pr_ok_defs surfaces_ok_def unregisterSurface_def scheduleWatchSync_def stopWatchRefresh_def Let_def
      distinct_delete)

lemma syncWatch_ok: "pr_ok s \<Longrightarrow> pr_ok (syncWatch (s\<lparr>pr_watchTimer := b\<rparr>))"
  using merged_bounded [of s]
  by (auto simp: pr_ok_defs surfaces_ok_def syncWatch_def apiPresenceWatch_def send_def)

lemma resync_ok: "pr_ok s \<Longrightarrow> pr_ok (resyncSnapshots s)"
  by (auto simp: pr_ok_defs surfaces_ok_def resyncSnapshots_def apiGetPresence_def send_def Let_def)

lemma clear_ok: "pr_ok (clear s)"
  by (simp add: pr_ok_defs surfaces_ok_def clear_def emit_def stopWatchRefresh_def truthy_def)

lemma step_ok: "pr_ok s \<Longrightarrow> pr_ok (pr_step ev s)"
proof (cases ev)
  case RefreshFires
  assume ok: "pr_ok s"
  from syncWatch_ok [OF ok, of "pr_watchTimer s"] have "pr_ok (syncWatch s)" by simp
  with ok RefreshFires show ?thesis by (simp add: pr_step_def resync_ok)
next
  case (MutationAnswer status)
  then show "pr_ok s \<Longrightarrow> ?thesis"
    by (auto simp: pr_step_def on_mutation_answer_def pr_ok_defs surfaces_ok_def)
qed (auto simp: pr_step_def setConnectionId_ok applySnapshot_ok applyMany_ok registerSurface_ok unregisterSurface_ok
      syncWatch_ok on_presence_answer_def clear_ok)

lemma run_ok: "pr_ok (pr_run evs)"
proof -
  have "pr_ok s \<Longrightarrow> pr_ok (fold pr_step evs s)" for s
    by (induction evs arbitrary: s) (auto simp: step_ok)
  moreover have "pr_ok new_store" by (simp add: pr_ok_defs surfaces_ok_def new_store_def truthy_def)
  ultimately show ?thesis by (simp add: pr_run_def)
qed

section \<open>What is on display\<close>

text \<open>
  The peers on display, told from the events alone: a surface shows the peers it was registered with last (the
  first 100 of them that have a name), until it is unregistered or the store is cleared; a cleared store takes
  no surface before it has a connection again.
\<close>

type_synonym display = "js_string \<Rightarrow> js_string set option"

fun display_step :: "pr_event \<Rightarrow> bool \<times> display \<Rightarrow> bool \<times> display" where
  "display_step (SetConnection c) (open, d) = (open \<or> truthy c, d)"
| "display_step (Register k us) (open, d) =
     (open, if open then d(k \<mapsto> set (take 100 (filter (\<lambda>u. u \<noteq> []) us))) else d)"
| "display_step (Unregister k) (open, d) = (open, d(k := None))"
| "display_step Clear (open, d) = (False, \<lambda>_. None)"
| "display_step ev (open, d) = (open, d)"

definition display :: "pr_event list \<Rightarrow> display" where
  "display evs = snd (fold display_step evs (True, \<lambda>_. None))"

definition on_display :: "display \<Rightarrow> js_string set \<Rightarrow> js_string set" where
  "on_display d ks = \<Union> (ran (d |` ks))"

text \<open>The store keeps exactly this.\<close>

definition surface_map :: "presence \<Rightarrow> display" where
  "surface_map s k = map_option set (map_of (pr_surfaces s) k)"

lemma surface_map_frame: "pr_surfaces s' = pr_surfaces s \<Longrightarrow> surface_map s' = surface_map s"
  by (simp add: surface_map_def fun_eq_iff)

lemma surface_map_update:
  "surface_map (s\<lparr>pr_surfaces := AList.update k us (pr_surfaces s)\<rparr>) = (surface_map s)(k \<mapsto> set us)"
  by (simp add: surface_map_def fun_eq_iff update_conv')

lemma surface_map_delete:
  "surface_map (s\<lparr>pr_surfaces := AList.delete k (pr_surfaces s)\<rparr>) = (surface_map s)(k := None)"
  by (simp add: surface_map_def fun_eq_iff delete_conv')

lemma step_display:
  "(pr_acceptSurfaces (pr_step ev s), surface_map (pr_step ev s)) = display_step ev (pr_acceptSurfaces s, surface_map s)"
proof (cases ev)
  case (SetConnection c)
  then show ?thesis
    by (auto simp: pr_step_def setConnectionId_def Let_def ensureWatchRefresh_def scheduleWatchSync_def emit_def
        stopWatchRefresh_def intro!: surface_map_frame)
next
  case (Apply x)
  then show ?thesis by (auto simp: pr_step_def applySnapshot_def emit_def put_snapshot_def intro!: surface_map_frame)
next
  case (ApplyMany xs)
  obtain m n where "applyMany xs s = s\<lparr>pr_byUser := m, pr_emits := n\<rparr>" using applyMany_frame by blast
  with ApplyMany show ?thesis by (auto simp: pr_step_def intro!: surface_map_frame)
next
  case (Register k us)
  then show ?thesis
    using surface_map_update [where s = s and k = k and us = "js_set (take PRESENCE_MAX_WATCH (filter (\<lambda>u. u \<noteq> []) us))"]
    by (auto simp: pr_step_def registerSurface_def ensureWatchRefresh_def scheduleWatchSync_def
        PRESENCE_MAX_WATCH_def surface_map_def fun_eq_iff)
next
  case (Unregister k)
  show ?thesis
  proof (cases "k \<in> fst ` set (pr_surfaces s)")
    case True
    then have "surface_map (unregisterSurface k s) = surface_map (s\<lparr>pr_surfaces := AList.delete k (pr_surfaces s)\<rparr>)"
      by (intro surface_map_frame) (simp add: unregisterSurface_def Let_def scheduleWatchSync_def stopWatchRefresh_def)
    moreover have "pr_acceptSurfaces (unregisterSurface k s) = pr_acceptSurfaces s"
      by (simp add: unregisterSurface_def Let_def scheduleWatchSync_def stopWatchRefresh_def)
    ultimately show ?thesis using Unregister by (simp add: pr_step_def surface_map_delete)
  next
    case False
    then have "map_of (pr_surfaces s) k = None" by (simp add: map_of_eq_None_iff)
    with False Unregister show ?thesis by (auto simp: pr_step_def unregisterSurface_def surface_map_def)
  qed
next
  case WatchFires
  then show ?thesis
    by (auto simp: pr_step_def syncWatch_def apiPresenceWatch_def send_def intro!: surface_map_frame)
next
  case RefreshFires
  then show ?thesis
    by (auto simp: pr_step_def syncWatch_def resyncSnapshots_def apiPresenceWatch_def apiGetPresence_def send_def Let_def
        intro!: surface_map_frame)
next
  case (MutationAnswer status)
  then show ?thesis by (auto simp: pr_step_def on_mutation_answer_def intro!: surface_map_frame)
next
  case (PresenceAnswer ok j)
  obtain m n where "applyMany (presence_items j) s = s\<lparr>pr_byUser := m, pr_emits := n\<rparr>" using applyMany_frame by blast
  with PresenceAnswer show ?thesis by (auto simp: pr_step_def on_presence_answer_def intro!: surface_map_frame)
next
  case Clear
  then show ?thesis by (auto simp: pr_step_def clear_def emit_def surface_map_def)
qed

lemma run_display: "surface_map (pr_run evs) = display evs"
proof -
  have "(pr_acceptSurfaces (fold pr_step evs s), surface_map (fold pr_step evs s)) =
        fold display_step evs (pr_acceptSurfaces s, surface_map s)" for s
    by (induction evs arbitrary: s) (simp_all flip: step_display)
  moreover have "surface_map new_store = (\<lambda>_. None)" "pr_acceptSurfaces new_store"
    by (simp_all add: new_store_def surface_map_def fun_eq_iff)
  ultimately show ?thesis by (metis display_def pr_run_def snd_conv)
qed

lemma on_display_surfaces:
  assumes "distinct (map fst (pr_surfaces s))"
  shows "on_display (surface_map s) ks = \<Union> (set ` snd ` {p \<in> set (pr_surfaces s). fst p \<in> ks})"
  using assms by (force simp: on_display_def surface_map_def ran_def restrict_map_def)

lemma priority_sets_set:
  "distinct (map fst sf) \<Longrightarrow> set (priority_sets sf) = snd ` {p \<in> set sf. fst p \<in> set SURFACE_PRIORITY}"
  by (force simp: priority_sets_def List.map_filter_def image_iff dest: map_of_SomeD split: option.splits)

text \<open>The list that is sent holds all of them as far as a request has room for them.\<close>

lemma merged_on_display:
  fixes s :: presence
  assumes "surfaces_ok s"
  defines "all \<equiv> on_display (surface_map s) UNIV" and "first \<equiv> on_display (surface_map s) (set SURFACE_PRIORITY)"
  shows "set (mergedWatchUuids s) \<subseteq> all \<and> distinct (mergedWatchUuids s) \<and>
    length (mergedWatchUuids s) = min 100 (card all) \<and>
    (if card first \<le> 100 then first \<subseteq> set (mergedWatchUuids s) else set (mergedWatchUuids s) \<subseteq> first)"
proof -
  let ?sf = "pr_surfaces s"
  let ?p = "js_set (concat (priority_sets ?sf))" and ?all = "js_set (concat (ordered_surfaces ?sf))"
  have d: "distinct (map fst ?sf)" using assms(1) by (simp add: surfaces_ok_def)
  have all: "set ?all = all" unfolding all_def on_display_surfaces [OF d] by (simp add: ordered_surfaces_set [OF d])
  have first: "set ?p = first" unfolding first_def on_display_surfaces [OF d] by (simp add: priority_sets_set [OF d])
  obtain zs where zs: "?all = ?p @ zs"
    using fold_set_add [of "concat (other_sets ?sf)" ?p] by (auto simp: js_set_def ordered_surfaces_def)
  have m: "mergedWatchUuids s = take 100 ?all" by (simp add: merged_watch_list PRESENCE_MAX_WATCH_def)
  have card: "card all = length ?all" "card first = length ?p"
    using distinct_card [of ?all] distinct_card [of ?p] all first by simp_all
  have "set (take 100 ?all) \<subseteq> all" using all set_take_subset by metis
  moreover have "if card first \<le> 100 then first \<subseteq> set (take 100 ?all) else set (take 100 ?all) \<subseteq> first"
    using first card(2) zs set_take_subset [of 100 ?p] by auto
  ultimately show ?thesis using card(1) by (simp add: m)
qed

text \<open>
  C27. The server knows whom to report: while the store has a connection and no presence request was refused with 403,
  either the timer is armed that will send the watch list, or the last list that was sent names this connection and
  tells the peers on display: each once, at most 100, all of them when they are no more than that, and of
  the five surfaces with priority first. The periodic renewal runs exactly while something is on display.
\<close>

theorem watch_is_up_to_date:
  assumes "truthy (pr_connectionId (pr_run evs))" "\<not> pr_denied (pr_run evs)"
  shows "(pr_watchTimer (pr_run evs) \<or>
      (\<exists>us. last_watch (pr_sent (pr_run evs)) = Some (the (pr_connectionId (pr_run evs)), us) \<and>
        set us \<subseteq> on_display (display evs) UNIV \<and> distinct us \<and> length us = min 100 (card (on_display (display evs) UNIV)) \<and>
        (if card (on_display (display evs) (set SURFACE_PRIORITY)) \<le> 100
         then on_display (display evs) (set SURFACE_PRIORITY) \<subseteq> set us
         else set us \<subseteq> on_display (display evs) (set SURFACE_PRIORITY)))) \<and>
    (pr_refreshTimer (pr_run evs) \<longleftrightarrow> dom (display evs) \<noteq> {})"
proof -
  have ok: "surfaces_ok (pr_run evs)" using run_ok [of evs] by (simp add: pr_ok_def)
  have "watch_ok (pr_run evs)" "timers_ok (pr_run evs)" using run_ok [of evs] by (simp_all add: pr_ok_def)
  then have w: "pr_watchTimer (pr_run evs) \<or>
      last_watch (pr_sent (pr_run evs)) = Some (the (pr_connectionId (pr_run evs)), mergedWatchUuids (pr_run evs))"
    and f: "pr_refreshTimer (pr_run evs) \<longleftrightarrow> pr_surfaces (pr_run evs) \<noteq> []"
    using assms by (simp_all add: watch_ok_def timers_ok_def)
  have "dom (display evs) = fst ` set (pr_surfaces (pr_run evs))"
    unfolding run_display [symmetric] by (auto simp: surface_map_def dom_map_of_conv_image_fst [symmetric] dom_def)
  with f have "pr_refreshTimer (pr_run evs) \<longleftrightarrow> dom (display evs) \<noteq> {}" by simp
  with w merged_on_display [OF ok, unfolded run_display] show ?thesis by blast
qed

section \<open>Snapshots of one peer\<close>

definition hidden :: "presence_snapshot \<Rightarrow> bool" where
  "hidden x \<longleftrightarrow> \<not> ps_online x \<and> \<not> truthy (ps_seen x)"

lemma fold_applySnapshot_cong:
  "pr_byUser s1 = pr_byUser s2 \<Longrightarrow> pr_byUser (fold applySnapshot xs s1) = pr_byUser (fold applySnapshot xs s2)"
proof (induction xs arbitrary: s1 s2)
  case (Cons x xs)
  from Cons.prems have "pr_byUser (applySnapshot x s1) = pr_byUser (applySnapshot x s2)"
    by (simp add: applySnapshot_def wins_def put_snapshot_def emit_def)
  from Cons.IH [OF this] show ?case by simp
qed simp

lemma apply_items_user:
  "pr_byUser (fst (apply_items xs (s, b))) = pr_byUser (fold applySnapshot xs s)"
proof (induction xs arbitrary: s b)
  case (Cons x xs)
  have "pr_byUser (fold applySnapshot xs (put_snapshot x s)) = pr_byUser (fold applySnapshot xs (emit (put_snapshot x s)))"
    by (rule fold_applySnapshot_cong) (simp add: emit_def)
  with Cons show ?case by (simp add: applySnapshot_def [of x s])
qed simp

lemma applyMany_user: "pr_byUser (applyMany xs s) = pr_byUser (fold applySnapshot xs s)"
  using apply_items_user [of xs s False]
  by (cases "apply_items xs (s, False)") (auto simp: applyMany_def emit_def)

text \<open>
  A hidden peer shows as offline: once a snapshot that is offline without a time arrives, the badge is
  off and no time is shown, whatever was stored before and whatever the caller's own record says.
\<close>

theorem hidden_peer_shows_nothing:
  assumes "hidden x"
  shows "overlayOnline (applySnapshot x s) (ps_user x) dtoOnline dtoLastSeen = (False, None)"
  using assms
  by (auto simp: overlayOnline_def applySnapshot_def wins_def put_snapshot_def emit_def hidden_def shouldApply_def
      truthy_def split: option.splits)

definition at_least :: "js_string \<Rightarrow> presence_snapshot \<Rightarrow> bool" where
  "at_least t x \<longleftrightarrow> truthy (ps_seen x) \<and> \<not> js_less (the (ps_seen x)) t"

lemma applySnapshot_user:
  "pr_byUser (applySnapshot x s) u =
     (if u = ps_user x \<and> wins s x then Some x else pr_byUser s u)"
  by (simp add: applySnapshot_def put_snapshot_def emit_def)

lemma applySnapshot_at_least:
  "pr_byUser s u = Some p \<Longrightarrow> at_least t p \<Longrightarrow> \<not> (ps_user x = u \<and> hidden x) \<Longrightarrow>
   \<exists>q. pr_byUser (applySnapshot x s) u = Some q \<and> at_least t q"
  using js_not_less_trans [of "the (ps_seen x)" "the (ps_seen p)" t] js_not_less_trans
  by (auto simp: applySnapshot_user wins_def shouldApply_def at_least_def hidden_def split: if_splits)

text \<open>
  Time does not run backwards: unless the peer hides, no batch of snapshots, in any order and with any
  delays, replaces the time a peer was last seen by an earlier one or by none.
\<close>

theorem last_seen_never_goes_back:
  assumes "pr_byUser s u = Some p" "truthy (ps_seen p)" "list_all (\<lambda>x. ps_user x = u \<longrightarrow> \<not> hidden x) xs"
  shows "\<exists>q. pr_byUser (applyMany xs s) u = Some q \<and> truthy (ps_seen q) \<and>
             \<not> js_less (the (ps_seen q)) (the (ps_seen p))"
proof -
  have "\<exists>q. pr_byUser (fold applySnapshot xs s) u = Some q \<and> at_least t q"
    if "pr_byUser s u = Some p" "at_least t p" "list_all (\<lambda>x. ps_user x = u \<longrightarrow> \<not> hidden x) xs" for t s p
    using that
  proof (induction xs arbitrary: s p)
    case (Cons x xs)
    then obtain q where "pr_byUser (applySnapshot x s) u = Some q" "at_least t q"
      using applySnapshot_at_least [of s u p t x] by auto
    with Cons show ?case by simp
  qed simp
  from this [OF assms(1) _ assms(3), of "the (ps_seen p)"] assms(2) show ?thesis
    by (auto simp: applyMany_user at_least_def)
qed

section \<open>Concrete runs\<close>

definition peer :: "string \<Rightarrow> bool \<Rightarrow> js_string option \<Rightarrow> presence_snapshot" where
  "peer u on seen = \<lparr>ps_user = js u, ps_online = on, ps_seen = seen\<rparr>"

lemma watch_is_up_to_date_witness:
  "let evs = [Register (js ''people'') [js ''a'', [], js ''b'', js ''a''], SetConnection (Some (js ''c'')), WatchFires]
   in pr_sent (pr_run evs) = [Watch (js ''c'') [js ''a'', js ''b'']] \<and>
      length [js ''a'', js ''b''] = min 100 (card (on_display (display evs) UNIV))"
proof -
  let ?evs = "[Register (js ''people'') [js ''a'', [], js ''b'', js ''a''], SetConnection (Some (js ''c'')), WatchFires]"
  have r: "pr_connectionId (pr_run ?evs) = Some (js ''c'')" "\<not> pr_denied (pr_run ?evs)" "\<not> pr_watchTimer (pr_run ?evs)"
      "pr_sent (pr_run ?evs) = [Watch (js ''c'') [js ''a'', js ''b'']]"
    by code_simp+
  then have "truthy (pr_connectionId (pr_run ?evs))" by (simp add: truthy_def)
  from watch_is_up_to_date [OF this r(2)] r(3)
  obtain us where "last_watch (pr_sent (pr_run ?evs)) = Some (the (pr_connectionId (pr_run ?evs)), us)"
      "length us = min 100 (card (on_display (display ?evs) UNIV))"
    by blast
  then have "length [js ''a'', js ''b''] = min 100 (card (on_display (display ?evs) UNIV))"
    unfolding r(4) by (simp add: last_watch_def)
  with r(4) show ?thesis unfolding Let_def by blast
qed

lemma hidden_peer_shows_nothing_witness:
  "hidden (peer ''a'' False None) \<and>
   overlayOnline (applySnapshot (peer ''a'' False None) (applySnapshot (peer ''a'' True (Some (js ''09:00''))) new_store))
     (js ''a'') True (Some (js ''10:00'')) = (False, None)"
  using hidden_peer_shows_nothing [of "peer ''a'' False None"
      "applySnapshot (peer ''a'' True (Some (js ''09:00''))) new_store" True "Some (js ''10:00'')"]
  by (simp add: hidden_def peer_def truthy_def)

lemma last_seen_never_goes_back_witness:
  "let s = applySnapshot (peer ''a'' True (Some (js ''09:00''))) new_store;
       xs = [peer ''a'' False (Some (js ''08:00'')), peer ''b'' False None, peer ''a'' True None]
   in \<exists>q. pr_byUser (applyMany xs s) (js ''a'') = Some q \<and> truthy (ps_seen q) \<and>
          \<not> js_less (the (ps_seen q)) (js ''09:00'')"
  using last_seen_never_goes_back [of "applySnapshot (peer ''a'' True (Some (js ''09:00''))) new_store" "js ''a''"
      "peer ''a'' True (Some (js ''09:00''))"
      "[peer ''a'' False (Some (js ''08:00'')), peer ''b'' False None, peer ''a'' True None]"]
  by (simp add: peer_def applySnapshot_user wins_def new_store_def truthy_def hidden_def)

text \<open>
  An answer that arrives after \<open>clear()\<close> is not tied to the session that asked: a late refusal mutes the next
  session, and a late list of snapshots refills the store that was just emptied.
\<close>

lemma late_refusal_mutes_next_session:
  "let s = pr_run [SetConnection (Some (js ''c'')), Register (js ''people'') [js ''a''], WatchFires, Clear,
                   MutationAnswer 403, SetConnection (Some (js ''d'')), Register (js ''people'') [js ''b''], WatchFires]
   in pr_denied s \<and> pr_connectionId s = Some (js ''d'') \<and> pr_sent s = [Watch (js ''c'') [js ''a'']]"
  by code_simp

lemma late_snapshots_refill_store:
  "pr_byUser (pr_run [Clear, PresenceAnswer True
      (JArr [JObj [(js ''userUuid'', JStr (js ''a'')), (js ''isOnline'', JBool True)]])]) (js ''a'') \<noteq> None"
  by code_simp

end
