(* ===== verification/Presence_Activity.thy ===== *)
theory Presence_Activity
  imports Flora_Prelude
begin

text \<open>
  What a client tells others about its own activity: the typing signals
  (\<open>packages/flora-client-core/src/presence/typingEmitter.ts\<close>) and the heartbeat in the foreground
  (\<open>startPresenceHeartbeat\<close> in \<open>presence/store.ts\<close>). Both are machines over timed events; times are
  milliseconds of the host's clock.
\<close>

section \<open>Typing\<close>

definition PRESENCE_TYPING_IDLE_MS :: nat where
  "PRESENCE_TYPING_IDLE_MS = 3000"

definition PRESENCE_TYPING_REFRESH_MS :: nat where
  "PRESENCE_TYPING_REFRESH_MS = 1000"

definition PRESENCE_TYPING_PEER_TTL_MS :: nat where
  "PRESENCE_TYPING_PEER_TTL_MS = 4000"

text \<open>\<open>ty_idle\<close> is when the armed timer is due; \<open>ty_posts\<close> is what \<open>postTyping\<close> was called with, and when.\<close>

record typing =
  ty_active :: bool
  ty_lastTrueAt :: nat
  ty_idle :: "nat option"
  ty_disposed :: bool
  ty_posts :: "(nat \<times> bool) list"

definition createTypingEmitter :: typing where
  "createTypingEmitter =
     \<lparr>ty_active = False, ty_lastTrueAt = 0, ty_idle = None, ty_disposed = False, ty_posts = []\<rparr>"

definition clearIdle :: "typing \<Rightarrow> typing" where
  "clearIdle s = s\<lparr>ty_idle := None\<rparr>"

definition postTrue :: "nat \<Rightarrow> typing \<Rightarrow> typing" where
  "postTrue t s = s\<lparr>ty_lastTrueAt := t, ty_posts := ty_posts s @ [(t, True)]\<rparr>"

definition postFalse :: "nat \<Rightarrow> typing \<Rightarrow> typing" where
  "postFalse t s = s\<lparr>ty_posts := ty_posts s @ [(t, False)]\<rparr>"

definition armIdle :: "nat \<Rightarrow> typing \<Rightarrow> typing" where
  "armIdle t s = (clearIdle s)\<lparr>ty_idle := Some (t + PRESENCE_TYPING_IDLE_MS)\<rparr>"

definition idle_fires :: "nat \<Rightarrow> typing \<Rightarrow> typing" where
  "idle_fires t s =
     (if ty_idle s = None then s
      else let s1 = s\<lparr>ty_idle := None\<rparr>
           in if \<not> ty_active s1 \<or> ty_disposed s1 then s1 else postFalse t (s1\<lparr>ty_active := False\<rparr>))"

definition stop_typing :: "nat \<Rightarrow> typing \<Rightarrow> typing" where
  "stop_typing t s =
     (let s1 = clearIdle s
      in if \<not> ty_active s1 then s1
         else let s2 = s1\<lparr>ty_active := False\<rparr> in if \<not> ty_disposed s2 then postFalse t s2 else s2)"

definition onText :: "js_string \<Rightarrow> nat \<Rightarrow> typing \<Rightarrow> typing" where
  "onText text t s =
     (if ty_disposed s then s
      else if trim text = [] then stop_typing t s
      else let s1 = armIdle t s
           in if \<not> ty_active s1 \<or> t - ty_lastTrueAt s1 \<ge> PRESENCE_TYPING_REFRESH_MS
              then postTrue t (s1\<lparr>ty_active := True\<rparr>)
              else s1\<lparr>ty_active := True\<rparr>)"

definition dispose_typing :: "nat \<Rightarrow> typing \<Rightarrow> typing" where
  "dispose_typing t s = (if ty_disposed s then s else (stop_typing t s)\<lparr>ty_disposed := True\<rparr>)"

datatype typing_event = Text js_string | StopTyping | Dispose | IdleFires

definition typing_step :: "nat \<times> typing_event \<Rightarrow> typing \<Rightarrow> typing" where
  "typing_step ev s =
     (case ev of
        (t, Text text) \<Rightarrow> onText text t s
      | (t, StopTyping) \<Rightarrow> stop_typing t s
      | (t, Dispose) \<Rightarrow> dispose_typing t s
      | (t, IdleFires) \<Rightarrow> idle_fires t s)"

definition typing_run :: "(nat \<times> typing_event) list \<Rightarrow> typing" where
  "typing_run evs = fold typing_step evs createTypingEmitter"

subsection \<open>The protocol of the posts\<close>

text \<open>
  What the server sees: a start, repeated at most once a second, then one stop. The state is the time of the
  last start while the client counts as typing.
\<close>

fun typing_protocol :: "(nat \<times> bool) list \<Rightarrow> nat option \<Rightarrow> nat option option" where
  "typing_protocol [] st = Some st"
| "typing_protocol ((t, True) # ps) None = typing_protocol ps (Some t)"
| "typing_protocol ((t, True) # ps) (Some l) =
     (if t - l \<ge> PRESENCE_TYPING_REFRESH_MS then typing_protocol ps (Some t) else None)"
| "typing_protocol ((t, False) # ps) (Some l) = typing_protocol ps None"
| "typing_protocol ((t, False) # ps) None = None"

lemma typing_protocol_append [simp]:
  "typing_protocol (ps @ qs) st = Option.bind (typing_protocol ps st) (typing_protocol qs)"
  by (induction ps st rule: typing_protocol.induct) auto

definition typing_ok :: "typing \<Rightarrow> bool" where
  "typing_ok s \<longleftrightarrow>
     typing_protocol (ty_posts s) None = Some (if ty_active s then Some (ty_lastTrueAt s) else None) \<and>
     (case ty_idle s of
        None \<Rightarrow> \<not> ty_active s
      | Some d \<Rightarrow> ty_active s \<and> d < ty_lastTrueAt s + PRESENCE_TYPING_PEER_TTL_MS) \<and>
     (ty_disposed s \<longrightarrow> \<not> ty_active s)"

lemmas typing_defs = clearIdle_def postTrue_def postFalse_def armIdle_def idle_fires_def stop_typing_def
  onText_def dispose_typing_def Let_def PRESENCE_TYPING_IDLE_MS_def PRESENCE_TYPING_REFRESH_MS_def
  PRESENCE_TYPING_PEER_TTL_MS_def

lemma stop_ok: "typing_ok s \<Longrightarrow> typing_ok (stop_typing t s)"
  by (auto simp: typing_ok_def typing_defs split: option.splits)

lemma onText_ok: "typing_ok s \<Longrightarrow> typing_ok (onText text t s)"
  using stop_ok [of s t] by (auto simp: typing_ok_def typing_defs split: option.splits if_splits)

lemma typing_step_ok: "typing_ok s \<Longrightarrow> typing_ok (typing_step ev s)"
  using stop_ok [of s "fst ev"] onText_ok
  by (cases ev; cases "snd ev")
    (auto simp: typing_step_def dispose_typing_def idle_fires_def Let_def, auto simp: typing_ok_def postFalse_def
      stop_typing_def clearIdle_def Let_def split: option.splits if_splits)

lemma typing_run_ok: "typing_ok (typing_run evs)"
proof -
  have "typing_ok s \<Longrightarrow> typing_ok (fold typing_step evs s)" for s
    by (induction evs arbitrary: s) (auto simp: typing_step_ok)
  then show ?thesis by (simp add: typing_run_def typing_ok_def createTypingEmitter_def)
qed

text \<open>
  The typing signals follow the protocol: whatever is typed, stopped, disposed or timed out, the posts are
  a start, repeated no sooner than every second, then a single stop; the emitter counts as typing exactly while
  the last post was a start, and exactly then the timer that will send the stop is armed.
\<close>

theorem typing_posts_follow_protocol:
  "typing_protocol (ty_posts (typing_run evs)) None =
     Some (if ty_active (typing_run evs) then Some (ty_lastTrueAt (typing_run evs)) else None) \<and>
   (ty_idle (typing_run evs) \<noteq> None \<longleftrightarrow> ty_active (typing_run evs))"
  using typing_run_ok [of evs] by (auto simp: typing_ok_def split: option.splits)

text \<open>
  A peer never sees a typist vanish: the peer drops the indicator 4 s after the last start it was told;
  while the emitter counts as typing its stop is due earlier than that.
\<close>

theorem typing_outlives_no_peer_timeout:
  assumes "ty_active (typing_run evs)"
  shows "\<exists>due. ty_idle (typing_run evs) = Some due \<and>
               due < ty_lastTrueAt (typing_run evs) + PRESENCE_TYPING_PEER_TTL_MS"
  using typing_run_ok [of evs] assms by (auto simp: typing_ok_def split: option.splits)

lemma typing_outlives_no_peer_timeout_witness:
  "let evs = [(10, Text (js ''h'')), (900, Text (js ''he''))]
   in ty_active (typing_run evs) \<and> ty_posts (typing_run evs) = [(10, True)] \<and>
      (\<exists>due. ty_idle (typing_run evs) = Some due \<and>
             due < ty_lastTrueAt (typing_run evs) + PRESENCE_TYPING_PEER_TTL_MS)"
proof -
  let ?evs = "[(10, Text (js ''h'')), (900, Text (js ''he''))]"
  have "ty_active (typing_run ?evs)" "ty_posts (typing_run ?evs) = [(10, True)]"
    by (simp_all add: typing_run_def typing_step_def typing_defs createTypingEmitter_def trim_def is_space_unit_def)
  then show ?thesis using typing_outlives_no_peer_timeout [of ?evs] by (simp add: Let_def)
qed

lemma disposed_posts_nothing:
  "ty_disposed s \<Longrightarrow> \<not> ty_active s \<Longrightarrow> ty_posts (fold typing_step evs s) = ty_posts s"
proof (induction evs arbitrary: s)
  case (Cons ev evs)
  have "ty_disposed (typing_step ev s) \<and> \<not> ty_active (typing_step ev s) \<and> ty_posts (typing_step ev s) = ty_posts s"
    using Cons.prems by (cases ev; cases "snd ev") (auto simp: typing_step_def typing_defs)
  with Cons.IH [of "typing_step ev s"] show ?case by simp
qed simp

section \<open>The heartbeat\<close>

definition PRESENCE_HEARTBEAT_MS :: nat where
  "PRESENCE_HEARTBEAT_MS = 2000"

definition PRESENCE_BACKGROUND_STOP_DEBOUNCE_MS :: nat where
  "PRESENCE_BACKGROUND_STOP_DEBOUNCE_MS = 800"

definition PRESENCE_FOREGROUND_CONFIRM_MS :: nat where
  "PRESENCE_FOREGROUND_CONFIRM_MS = 800"

text \<open>The timers hold when they are due next; \<open>hb_beats\<close> is when \<open>apiPresenceHeartbeat\<close> was called.\<close>

record heartbeat =
  hb_stopped :: bool
  hb_interval :: "nat option"
  hb_background :: "nat option"
  hb_foreground :: "nat option"
  hb_beats :: "nat list"

text \<open>
  What the host answers at an event: \<open>isVisible\<close> (\<open>None\<close> when the option is absent), \<open>enabled\<close> (true when
  absent) and the module flag \<open>presenceMutationsDenied\<close>.
\<close>

record host =
  ho_visible :: "bool option"
  ho_enabled :: bool
  ho_denied :: bool

definition stopInterval :: "heartbeat \<Rightarrow> heartbeat" where
  "stopInterval s = s\<lparr>hb_interval := None\<rparr>"

definition tick :: "host \<Rightarrow> nat \<Rightarrow> heartbeat \<Rightarrow> heartbeat" where
  "tick h t s =
     (if hb_stopped s then s
      else if ho_denied h then stopInterval s
      else if \<not> ho_enabled h then s
      else if ho_visible h = Some False then s
      else s\<lparr>hb_beats := hb_beats s @ [t]\<rparr>)"

definition startInterval :: "host \<Rightarrow> nat \<Rightarrow> heartbeat \<Rightarrow> heartbeat" where
  "startInterval h t s =
     (if hb_interval s \<noteq> None \<or> hb_stopped s then s
      else (tick h t s)\<lparr>hb_interval := Some (t + PRESENCE_HEARTBEAT_MS)\<rparr>)"

definition onVisibilityChange :: "host \<Rightarrow> nat \<Rightarrow> heartbeat \<Rightarrow> heartbeat" where
  "onVisibilityChange h t s =
     (if ho_visible h \<noteq> Some False then
        (let s1 = s\<lparr>hb_background := None\<rparr>
         in if hb_interval s1 \<noteq> None then s1
            else s1\<lparr>hb_foreground := Some (t + PRESENCE_FOREGROUND_CONFIRM_MS)\<rparr>)
      else s\<lparr>hb_foreground := None, hb_background := Some (t + PRESENCE_BACKGROUND_STOP_DEBOUNCE_MS)\<rparr>)"

definition foreground_fires :: "host \<Rightarrow> nat \<Rightarrow> heartbeat \<Rightarrow> heartbeat" where
  "foreground_fires h t s =
     (let s1 = s\<lparr>hb_foreground := None\<rparr>
      in if hb_stopped s1 then s1
         else if ho_visible h = Some False then s1
         else startInterval h t s1)"

definition background_fires :: "heartbeat \<Rightarrow> heartbeat" where
  "background_fires s = stopInterval (s\<lparr>hb_background := None\<rparr>)"

definition stop_heartbeat :: "heartbeat \<Rightarrow> heartbeat" where
  "stop_heartbeat s =
     (stopInterval (s\<lparr>hb_stopped := True\<rparr>))\<lparr>hb_foreground := None, hb_background := None\<rparr>"

definition startPresenceHeartbeat :: "host \<Rightarrow> nat \<Rightarrow> heartbeat" where
  "startPresenceHeartbeat h t =
     (let s = \<lparr>hb_stopped = False, hb_interval = None, hb_background = None, hb_foreground = None, hb_beats = []\<rparr>
      in case ho_visible h of
           None \<Rightarrow> startInterval h t s
         | Some v \<Rightarrow> if v then onVisibilityChange h t s else s)"

datatype hb_event = VisibilityChange | ForegroundFires | BackgroundFires | IntervalFires | StopHeartbeat

definition due :: "nat option \<Rightarrow> nat \<Rightarrow> bool" where
  "due timer t \<longleftrightarrow> (case timer of None \<Rightarrow> False | Some d \<Rightarrow> d \<le> t)"

text \<open>A timer fires when it is armed, and not before its time.\<close>

definition hb_step :: "nat \<times> host \<times> hb_event \<Rightarrow> heartbeat \<Rightarrow> heartbeat" where
  "hb_step ev s =
     (case ev of
        (t, h, VisibilityChange) \<Rightarrow> onVisibilityChange h t s
      | (t, h, ForegroundFires) \<Rightarrow> if due (hb_foreground s) t then foreground_fires h t s else s
      | (t, h, BackgroundFires) \<Rightarrow> if due (hb_background s) t then background_fires s else s
      | (t, h, IntervalFires) \<Rightarrow>
          if due (hb_interval s) t then tick h t (s\<lparr>hb_interval := Some (t + PRESENCE_HEARTBEAT_MS)\<rparr>) else s
      | (t, h, StopHeartbeat) \<Rightarrow> stop_heartbeat s)"

lemmas hb_defs = tick_def startInterval_def stopInterval_def onVisibilityChange_def foreground_fires_def
  background_fires_def stop_heartbeat_def hb_step_def due_def Let_def

text \<open>No timer that could lead to a beat is due before \<open>T\<close>.\<close>

definition quiet_until :: "nat \<Rightarrow> heartbeat \<Rightarrow> bool" where
  "quiet_until T s \<longleftrightarrow>
     (case hb_interval s of None \<Rightarrow> True | Some d \<Rightarrow> T \<le> d) \<and>
     (case hb_foreground s of None \<Rightarrow> True | Some d \<Rightarrow> T \<le> d)"

lemma quiet_step:
  "quiet_until T s \<Longrightarrow> T \<le> fst ev + PRESENCE_FOREGROUND_CONFIRM_MS \<Longrightarrow>
   quiet_until T (hb_step ev s) \<and> (\<exists>new. hb_beats (hb_step ev s) = hb_beats s @ new \<and> list_all (\<lambda>b. T \<le> b) new)"
  by (cases ev; cases "snd (snd ev)")
    (auto simp: hb_defs quiet_until_def PRESENCE_HEARTBEAT_MS_def PRESENCE_FOREGROUND_CONFIRM_MS_def split: option.splits)

lemma quiet_fold:
  "quiet_until T s \<Longrightarrow> list_all (\<lambda>ev. T \<le> fst ev + PRESENCE_FOREGROUND_CONFIRM_MS) evs \<Longrightarrow>
   \<exists>new. hb_beats (fold hb_step evs s) = hb_beats s @ new \<and> list_all (\<lambda>b. T \<le> b) new"
proof (induction evs arbitrary: s)
  case (Cons ev evs)
  then obtain new where "quiet_until T (hb_step ev s)" "hb_beats (hb_step ev s) = hb_beats s @ new" "list_all (\<lambda>b. T \<le> b) new"
    using quiet_step [of T s ev] by auto
  with Cons.IH [of "hb_step ev s"] Cons.prems(2) show ?case by auto
qed simp

text \<open>
  A short wake is silent: when the client is not beating and has no confirmation pending at time
  \<open>t0\<close>, nothing that happens from then on, in whatever order, makes it send a heartbeat before
  \<open>t0\<close> + 800 ms; so a wake in the background that ends sooner never marks the user as online.
\<close>

theorem short_wake_is_silent:
  assumes "hb_interval s = None" "hb_foreground s = None" "list_all (\<lambda>ev. t0 \<le> fst ev) evs"
  shows "\<exists>new. hb_beats (fold hb_step evs s) = hb_beats s @ new \<and>
               list_all (\<lambda>b. t0 + PRESENCE_FOREGROUND_CONFIRM_MS \<le> b) new"
  using quiet_fold [of "t0 + PRESENCE_FOREGROUND_CONFIRM_MS" s evs] assms by (simp add: quiet_until_def)

definition shown :: host where
  "shown = \<lparr>ho_visible = Some True, ho_enabled = True, ho_denied = False\<rparr>"

definition hidden_away :: host where
  "hidden_away = \<lparr>ho_visible = Some False, ho_enabled = True, ho_denied = False\<rparr>"

lemma short_wake_is_silent_witness:
  "let s = startPresenceHeartbeat hidden_away 0;
       evs = [(100, shown, VisibilityChange), (500, hidden_away, VisibilityChange), (600, shown, VisibilityChange),
              (900, shown, ForegroundFires), (1400, shown, ForegroundFires)]
   in hb_beats (fold hb_step evs s) = [1400] \<and>
      (\<exists>new. hb_beats (fold hb_step evs s) = hb_beats s @ new \<and>
             list_all (\<lambda>b. 100 + PRESENCE_FOREGROUND_CONFIRM_MS \<le> b) new)"
proof -
  let ?evs = "[(100, shown, VisibilityChange), (500, hidden_away, VisibilityChange), (600, shown, VisibilityChange),
              (900, shown, ForegroundFires), (1400, shown, ForegroundFires)]"
  have "hb_beats (fold hb_step ?evs (startPresenceHeartbeat hidden_away 0)) = [1400]"
    by (simp add: startPresenceHeartbeat_def hb_defs shown_def hidden_away_def PRESENCE_FOREGROUND_CONFIRM_MS_def
        PRESENCE_BACKGROUND_STOP_DEBOUNCE_MS_def)
  moreover have "\<exists>new. hb_beats (fold hb_step ?evs (startPresenceHeartbeat hidden_away 0)) =
        hb_beats (startPresenceHeartbeat hidden_away 0) @ new \<and>
        list_all (\<lambda>b. 100 + PRESENCE_FOREGROUND_CONFIRM_MS \<le> b) new"
    by (rule short_wake_is_silent) (simp_all add: startPresenceHeartbeat_def hidden_away_def Let_def)
  ultimately show ?thesis by (simp add: Let_def)
qed

text \<open>The foreground and the background timer are never armed together, and nothing beats once stopped.\<close>

definition hb_ok :: "heartbeat \<Rightarrow> bool" where
  "hb_ok s \<longleftrightarrow>
     (hb_foreground s = None \<or> hb_background s = None \<and> hb_interval s = None) \<and>
     (hb_stopped s \<longrightarrow> hb_interval s = None)"

lemma hb_step_ok: "hb_ok s \<Longrightarrow> hb_ok (hb_step ev s)"
  by (cases ev; cases "snd (snd ev)") (auto simp: hb_defs hb_ok_def split: option.splits)

lemma stopped_beats_no_more:
  "hb_stopped s \<Longrightarrow> hb_beats (fold hb_step evs s) = hb_beats s"
proof (induction evs arbitrary: s)
  case (Cons ev evs)
  then have "hb_stopped (hb_step ev s) \<and> hb_beats (hb_step ev s) = hb_beats s"
    by (cases ev; cases "snd (snd ev)") (auto simp: hb_defs)
  with Cons.IH [of "hb_step ev s"] show ?case by simp
qed simp

end
