(* ===== verification/Personhood_Metrics.thy ===== *)
theory Personhood_Metrics
  imports Flora_Prelude Complex_Main "HOL-Library.Signed_Division"
begin

text \<open>
  The temporal metrics of a device (\<open>packages/flora-client-core/src/personhood/temporal.ts\<close>): burstiness of the
  intervals between events and the shape of the daily histogram, in permille. A \<open>bigint\<close> is an \<open>int\<close>, its
  division truncates towards zero (\<open>sdiv\<close>, or \<open>div\<close> where both sides are not negative); a \<open>number\<close> that comes from the outside is a
  \<open>num\<close>, so that fractions, infinities and \<open>NaN\<close> reach the guards.
\<close>

section \<open>Numbers\<close>

datatype num = NotANumber | PosInf | NegInf | Fin rat

fun js_min :: "num \<Rightarrow> num \<Rightarrow> num" where
  "js_min NotANumber y = NotANumber"
| "js_min x NotANumber = NotANumber"
| "js_min NegInf y = NegInf"
| "js_min x NegInf = NegInf"
| "js_min PosInf y = y"
| "js_min x PosInf = x"
| "js_min (Fin a) (Fin b) = Fin (min a b)"

datatype personhood_error = BadCount | BadHours nat | BigIntRange | BadKey nat | BadEpochId nat | BadUnsigned | UnknownName

definition trunc_rat :: "rat \<Rightarrow> int" where
  "trunc_rat q = (if q \<ge> 0 then \<lfloor>q\<rfloor> else \<lceil>q\<rceil>)"

text \<open>\<open>BigInt(Math.trunc(x))\<close>, which throws on what is not finite.\<close>

fun bigint_trunc :: "num \<Rightarrow> personhood_error + int" where
  "bigint_trunc (Fin q) = Inr (trunc_rat q)"
| "bigint_trunc _ = Inl BigIntRange"

fun nonNegativeCount :: "num \<Rightarrow> personhood_error + int" where
  "nonNegativeCount (Fin q) = (if q < 0 then Inl BadCount else Inr (trunc_rat q))"
| "nonNegativeCount _ = Inl BadCount"

section \<open>Integer square root\<close>

function isqrt_loop :: "nat \<Rightarrow> nat \<Rightarrow> nat \<Rightarrow> nat" where
  "isqrt_loop n x y = (if y < x then isqrt_loop n y ((y + n div y) div 2) else x)"
  by pat_completeness auto
termination by (relation "measure (\<lambda>(n, x, y). x)") auto

declare isqrt_loop.simps [simp del]

definition isqrt :: "nat \<Rightarrow> nat" where
  "isqrt n = (if n < 2 then n else isqrt_loop n n ((n + 1) div 2))"

text \<open>A Newton step never falls below the root.\<close>

lemma newton_step_above:
  fixes n s x :: nat
  assumes "s * s \<le> n" "0 < x"
  shows "s \<le> (x + n div x) div 2"
proof -
  have "0 \<le> (int s - int x) * (int s - int x)" by simp
  then have "2 * int s * int x - int x * int x \<le> int s * int s" by (simp add: algebra_simps)
  also have "\<dots> \<le> int n" using assms(1) by (metis of_nat_le_iff of_nat_mult)
  finally have "(2 * int s - int x) * int x \<le> int n" by (simp add: algebra_simps)
  then have "(2 * int s - int x) * int x div int x \<le> int n div int x" by (rule zdiv_mono1) (use assms(2) in simp)
  then have "2 * int s - int x \<le> int n div int x" using assms(2) by simp
  then have "2 * int s \<le> int (x + n div x)" by (simp add: zdiv_int)
  then show ?thesis by linarith
qed

lemma isqrt_loop_correct:
  assumes "0 < s" "s * s \<le> n" "n < (s + 1) * (s + 1)" "s \<le> x" "s \<le> y" "y = (x + n div x) div 2 \<or> y < x"
  shows "isqrt_loop n x y = s"
  using assms
proof (induction n x y rule: isqrt_loop.induct)
  case (1 n x y)
  show ?case
  proof (cases "y < x")
    case True
    have "s \<le> (y + n div y) div 2" using newton_step_above [of s n y] 1 by simp
    with True 1 show ?thesis by (simp add: isqrt_loop.simps [of n x y])
  next
    case False
    then have y: "y = (x + n div x) div 2" "x \<le> y" using 1 by auto
    then have "x \<le> n div x" by linarith
    then have "x * x \<le> n div x * x" by simp
    also have "\<dots> \<le> n" by simp
    finally have "x * x \<le> n" .
    then have "x * x < (s + 1) * (s + 1)" using 1 by simp
    then have "x < s + 1" by (meson mult_le_mono not_le)
    then have "x = s" using 1 by simp
    with False show ?thesis by (subst isqrt_loop.simps) simp
  qed
qed

lemma floor_root_exists: "\<exists>s. s * s \<le> n \<and> n < (s + 1) * (s + 1)" for n :: nat
proof (induction n)
  case 0
  show ?case by (intro exI [of _ 0]) simp
next
  case (Suc n)
  then obtain s where "s * s \<le> n" "n < (s + 1) * (s + 1)" by blast
  then show ?case
    by (cases "Suc n < (s + 1) * (s + 1)") (auto intro: exI [of _ s] exI [of _ "s + 1"])
qed

text \<open>
  The square root is exact: for every input Newton's iteration ends, and its result is the largest
  integer whose square does not exceed the input.
\<close>

theorem isqrt_is_floor_root: "isqrt n * isqrt n \<le> n \<and> n < (isqrt n + 1) * (isqrt n + 1)"
proof (cases "n < 2")
  case True
  then show ?thesis by (cases n) (auto simp: isqrt_def)
next
  case False
  obtain s where s: "s * s \<le> n" "n < (s + 1) * (s + 1)" using floor_root_exists by blast
  then have "0 < s" using False by (cases s) auto
  moreover have "s \<le> n" using s(1) le_square [of s] by linarith
  moreover have "s \<le> (n + n div n) div 2" using newton_step_above [OF s(1), of n] False by simp
  ultimately have "isqrt_loop n n ((n + 1) div 2) = s"
    using isqrt_loop_correct [of s n n "(n + 1) div 2"] s False by simp
  with False s show ?thesis by (simp add: isqrt_def)
qed

section \<open>Burstiness\<close>

definition MIN_INTERVALS :: nat where
  "MIN_INTERVALS = 8"

definition MIN_PROFILE_EVENTS :: int where
  "MIN_PROFILE_EVENTS = 24"

definition MAX_INTERVAL_S :: rat where
  "MAX_INTERVAL_S = 315360000"

definition REST_WINDOW_HOURS :: nat where
  "REST_WINDOW_HOURS = 6"

definition MICRO :: int where
  "MICRO = 1000000"

definition mean_micro :: "int list \<Rightarrow> int" where
  "mean_micro cs = sum_list cs * MICRO div int (length cs)"

definition var_micro :: "int list \<Rightarrow> int" where
  "var_micro cs =
     sum_list (map (\<lambda>x.
       let scaled = x * MICRO;
           d = (if scaled \<ge> mean_micro cs then scaled - mean_micro cs else mean_micro cs - scaled)
       in d * d) cs) div int (length cs)"

definition burstiness_of :: "int list \<Rightarrow> int" where
  "burstiness_of cs =
     (let sigma = int (isqrt (nat (var_micro cs)));
          denom = sigma + mean_micro cs
      in if denom = 0 then - 1000 else ((sigma - mean_micro cs) * 1000) sdiv denom)"

definition burstinessPermille :: "num list \<Rightarrow> personhood_error + int option" where
  "burstinessPermille intervalsS =
     (if length intervalsS < MIN_INTERVALS then Inr None
      else bindE (mapE (\<lambda>x. nonNegativeCount (js_min x (Fin MAX_INTERVAL_S))) intervalsS)
             (\<lambda>cs. Inr (Some (burstiness_of cs))))"

section \<open>The daily histogram\<close>

definition totalOf :: "num list \<Rightarrow> personhood_error + int" where
  "totalOf counts =
     (if length counts \<noteq> 24 then Inl (BadHours (length counts))
      else bindE (mapE nonNegativeCount counts) (\<lambda>cs. Inr (sum_list cs)))"

definition window_sum :: "int list \<Rightarrow> nat \<Rightarrow> int" where
  "window_sum cs start = sum_list (map (\<lambda>i. cs ! ((start + i) mod 24)) [0..<REST_WINDOW_HOURS])"

definition keep_min :: "int \<Rightarrow> int option \<Rightarrow> int option" where
  "keep_min w m = (case m of None \<Rightarrow> Some w | Some k \<Rightarrow> if w < k then Some w else Some k)"

definition min_window :: "int list \<Rightarrow> int option" where
  "min_window cs = fold (\<lambda>start. keep_min (window_sum cs start)) [0..<24] None"

definition restSharePermille :: "num list \<Rightarrow> personhood_error + int option" where
  "restSharePermille counts =
     bindE (totalOf counts) (\<lambda>total.
       if total < MIN_PROFILE_EVENTS then Inr None
       else bindE (mapE bigint_trunc counts) (\<lambda>cs. Inr (Some (the (min_window cs) * 1000 div total))))"

definition max_hour :: "int list \<Rightarrow> int" where
  "max_hour cs = fold (\<lambda>x m. if x > m then x else m) cs 0"

definition peakSharePermille :: "num list \<Rightarrow> personhood_error + int option" where
  "peakSharePermille counts =
     bindE (totalOf counts) (\<lambda>total.
       if total < MIN_PROFILE_EVENTS then Inr None
       else bindE (mapE bigint_trunc counts) (\<lambda>cs. Inr (Some (max_hour cs * 1000 div total))))"

definition similarityPermille :: "num list \<Rightarrow> num list \<Rightarrow> personhood_error + int option" where
  "similarityPermille a b =
     bindE (totalOf a) (\<lambda>totalA. bindE (totalOf b) (\<lambda>totalB.
       if totalA < MIN_PROFILE_EVENTS \<or> totalB < MIN_PROFILE_EVENTS then Inr None
       else bindE (mapE (\<lambda>i. bigint_trunc (js_min (a ! i) (b ! i))) [0..<24]) (\<lambda>os.
              Inr (Some (sum_list os * 1000 div (if totalA > totalB then totalA else totalB))))))"

subsection \<open>Bounds of the burstiness\<close>

lemma nonNegativeCount_Inr: "nonNegativeCount x = Inr c \<Longrightarrow> \<exists>q. x = Fin q \<and> 0 \<le> q \<and> c = \<lfloor>q\<rfloor> \<and> 0 \<le> c"
  by (cases x) (auto simp: trunc_rat_def split: if_splits)

lemma mapE_set: "mapE f xs = Inr ys \<Longrightarrow> y \<in> set ys \<Longrightarrow> \<exists>x \<in> set xs. f x = Inr y"
  by (induction xs arbitrary: ys) (auto simp: result_iff)

lemma mean_nonneg: "(\<And>c. c \<in> set cs \<Longrightarrow> 0 \<le> c) \<Longrightarrow> 0 \<le> mean_micro cs"
  by (simp add: mean_micro_def MICRO_def sum_list_nonneg pos_imp_zdiv_nonneg_iff div_int_pos_iff)

lemma sdiv_permille:
  assumes "0 \<le> s" "0 \<le> m" "s + m \<noteq> 0"
  shows "\<bar>((s - m) * 1000) sdiv (s + m)\<bar> \<le> (1000 :: int)"
proof -
  have pos: "0 < s + m" using assms by linarith
  have "\<bar>s - m\<bar> \<le> s + m" using assms by arith
  then have "\<bar>(s - m) * 1000\<bar> \<le> (s + m) * 1000" by (simp add: abs_mult)
  then have "\<bar>(s - m) * 1000\<bar> div (s + m) \<le> (s + m) * 1000 div (s + m)"
    by (rule zdiv_mono1) (rule pos)
  also have "(s + m) * 1000 div (s + m) = 1000" using pos by (intro nonzero_mult_div_cancel_left) simp
  finally have le: "\<bar>(s - m) * 1000\<bar> div (s + m) \<le> 1000" .
  have "0 \<le> \<bar>(s - m) * 1000\<bar> div (s + m)" using pos by (simp add: pos_imp_zdiv_nonneg_iff)
  with le have "\<bar>sgn ((s - m) * 1000) * (\<bar>(s - m) * 1000\<bar> div (s + m))\<bar> \<le> 1000"
    by (simp only: abs_mult abs_sgn_eq) auto
  then show ?thesis using pos by (simp only: signed_divide_int_def abs_of_pos sgn_pos mult_1_right)
qed

text \<open>
  Burstiness is a share: whatever numbers come in, the result is absent, an error, or between -1000 and
  1000 permille; and it is absent exactly for fewer than eight intervals.
\<close>

theorem burstiness_is_a_share:
  "(case burstinessPermille xs of
      Inl e \<Rightarrow> e = BadCount \<and> list_ex (\<lambda>x. case x of Fin q \<Rightarrow> q < 0 | PosInf \<Rightarrow> False | _ \<Rightarrow> True) xs
    | Inr None \<Rightarrow> length xs < 8
    | Inr (Some b) \<Rightarrow> length xs \<ge> 8 \<and> - 1000 \<le> b \<and> b \<le> 1000)"
proof (cases "length xs < 8")
  case True
  then show ?thesis by (simp add: burstinessPermille_def MIN_INTERVALS_def)
next
  case False
  let ?f = "\<lambda>x. nonNegativeCount (js_min x (Fin MAX_INTERVAL_S))"
  have bad: "?f x = Inl e \<Longrightarrow> e = BadCount \<and> (case x of Fin q \<Rightarrow> q < 0 | PosInf \<Rightarrow> False | _ \<Rightarrow> True)" for x e
    by (cases x) (auto simp: MAX_INTERVAL_S_def min_def split: if_splits)
  have err: "mapE ?f ys = Inl e \<Longrightarrow>
      e = BadCount \<and> list_ex (\<lambda>x. case x of Fin q \<Rightarrow> q < 0 | PosInf \<Rightarrow> False | _ \<Rightarrow> True) ys" for ys e
  proof (induction ys)
    case (Cons y ys)
    then show ?case using bad [of y] by (cases "?f y"; cases "mapE ?f ys") auto
  qed simp
  show ?thesis
  proof (cases "mapE ?f xs")
    case (Inl e)
    with False err [OF Inl] show ?thesis by (simp add: burstinessPermille_def MIN_INTERVALS_def)
  next
    case (Inr cs)
    have "0 \<le> c" if "c \<in> set cs" for c
      using mapE_set [OF Inr that] nonNegativeCount_Inr by fastforce
    then have m: "0 \<le> mean_micro cs" by (rule mean_nonneg)
    have "\<bar>burstiness_of cs\<bar> \<le> 1000"
      using sdiv_permille [of "int (isqrt (nat (var_micro cs)))" "mean_micro cs"] m
      by (simp add: burstiness_of_def Let_def)
    with False Inr show ?thesis by (auto simp: burstinessPermille_def MIN_INTERVALS_def)
  qed
qed

text \<open>Equal intervals, at least one second each, are what a timer produces: the burstiness is exactly -1000.\<close>

lemma isqrt_0 [simp]: "isqrt 0 = 0"
  by (simp add: isqrt_def)

lemma regular_intervals:
  assumes "8 \<le> n" "1 \<le> q" "q \<le> MAX_INTERVAL_S"
  shows "burstinessPermille (replicate n (Fin q)) = Inr (Some (- 1000))"
proof -
  have "0 < \<lfloor>q\<rfloor>" using assms(2) by (simp add: zero_less_floor)
  have cs: "mapE (\<lambda>x. nonNegativeCount (js_min x (Fin MAX_INTERVAL_S))) (replicate n (Fin q)) = Inr (replicate n \<lfloor>q\<rfloor>)"
    using assms by (intro trans [OF mapE_all_Inr [where g = "\<lambda>_. \<lfloor>q\<rfloor>"]])
      (auto simp: trunc_rat_def min_def)
  have mean: "mean_micro (replicate n \<lfloor>q\<rfloor>) = \<lfloor>q\<rfloor> * MICRO"
    using assms(1) by (simp add: mean_micro_def sum_list_replicate mult.assoc)
  then have "var_micro (replicate n \<lfloor>q\<rfloor>) = 0" by (simp add: var_micro_def Let_def sum_list_replicate)
  then show ?thesis
    using assms(1) cs mean \<open>0 < \<lfloor>q\<rfloor>\<close>
    by (simp add: burstinessPermille_def MIN_INTERVALS_def burstiness_of_def MICRO_def signed_divide_int_def)
qed

subsection \<open>Validated histograms\<close>

text \<open>A histogram that passes \<open>totalOf\<close>: 24 counts, and the same counts again from \<open>Math.trunc\<close>.\<close>

lemma totalOf_Inr:
  assumes "totalOf counts = Inr vol"
  obtains cs where "length counts = 24" "length cs = 24" "mapE nonNegativeCount counts = Inr cs"
    "mapE bigint_trunc counts = Inr cs" "vol = sum_list cs" "\<And>c. c \<in> set cs \<Longrightarrow> 0 \<le> c"
proof -
  from assms have l: "length counts = 24" by (auto simp: totalOf_def split: if_splits)
  with assms obtain cs where cs: "mapE nonNegativeCount counts = Inr cs" "vol = sum_list cs"
    by (auto simp: totalOf_def result_iff)
  have "mapE nonNegativeCount xs = Inr ys \<Longrightarrow> mapE bigint_trunc xs = Inr ys" for xs ys
  proof (induction xs arbitrary: ys)
    case (Cons x xs)
    then show ?case by (cases x) (auto simp: result_iff split: if_splits)
  qed simp
  moreover have "0 \<le> c" if "c \<in> set cs" for c
    using mapE_set [OF cs(1) that] nonNegativeCount_Inr by blast
  ultimately show ?thesis using that l cs mapE_Inr_length [OF cs(1)] by simp
qed

lemma sum_24: "length cs = 24 \<Longrightarrow> sum_list cs = (\<Sum>i < 24. cs ! i)" for cs :: "int list"
  by (simp add: sum_list_sum_nth atLeast0LessThan)

lemma window_sum_eq: "window_sum cs start = (\<Sum>i < 6. cs ! ((start + i) mod 24))"
  by (simp add: window_sum_def REST_WINDOW_HOURS_def sum_list_sum_nth atLeast0LessThan)

lemma keep_min_Some: "keep_min w (Some k) = Some (min k w)"
  by (simp add: keep_min_def min_def)

lemma min_fold: "fold (\<lambda>s. keep_min (f s)) ss (Some k) = Some (Min (insert k (f ` set ss)))"
proof (induction ss arbitrary: k)
  case (Cons s ss)
  have "fold (\<lambda>s. keep_min (f s)) (s # ss) (Some k) = Some (Min (insert (min k (f s)) (f ` set ss)))"
    by (simp only: fold_simps keep_min_Some Cons)
  also have "Min (insert (min k (f s)) (f ` set ss)) = Min (insert k (insert (f s) (f ` set ss)))"
    by (cases "ss = []") (simp_all only: Min_insert min.assoc finite_imageI finite_set finite_insert insert_not_empty
      image_is_empty set_empty list.set image_empty finite.emptyI Min_singleton not_False_eq_True)
  finally show ?case by simp
qed simp

lemma min_window_Min: "min_window cs = Some (Min (window_sum cs ` {..<24}))"
proof -
  have u: "[0..<24] = 0 # [1..<24]" by (simp add: upt_rec)
  have "min_window cs = fold (\<lambda>start. keep_min (window_sum cs start)) [1..<24] (Some (window_sum cs 0))"
    by (simp only: min_window_def u fold_simps) (simp add: keep_min_def)
  also have "\<dots> = Some (Min (insert (window_sum cs 0) (window_sum cs ` set [1..<24])))" by (rule min_fold)
  also have "insert (window_sum cs 0) (window_sum cs ` set [1..<24]) = window_sum cs ` {..<24}"
  proof -
    have "insert 0 (set [1..<24]) = {..<24 :: nat}" by auto
    then show ?thesis by (metis image_insert)
  qed
  finally show ?thesis .
qed

text \<open>Four disjoint windows cover the day, so the quietest holds at most a quarter.\<close>

lemma window_sum_block: "m < 4 \<Longrightarrow> window_sum cs (m * 6) = (\<Sum>i \<in> {m * 6..<m * 6 + 6}. cs ! i)"
proof -
  assume "m < 4"
  then have "window_sum cs (m * 6) = (\<Sum>i < 6. cs ! (i + m * 6))"
    unfolding window_sum_eq by (intro sum.cong) (auto simp: add.commute)
  also have "\<dots> = (\<Sum>i \<in> {0 + m * 6..<6 + m * 6}. cs ! i)"
    by (simp only: sum.shift_bounds_nat_ivl atLeast0LessThan)
  finally show ?thesis by (simp add: add.commute)
qed

lemma four_windows:
  assumes "length cs = 24"
  shows "window_sum cs 0 + window_sum cs 6 + window_sum cs 12 + window_sum cs 18 = sum_list cs"
proof -
  have "sum_list cs = (\<Sum>m < 4. \<Sum>i \<in> {m * 6..<m * 6 + 6}. cs ! i)"
    using sum.nat_group [of "\<lambda>i. cs ! i" 6 4] by (simp add: sum_24 [OF assms])
  also have "\<dots> = (\<Sum>m < 4. window_sum cs (m * 6))"
    by (intro sum.cong) (auto simp: window_sum_block)
  also have "\<dots> = window_sum cs 0 + window_sum cs 6 + window_sum cs 12 + window_sum cs 18"
    by (simp add: numeral_eq_Suc)
  finally show ?thesis by simp
qed

lemma min_window_quarter: "length cs = 24 \<Longrightarrow> 4 * the (min_window cs) \<le> sum_list cs"
proof -
  assume l: "length cs = 24"
  have "the (min_window cs) \<le> window_sum cs k" if "k < 24" for k
    using that by (simp add: min_window_Min)
  from this [of 0] this [of 6] this [of 12] this [of 18] four_windows [OF l] show ?thesis by simp
qed

lemma window_nonneg: "length cs = 24 \<Longrightarrow> (\<And>c. c \<in> set cs \<Longrightarrow> 0 \<le> c) \<Longrightarrow> 0 \<le> window_sum cs k"
  unfolding window_sum_eq by (intro sum_nonneg) simp

lemma min_window_nonneg: "length cs = 24 \<Longrightarrow> (\<And>c. c \<in> set cs \<Longrightarrow> 0 \<le> c) \<Longrightarrow> 0 \<le> the (min_window cs)"
  using window_nonneg by (simp add: min_window_Min Min_ge_iff lessThan_empty_iff)

lemma max_fold: "fold (\<lambda>x m. if x > m then x else m) cs k = Max (insert k (set cs))" for k :: int
proof (induction cs arbitrary: k)
  case (Cons c cs)
  have "fold (\<lambda>x m. if x > m then x else m) (c # cs) k = fold (\<lambda>x m. if x > m then x else m) cs (max k c)"
    by (simp add: max_def)
  also have "\<dots> = Max (insert (max k c) (set cs))" by (rule Cons)
  also have "\<dots> = Max (insert k (insert c (set cs)))"
    by (cases "cs = []") (simp_all only: Max_insert max.assoc finite_set finite_insert insert_not_empty set_empty
      list.set finite.emptyI Max_singleton not_False_eq_True)
  finally show ?case by simp
qed simp

lemma max_hour_Max: "max_hour cs = Max (insert 0 (set cs))"
  by (simp add: max_hour_def max_fold)

subsection \<open>Bounds\<close>

lemma share_le: "0 \<le> w \<Longrightarrow> k * w \<le> vol \<Longrightarrow> 0 < vol \<Longrightarrow> 0 < k \<Longrightarrow> w * (k * c) div vol \<le> c \<or> c < 0" for w :: int
proof -
  assume a: "0 \<le> w" "k * w \<le> vol" "0 < vol" "0 < k"
  show ?thesis
  proof (cases "c < 0")
    case False
    have "w * (k * c) = k * w * c" by simp
    also have "\<dots> \<le> vol * c" using a False by (intro mult_right_mono) auto
    finally have "w * (k * c) div vol \<le> vol * c div vol" using a by (intro zdiv_mono1)
    with a show ?thesis by simp
  qed simp
qed

lemma shares:
  assumes "totalOf counts = Inr vol" "MIN_PROFILE_EVENTS \<le> vol"
  obtains cs where "length cs = 24" "vol = sum_list cs" "\<And>c. c \<in> set cs \<Longrightarrow> 0 \<le> c"
    "restSharePermille counts = Inr (Some (the (min_window cs) * 1000 div vol))"
    "peakSharePermille counts = Inr (Some (max_hour cs * 1000 div vol))"
proof -
  obtain cs where "length cs = 24" "mapE bigint_trunc counts = Inr cs" "vol = sum_list cs" "\<And>c. c \<in> set cs \<Longrightarrow> 0 \<le> c"
    using totalOf_Inr [OF assms(1)] by metis
  with assms show ?thesis by (intro that [of cs]) (auto simp: restSharePermille_def peakSharePermille_def)
qed

lemma max_hour_bounds:
  assumes "length cs = 24" "\<And>c. c \<in> set cs \<Longrightarrow> 0 \<le> c"
  shows "max_hour cs \<le> sum_list cs" "sum_list cs \<le> 24 * max_hour cs" "0 \<le> max_hour cs"
proof -
  have le: "c \<le> max_hour cs" if "c \<in> set cs" for c using that by (simp add: max_hour_Max)
  show "0 \<le> max_hour cs" by (simp add: max_hour_Max)
  have "sum_list cs = (\<Sum>i < 24. cs ! i)" by (rule sum_24 [OF assms(1)])
  also have "\<dots> \<le> (\<Sum>i < (24 :: nat). max_hour cs)" using le assms(1) by (intro sum_mono) simp
  finally show "sum_list cs \<le> 24 * max_hour cs" by simp
  have "c \<le> sum_list cs" if "c \<in> set cs" for c
    using that assms(2) member_le_sum_list [of c cs] by auto
  moreover have "0 \<le> sum_list cs" using assms(2) by (intro sum_list_nonneg) auto
  ultimately show "max_hour cs \<le> sum_list cs" by (simp add: max_hour_Max)
qed

text \<open>
  The daily shares are what the header of the file promises: of a profile with enough events the quietest
  six hours hold at most 250 permille, the busiest hour between 41 and 1000; both are absent exactly when the
  profile is valid and has fewer than 24 events.
\<close>

theorem daily_shares_are_bounded:
  "(case (totalOf counts, restSharePermille counts, peakSharePermille counts) of
      (Inl e, r, p) \<Rightarrow> r = Inl e \<and> p = Inl e
    | (Inr vol, r, p) \<Rightarrow>
        (if vol < 24 then r = Inr None \<and> p = Inr None
         else (\<exists>x y. r = Inr (Some x) \<and> p = Inr (Some y) \<and> 0 \<le> x \<and> x \<le> 250 \<and> 41 \<le> y \<and> y \<le> 1000)))"
proof (cases "totalOf counts")
  case (Inl e)
  then show ?thesis by (simp add: restSharePermille_def peakSharePermille_def)
next
  case (Inr vol)
  show ?thesis
  proof (cases "vol < 24")
    case True
    with Inr show ?thesis by (simp add: restSharePermille_def peakSharePermille_def MIN_PROFILE_EVENTS_def)
  next
    case False
    then obtain cs where cs: "length cs = 24" "vol = sum_list cs" "\<And>c. c \<in> set cs \<Longrightarrow> 0 \<le> c"
      "restSharePermille counts = Inr (Some (the (min_window cs) * 1000 div vol))"
      "peakSharePermille counts = Inr (Some (max_hour cs * 1000 div vol))"
      using shares [OF Inr] by (metis MIN_PROFILE_EVENTS_def not_less)
    have "the (min_window cs) * (4 * 250) div vol \<le> 250"
      using share_le [of "the (min_window cs)" 4 vol 250] min_window_quarter [OF cs(1)] min_window_nonneg [OF cs(1,3)] cs(2) False
      by simp
    moreover have "max_hour cs * (1 * 1000) div vol \<le> 1000"
      using share_le [of "max_hour cs" 1 vol 1000] max_hour_bounds [OF cs(1,3)] cs(2) False by simp
    moreover have "41 \<le> max_hour cs * 1000 div vol"
    proof -
      have "41 * vol \<le> max_hour cs * 1000" using max_hour_bounds [OF cs(1,3)] cs(2) False by linarith
      then have "41 * vol div vol \<le> max_hour cs * 1000 div vol" using False by (intro zdiv_mono1) simp_all
      with False show ?thesis by simp
    qed
    moreover have "0 \<le> the (min_window cs) * 1000 div vol"
      using min_window_nonneg [OF cs(1,3)] False by (simp add: pos_imp_zdiv_nonneg_iff)
    ultimately show ?thesis using Inr False cs(4,5) by simp
  qed
qed

subsection \<open>Shifts of the day\<close>

lemma mapE_rotate1: "mapE f xs = Inr ys \<Longrightarrow> mapE f (rotate1 xs) = Inr (rotate1 ys)"
proof (cases xs)
  case (Cons x xs')
  have snoc: "mapE f (as @ [a]) = bindE (mapE f as) (\<lambda>bs. bindE (f a) (\<lambda>b. Inr (bs @ [b])))" for as a
  proof (induction as)
    case (Cons c as)
    then show ?case by (cases "f c"; cases "mapE f as"; cases "f a") auto
  qed (cases "f a"; simp)
  assume "mapE f xs = Inr ys"
  with Cons show ?thesis by (auto simp: snoc result_iff)
qed simp

lemma mapE_rotate: "mapE f xs = Inr ys \<Longrightarrow> mapE f (rotate k xs) = Inr (rotate k ys)"
  by (induction k) (simp_all add: mapE_rotate1)

lemma rotate_back: "\<exists>j. rotate j (rotate k xs) = xs"
proof (cases "xs = []")
  case False
  then have "(length xs - k mod length xs) + k mod length xs = length xs" by (simp add: le_simps)
  then have "rotate (length xs - k mod length xs) (rotate (k mod length xs) xs) = xs"
    by (simp add: rotate_rotate rotate_length01 rotate_id)
  then show ?thesis by (metis rotate_conv_mod)
qed simp

lemma count_error: "mapE nonNegativeCount xs = Inl e \<Longrightarrow> e = BadCount"
proof (induction xs)
  case (Cons x xs)
  then show ?case by (cases x; cases "mapE nonNegativeCount xs") (auto split: if_splits)
qed simp

lemma sum_list_rotate: "sum_list (rotate k cs) = sum_list cs" for cs :: "int list"
  by (metis append_take_drop_id rotate_drop_take sum_list_append add.commute)

lemma totalOf_rotate: "totalOf (rotate k counts) = totalOf counts"
proof (cases "mapE nonNegativeCount counts")
  case (Inr cs)
  with mapE_rotate [OF Inr, of k] show ?thesis by (simp add: totalOf_def sum_list_rotate)
next
  case (Inl e)
  then have "mapE nonNegativeCount (rotate k counts) \<noteq> Inr cs" for cs
    using mapE_rotate rotate_back [of k counts] by (metis Inl_Inr_False)
  then have "mapE nonNegativeCount (rotate k counts) = Inl e"
    using count_error Inl by (metis sum.exhaust)
  with Inl show ?thesis by (simp add: totalOf_def)
qed

lemma window_sum_rotate: "length cs = 24 \<Longrightarrow> window_sum (rotate k cs) s = window_sum cs ((s + k) mod 24)"
  unfolding window_sum_eq
  by (intro sum.cong) (simp_all add: nth_rotate mod_simps ac_simps)

lemma shift_mod: "(\<lambda>s. (s + k) mod 24) ` {..<24} = {..<24 :: nat}"
proof
  show "{..<24} \<subseteq> (\<lambda>s. (s + k) mod 24) ` {..<24}"
  proof
    fix x :: nat
    assume "x \<in> {..<24}"
    then have x: "x < 24" by simp
    have "((x + (24 - k mod 24)) mod 24 + k) mod 24 = ((x + (24 - k mod 24)) + k mod 24) mod 24"
      by (metis mod_add_left_eq mod_add_right_eq)
    also have "(x + (24 - k mod 24)) + k mod 24 = x + 24" using mod_less_divisor [of 24 k] by linarith
    finally have "((x + (24 - k mod 24)) mod 24 + k) mod 24 = x" using x by simp
    then show "x \<in> (\<lambda>s. (s + k) mod 24) ` {..<24}" by (intro image_eqI [of _ _ "(x + (24 - k mod 24)) mod 24"]) auto
  qed
qed auto

lemma min_window_rotate: "length cs = 24 \<Longrightarrow> min_window (rotate k cs) = min_window cs"
proof -
  assume l: "length cs = 24"
  have "window_sum (rotate k cs) ` {..<24} = window_sum cs ` (\<lambda>s. (s + k) mod 24) ` {..<24}"
    using window_sum_rotate [OF l] by (simp add: image_image)
  then show ?thesis by (simp add: min_window_Min shift_mod)
qed

text \<open>
  The metrics do not see the time zone: shifting the daily histogram by any number of hours changes
  neither the quietest window nor the busiest hour, nor which profiles are rejected.
\<close>

theorem metrics_ignore_time_zone:
  "restSharePermille (rotate k counts) = restSharePermille counts \<and>
   peakSharePermille (rotate k counts) = peakSharePermille counts"
proof (cases "totalOf counts")
  case (Inl e)
  then show ?thesis by (simp add: restSharePermille_def peakSharePermille_def totalOf_rotate)
next
  case (Inr vol)
  then obtain cs where "length cs = 24" "mapE bigint_trunc counts = Inr cs" by (metis totalOf_Inr)
  with Inr mapE_rotate [of bigint_trunc counts cs k] show ?thesis
    by (simp add: restSharePermille_def peakSharePermille_def totalOf_rotate min_window_rotate max_hour_Max)
qed

subsection \<open>Similarity\<close>

lemma overlap_counts:
  assumes "mapE nonNegativeCount a = Inr as" "mapE nonNegativeCount b = Inr bs" "length a = 24" "length b = 24"
  shows "mapE (\<lambda>i. bigint_trunc (js_min (a ! i) (b ! i))) [0..<24] = Inr (map (\<lambda>i. min (as ! i) (bs ! i)) [0..<24])"
proof (rule mapE_all_Inr)
  fix i assume "i \<in> set [0..<24]"
  then have "nonNegativeCount (a ! i) = Inr (as ! i)" "nonNegativeCount (b ! i) = Inr (bs ! i)"
    using assms by (auto intro: mapE_Inr_nth)
  then obtain p q where pq: "a ! i = Fin p" "b ! i = Fin q" "0 \<le> p" "0 \<le> q" "as ! i = \<lfloor>p\<rfloor>" "bs ! i = \<lfloor>q\<rfloor>"
    using nonNegativeCount_Inr by meson
  then show "bigint_trunc (js_min (a ! i) (b ! i)) = Inr (min (as ! i) (bs ! i))"
    using floor_mono [of p q] floor_mono [of q p] by (cases "p \<le> q") (simp_all add: trunc_rat_def min_def)
qed

lemma overlap_bounds:
  fixes as bs :: "int list"
  assumes "length as = 24" "length bs = 24" "\<And>c. c \<in> set as \<union> set bs \<Longrightarrow> 0 \<le> c"
  shows "sum_list (map (\<lambda>i. min (as ! i) (bs ! i)) [0..<24]) \<le> sum_list as"
    "0 \<le> sum_list (map (\<lambda>i. min (as ! i) (bs ! i)) [0..<24])"
proof -
  have eq: "sum_list (map (\<lambda>i. min (as ! i) (bs ! i)) [0..<24]) = (\<Sum>i < 24. min (as ! i) (bs ! i))"
    by (simp add: sum_list_sum_nth atLeast0LessThan)
  show "sum_list (map (\<lambda>i. min (as ! i) (bs ! i)) [0..<24]) \<le> sum_list as"
    unfolding eq sum_24 [OF assms(1)] by (intro sum_mono) simp
  show "0 \<le> sum_list (map (\<lambda>i. min (as ! i) (bs ! i)) [0..<24])"
    unfolding eq using assms by (intro sum_nonneg) (simp add: min_def)
qed

text \<open>
  Similarity is a symmetric share: two profiles with enough events are between 0 and 1000 permille alike
  whichever comes first, and a profile is exactly 1000 like itself.
\<close>

theorem similarity_is_symmetric_share:
  assumes "totalOf a = Inr va" "totalOf b = Inr vb" "24 \<le> va" "24 \<le> vb"
  shows "\<exists>s. similarityPermille a b = Inr (Some s) \<and> similarityPermille b a = Inr (Some s) \<and> 0 \<le> s \<and> s \<le> 1000 \<and>
             similarityPermille a a = Inr (Some 1000)"
proof -
  obtain as where a: "length a = 24" "length as = 24" "mapE nonNegativeCount a = Inr as" "va = sum_list as"
    "\<And>c. c \<in> set as \<Longrightarrow> 0 \<le> c" using totalOf_Inr [OF assms(1)] by metis
  obtain bs where b: "length b = 24" "length bs = 24" "mapE nonNegativeCount b = Inr bs" "vb = sum_list bs"
    "\<And>c. c \<in> set bs \<Longrightarrow> 0 \<le> c" using totalOf_Inr [OF assms(2)] by metis
  let ?o = "sum_list (map (\<lambda>i. min (as ! i) (bs ! i)) [0..<24])"
  have ab: "similarityPermille a b = Inr (Some (?o * 1000 div max va vb))"
    using assms overlap_counts [OF a(3) b(3) a(1) b(1)]
    by (simp add: similarityPermille_def MIN_PROFILE_EVENTS_def max_def)
  have ba: "similarityPermille b a = Inr (Some (?o * 1000 div max va vb))"
    using assms overlap_counts [OF b(3) a(3) b(1) a(1)]
    by (simp add: similarityPermille_def MIN_PROFILE_EVENTS_def max_def min.commute)
  have "sum_list (map (\<lambda>i. min (as ! i) (as ! i)) [0..<24]) = va"
    using map_nth [of as] a(2) by (simp add: a(4))
  then have aa: "similarityPermille a a = Inr (Some 1000)"
    using assms overlap_counts [OF a(3) a(3) a(1) a(1)]
    by (simp add: similarityPermille_def MIN_PROFILE_EVENTS_def)
  have nn: "c \<in> set as \<union> set bs \<Longrightarrow> 0 \<le> c" for c using a(5) b(5) by auto
  have "?o * (1 * 1000) div max va vb \<le> 1000"
    using share_le [of ?o 1 "max va vb" 1000] overlap_bounds [OF a(2) b(2) nn] a(4) assms(3) by simp
  moreover have "0 \<le> ?o * 1000 div max va vb"
    using overlap_bounds(2) [OF a(2) b(2) nn] assms(3) by (simp add: pos_imp_zdiv_nonneg_iff)
  ultimately show ?thesis using ab ba aa by simp
qed

definition night_owl :: "num list" where
  "night_owl = replicate 12 (Fin 0) @ replicate 12 (Fin 5)"

lemma similarity_is_symmetric_share_witness:
  "\<exists>s. similarityPermille night_owl (rotate 6 night_owl) = Inr (Some s) \<and>
       similarityPermille (rotate 6 night_owl) night_owl = Inr (Some s) \<and> 0 \<le> s \<and> s \<le> 1000 \<and>
       similarityPermille night_owl night_owl = Inr (Some 1000)"
proof -
  have "totalOf night_owl = Inr 60"
    by (simp add: totalOf_def night_owl_def trunc_rat_def numeral_eq_Suc)
  then show ?thesis
    using similarity_is_symmetric_share [of night_owl 60 "rotate 6 night_owl" 60] by (simp add: totalOf_rotate)
qed

end
