(* ===== verification/Personhood_Report.thy ===== *)
theory Personhood_Report
  imports Personhood_Metrics
begin

text \<open>
  What a device reports once per epoch (\<open>personhood/registry.ts\<close>, \<open>profile.ts\<close>, \<open>epoch.ts\<close>,
  \<open>deviceTag.ts\<close>, \<open>report.ts\<close> under \<open>packages/flora-client-core/src\<close>): the registries of wire codes, the
  buckets of the metrics and their canonical rows, the epoch and its identifier, and the tag of the device. The
  derivation of the tag (BLAKE3) is a parameter.
\<close>

section \<open>Registries\<close>

datatype personhood_level = V0 | V1 | V2 | V3
datatype evidence_class = Server_observed | Device_attested | Self_reported
datatype naturalness_class = Natural | Watch | Investigate
datatype attestation_class = Unattested | Software_key | Hardware_backed
datatype link_class = Exclusive | Shared | Farm_suspect
datatype churn_class = Stable | Mobile | Churning
datatype consistency_class = Consistent | Drifting | Contradictory
datatype metric = NsT1Burstiness | NsT2aRestShare | NsT2bPeakShare | NsT2cSelfSimilarity | NsD2DeviceLink | NsD3DeviceChurn
datatype bucket = Very_low | Low | Medium | High | Very_high
datatype anomaly_flag =
    Latency_suspect | Synthetic_media_suspect | Audio_video_desync | Challenge_mismatch
  | Input_cadence_anomaly | Participant_aborted | Abuse_reported | Partner_no_show

text \<open>A \<open>Map\<close> built from pairs keeps the last value of a key.\<close>

definition codeOf :: "('n \<times> nat) list \<Rightarrow> 'n \<Rightarrow> personhood_error + nat" where
  "codeOf pairs name = (case map_of (rev pairs) name of None \<Rightarrow> Inl UnknownName | Some c \<Rightarrow> Inr c)"

definition fromCode :: "('n \<times> nat) list \<Rightarrow> nat \<Rightarrow> 'n option" where
  "fromCode pairs code = map_of (rev (map (\<lambda>(n, c). (c, n)) pairs)) code"

definition PERSONHOOD_LEVELS :: "(personhood_level \<times> nat) list" where
  "PERSONHOOD_LEVELS = [(V0, 0), (V1, 1), (V2, 2), (V3, 3)]"

definition SIGNAL_EVIDENCE_CLASSES :: "(evidence_class \<times> nat) list" where
  "SIGNAL_EVIDENCE_CLASSES = [(Server_observed, 1), (Device_attested, 2), (Self_reported, 3)]"

definition NATURALNESS_CLASSES :: "(naturalness_class \<times> nat) list" where
  "NATURALNESS_CLASSES = [(Natural, 1), (Watch, 2), (Investigate, 3)]"

definition DEVICE_ATTESTATION_CLASSES :: "(attestation_class \<times> nat) list" where
  "DEVICE_ATTESTATION_CLASSES = [(Unattested, 1), (Software_key, 2), (Hardware_backed, 3)]"

definition DEVICE_LINK_CLASSES :: "(link_class \<times> nat) list" where
  "DEVICE_LINK_CLASSES = [(Exclusive, 1), (Shared, 2), (Farm_suspect, 3)]"

definition DEVICE_CHURN_CLASSES :: "(churn_class \<times> nat) list" where
  "DEVICE_CHURN_CLASSES = [(Stable, 1), (Mobile, 2), (Churning, 3)]"

definition REPORT_CONSISTENCY_CLASSES :: "(consistency_class \<times> nat) list" where
  "REPORT_CONSISTENCY_CLASSES = [(Consistent, 1), (Drifting, 2), (Contradictory, 3)]"

definition SIGNAL_METRICS :: "(metric \<times> nat) list" where
  "SIGNAL_METRICS =
     [(NsT1Burstiness, 1), (NsT2aRestShare, 2), (NsT2bPeakShare, 3), (NsT2cSelfSimilarity, 4),
      (NsD2DeviceLink, 5), (NsD3DeviceChurn, 6)]"

definition SIGNAL_BUCKETS :: "(bucket \<times> nat) list" where
  "SIGNAL_BUCKETS = [(Very_low, 0), (Low, 1), (Medium, 2), (High, 3), (Very_high, 4)]"

definition CEREMONY_ANOMALY_FLAGS :: "(anomaly_flag \<times> nat) list" where
  "CEREMONY_ANOMALY_FLAGS =
     [(Latency_suspect, 1), (Synthetic_media_suspect, 2), (Audio_video_desync, 3), (Challenge_mismatch, 4),
      (Input_cadence_anomaly, 5), (Participant_aborted, 6), (Abuse_reported, 7), (Partner_no_show, 8)]"

lemmas registry_defs = PERSONHOOD_LEVELS_def SIGNAL_EVIDENCE_CLASSES_def NATURALNESS_CLASSES_def
  DEVICE_ATTESTATION_CLASSES_def DEVICE_LINK_CLASSES_def DEVICE_CHURN_CLASSES_def REPORT_CONSISTENCY_CLASSES_def
  SIGNAL_METRICS_def SIGNAL_BUCKETS_def CEREMONY_ANOMALY_FLAGS_def

text \<open>The contract of a registry: every name has a code of its own.\<close>

locale code_registry =
  fixes pairs :: "('n \<times> nat) list"
  assumes names_total: "name \<in> fst ` set pairs"
    and names_once: "distinct (map fst pairs)"
    and codes_once: "distinct (map snd pairs)"
begin

lemma codeOf_pairs: "codeOf pairs name = Inr c \<longleftrightarrow> (name, c) \<in> set pairs"
proof -
  have "distinct (map fst (rev pairs))" using names_once by (simp add: rev_map [symmetric])
  then have "map_of (rev pairs) name = Some c \<longleftrightarrow> (name, c) \<in> set pairs" for c
    by (simp add: map_of_eq_Some_iff)
  then show ?thesis by (cases "map_of (rev pairs) name") (auto simp: codeOf_def)
qed

lemma fromCode_pairs: "fromCode pairs c = Some name \<longleftrightarrow> (name, c) \<in> set pairs"
proof -
  have "map fst (rev (map (\<lambda>(n, c). (c, n)) pairs)) = rev (map snd pairs)"
    by (simp add: rev_map [symmetric] comp_def case_prod_beta)
  then have "distinct (map fst (rev (map (\<lambda>(n, c). (c, n)) pairs)))" using codes_once by (simp only: distinct_rev)
  then show ?thesis by (auto simp: fromCode_def map_of_eq_Some_iff)
qed

lemma codeOf_total: "\<exists>c. codeOf pairs name = Inr c"
  using names_total [of name] by (auto simp: codeOf_pairs)

lemma fromCode_codeOf: "codeOf pairs name = Inr c \<longleftrightarrow> fromCode pairs c = Some name"
  by (simp add: codeOf_pairs fromCode_pairs)

lemma codeOf_inj: "codeOf pairs a = codeOf pairs b \<Longrightarrow> a = b"
  using codeOf_total [of a] by (metis fromCode_codeOf option.inject)

end

interpretation levels: code_registry PERSONHOOD_LEVELS
proof
  fix name :: personhood_level
  show "name \<in> fst ` set PERSONHOOD_LEVELS" by (cases name) (simp_all add: registry_defs)
qed (simp_all add: registry_defs)

interpretation evidence: code_registry SIGNAL_EVIDENCE_CLASSES
proof
  fix name :: evidence_class
  show "name \<in> fst ` set SIGNAL_EVIDENCE_CLASSES" by (cases name) (simp_all add: registry_defs)
qed (simp_all add: registry_defs)

interpretation naturalness: code_registry NATURALNESS_CLASSES
proof
  fix name :: naturalness_class
  show "name \<in> fst ` set NATURALNESS_CLASSES" by (cases name) (simp_all add: registry_defs)
qed (simp_all add: registry_defs)

interpretation attestation: code_registry DEVICE_ATTESTATION_CLASSES
proof
  fix name :: attestation_class
  show "name \<in> fst ` set DEVICE_ATTESTATION_CLASSES" by (cases name) (simp_all add: registry_defs)
qed (simp_all add: registry_defs)

interpretation links: code_registry DEVICE_LINK_CLASSES
proof
  fix name :: link_class
  show "name \<in> fst ` set DEVICE_LINK_CLASSES" by (cases name) (simp_all add: registry_defs)
qed (simp_all add: registry_defs)

interpretation churn: code_registry DEVICE_CHURN_CLASSES
proof
  fix name :: churn_class
  show "name \<in> fst ` set DEVICE_CHURN_CLASSES" by (cases name) (simp_all add: registry_defs)
qed (simp_all add: registry_defs)

interpretation consistency: code_registry REPORT_CONSISTENCY_CLASSES
proof
  fix name :: consistency_class
  show "name \<in> fst ` set REPORT_CONSISTENCY_CLASSES" by (cases name) (simp_all add: registry_defs)
qed (simp_all add: registry_defs)

interpretation metrics: code_registry SIGNAL_METRICS
proof
  fix name :: metric
  show "name \<in> fst ` set SIGNAL_METRICS" by (cases name) (simp_all add: registry_defs)
qed (simp_all add: registry_defs)

interpretation buckets: code_registry SIGNAL_BUCKETS
proof
  fix name :: bucket
  show "name \<in> fst ` set SIGNAL_BUCKETS" by (cases name) (simp_all add: registry_defs)
qed (simp_all add: registry_defs)

interpretation flags: code_registry CEREMONY_ANOMALY_FLAGS
proof
  fix name :: anomaly_flag
  show "name \<in> fst ` set CEREMONY_ANOMALY_FLAGS" by (cases name) (simp_all add: registry_defs)
qed (simp_all add: registry_defs)

lemma no_code_0:
  "fromCode SIGNAL_EVIDENCE_CLASSES 0 = None" "fromCode NATURALNESS_CLASSES 0 = None"
  "fromCode DEVICE_ATTESTATION_CLASSES 0 = None" "fromCode DEVICE_LINK_CLASSES 0 = None"
  "fromCode DEVICE_CHURN_CLASSES 0 = None" "fromCode REPORT_CONSISTENCY_CLASSES 0 = None"
  "fromCode SIGNAL_METRICS 0 = None" "fromCode CEREMONY_ANOMALY_FLAGS 0 = None"
  by (simp_all add: fromCode_def registry_defs)

text \<open>
  Wire codes are unambiguous in every registry: a name has a code, a code belongs to at most one
  name, reading a written code gives the name back, and an unknown code gives nothing. The code 0
  is used by the two ordinal scales only.
\<close>

theorem wire_codes_round_trip:
  "(codeOf PERSONHOOD_LEVELS n1 = Inr c \<longleftrightarrow> fromCode PERSONHOOD_LEVELS c = Some n1) \<and>
   (codeOf SIGNAL_EVIDENCE_CLASSES n2 = Inr c \<longleftrightarrow> fromCode SIGNAL_EVIDENCE_CLASSES c = Some n2) \<and>
   (codeOf NATURALNESS_CLASSES n3 = Inr c \<longleftrightarrow> fromCode NATURALNESS_CLASSES c = Some n3) \<and>
   (codeOf DEVICE_ATTESTATION_CLASSES n4 = Inr c \<longleftrightarrow> fromCode DEVICE_ATTESTATION_CLASSES c = Some n4) \<and>
   (codeOf DEVICE_LINK_CLASSES n5 = Inr c \<longleftrightarrow> fromCode DEVICE_LINK_CLASSES c = Some n5) \<and>
   (codeOf DEVICE_CHURN_CLASSES n6 = Inr c \<longleftrightarrow> fromCode DEVICE_CHURN_CLASSES c = Some n6) \<and>
   (codeOf REPORT_CONSISTENCY_CLASSES n7 = Inr c \<longleftrightarrow> fromCode REPORT_CONSISTENCY_CLASSES c = Some n7) \<and>
   (codeOf SIGNAL_METRICS n8 = Inr c \<longleftrightarrow> fromCode SIGNAL_METRICS c = Some n8) \<and>
   (codeOf SIGNAL_BUCKETS n9 = Inr c \<longleftrightarrow> fromCode SIGNAL_BUCKETS c = Some n9) \<and>
   (codeOf CEREMONY_ANOMALY_FLAGS n10 = Inr c \<longleftrightarrow> fromCode CEREMONY_ANOMALY_FLAGS c = Some n10) \<and>
   fromCode SIGNAL_EVIDENCE_CLASSES 0 = None \<and> fromCode NATURALNESS_CLASSES 0 = None \<and>
   fromCode DEVICE_ATTESTATION_CLASSES 0 = None \<and> fromCode DEVICE_LINK_CLASSES 0 = None \<and>
   fromCode DEVICE_CHURN_CLASSES 0 = None \<and> fromCode REPORT_CONSISTENCY_CLASSES 0 = None \<and>
   fromCode SIGNAL_METRICS 0 = None \<and> fromCode CEREMONY_ANOMALY_FLAGS 0 = None"
  by (simp only: no_code_0 levels.fromCode_codeOf evidence.fromCode_codeOf naturalness.fromCode_codeOf
      attestation.fromCode_codeOf links.fromCode_codeOf churn.fromCode_codeOf consistency.fromCode_codeOf
      metrics.fromCode_codeOf buckets.fromCode_codeOf flags.fromCode_codeOf simp_thms)

section \<open>Buckets\<close>

definition TEMPORAL_METRICS :: "metric list" where
  "TEMPORAL_METRICS = [NsT1Burstiness, NsT2aRestShare, NsT2bPeakShare, NsT2cSelfSimilarity]"

fun bucketEdges :: "metric \<Rightarrow> int list option" where
  "bucketEdges NsT1Burstiness = Some [-600, -200, 200, 600]"
| "bucketEdges NsT2aRestShare = Some [25, 75, 150, 220]"
| "bucketEdges NsT2bPeakShare = Some [60, 90, 260, 550]"
| "bucketEdges NsT2cSelfSimilarity = Some [200, 400, 850, 950]"
| "bucketEdges _ = None"

fun findIndex :: "('a \<Rightarrow> bool) \<Rightarrow> 'a list \<Rightarrow> nat option" where
  "findIndex P [] = None"
| "findIndex P (x # xs) = (if P x then Some 0 else map_option Suc (findIndex P xs))"

definition quantize :: "metric \<Rightarrow> int \<Rightarrow> bucket option" where
  "quantize m raw =
     (case bucketEdges m of
        None \<Rightarrow> None
      | Some edges \<Rightarrow>
          fromCode SIGNAL_BUCKETS (case findIndex (\<lambda>e. raw < e) edges of None \<Rightarrow> 4 | Some i \<Rightarrow> i))"

record temporal_buckets =
  tb_burstiness :: "bucket option"
  tb_restShare :: "bucket option"
  tb_peakShare :: "bucket option"
  tb_selfSimilarity :: "bucket option"

definition emptyTemporalBuckets :: temporal_buckets where
  "emptyTemporalBuckets =
     \<lparr>tb_burstiness = None, tb_restShare = None, tb_peakShare = None, tb_selfSimilarity = None\<rparr>"

fun getBucket :: "temporal_buckets \<Rightarrow> metric \<Rightarrow> bucket option" where
  "getBucket p NsT1Burstiness = tb_burstiness p"
| "getBucket p NsT2aRestShare = tb_restShare p"
| "getBucket p NsT2bPeakShare = tb_peakShare p"
| "getBucket p NsT2cSelfSimilarity = tb_selfSimilarity p"
| "getBucket p _ = None"

text \<open>The boolean result of \<open>setBucket\<close> is not used by its caller; the object is returned updated.\<close>

fun setBucket :: "temporal_buckets \<Rightarrow> metric \<Rightarrow> bucket \<Rightarrow> temporal_buckets" where
  "setBucket p NsT1Burstiness b = p\<lparr>tb_burstiness := Some b\<rparr>"
| "setBucket p NsT2aRestShare b = p\<lparr>tb_restShare := Some b\<rparr>"
| "setBucket p NsT2bPeakShare b = p\<lparr>tb_peakShare := Some b\<rparr>"
| "setBucket p NsT2cSelfSimilarity b = p\<lparr>tb_selfSimilarity := Some b\<rparr>"
| "setBucket p _ b = p"

record raw_metrics =
  rw_burstiness :: "int option"
  rw_restShare :: "int option"
  rw_peakShare :: "int option"
  rw_selfSimilarity :: "int option"

definition quantizeRaw :: "raw_metrics \<Rightarrow> temporal_buckets" where
  "quantizeRaw raw =
     \<lparr>tb_burstiness = Option.bind (rw_burstiness raw) (quantize NsT1Burstiness),
      tb_restShare = Option.bind (rw_restShare raw) (quantize NsT2aRestShare),
      tb_peakShare = Option.bind (rw_peakShare raw) (quantize NsT2bPeakShare),
      tb_selfSimilarity = Option.bind (rw_selfSimilarity raw) (quantize NsT2cSelfSimilarity)\<rparr>"

type_synonym report_row = "metric \<times> bucket"

definition toReportBuckets :: "temporal_buckets \<Rightarrow> report_row list" where
  "toReportBuckets p = List.map_filter (\<lambda>m. map_option (\<lambda>b. (m, b)) (getBucket p m)) TEMPORAL_METRICS"

datatype report_error = Non_temporal_metric | Duplicate_metric | Out_of_order

text \<open>Every metric is in the registry, so \<open>codeOf\<close> does not throw here (\<open>metrics.codeOf_total\<close>).\<close>

definition metric_code :: "metric \<Rightarrow> nat" where
  "metric_code m = (case codeOf SIGNAL_METRICS m of Inr c \<Rightarrow> c | Inl _ \<Rightarrow> 0)"

fun scan_rows :: "report_row list \<Rightarrow> nat option \<Rightarrow> temporal_buckets \<Rightarrow> report_error + temporal_buckets" where
  "scan_rows [] prev p = Inr p"
| "scan_rows ((m, b) # rows) prev p =
     (if bucketEdges m = None then Inl Non_temporal_metric
      else if prev = Some (metric_code m) then Inl Duplicate_metric
      else if (case prev of None \<Rightarrow> False | Some k \<Rightarrow> metric_code m < k) then Inl Out_of_order
      else scan_rows rows (Some (metric_code m)) (setBucket p m b))"

definition temporalFromReport :: "report_row list \<Rightarrow> report_error + temporal_buckets" where
  "temporalFromReport rows = scan_rows rows None emptyTemporalBuckets"

subsection \<open>Canonical rows\<close>

lemma metric_code_simps [simp]:
  "metric_code NsT1Burstiness = 1" "metric_code NsT2aRestShare = 2" "metric_code NsT2bPeakShare = 3"
  "metric_code NsT2cSelfSimilarity = 4" "metric_code NsD2DeviceLink = 5" "metric_code NsD3DeviceChurn = 6"
  by (simp_all add: metric_code_def codeOf_def SIGNAL_METRICS_def)

lemma toReportBuckets_simp:
  "toReportBuckets p =
     (case tb_burstiness p of None \<Rightarrow> [] | Some b \<Rightarrow> [(NsT1Burstiness, b)]) @
     (case tb_restShare p of None \<Rightarrow> [] | Some b \<Rightarrow> [(NsT2aRestShare, b)]) @
     (case tb_peakShare p of None \<Rightarrow> [] | Some b \<Rightarrow> [(NsT2bPeakShare, b)]) @
     (case tb_selfSimilarity p of None \<Rightarrow> [] | Some b \<Rightarrow> [(NsT2cSelfSimilarity, b)])"
  by (simp add: toReportBuckets_def TEMPORAL_METRICS_def List.map_filter_def split: option.split)

definition unset_above :: "nat option \<Rightarrow> temporal_buckets \<Rightarrow> bool" where
  "unset_above prev p \<longleftrightarrow>
     (\<forall>m. (case prev of None \<Rightarrow> True | Some k \<Rightarrow> k < metric_code m) \<longrightarrow> getBucket p m = None)"

lemma set_next_row:
  assumes "unset_above prev p" "bucketEdges m \<noteq> None" "case prev of None \<Rightarrow> True | Some k \<Rightarrow> k < metric_code m"
  shows "toReportBuckets (setBucket p m b) = toReportBuckets p @ [(m, b)]"
    and "unset_above (Some (metric_code m)) (setBucket p m b)"
proof -
  have u: "getBucket p m' = None" if "metric_code m \<le> metric_code m'" for m'
    using assms(1,3) that by (auto simp: unset_above_def split: option.splits)
  show "toReportBuckets (setBucket p m b) = toReportBuckets p @ [(m, b)]"
    using assms(2) u [of NsT1Burstiness] u [of NsT2aRestShare] u [of NsT2bPeakShare] u [of NsT2cSelfSimilarity]
    by (cases m) (simp_all add: toReportBuckets_simp)
  show "unset_above (Some (metric_code m)) (setBucket p m b)"
    unfolding unset_above_def
  proof (intro allI impI)
    fix m'
    assume "case Some (metric_code m) of None \<Rightarrow> True | Some k \<Rightarrow> k < metric_code m'"
    then show "getBucket (setBucket p m b) m' = None"
      using u [of m'] by (cases m; cases m') simp_all
  qed
qed

lemma scan_rows_Inr:
  "scan_rows rows prev p = Inr q \<Longrightarrow> unset_above prev p \<Longrightarrow> toReportBuckets q = toReportBuckets p @ rows"
proof (induction rows arbitrary: prev p)
  case (Cons row rows)
  obtain m b where row: "row = (m, b)" by fastforce
  with Cons.prems(1) have ok: "bucketEdges m \<noteq> None" "case prev of None \<Rightarrow> True | Some k \<Rightarrow> k < metric_code m"
    and rest: "scan_rows rows (Some (metric_code m)) (setBucket p m b) = Inr q"
    by (auto split: if_splits option.splits)
  from set_next_row [OF Cons.prems(2) ok, of b] Cons.IH [OF rest] show ?case by (simp add: row)
qed simp

lemma scan_own_rows: "temporalFromReport (toReportBuckets p) = Inr p"
  by (cases "tb_burstiness p"; cases "tb_restShare p"; cases "tb_peakShare p"; cases "tb_selfSimilarity p")
    (simp_all add: temporalFromReport_def toReportBuckets_simp emptyTemporalBuckets_def)

text \<open>
  A profile has exactly one accepted report: the rows that \<open>temporalFromReport\<close> accepts for a profile are
  those that \<open>toReportBuckets\<close> writes for it, so no permutation, repetition or foreign metric gets through.
\<close>

theorem report_rows_are_canonical:
  "temporalFromReport rows = Inr p \<longleftrightarrow> rows = toReportBuckets p"
proof
  have "unset_above None emptyTemporalBuckets"
    unfolding unset_above_def by (intro allI impI, case_tac m) (simp_all add: emptyTemporalBuckets_def)
  moreover have "toReportBuckets emptyTemporalBuckets = []" by (simp add: toReportBuckets_simp emptyTemporalBuckets_def)
  ultimately show "temporalFromReport rows = Inr p \<Longrightarrow> rows = toReportBuckets p"
    using scan_rows_Inr [of rows None emptyTemporalBuckets p] by (simp add: temporalFromReport_def)
qed (simp add: scan_own_rows)

text \<open>
  Quantisation is a scale: each temporal metric maps every value to one of the five buckets, larger values
  never to a lower bucket; the metrics of devices have no bucket.
\<close>

theorem quantize_is_monotone:
  "(if m \<in> set TEMPORAL_METRICS
    then \<exists>b b'. quantize m raw = Some b \<and> quantize m (raw + int d) = Some b' \<and>
                (\<exists>c c'. codeOf SIGNAL_BUCKETS b = Inr c \<and> codeOf SIGNAL_BUCKETS b' = Inr c' \<and> c \<le> c')
    else quantize m raw = None)"
proof (cases "bucketEdges m")
  case None
  then show ?thesis by (cases m) (auto simp: quantize_def TEMPORAL_METRICS_def)
next
  case (Some es)
  let ?i = "\<lambda>r. case findIndex (\<lambda>e. r < e) es of None \<Rightarrow> 4 | Some i \<Rightarrow> i"
  from Some have m: "m \<in> set TEMPORAL_METRICS" and es: "length es = 4"
    by (cases m; auto simp: TEMPORAL_METRICS_def)+
  then obtain e0 e1 e2 e3 where l: "es = [e0, e1, e2, e3]"
    by (auto simp: numeral_eq_Suc length_Suc_conv)
  have i: "?i raw \<le> ?i (raw + int d)" "?i r \<le> 4" for r by (auto simp: l)
  have code: "k \<le> 4 \<Longrightarrow> \<exists>b. fromCode SIGNAL_BUCKETS k = Some b" for k
    by (auto simp: fromCode_def SIGNAL_BUCKETS_def)
  obtain b b' where b: "fromCode SIGNAL_BUCKETS (?i raw) = Some b" "fromCode SIGNAL_BUCKETS (?i (raw + int d)) = Some b'"
    using code i(2) by meson
  then have "codeOf SIGNAL_BUCKETS b = Inr (?i raw)" "codeOf SIGNAL_BUCKETS b' = Inr (?i (raw + int d))"
    by (simp_all add: buckets.fromCode_codeOf)
  with b i(1) m Some show ?thesis by (auto simp: quantize_def)
qed

section \<open>Epochs\<close>

definition EPOCH_LEN_S :: int where
  "EPOCH_LEN_S = 90 * 86400"

definition requireUnsignedInt :: "int \<Rightarrow> personhood_error + unit" where
  "requireUnsignedInt v = guardE (isSafeInteger v \<and> \<not> v < 0) BadUnsigned"

definition epochIndexAt :: "int \<Rightarrow> int \<Rightarrow> int \<Rightarrow> personhood_error + int option" where
  "epochIndexAt unixS genesisUnixS epochLenS =
     bindE (requireUnsignedInt unixS) (\<lambda>_. bindE (requireUnsignedInt genesisUnixS) (\<lambda>_.
       bindE (requireUnsignedInt epochLenS) (\<lambda>_.
         Inr (if epochLenS = 0 \<or> unixS < genesisUnixS then None
              else Some ((unixS - genesisUnixS) div epochLenS)))))"

text \<open>
  The floating-point sum and product are exact below \<open>2 ^ 53\<close> and stay above it otherwise, so the test of the
  result decides as it would on integers.
\<close>

definition epochStartS :: "int \<Rightarrow> int \<Rightarrow> int \<Rightarrow> personhood_error + int option" where
  "epochStartS genesisUnixS epochIndex epochLenS =
     bindE (requireUnsignedInt genesisUnixS) (\<lambda>_. bindE (requireUnsignedInt epochIndex) (\<lambda>_.
       bindE (requireUnsignedInt epochLenS) (\<lambda>_.
         let start = genesisUnixS + epochIndex * epochLenS
         in Inr (if isSafeInteger start then Some start else None))))"

definition epochIdBytes :: "int \<Rightarrow> int \<Rightarrow> personhood_error + bytes" where
  "epochIdBytes genesisUnixS epochIndex =
     bindE (requireUnsignedInt genesisUnixS) (\<lambda>_. bindE (requireUnsignedInt epochIndex) (\<lambda>_.
       Inr (le_bytes 8 genesisUnixS @ le_bytes 8 epochIndex)))"

lemma requireUnsignedInt_Inr [result_iff]: "requireUnsignedInt v = Inr u \<longleftrightarrow> 0 \<le> v \<and> v \<le> max_safe_int"
  by (auto simp: requireUnsignedInt_def guardE_def isSafeInteger_def max_safe_int_def)

text \<open>
  An epoch contains its moments: when a time has an epoch, the start of that epoch is defined, not after
  the time, and the time lies before the start of the next one.
\<close>

theorem epoch_contains_its_time:
  assumes "epochIndexAt u g len = Inr (Some i)"
  shows "0 \<le> i \<and> epochStartS g i len = Inr (Some (g + i * len)) \<and> g + i * len \<le> u \<and> u < g + (i + 1) * len"
proof -
  from assms have a: "0 \<le> u" "u \<le> max_safe_int" "0 \<le> g" "g \<le> max_safe_int" "0 < len" "len \<le> max_safe_int" "g \<le> u"
    and i: "i = (u - g) div len"
    by (auto simp: epochIndexAt_def result_iff split: if_splits)
  have "(u - g) div len * len + (u - g) mod len = u - g" by simp
  then have il: "i * len + (u - g) mod len = u - g" by (simp add: i)
  have m: "0 \<le> (u - g) mod len" "(u - g) mod len < len" using a(5) by simp_all
  have i0: "0 \<le> i" using a by (simp add: i pos_imp_zdiv_nonneg_iff)
  have "i * 1 \<le> i * len" using a(5) i0 by (intro mult_left_mono) auto
  then have "i \<le> max_safe_int" using il m a by linarith
  moreover have le: "g + i * len \<le> u" "0 \<le> i * len"
    subgoal using il m(1) by linarith
    subgoal using i0 a(5) by simp
    done
  ultimately have "requireUnsignedInt g = Inr ()" "requireUnsignedInt i = Inr ()" "requireUnsignedInt len = Inr ()"
    using a i0 by (simp_all add: requireUnsignedInt_Inr)
  moreover have "isSafeInteger (g + i * len)" using a le by (simp add: isSafeInteger_def max_safe_int_def)
  ultimately have "epochStartS g i len = Inr (Some (g + i * len))" by (simp add: epochStartS_def Let_def)
  moreover have "(i + 1) * len = i * len + len" by (simp add: algebra_simps)
  ultimately show ?thesis using i0 il m le(1) by linarith
qed

lemma epoch_contains_its_time_witness:
  "epochIndexAt 1800000000 1750000000 EPOCH_LEN_S = Inr (Some 6) \<and>
   epochStartS 1750000000 6 EPOCH_LEN_S = Inr (Some 1796656000) \<and>
   (1796656000 :: int) \<le> 1800000000 \<and> (1800000000 :: int) < 1750000000 + (6 + 1) * EPOCH_LEN_S"
proof -
  have "epochIndexAt 1800000000 1750000000 EPOCH_LEN_S = Inr (Some 6)"
    by (simp add: epochIndexAt_def requireUnsignedInt_def isSafeInteger_def max_safe_int_def EPOCH_LEN_S_def)
  from this epoch_contains_its_time [OF this] show ?thesis by (simp add: EPOCH_LEN_S_def)
qed

section \<open>The tag of the device and the report\<close>

definition deviceTagEpoch :: "(bytes \<Rightarrow> bytes) \<Rightarrow> bytes \<Rightarrow> bytes \<Rightarrow> personhood_error + bytes" where
  "deviceTagEpoch derive_key pkDevice epochId =
     (if length pkDevice \<noteq> 32 then Inl (BadKey (length pkDevice))
      else if length epochId \<noteq> 16 then Inl (BadEpochId (length epochId))
      else Inr (derive_key (pkDevice @ epochId)))"

record epoch_report =
  er_epochIndex :: int
  er_deviceTag :: bytes
  er_temporalBuckets :: "report_row list"

definition buildEpochReport ::
  "(bytes \<Rightarrow> bytes) \<Rightarrow> bytes \<Rightarrow> int \<Rightarrow> int \<Rightarrow> raw_metrics \<Rightarrow> personhood_error + epoch_report" where
  "buildEpochReport derive_key pkDevice genesisUnixS epochIndex raw =
     bindE (epochIdBytes genesisUnixS epochIndex) (\<lambda>epochId.
       bindE (deviceTagEpoch derive_key pkDevice epochId) (\<lambda>tag.
         Inr \<lparr>er_epochIndex = epochIndex, er_deviceTag = tag,
              er_temporalBuckets = toReportBuckets (quantizeRaw raw)\<rparr>))"

lemma le_bytes_8_inj:
  "0 \<le> a \<Longrightarrow> a \<le> max_safe_int \<Longrightarrow> 0 \<le> b \<Longrightarrow> b \<le> max_safe_int \<Longrightarrow> le_bytes 8 a = le_bytes 8 b \<Longrightarrow> a = b"
proof -
  assume r: "0 \<le> a" "a \<le> max_safe_int" "0 \<le> b" "b \<le> max_safe_int" and "le_bytes 8 a = le_bytes 8 b"
  then have "a mod 256 ^ 8 = b mod 256 ^ 8" by (metis le_value_le_bytes)
  with r show "a = b" by (simp add: max_safe_int_def)
qed

lemma buildEpochReport_Inr:
  assumes "buildEpochReport H pk g e raw = Inr r"
  shows "0 \<le> g" "g \<le> max_safe_int" "0 \<le> e" "e \<le> max_safe_int" "length pk = 32" "er_epochIndex r = e"
    "er_deviceTag r = H (pk @ le_bytes 8 g @ le_bytes 8 e)" "er_temporalBuckets r = toReportBuckets (quantizeRaw raw)"
  using assms by (auto simp: buildEpochReport_def epochIdBytes_def deviceTagEpoch_def result_iff split: if_splits)

text \<open>
  A tag names one device in one epoch of one installation: two reports with the same tag come from the
  same key, genesis and epoch, or exhibit two inputs of 48 bytes on which the key derivation collides.
\<close>

theorem device_tag_binds_key_and_epoch:
  assumes "buildEpochReport H pk g e raw = Inr r" "buildEpochReport H pk' g' e' raw' = Inr r'"
    and "er_deviceTag r = er_deviceTag r'"
  shows "(pk = pk' \<and> g = g' \<and> e = e') \<or>
         (\<exists>x y. x \<noteq> y \<and> length x = 48 \<and> length y = 48 \<and> H x = H y)"
proof (cases "pk @ le_bytes 8 g @ le_bytes 8 e = pk' @ le_bytes 8 g' @ le_bytes 8 e'")
  case True
  note r = buildEpochReport_Inr [OF assms(1)] and r' = buildEpochReport_Inr [OF assms(2)]
  from True have "pk = pk'" "le_bytes 8 g = le_bytes 8 g'" "le_bytes 8 e = le_bytes 8 e'" using r(5) r'(5) by simp_all
  then show ?thesis
    using le_bytes_8_inj [OF r(1,2) r'(1,2)] le_bytes_8_inj [OF r(3,4) r'(3,4)] by simp
next
  case False
  note r = buildEpochReport_Inr [OF assms(1)] and r' = buildEpochReport_Inr [OF assms(2)]
  from assms(3) have "H (pk @ le_bytes 8 g @ le_bytes 8 e) = H (pk' @ le_bytes 8 g' @ le_bytes 8 e')"
    using r(7) r'(7) by simp
  with False r(5) r'(5) show ?thesis
    by (intro disjI2 exI [of _ "pk @ le_bytes 8 g @ le_bytes 8 e"] exI [of _ "pk' @ le_bytes 8 g' @ le_bytes 8 e'"]) simp
qed

definition quiet_day :: "int \<Rightarrow> raw_metrics" where
  "quiet_day b = \<lparr>rw_burstiness = Some b, rw_restShare = None, rw_peakShare = Some 80, rw_selfSimilarity = None\<rparr>"

lemma device_tag_binds_key_and_epoch_witness:
  "\<exists>r r'. buildEpochReport rev (replicate 32 7) 100 3 (quiet_day 120) = Inr r \<and>
          buildEpochReport rev (replicate 32 7) 100 3 (quiet_day 700) = Inr r' \<and> r \<noteq> r' \<and>
          (replicate 32 (7 :: byte) = replicate 32 7 \<and> (100 :: int) = 100 \<and> (3 :: int) = 3 \<or>
           (\<exists>x y :: bytes. x \<noteq> y \<and> length x = 48 \<and> length y = 48 \<and> rev x = rev y))"
proof -
  have ex: "\<exists>r. buildEpochReport rev (replicate 32 7) 100 3 (quiet_day b) = Inr r" for b
    by (simp add: buildEpochReport_def epochIdBytes_def deviceTagEpoch_def requireUnsignedInt_def isSafeInteger_def
        max_safe_int_def)
  obtain r r' where r: "buildEpochReport rev (replicate 32 7) 100 3 (quiet_day 120) = Inr r"
      "buildEpochReport rev (replicate 32 7) 100 3 (quiet_day 700) = Inr r'" using ex by blast
  then have "er_deviceTag r = er_deviceTag r'" by (simp add: buildEpochReport_Inr(7))
  note bound = device_tag_binds_key_and_epoch [OF r this]
  have "er_temporalBuckets r \<noteq> er_temporalBuckets r'"
    unfolding buildEpochReport_Inr(8) [OF r(1)] buildEpochReport_Inr(8) [OF r(2)] by code_simp
  then have "r \<noteq> r'" by auto
  with bound r show ?thesis by blast
qed

text \<open>
  Only buckets leave the device: for one device and epoch the report depends on the raw metrics through
  their buckets alone, and the server reads exactly these buckets from it.
\<close>

theorem report_reveals_buckets_only:
  "(quantizeRaw raw = quantizeRaw raw' \<longrightarrow>
      buildEpochReport H pk g e raw = buildEpochReport H pk g e raw') \<and>
   (case buildEpochReport H pk g e raw of
      Inr r \<Rightarrow> temporalFromReport (er_temporalBuckets r) = Inr (quantizeRaw raw)
    | Inl err \<Rightarrow> buildEpochReport H pk g e raw' = Inl err)"
  by (auto simp: buildEpochReport_def epochIdBytes_def scan_own_rows split: sum.split)
    (auto simp: deviceTagEpoch_def requireUnsignedInt_def guardE_def scan_own_rows split: if_splits)

end
