(* ===== verification/Auth_BirthDate.thy ===== *)
theory Auth_BirthDate
  imports Flora_Prelude
begin

text \<open>
  The input mask of a birth date (\<open>packages/flora-client-core/src/auth/birthDateMask.ts\<close>): which digits of
  \<open>DDMMYYYY\<close> may be typed next, and the conversion to and from the ISO date. The clock of the host is a
  parameter: today's local date, and how many minutes local time is ahead of UTC at noon of a date.
\<close>

section \<open>The calendar\<close>

record clock =
  today_year :: nat
  today_month :: nat
  today_day :: nat
  noon_offset :: "nat \<Rightarrow> nat \<Rightarrow> nat \<Rightarrow> int"

definition DAYS_IN_MONTH :: "nat list" where
  "DAYS_IN_MONTH = [31, 28, 31, 30, 31, 30, 31, 31, 30, 31, 30, 31]"

definition BIRTH_YEAR_MIN :: nat where
  "BIRTH_YEAR_MIN = 1900"

definition BIRTH_YEAR_MAX :: nat where
  "BIRTH_YEAR_MAX = 2100"

definition iso_date :: "nat \<Rightarrow> nat \<Rightarrow> nat \<Rightarrow> js_string" where
  "iso_date y m d = padStart0 4 (dec_digits y) @ [45] @ padStart0 2 (dec_digits m) @ [45] @ padStart0 2 (dec_digits d)"

text \<open>The year is written without padding here.\<close>

definition getBirthDateMaxIso :: "clock \<Rightarrow> js_string" where
  "getBirthDateMaxIso C =
     dec_digits (today_year C) @ [45] @ padStart0 2 (dec_digits (today_month C)) @ [45] @
     padStart0 2 (dec_digits (today_day C))"

definition isDateNotAfterToday :: "clock \<Rightarrow> nat \<Rightarrow> nat \<Rightarrow> nat \<Rightarrow> bool" where
  "isDateNotAfterToday C day month year =
     (if year > today_year C then False
      else if year < today_year C then True
      else if month > today_month C then False
      else if month < today_month C then True
      else day \<le> today_day C)"

definition isLeapYear :: "nat \<Rightarrow> bool" where
  "isLeapYear year \<longleftrightarrow> year mod 4 = 0 \<and> year mod 100 \<noteq> 0 \<or> year mod 400 = 0"

definition isYearPrefixAllowed :: "clock \<Rightarrow> js_string \<Rightarrow> bool" where
  "isYearPrefixAllowed C prefix \<longleftrightarrow>
     prefix = [] \<or>
     list_ex (\<lambda>year. starts_with prefix (dec_digits year)) [BIRTH_YEAR_MIN..<Suc (today_year C)]"

definition isPartialBirthDateNotInFuture :: "clock \<Rightarrow> js_string \<Rightarrow> bool" where
  "isPartialBirthDateNotInFuture C digits =
     (if length digits < 4 then True
      else let day = dec_value (take 2 digits); month = dec_value (take 2 (drop 2 digits)); yearDigits = drop 4 digits
           in if length yearDigits = 4
              then (if dec_value yearDigits > today_year C then False
                    else isDateNotAfterToday C day month (dec_value yearDigits))
              else if yearDigits = [] then True
              else list_ex (\<lambda>year. starts_with yearDigits (dec_digits year) \<and> isDateNotAfterToday C day month year)
                     [BIRTH_YEAR_MIN..<Suc (today_year C)])"

definition maxDayForMonth :: "clock \<Rightarrow> nat \<Rightarrow> js_string \<Rightarrow> nat" where
  "maxDayForMonth C month yearDigits =
     (if month < 1 \<or> month > 12 then 0
      else let year = dec_value yearDigits;
               maxDay =
                 (if month = 2 then
                    (if length yearDigits = 4 then
                       (if BIRTH_YEAR_MIN \<le> year \<and> year \<le> BIRTH_YEAR_MAX then (if isLeapYear year then 29 else 28)
                        else 28)
                     else 28)
                  else DAYS_IN_MONTH ! (month - 1))
           in if length yearDigits = 4 \<and> year = today_year C \<and> month = today_month C
              then min maxDay (today_day C) else maxDay)"

section \<open>To ISO and back\<close>

definition days_in_month :: "nat \<Rightarrow> nat \<Rightarrow> nat" where
  "days_in_month y m = (if m = 2 \<and> isLeapYear y then 29 else DAYS_IN_MONTH ! (m - 1))"

text \<open>
  \<open>new Date("<iso>T12:00:00")\<close> is noon in local time, and its UTC date is compared with what was typed. A day
  that the month does not have is no date or rolls over into the next month, both different from what was
  typed; for a real date, noon lies \<open>720 - offset\<close> minutes after the midnight of the same UTC date.
\<close>

definition utc_date_is :: "clock \<Rightarrow> nat \<Rightarrow> nat \<Rightarrow> nat \<Rightarrow> bool" where
  "utc_date_is C y m d \<longleftrightarrow> d \<le> days_in_month y m \<and> (720 - noon_offset C y m d) div 1440 = 0"

definition only_digits :: "js_string \<Rightarrow> js_string" where
  "only_digits s = filter is_digit_unit s"

definition birthDateDigitsToIso :: "clock \<Rightarrow> js_string \<Rightarrow> js_string option" where
  "birthDateDigitsToIso C digits =
     (let ds = only_digits digits
      in if length ds \<noteq> 8 then None
         else let day = dec_value (take 2 ds); month = dec_value (take 2 (drop 2 ds)); year = dec_value (take 4 (drop 4 ds))
              in if day < 1 \<or> day > 31 \<or> month < 1 \<or> month > 12 \<or> year < BIRTH_YEAR_MIN \<or> year > today_year C then None
                 else if \<not> isDateNotAfterToday C day month year then None
                 else if \<not> utc_date_is C year month day then None
                 else Some (iso_date year month day))"

text \<open>\<open>ISO_RE\<close> on the trimmed text.\<close>

definition isoToBirthDateDigits :: "js_string \<Rightarrow> js_string" where
  "isoToBirthDateDigits isoDate =
     (let t = trim isoDate
      in if length t = 10 \<and> list_all is_digit_unit (take 4 t) \<and> t ! 4 = 45 \<and>
            list_all is_digit_unit (take 2 (drop 5 t)) \<and> t ! 7 = 45 \<and> list_all is_digit_unit (drop 8 t)
         then drop 8 t @ take 2 (drop 5 t) @ take 4 t
         else [])"

definition formatBirthDateDigits :: "js_string \<Rightarrow> js_string" where
  "formatBirthDateDigits digits =
     (let d = take 8 (only_digits digits)
      in if d = [] then []
         else take 2 d @ (if length d > 2 then 46 # take 2 (drop 2 d) else []) @
              (if length d > 4 then 46 # take 4 (drop 4 d) else []))"

definition isoToBirthDateDisplay :: "js_string \<Rightarrow> js_string" where
  "isoToBirthDateDisplay isoDate =
     (let digits = isoToBirthDateDigits isoDate in if digits = [] then [] else formatBirthDateDigits digits)"

definition isBirthDateDigitsComplete :: "js_string \<Rightarrow> bool" where
  "isBirthDateDigitsComplete digits \<longleftrightarrow> length (only_digits digits) = 8"

section \<open>The mask\<close>

definition isPartialBirthDateValid :: "clock \<Rightarrow> js_string \<Rightarrow> bool" where
  "isPartialBirthDateValid C digits =
     (if length digits < 4 then True
      else let day = dec_value (take 2 digits); month = dec_value (take 2 (drop 2 digits)); yearDigits = drop 4 digits
           in if month < 1 \<or> month > 12 \<or> day < 1 then False
              else if day > maxDayForMonth C month yearDigits then False
              else if yearDigits \<noteq> [] \<and> \<not> isYearPrefixAllowed C yearDigits then False
              else if \<not> isPartialBirthDateNotInFuture C digits then False
              else if length digits = 8 then birthDateDigitsToIso C digits \<noteq> None
              else True)"

definition isBirthDateDigitAllowed :: "clock \<Rightarrow> js_string \<Rightarrow> nat \<Rightarrow> bool" where
  "isBirthDateDigitAllowed C partial digit =
     (if \<not> is_digit_unit digit then False
      else if length partial \<ge> 8 then False
      else if length partial = 0 \<and> digit \<notin> {48, 49, 50, 51} then False
      else if length partial = 1 \<and> (partial ! 0 = 48 \<and> digit = 48 \<or> partial ! 0 = 51 \<and> digit \<notin> {48, 49}) then False
      else if length partial = 2 \<and> digit \<notin> {48, 49} then False
      else if length partial = 3 \<and>
              (partial ! 2 = 48 \<and> digit \<notin> {49, 50, 51, 52, 53, 54, 55, 56, 57} \<or>
               partial ! 2 = 49 \<and> digit \<notin> {48, 49, 50}) then False
      else isPartialBirthDateValid C (partial @ [digit]))"

fun extend_mask :: "clock \<Rightarrow> js_string \<Rightarrow> js_string \<Rightarrow> js_string" where
  "extend_mask C result [] = result"
| "extend_mask C result (ch # raw) =
     (if \<not> isBirthDateDigitAllowed C result ch then result else extend_mask C (result @ [ch]) raw)"

text \<open>The loop also stops at eight digits, where no further digit is allowed anyway.\<close>

fun filter_forward :: "clock \<Rightarrow> js_string \<Rightarrow> js_string \<Rightarrow> js_string" where
  "filter_forward C result [] = result"
| "filter_forward C result (ch # raw) =
     (if \<not> isBirthDateDigitAllowed C result ch then result
      else if length (result @ [ch]) \<ge> 8 then result @ [ch]
      else filter_forward C (result @ [ch]) raw)"

definition filterBirthDateDigitsForward :: "clock \<Rightarrow> js_string \<Rightarrow> js_string" where
  "filterBirthDateDigitsForward C raw = filter_forward C [] raw"

definition filterBirthDateDigits :: "clock \<Rightarrow> js_string \<Rightarrow> js_string \<Rightarrow> js_string" where
  "filterBirthDateDigits C attempted previousDigits =
     (let raw = take 8 (only_digits attempted)
      in if raw = [] then []
         else if length raw = 8 \<and> birthDateDigitsToIso C raw \<noteq> None then raw
         else let prev = only_digits previousDigits
              in if prev \<noteq> [] \<and> length raw < length prev then filterBirthDateDigitsForward C raw
                 else if prev \<noteq> [] \<and> starts_with prev raw then extend_mask C prev (drop (length prev) raw)
                 else filterBirthDateDigitsForward C raw)"

section \<open>Which dates are accepted\<close>

definition real_birth_date :: "clock \<Rightarrow> nat \<Rightarrow> nat \<Rightarrow> nat \<Rightarrow> bool" where
  "real_birth_date C y m d \<longleftrightarrow>
     1 \<le> m \<and> m \<le> 12 \<and> 1 \<le> d \<and> d \<le> days_in_month y m \<and> BIRTH_YEAR_MIN \<le> y \<and>
     (y < today_year C \<or> y = today_year C \<and> (m < today_month C \<or> m = today_month C \<and> d \<le> today_day C))"

lemma days_in_month_le: "1 \<le> m \<Longrightarrow> m \<le> 12 \<Longrightarrow> days_in_month y m \<le> 31"
proof -
  assume "1 \<le> m" "m \<le> 12"
  then have "m - 1 \<in> set [0..<12]" by auto
  then have "DAYS_IN_MONTH ! (m - 1) \<le> 31" by (auto simp: DAYS_IN_MONTH_def upt_rec)
  then show ?thesis by (simp add: days_in_month_def)
qed

lemma utc_noon: "(720 - k) div 1440 = 0 \<longleftrightarrow> - 720 < k \<and> k \<le> 720" for k :: int
  by (auto simp: div_eq_0_iff)

text \<open>
  The accepted birth dates: eight digits are converted exactly when they spell a date of the calendar from
  1900 to today and local noon of that date falls on the same date in UTC, that is, local time is at most
  12 hours ahead and less than 12 hours behind.
\<close>

theorem accepted_birth_dates:
  "birthDateDigitsToIso C s =
     (let ds = only_digits s; d = dec_value (take 2 ds); m = dec_value (take 2 (drop 2 ds)); y = dec_value (take 4 (drop 4 ds))
      in if length ds = 8 \<and> real_birth_date C y m d \<and> - 720 < noon_offset C y m d \<and> noon_offset C y m d \<le> 720
         then Some (iso_date y m d) else None)"
proof -
  have "real_birth_date C y m d \<longleftrightarrow>
      \<not> (d < 1 \<or> d > 31 \<or> m < 1 \<or> m > 12 \<or> y < BIRTH_YEAR_MIN \<or> y > today_year C) \<and>
      isDateNotAfterToday C d m y \<and> d \<le> days_in_month y m" for y m d
    using days_in_month_le [of m y] by (auto simp: real_birth_date_def isDateNotAfterToday_def)
  then show ?thesis
    by (simp add: birthDateDigitsToIso_def Let_def utc_date_is_def utc_noon)
qed

text \<open>
  East of UTC+12 no date is accepted at all: a user in a zone 13 hours ahead cannot enter any birth date.
\<close>

lemma no_birth_date_east_of_12_hours:
  assumes "\<forall>y m d. 720 < noon_offset C y m d"
  shows "birthDateDigitsToIso C s = None"
  using assms by (simp add: accepted_birth_dates Let_def not_le)

section \<open>Round trip\<close>

lemma dec_value_inj:
  "length s = length t \<Longrightarrow> list_all is_digit_unit s \<Longrightarrow> list_all is_digit_unit t \<Longrightarrow> dec_value s = dec_value t \<Longrightarrow> s = t"
proof (induction s arbitrary: t rule: rev_induct)
  case (snoc c s)
  then obtain d t' where t: "t = t' @ [d]" by (cases t rule: rev_cases) auto
  with snoc.prems have e: "dec_value s * 10 + (c - 48) = dec_value t' * 10 + (d - 48)"
    and r: "48 \<le> c" "c \<le> 57" "48 \<le> d" "d \<le> 57"
    by (auto simp: dec_value_append_digit is_digit_unit_def)
  from e r have "dec_value s = dec_value t'" by linarith
  with e r snoc t show ?case by auto
qed simp

lemma dec_value_less: "list_all is_digit_unit s \<Longrightarrow> dec_value s < 10 ^ length s"
proof (induction s rule: rev_induct)
  case (snoc c s)
  then have "dec_value s < 10 ^ length s" "c \<le> 57" by (auto simp: is_digit_unit_def)
  then show ?case by (simp add: dec_value_append_digit)
qed (simp add: dec_value_def)

lemma pad_dec_value:
  assumes "list_all is_digit_unit s" "0 < length s"
  shows "padStart0 (length s) (dec_digits (dec_value s)) = s"
proof (rule dec_value_inj)
  have "length (dec_digits (dec_value s)) \<le> length s"
    using length_dec_digits_le [OF assms(2) dec_value_less [OF assms(1)]] .
  then show "length (padStart0 (length s) (dec_digits (dec_value s))) = length s" by (rule length_padStart0)
  show "list_all is_digit_unit (padStart0 (length s) (dec_digits (dec_value s)))"
    using set_padStart0 [of "length s" "dec_digits (dec_value s)"] dec_digits_are_digits [of _ "dec_value s"]
    by (auto simp: list_all_iff is_digit_unit_def)
qed (simp_all add: assms)

lemma only_digits_digits [simp]: "list_all is_digit_unit (only_digits s)"
  by (auto simp: only_digits_def list_all_iff)

lemma digit_not_space: "is_digit_unit c \<Longrightarrow> \<not> is_space_unit c"
  by (auto simp: is_digit_unit_def is_space_unit_def)

lemma digits_not_space: "list_all is_digit_unit s \<Longrightarrow> s \<noteq> [] \<Longrightarrow> \<not> is_space_unit (hd s) \<and> \<not> is_space_unit (last s)"
  using digit_not_space hd_in_set [of s] last_in_set [of s] by (auto simp: list_all_iff)

text \<open>
  An accepted date reads back as typed: the digits of the ISO date are the eight digits it was made from.
\<close>

theorem birth_date_round_trip:
  assumes "birthDateDigitsToIso C s = Some isoDate"
  shows "isoToBirthDateDigits isoDate = only_digits s"
proof -
  let ?ds = "only_digits s"
  from assms have l: "length ?ds = 8"
    and i: "isoDate = iso_date (dec_value (take 4 (drop 4 ?ds))) (dec_value (take 2 (drop 2 ?ds))) (dec_value (take 2 ?ds))"
    by (auto simp: accepted_birth_dates Let_def split: if_splits)
  define a b c where "a = take 2 ?ds" and "b = take 2 (drop 2 ?ds)" and "c = take 4 (drop 4 ?ds)"
  have parts: "length a = 2" "length b = 2" "length c = 4" "?ds = a @ b @ c"
    using l append_take_drop_id [of 2 ?ds] append_take_drop_id [of 2 "drop 2 ?ds"] by (simp_all add: a_def b_def c_def)
  have d: "list_all is_digit_unit a" "list_all is_digit_unit b" "list_all is_digit_unit c"
    using only_digits_digits [of s] by (simp_all add: parts(4))
  have i': "isoDate = c @ [45] @ b @ [45] @ a"
    using pad_dec_value [OF d(1)] pad_dec_value [OF d(2)] pad_dec_value [OF d(3)] parts
    by (simp add: i iso_date_def a_def [symmetric] b_def [symmetric] c_def [symmetric])
  have "trim isoDate = isoDate"
    using digits_not_space [OF d(1)] digits_not_space [OF d(3)] parts
    by (intro trim_id) (auto simp: i' hd_append)
  then show ?thesis using parts d by (simp add: isoToBirthDateDigits_def i' Let_def nth_append numeral_eq_Suc)
qed

section \<open>The mask keeps dates possible\<close>

definition mask_ok :: "clock \<Rightarrow> js_string \<Rightarrow> bool" where
  "mask_ok C s \<longleftrightarrow> list_all is_digit_unit s \<and> length s \<le> 8 \<and> isPartialBirthDateValid C s"

lemma allowed_ok: "mask_ok C s \<Longrightarrow> isBirthDateDigitAllowed C s ch \<Longrightarrow> mask_ok C (s @ [ch])"
  by (auto simp: mask_ok_def isBirthDateDigitAllowed_def split: if_splits)

lemma extend_mask_ok: "mask_ok C s \<Longrightarrow> mask_ok C (extend_mask C s raw)"
  by (induction C s raw rule: extend_mask.induct) (auto intro: allowed_ok)

lemma filter_forward_ok: "mask_ok C s \<Longrightarrow> mask_ok C (filter_forward C s raw)"
  by (induction C s raw rule: filter_forward.induct) (auto intro: allowed_ok)

lemma mask_ok_Nil [simp]: "mask_ok C []"
  by (simp add: mask_ok_def isPartialBirthDateValid_def)

lemma four_digits: "1000 \<le> y \<Longrightarrow> y < 10000 \<Longrightarrow> length (dec_digits y) = 4"
proof -
  assume y: "1000 \<le> y" "y < 10000"
  have "length (dec_digits y) = length (dec_digits (y div 10)) + 1"
    using y by (subst dec_digits.simps) simp
  also have "length (dec_digits (y div 10)) = length (dec_digits (y div 10 div 10)) + 1"
    using y by (subst dec_digits.simps) simp
  also have "length (dec_digits (y div 10 div 10)) = length (dec_digits (y div 10 div 10 div 10)) + 1"
    using y by (subst dec_digits.simps) simp
  also have "length (dec_digits (y div 10 div 10 div 10)) = 1"
    using y by (subst dec_digits.simps) simp
  finally show ?thesis by simp
qed

lemma year_digits:
  assumes "list_all is_digit_unit s" "length s = 4" "1000 \<le> dec_value s"
  shows "dec_digits (dec_value s) = s"
  using pad_dec_value [OF assms(1)] four_digits [OF assms(3)] dec_value_less [OF assms(1)] assms(2)
  by (simp add: padStart0_def)

lemma real_date_max_day:
  assumes "real_birth_date C (dec_value yd) m d" "length yd = 4" "today_year C \<le> BIRTH_YEAR_MAX"
  shows "d \<le> maxDayForMonth C m yd"
  using assms by (auto simp: real_birth_date_def maxDayForMonth_def Let_def days_in_month_def BIRTH_YEAR_MIN_def
      BIRTH_YEAR_MAX_def DAYS_IN_MONTH_def)

lemma full_date_ok:
  assumes "list_all is_digit_unit s" "length s = 8" "birthDateDigitsToIso C s \<noteq> None" "today_year C \<le> BIRTH_YEAR_MAX"
  shows "mask_ok C s"
proof -
  define d m yd where "d = dec_value (take 2 s)" and "m = dec_value (take 2 (drop 2 s))" and "yd = drop 4 s"
  have s: "only_digits s = s" using assms(1) by (auto simp: only_digits_def list_all_iff filter_id_conv)
  have l: "length yd = 4" "list_all is_digit_unit yd" "take 4 (drop 4 s) = yd"
    using assms(1,2) by (auto simp: yd_def list_all_iff dest: in_set_dropD)
  with assms(3) have r: "real_birth_date C (dec_value yd) m d"
    by (auto simp: accepted_birth_dates s Let_def d_def m_def split: if_splits)
  then have y: "BIRTH_YEAR_MIN \<le> dec_value yd" "dec_value yd \<le> today_year C" by (auto simp: real_birth_date_def)
  then have "starts_with yd (dec_digits (dec_value yd))"
    using year_digits [OF l(2,1)] by (simp add: starts_with_def BIRTH_YEAR_MIN_def)
  then have "isYearPrefixAllowed C yd"
    using y by (auto simp: isYearPrefixAllowed_def list_ex_iff simp del: upt_Suc)
  moreover have "isPartialBirthDateNotInFuture C s"
    using r l assms(2) by (auto simp: isPartialBirthDateNotInFuture_def isDateNotAfterToday_def real_birth_date_def Let_def
        d_def [symmetric] m_def [symmetric] yd_def [symmetric])
  ultimately show ?thesis
    using r real_date_max_day [OF r l(1) assms(4)] assms(1,2,3)
    by (simp add: mask_ok_def isPartialBirthDateValid_def Let_def d_def [symmetric] m_def [symmetric] yd_def [symmetric])
      (auto simp: real_birth_date_def)
qed

text \<open>
  The mask never shows an impossible date: starting from a valid mask, whatever is typed or pasted, the
  result is a valid mask again, at most eight digits, and once it is complete it converts to an ISO date.
\<close>

theorem mask_stays_valid:
  assumes "mask_ok C prev" "today_year C \<le> BIRTH_YEAR_MAX"
  shows "mask_ok C (filterBirthDateDigits C attempted prev) \<and>
         (length (filterBirthDateDigits C attempted prev) = 8 \<longrightarrow>
          birthDateDigitsToIso C (filterBirthDateDigits C attempted prev) \<noteq> None)"
proof -
  let ?raw = "take 8 (only_digits attempted)"
  have prev: "only_digits prev = prev" using assms(1) by (auto simp: mask_ok_def only_digits_def list_all_iff filter_id_conv)
  have raw: "list_all is_digit_unit ?raw"
    using only_digits_digits [of attempted] by (auto simp: list_all_iff dest: in_set_takeD)
  have "mask_ok C (filterBirthDateDigits C attempted prev)"
    using full_date_ok [OF raw _ _ assms(2)] extend_mask_ok [OF assms(1)] filter_forward_ok [of C "[]"]
    by (auto simp: filterBirthDateDigits_def filterBirthDateDigitsForward_def Let_def prev)
  then show ?thesis by (auto simp: mask_ok_def isPartialBirthDateValid_def Let_def split: if_splits)
qed

section \<open>Concrete dates\<close>

definition moscow :: clock where
  "moscow = \<lparr>today_year = 2025, today_month = 6, today_day = 30, noon_offset = (\<lambda>_ _ _. 180)\<rparr>"

definition auckland_summer :: clock where
  "auckland_summer = \<lparr>today_year = 2025, today_month = 12, today_day = 30, noon_offset = (\<lambda>_ _ _. 780)\<rparr>"

lemma leap_day_accepted: "birthDateDigitsToIso moscow (js ''29.02.2000'') = Some (js ''2000-02-29'')"
  by (simp add: birthDateDigitsToIso_def only_digits_def is_digit_unit_def dec_value_def moscow_def utc_date_is_def
      days_in_month_def isLeapYear_def isDateNotAfterToday_def BIRTH_YEAR_MIN_def iso_date_def padStart0_def
      dec_digits.simps Let_def)

lemma birth_date_round_trip_witness: "isoToBirthDateDigits (js ''2000-02-29'') = only_digits (js ''29.02.2000'')"
  by (rule birth_date_round_trip [OF leap_day_accepted])

lemma auckland_rejects: "birthDateDigitsToIso auckland_summer (js ''15.01.1990'') = None"
  by (rule no_birth_date_east_of_12_hours) (simp add: auckland_summer_def)

lemma mask_stays_valid_witness:
  "mask_ok moscow (filterBirthDateDigits moscow (js ''28.02.2001'') (js ''2802'')) \<and> mask_ok moscow (js ''2802'')"
proof -
  have "mask_ok moscow (js ''2802'')"
    by (simp add: mask_ok_def is_digit_unit_def isPartialBirthDateValid_def dec_value_def maxDayForMonth_def moscow_def
        isPartialBirthDateNotInFuture_def Let_def)
  then show ?thesis using mask_stays_valid [of moscow "js ''2802''"] by (simp add: moscow_def BIRTH_YEAR_MAX_def)
qed

end
