(* ===== verification/Fscp_Session.thy ===== *)
theory Fscp_Session
  imports Flora_Prelude
begin

text \<open>
  The state machine of a one-to-one encrypted conversation
  (\<open>products/FSCP/ts/src/conversationSession.ts\<close>): which failures freeze what is sent, and how a frozen
  conversation comes back.
\<close>

section \<open>State\<close>

datatype session_state = Uninitialized | Ready | Compromised_local

datatype compromise_reason = Device_revoked | Epoch_identity_changed | User_reset | Decrypt_failure

text \<open>The categories of \<open>FscpDecryptError\<close> (\<open>envelope.ts\<close>).\<close>

datatype decrypt_failure =
    Not_fscp_wire | Malformed_envelope | Signature_missing | Signature_invalid | No_recipient_entry
  | Rke_unwrap_failed | Body_decrypt_failed | Malformed_plaintext

text \<open>A missing counter counts as 0.\<close>

record conversation_session =
  cs_conversationUuid :: js_string
  cs_keyEpochId :: js_string
  cs_peerUserUuid :: js_string
  cs_state :: session_state
  cs_lastInbound :: "js_string option"
  cs_lastOutbound :: "js_string option"
  cs_reason :: "compromise_reason option"
  cs_failures :: nat

definition createConversationSession :: "js_string \<Rightarrow> js_string \<Rightarrow> js_string \<Rightarrow> conversation_session" where
  "createConversationSession conversationUuid keyEpochId peerUserUuid =
     \<lparr>cs_conversationUuid = toLowerCase conversationUuid, cs_keyEpochId = toLowerCase keyEpochId,
      cs_peerUserUuid = toLowerCase peerUserUuid, cs_state = Uninitialized,
      cs_lastInbound = None, cs_lastOutbound = None, cs_reason = None, cs_failures = 0\<rparr>"

definition canSendOutbound :: "conversation_session \<Rightarrow> bool" where
  "canSendOutbound s \<longleftrightarrow> cs_state s \<noteq> Compromised_local"

section \<open>Operations\<close>

text \<open>The second component is \<open>isNewMessage\<close>.\<close>

definition noteInboundDecrypted :: "conversation_session \<Rightarrow> js_string \<Rightarrow> conversation_session \<times> bool" where
  "noteInboundDecrypted s messageUuid =
     (let uuid = toLowerCase messageUuid
      in if cs_lastInbound s = Some uuid then (s, False)
         else (s\<lparr>cs_state := (if cs_state s = Compromised_local then Compromised_local else Ready),
                 cs_lastInbound := Some uuid, cs_failures := 0\<rparr>, True))"

definition FSCP_DECRYPT_COMPROMISE_THRESHOLD :: nat where
  "FSCP_DECRYPT_COMPROMISE_THRESHOLD = 3"

datatype failure_impact = Key_mismatch_suspect | Envelope_rejected

definition classifyDecryptFailure :: "decrypt_failure \<Rightarrow> failure_impact" where
  "classifyDecryptFailure c =
     (case c of Rke_unwrap_failed \<Rightarrow> Key_mismatch_suspect
      | Body_decrypt_failed \<Rightarrow> Key_mismatch_suspect
      | _ \<Rightarrow> Envelope_rejected)"

text \<open>The second component is \<open>compromisedNow\<close>.\<close>

definition noteInboundDecryptFailure :: "conversation_session \<Rightarrow> decrypt_failure \<Rightarrow> conversation_session \<times> bool" where
  "noteInboundDecryptFailure s category =
     (if cs_state s = Compromised_local then (s, False)
      else if classifyDecryptFailure category = Envelope_rejected then (s, False)
      else let failures = cs_failures s + 1
           in if failures \<ge> FSCP_DECRYPT_COMPROMISE_THRESHOLD
              then (s\<lparr>cs_state := Compromised_local, cs_reason := Some Decrypt_failure, cs_failures := failures\<rparr>, True)
              else (s\<lparr>cs_failures := failures\<rparr>, False))"

text \<open>\<open>None\<close> is the error thrown when the conversation is frozen.\<close>

definition noteOutboundAccepted :: "conversation_session \<Rightarrow> js_string \<Rightarrow> conversation_session option" where
  "noteOutboundAccepted s messageUuid =
     (if cs_state s = Compromised_local then None
      else Some (s\<lparr>cs_state := Ready, cs_lastOutbound := Some (toLowerCase messageUuid)\<rparr>))"

definition markCompromisedLocal :: "conversation_session \<Rightarrow> compromise_reason \<Rightarrow> conversation_session" where
  "markCompromisedLocal s reason =
     (if cs_state s = Compromised_local then s
      else s\<lparr>cs_state := Compromised_local, cs_reason := Some reason\<rparr>)"

datatype device_status = Active | Pending | Revoked

text \<open>The second component is \<open>acceptInbound\<close>; \<open>None\<close> is a device the server does not list.\<close>

definition evaluateInboundSenderDevice :: "conversation_session \<Rightarrow> device_status option \<Rightarrow> conversation_session \<times> bool" where
  "evaluateInboundSenderDevice s status =
     (if status = Some Revoked then (markCompromisedLocal s Device_revoked, False) else (s, True))"

definition reHandshake :: "conversation_session \<Rightarrow> js_string option \<Rightarrow> conversation_session" where
  "reHandshake s newKeyEpochId =
     createConversationSession (cs_conversationUuid s)
       (case newKeyEpochId of None \<Rightarrow> cs_keyEpochId s | Some e \<Rightarrow> e) (cs_peerUserUuid s)"

section \<open>Runs\<close>

datatype session_event =
    Decrypted js_string
  | Decrypt_failed decrypt_failure
  | Outbound_accepted js_string
  | Marked compromise_reason
  | Sender_device "device_status option"
  | Re_handshake "js_string option"

text \<open>An outgoing message that is not allowed throws and leaves the snapshot as it was.\<close>

definition guard_step :: "session_event \<Rightarrow> conversation_session \<Rightarrow> conversation_session" where
  "guard_step ev s =
     (case ev of
        Decrypted u \<Rightarrow> fst (noteInboundDecrypted s u)
      | Decrypt_failed c \<Rightarrow> fst (noteInboundDecryptFailure s c)
      | Outbound_accepted u \<Rightarrow> (case noteOutboundAccepted s u of None \<Rightarrow> s | Some s' \<Rightarrow> s')
      | Marked r \<Rightarrow> markCompromisedLocal s r
      | Sender_device d \<Rightarrow> fst (evaluateInboundSenderDevice s d)
      | Re_handshake e \<Rightarrow> reHandshake s e)"

definition guard_run :: "session_event list \<Rightarrow> conversation_session \<Rightarrow> conversation_session" where
  "guard_run evs s = fold guard_step evs s"

lemmas session_defs = guard_step_def noteInboundDecrypted_def noteInboundDecryptFailure_def noteOutboundAccepted_def
  markCompromisedLocal_def evaluateInboundSenderDevice_def reHandshake_def createConversationSession_def Let_def

fun is_handshake :: "session_event \<Rightarrow> bool" where
  "is_handshake (Re_handshake e) = True"
| "is_handshake _ = False"

lemma frozen_step:
  "cs_state s = Compromised_local \<Longrightarrow> \<not> is_handshake ev \<Longrightarrow>
   cs_state (guard_step ev s) = Compromised_local \<and> cs_reason (guard_step ev s) = cs_reason s"
  by (cases ev) (auto simp: session_defs)

text \<open>
  A frozen conversation stays frozen: without a new handshake no event, in any number and order, lets a
  message out again, and the first reason is kept.
\<close>

theorem frozen_until_handshake:
  assumes "\<not> canSendOutbound s" "list_all (\<lambda>ev. \<not> is_handshake ev) evs"
  shows "\<not> canSendOutbound (guard_run evs s) \<and> cs_reason (guard_run evs s) = cs_reason s \<and>
         noteOutboundAccepted (guard_run evs s) u = None"
proof -
  have "cs_state s = Compromised_local \<Longrightarrow> list_all (\<lambda>ev. \<not> is_handshake ev) evs \<Longrightarrow>
        cs_state (fold guard_step evs s) = Compromised_local \<and> cs_reason (fold guard_step evs s) = cs_reason s"
  proof (induction evs arbitrary: s)
    case (Cons ev evs)
    with frozen_step [of s ev] show ?case by simp
  qed simp
  with assms show ?thesis by (simp add: canSendOutbound_def guard_run_def noteOutboundAccepted_def)
qed

section \<open>Freezing takes evidence\<close>

text \<open>
  What freezes a conversation: the user, a changed identity, a revoked device, or three failures in a row that
  point at the keys. A failure in a row is counted since the last new message or handshake.
\<close>

fun suspects :: "session_event list \<Rightarrow> nat" where
  "suspects [] = 0"
| "suspects (ev # evs) =
     suspects evs + (case ev of Decrypt_failed c \<Rightarrow> if classifyDecryptFailure c = Key_mismatch_suspect then 1 else 0 | _ \<Rightarrow> 0)"

fun freezes :: "session_event \<Rightarrow> bool" where
  "freezes (Marked r) = True"
| "freezes (Sender_device d) = (d = Some Revoked)"
| "freezes _ = False"

lemma suspect_iff [simp]: "x \<noteq> Envelope_rejected \<longleftrightarrow> x = Key_mismatch_suspect"
  by (cases x) auto

lemma failures_step:
  "\<not> freezes ev \<Longrightarrow> cs_state s \<noteq> Compromised_local \<Longrightarrow>
   cs_failures (guard_step ev s) \<le> cs_failures s + suspects [ev] \<and>
   (cs_state (guard_step ev s) = Compromised_local \<longrightarrow>
    FSCP_DECRYPT_COMPROMISE_THRESHOLD \<le> cs_failures s + suspects [ev])"
  by (cases ev) (auto simp: session_defs)

lemma frozen_by_failures:
  "list_all (\<lambda>ev. \<not> freezes ev) evs \<Longrightarrow> cs_state s \<noteq> Compromised_local \<Longrightarrow>
   cs_failures s + suspects evs < FSCP_DECRYPT_COMPROMISE_THRESHOLD \<Longrightarrow>
   cs_state (fold guard_step evs s) \<noteq> Compromised_local"
proof (induction evs arbitrary: s)
  case (Cons ev evs)
  have st: "cs_failures (guard_step ev s) \<le> cs_failures s + suspects [ev]"
    "cs_state (guard_step ev s) = Compromised_local \<longrightarrow> FSCP_DECRYPT_COMPROMISE_THRESHOLD \<le> cs_failures s + suspects [ev]"
    using Cons.prems failures_step [of ev s] by simp_all
  have split: "suspects (ev # evs) = suspects [ev] + suspects evs" by simp
  with st Cons.prems have "cs_state (guard_step ev s) \<noteq> Compromised_local"
    "cs_failures (guard_step ev s) + suspects evs < FSCP_DECRYPT_COMPROMISE_THRESHOLD" by linarith+
  with Cons.IH [of "guard_step ev s"] Cons.prems(1) show ?case by simp
qed simp

text \<open>
  C34. A peer cannot silence the user with bad envelopes: a new conversation in which nobody froze it still
  sends after any events with at most two failures that point at the keys, however many envelopes were
  malformed, unsigned, badly signed or addressed to others.
\<close>

theorem rejected_envelopes_never_freeze:
  assumes "list_all (\<lambda>ev. \<not> freezes ev) evs" "suspects evs \<le> 2"
  shows "canSendOutbound (guard_run evs (createConversationSession c e p))"
  using frozen_by_failures [OF assms(1), of "createConversationSession c e p"] assms(2)
  by (simp add: guard_run_def canSendOutbound_def createConversationSession_def FSCP_DECRYPT_COMPROMISE_THRESHOLD_def)

text \<open>A message resets the count: between two new messages, two suspicious failures change nothing for good.\<close>

lemma new_message_forgives:
  "canSendOutbound s \<Longrightarrow> cs_lastInbound s \<noteq> Some (toLowerCase u) \<Longrightarrow>
   cs_failures (guard_step (Decrypted u) s) = 0 \<and> cs_state (guard_step (Decrypted u) s) = Ready"
  by (simp add: session_defs canSendOutbound_def)

text \<open>
  Three suspicious failures in a row do freeze the conversation, the third is reported as the one that did,
  and a handshake starts it afresh with nothing counted and no message taken as seen.
\<close>

theorem three_failures_freeze:
  assumes "cs_state s = Ready" "cs_failures s = 0"
    and "classifyDecryptFailure a = Key_mismatch_suspect" "classifyDecryptFailure b = Key_mismatch_suspect"
      "classifyDecryptFailure c = Key_mismatch_suspect"
  shows "canSendOutbound (guard_run [Decrypt_failed a, Decrypt_failed b] s) \<and>
         snd (noteInboundDecryptFailure (guard_run [Decrypt_failed a, Decrypt_failed b] s) c) \<and>
         \<not> canSendOutbound (guard_run [Decrypt_failed a, Decrypt_failed b, Decrypt_failed c] s) \<and>
         cs_reason (guard_run [Decrypt_failed a, Decrypt_failed b, Decrypt_failed c] s) = Some Decrypt_failure \<and>
         (let s' = guard_run [Decrypt_failed a, Decrypt_failed b, Decrypt_failed c, Re_handshake e] s
          in cs_state s' = Uninitialized \<and> cs_failures s' = 0 \<and> snd (noteInboundDecrypted s' u))"
  using assms by (simp add: guard_run_def session_defs canSendOutbound_def FSCP_DECRYPT_COMPROMISE_THRESHOLD_def)

section \<open>Concrete runs\<close>

definition alice_bob :: conversation_session where
  "alice_bob = createConversationSession (js ''c'') (js ''e'') (js ''bob'')"

lemma frozen_until_handshake_witness:
  "let s = markCompromisedLocal alice_bob User_reset; evs = [Decrypted (js ''m''), Sender_device (Some Active), Marked Device_revoked]
   in \<not> canSendOutbound s \<and> \<not> canSendOutbound (guard_run evs s) \<and> cs_reason (guard_run evs s) = Some User_reset"
  using frozen_until_handshake [of "markCompromisedLocal alice_bob User_reset"
      "[Decrypted (js ''m''), Sender_device (Some Active), Marked Device_revoked]"]
  by (simp add: canSendOutbound_def markCompromisedLocal_def alice_bob_def createConversationSession_def)

lemma rejected_envelopes_never_freeze_witness:
  "canSendOutbound (guard_run [Decrypt_failed Signature_invalid, Decrypt_failed Rke_unwrap_failed, Decrypted (js ''m''),
     Decrypt_failed Malformed_envelope, Decrypt_failed Body_decrypt_failed] alice_bob)"
  unfolding alice_bob_def by (rule rejected_envelopes_never_freeze) (simp_all add: classifyDecryptFailure_def)

lemma three_failures_freeze_witness:
  "\<not> canSendOutbound (guard_run [Decrypt_failed Rke_unwrap_failed, Decrypt_failed Body_decrypt_failed,
     Decrypt_failed Rke_unwrap_failed] (guard_step (Decrypted (js ''m'')) alice_bob))"
  using three_failures_freeze [of "guard_step (Decrypted (js ''m'')) alice_bob" Rke_unwrap_failed Body_decrypt_failed
      Rke_unwrap_failed]
  by (simp add: classifyDecryptFailure_def guard_step_def noteInboundDecrypted_def alice_bob_def
      createConversationSession_def)

end
