(* ===== verification/Json_Text.thy ===== *)
theory Json_Text
  imports Json_Read "HOL-Library.AList"
begin

text \<open>
  JSON as text, as the platform writes and reads it: \<open>JSON.stringify\<close> without white space and
  \<open>JSON.parse\<close>, and the theorem that reading gives back what was written. Numbers are exact integers; the
  text of a fraction is not modelled, so writing one gives \<open>None\<close>, and reading one gives \<open>JFrac\<close>.
\<close>

section \<open>Strings\<close>

definition hex_digit :: "nat \<Rightarrow> nat" where
  "hex_digit d = (if d < 10 then 48 + d else 87 + d)"

definition hex4 :: "nat \<Rightarrow> js_string" where
  "hex4 c = [hex_digit (c div 4096), hex_digit (c div 256 mod 16), hex_digit (c div 16 mod 16), hex_digit (c mod 16)]"

definition short_escape :: "nat \<Rightarrow> nat option" where
  "short_escape = map_of [(34, 34), (92, 92), (8, 98), (12, 102), (10, 110), (13, 114), (9, 116)]"

definition esc_unit :: "nat \<Rightarrow> js_string" where
  "esc_unit c =
     (case short_escape c of
        Some e \<Rightarrow> [92, e]
      | None \<Rightarrow> if c < 32 \<or> high_surrogate c \<or> low_surrogate c then [92, 117] @ hex4 c else [c])"

text \<open>A surrogate pair is written as it is, a lone surrogate as an escape.\<close>

fun esc_str :: "js_string \<Rightarrow> js_string" where
  "esc_str [] = []"
| "esc_str [c] = esc_unit c"
| "esc_str (c # d # r) =
     (if high_surrogate c \<and> low_surrogate d then c # d # esc_str r else esc_unit c @ esc_str (d # r))"

definition quote :: "js_string \<Rightarrow> js_string" where
  "quote s = 34 # esc_str s @ [34]"

section \<open>Writing\<close>

definition int_text :: "int \<Rightarrow> js_string" where
  "int_text n = (if n < 0 then 45 # dec_digits (nat (- n)) else dec_digits (nat n))"

fun join_with :: "'a list \<Rightarrow> 'a list list \<Rightarrow> 'a list" where
  "join_with sep [] = []"
| "join_with sep [t] = t"
| "join_with sep (t # ts) = t @ sep @ join_with sep ts"

definition member_text :: "js_string \<times> js_string \<Rightarrow> js_string" where
  "member_text p = quote (fst p) @ 58 # snd p"

fun stringify :: "json \<Rightarrow> js_string option"
  and stringify_items :: "json list \<Rightarrow> js_string list option"
  and stringify_members :: "(js_string \<times> json) list \<Rightarrow> (js_string \<times> js_string) list option"
where
  "stringify JNull = Some (js ''null'')"
| "stringify (JBool b) = Some (if b then js ''true'' else js ''false'')"
| "stringify (JInt n) = Some (int_text n)"
| "stringify JFrac = None"
| "stringify (JStr s) = Some (quote s)"
| "stringify (JArr xs) = map_option (\<lambda>ts. 91 # join_with [44] ts @ [93]) (stringify_items xs)"
| "stringify (JObj ms) = map_option (\<lambda>ps. 123 # join_with [44] (map member_text ps) @ [125]) (stringify_members ms)"
| "stringify_items [] = Some []"
| "stringify_items (x # xs) =
     (case stringify x of None \<Rightarrow> None | Some t \<Rightarrow> map_option (\<lambda>ts. t # ts) (stringify_items xs))"
| "stringify_members [] = Some []"
| "stringify_members ((k, v) # ms) =
     (case stringify v of None \<Rightarrow> None | Some t \<Rightarrow> map_option (\<lambda>ps. (k, t) # ps) (stringify_members ms))"

section \<open>Tokens\<close>

datatype token = Punct nat | StringToken js_string | ValueToken json

datatype lex_mode =
    Normal
  | InString js_string
  | InEscape js_string
  | InUnicode nat nat js_string
  | InNumber js_string
  | InWord js_string

definition is_json_space :: "nat \<Rightarrow> bool" where
  "is_json_space c \<longleftrightarrow> c = 32 \<or> c = 9 \<or> c = 10 \<or> c = 13"

definition is_punct :: "nat \<Rightarrow> bool" where
  "is_punct c \<longleftrightarrow> c = 123 \<or> c = 125 \<or> c = 91 \<or> c = 93 \<or> c = 44 \<or> c = 58"

definition is_number_unit :: "nat \<Rightarrow> bool" where
  "is_number_unit c \<longleftrightarrow> is_digit_unit c \<or> c = 45 \<or> c = 43 \<or> c = 46 \<or> c = 101 \<or> c = 69"

definition is_lower_unit :: "nat \<Rightarrow> bool" where
  "is_lower_unit c \<longleftrightarrow> 97 \<le> c \<and> c \<le> 122"

definition hex_unit_value :: "nat \<Rightarrow> nat option" where
  "hex_unit_value c =
     (if is_digit_unit c then Some (c - 48)
      else if 97 \<le> c \<and> c \<le> 102 then Some (c - 87)
      else if 65 \<le> c \<and> c \<le> 70 then Some (c - 55)
      else None)"

definition escaped_unit :: "nat \<Rightarrow> nat option" where
  "escaped_unit = map_of [(34, 34), (92, 92), (47, 47), (98, 8), (102, 12), (110, 10), (114, 13), (116, 9)]"

definition word_value :: "js_string \<Rightarrow> json option" where
  "word_value w =
     (if w = js ''true'' then Some (JBool True)
      else if w = js ''false'' then Some (JBool False)
      else if w = js ''null'' then Some JNull
      else None)"

text \<open>\<open>m \<cdot> 10\<^sup>e\<close> as a value.\<close>

definition scaled_value :: "bool \<Rightarrow> nat \<Rightarrow> int \<Rightarrow> json" where
  "scaled_value neg m e =
     (let sgn = (\<lambda>n. if neg then - int n else int n)
      in if e \<ge> 0 then JInt (sgn (m * 10 ^ nat e))
         else if 10 ^ nat (- e) dvd m then JInt (sgn (m div 10 ^ nat (- e)))
         else JFrac)"

definition exponent_value :: "js_string \<Rightarrow> int option" where
  "exponent_value r =
     (case r of
        [] \<Rightarrow> Some 0
      | c # s \<Rightarrow>
          if c \<noteq> 101 \<and> c \<noteq> 69 then None
          else let neg = (take 1 s = [45]);
                   ds = (if take 1 s = [45] \<or> take 1 s = [43] then drop 1 s else s)
               in if ds = [] \<or> \<not> list_all is_digit_unit ds then None
                  else Some (if neg then - int (dec_value ds) else int (dec_value ds)))"

text \<open>An optional sign, digits without a leading zero, an optional fraction and an optional exponent.\<close>

definition number_value :: "js_string \<Rightarrow> json option" where
  "number_value t =
     (let neg = (take 1 t = [45]);
          u = (if neg then drop 1 t else t);
          whole = takeWhile is_digit_unit u;
          r = dropWhile is_digit_unit u;
          frac = (if take 1 r = [46] then takeWhile is_digit_unit (drop 1 r) else []);
          r' = (if take 1 r = [46] then dropWhile is_digit_unit (drop 1 r) else r)
      in if whole = [] \<or> (length whole > 1 \<and> hd whole = 48) \<or> (take 1 r = [46] \<and> frac = []) then None
         else map_option (\<lambda>e. scaled_value neg (dec_value (whole @ frac)) (e - int (length frac))) (exponent_value r'))"

abbreviation emit_token :: "token \<Rightarrow> token list option \<Rightarrow> token list option" where
  "emit_token t \<equiv> map_option (\<lambda>ts. t # ts)"

definition emit_value :: "json option \<Rightarrow> token list option \<Rightarrow> token list option" where
  "emit_value v ts = (case v of None \<Rightarrow> None | Some x \<Rightarrow> emit_token (ValueToken x) ts)"

function lex_json :: "lex_mode \<Rightarrow> js_string \<Rightarrow> token list option" where
  "lex_json Normal [] = Some []"
| "lex_json (InNumber t) [] = emit_value (number_value t) (Some [])"
| "lex_json (InWord w) [] = emit_value (word_value w) (Some [])"
| "lex_json (InString t) [] = None"
| "lex_json (InEscape t) [] = None"
| "lex_json (InUnicode n v t) [] = None"
| "lex_json Normal (c # s) =
     (if is_json_space c then lex_json Normal s
      else if is_punct c then emit_token (Punct c) (lex_json Normal s)
      else if c = 34 then lex_json (InString []) s
      else if is_digit_unit c \<or> c = 45 then lex_json (InNumber [c]) s
      else if is_lower_unit c then lex_json (InWord [c]) s
      else None)"
| "lex_json (InNumber t) (c # s) =
     (if is_number_unit c then lex_json (InNumber (t @ [c])) s
      else emit_value (number_value t) (lex_json Normal (c # s)))"
| "lex_json (InWord w) (c # s) =
     (if is_lower_unit c then lex_json (InWord (w @ [c])) s
      else emit_value (word_value w) (lex_json Normal (c # s)))"
| "lex_json (InString t) (c # s) =
     (if c = 34 then emit_token (StringToken t) (lex_json Normal s)
      else if c = 92 then lex_json (InEscape t) s
      else if c < 32 then None
      else lex_json (InString (t @ [c])) s)"
| "lex_json (InEscape t) (c # s) =
     (if c = 117 then lex_json (InUnicode 4 0 t) s
      else case escaped_unit c of None \<Rightarrow> None | Some d \<Rightarrow> lex_json (InString (t @ [d])) s)"
| "lex_json (InUnicode n v t) (c # s) =
     (case hex_unit_value c of
        None \<Rightarrow> None
      | Some d \<Rightarrow> if n \<le> 1 then lex_json (InString (t @ [v * 16 + d])) s else lex_json (InUnicode (n - 1) (v * 16 + d) t) s)"
  by pat_completeness auto
termination
  by (relation "measure (\<lambda>(m, s). 2 * length s + (case m of Normal \<Rightarrow> 0 | _ \<Rightarrow> 1))") (auto split: lex_mode.splits)

section \<open>Reading\<close>

text \<open>The open arrays and objects, innermost first; an object with the key whose value is being read.\<close>

datatype open_value = InArray "json list" | InObject "json_record" js_string

datatype expect =
    WantValue
  | WantValueOrEnd
  | WantSeparator
  | WantKey
  | WantKeyOrEnd
  | WantColon
  | Finished json

type_synonym parse_state = "open_value list \<times> expect"

text \<open>A key that comes again keeps its place and gets the later value.\<close>

fun place :: "json \<Rightarrow> open_value list \<Rightarrow> parse_state" where
  "place v [] = ([], Finished v)"
| "place v (InArray xs # st) = (InArray (xs @ [v]) # st, WantSeparator)"
| "place v (InObject ms k # st) = (InObject (AList.update k v ms) k # st, WantSeparator)"

definition starts_value :: "expect \<Rightarrow> bool" where
  "starts_value e \<longleftrightarrow> e = WantValue \<or> e = WantValueOrEnd"

definition on_punct :: "nat \<Rightarrow> parse_state \<Rightarrow> parse_state option" where
  "on_punct c s =
     (case s of
        (st, e) \<Rightarrow>
          if c = 91 \<and> starts_value e then Some (InArray [] # st, WantValueOrEnd)
          else if c = 123 \<and> starts_value e then Some (InObject [] [] # st, WantKeyOrEnd)
          else case st of
                 InArray xs # st' \<Rightarrow>
                   if c = 93 \<and> (e = WantSeparator \<or> e = WantValueOrEnd) then Some (place (JArr xs) st')
                   else if c = 44 \<and> e = WantSeparator then Some (st, WantValue)
                   else None
               | InObject ms k # st' \<Rightarrow>
                   if c = 125 \<and> (e = WantSeparator \<or> e = WantKeyOrEnd) then Some (place (JObj ms) st')
                   else if c = 44 \<and> e = WantSeparator then Some (st, WantKey)
                   else if c = 58 \<and> e = WantColon then Some (st, WantValue)
                   else None
               | [] \<Rightarrow> None)"

definition parse_step :: "token \<Rightarrow> parse_state \<Rightarrow> parse_state option" where
  "parse_step t s =
     (case t of
        Punct c \<Rightarrow> on_punct c s
      | ValueToken v \<Rightarrow> if starts_value (snd s) then Some (place v (fst s)) else None
      | StringToken x \<Rightarrow>
          if starts_value (snd s) then Some (place (JStr x) (fst s))
          else if snd s = WantKey \<or> snd s = WantKeyOrEnd then
            (case fst s of InObject ms k # st \<Rightarrow> Some (InObject ms x # st, WantColon) | _ \<Rightarrow> None)
          else None)"

fun parse_tokens :: "token list \<Rightarrow> parse_state \<Rightarrow> parse_state option" where
  "parse_tokens [] s = Some s"
| "parse_tokens (t # ts) s = Option.bind (parse_step t s) (parse_tokens ts)"

definition parse_json :: "js_string \<Rightarrow> json option" where
  "parse_json s =
     (case Option.bind (lex_json Normal s) (\<lambda>ts. parse_tokens ts ([], WantValue)) of
        Some ([], Finished v) \<Rightarrow> Some v
      | _ \<Rightarrow> None)"

section \<open>Reading what was written\<close>

text \<open>What JavaScript holds: code units below 65536, integers that a double keeps exactly, and no key twice.\<close>

fun json_ok :: "json \<Rightarrow> bool" where
  "json_ok (JStr s) = is_js_string s"
| "json_ok (JInt n) = isSafeInteger n"
| "json_ok (JArr xs) = (\<forall>x \<in> set xs. json_ok x)"
| "json_ok (JObj ms) = (distinct (map fst ms) \<and> (\<forall>(k, v) \<in> set ms. is_js_string k \<and> json_ok v))"
| "json_ok _ = True"

fun tokens_of :: "json \<Rightarrow> token list" where
  "tokens_of (JStr s) = [StringToken s]"
| "tokens_of (JArr xs) = Punct 91 # join_with [Punct 44] (map tokens_of xs) @ [Punct 93]"
| "tokens_of (JObj ms) =
     Punct 123 # join_with [Punct 44] (map (\<lambda>(k, v). StringToken k # Punct 58 # tokens_of v) ms) @ [Punct 125]"
| "tokens_of v = [ValueToken v]"

subsection \<open>Strings\<close>

lemma hex_digit_value: "d < 16 \<Longrightarrow> hex_unit_value (hex_digit d) = Some d"
  by (auto simp: hex_unit_value_def hex_digit_def is_digit_unit_def)

lemma hex4_value: "c < 65536 \<Longrightarrow> ((c div 4096 * 16 + c div 256 mod 16) * 16 + c div 16 mod 16) * 16 + c mod 16 = (c :: nat)"
proof -
  have s: "c div k div 16 * 16 + c div k mod 16 = c div k" for k by simp
  have "c div 4096 = c div 256 div 16" "c div 256 = c div 16 div 16" by (simp_all flip: div_mult2_eq)
  with s [of 256] s [of 16] s [of 1] show ?thesis by simp
qed

lemma lex_hex4: "c < 65536 \<Longrightarrow> lex_json (InUnicode 4 0 t) (hex4 c @ r) = lex_json (InString (t @ [c])) r"
proof -
  assume c: "c < 65536"
  then have "c div 4096 < 16" by (simp add: less_mult_imp_div_less)
  then show ?thesis using hex4_value [OF c] by (simp add: hex4_def hex_digit_value)
qed

lemma lex_esc_unit: "c < 65536 \<Longrightarrow> lex_json (InString t) (esc_unit c @ r) = lex_json (InString (t @ [c])) r"
proof -
  assume c: "c < 65536"
  show ?thesis
  proof (cases "short_escape c")
    case (Some e)
    then have "escaped_unit e = Some c" "e \<noteq> 117"
      by (auto simp: short_escape_def escaped_unit_def split: if_splits)
    with Some show ?thesis by (simp add: esc_unit_def)
  next
    case None
    then have "c \<noteq> 34" "c \<noteq> 92" by (auto simp: short_escape_def split: if_splits)
    with None c show ?thesis by (simp add: esc_unit_def lex_hex4)
  qed
qed

lemma lex_esc_str:
  "is_js_string s \<Longrightarrow> lex_json (InString t) (esc_str s @ 34 # r) = emit_token (StringToken (t @ s)) (lex_json Normal r)"
proof (induction s arbitrary: t rule: esc_str.induct)
  case 1
  show ?case by simp
next
  case (2 c)
  then have "c < 65536" by (simp add: is_js_string_def)
  then show ?case by (simp only: esc_str.simps lex_esc_unit) simp
next
  case (3 c d s)
  have c: "c < 65536" "d < 65536" "is_js_string (d # s)" "is_js_string s" using 3(3) by (simp_all add: is_js_string_def)
  show ?case
  proof (cases "high_surrogate c \<and> low_surrogate d")
    case True
    then have "c \<ge> 55296" "d \<ge> 56320" by (simp_all add: high_surrogate_def low_surrogate_def)
    then have "lex_json (InString t) (c # d # esc_str s @ 34 # r) = lex_json (InString (t @ [c, d])) (esc_str s @ 34 # r)" by simp
    with True 3(1) [OF True c(4), of "t @ [c, d]"] show ?thesis by simp
  next
    case False
    then have "esc_str (c # d # s) @ 34 # r = esc_unit c @ esc_str (d # s) @ 34 # r" by auto
    with 3(2) [OF False c(3), of "t @ [c]"] lex_esc_unit [OF c(1)] show ?thesis by simp
  qed
qed

lemma lex_quote:
  assumes "is_js_string s"
  shows "lex_json Normal (quote s @ r) = emit_token (StringToken s) (lex_json Normal r)"
  using lex_esc_str [OF assms, of "[]" r]
  by (simp add: quote_def is_json_space_def is_punct_def)

subsection \<open>Numbers and words\<close>

definition delimited :: "js_string \<Rightarrow> bool" where
  "delimited r \<longleftrightarrow> r = [] \<or> hd r = 44 \<or> hd r = 93 \<or> hd r = 125"

lemma lex_number:
  "\<forall>c \<in> set t. is_number_unit c \<Longrightarrow> delimited r \<Longrightarrow> lex_json (InNumber u) (t @ r) = emit_value (number_value (u @ t)) (lex_json Normal r)"
proof (induction t arbitrary: u)
  case Nil
  show ?case
  proof (cases r)
    case (Cons c s)
    with Nil.prems(2) have "\<not> is_number_unit c" by (auto simp: delimited_def is_number_unit_def is_digit_unit_def)
    with Cons show ?thesis by simp
  qed simp
qed simp

lemma lex_word:
  "\<forall>c \<in> set t. is_lower_unit c \<Longrightarrow> delimited r \<Longrightarrow> lex_json (InWord u) (t @ r) = emit_value (word_value (u @ t)) (lex_json Normal r)"
proof (induction t arbitrary: u)
  case Nil
  show ?case
  proof (cases r)
    case (Cons c s)
    with Nil.prems(2) have "\<not> is_lower_unit c" by (auto simp: delimited_def is_lower_unit_def)
    with Cons show ?thesis by simp
  qed simp
qed simp

lemma dec_digits_hd: "0 < n \<Longrightarrow> hd (dec_digits n) \<noteq> 48"
proof (induction n rule: dec_digits.induct)
  case (1 n)
  show ?case
  proof (cases "n < 10")
    case False
    with 1 have "hd (dec_digits (n div 10)) \<noteq> 48" by simp
    with False show ?thesis by (simp add: dec_digits.simps [of n] hd_append)
  qed (use 1 in \<open>simp add: dec_digits.simps [of n]\<close>)
qed

lemma dec_digits_takeWhile [simp]:
  "takeWhile is_digit_unit (dec_digits n) = dec_digits n" "dropWhile is_digit_unit (dec_digits n) = []"
  using dec_digits_are_digits [of _ n] by (simp_all add: takeWhile_eq_all_conv dropWhile_eq_Nil_conv)

lemma number_value_dec:
  "number_value (dec_digits n) = Some (JInt (int n))" "0 < n \<Longrightarrow> number_value (45 # dec_digits n) = Some (JInt (- int n))"
proof -
  obtain c s where d: "dec_digits n = c # s" by (cases "dec_digits n") auto
  have c: "is_digit_unit c" using dec_digits_are_digits [of c n] d by simp
  then have "c \<noteq> 45" by (auto simp: is_digit_unit_def)
  have z: "length (dec_digits n) > 1 \<longrightarrow> hd (dec_digits n) \<noteq> 48"
    using dec_digits_hd [of n] by (cases "n = 0") (simp_all add: dec_digits.simps [of 0])
  have v: "dec_value (dec_digits n) = n" by simp
  show "number_value (dec_digits n) = Some (JInt (int n))"
    using z v \<open>c \<noteq> 45\<close> d dec_digits_takeWhile [of n]
    by (auto simp: number_value_def exponent_value_def scaled_value_def Let_def)
  show "0 < n \<Longrightarrow> number_value (45 # dec_digits n) = Some (JInt (- int n))"
    using z v d dec_digits_takeWhile [of n]
    by (auto simp: number_value_def exponent_value_def scaled_value_def Let_def)
qed

lemma lex_int:
  assumes "delimited r"
  shows "lex_json Normal (int_text n @ r) = emit_token (ValueToken (JInt n)) (lex_json Normal r)"
proof -
  have digits: "\<forall>c \<in> set (dec_digits k). is_number_unit c" for k
    using dec_digits_are_digits by (auto simp: is_number_unit_def)
  show ?thesis
  proof (cases "n < 0")
    case True
    with lex_number [OF digits assms, of "[45]" "nat (- n)"] number_value_dec(2) [of "nat (- n)"] show ?thesis
      by (simp add: int_text_def is_json_space_def is_punct_def emit_value_def)
  next
    case False
    obtain c s where d: "dec_digits (nat n) = c # s" by (cases "dec_digits (nat n)") auto
    have c: "is_digit_unit c" using dec_digits_are_digits [of c "nat n"] d by simp
    then have "\<not> is_json_space c" "\<not> is_punct c" "c \<noteq> 34"
      by (auto simp: is_digit_unit_def is_json_space_def is_punct_def)
    moreover have "lex_json (InNumber [c]) (s @ r) = emit_value (number_value (dec_digits (nat n))) (lex_json Normal r)"
      using lex_number [of s r "[c]"] digits [of "nat n"] assms d by simp
    ultimately show ?thesis using False c number_value_dec(1) [of "nat n"] d by (simp add: int_text_def emit_value_def)
  qed
qed

lemma lex_words:
  assumes "delimited r"
  shows "lex_json Normal (js ''true'' @ r) = emit_token (ValueToken (JBool True)) (lex_json Normal r)"
    and "lex_json Normal (js ''false'' @ r) = emit_token (ValueToken (JBool False)) (lex_json Normal r)"
    and "lex_json Normal (js ''null'' @ r) = emit_token (ValueToken JNull) (lex_json Normal r)"
  using lex_word [OF _ assms, of "js ''rue''" "js ''t''"] lex_word [OF _ assms, of "js ''alse''" "js ''f''"]
    lex_word [OF _ assms, of "js ''ull''" "js ''n''"]
  by (simp_all add: is_lower_unit_def is_json_space_def is_punct_def is_digit_unit_def word_value_def emit_value_def)

subsection \<open>The tokens of a text\<close>

definition lexes :: "js_string \<Rightarrow> token list \<Rightarrow> bool" where
  "lexes t ts \<longleftrightarrow> (\<forall>r. delimited r \<longrightarrow> lex_json Normal (t @ r) = map_option (\<lambda>us. ts @ us) (lex_json Normal r))"

lemma lexesD: "lexes t ts \<Longrightarrow> delimited r \<Longrightarrow> lex_json Normal (t @ r) = map_option (\<lambda>us. ts @ us) (lex_json Normal r)"
  by (simp add: lexes_def)

lemma delimited_Cons [simp]: "delimited (c # r) \<longleftrightarrow> c = 44 \<or> c = 93 \<or> c = 125"
  by (auto simp: delimited_def)

lemma lex_punct: "is_punct c \<Longrightarrow> lex_json Normal (c # r) = emit_token (Punct c) (lex_json Normal r)"
  by (auto simp: is_punct_def is_json_space_def)

declare lex_json.simps(7) [simp del]

lemma lexes_list:
  assumes "z = 93 \<or> z = 125"
  shows "list_all2 lexes ts us \<Longrightarrow>
    lex_json Normal (join_with [44] ts @ z # r) = map_option (\<lambda>vs. join_with [Punct 44] us @ Punct z # vs) (lex_json Normal r)"
proof (induction "[44 :: nat]" ts arbitrary: us rule: join_with.induct)
  case 1
  then show ?case using assms by (auto simp: lex_punct is_punct_def)
next
  case (2 t)
  then obtain u where "us = [u]" "lexes t u" by (auto simp: list_all2_Cons1)
  with lexesD [of t u "z # r"] assms show ?case
    by (auto simp: lex_punct is_punct_def option.map_comp comp_def)
next
  case (3 t t' ts)
  then obtain u u' us' where us: "us = u # u' # us'" "lexes t u" "list_all2 lexes (t' # ts) (u' # us')"
    by (auto simp: list_all2_Cons1)
  with lexesD [of t u "44 # join_with [44] (t' # ts) @ z # r"] 3(1) [OF us(3)] show ?case
    by (simp add: lex_punct is_punct_def option.map_comp comp_def)
qed

lemma stringify_items_iff: "stringify_items xs = Some ts \<longleftrightarrow> list_all2 (\<lambda>x t. stringify x = Some t) xs ts"
  by (induction xs arbitrary: ts) (auto simp: list_all2_Cons1 split: option.splits)

lemma stringify_members_iff:
  "stringify_members ms = Some ps \<longleftrightarrow> list_all2 (\<lambda>m p. fst m = fst p \<and> stringify (snd m) = Some (snd p)) ms ps"
proof (induction ms arbitrary: ps)
  case (Cons m ms)
  obtain k v where "m = (k, v)" by fastforce
  with Cons show ?case by (force simp: list_all2_Cons1 split: option.splits)
qed auto

lemma list_all2_maps:
  "list_all2 P xs ys \<Longrightarrow> (\<And>x y. x \<in> set xs \<Longrightarrow> P x y \<Longrightarrow> Q (f y) (g x)) \<Longrightarrow> list_all2 Q (map f ys) (map g xs)"
  by (induction rule: list_all2_induct) auto

lemma lexes_bracket:
  assumes "c = 91 \<or> c = 123" "z = 93 \<or> z = 125" "list_all2 lexes ts us"
  shows "lexes (c # join_with [44] ts @ [z]) (Punct c # join_with [Punct 44] us @ [Punct z])"
  using assms(1) lexes_list [OF assms(2,3)]
  by (auto simp: lexes_def lex_punct is_punct_def option.map_comp comp_def)

lemma stringify_lexes: "json_ok v \<Longrightarrow> stringify v = Some t \<Longrightarrow> lexes t (tokens_of v)"
proof (induction v arbitrary: t)
  case (JArr xs)
  then obtain ts where ts: "t = 91 # join_with [44] ts @ [93]" "list_all2 (\<lambda>x t. stringify x = Some t) xs ts"
    by (auto simp: stringify_items_iff)
  have "list_all2 lexes (map (\<lambda>t. t) ts) (map tokens_of xs)"
    by (rule list_all2_maps [OF ts(2)]) (use JArr in auto)
  then show ?case by (simp add: ts(1) lexes_bracket)
next
  case (JObj ms)
  then obtain ps where ps: "t = 123 # join_with [44] (map member_text ps) @ [125]"
      "list_all2 (\<lambda>m p. fst m = fst p \<and> stringify (snd m) = Some (snd p)) ms ps"
    by (auto simp: stringify_members_iff)
  have "list_all2 lexes (map member_text ps) (map (\<lambda>(k, v). StringToken k # Punct 58 # tokens_of v) ms)"
  proof (rule list_all2_maps [OF ps(2)])
    fix m p
    assume m: "m \<in> set ms" and p: "fst m = fst p \<and> stringify (snd m) = Some (snd p)"
    obtain k v where kv: "m = (k, v)" by fastforce
    have ok: "is_js_string k" "json_ok v" using JObj.prems(1) m kv by auto
    have v: "lexes (snd p) (tokens_of v)" using JObj.IH [of "(k, v)" v] m kv ok(2) p by (simp add: snds.simps)
    have k: "fst p = k" using p kv by simp
    show "lexes (member_text p) (case m of (k, v) \<Rightarrow> StringToken k # Punct 58 # tokens_of v)"
      unfolding lexes_def
    proof (intro allI impI)
      fix r
      assume "delimited r"
      from lexesD [OF v this] lex_quote [OF ok(1), of "58 # snd p @ r"]
      show "lex_json Normal (member_text p @ r) =
            map_option (\<lambda>us. (case m of (k, v) \<Rightarrow> StringToken k # Punct 58 # tokens_of v) @ us) (lex_json Normal r)"
        by (simp add: member_text_def k kv lex_punct is_punct_def option.map_comp comp_def)
    qed
  qed
  then show ?case by (simp add: ps(1) lexes_bracket case_prod_unfold)
next
  case (JStr s)
  then show ?case by (auto simp: lexes_def lex_quote)
next
  case (JBool b)
  then show ?case by (cases b) (auto simp: lexes_def lex_words simp del: list.map)
next
  case (JInt n)
  then show ?case by (auto simp: lexes_def lex_int)
next
  case JNull
  then show ?case by (auto simp: lexes_def lex_words simp del: list.map)
qed simp

subsection \<open>The value of the tokens\<close>

lemma parse_tokens_append: "parse_tokens (xs @ ys) s = Option.bind (parse_tokens xs s) (parse_tokens ys)"
  by (induction xs arbitrary: s) (auto split: Option.bind_splits)

lemma update_new: "k \<notin> fst ` set ms \<Longrightarrow> AList.update k v ms = ms @ [(k, v)]"
  by (induction ms) auto

lemma parse_items:
  assumes "\<And>x st e. x \<in> set xs \<Longrightarrow> starts_value e \<Longrightarrow> parse_tokens (tokens_of x) (st, e) = Some (place x st)"
    and "if xs = [] then e = WantSeparator \<or> e = WantValueOrEnd else starts_value e"
  shows "parse_tokens (join_with [Punct 44] (map tokens_of xs) @ [Punct 93]) (InArray ys # st, e) =
         Some (place (JArr (ys @ xs)) st)"
  using assms
proof (induction xs arbitrary: ys e)
  case Nil
  then show ?case by (auto simp: parse_step_def on_punct_def starts_value_def)
next
  case (Cons x xs)
  have x: "parse_tokens (tokens_of x) (InArray ys # st, e) = Some (InArray (ys @ [x]) # st, WantSeparator)"
    using Cons.prems by simp
  show ?case
  proof (cases xs)
    case Nil
    then show ?thesis by (simp add: parse_tokens_append x parse_step_def on_punct_def starts_value_def)
  next
    case (Cons x' xs')
    have "parse_tokens (join_with [Punct 44] (map tokens_of xs) @ [Punct 93]) (InArray (ys @ [x]) # st, WantValue) =
          Some (place (JArr ((ys @ [x]) @ xs)) st)"
      by (rule Cons.IH) (use Cons.prems Cons in \<open>auto simp: starts_value_def\<close>)
    with Cons show ?thesis by (simp add: parse_tokens_append x parse_step_def on_punct_def starts_value_def)
  qed
qed

lemma parse_members:
  assumes "\<And>k v st e. (k, v) \<in> set ms \<Longrightarrow> starts_value e \<Longrightarrow> parse_tokens (tokens_of v) (st, e) = Some (place v st)"
    and "distinct (map fst (ns @ ms))"
    and "if ms = [] then e = WantSeparator \<or> e = WantKeyOrEnd else e = WantKey \<or> e = WantKeyOrEnd"
  shows "parse_tokens (join_with [Punct 44] (map (\<lambda>(k, v). StringToken k # Punct 58 # tokens_of v) ms) @ [Punct 125])
           (InObject ns l # st, e) = Some (place (JObj (ns @ ms)) st)"
  using assms
proof (induction ms arbitrary: ns l e)
  case Nil
  then show ?case by (auto simp: parse_step_def on_punct_def starts_value_def)
next
  case (Cons m ms)
  obtain k v where m: "m = (k, v)" by fastforce
  have new: "AList.update k v ns = ns @ [(k, v)]" by (rule update_new) (use Cons.prems(2) m in auto)
  have v: "parse_tokens (tokens_of v) (InObject ns k # st, WantValue) = Some (InObject (ns @ [(k, v)]) k # st, WantSeparator)"
    using Cons.prems(1) [of k v WantValue "InObject ns k # st"] m new by (simp add: starts_value_def)
  have e: "e = WantKey \<or> e = WantKeyOrEnd" using Cons.prems(3) by simp
  then have m': "parse_tokens (StringToken k # Punct 58 # tokens_of v @ us) (InObject ns l # st, e) =
      parse_tokens us (InObject (ns @ [(k, v)]) k # st, WantSeparator)" for us
    using v by (auto simp: parse_step_def on_punct_def starts_value_def parse_tokens_append)
  show ?case
  proof (cases ms)
    case Nil
    then show ?thesis using m' [of "[Punct 125]"] by (simp add: m parse_step_def on_punct_def starts_value_def)
  next
    case (Cons m'' ms')
    have "parse_tokens (join_with [Punct 44] (map (\<lambda>(k, v). StringToken k # Punct 58 # tokens_of v) ms) @ [Punct 125])
            (InObject (ns @ [(k, v)]) k # st, WantKey) = Some (place (JObj ((ns @ [(k, v)]) @ ms)) st)"
      by (rule Cons.IH) (use Cons.prems Cons m in auto)
    with Cons m' show ?thesis by (simp add: m parse_step_def on_punct_def starts_value_def)
  qed
qed

lemma parse_tokens_of: "json_ok v \<Longrightarrow> starts_value e \<Longrightarrow> parse_tokens (tokens_of v) (st, e) = Some (place v st)"
proof (induction v arbitrary: st e)
  case (JArr xs)
  have "parse_tokens (join_with [Punct 44] (map tokens_of xs) @ [Punct 93]) (InArray [] # st, WantValueOrEnd) =
        Some (place (JArr ([] @ xs)) st)"
    by (rule parse_items) (use JArr in \<open>auto simp: starts_value_def\<close>)
  with JArr.prems(2) show ?case by (simp add: parse_step_def on_punct_def)
next
  case (JObj ms)
  have "parse_tokens (join_with [Punct 44] (map (\<lambda>(k, v). StringToken k # Punct 58 # tokens_of v) ms) @ [Punct 125])
          (InObject [] [] # st, WantKeyOrEnd) = Some (place (JObj ([] @ ms)) st)"
  proof (rule parse_members)
    fix k v st and e :: expect
    assume m: "(k, v) \<in> set ms" "starts_value e"
    then show "parse_tokens (tokens_of v) (st, e) = Some (place v st)"
      using JObj.IH [of "(k, v)" v e st] JObj.prems(1) by (auto simp: snds.simps)
  qed (use JObj.prems in auto)
  with JObj.prems(2) show ?case by (simp add: parse_step_def on_punct_def)
qed (simp_all add: parse_step_def)

lemma parse_stringify_ok: "json_ok v \<Longrightarrow> stringify v = Some t \<Longrightarrow> parse_json t = Some v"
  using lexesD [OF stringify_lexes, of v t "[]"] parse_tokens_of [of v WantValue "[]"]
  by (simp add: parse_json_def delimited_def starts_value_def)

text \<open>
  \<open>JSON.parse\<close> gives back every value that \<open>JSON.stringify\<close> wrote: strings with any code units, integers,
  nested arrays and objects with their members in order.
\<close>

theorem parse_stringify:
  assumes "json_ok v" "stringify v = Some t"
  shows "parse_json t = Some v"
  using assms by (rule parse_stringify_ok)

theorem parse_stringify_witness:
  "let v = JObj [(js ''a'', JArr [JInt (- 12), JBool True, JNull]), ([34, 10, 0xD83D], JStr [0xD83D, 0xDE00])]
   in parse_json (the (stringify v)) = Some v"
  unfolding Let_def
  by (rule parse_stringify) (simp_all add: is_js_string_def isSafeInteger_def max_safe_int_def)

end
