(* ===== verification/Fscp_Base64.thy ===== *)
theory Fscp_Base64
  imports Flora_Prelude
begin

text \<open>
  Base64 without padding in the URL alphabet, as the protocol writes bytes into JSON
  (\<open>products/FSCP/ts/src/base64url.ts\<close>, \<open>toBase64Url\<close> of \<open>unlockFlow.ts\<close>), over the platform's \<open>btoa\<close> and
  \<open>atob\<close> on strings of byte values.
\<close>

section \<open>The platform's functions\<close>

definition b64_unit :: "nat \<Rightarrow> nat" where
  "b64_unit k =
     (if k < 26 then 65 + k else if k < 52 then 71 + k else if k < 62 then k - 4 else if k = 62 then 43 else 47)"

definition b64_value :: "nat \<Rightarrow> nat option" where
  "b64_value c =
     (if 65 \<le> c \<and> c \<le> 90 then Some (c - 65)
      else if 97 \<le> c \<and> c \<le> 122 then Some (c - 71)
      else if 48 \<le> c \<and> c \<le> 57 then Some (c + 4)
      else if c = 43 then Some 62 else if c = 47 then Some 63 else None)"

fun sextets :: "nat list \<Rightarrow> nat list" where
  "sextets [] = []"
| "sextets [a] = [a div 4, a mod 4 * 16]"
| "sextets [a, b] = [a div 4, a mod 4 * 16 + b div 16, b mod 16 * 4]"
| "sextets (a # b # c # r) = [a div 4, a mod 4 * 16 + b div 16, b mod 16 * 4 + c div 64, c mod 64] @ sextets r"

fun octets :: "nat list \<Rightarrow> nat list" where
  "octets (a # b # c # d # r) = [a * 4 + b div 16, b mod 16 * 16 + c div 4, c mod 4 * 64 + d] @ octets r"
| "octets [a, b, c] = [a * 4 + b div 16, b mod 16 * 16 + c div 4]"
| "octets [a, b] = [a * 4 + b div 16]"
| "octets _ = []"

definition btoa :: "js_string \<Rightarrow> js_string" where
  "btoa s = map b64_unit (sextets s) @ replicate ((3 - length s mod 3) mod 3) 61"

definition is_ascii_space :: "nat \<Rightarrow> bool" where
  "is_ascii_space c \<longleftrightarrow> c = 32 \<or> c = 9 \<or> c = 10 \<or> c = 12 \<or> c = 13"

text \<open>White space is ignored, up to two \<open>=\<close> may complete a group of four; \<open>None\<close> is the error thrown.\<close>

definition strip_padding :: "js_string \<Rightarrow> js_string" where
  "strip_padding t =
     (if length t mod 4 \<noteq> 0 then t
      else if drop (length t - 2) t = [61, 61] then take (length t - 2) t
      else if drop (length t - 1) t = [61] then take (length t - 1) t
      else t)"

definition atob :: "js_string \<Rightarrow> js_string option" where
  "atob s =
     (let t = strip_padding (filter (\<lambda>c. \<not> is_ascii_space c) s)
      in if length t mod 4 = 1 \<or> list_ex (\<lambda>c. b64_value c = None) t then None
         else Some (octets (map (\<lambda>c. the (b64_value c)) t)))"

section \<open>The protocol's functions\<close>

definition toBase64Url :: "bytes \<Rightarrow> js_string" where
  "toBase64Url bs =
     filter (\<lambda>c. c \<noteq> 61) (map (\<lambda>c. if c = 43 then 45 else if c = 47 then 95 else c) (btoa (map unat bs)))"

definition fromBase64Url :: "js_string \<Rightarrow> bytes option" where
  "fromBase64Url s =
     (let t = map (\<lambda>c. if c = 45 then 43 else if c = 95 then 47 else c) (trim s);
          pad = (if length t mod 4 = 0 then [] else replicate (4 - length t mod 4) 61)
      in map_option (map of_nat) (atob (t @ pad)))"

section \<open>Round trip\<close>

lemma bytes_below_256: "\<forall>n \<in> set (map unat (bs :: bytes)). n < 256"
  by (simp add: unat_byte_less)

lemma sextets_bound: "\<forall>b \<in> set bs. b < 256 \<Longrightarrow> k \<in> set (sextets bs) \<Longrightarrow> k < 64"
  by (induction bs rule: sextets.induct) auto

lemma octets_sextets: "\<forall>b \<in> set bs. b < 256 \<Longrightarrow> octets (sextets bs) = bs"
  by (induction bs rule: sextets.induct) auto

lemma length_sextets: "length (sextets bs) mod 4 \<noteq> 1" "length (sextets bs) mod 4 = (if length bs mod 3 = 0 then 0 else length bs mod 3 + 1)"
  by (induction bs rule: sextets.induct) auto

definition url_unit :: "nat \<Rightarrow> nat" where
  "url_unit k = (if b64_unit k = 43 then 45 else if b64_unit k = 47 then 95 else b64_unit k)"

lemma unit_cases: "k < 64 \<Longrightarrow> b64_value (b64_unit k) = Some k \<and> b64_unit k \<noteq> 61 \<and> \<not> is_ascii_space (b64_unit k)"
  by (auto simp: b64_unit_def b64_value_def is_ascii_space_def)

lemma url_unit_cases:
  "k < 64 \<Longrightarrow> url_unit k \<noteq> 61 \<and> \<not> is_space_unit (url_unit k) \<and>
     (if url_unit k = 45 then 43 else if url_unit k = 95 then 47 else url_unit k) = b64_unit k"
  by (auto simp: url_unit_def b64_unit_def is_space_unit_def)

lemma toBase64Url_sextets: "toBase64Url bs = map url_unit (sextets (map unat bs))"
proof -
  have "\<forall>k \<in> set (sextets (map unat bs)). k < 64" using sextets_bound [OF bytes_below_256] by blast
  then have "filter (\<lambda>c. c \<noteq> 61) (map url_unit (sextets (map unat bs))) = map url_unit (sextets (map unat bs))"
    using url_unit_cases by (intro filter_True) auto
  then show ?thesis by (simp add: toBase64Url_def btoa_def url_unit_def [abs_def] comp_def)
qed

lemma strip_padding_units:
  assumes "61 \<notin> set t" "length t mod 4 \<noteq> 1"
  shows "strip_padding (t @ (if length t mod 4 = 0 then [] else replicate (4 - length t mod 4) 61)) = t"
proof -
  have last: "drop (length t - n) t \<noteq> replicate n 61" if "0 < n" "length t \<noteq> 0" for n
  proof
    assume e: "drop (length t - n) t = replicate n 61"
    have "set (drop (length t - n) t) \<subseteq> set t" by (rule set_drop_subset)
    with e that assms(1) show False by auto
  qed
  consider "length t mod 4 = 0" | "length t mod 4 = 2" | "length t mod 4 = 3" using assms(2) by linarith
  then show ?thesis
  proof cases
    case 1
    show ?thesis
    proof (cases t)
      case (Cons c s)
      then show ?thesis using 1 last [of 2] last [of 1] by (simp add: strip_padding_def numeral_2_eq_2)
    qed (simp add: strip_padding_def)
  next
    case 2
    then have "(length t + 2) mod 4 = 0" by presburger
    with 2 show ?thesis by (simp add: strip_padding_def numeral_2_eq_2)
  next
    case 3
    then have "(length t + 1) mod 4 = 0" "t \<noteq> []" by (presburger, auto)
    moreover have "drop (length t - 1) (t @ [61]) \<noteq> [61, 61]"
      using last [of 1] \<open>t \<noteq> []\<close> by auto
    ultimately show ?thesis using 3 by (simp add: strip_padding_def)
  qed
qed

text \<open>Bytes survive base64: decoding the text of any bytes gives the bytes back.\<close>

lemma fromBase64Url_toBase64Url [simp]: "fromBase64Url (toBase64Url bs) = Some bs"
proof -
  let ?k = "sextets (map unat bs)"
  have b: "\<forall>n \<in> set (map unat bs). n < 256" by (rule bytes_below_256)
  have k: "\<forall>k \<in> set ?k. k < 64" using sextets_bound [OF b] by auto
  have t: "trim (map url_unit ?k) = map url_unit ?k" using url_unit_cases k by (intro trim_plain) auto
  have u: "map (\<lambda>c. if c = 45 then 43 else if c = 95 then 47 else c) (map url_unit ?k) = map b64_unit ?k"
    using url_unit_cases k by auto
  have nospace: "filter (\<lambda>c. \<not> is_ascii_space c) (map b64_unit ?k @ p) = map b64_unit ?k @ p" if "set p \<subseteq> {61}" for p
    using unit_cases k that by (intro filter_True) (auto simp: is_ascii_space_def)
  have strip: "strip_padding (map b64_unit ?k @
      (if length (map b64_unit ?k) mod 4 = 0 then [] else replicate (4 - length (map b64_unit ?k) mod 4) 61)) = map b64_unit ?k"
    using unit_cases k length_sextets(1) [of "map unat bs"] by (intro strip_padding_units) auto
  have v: "map (\<lambda>c. the (b64_value c)) (map b64_unit ?k) = ?k" using unit_cases k by (auto intro: map_idI)
  have "\<not> list_ex (\<lambda>c. b64_value c = None) (map b64_unit ?k)" using unit_cases k by (auto simp: list_ex_iff)
  then have "atob (map b64_unit ?k @
      (if length (map b64_unit ?k) mod 4 = 0 then [] else replicate (4 - length (map b64_unit ?k) mod 4) 61)) =
      Some (map unat bs)"
    using strip nospace v octets_sextets [OF b] length_sextets(1) [of "map unat bs"]
    by (simp add: atob_def Let_def)
  moreover have "map of_nat (map unat bs) = bs" by (simp add: comp_def)
  ultimately show ?thesis
    unfolding fromBase64Url_def toBase64Url_sextets t u Let_def
    by (simp only: length_map option.map)
qed

end
