(* ===== verification/Fscp_Frames.thy ===== *)
theory Fscp_Frames
  imports Json_Text Fscp_Base64 Fscp_Ids
begin

text \<open>
  The lines of text that keys, tags and signatures of the protocol are bound to
  (\<open>products/FSCP/ts/src/aad.ts\<close>, the frame functions of \<open>franking.ts\<close> and \<open>safetyNumber.ts\<close>): fields joined by bars under the name of their context. What a line is good
  for is that it determines its fields and its context.
\<close>

section \<open>Lines of fields\<close>

definition join_bar :: "js_string list \<Rightarrow> js_string" where
  "join_bar = join_with (js '' | '')"

record message_ids =
  mi_conversation :: js_string
  mi_epoch :: js_string
  mi_message :: js_string
  mi_key :: js_string
  mi_sender :: js_string
  mi_device :: js_string

definition id_fields :: "message_ids \<Rightarrow> js_string list" where
  "id_fields m =
     [toLowerCase (mi_conversation m), toLowerCase (mi_epoch m), toLowerCase (mi_message m),
      toLowerCase (mi_key m), toLowerCase (mi_sender m), toLowerCase (mi_device m)]"

definition recipientKeyEnvelopeAadLine :: "message_ids \<Rightarrow> js_string \<Rightarrow> js_string \<Rightarrow> js_string \<Rightarrow> js_string" where
  "recipientKeyEnvelopeAadLine m user device keyId =
     join_bar (js ''flora.messaging.recipient-key-envelope.v1'' # id_fields m @
       [toLowerCase user, toLowerCase device, toLowerCase keyId])"

definition frank_tag_field :: "js_string option \<Rightarrow> js_string list" where
  "frank_tag_field tag = (case tag of None \<Rightarrow> [] | Some t \<Rightarrow> if trim t = [] then [] else [trim t])"

definition messageBodyAadLine :: "message_ids \<Rightarrow> js_string \<Rightarrow> js_string option \<Rightarrow> js_string" where
  "messageBodyAadLine m createdAt tag =
     join_bar ((if frank_tag_field tag = [] then js ''flora.messaging.message.v1'' else js ''flora.messaging.message.v1_1'')
       # id_fields m @ [createdAt] @ frank_tag_field tag)"

section \<open>Franking\<close>

record frank_context =
  fc_conversation :: js_string
  fc_message :: js_string
  fc_sender :: js_string
  fc_device :: js_string
  fc_receiver :: js_string
  fc_createdAt :: js_string

definition frankCommitInputV1 :: "(bytes \<Rightarrow> bytes) \<Rightarrow> frank_context \<Rightarrow> bytes \<Rightarrow> js_string" where
  "frankCommitInputV1 sha256 ctx plaintext =
     join_bar [js ''flora.fscp.franking.v1'', toLowerCase (fc_conversation ctx), toLowerCase (fc_message ctx),
       toLowerCase (fc_sender ctx), toLowerCase (fc_device ctx), toLowerCase (fc_receiver ctx),
       fc_createdAt ctx, toBase64Url (sha256 plaintext)]"

definition frankReceiptPayloadV1 :: "js_string \<Rightarrow> frank_context \<Rightarrow> js_string \<Rightarrow> js_string" where
  "frankReceiptPayloadV1 tag ctx serverReceivedAt =
     join_bar [js ''flora.fscp.franking-receipt.v1'', tag, toLowerCase (fc_message ctx), toLowerCase (fc_conversation ctx),
       toLowerCase (fc_sender ctx), toLowerCase (fc_receiver ctx), serverReceivedAt]"

definition frankingWrapAadV1 :: "js_string \<Rightarrow> js_string \<Rightarrow> js_string \<Rightarrow> js_string" where
  "frankingWrapAadV1 persistedMessageUuid user device =
     join_bar [js ''flora.fscp.franking-wrap.v1'', toLowerCase persistedMessageUuid, toLowerCase user, toLowerCase device]"

definition frankingWrapAadV2 :: "js_string \<Rightarrow> js_string \<Rightarrow> js_string \<Rightarrow> js_string" where
  "frankingWrapAadV2 bundleUuid user device =
     join_bar [js ''flora.fscp.franking-wrap.v2'', toLowerCase bundleUuid, toLowerCase user, toLowerCase device]"

section \<open>Safety number\<close>

fun memcmp :: "bytes \<Rightarrow> bytes \<Rightarrow> int" where
  "memcmp (a # as) (b # bs) = (let d = uint a - uint b in if d \<noteq> 0 then d else memcmp as bs)"
| "memcmp as bs = int (length as) - int (length bs)"

text \<open>\<open>None\<close> is the error for a key that is not 32 bytes long.\<close>

definition safetyNumberPreimageV1 :: "js_string \<Rightarrow> js_string \<Rightarrow> bytes \<Rightarrow> bytes \<Rightarrow> js_string option" where
  "safetyNumberPreimageV1 keyEpochId conversationUuid a b =
     (if length a \<noteq> 32 \<or> length b \<noteq> 32 then None
      else let (low, high) = (if memcmp a b \<le> 0 then (a, b) else (b, a))
           in Some (join_with (js ''|'') [js ''flora.fscp.v1.safety-number'', toLowerCase keyEpochId,
                toLowerCase conversationUuid, toBase64Url low, toBase64Url high]))"

text \<open>\<open>sha256hex\<close> is \<open>bytesToHex\<close> of \<open>sha256\<close>.\<close>

definition computeSafetyNumberV1 ::
  "(bytes \<Rightarrow> js_string) \<Rightarrow> js_string \<Rightarrow> js_string \<Rightarrow> bytes \<Rightarrow> bytes \<Rightarrow> js_string option"
where
  "computeSafetyNumberV1 sha256hex keyEpochId conversationUuid a b =
     map_option (\<lambda>p. sha256hex (utf8_encode p)) (safetyNumberPreimageV1 keyEpochId conversationUuid a b)"

section \<open>A line determines its fields\<close>

definition bar_free :: "js_string \<Rightarrow> bool" where
  "bar_free s \<longleftrightarrow> 124 \<notin> set s"

lemma bar_free_simps [simp]: "bar_free []" "bar_free (c # s) \<longleftrightarrow> c \<noteq> 124 \<and> bar_free s"
  by (auto simp: bar_free_def)

lemma bar_free_lower [simp]: "bar_free (toLowerCase s) = bar_free s"
  by (auto simp: bar_free_def toLowerCase_def lower_unit_def image_iff split: if_splits)

lemma bar_split:
  assumes "bar_free x" "bar_free y" "x @ p @ 124 # r = y @ p @ 124 # s" "bar_free p"
  shows "x = y \<and> r = s"
proof -
  have t: "takeWhile (\<lambda>c. c \<noteq> 124) ((z @ p) @ 124 # u) = z @ p" if "bar_free z" for z u
    using that assms(4) by (subst takeWhile_append2) (auto simp: bar_free_def)
  have "x @ p = y @ p" using t [OF assms(1), of r] t [OF assms(2), of s] assms(3) by simp
  with assms(3) show ?thesis by simp
qed

lemma bar_free_no_split: "bar_free x \<Longrightarrow> x \<noteq> y @ p @ 124 # s"
  by (auto simp: bar_free_def)

lemma join_fields_inj:
  assumes "bar_free p"
  shows "\<lbrakk>\<forall>x \<in> set xs. bar_free x; \<forall>y \<in> set ys. bar_free y; xs \<noteq> []; ys \<noteq> [];
     join_with (p @ 124 # q) xs = join_with (p @ 124 # q) ys\<rbrakk> \<Longrightarrow> xs = ys"
proof (induction xs arbitrary: ys)
  case (Cons x xs)
  then obtain y zs where ys: "ys = y # zs" by (cases ys) auto
  have no: "bar_free z \<Longrightarrow> z \<noteq> y' @ p @ 124 # q @ r" for z y' r by (rule bar_free_no_split)
  show ?case
  proof (cases xs)
    case Nil
    with Cons.prems ys no [of x y "join_with (p @ 124 # q) zs"] show ?thesis by (cases zs) auto
  next
    case xs: (Cons x' xs')
    show ?thesis
    proof (cases zs)
      case Nil
      with Cons.prems ys xs no [of y x "join_with (p @ 124 # q) xs"] show ?thesis by auto
    next
      case zs: (Cons z zs')
      have "x = y \<and> q @ join_with (p @ 124 # q) xs = q @ join_with (p @ 124 # q) zs"
        by (rule bar_split [of x y p]) (use Cons.prems ys xs zs assms in auto)
      with Cons.IH [of zs] Cons.prems xs zs ys show ?thesis by auto
    qed
  qed
qed simp

lemma join_bar_inj:
  assumes "\<forall>x \<in> set xs. bar_free x" "\<forall>y \<in> set ys. bar_free y" "xs \<noteq> []" "ys \<noteq> []" "join_bar xs = join_bar ys"
  shows "xs = ys"
  using join_fields_inj [of "[32]" xs ys "[32]"] assms by (simp add: join_bar_def bar_free_def)

definition plain_ids :: "message_ids \<Rightarrow> bool" where
  "plain_ids m \<longleftrightarrow> bar_free (mi_conversation m) \<and> bar_free (mi_epoch m) \<and> bar_free (mi_message m) \<and>
     bar_free (mi_key m) \<and> bar_free (mi_sender m) \<and> bar_free (mi_device m)"

text \<open>The tag as it counts: trimmed, and none when it is blank.\<close>

definition tag_text :: "js_string option \<Rightarrow> js_string" where
  "tag_text tag = (case tag of None \<Rightarrow> [] | Some t \<Rightarrow> trim t)"

lemma frank_tag_text: "frank_tag_field tag = (if tag_text tag = [] then [] else [tag_text tag])"
  by (simp add: frank_tag_field_def tag_text_def split: option.split)

lemma plain_id_fields: "plain_ids m \<Longrightarrow> \<forall>s \<in> set (id_fields m). bar_free s"
  by (simp add: plain_ids_def id_fields_def)

text \<open>
  C31. The line that a message body is encrypted under binds the message: when none of the fields holds a
  bar, two lines are equal exactly when conversation, key epoch, message, message key, sender and sending
  device agree up to case, the time agrees, and the trimmed franking tag agrees. So a server can neither
  move a body to another message, sender or device nor add, drop or change the tag.
\<close>

theorem body_line_binds_message:
  assumes "plain_ids m" "plain_ids m'" "bar_free c" "bar_free c'" "bar_free (tag_text tag)" "bar_free (tag_text tag')"
  shows "messageBodyAadLine m c tag = messageBodyAadLine m' c' tag' \<longleftrightarrow>
    toLowerCase (mi_conversation m) = toLowerCase (mi_conversation m') \<and>
    toLowerCase (mi_epoch m) = toLowerCase (mi_epoch m') \<and>
    toLowerCase (mi_message m) = toLowerCase (mi_message m') \<and>
    toLowerCase (mi_key m) = toLowerCase (mi_key m') \<and>
    toLowerCase (mi_sender m) = toLowerCase (mi_sender m') \<and>
    toLowerCase (mi_device m) = toLowerCase (mi_device m') \<and>
    c = c' \<and> tag_text tag = tag_text tag'"
proof -
  define line where "line = (\<lambda>m c tag. (if frank_tag_field tag = [] then js ''flora.messaging.message.v1''
      else js ''flora.messaging.message.v1_1'') # id_fields m @ [c] @ frank_tag_field tag)"
  have bar: "messageBodyAadLine m c tag = join_bar (line m c tag)" for m c tag
    by (simp add: messageBodyAadLine_def line_def)
  have "messageBodyAadLine m c tag = messageBodyAadLine m' c' tag' \<longleftrightarrow> line m c tag = line m' c' tag'"
    using join_bar_inj [of "line m c tag" "line m' c' tag'"] assms plain_id_fields [OF assms(1)] plain_id_fields [OF assms(2)]
    by (auto simp: bar line_def frank_tag_text)
  then show ?thesis by (auto simp: line_def id_fields_def frank_tag_text)
qed

definition sample_ids :: "js_string \<Rightarrow> message_ids" where
  "sample_ids sender =
     \<lparr>mi_conversation = js ''c'', mi_epoch = js ''e'', mi_message = js ''m'', mi_key = js ''k'', mi_sender = sender,
      mi_device = js ''d''\<rparr>"

theorem body_line_binds_message_witness:
  "messageBodyAadLine (sample_ids (js ''Anna'')) (js ''t'') (Some (js ''x'')) =
     messageBodyAadLine (sample_ids (js ''anna'')) (js ''t'') (Some (js ''x '')) \<and>
   messageBodyAadLine (sample_ids (js ''Anna'')) (js ''t'') (Some (js ''x'')) \<noteq>
     messageBodyAadLine (sample_ids (js ''Anna'')) (js ''t'') None"
  by (intro conjI; subst body_line_binds_message)
    (simp_all add: plain_ids_def sample_ids_def tag_text_def trim_def is_space_unit_def toLowerCase_def lower_unit_def)

lemma lines_differ: "messageBodyAadLine m c tag \<noteq> recipientKeyEnvelopeAadLine m' user device keyId"
  if "plain_ids m" "plain_ids m'" "bar_free c" "bar_free (tag_text tag)" "bar_free user" "bar_free device" "bar_free keyId"
proof
  assume "messageBodyAadLine m c tag = recipientKeyEnvelopeAadLine m' user device keyId"
  then have "(if frank_tag_field tag = [] then js ''flora.messaging.message.v1'' else js ''flora.messaging.message.v1_1'')
          # id_fields m @ [c] @ frank_tag_field tag =
        js ''flora.messaging.recipient-key-envelope.v1'' # id_fields m' @ [toLowerCase user, toLowerCase device, toLowerCase keyId]"
    unfolding messageBodyAadLine_def recipientKeyEnvelopeAadLine_def
    by (rule join_bar_inj [rotated 4])
      (use that plain_id_fields [OF that(1)] plain_id_fields [OF that(2)] in \<open>auto simp: frank_tag_text\<close>)
  then show False by (auto split: if_splits)
qed

section \<open>Safety numbers agree\<close>

lemma memcmp_antisym: "memcmp b a = - memcmp a b"
  by (induction a b rule: memcmp.induct) (auto simp: Let_def)

lemma memcmp_0: "length a = length b \<Longrightarrow> memcmp a b = 0 \<Longrightarrow> a = b"
  by (induction a b rule: memcmp.induct) (auto simp: Let_def word_uint_eq_iff split: if_splits)

lemma base64_bar_free: "bar_free (toBase64Url bs)"
proof -
  have "url_unit k \<noteq> 124" if "k < 64" for k using that by (auto simp: url_unit_def b64_unit_def)
  moreover have "k < 64" if "k \<in> set (sextets (map unat bs))" for k
    by (rule sextets_bound [OF bytes_below_256 that])
  ultimately show ?thesis by (auto simp: toBase64Url_sextets bar_free_def)
qed

lemma toBase64Url_inj: "toBase64Url a = toBase64Url b \<Longrightarrow> a = b"
  by (metis fromBase64Url_toBase64Url option.inject)

text \<open>
  C32. Both partners compare the same number, and it stands for their two keys: the order of the keys does not
  matter, and equal preimages come from the same epoch, the same conversation and the same pair of keys.
\<close>

theorem safety_number_binds_keys:
  assumes "length a = 32" "length b = 32" "length a' = 32" "length b' = 32"
    and "bar_free e" "bar_free e'" "bar_free c" "bar_free c'"
  shows "safetyNumberPreimageV1 e c b a = safetyNumberPreimageV1 e c a b \<and>
    (safetyNumberPreimageV1 e c a b = safetyNumberPreimageV1 e' c' a' b' \<longleftrightarrow>
     toLowerCase e = toLowerCase e' \<and> toLowerCase c = toLowerCase c' \<and> {a, b} = {a', b'})"
proof -
  define low high where "low = (\<lambda>a b. if memcmp a b \<le> 0 then a else b)" and "high = (\<lambda>a b. if memcmp a b \<le> 0 then b else a)"
  have sym: "low b a = low a b" "high b a = high a b" if "length a = length b" for a b
    using memcmp_antisym [of a b] memcmp_0 [OF that] by (auto simp: low_def high_def)
  define line where "line = (\<lambda>e c a b. [js ''flora.fscp.v1.safety-number'', toLowerCase e, toLowerCase c,
    toBase64Url (low a b), toBase64Url (high a b)])"
  have p: "safetyNumberPreimageV1 e c a b = Some (join_with [124] (line e c a b))" if "length a = 32" "length b = 32" for e c a b
    using that by (simp add: safetyNumberPreimageV1_def line_def low_def high_def Let_def)
  have free: "\<forall>x \<in> set (line e c a b). bar_free x" if "bar_free e" "bar_free c" for e c a b
    using that base64_bar_free by (simp add: line_def)
  have ne: "line e c a b \<noteq> []" for e c a b by (simp add: line_def)
  have "join_with [124] (line e c a b) = join_with [124] (line e' c' a' b') \<longleftrightarrow> line e c a b = line e' c' a' b'"
    using join_fields_inj [of "[]" "line e c a b" "line e' c' a' b'" "[]"]
      free [OF assms(5,7), of a b] free [OF assms(6,8), of a' b'] ne by auto
  moreover have "line e c a b = line e' c' a' b' \<longleftrightarrow>
      toLowerCase e = toLowerCase e' \<and> toLowerCase c = toLowerCase c' \<and> low a b = low a' b' \<and> high a b = high a' b'"
    using toBase64Url_inj by (auto simp: line_def)
  moreover have "low a b = low a' b' \<and> high a b = high a' b' \<longleftrightarrow> {a, b} = {a', b'}"
  proof
    have pair: "{low a b, high a b} = {a, b}" for a b by (auto simp: low_def high_def)
    show "{a, b} = {a', b'}" if "low a b = low a' b' \<and> high a b = high a' b'"
      using that pair [of a b] pair [of a' b'] by metis
    show "low a b = low a' b' \<and> high a b = high a' b'" if "{a, b} = {a', b'}"
      using that sym [of a b] assms(1,2) by (auto simp: doubleton_eq_iff)
  qed
  moreover have "line e c b a = line e c a b" using sym [of a b] assms(1,2) by (simp add: line_def)
  ultimately show ?thesis using p assms(1-4) by simp
qed

theorem safety_number_binds_keys_witness:
  "safetyNumberPreimageV1 (js ''e'') (js ''c'') (replicate 32 1) (replicate 32 0) =
     safetyNumberPreimageV1 (js ''e'') (js ''c'') (replicate 32 0) (replicate 32 1) \<and>
   (safetyNumberPreimageV1 (js ''e'') (js ''c'') (replicate 32 0) (replicate 32 1) =
      safetyNumberPreimageV1 (js ''E'') (js ''c'') (replicate 32 1) (replicate 32 0) \<longleftrightarrow>
    toLowerCase (js ''e'') = toLowerCase (js ''E'') \<and> toLowerCase (js ''c'') = toLowerCase (js ''c'') \<and>
    {replicate 32 (0 :: byte), replicate 32 1} = {replicate 32 1, replicate 32 0})"
  by (rule safety_number_binds_keys) simp_all

end
