(* ===== verification/Fscp_Plaintext.thy ===== *)
theory Fscp_Plaintext
  imports Json_Text Flora_Text
begin

text \<open>
  The plaintext of a message (\<open>products/FSCP/ts/src/envelope.ts\<close>): its blocks, the tolerant reader
  \<open>normalizeFscpMessagePlaintext\<close>, and the padding that hides its length. A JavaScript number is a \<open>JInt\<close> or,
  when it has a fraction, the single value \<open>JFrac\<close>: the reader only passes numbers on.
\<close>

section \<open>Blocks\<close>

record block_key =
  bk_key :: js_string
  bk_nonce :: js_string

datatype message_block =
    TextBlock js_string
  | VoiceBlock js_string json "json list" js_string block_key
  | ImageBlock js_string js_string block_key
  | VideoBlock js_string js_string json json json block_key
  | UnknownBlock js_string

record reply_ref =
  rp_message :: js_string
  rp_author :: js_string
  rp_preview :: js_string

record message_plaintext =
  mp_blocks :: "message_block list"
  mp_createdAt :: js_string
  mp_reply :: "reply_ref option"

section \<open>The reader\<close>

definition str_member :: "json_record \<Rightarrow> js_string \<Rightarrow> js_string option" where
  "str_member o' k = (case map_of o' k of Some (JStr s) \<Rightarrow> Some s | _ \<Rightarrow> None)"

fun is_number :: "json \<Rightarrow> bool" where
  "is_number (JInt n) = True"
| "is_number JFrac = True"
| "is_number _ = False"

definition num_member :: "json_record \<Rightarrow> js_string \<Rightarrow> json option" where
  "num_member o' k = (case map_of o' k of Some v \<Rightarrow> if is_number v then Some v else None | None \<Rightarrow> None)"

definition num_or_0 :: "json_record \<Rightarrow> js_string \<Rightarrow> json" where
  "num_or_0 o' k = (case num_member o' k of Some v \<Rightarrow> v | None \<Rightarrow> JInt 0)"

definition normalizeReplyRef :: "json option \<Rightarrow> reply_ref option" where
  "normalizeReplyRef raw =
     Option.bind (Option.bind raw as_record) (\<lambda>r.
       case (str_member r (js ''messageUuid''), str_member r (js ''authorDisplayName''), str_member r (js ''preview'')) of
         (Some m, Some a, Some p) \<Rightarrow> Some \<lparr>rp_message = m, rp_author = a, rp_preview = p\<rparr>
       | _ \<Rightarrow> None)"

definition read_block_key :: "json_record \<Rightarrow> block_key option" where
  "read_block_key b =
     Option.bind (Option.bind (map_of b (js ''encryption'')) as_record) (\<lambda>e.
       if str_member e (js ''algorithm'') \<noteq> Some (js ''aes-gcm'') then None
       else case (str_member e (js ''keyBase64Url''), str_member e (js ''nonceBase64Url'')) of
              (Some k, Some n) \<Rightarrow> Some \<lparr>bk_key = k, bk_nonce = n\<rparr>
            | _ \<Rightarrow> None)"

definition read_waveform :: "json_record \<Rightarrow> json list" where
  "read_waveform b = (case map_of b (js ''waveform'') of Some (JArr xs) \<Rightarrow> filter is_number xs | _ \<Rightarrow> [])"

definition read_text_block :: "json_record \<Rightarrow> message_block option" where
  "read_text_block b =
     (if str_member b (js ''kind'') = Some (js ''text'') then map_option TextBlock (str_member b (js ''body'')) else None)"

definition read_voice :: "json_record \<Rightarrow> message_block option" where
  "read_voice b =
     (case (str_member b (js ''assetUuid''), num_member b (js ''durationMs''), str_member b (js ''contentType''),
            read_block_key b) of
        (Some a, Some d, Some c, Some e) \<Rightarrow>
          if str_member b (js ''kind'') = Some (js ''voice'') then Some (VoiceBlock a d (read_waveform b) c e) else None
      | _ \<Rightarrow> None)"

definition read_image :: "json_record \<Rightarrow> message_block option" where
  "read_image b =
     (case (str_member b (js ''assetUuid''), str_member b (js ''contentType''), read_block_key b) of
        (Some a, Some c, Some e) \<Rightarrow> if str_member b (js ''kind'') = Some (js ''image'') then Some (ImageBlock a c e) else None
      | _ \<Rightarrow> None)"

definition read_video :: "json_record \<Rightarrow> message_block option" where
  "read_video b =
     (case (str_member b (js ''assetUuid''), str_member b (js ''contentType''), read_block_key b) of
        (Some a, Some c, Some e) \<Rightarrow>
          if str_member b (js ''kind'') = Some (js ''video'')
          then Some (VideoBlock a c (num_or_0 b (js ''durationMs'')) (num_or_0 b (js ''width'')) (num_or_0 b (js ''height'')) e)
          else None
      | _ \<Rightarrow> None)"

text \<open>A block of another kind is kept as a placeholder; one without a kind is dropped.\<close>

definition read_unknown :: "json_record \<Rightarrow> message_block option" where
  "read_unknown b =
     (case str_member b (js ''kind'') of Some k \<Rightarrow> if k = [] then None else Some (UnknownBlock k) | None \<Rightarrow> None)"

fun or_else :: "'a option \<Rightarrow> 'a option \<Rightarrow> 'a option" where
  "or_else (Some x) y = Some x"
| "or_else None y = y"

definition normalize_block :: "json \<Rightarrow> message_block option" where
  "normalize_block raw =
     Option.bind (as_record raw) (\<lambda>b.
       or_else (read_text_block b) (or_else (read_voice b) (or_else (read_image b) (or_else (read_video b) (read_unknown b)))))"

text \<open>\<open>now\<close> is the current time as text; \<open>None\<close> is the error that is thrown.\<close>

definition normalizeFscpMessagePlaintext :: "js_string \<Rightarrow> json \<Rightarrow> message_plaintext option" where
  "normalizeFscpMessagePlaintext now raw =
     Option.bind (as_record raw) (\<lambda>o'.
       let created = (case str_member o' (js ''clientCreatedAt'') of Some t \<Rightarrow> t | None \<Rightarrow> now);
           reply = normalizeReplyRef (map_of o' (js ''replyTo''))
       in case (if str_member o' (js ''type'') = Some (js ''text'') then str_member o' (js ''body'') else None) of
            Some body \<Rightarrow> Some \<lparr>mp_blocks = [TextBlock body], mp_createdAt = created, mp_reply = reply\<rparr>
          | None \<Rightarrow>
              if str_member o' (js ''type'') \<noteq> Some (js ''blocks'') then None
              else case map_of o' (js ''blocks'') of
                     Some (JArr bs) \<Rightarrow>
                       Some \<lparr>mp_blocks = List.map_filter normalize_block bs, mp_createdAt = created, mp_reply = reply\<rparr>
                   | _ \<Rightarrow> None)"

section \<open>The writer\<close>

text \<open>The object literals of the code, member by member; a missing reply is no member.\<close>

definition block_key_json :: "block_key \<Rightarrow> json" where
  "block_key_json e =
     JObj [(js ''algorithm'', JStr (js ''aes-gcm'')), (js ''keyBase64Url'', JStr (bk_key e)),
           (js ''nonceBase64Url'', JStr (bk_nonce e))]"

fun block_json :: "message_block \<Rightarrow> json" where
  "block_json (TextBlock t) = JObj [(js ''kind'', JStr (js ''text'')), (js ''body'', JStr t)]"
| "block_json (VoiceBlock a d w c e) =
     JObj [(js ''kind'', JStr (js ''voice'')), (js ''assetUuid'', JStr a), (js ''durationMs'', d),
           (js ''waveform'', JArr w), (js ''contentType'', JStr c), (js ''encryption'', block_key_json e)]"
| "block_json (ImageBlock a c e) =
     JObj [(js ''kind'', JStr (js ''image'')), (js ''assetUuid'', JStr a), (js ''contentType'', JStr c),
           (js ''encryption'', block_key_json e)]"
| "block_json (VideoBlock a c d w h e) =
     JObj [(js ''kind'', JStr (js ''video'')), (js ''assetUuid'', JStr a), (js ''contentType'', JStr c),
           (js ''durationMs'', d), (js ''width'', w), (js ''height'', h), (js ''encryption'', block_key_json e)]"
| "block_json (UnknownBlock k) = JObj [(js ''kind'', JStr (js ''unknown'')), (js ''originalKind'', JStr k)]"

definition reply_json :: "reply_ref \<Rightarrow> json" where
  "reply_json r =
     JObj [(js ''messageUuid'', JStr (rp_message r)), (js ''authorDisplayName'', JStr (rp_author r)),
           (js ''preview'', JStr (rp_preview r))]"

definition plaintext_members :: "message_plaintext \<Rightarrow> json_record" where
  "plaintext_members p =
     [(js ''type'', JStr (js ''blocks'')), (js ''version'', JInt 1), (js ''blocks'', JArr (map block_json (mp_blocks p))),
      (js ''clientCreatedAt'', JStr (mp_createdAt p))] @
     (case mp_reply p of None \<Rightarrow> [] | Some r \<Rightarrow> [(js ''replyTo'', reply_json r)])"

definition messagePlaintextFromBlocks :: "message_block list \<Rightarrow> js_string \<Rightarrow> message_plaintext" where
  "messagePlaintextFromBlocks blocks clientCreatedAt =
     \<lparr>mp_blocks = blocks, mp_createdAt = clientCreatedAt, mp_reply = None\<rparr>"

section \<open>Padding\<close>

definition PAD_FIELD_OVERHEAD_BYTES :: nat where
  "PAD_FIELD_OVERHEAD_BYTES = 9"

definition fscpPlaintextBucketBytes :: "nat \<Rightarrow> nat" where
  "fscpPlaintextBucketBytes rawUtf8Length =
     (let withOverhead = rawUtf8Length + PAD_FIELD_OVERHEAD_BYTES;
          step = (if withOverhead \<le> 4096 then 256 else 1024)
      in (withOverhead + step - 1) div step * step)"

definition padPlaintextJsonV1 :: "js_string \<Rightarrow> js_string" where
  "padPlaintextJsonV1 compactJson =
     (if compactJson = [] \<or> last compactJson \<noteq> 125 then compactJson
      else let rawLen = length (utf8_encode compactJson);
               padLen = fscpPlaintextBucketBytes rawLen - rawLen - PAD_FIELD_OVERHEAD_BYTES
           in butlast compactJson @ js '',\"pad\":\"'' @ replicate padLen 48 @ js ''\"}'')"

section \<open>Text that survives the way through bytes\<close>

definition text_ok :: "js_string \<Rightarrow> bool" where
  "text_ok t \<longleftrightarrow> is_js_string t \<and> well_formed t"

lemma well_formed_append: "well_formed a \<Longrightarrow> well_formed b \<Longrightarrow> well_formed (a @ b)"
proof (induction a rule: well_formed.induct)
  case (2 c)
  then show ?case by (cases b) auto
next
  case (3 c d r)
  then show ?case by (auto split: if_splits)
qed simp

lemma text_ok_Nil [simp]: "text_ok []"
  by (simp add: text_ok_def is_js_string_def)

lemma text_ok_append: "text_ok a \<Longrightarrow> text_ok b \<Longrightarrow> text_ok (a @ b)"
  by (auto simp: text_ok_def well_formed_append is_js_string_def)

lemma text_ok_unit: "c < 0xD800 \<Longrightarrow> text_ok [c]"
  by (simp add: text_ok_def is_js_string_def high_surrogate_def low_surrogate_def)

lemma text_ok_Cons: "c < 0xD800 \<Longrightarrow> text_ok s \<Longrightarrow> text_ok (c # s)"
  using text_ok_append [OF text_ok_unit, of c s] by simp

lemma text_ok_low: "\<forall>c \<in> set s. c < 0xD800 \<Longrightarrow> text_ok s"
  by (induction s) (auto intro: text_ok_Cons)

lemma text_ok_join: "text_ok sep \<Longrightarrow> \<forall>t \<in> set ts. text_ok t \<Longrightarrow> text_ok (join_with sep ts)"
  by (induction sep ts rule: join_with.induct) (auto intro!: text_ok_append)

lemma hex4_low: "c < 65536 \<Longrightarrow> \<forall>d \<in> set (hex4 c). d < 128"
proof -
  assume "c < 65536"
  then have "c div 4096 < 16" by (simp add: less_mult_imp_div_less)
  moreover have "hex_digit d < 128" if "d < 16" for d using that by (simp add: hex_digit_def)
  ultimately show ?thesis by (simp add: hex4_def)
qed

lemma esc_unit_text: "c < 65536 \<Longrightarrow> text_ok (esc_unit c)"
proof -
  assume c: "c < 65536"
  show ?thesis
  proof (cases "short_escape c")
    case None
    have "text_ok ([92, 117] @ hex4 c)" using hex4_low [OF c] by (intro text_ok_low) auto
    moreover have "text_ok [c]" if "\<not> high_surrogate c" "\<not> low_surrogate c"
      using that c by (simp add: text_ok_def is_js_string_def)
    ultimately show ?thesis using None by (simp add: esc_unit_def)
  next
    case (Some e)
    then have "e < 128" by (auto simp: short_escape_def split: if_splits)
    with Some show ?thesis by (simp add: esc_unit_def text_ok_low)
  qed
qed

lemma esc_str_text: "is_js_string s \<Longrightarrow> text_ok (esc_str s)"
proof (induction s rule: esc_str.induct)
  case (3 c d s)
  then have c: "c < 65536" "d < 65536" "is_js_string (d # s)" "is_js_string s" by (simp_all add: is_js_string_def)
  show ?case
  proof (cases "high_surrogate c \<and> low_surrogate d")
    case True
    moreover have "text_ok [c, d]" using True c by (simp add: text_ok_def is_js_string_def)
    ultimately show ?thesis using text_ok_append [of "[c, d]" "esc_str s"] 3(1) c(4) by simp
  next
    case False
    with 3(2) [OF False c(3)] c(1) show ?thesis by (auto intro!: text_ok_append esc_unit_text)
  qed
qed (auto simp: is_js_string_def intro: esc_unit_text)

lemma quote_text: "is_js_string s \<Longrightarrow> text_ok (quote s)"
  by (auto simp: quote_def intro!: text_ok_Cons text_ok_append esc_str_text text_ok_unit)

lemma int_text_text: "text_ok (int_text n)"
  using dec_digits_are_digits by (intro text_ok_low) (force simp: int_text_def is_digit_unit_def split: if_splits)

lemma list_all2_right: "list_all2 P xs ys \<Longrightarrow> y \<in> set ys \<Longrightarrow> \<exists>x \<in> set xs. P x y"
  by (induction rule: list_all2_induct) auto

lemma stringify_text: "json_ok v \<Longrightarrow> stringify v = Some t \<Longrightarrow> text_ok t"
proof (induction v arbitrary: t)
  case (JArr xs)
  then obtain ts where ts: "t = 91 # join_with [44] ts @ [93]" "list_all2 (\<lambda>x t. stringify x = Some t) xs ts"
    by (auto simp: stringify_items_iff)
  have "\<forall>t \<in> set ts. text_ok t" using list_all2_right [OF ts(2)] JArr.IH JArr.prems(1) by fastforce
  then show ?case by (auto simp: ts(1) intro!: text_ok_Cons text_ok_append text_ok_join text_ok_unit)
next
  case (JObj ms)
  then obtain ps where ps: "t = 123 # join_with [44] (map member_text ps) @ [125]"
      "list_all2 (\<lambda>m p. fst m = fst p \<and> stringify (snd m) = Some (snd p)) ms ps"
    by (auto simp: stringify_members_iff)
  have "text_ok (member_text p)" if "p \<in> set ps" for p
  proof -
    obtain m where m: "m \<in> set ms" "fst m = fst p" "stringify (snd m) = Some (snd p)"
      using list_all2_right [OF ps(2) \<open>p \<in> set ps\<close>] by auto
    obtain k v where kv: "m = (k, v)" by fastforce
    have "is_js_string k" "json_ok v" using m(1) kv JObj.prems(1) by auto
    moreover from this have "text_ok (snd p)" using JObj.IH [of m v] m kv by (simp add: snds.simps)
    ultimately show ?thesis using m(2) kv by (auto simp: member_text_def intro!: text_ok_append text_ok_Cons quote_text)
  qed
  then show ?case by (auto simp: ps(1) intro!: text_ok_Cons text_ok_append text_ok_join text_ok_unit)
next
  case (JStr s)
  then show ?case by (auto intro: quote_text)
next
  case (JInt n)
  then show ?case by (auto simp: int_text_text)
next
  case (JBool b)
  then show ?case by (cases b) (auto intro!: text_ok_low)
next
  case JNull
  then show ?case by (auto intro!: text_ok_low)
qed simp

lemma scalar_values_append: "well_formed a \<Longrightarrow> scalar_values (a @ b) = scalar_values a @ scalar_values b"
proof (induction a rule: well_formed.induct)
  case (2 c)
  then show ?case by (cases b) (auto simp: high_surrogate_def low_surrogate_def)
next
  case (3 c d r)
  then show ?case by (auto split: if_splits)
qed simp

lemma utf8_encode_append: "text_ok a \<Longrightarrow> utf8_encode (a @ b) = utf8_encode a @ utf8_encode b"
  by (simp add: utf8_encode_def scalar_values_append text_ok_def)

lemma length_utf8_ascii: "\<forall>c \<in> set s. c < 128 \<Longrightarrow> length (utf8_encode s) = length s"
proof (induction s)
  case (Cons c s)
  have "utf8_encode (c # s) = utf8_encode [c] @ utf8_encode s"
    using utf8_encode_append [OF text_ok_unit, of c s] Cons.prems by simp
  moreover have "length (utf8_encode [c]) = 1"
    using Cons.prems by (simp add: utf8_encode_def utf8_scalar_def high_surrogate_def low_surrogate_def)
  ultimately show ?case using Cons by simp
qed (simp add: utf8_encode_def)

lemma text_decode_stringify:
  "text_ok t \<Longrightarrow> take 1 t \<noteq> [0xFEFF] \<Longrightarrow> text_decode (utf8_encode t) = t"
  by (simp add: text_decode_encode plain_text_def text_ok_def)

section \<open>Padding hides the length and changes nothing\<close>

lemma bucket_bounds:
  "n + 9 \<le> fscpPlaintextBucketBytes n \<and> fscpPlaintextBucketBytes n < n + 9 + 1024 \<and> 256 dvd fscpPlaintextBucketBytes n"
proof -
  have up: "m \<le> (m + k - 1) div k * k \<and> (m + k - 1) div k * k < m + k" if "0 < k" for m k :: nat
  proof -
    have "(m + k - 1) div k * k + (m + k - 1) mod k = m + k - 1" by (rule div_mult_mod_eq)
    moreover have "(m + k - 1) mod k < k" using that by simp
    ultimately show ?thesis using that by linarith
  qed
  have "256 dvd (m + 1024 - 1) div 1024 * (1024 :: nat)" for m by (rule dvd_mult) simp
  then show ?thesis
    using up [of 256 "n + 9"] up [of 1024 "n + 9"]
    by (simp add: fscpPlaintextBucketBytes_def PAD_FIELD_OVERHEAD_BYTES_def Let_def)
qed

definition pad_zeros :: "js_string \<Rightarrow> nat" where
  "pad_zeros t = fscpPlaintextBucketBytes (length (utf8_encode t)) - length (utf8_encode t) - PAD_FIELD_OVERHEAD_BYTES"

lemma pad_object: "padPlaintextJsonV1 (u @ [125]) = u @ js '',\"pad\":\"'' @ replicate (pad_zeros (u @ [125])) 48 @ js ''\"}''"
  by (simp add: padPlaintextJsonV1_def pad_zeros_def Let_def)

lemma padded_length:
  assumes "text_ok u"
  shows "length (utf8_encode (padPlaintextJsonV1 (u @ [125]))) = fscpPlaintextBucketBytes (length (utf8_encode (u @ [125])))"
proof -
  let ?n = "length (utf8_encode (u @ [125]))" and ?k = "pad_zeros (u @ [125])"
  have n: "?n = length (utf8_encode u) + 1"
    using length_utf8_ascii [of "[125]"] by (simp add: utf8_encode_append [OF assms])
  have "length (utf8_encode (js '',\"pad\":\"'' @ replicate ?k 48 @ js ''\"}'')) = 10 + ?k"
    by (subst length_utf8_ascii) auto
  then have "length (utf8_encode (padPlaintextJsonV1 (u @ [125]))) = ?n + 9 + ?k"
    using n unfolding pad_object by (simp add: utf8_encode_append [OF assms])
  also have "\<dots> = fscpPlaintextBucketBytes ?n"
    using bucket_bounds [of ?n] by (simp add: pad_zeros_def PAD_FIELD_OVERHEAD_BYTES_def)
  finally show ?thesis .
qed

lemma stringify_object:
  assumes "stringify (JObj ms) = Some t"
  shows "\<exists>ps. stringify_members ms = Some ps \<and> t = (123 # join_with [44] (map member_text ps)) @ [125]"
  using assms by auto

lemma object_text_ok:
  assumes "json_ok (JObj ms)" "stringify (JObj ms) = Some t"
  shows "\<exists>u. t = u @ [125] \<and> text_ok u"
proof -
  obtain ps where ps: "stringify_members ms = Some ps" "t = (123 # join_with [44] (map member_text ps)) @ [125]"
    using stringify_object [OF assms(2)] by blast
  have "well_formed (u @ [125]) \<Longrightarrow> well_formed u" for u
    by (induction u rule: well_formed.induct) (auto simp: low_surrogate_def split: if_splits)
  moreover have "text_ok t" by (rule stringify_text [OF assms])
  ultimately show ?thesis unfolding ps(2) text_ok_def is_js_string_def by (intro exI conjI) auto
qed

lemma join_with_snoc: "ts \<noteq> [] \<Longrightarrow> join_with sep (ts @ [u]) = join_with sep ts @ sep @ u"
  by (induction sep ts rule: join_with.induct) auto

lemma stringify_members_snoc:
  "stringify_members ms = Some ps \<Longrightarrow> stringify v = Some t \<Longrightarrow> stringify_members (ms @ [(k, v)]) = Some (ps @ [(k, t)])"
proof (induction ms arbitrary: ps)
  case (Cons m ms)
  obtain l w where "m = (l, w)" by fastforce
  with Cons show ?case by (auto split: option.splits)
qed simp

lemma esc_str_zeros: "esc_str (replicate k 48) = replicate k 48"
proof (induction k)
  case (Suc k)
  then show ?case
    by (cases k) (simp_all add: esc_unit_def short_escape_def high_surrogate_def low_surrogate_def)
qed simp

text \<open>The padded text is the text of the object with one more member.\<close>

lemma pad_is_member:
  assumes "stringify (JObj ms) = Some t" "ms \<noteq> []"
  shows "stringify (JObj (ms @ [(js ''pad'', JStr (replicate (pad_zeros t) 48))])) = Some (padPlaintextJsonV1 t)"
proof -
  obtain ps where ps: "stringify_members ms = Some ps" and t: "t = (123 # join_with [44] (map member_text ps)) @ [125]"
    using stringify_object [OF assms(1)] by blast
  have ne: "map member_text ps \<noteq> []" using ps assms(2) by (cases ms) (auto split: option.splits)
  have q: "quote (replicate k 48) = 34 # replicate k 48 @ [34]" for k by (simp add: quote_def esc_str_zeros)
  have p: "quote (js ''pad'') = js ''\"pad\"''"
    by (simp add: quote_def esc_unit_def short_escape_def high_surrogate_def low_surrogate_def)
  have "stringify_members (ms @ [(js ''pad'', JStr (replicate (pad_zeros t) 48))]) =
        Some (ps @ [(js ''pad'', quote (replicate (pad_zeros t) 48))])"
    by (rule stringify_members_snoc [OF ps]) simp
  then have "stringify (JObj (ms @ [(js ''pad'', JStr (replicate (pad_zeros t) 48))])) =
        Some (123 # join_with [44] (map member_text ps @ [member_text (js ''pad'', quote (replicate (pad_zeros t) 48))]) @ [125])"
    by simp
  also have "\<dots> = Some (padPlaintextJsonV1 t)"
    unfolding t pad_object join_with_snoc [OF ne] by (simp add: member_text_def q p del: list.map) (simp add: q)
  finally show ?thesis .
qed

text \<open>
  C33. Padding hides the length of a message: what is encrypted has one of the bucket lengths, multiples of 256
  bytes up to 4 KiB and of 1 KiB above, so two messages in the same bucket give ciphertexts of equal length;
  it costs at most 1 KiB and 8 bytes; and the receiver's \<open>JSON.parse\<close> finds the message's members unchanged,
  with one more member \<open>pad\<close>.
\<close>

theorem padding_hides_length:
  assumes "json_ok (JObj ms)" "ms \<noteq> []" "js ''pad'' \<notin> fst ` set ms" "stringify (JObj ms) = Some t"
  shows "length (utf8_encode (padPlaintextJsonV1 t)) = fscpPlaintextBucketBytes (length (utf8_encode t)) \<and>
    (if length (utf8_encode t) + 9 \<le> 4096 then 256 else 1024) dvd length (utf8_encode (padPlaintextJsonV1 t)) \<and>
    length (utf8_encode (padPlaintextJsonV1 t)) \<le> length (utf8_encode t) + 9 + 1023 \<and>
    parse_json (padPlaintextJsonV1 t) = Some (JObj (ms @ [(js ''pad'', JStr (replicate (pad_zeros t) 48))]))"
proof (intro conjI)
  obtain u where u: "t = u @ [125]" "text_ok u" using object_text_ok [OF assms(1,4)] by blast
  show len: "length (utf8_encode (padPlaintextJsonV1 t)) = fscpPlaintextBucketBytes (length (utf8_encode t))"
    unfolding u(1) by (rule padded_length [OF u(2)])
  show "(if length (utf8_encode t) + 9 \<le> 4096 then 256 else 1024) dvd length (utf8_encode (padPlaintextJsonV1 t))"
    unfolding len by (simp add: fscpPlaintextBucketBytes_def PAD_FIELD_OVERHEAD_BYTES_def Let_def)
  show "length (utf8_encode (padPlaintextJsonV1 t)) \<le> length (utf8_encode t) + 9 + 1023"
    unfolding len using bucket_bounds [of "length (utf8_encode t)"] by linarith
  show "parse_json (padPlaintextJsonV1 t) = Some (JObj (ms @ [(js ''pad'', JStr (replicate (pad_zeros t) 48))]))"
    by (rule parse_stringify_ok [OF _ pad_is_member [OF assms(4,2)]])
      (use assms(1,3) in \<open>auto simp: is_js_string_def list_all_iff\<close>)
qed

theorem padding_hides_length_witness:
  "let t = js ''{\"a\":true}''
   in length (utf8_encode (padPlaintextJsonV1 t)) = fscpPlaintextBucketBytes (length (utf8_encode t)) \<and>
    (if length (utf8_encode t) + 9 \<le> 4096 then 256 else 1024) dvd length (utf8_encode (padPlaintextJsonV1 t)) \<and>
    length (utf8_encode (padPlaintextJsonV1 t)) \<le> length (utf8_encode t) + 9 + 1023 \<and>
    parse_json (padPlaintextJsonV1 t) =
      Some (JObj ([(js ''a'', JBool True)] @ [(js ''pad'', JStr (replicate (pad_zeros t) 48))]))"
  unfolding Let_def
  by (rule padding_hides_length [of "[(js ''a'', JBool True)]"])
    (simp_all add: is_js_string_def member_text_def quote_def esc_unit_def short_escape_def high_surrogate_def low_surrogate_def)

section \<open>Reading what was written\<close>

fun block_ok :: "message_block \<Rightarrow> bool" where
  "block_ok (TextBlock t) = is_js_string t"
| "block_ok (VoiceBlock a d w c e) =
     (is_js_string a \<and> is_number d \<and> json_ok d \<and> list_all (\<lambda>x. is_number x \<and> json_ok x) w \<and> is_js_string c \<and>
      is_js_string (bk_key e) \<and> is_js_string (bk_nonce e))"
| "block_ok (ImageBlock a c e) =
     (is_js_string a \<and> is_js_string c \<and> is_js_string (bk_key e) \<and> is_js_string (bk_nonce e))"
| "block_ok (VideoBlock a c d w h e) =
     (is_js_string a \<and> is_js_string c \<and> list_all (\<lambda>x. is_number x \<and> json_ok x) [d, w, h] \<and>
      is_js_string (bk_key e) \<and> is_js_string (bk_nonce e))"
| "block_ok (UnknownBlock k) = is_js_string k"

text \<open>What arrives: a placeholder for a block of an unknown kind, when it is forwarded, loses the kind it stood for.\<close>

fun received_block :: "message_block \<Rightarrow> message_block" where
  "received_block (UnknownBlock k) = UnknownBlock (js ''unknown'')"
| "received_block b = b"

definition received :: "message_plaintext \<Rightarrow> message_plaintext" where
  "received p = p\<lparr>mp_blocks := map received_block (mp_blocks p)\<rparr>"

definition plaintext_ok :: "message_plaintext \<Rightarrow> bool" where
  "plaintext_ok p \<longleftrightarrow>
     list_all block_ok (mp_blocks p) \<and> is_js_string (mp_createdAt p) \<and>
     (case mp_reply p of None \<Rightarrow> True
      | Some r \<Rightarrow> is_js_string (rp_message r) \<and> is_js_string (rp_author r) \<and> is_js_string (rp_preview r))"

lemma read_block_key_json: "map_of b (js ''encryption'') = Some (block_key_json e) \<Longrightarrow> read_block_key b = Some e"
  by (simp add: read_block_key_def block_key_json_def str_member_def)

lemmas read_defs = read_text_block_def read_voice_def read_image_def read_video_def read_unknown_def str_member_def
  num_member_def num_or_0_def read_waveform_def

lemma normalize_block_json: "block_ok b \<Longrightarrow> normalize_block (block_json b) = Some (received_block b)"
proof (cases b)
  case (VoiceBlock a d w c e)
  assume "block_ok b"
  then have "filter is_number w = w" "is_number d" using VoiceBlock by (auto simp: list_all_iff)
  then show ?thesis using VoiceBlock by (simp add: normalize_block_def read_defs read_block_key_json)
qed (simp_all add: normalize_block_def read_defs read_block_key_json read_block_key_def [of "[]"])

lemma forwarded_placeholder: "normalize_block (block_json (UnknownBlock k)) = Some (UnknownBlock (js ''unknown''))"
  by (simp add: normalize_block_def read_defs read_block_key_def)

lemma normalize_blocks_json: "list_all block_ok bs \<Longrightarrow> List.map_filter normalize_block (map block_json bs) = map received_block bs"
  by (induction bs) (simp_all add: List.map_filter_def normalize_block_json)

text \<open>Members the reader does not know are ignored.\<close>

definition foreign_members :: "json_record \<Rightarrow> bool" where
  "foreign_members ms \<longleftrightarrow>
     list_all (\<lambda>m. fst m \<notin> {js ''type'', js ''body'', js ''version'', js ''blocks'', js ''clientCreatedAt'', js ''replyTo''}) ms"

lemma foreign_map_of:
  "foreign_members ms \<Longrightarrow> k \<in> {js ''type'', js ''body'', js ''version'', js ''blocks'', js ''clientCreatedAt'', js ''replyTo''} \<Longrightarrow>
   map_of ms k = None"
  unfolding foreign_members_def list_all_iff map_of_eq_None_iff by blast

lemma map_of_members:
  assumes "foreign_members ms"
  shows "map_of (plaintext_members p @ ms) (js ''type'') = Some (JStr (js ''blocks''))"
    "map_of (plaintext_members p @ ms) (js ''blocks'') = Some (JArr (map block_json (mp_blocks p)))"
    "map_of (plaintext_members p @ ms) (js ''clientCreatedAt'') = Some (JStr (mp_createdAt p))"
    "map_of (plaintext_members p @ ms) (js ''replyTo'') = map_option reply_json (mp_reply p)"
proof -
  have "map_of ms (js ''replyTo'') = None" by (rule foreign_map_of [OF assms]) simp
  then show "map_of (plaintext_members p @ ms) (js ''replyTo'') = map_option reply_json (mp_reply p)"
    by (simp add: plaintext_members_def split: option.split)
qed (simp_all add: plaintext_members_def)

lemma normalize_plaintext:
  assumes "plaintext_ok p" "foreign_members ms"
  shows "normalizeFscpMessagePlaintext now (JObj (plaintext_members p @ ms)) = Some (received p)"
proof -
  have "normalizeReplyRef (map_option reply_json (mp_reply p)) = mp_reply p"
    by (cases "mp_reply p") (simp_all add: normalizeReplyRef_def reply_json_def str_member_def)
  moreover have "List.map_filter normalize_block (map block_json (mp_blocks p)) = map received_block (mp_blocks p)"
    using assms(1) by (intro normalize_blocks_json) (simp add: plaintext_ok_def)
  ultimately show ?thesis
    unfolding normalizeFscpMessagePlaintext_def str_member_def as_record.simps Option.bind.bind_lunit Let_def
      map_of_members [OF assms(2)]
    by (simp add: received_def)
qed

lemma block_json_ok: "block_ok b \<Longrightarrow> json_ok (block_json b)"
  by (cases b) (auto simp: block_key_json_def is_js_string_def list_all_iff)

lemma plaintext_members_ok: "plaintext_ok p \<Longrightarrow> json_ok (JObj (plaintext_members p))"
  by (auto simp: plaintext_members_def plaintext_ok_def reply_json_def list_all_iff block_json_ok isSafeInteger_def
      max_safe_int_def is_js_string_def [of "_ # _"] is_js_string_def [of "[]"] split: option.splits)

end
