(* ===== verification/Fscp_Canonical.thy ===== *)
theory Fscp_Canonical
  imports Json_Text
begin

text \<open>
  The canonical JSON that envelopes are signed over (\<open>products/FSCP/ts/src/canonicalJson.ts\<close>): the members of
  an object in the order of their keys by code units, no white space. It is the JSON text of the value with
  sorted members, so \<open>JSON.parse\<close> reads it back, and a signature over it covers the value.
\<close>

section \<open>Values\<close>

fun insert_member :: "js_string \<times> 'v \<Rightarrow> (js_string \<times> 'v) list \<Rightarrow> (js_string \<times> 'v) list" where
  "insert_member p [] = [p]"
| "insert_member p (q # qs) = (if js_less (fst q) (fst p) then q # insert_member p qs else p # q # qs)"

text \<open>\<open>Object.keys(o).sort(compareCodeUnits)\<close> with the values of the keys.\<close>

fun sort_members :: "(js_string \<times> 'v) list \<Rightarrow> (js_string \<times> 'v) list" where
  "sort_members [] = []"
| "sort_members (p # ps) = insert_member p (sort_members ps)"

text \<open>
  \<open>None\<close> stands for a value whose text the model does not know: the digits of a fraction.
\<close>

fun canonicalJson :: "json \<Rightarrow> js_string option"
  and canonical_items :: "json list \<Rightarrow> js_string list option"
  and canonical_members :: "(js_string \<times> json) list \<Rightarrow> (js_string \<times> js_string) list option"
where
  "canonicalJson JNull = Some (js ''null'')"
| "canonicalJson (JBool b) = Some (if b then js ''true'' else js ''false'')"
| "canonicalJson (JInt n) = Some (int_text n)"
| "canonicalJson JFrac = None"
| "canonicalJson (JStr s) = Some (quote s)"
| "canonicalJson (JArr xs) = map_option (\<lambda>ts. 91 # join_with [44] ts @ [93]) (canonical_items xs)"
| "canonicalJson (JObj ms) =
     map_option (\<lambda>ps. 123 # join_with [44] (map member_text (sort_members ps)) @ [125]) (canonical_members ms)"
| "canonical_items [] = Some []"
| "canonical_items (x # xs) =
     (case canonicalJson x of None \<Rightarrow> None
      | Some t \<Rightarrow> map_option (\<lambda>ts. t # ts) (canonical_items xs))"
| "canonical_members [] = Some []"
| "canonical_members ((k, v) # ms) =
     (case canonicalJson v of None \<Rightarrow> None
      | Some t \<Rightarrow> map_option (\<lambda>ps. (k, t) # ps) (canonical_members ms))"

text \<open>A value with the members of every object in order.\<close>

fun norm_json :: "json \<Rightarrow> json" where
  "norm_json (JArr xs) = JArr (map norm_json xs)"
| "norm_json (JObj ms) = JObj (sort_members (map (\<lambda>(k, v). (k, norm_json v)) ms))"
| "norm_json v = v"

subsection \<open>Sorting\<close>

lemma insert_member_set [simp]: "set (insert_member p ps) = insert p (set ps)"
  by (induction ps) auto

lemma sort_members_set [simp]: "set (sort_members ps) = set ps"
  by (induction ps) auto

lemma insert_member_map: "insert_member (k, f v) (map (\<lambda>(k, v). (k, f v)) ms) = map (\<lambda>(k, v). (k, f v)) (insert_member (k, v) ms)"
  by (induction ms) auto

lemma sort_members_map: "sort_members (map (\<lambda>(k, v). (k, f v)) ms) = map (\<lambda>(k, v). (k, f v)) (sort_members ms)"
  by (induction ms) (auto simp: insert_member_map)

lemma canonical_members_insert:
  "canonicalJson v = Some t \<Longrightarrow> canonical_members ms = Some ps \<Longrightarrow>
   canonical_members (insert_member (k, v) ms) = Some (insert_member (k, t) ps)"
proof (induction ms arbitrary: ps)
  case (Cons m ms)
  obtain l w where m: "m = (l, w)" by fastforce
  with Cons.prems(2) obtain u qs where "canonicalJson w = Some u" "canonical_members ms = Some qs" "ps = (l, u) # qs"
    by (auto split: option.splits)
  with m Cons show ?case by simp
qed simp

lemma canonical_members_sort:
  "canonical_members ms = Some ps \<Longrightarrow> canonical_members (sort_members ms) = Some (sort_members ps)"
proof (induction ms arbitrary: ps)
  case (Cons m ms)
  obtain k v where m: "m = (k, v)" by fastforce
  with Cons.prems obtain t qs where "canonicalJson v = Some t" "canonical_members ms = Some qs" "ps = (k, t) # qs"
    by (auto split: option.splits)
  with m Cons.IH show ?case by (simp add: canonical_members_insert)
qed simp

subsection \<open>The text determines the value\<close>

lemma canonical_items_stringify:
  "(\<And>x. x \<in> set xs \<Longrightarrow> canonicalJson x = stringify (norm_json x)) \<Longrightarrow>
   canonical_items xs = stringify_items (map norm_json xs)"
  by (induction xs) (auto split: option.split)

lemma canonical_members_stringify:
  "(\<And>m. m \<in> set ms \<Longrightarrow> canonicalJson (snd m) = stringify (norm_json (snd m))) \<Longrightarrow>
   canonical_members ms = stringify_members (map (\<lambda>(k, v). (k, norm_json v)) ms)"
proof (induction ms)
  case (Cons m ms)
  obtain k v where m: "m = (k, v)" by fastforce
  with Cons.prems [of m] have "canonicalJson v = stringify (norm_json v)" by simp
  with Cons m show ?case by (simp split: option.split)
qed simp

lemma stringify_members_insert:
  "stringify_members (insert_member (k, v) ms) =
   (case stringify v of None \<Rightarrow> None | Some t \<Rightarrow> map_option (insert_member (k, t)) (stringify_members ms))"
proof (induction ms)
  case (Cons m ms)
  obtain l w where "m = (l, w)" by fastforce
  with Cons show ?case by (cases "stringify_members ms") (auto split: option.split)
qed (simp split: option.split)

lemma stringify_members_sort: "stringify_members (sort_members ms) = map_option sort_members (stringify_members ms)"
proof (induction ms)
  case (Cons m ms)
  obtain k v where "m = (k, v)" by fastforce
  with Cons show ?case by (auto simp: stringify_members_insert option.map_comp comp_def split: option.split)
qed simp

lemma canonical_is_stringify: "canonicalJson v = stringify (norm_json v)"
proof (induction v)
  case (JArr xs)
  then show ?case by (simp add: canonical_items_stringify)
next
  case (JObj ms)
  then have "canonical_members ms = stringify_members (map (\<lambda>(k, v). (k, norm_json v)) ms)"
    by (intro canonical_members_stringify) (metis snds.intros prod.collapse)
  then show ?case by (simp add: stringify_members_sort option.map_comp comp_def)
qed simp_all

lemma insert_member_distinct: "fst p \<notin> fst ` set ps \<Longrightarrow> distinct (map fst ps) \<Longrightarrow> distinct (map fst (insert_member p ps))"
  by (induction ps) auto

lemma sort_members_distinct: "distinct (map fst ms) \<Longrightarrow> distinct (map fst (sort_members ms))"
  by (induction ms) (auto simp: insert_member_distinct)

lemma norm_json_ok: "json_ok v \<Longrightarrow> json_ok (norm_json v)"
proof (induction v)
  case (JObj ms)
  have "distinct (map fst (map (\<lambda>(k, v). (k, norm_json v)) ms))"
    using JObj.prems by (simp add: case_prod_unfold comp_def)
  moreover have "json_ok (norm_json v)" if "(k, v) \<in> set ms" for k v
    using JObj.IH [OF that, of v] JObj.prems that by (auto simp: snds.simps)
  ultimately show ?case using JObj.prems by (auto simp: sort_members_distinct)
qed auto

text \<open>The receiver's \<open>JSON.parse\<close> reads the sorted value back.\<close>

lemma parse_canonical: "json_ok v \<Longrightarrow> canonicalJson v = Some t \<Longrightarrow> parse_json t = Some (norm_json v)"
  by (simp add: canonical_is_stringify norm_json_ok parse_stringify_ok)

text \<open>
  A signature over canonical JSON covers the value: two values with the same canonical text are
  equal up to the order of the members of their objects.
\<close>

theorem canonical_text_determines_value:
  assumes "json_ok v" "json_ok w" "canonicalJson v = Some t" "canonicalJson w = Some t"
  shows "norm_json v = norm_json w"
  using parse_canonical [OF assms(1,3)] parse_canonical [OF assms(2,4)] by simp

theorem canonical_text_determines_value_witness:
  "norm_json (JObj [([98], JInt 1), ([97], JBool True)]) = norm_json (JObj [([97], JBool True), ([98], JInt 1)])"
  by (rule canonical_text_determines_value
      [of _ _ "js ''{\"a\":true,\"b\":1}''"])
    (simp_all add: is_js_string_def isSafeInteger_def max_safe_int_def member_text_def quote_def esc_unit_def short_escape_def
      high_surrogate_def low_surrogate_def int_text_def dec_digits.simps)

end
