(* ===== verification/Fscp_Envelope.thy ===== *)
theory Fscp_Envelope
  imports Fscp_Frames Fscp_Plaintext Fscp_Canonical Fscp_Session
begin

text \<open>
  Message envelopes (\<open>products/FSCP/ts/src/envelope.ts\<close>, \<open>rke.ts\<close> and the key agreement of \<open>sodium.ts\<close>): what a
  sender builds, signs and sends, and how a receiver takes it apart and names what failed. The cryptographic
  functions of the injected library are fields of a record.
\<close>

section \<open>Primitives\<close>

text \<open>
  \<open>None\<close> as a result stands for an exception. The three functions of the library that a platform may lack are
  optional. \<open>sd_pk\<close> is the public half of \<open>crypto_sign_seed_keypair\<close>.
\<close>

record sodium =
  sd_mult :: "(bytes \<Rightarrow> bytes \<Rightarrow> bytes option) option"
  sd_base :: "(bytes \<Rightarrow> bytes option) option"
  sd_pk :: "(bytes \<Rightarrow> bytes option) option"
  sd_sign :: "bytes \<Rightarrow> bytes \<Rightarrow> bytes option"
  sd_verify :: "bytes \<Rightarrow> bytes \<Rightarrow> bytes \<Rightarrow> bool option"
  sd_seal :: "bytes \<Rightarrow> js_string \<Rightarrow> bytes \<Rightarrow> bytes \<Rightarrow> bytes option"
  sd_open :: "bytes \<Rightarrow> js_string \<Rightarrow> bytes \<Rightarrow> bytes \<Rightarrow> bytes option"
  sd_base64 :: "bytes \<Rightarrow> js_string"
  nobleScalarmult :: "bytes \<Rightarrow> bytes \<Rightarrow> bytes option"
  nobleScalarmultBase :: "bytes \<Rightarrow> bytes option"
  hkdf_extract :: "bytes \<Rightarrow> bytes \<Rightarrow> bytes"
  hkdf_expand :: "bytes \<Rightarrow> bytes \<Rightarrow> nat \<Rightarrow> bytes"
  sha_256 :: "bytes \<Rightarrow> bytes"
  hmac_256 :: "bytes \<Rightarrow> bytes \<Rightarrow> bytes"
  uuid_v5 :: "js_string \<Rightarrow> js_string"

definition X25519_BASEPOINT :: bytes where
  "X25519_BASEPOINT = 9 # replicate 31 0"

definition scalarmultBase :: "sodium \<Rightarrow> bytes \<Rightarrow> bytes option" where
  "scalarmultBase so scalar =
     (let n = take 32 scalar
      in case sd_base so of
           Some f \<Rightarrow> f n
         | None \<Rightarrow> (case sd_mult so of Some f \<Rightarrow> f n X25519_BASEPOINT | None \<Rightarrow> nobleScalarmultBase so n))"

definition scalarmult :: "sodium \<Rightarrow> bytes \<Rightarrow> bytes \<Rightarrow> bytes option" where
  "scalarmult so scalar point =
     (let n = take 32 scalar; p = take 32 point
      in case sd_mult so of Some f \<Rightarrow> f n p | None \<Rightarrow> nobleScalarmult so n p)"

section \<open>Wrapping the message key\<close>

record wrapped_key =
  wk_ephemeral :: bytes
  wk_nonce :: bytes
  wk_cipher :: bytes

text \<open>The nonce that the code draws is an argument.\<close>

definition rkeWrapMessageKey ::
  "sodium \<Rightarrow> bytes \<Rightarrow> bytes \<Rightarrow> bytes \<Rightarrow> js_string \<Rightarrow> bytes \<Rightarrow> bytes \<Rightarrow> wrapped_key option"
where
  "rkeWrapMessageKey so ephemeralSecret recipientKey salt line messageKey nonce =
     Option.bind (scalarmultBase so ephemeralSecret) (\<lambda>ephemeral.
     Option.bind (scalarmult so ephemeralSecret recipientKey) (\<lambda>ss.
     let wrapKey = hkdf_expand so (hkdf_extract so ss salt) (utf8_encode line) 32
     in map_option (\<lambda>c. \<lparr>wk_ephemeral = ephemeral, wk_nonce = nonce, wk_cipher = c\<rparr>)
          (sd_seal so messageKey line nonce wrapKey)))"

definition rkeUnwrapMessageKey :: "sodium \<Rightarrow> bytes \<Rightarrow> bytes \<Rightarrow> bytes \<Rightarrow> js_string \<Rightarrow> bytes \<Rightarrow> bytes \<Rightarrow> bytes option" where
  "rkeUnwrapMessageKey so privateKey ephemeral salt line nonce cipher =
     Option.bind (scalarmult so privateKey ephemeral) (\<lambda>ss.
       sd_open so cipher line nonce (hkdf_expand so (hkdf_extract so ss salt) (utf8_encode line) 32))"

section \<open>The envelope on the wire\<close>

record rke_wire =
  rk_ephemeral :: js_string
  rk_keyId :: js_string
  rk_salt :: js_string
  rk_nonce :: js_string
  rk_cipher :: js_string

record recipient_wire =
  rw_user :: js_string
  rw_device :: js_string
  rw_key :: rke_wire

definition FSCP_BOOTSTRAP_KEY_EPOCH_ID :: js_string where
  "FSCP_BOOTSTRAP_KEY_EPOCH_ID = js ''00000000-0000-4000-8000-000000000001''"

definition FSCP_BOOTSTRAP_DEVICE_UUID :: js_string where
  "FSCP_BOOTSTRAP_DEVICE_UUID = js ''00000000-0000-4000-8000-000000000002''"

definition FSCP_WIRE_PREFIX :: js_string where
  "FSCP_WIRE_PREFIX = js ''fscp1:''"

definition aead_json :: "js_string \<Rightarrow> json" where
  "aead_json nonce = JObj [(js ''name'', JStr (js ''xchacha20-poly1305'')), (js ''nonceBase64Url'', JStr nonce)]"

definition rke_members :: "rke_wire \<Rightarrow> json_record" where
  "rke_members k =
     [(js ''version'', JInt 1), (js ''algorithm'', JStr (js ''x25519-hkdf-xchacha20poly1305'')),
      (js ''ephemeralPublicKeyBase64Url'', JStr (rk_ephemeral k)),
      (js ''recipientAgreementPublicKeyId'', JStr (rk_keyId k)), (js ''preKeyId'', JNull),
      (js ''saltBase64Url'', JStr (rk_salt k)), (js ''aead'', aead_json (rk_nonce k)),
      (js ''ciphertextBase64Url'', JStr (rk_cipher k))]"

definition recipient_members :: "recipient_wire \<Rightarrow> json_record" where
  "recipient_members r =
     [(js ''userUuid'', JStr (rw_user r)), (js ''deviceUuid'', JStr (rw_device r)),
      (js ''recipientKeyEnvelope'', JObj (rke_members (rw_key r)))]"

definition recipient_less :: "recipient_wire \<Rightarrow> recipient_wire \<Rightarrow> bool" where
  "recipient_less a b \<longleftrightarrow>
     js_less (toLowerCase (rw_user a)) (toLowerCase (rw_user b)) \<or>
     toLowerCase (rw_user a) = toLowerCase (rw_user b) \<and> js_less (toLowerCase (rw_device a)) (toLowerCase (rw_device b))"

fun insert_recipient :: "recipient_wire \<Rightarrow> recipient_wire list \<Rightarrow> recipient_wire list" where
  "insert_recipient r [] = [r]"
| "insert_recipient r (q # qs) = (if recipient_less q r then q # insert_recipient r qs else r # q # qs)"

definition sortRecipients :: "recipient_wire list \<Rightarrow> recipient_wire list" where
  "sortRecipients rs = foldr insert_recipient rs []"

definition envelopeWireForSigning :: "json_record \<Rightarrow> json_record" where
  "envelopeWireForSigning env = filter (\<lambda>m. fst m \<noteq> js ''senderSignatureBase64Url'') env"

definition sign_payload :: "js_string \<Rightarrow> bytes" where
  "sign_payload canonical = utf8_encode (js ''flora.messaging.envelope-signature.v1 | '' @ canonical)"

definition computeFrankTagV1 :: "sodium \<Rightarrow> bytes \<Rightarrow> js_string \<Rightarrow> bytes option" where
  "computeFrankTagV1 so frankingKey commitInput =
     (if length frankingKey \<noteq> 32 then None else Some (hmac_256 so frankingKey (utf8_encode commitInput)))"

section \<open>Building\<close>

text \<open>
  What the code draws or reads from the clock for one message; the numbers 1 and 2 are the receiver's and the
  sender's own copy of the key. \<open>dr_frankingKey\<close> is there when the caller asks for a franking tag.
\<close>

record rke_draw =
  rd_secret :: bytes
  rd_salt :: bytes
  rd_nonce :: bytes

record draws =
  dr_messageUuid :: js_string
  dr_messageKeyId :: js_string
  dr_createdAt :: js_string
  dr_messageKey :: bytes
  dr_frankingKey :: "bytes option"
  dr_bodyNonce :: bytes
  dr_rke1 :: rke_draw
  dr_rke2 :: rke_draw

record build_params =
  bp_sender :: js_string
  bp_receiver :: js_string
  bp_agreementKey :: bytes
  bp_signingKey :: bytes
  bp_receiverKey :: bytes
  bp_body :: "js_string option"
  bp_payload :: "message_plaintext option"

datatype build_error = Sodium_failed | No_signing_key | Number_text_unknown

definition build_ids :: "sodium \<Rightarrow> draws \<Rightarrow> build_params \<Rightarrow> message_ids" where
  "build_ids so d p =
     \<lparr>mi_conversation = dmConversationUuid (uuid_v5 so) (bp_sender p) (bp_receiver p),
      mi_epoch = FSCP_BOOTSTRAP_KEY_EPOCH_ID, mi_message = dr_messageUuid d, mi_key = dr_messageKeyId d,
      mi_sender = bp_sender p, mi_device = FSCP_BOOTSTRAP_DEVICE_UUID\<rparr>"

definition payload_of :: "draws \<Rightarrow> build_params \<Rightarrow> message_plaintext" where
  "payload_of d p =
     (case bp_payload p of
        Some m \<Rightarrow> m
      | None \<Rightarrow> messagePlaintextFromBlocks [TextBlock (case bp_body p of Some b \<Rightarrow> b | None \<Rightarrow> [])] (dr_createdAt d))"

definition plaintext_record :: "sodium \<Rightarrow> draws \<Rightarrow> build_params \<Rightarrow> json_record" where
  "plaintext_record so d p =
     plaintext_members (payload_of d p) @
     (case dr_frankingKey d of None \<Rightarrow> [] | Some k \<Rightarrow> [(js ''frankingKeyBase64Url'', JStr (sd_base64 so k))])"

definition frank_tag :: "sodium \<Rightarrow> draws \<Rightarrow> build_params \<Rightarrow> bytes \<Rightarrow> build_error + js_string option" where
  "frank_tag so d p plaintext =
     (case dr_frankingKey d of
        None \<Rightarrow> Inr None
      | Some k \<Rightarrow>
          map_sum id (\<lambda>t. Some (sd_base64 so t)) (optE Sodium_failed (computeFrankTagV1 so k
            (frankCommitInputV1 (sha_256 so)
              \<lparr>fc_conversation = mi_conversation (build_ids so d p), fc_message = dr_messageUuid d,
               fc_sender = bp_sender p, fc_device = FSCP_BOOTSTRAP_DEVICE_UUID, fc_receiver = bp_receiver p,
               fc_createdAt = dr_createdAt d\<rparr> plaintext))))"

definition oneRke ::
  "sodium \<Rightarrow> message_ids \<Rightarrow> bytes \<Rightarrow> rke_draw \<Rightarrow> js_string \<Rightarrow> js_string \<Rightarrow> bytes \<Rightarrow> js_string \<Rightarrow> recipient_wire option"
where
  "oneRke so ids messageKey d user device agreementKey keyId =
     map_option (\<lambda>w.
         \<lparr>rw_user = user, rw_device = device, rw_key =
           \<lparr>rk_ephemeral = sd_base64 so (wk_ephemeral w), rk_keyId = keyId, rk_salt = sd_base64 so (rd_salt d),
            rk_nonce = sd_base64 so (wk_nonce w), rk_cipher = sd_base64 so (wk_cipher w)\<rparr>\<rparr>)
       (rkeWrapMessageKey so (rd_secret d) agreementKey (rd_salt d)
         (recipientKeyEnvelopeAadLine ids user device keyId) messageKey (rd_nonce d))"

definition signing_public_key :: "sodium \<Rightarrow> bytes \<Rightarrow> build_error + bytes" where
  "signing_public_key so sk =
     (case sd_pk so of
        Some f \<Rightarrow> optE Sodium_failed (f (take 32 sk))
      | None \<Rightarrow> if 64 \<le> length sk then Inr (take 32 (drop 32 sk)) else Inl No_signing_key)"

definition envelope_members ::
  "sodium \<Rightarrow> draws \<Rightarrow> message_ids \<Rightarrow> bytes \<Rightarrow> recipient_wire list \<Rightarrow> bytes \<Rightarrow> js_string option \<Rightarrow> json_record"
where
  "envelope_members so d ids cipher recipients pk tag =
     [(js ''version'', JInt 1), (js ''messageUuid'', JStr (mi_message ids)),
      (js ''conversationUuid'', JStr (mi_conversation ids)), (js ''keyEpochId'', JStr (mi_epoch ids)),
      (js ''senderUserUuid'', JStr (mi_sender ids)), (js ''senderDeviceUuid'', JStr (mi_device ids)),
      (js ''messageKeyId'', JStr (mi_key ids)), (js ''createdAt'', JStr (dr_createdAt d)),
      (js ''ciphertextBase64Url'', JStr (sd_base64 so cipher)), (js ''aead'', aead_json (sd_base64 so (dr_bodyNonce d))),
      (js ''recipients'', JArr (map (\<lambda>r. JObj (recipient_members r)) recipients)),
      (js ''senderSigningPublicKeyBase64Url'', JStr (sd_base64 so pk))] @
     (case tag of None \<Rightarrow> [] | Some t \<Rightarrow> if t = [] then [] else [(js ''frankTagBase64Url'', JStr t)])"

definition sign_envelope :: "sodium \<Rightarrow> bytes \<Rightarrow> json_record \<Rightarrow> build_error + json_record" where
  "sign_envelope so sk ms =
     bindE (optE Number_text_unknown (canonicalJson (JObj ms))) (\<lambda>t.
     bindE (optE Sodium_failed (sd_sign so (sign_payload t) sk)) (\<lambda>sig.
     Inr (ms @ [(js ''senderSignatureBase64Url'', JStr (sd_base64 so sig))])))"

definition buildFscpWireEnvelope :: "sodium \<Rightarrow> draws \<Rightarrow> build_params \<Rightarrow> build_error + js_string" where
  "buildFscpWireEnvelope so d p =
     (let ids = build_ids so d p; epoch = FSCP_BOOTSTRAP_KEY_EPOCH_ID; device = FSCP_BOOTSTRAP_DEVICE_UUID in
     bindE (optE Sodium_failed (scalarmultBase so (bp_agreementKey p))) (\<lambda>senderPublic.
     bindE (optE Number_text_unknown (stringify (JObj (plaintext_record so d p)))) (\<lambda>compact.
     let plain = utf8_encode (padPlaintextJsonV1 compact) in
     bindE (frank_tag so d p plain) (\<lambda>tag.
     bindE (optE Sodium_failed
       (sd_seal so plain (messageBodyAadLine ids (dr_createdAt d) tag) (dr_bodyNonce d) (dr_messageKey d))) (\<lambda>cipher.
     bindE (optE Sodium_failed (oneRke so ids (dr_messageKey d) (dr_rke1 d) (bp_receiver p) device (bp_receiverKey p)
       (agreementPublicKeyId (uuid_v5 so) (bp_receiver p) epoch))) (\<lambda>recA.
     bindE (optE Sodium_failed (oneRke so ids (dr_messageKey d) (dr_rke2 d) (bp_sender p) device senderPublic
       (agreementPublicKeyId (uuid_v5 so) (bp_sender p) epoch))) (\<lambda>recB.
     bindE (signing_public_key so (bp_signingKey p)) (\<lambda>pk.
     bindE (sign_envelope so (bp_signingKey p) (envelope_members so d ids cipher (sortRecipients [recA, recB]) pk tag)) (\<lambda>full.
     bindE (optE Number_text_unknown (stringify (JObj full))) (\<lambda>text.
     Inr (FSCP_WIRE_PREFIX @ sd_base64 so (utf8_encode text))))))))))))"

section \<open>Taking apart\<close>

text \<open>
  \<open>Uncaught\<close> is a \<open>TypeError\<close> on a member of the wrong type; \<open>Number_unknown\<close> is the model's answer where the code
  goes on with a text the model does not know: that of a number with a fraction, or of a list, in the envelope.
\<close>

datatype open_error = Decrypt_error decrypt_failure | Uncaught | Number_unknown

definition fscpDecryptFailureCategory :: "open_error \<Rightarrow> decrypt_failure" where
  "fscpDecryptFailureCategory e = (case e of Decrypt_error c \<Rightarrow> c | _ \<Rightarrow> Malformed_envelope)"

fun js_falsy :: "json \<Rightarrow> bool" where
  "js_falsy JNull = True"
| "js_falsy (JBool b) = (\<not> b)"
| "js_falsy (JInt n) = (n = 0)"
| "js_falsy (JStr s) = (s = [])"
| "js_falsy _ = False"

definition trimmed_member :: "json_record \<Rightarrow> js_string \<Rightarrow> js_string option" where
  "trimmed_member o' k =
     (case str_member o' k of None \<Rightarrow> None | Some s \<Rightarrow> if trim s = [] then None else Some (trim s))"

definition readOptionalFrankTagBase64Url :: "json_record \<Rightarrow> js_string option" where
  "readOptionalFrankTagBase64Url o' = trimmed_member o' (js ''frankTagBase64Url'')"

definition readOptionalFrankingKeyBase64Url :: "json_record \<Rightarrow> js_string option" where
  "readOptionalFrankingKeyBase64Url o' = trimmed_member o' (js ''frankingKeyBase64Url'')"

definition signature_ok :: "sodium \<Rightarrow> json_record \<Rightarrow> js_string \<Rightarrow> js_string \<Rightarrow> bool" where
  "signature_ok so env canonical pk =
     (case (Option.bind (str_member env (js ''senderSignatureBase64Url'')) fromBase64Url, fromBase64Url pk) of
        (Some s, Some k) \<Rightarrow> sd_verify so s (sign_payload canonical) k = Some True
      | _ \<Rightarrow> False)"

definition check_signature :: "sodium \<Rightarrow> json_record \<Rightarrow> js_string \<Rightarrow> open_error + unit" where
  "check_signature so env pk =
     bindE (optE Number_unknown (canonicalJson (JObj (envelopeWireForSigning env)))) (\<lambda>t.
       guardE (signature_ok so env t pk) (Decrypt_error Signature_invalid))"

definition verifyDetachedEnvelopeSignature :: "sodium \<Rightarrow> json_record \<Rightarrow> bool \<Rightarrow> open_error + unit" where
  "verifyDetachedEnvelopeSignature so env allowUnsignedLegacy =
     (let missing = guardE allowUnsignedLegacy (Decrypt_error Signature_missing)
      in case map_of env (js ''senderSigningPublicKeyBase64Url'') of
           None \<Rightarrow> missing
         | Some v \<Rightarrow>
             if js_falsy v then missing
             else (case v of
                     JStr pk \<Rightarrow> if trim pk = [] then missing else check_signature so env pk
                   | _ \<Rightarrow> Inl Uncaught))"

definition parse_envelope :: "js_string \<Rightarrow> json_record option" where
  "parse_envelope body =
     Option.bind (fromBase64Url body) (\<lambda>raw.
     Option.bind (parse_json (text_decode raw)) (\<lambda>v.
     Option.bind (as_record v) (\<lambda>env.
       case map_of env (js ''recipients'') of Some (JArr rows) \<Rightarrow> Some env | _ \<Rightarrow> None)))"

definition envelope_rows :: "json_record \<Rightarrow> json list" where
  "envelope_rows env = (case map_of env (js ''recipients'') of Some (JArr rows) \<Rightarrow> rows | _ \<Rightarrow> [])"

fun find_row :: "js_string \<Rightarrow> json list \<Rightarrow> open_error + json_record" where
  "find_row me [] = Inl (Decrypt_error No_recipient_entry)"
| "find_row me (r # rs) =
     (case Option.bind (as_record r) (\<lambda>o'. map_option (Pair o') (str_member o' (js ''userUuid''))) of
        None \<Rightarrow> Inl Uncaught
      | Some (o', u) \<Rightarrow> if toLowerCase (trim u) = me then Inr o' else find_row me rs)"

definition envelope_ids :: "json_record \<Rightarrow> message_ids option" where
  "envelope_ids env =
     (case (str_member env (js ''conversationUuid''), str_member env (js ''keyEpochId''), str_member env (js ''messageUuid''),
            str_member env (js ''messageKeyId''), str_member env (js ''senderUserUuid''),
            str_member env (js ''senderDeviceUuid'')) of
        (Some c, Some e, Some m, Some k, Some s, Some d) \<Rightarrow>
          Some \<lparr>mi_conversation = c, mi_epoch = e, mi_message = m, mi_key = k, mi_sender = s, mi_device = d\<rparr>
      | _ \<Rightarrow> None)"

text \<open>The member \<open>recipientKeyEnvelope\<close> of a row and the line its key is bound to.\<close>

definition row_line :: "message_ids \<Rightarrow> json_record \<Rightarrow> (json_record \<times> js_string) option" where
  "row_line ids row =
     Option.bind (Option.bind (map_of row (js ''recipientKeyEnvelope'')) as_record) (\<lambda>rke.
     case (str_member row (js ''userUuid''), str_member row (js ''deviceUuid''),
           str_member rke (js ''recipientAgreementPublicKeyId'')) of
       (Some u, Some d, Some i) \<Rightarrow> Some (rke, recipientKeyEnvelopeAadLine ids u d i)
     | _ \<Rightarrow> None)"

definition bytes_member :: "json_record \<Rightarrow> js_string \<Rightarrow> bytes option" where
  "bytes_member o' k = Option.bind (str_member o' k) fromBase64Url"

definition aead_nonce :: "json_record \<Rightarrow> bytes option" where
  "aead_nonce o' =
     Option.bind (Option.bind (map_of o' (js ''aead'')) as_record) (\<lambda>a. bytes_member a (js ''nonceBase64Url''))"

definition unwrap_row :: "sodium \<Rightarrow> bytes \<Rightarrow> json_record \<Rightarrow> js_string \<Rightarrow> bytes option" where
  "unwrap_row so privateKey rke line =
     (case (bytes_member rke (js ''ephemeralPublicKeyBase64Url''), bytes_member rke (js ''saltBase64Url''),
            aead_nonce rke, bytes_member rke (js ''ciphertextBase64Url'')) of
        (Some e, Some s, Some n, Some c) \<Rightarrow> rkeUnwrapMessageKey so privateKey e s line n c
      | _ \<Rightarrow> None)"

text \<open>How \<open>Array.join\<close> writes an element; \<open>None\<close> where the model does not know the text.\<close>

fun joined_text :: "json option \<Rightarrow> js_string option" where
  "joined_text (Some (JStr s)) = Some s"
| "joined_text (Some (JInt n)) = Some (int_text n)"
| "joined_text (Some (JBool b)) = Some (if b then js ''true'' else js ''false'')"
| "joined_text (Some JNull) = Some []"
| "joined_text None = Some []"
| "joined_text (Some (JObj _)) = Some (js ''[object Object]'')"
| "joined_text (Some JFrac) = None"
| "joined_text (Some (JArr _)) = None"

definition open_body :: "sodium \<Rightarrow> json_record \<Rightarrow> js_string \<Rightarrow> bytes \<Rightarrow> bytes option" where
  "open_body so env line key =
     (case (bytes_member env (js ''ciphertextBase64Url''), aead_nonce env) of
        (Some c, Some n) \<Rightarrow> sd_open so c line n key
      | _ \<Rightarrow> None)"

record decrypted_wire =
  dw_plaintext :: message_plaintext
  dw_bytes :: bytes
  dw_envelope :: json_record
  dw_frankingKey :: "js_string option"

definition read_plain :: "js_string \<Rightarrow> json_record \<Rightarrow> bytes \<Rightarrow> decrypted_wire option" where
  "read_plain now env plain =
     Option.bind (parse_json (text_decode plain)) (\<lambda>v.
     map_option (\<lambda>m.
         \<lparr>dw_plaintext = m, dw_bytes = plain, dw_envelope = env,
          dw_frankingKey = Option.bind (as_record v) readOptionalFrankingKeyBase64Url\<rparr>)
       (normalizeFscpMessagePlaintext now v))"

definition decryptFscpWireEnvelopeDetailed ::
  "sodium \<Rightarrow> js_string \<Rightarrow> js_string \<Rightarrow> js_string \<Rightarrow> bytes \<Rightarrow> bool \<Rightarrow> open_error + decrypted_wire"
where
  "decryptFscpWireEnvelopeDetailed so now wire viewer privateKey allowUnsignedLegacy =
     bindE (guardE (starts_with FSCP_WIRE_PREFIX wire) (Decrypt_error Not_fscp_wire)) (\<lambda>_.
     bindE (optE (Decrypt_error Malformed_envelope) (parse_envelope (drop (length FSCP_WIRE_PREFIX) wire))) (\<lambda>env.
     bindE (verifyDetachedEnvelopeSignature so env allowUnsignedLegacy) (\<lambda>_.
     bindE (find_row (toLowerCase (trim viewer)) (envelope_rows env)) (\<lambda>row.
     bindE (optE Uncaught (envelope_ids env)) (\<lambda>ids.
     bindE (optE Uncaught (row_line ids row)) (\<lambda>(rke, line).
     bindE (optE (Decrypt_error Rke_unwrap_failed) (unwrap_row so privateKey rke line)) (\<lambda>key.
     bindE (optE Number_unknown (joined_text (map_of env (js ''createdAt'')))) (\<lambda>created.
     bindE (optE (Decrypt_error Body_decrypt_failed)
       (open_body so env (messageBodyAadLine ids created (readOptionalFrankTagBase64Url env)) key)) (\<lambda>plain.
     optE (Decrypt_error Malformed_plaintext) (read_plain now env plain))))))))))"

definition decryptFscpWireEnvelope ::
  "sodium \<Rightarrow> js_string \<Rightarrow> js_string \<Rightarrow> js_string \<Rightarrow> bytes \<Rightarrow> bool \<Rightarrow> open_error + message_plaintext"
where
  "decryptFscpWireEnvelope so now wire viewer privateKey allowUnsignedLegacy =
     map_sum id dw_plaintext (decryptFscpWireEnvelopeDetailed so now wire viewer privateKey allowUnsignedLegacy)"

definition isFscpWirePayload :: "js_string option \<Rightarrow> bool" where
  "isFscpWirePayload s = (case s of None \<Rightarrow> False | Some w \<Rightarrow> starts_with FSCP_WIRE_PREFIX w)"

definition peekFscpWireFrankTagBase64Url :: "js_string option \<Rightarrow> js_string option" where
  "peekFscpWireFrankTagBase64Url wire =
     (case wire of
        None \<Rightarrow> None
      | Some w \<Rightarrow>
          if \<not> starts_with FSCP_WIRE_PREFIX w then None
          else Option.bind (fromBase64Url (drop (length FSCP_WIRE_PREFIX) w)) (\<lambda>raw.
               Option.bind (parse_json (text_decode raw)) (\<lambda>v.
               Option.bind (as_record v) readOptionalFrankTagBase64Url)))"

section \<open>What is asked of the primitives\<close>

text \<open>
  Documented behaviour of the library: base64 of the URL alphabet without padding, the symmetry of the key
  agreement, the authenticated cipher opens what it sealed, HKDF gives the length it is asked for, identifiers
  are strings.
\<close>

definition crypto_laws :: "sodium \<Rightarrow> bool" where
  "crypto_laws so \<longleftrightarrow>
     sd_base64 so = toBase64Url \<and>
     (\<forall>a b. length a = 32 \<longrightarrow> length b = 32 \<longrightarrow>
       (\<exists>pa pb s. scalarmultBase so a = Some pa \<and> scalarmultBase so b = Some pb \<and>
         scalarmult so a pb = Some s \<and> scalarmult so b pa = Some s)) \<and>
     (\<forall>m l n k. length n = 24 \<longrightarrow> length k = 32 \<longrightarrow>
       (\<exists>c. sd_seal so m l n k = Some c \<and> sd_open so c l n k = Some m)) \<and>
     (\<forall>p i n. length (hkdf_expand so p i n) = n) \<and>
     (\<forall>s. is_js_string (uuid_v5 so s))"

text \<open>A signing key whose signatures its public half verifies.\<close>

definition signing_key_ok :: "sodium \<Rightarrow> bytes \<Rightarrow> bool" where
  "signing_key_ok so sk \<longleftrightarrow>
     (\<exists>pk. signing_public_key so sk = Inr pk \<and> pk \<noteq> [] \<and>
       (\<forall>m. \<exists>sig. sd_sign so m sk = Some sig \<and> sd_verify so sig m pk = Some True))"

definition rke_draw_ok :: "rke_draw \<Rightarrow> bool" where
  "rke_draw_ok r \<longleftrightarrow> length (rd_secret r) = 32 \<and> length (rd_nonce r) = 24"

definition draws_ok :: "draws \<Rightarrow> bool" where
  "draws_ok d \<longleftrightarrow>
     is_js_string (dr_messageUuid d) \<and> is_js_string (dr_messageKeyId d) \<and> is_js_string (dr_createdAt d) \<and>
     length (dr_messageKey d) = 32 \<and> length (dr_bodyNonce d) = 24 \<and>
     (case dr_frankingKey d of None \<Rightarrow> True | Some k \<Rightarrow> length k = 32) \<and> rke_draw_ok (dr_rke1 d) \<and> rke_draw_ok (dr_rke2 d)"

text \<open>
  A payload whose text the model knows: its strings consist of 16-bit units and its numbers are integers of at
  most 53 bits (the text of a number with a fraction is not modelled).
\<close>

definition params_ok :: "draws \<Rightarrow> build_params \<Rightarrow> bool" where
  "params_ok d p \<longleftrightarrow>
     is_js_string (bp_sender p) \<and> is_js_string (bp_receiver p) \<and> length (bp_agreementKey p) = 32 \<and>
     plaintext_ok (payload_of d p) \<and> stringify (JObj (plaintext_members (payload_of d p))) \<noteq> None"

section \<open>Texts\<close>

lemma toBase64Url_units: "c \<in> set (toBase64Url bs) \<Longrightarrow> c < 128 \<and> \<not> is_space_unit c"
proof -
  assume "c \<in> set (toBase64Url bs)"
  then obtain k where k: "k \<in> set (sextets (map unat bs))" "c = url_unit k" by (auto simp: toBase64Url_sextets)
  have "k < 64" by (rule sextets_bound [OF bytes_below_256 k(1)])
  then show ?thesis using k(2) by (auto simp: url_unit_def b64_unit_def is_space_unit_def)
qed

lemma toBase64Url_string [simp]: "is_js_string (toBase64Url bs)"
  using toBase64Url_units [of _ bs] by (fastforce simp: is_js_string_def list_all_iff)

lemma trim_toBase64Url [simp]: "trim (toBase64Url bs) = toBase64Url bs"
  using toBase64Url_units [of _ bs] by (intro trim_plain) blast

lemma toBase64Url_Nil_iff [simp]: "toBase64Url bs = [] \<longleftrightarrow> bs = []"
  using toBase64Url_inj [of bs "[]"] by (auto simp: toBase64Url_def btoa_def)

fun no_fraction :: "json \<Rightarrow> bool" where
  "no_fraction JFrac = False"
| "no_fraction (JArr xs) = (\<forall>x \<in> set xs. no_fraction x)"
| "no_fraction (JObj ms) = (\<forall>(k, v) \<in> set ms. no_fraction v)"
| "no_fraction _ = True"

lemma stringify_total: "no_fraction v \<Longrightarrow> \<exists>t. stringify v = Some t"
proof (induction v)
  case (JArr xs)
  have "\<exists>ts. stringify_items xs = Some ts"
    using JArr
  proof (induction xs)
    case (Cons x xs)
    then obtain t where "stringify x = Some t" by auto
    moreover obtain ts where "stringify_items xs = Some ts" using Cons by auto
    ultimately show ?case by simp
  qed simp
  then show ?case by auto
next
  case (JObj ms)
  have "\<exists>ps. stringify_members ms = Some ps"
    using JObj
  proof (induction ms)
    case (Cons m ms)
    obtain k v where m: "m = (k, v)" by fastforce
    obtain t where "stringify v = Some t" using Cons.prems(1) [of "(k, v)" v] Cons.prems(2) m by (auto simp: snds.simps)
    moreover have "\<exists>ps. stringify_members ms = Some ps" using Cons.prems by (intro Cons.IH) auto
    ultimately show ?case using m by auto
  qed simp
  then show ?case by auto
qed simp_all

lemma no_fraction_norm: "no_fraction v \<Longrightarrow> no_fraction (norm_json v)"
proof (induction v)
  case (JObj ms)
  have "no_fraction (norm_json v)" if "(k, v) \<in> set ms" for k v
    using JObj.IH [OF that, of v] JObj.prems that by (auto simp: snds.simps)
  then show ?case by auto
qed auto

lemma canonical_total: "no_fraction v \<Longrightarrow> \<exists>t. canonicalJson v = Some t"
  by (simp add: canonical_is_stringify stringify_total no_fraction_norm)

text \<open>The text of an object survives UTF-8 and \<open>JSON.parse\<close>.\<close>

lemma parse_object_bytes:
  assumes "json_ok (JObj ms)" "stringify (JObj ms) = Some t"
  shows "parse_json (text_decode (utf8_encode t)) = Some (JObj ms)"
proof -
  have "take 1 t = [123]" using assms(2) by auto
  then have "text_decode (utf8_encode t) = t" by (intro text_decode_stringify stringify_text [OF assms]) simp
  then show ?thesis by (simp add: parse_stringify_ok [OF assms])
qed

section \<open>The message key reaches the recipient\<close>

lemma rke_round_trip:
  assumes "crypto_laws so" "length e = 32" "length n = 24" "length sk = 32" "scalarmultBase so sk = Some pk"
  shows "\<exists>w. rkeWrapMessageKey so e pk salt line mk n = Some w \<and> wk_nonce w = n \<and>
    rkeUnwrapMessageKey so sk (wk_ephemeral w) salt line n (wk_cipher w) = Some mk"
proof -
  obtain pe pb s where s: "scalarmultBase so e = Some pe" "scalarmultBase so sk = Some pb"
      "scalarmult so e pb = Some s" "scalarmult so sk pe = Some s"
    using assms(1,2,4) unfolding crypto_laws_def by blast
  let ?k = "hkdf_expand so (hkdf_extract so s salt) (utf8_encode line) 32"
  obtain c where "sd_seal so mk line n ?k = Some c" "sd_open so c line n ?k = Some mk"
    using assms(1,3) unfolding crypto_laws_def by blast
  with s assms(5) show ?thesis by (simp add: rkeWrapMessageKey_def rkeUnwrapMessageKey_def Let_def)
qed

lemma one_rke_opens:
  assumes "crypto_laws so" "rke_draw_ok d" "length sk = 32" "scalarmultBase so sk = Some pk"
  shows "\<exists>r. oneRke so ids mk d user device pk keyId = Some r \<and> rw_user r = user \<and> rw_device r = device \<and>
    rk_keyId (rw_key r) = keyId \<and> is_js_string (rk_ephemeral (rw_key r)) \<and> is_js_string (rk_salt (rw_key r)) \<and>
    is_js_string (rk_nonce (rw_key r)) \<and> is_js_string (rk_cipher (rw_key r)) \<and>
    unwrap_row so sk (rke_members (rw_key r)) (recipientKeyEnvelopeAadLine ids user device keyId) = Some mk"
proof -
  have b: "sd_base64 so = toBase64Url" using assms(1) by (simp add: crypto_laws_def)
  obtain w where w: "rkeWrapMessageKey so (rd_secret d) pk (rd_salt d) (recipientKeyEnvelopeAadLine ids user device keyId) mk
        (rd_nonce d) = Some w" "wk_nonce w = rd_nonce d"
      "rkeUnwrapMessageKey so sk (wk_ephemeral w) (rd_salt d) (recipientKeyEnvelopeAadLine ids user device keyId)
        (rd_nonce d) (wk_cipher w) = Some mk"
    using rke_round_trip [OF assms(1) _ _ assms(3,4)] assms(2) unfolding rke_draw_ok_def by blast
  show ?thesis
    by (simp add: oneRke_def w b unwrap_row_def rke_members_def bytes_member_def str_member_def aead_nonce_def aead_json_def)
qed

section \<open>The envelope reaches the recipient\<close>

definition recipient_ok :: "recipient_wire \<Rightarrow> bool" where
  "recipient_ok r \<longleftrightarrow>
     is_js_string (rw_user r) \<and> is_js_string (rw_device r) \<and> is_js_string (rk_ephemeral (rw_key r)) \<and>
     is_js_string (rk_keyId (rw_key r)) \<and> is_js_string (rk_salt (rw_key r)) \<and> is_js_string (rk_nonce (rw_key r)) \<and>
     is_js_string (rk_cipher (rw_key r))"

lemma is_js_string_literal: "is_js_string (c # s) \<longleftrightarrow> c < 0x10000 \<and> is_js_string s" "is_js_string []"
  by (simp_all add: is_js_string_def)

lemma recipient_json_ok:
  "recipient_ok r \<Longrightarrow> json_ok (JObj (recipient_members r)) \<and> no_fraction (JObj (recipient_members r))"
  by (simp add: recipient_ok_def recipient_members_def rke_members_def aead_json_def is_js_string_literal
      isSafeInteger_def max_safe_int_def)

definition same_user :: "js_string \<Rightarrow> js_string \<Rightarrow> bool" where
  "same_user u v \<longleftrightarrow> toLowerCase (trim u) = toLowerCase (trim v)"

lemma find_row_recipient:
  assumes "r \<in> set rs"
  obtains q where "q \<in> set rs" "same_user (rw_user q) (rw_user r)"
    "find_row (toLowerCase (trim (rw_user r))) (map (\<lambda>r. JObj (recipient_members r)) rs) = Inr (recipient_members q)"
proof -
  have u: "str_member (recipient_members q) (js ''userUuid'') = Some (rw_user q)" for q
    by (simp add: str_member_def recipient_members_def)
  have "\<exists>q \<in> set rs. same_user (rw_user q) (rw_user r) \<and>
    find_row (toLowerCase (trim (rw_user r))) (map (\<lambda>r. JObj (recipient_members r)) rs) = Inr (recipient_members q)"
    using assms
  proof (induction rs)
    case (Cons q qs)
    show ?case
    proof (cases "same_user (rw_user q) (rw_user r)")
      case True
      with u [of q] show ?thesis by (simp add: same_user_def)
    next
      case False
      with Cons u [of q] show ?thesis by (auto simp: same_user_def)
    qed
  qed simp
  with that show ?thesis by blast
qed

lemma sort_two: "set (sortRecipients [a, b]) = {a, b}"
  by (auto simp: sortRecipients_def)

definition frank_tag_ok :: "js_string option \<Rightarrow> bool" where
  "frank_tag_ok tag \<longleftrightarrow> (case tag of None \<Rightarrow> True | Some t \<Rightarrow> is_js_string t \<and> trim t = t)"

definition ids_ok :: "message_ids \<Rightarrow> bool" where
  "ids_ok m \<longleftrightarrow> list_all is_js_string [mi_conversation m, mi_epoch m, mi_message m, mi_key m, mi_sender m, mi_device m]"

lemma frank_tag_total:
  assumes "crypto_laws so" "draws_ok d"
  shows "\<exists>tag. frank_tag so d p plain = Inr tag \<and> frank_tag_ok tag"
  using assms
  by (auto simp: frank_tag_def draws_ok_def computeFrankTagV1_def frank_tag_ok_def crypto_laws_def split: option.split)

lemma recipients_json_ok:
  "\<forall>r \<in> set rs. recipient_ok r \<Longrightarrow>
   json_ok (JArr (map (\<lambda>r. JObj (recipient_members r)) rs)) \<and> no_fraction (JArr (map (\<lambda>r. JObj (recipient_members r)) rs))"
  using recipient_json_ok by (simp del: json_ok.simps(4) no_fraction.simps(3))

lemma envelope_json_ok:
  assumes "crypto_laws so" "ids_ok ids" "is_js_string (dr_createdAt d)" "frank_tag_ok tag" "\<forall>r \<in> set rs. recipient_ok r"
  shows "json_ok (JObj (envelope_members so d ids cipher rs pk tag @ [(js ''senderSignatureBase64Url'', JStr (toBase64Url sig))]))"
    and "no_fraction (JObj (envelope_members so d ids cipher rs pk tag @ [(js ''senderSignatureBase64Url'', JStr (toBase64Url sig))]))"
  using assms recipients_json_ok [OF assms(5)]
  by (auto simp: envelope_members_def crypto_laws_def ids_ok_def frank_tag_ok_def aead_json_def is_js_string_literal
      isSafeInteger_def max_safe_int_def simp del: json_ok.simps(3) no_fraction.simps(2) split: option.splits)

lemma no_fraction_append: "no_fraction (JObj (ms @ ns)) \<longleftrightarrow> no_fraction (JObj ms) \<and> no_fraction (JObj ns)"
  by auto

lemma unsigned_part:
  "envelopeWireForSigning (envelope_members so d ids cipher rs pk tag @ [(js ''senderSignatureBase64Url'', v)]) =
   envelope_members so d ids cipher rs pk tag"
  by (simp add: envelopeWireForSigning_def envelope_members_def split: option.split)

text \<open>What a receiver reads from an envelope as it was built.\<close>

lemma envelope_reads:
  assumes "sd_base64 so = toBase64Url" "frank_tag_ok tag"
    and "env = envelope_members so d ids cipher rs pk tag @ [(js ''senderSignatureBase64Url'', JStr (toBase64Url sig))]"
  shows "envelope_ids env = Some ids"
    and "map_of env (js ''createdAt'') = Some (JStr (dr_createdAt d))"
    and "map_of env (js ''recipients'') = Some (JArr (map (\<lambda>r. JObj (recipient_members r)) rs))"
    and "map_of env (js ''senderSigningPublicKeyBase64Url'') = Some (JStr (toBase64Url pk))"
    and "str_member env (js ''senderSignatureBase64Url'') = Some (toBase64Url sig)"
    and "bytes_member env (js ''ciphertextBase64Url'') = Some cipher"
    and "aead_nonce env = Some (dr_bodyNonce d)"
    and "frank_tag_field (readOptionalFrankTagBase64Url env) = frank_tag_field tag"
  by (simp_all add: assms(3) envelope_ids_def str_member_def envelope_members_def assms(1) bytes_member_def aead_nonce_def
      aead_json_def)
    (use assms(2) in \<open>auto simp: readOptionalFrankTagBase64Url_def trimmed_member_def str_member_def
      frank_tag_field_def frank_tag_ok_def split: option.split\<close>)

lemma body_line_tag: "frank_tag_field a = frank_tag_field b \<Longrightarrow> messageBodyAadLine ids c a = messageBodyAadLine ids c b"
  by (simp add: messageBodyAadLine_def)

lemma row_line_recipient:
  "row_line ids (recipient_members r) =
   Some (rke_members (rw_key r), recipientKeyEnvelopeAadLine ids (rw_user r) (rw_device r) (rk_keyId (rw_key r)))"
  by (simp add: row_line_def recipient_members_def rke_members_def str_member_def)

section \<open>The plaintext reaches the recipient\<close>

definition franking_member :: "draws \<Rightarrow> json_record" where
  "franking_member d =
     (case dr_frankingKey d of None \<Rightarrow> [] | Some k \<Rightarrow> [(js ''frankingKeyBase64Url'', JStr (toBase64Url k))])"

lemma plaintext_record_members:
  "sd_base64 so = toBase64Url \<Longrightarrow> plaintext_record so d p = plaintext_members (payload_of d p) @ franking_member d"
  by (simp add: plaintext_record_def franking_member_def split: option.split)

lemma plaintext_keys:
  "fst ` set (plaintext_members m) \<subseteq>
     {js ''type'', js ''version'', js ''blocks'', js ''clientCreatedAt'', js ''replyTo''}"
  by (auto simp: plaintext_members_def split: option.splits)

lemma plaintext_no_key:
  "k \<notin> {js ''type'', js ''version'', js ''blocks'', js ''clientCreatedAt'', js ''replyTo''} \<Longrightarrow>
   k \<notin> fst ` set (plaintext_members m)"
  using plaintext_keys by blast

lemma json_ok_append:
  "json_ok (JObj (a @ b)) \<longleftrightarrow> json_ok (JObj a) \<and> json_ok (JObj b) \<and> fst ` set a \<inter> fst ` set b = {}"
  by (simp only: json_ok.simps map_append set_append distinct_append set_map ball_Un) blast

lemma disjoint_pair: "A \<subseteq> {x, y} \<Longrightarrow> x \<notin> B \<Longrightarrow> y \<notin> B \<Longrightarrow> B \<inter> A = {}"
  by blast

lemma padded_record_ok:
  assumes "plaintext_ok m" "is_js_string z"
  shows "json_ok (JObj (plaintext_members m @ franking_member d @ [(js ''pad'', JStr z)]))"
proof -
  have "json_ok (JObj (plaintext_members m))" by (rule plaintext_members_ok [OF assms(1)])
  moreover have "json_ok (JObj (franking_member d @ [(js ''pad'', JStr z)]))"
    using assms(2) by (auto simp: franking_member_def is_js_string_literal split: option.split)
  moreover have "fst ` set (plaintext_members m) \<inter> fst ` set (franking_member d @ [(js ''pad'', JStr z)]) = {}"
  proof -
    have "fst ` set (franking_member d @ [(js ''pad'', JStr z)]) \<subseteq> {js ''frankingKeyBase64Url'', js ''pad''}"
      by (auto simp: franking_member_def split: option.splits)
    moreover have "js ''frankingKeyBase64Url'' \<notin> fst ` set (plaintext_members m)" by (rule plaintext_no_key) simp
    moreover have "js ''pad'' \<notin> fst ` set (plaintext_members m)" by (rule plaintext_no_key) simp
    ultimately show ?thesis by (rule disjoint_pair)
  qed
  ultimately show ?thesis by (simp only: json_ok_append)
qed

lemma plaintext_stringify:
  assumes "stringify (JObj (plaintext_members m)) \<noteq> None"
  shows "\<exists>t. stringify (JObj (plaintext_members m @ franking_member d)) = Some t"
proof -
  obtain ps where ps: "stringify_members (plaintext_members m) = Some ps" using assms by auto
  show ?thesis
  proof (cases "dr_frankingKey d")
    case (Some k)
    have "stringify (JStr (toBase64Url k)) = Some (quote (toBase64Url k))" by simp
    from stringify_members_snoc [OF ps this] Some show ?thesis by (simp add: franking_member_def)
  qed (use ps in \<open>simp add: franking_member_def\<close>)
qed

lemma plaintext_opens:
  assumes "plaintext_ok (payload_of d p)" "case dr_frankingKey d of None \<Rightarrow> True | Some k \<Rightarrow> length k = 32"
    and "stringify (JObj (plaintext_members (payload_of d p) @ franking_member d)) = Some t"
  shows "read_plain now env (utf8_encode (padPlaintextJsonV1 t)) =
    Some \<lparr>dw_plaintext = received (payload_of d p), dw_bytes = utf8_encode (padPlaintextJsonV1 t), dw_envelope = env,
      dw_frankingKey = map_option toBase64Url (dr_frankingKey d)\<rparr>"
proof -
  let ?m = "payload_of d p" and ?pad = "(js ''pad'', JStr (replicate (pad_zeros t) 48))"
  let ?ms = "plaintext_members ?m @ franking_member d @ [?pad]"
  have ok: "json_ok (JObj ?ms)"
    by (rule padded_record_ok [OF assms(1)]) (simp add: is_js_string_def list_all_iff)
  have "stringify (JObj ((plaintext_members ?m @ franking_member d) @ [?pad])) = Some (padPlaintextJsonV1 t)"
    by (rule pad_is_member [OF assms(3)]) (simp add: plaintext_members_def)
  then have "stringify (JObj ?ms) = Some (padPlaintextJsonV1 t)" unfolding append_assoc .
  with ok have "parse_json (text_decode (utf8_encode (padPlaintextJsonV1 t))) = Some (JObj ?ms)"
    by (rule parse_object_bytes)
  moreover have "foreign_members (franking_member d @ [?pad])"
    by (simp add: foreign_members_def franking_member_def split: option.split)
  then have "normalizeFscpMessagePlaintext now (JObj ?ms) = Some (received ?m)" by (rule normalize_plaintext [OF assms(1)])
  moreover have "readOptionalFrankingKeyBase64Url ?ms = map_option toBase64Url (dr_frankingKey d)"
  proof -
    have n: "map_of (plaintext_members ?m) (js ''frankingKeyBase64Url'') = None"
      unfolding map_of_eq_None_iff by (rule plaintext_no_key) simp
    show ?thesis
    proof (cases "dr_frankingKey d")
      case (Some k)
      then have "k \<noteq> []" using assms(2) by auto
      with Some n show ?thesis
        by (simp add: readOptionalFrankingKeyBase64Url_def trimmed_member_def str_member_def franking_member_def map_add_def)
    qed (use n in \<open>simp add: readOptionalFrankingKeyBase64Url_def trimmed_member_def str_member_def franking_member_def map_add_def\<close>)
  qed
  ultimately show ?thesis by (simp add: read_plain_def)
qed

section \<open>Round trip\<close>

lemma starts_with_append [simp]: "starts_with p (p @ s)"
  by (simp add: starts_with_def)

lemma wire_opens:
  assumes "crypto_laws so" "frank_tag_ok tag" "pk \<noteq> []" "ids_ok ids" "is_js_string (dr_createdAt d)" "\<forall>r \<in> set rs. recipient_ok r"
    and env: "env = envelope_members so d ids cipher rs pk tag"
    and full: "full = env @ [(js ''senderSignatureBase64Url'', JStr (toBase64Url sig))]"
    and sig: "canonicalJson (JObj env) = Some t" "sd_verify so sig (sign_payload t) pk = Some True"
    and wire: "stringify (JObj full) = Some text"
    and row: "r \<in> set rs"
    and key: "\<And>q. q \<in> set rs \<Longrightarrow> same_user (rw_user q) (rw_user r) \<Longrightarrow> unwrap_row so sk (rke_members (rw_key q))
      (recipientKeyEnvelopeAadLine ids (rw_user q) (rw_device q) (rk_keyId (rw_key q))) = Some mk"
    and body: "sd_open so cipher (messageBodyAadLine ids (dr_createdAt d) tag) (dr_bodyNonce d) mk = Some plain"
    and plain: "read_plain now full plain = Some res"
  shows "decryptFscpWireEnvelopeDetailed so now (FSCP_WIRE_PREFIX @ sd_base64 so (utf8_encode text)) (rw_user r) sk legacy = Inr res"
proof -
  have b: "sd_base64 so = toBase64Url" using assms(1) by (simp add: crypto_laws_def)
  have full': "full = envelope_members so d ids cipher rs pk tag @ [(js ''senderSignatureBase64Url'', JStr (toBase64Url sig))]"
    by (simp add: full env)
  note reads = envelope_reads [OF b assms(2) full', simplified]
  have "json_ok (JObj full)" unfolding full' by (rule envelope_json_ok [OF assms(1,4,5,2,6)])
  then have "parse_json (text_decode (utf8_encode text)) = Some (JObj full)" using wire by (rule parse_object_bytes)
  then have parsed: "parse_envelope (toBase64Url (utf8_encode text)) = Some full"
    by (simp add: parse_envelope_def reads(3))
  have "envelopeWireForSigning full = env" unfolding full' env by (rule unsigned_part)
  then have verified: "verifyDetachedEnvelopeSignature so full legacy = Inr ()"
    using assms(3) sig by (simp add: verifyDetachedEnvelopeSignature_def Let_def reads(4) check_signature_def signature_ok_def
        reads(5) guardE_def del: canonicalJson.simps)
  obtain q where q: "q \<in> set rs" "same_user (rw_user q) (rw_user r)"
    and found: "find_row (toLowerCase (trim (rw_user r))) (envelope_rows full) = Inr (recipient_members q)"
    using find_row_recipient [OF row] by (auto simp: envelope_rows_def reads(3))
  have line: "messageBodyAadLine ids (dr_createdAt d) (readOptionalFrankTagBase64Url full) =
      messageBodyAadLine ids (dr_createdAt d) tag"
    by (rule body_line_tag [OF reads(8)])
  have "open_body so full (messageBodyAadLine ids (dr_createdAt d) tag) mk = Some plain"
    by (simp add: open_body_def reads(6,7) body)
  then show ?thesis
    by (simp add: decryptFscpWireEnvelopeDetailed_def guardE_def b parsed verified found reads(1,2) row_line_recipient key [OF q] line
        plain)
qed

text \<open>The two rows of an envelope.\<close>

definition round_trip_ok :: "sodium \<Rightarrow> draws \<Rightarrow> build_params \<Rightarrow> bytes \<Rightarrow> bool" where
  "round_trip_ok so d p receiverSecret \<longleftrightarrow>
     crypto_laws so \<and> draws_ok d \<and> params_ok d p \<and> signing_key_ok so (bp_signingKey p) \<and>
     length receiverSecret = 32 \<and> scalarmultBase so receiverSecret = Some (bp_receiverKey p) \<and>
     (if same_user (bp_sender p) (bp_receiver p) then scalarmultBase so (bp_agreementKey p) = Some (bp_receiverKey p)
      else True)"

lemma build_ids_ok: "crypto_laws so \<Longrightarrow> draws_ok d \<Longrightarrow> params_ok d p \<Longrightarrow> ids_ok (build_ids so d p)"
  by (simp add: ids_ok_def build_ids_def crypto_laws_def draws_ok_def params_ok_def dmConversationUuid_def Let_def
      FSCP_BOOTSTRAP_KEY_EPOCH_ID_def FSCP_BOOTSTRAP_DEVICE_UUID_def is_js_string_literal split: prod.split)

lemma sign_total:
  assumes "signing_key_ok so sk" "signing_public_key so sk = Inr pk" "no_fraction (JObj ms)" "sd_base64 so = toBase64Url"
  shows "\<exists>t sig. canonicalJson (JObj ms) = Some t \<and> sd_verify so sig (sign_payload t) pk = Some True \<and>
    sign_envelope so sk ms = Inr (ms @ [(js ''senderSignatureBase64Url'', JStr (toBase64Url sig))])"
proof -
  obtain t where t: "canonicalJson (JObj ms) = Some t" using canonical_total [OF assms(3)] by blast
  obtain sig where "sd_sign so (sign_payload t) sk = Some sig" "sd_verify so sig (sign_payload t) pk = Some True"
    using assms(1,2) unfolding signing_key_ok_def by (metis sum.inject(2))
  with t assms(4) show ?thesis by (auto simp: sign_envelope_def simp del: canonicalJson.simps)
qed

lemma recipient_okI:
  assumes "crypto_laws so" "is_js_string (rw_user r)" "rw_device r = FSCP_BOOTSTRAP_DEVICE_UUID"
    "rk_keyId (rw_key r) = agreementPublicKeyId (uuid_v5 so) u e"
    "is_js_string (rk_ephemeral (rw_key r))" "is_js_string (rk_salt (rw_key r))"
    "is_js_string (rk_nonce (rw_key r))" "is_js_string (rk_cipher (rw_key r))"
  shows "recipient_ok r"
  using assms by (simp add: recipient_ok_def crypto_laws_def agreementPublicKeyId_def FSCP_BOOTSTRAP_DEVICE_UUID_def
      is_js_string_literal)

lemma row_opens:
  assumes "crypto_laws so" "rke_draw_ok d" "is_js_string u" "length sk = 32" "scalarmultBase so sk = Some pk"
  shows "\<exists>r. oneRke so ids mk d u FSCP_BOOTSTRAP_DEVICE_UUID pk (agreementPublicKeyId (uuid_v5 so) u e) = Some r \<and>
    rw_user r = u \<and> recipient_ok r \<and>
    (\<forall>sk. length sk = 32 \<longrightarrow> scalarmultBase so sk = Some pk \<longrightarrow>
       unwrap_row so sk (rke_members (rw_key r)) (recipientKeyEnvelopeAadLine ids (rw_user r) (rw_device r) (rk_keyId (rw_key r))) = Some mk)"
proof -
  note one = one_rke_opens [OF assms(1,2), of _ pk ids mk u FSCP_BOOTSTRAP_DEVICE_UUID "agreementPublicKeyId (uuid_v5 so) u e"]
  obtain r where r: "oneRke so ids mk d u FSCP_BOOTSTRAP_DEVICE_UUID pk (agreementPublicKeyId (uuid_v5 so) u e) = Some r"
      "rw_user r = u" "recipient_ok r"
    using one [OF assms(4,5)] recipient_okI [OF assms(1)] assms(3) by metis
  then show ?thesis using one by force
qed

text \<open>
  C28. A message reaches both members of the conversation: an envelope is built for every payload whose numbers are
  integers, and the receiver and the sender, each with his own key, accept its signature and read the franking
  key and the payload back, the payload unchanged except that a placeholder for a block of an unknown kind has lost
  the name of that kind. The two members may have the same name up to case and surrounding white space when they
  have the same key. The primitives obey \<open>crypto_laws\<close>, and the signing key's signatures verify.
\<close>

theorem envelope_round_trip:
  assumes "round_trip_ok so d p receiverSecret"
  shows "\<exists>wire. buildFscpWireEnvelope so d p = Inr wire \<and>
    (\<forall>(viewer, sk) \<in> {(bp_receiver p, receiverSecret), (bp_sender p, bp_agreementKey p)}.
      \<exists>r. decryptFscpWireEnvelopeDetailed so now wire viewer sk False = Inr r \<and>
        dw_plaintext r = received (payload_of d p) \<and> dw_frankingKey r = map_option toBase64Url (dr_frankingKey d))"
proof -
  note ok = assms [unfolded round_trip_ok_def]
  then have laws: "crypto_laws so" and draws: "draws_ok d" and params: "params_ok d p"
    and signing: "signing_key_ok so (bp_signingKey p)" by auto
  define ids where "ids = build_ids so d p"
  have b: "sd_base64 so = toBase64Url" using laws by (simp add: crypto_laws_def)
  obtain pub where pub: "scalarmultBase so (bp_agreementKey p) = Some pub"
    using laws params unfolding crypto_laws_def params_ok_def by blast
  obtain compact where compact: "stringify (JObj (plaintext_members (payload_of d p) @ franking_member d)) = Some compact"
    using plaintext_stringify params unfolding params_ok_def by blast
  define plain where "plain = utf8_encode (padPlaintextJsonV1 compact)"
  obtain tag where tag: "frank_tag so d p plain = Inr tag" "frank_tag_ok tag" using frank_tag_total [OF laws draws] by blast
  obtain cipher where cipher: "sd_seal so plain (messageBodyAadLine ids (dr_createdAt d) tag) (dr_bodyNonce d) (dr_messageKey d) = Some cipher"
      "sd_open so cipher (messageBodyAadLine ids (dr_createdAt d) tag) (dr_bodyNonce d) (dr_messageKey d) = Some plain"
    using laws draws unfolding crypto_laws_def draws_ok_def by blast
  let ?row = "\<lambda>f u pk. oneRke so ids (dr_messageKey d) (f d) u FSCP_BOOTSTRAP_DEVICE_UUID pk
    (agreementPublicKeyId (uuid_v5 so) u FSCP_BOOTSTRAP_KEY_EPOCH_ID)"
  let ?opens = "\<lambda>q sk. unwrap_row so sk (rke_members (rw_key q))
    (recipientKeyEnvelopeAadLine ids (rw_user q) (rw_device q) (rk_keyId (rw_key q))) = Some (dr_messageKey d)"
  have row: "\<exists>r. ?row f u pk = Some r \<and> rw_user r = u \<and> recipient_ok r \<and>
      (\<forall>sk. length sk = 32 \<longrightarrow> scalarmultBase so sk = Some pk \<longrightarrow> ?opens r sk)"
    if "rke_draw_ok (f d)" "is_js_string u" "length sk = 32" "scalarmultBase so sk = Some pk" for f u pk sk
    using row_opens [OF laws that] by metis
  have rke: "rke_draw_ok (dr_rke1 d)" "rke_draw_ok (dr_rke2 d)" using draws by (simp_all add: draws_ok_def)
  obtain a where a: "?row dr_rke1 (bp_receiver p) (bp_receiverKey p) = Some a" "rw_user a = bp_receiver p" "recipient_ok a"
      "\<forall>sk. length sk = 32 \<longrightarrow> scalarmultBase so sk = Some (bp_receiverKey p) \<longrightarrow> ?opens a sk"
    using row [of dr_rke1, OF rke(1)] ok unfolding params_ok_def by blast
  obtain c where c: "?row dr_rke2 (bp_sender p) pub = Some c" "rw_user c = bp_sender p" "recipient_ok c"
      "\<forall>sk. length sk = 32 \<longrightarrow> scalarmultBase so sk = Some pub \<longrightarrow> ?opens c sk"
    using row [of dr_rke2, OF rke(2) _ _ pub] params unfolding params_ok_def by blast
  let ?rs = "sortRecipients [a, c]"
  have rs: "set ?rs = {a, c}" by (rule sort_two)
  have lengths: "length receiverSecret = 32" "length (bp_agreementKey p) = 32" using ok params by (simp_all add: params_ok_def)
  have key_a: "?opens q receiverSecret" if "q \<in> set ?rs" "same_user (rw_user q) (rw_user a)" for q
    using that rs ok pub a c lengths by (auto split: if_splits)
  have key_c: "?opens q (bp_agreementKey p)" if "q \<in> set ?rs" "same_user (rw_user q) (rw_user c)" for q
    using that rs ok pub a c lengths by (auto simp: same_user_def split: if_splits)
  obtain pk where pk: "signing_public_key so (bp_signingKey p) = Inr pk" "pk \<noteq> []"
    using signing unfolding signing_key_ok_def by blast
  define env where "env = envelope_members so d ids cipher ?rs pk tag"
  have idsok: "ids_ok ids" unfolding ids_def by (rule build_ids_ok [OF laws draws params])
  have created: "is_js_string (dr_createdAt d)" using draws by (simp add: draws_ok_def)
  have rsok: "\<forall>r \<in> set ?rs. recipient_ok r" using a(3) c(3) rs by auto
  note env_ok = envelope_json_ok [OF laws idsok created tag(2) rsok, of cipher pk, folded env_def]
  obtain t sig where sig: "canonicalJson (JObj env) = Some t" "sd_verify so sig (sign_payload t) pk = Some True"
      "sign_envelope so (bp_signingKey p) env = Inr (env @ [(js ''senderSignatureBase64Url'', JStr (toBase64Url sig))])"
    using sign_total [OF signing pk(1) _ b] env_ok(2) unfolding no_fraction_append by blast
  define full where "full = env @ [(js ''senderSignatureBase64Url'', JStr (toBase64Url sig))]"
  obtain wire where wire: "stringify (JObj full) = Some wire" using stringify_total [OF env_ok(2)] unfolding full_def by blast
  have built: "buildFscpWireEnvelope so d p = Inr (FSCP_WIRE_PREFIX @ sd_base64 so (utf8_encode wire))"
    using pub compact tag(1) cipher(1) a(1) c(1) pk(1) sig(3) wire
    by (simp add: buildFscpWireEnvelope_def Let_def plaintext_record_members [OF b] ids_def plain_def env_def full_def
        del: stringify.simps)
  have read: "read_plain now full plain = Some \<lparr>dw_plaintext = received (payload_of d p), dw_bytes = plain, dw_envelope = full,
      dw_frankingKey = map_option toBase64Url (dr_frankingKey d)\<rparr>"
    unfolding plain_def by (rule plaintext_opens) (use draws params compact in \<open>simp_all add: draws_ok_def params_ok_def\<close>)
  note opens = wire_opens [OF laws tag(2) pk(2) idsok created rsok env_def full_def sig(1,2) wire _ _ cipher(2) read]
  have in_rs: "a \<in> set ?rs" "c \<in> set ?rs" using rs by auto
  have "decryptFscpWireEnvelopeDetailed so now (FSCP_WIRE_PREFIX @ sd_base64 so (utf8_encode wire)) (bp_receiver p) receiverSecret False =
      Inr \<lparr>dw_plaintext = received (payload_of d p), dw_bytes = plain, dw_envelope = full,
        dw_frankingKey = map_option toBase64Url (dr_frankingKey d)\<rparr>"
    by (rule opens [OF in_rs(1) key_a, unfolded a(2)])
  moreover have "decryptFscpWireEnvelopeDetailed so now (FSCP_WIRE_PREFIX @ sd_base64 so (utf8_encode wire)) (bp_sender p)
      (bp_agreementKey p) False =
      Inr \<lparr>dw_plaintext = received (payload_of d p), dw_bytes = plain, dw_envelope = full,
        dw_frankingKey = map_option toBase64Url (dr_frankingKey d)\<rparr>"
    by (rule opens [OF in_rs(2) key_c, unfolded c(2)])
  ultimately show ?thesis using built by auto
qed

section \<open>Forgeries are rejected and do no harm\<close>

lemma canonical_text_ok: "json_ok v \<Longrightarrow> canonicalJson v = Some t \<Longrightarrow> text_ok t"
  unfolding canonical_is_stringify by (rule stringify_text [OF norm_json_ok])

lemma sign_payload_inj:
  assumes "text_ok a" "text_ok b" "sign_payload a = sign_payload b"
  shows "a = b"
proof -
  let ?c = "js ''flora.messaging.envelope-signature.v1 | ''"
  have "text_ok ?c" by (rule text_ok_low) simp
  then have "text_decode (sign_payload x) = ?c @ x" if "text_ok x" for x
    unfolding sign_payload_def by (intro text_decode_stringify text_ok_append that) simp_all
  with assms show ?thesis by (metis same_append_eq)
qed

text \<open>A failure before the key is unwrapped changes nothing in the session.\<close>

lemma early_failure_harmless:
  assumes "parse_envelope (drop (length FSCP_WIRE_PREFIX) wire) = Some env"
    and "verifyDetachedEnvelopeSignature so env legacy = Inl x" "x \<in> {Decrypt_error Signature_missing, Decrypt_error Signature_invalid, Uncaught}"
  shows "\<exists>e. decryptFscpWireEnvelopeDetailed so now wire viewer sk legacy = Inl e \<and>
    noteInboundDecryptFailure s (fscpDecryptFailureCategory e) = (s, False)"
proof (cases "starts_with FSCP_WIRE_PREFIX wire")
  case True
  with assms have "decryptFscpWireEnvelopeDetailed so now wire viewer sk legacy = Inl x"
    by (simp add: decryptFscpWireEnvelopeDetailed_def guardE_def)
  with assms(3) show ?thesis
    by (auto simp: noteInboundDecryptFailure_def fscpDecryptFailureCategory_def classifyDecryptFailure_def)
qed (simp add: decryptFscpWireEnvelopeDetailed_def guardE_def noteInboundDecryptFailure_def fscpDecryptFailureCategory_def
    classifyDecryptFailure_def)

text \<open>
  C30. A server that strips the signing key from an envelope cannot downgrade a conversation and cannot freeze it
  either: a reader who does not ask for legacy messages never reads an envelope that names no signing key (the
  member is missing, blank or no string), and the failure does not count against the session. Only a reader who
  passes \<open>allowUnsignedLegacy\<close>, for an archive, gets past the signature check with it.
\<close>

theorem unsigned_envelope_is_harmless:
  assumes "parse_envelope (drop (length FSCP_WIRE_PREFIX) wire) = Some env"
    and "trimmed_member env (js ''senderSigningPublicKeyBase64Url'') = None"
  shows "(\<exists>e. decryptFscpWireEnvelopeDetailed so now wire viewer sk False = Inl e \<and>
      noteInboundDecryptFailure s (fscpDecryptFailureCategory e) = (s, False)) \<and>
    verifyDetachedEnvelopeSignature so env True =
      (case map_of env (js ''senderSigningPublicKeyBase64Url'') of
         Some v \<Rightarrow> if \<not> js_falsy v \<and> str_member env (js ''senderSigningPublicKeyBase64Url'') = None then Inl Uncaught
           else Inr ()
       | None \<Rightarrow> Inr ())"
proof
  have "verifyDetachedEnvelopeSignature so env False \<in> {Inl (Decrypt_error Signature_missing), Inl Uncaught}"
    using assms(2)
    by (auto simp: verifyDetachedEnvelopeSignature_def Let_def guardE_def trimmed_member_def str_member_def
        split: option.splits json.splits if_splits)
  then show "\<exists>e. decryptFscpWireEnvelopeDetailed so now wire viewer sk False = Inl e \<and>
      noteInboundDecryptFailure s (fscpDecryptFailureCategory e) = (s, False)"
    using early_failure_harmless [OF assms(1), of so False] by auto
qed (use assms(2) in \<open>auto simp: verifyDetachedEnvelopeSignature_def Let_def guardE_def trimmed_member_def str_member_def
    split: option.splits json.splits if_splits\<close>)

text \<open>
  What the server has to forge with: a set of signatures, all it has seen or can make, none of which the key
  verifies for anything but an envelope that the owner of the key has signed. (Other signatures, which only the
  owner can make, verify other messages.)
\<close>

definition unforgeable :: "sodium \<Rightarrow> bytes \<Rightarrow> json_record set \<Rightarrow> bytes set \<Rightarrow> bool" where
  "unforgeable so k issued known \<longleftrightarrow>
     (\<forall>sig \<in> known. \<forall>m. sd_verify so sig m k = Some True \<longrightarrow>
       (\<exists>e \<in> issued. json_ok (JObj e) \<and> (\<exists>t. canonicalJson (JObj e) = Some t \<and> m = sign_payload t)))"

text \<open>
  C29. An envelope cannot be forged or changed: when it names the signing key and carries one of the signatures the
  server knows (or none), but is not, up to the order of members, an envelope that the key's owner
  has signed, it is rejected whatever else is in it, and the failure does not count against the session. (Its numbers are
  integers of at most 53 bits: the text of other numbers, which is signed too, is not modelled.)
\<close>

theorem forged_envelope_is_harmless:
  assumes "unforgeable so k issued known"
    and "parse_envelope (drop (length FSCP_WIRE_PREFIX) wire) = Some env" "json_ok (JObj env)" "no_fraction (JObj env)"
    and "bytes_member env (js ''senderSigningPublicKeyBase64Url'') = Some k"
    and "set_option (bytes_member env (js ''senderSignatureBase64Url'')) \<subseteq> known"
    and "\<forall>e \<in> issued. norm_json (JObj e) \<noteq> norm_json (JObj (envelopeWireForSigning env))"
  shows "\<exists>e. decryptFscpWireEnvelopeDetailed so now wire viewer sk False = Inl e \<and>
    noteInboundDecryptFailure s (fscpDecryptFailureCategory e) = (s, False)"
proof -
  obtain pk where pk: "map_of env (js ''senderSigningPublicKeyBase64Url'') = Some (JStr pk)" "fromBase64Url pk = Some k"
    using assms(5) by (auto simp: bytes_member_def str_member_def split: option.splits json.splits)
  have keep: "json_ok (JObj (envelopeWireForSigning env))" "no_fraction (JObj (envelopeWireForSigning env))"
    using assms(3,4) by (auto simp: envelopeWireForSigning_def distinct_map_filter)
  obtain t where t: "canonicalJson (JObj (envelopeWireForSigning env)) = Some t"
    using canonical_total [OF keep(2)] by blast
  have bad: "\<not> signature_ok so env t pk"
  proof
    assume "signature_ok so env t pk"
    then obtain sig where "bytes_member env (js ''senderSignatureBase64Url'') = Some sig"
        "sd_verify so sig (sign_payload t) k = Some True"
      using pk(2) by (auto simp: signature_ok_def bytes_member_def split: option.splits)
    moreover from this have "sig \<in> known" using assms(6) by simp
    ultimately obtain e u where e: "e \<in> issued" "canonicalJson (JObj e) = Some u" "sign_payload t = sign_payload u"
      and oke: "json_ok (JObj e)"
      using assms(1) unfolding unforgeable_def by blast
    have "t = u"
      by (rule sign_payload_inj [OF canonical_text_ok [OF keep(1) t] canonical_text_ok [OF oke e(2)] e(3)])
    with parse_canonical [OF keep(1) t] parse_canonical [OF oke e(2)]
    have "norm_json (JObj e) = norm_json (JObj (envelopeWireForSigning env))" by simp
    with assms(7) e(1) show False by blast
  qed
  have "verifyDetachedEnvelopeSignature so env False \<in> {Inl (Decrypt_error Signature_missing), Inl (Decrypt_error Signature_invalid)}"
    unfolding verifyDetachedEnvelopeSignature_def pk(1) Let_def check_signature_def t
    using bad by (simp add: guardE_def)
  then show ?thesis using early_failure_harmless [OF assms(2), of so False] by auto
qed

section \<open>Concrete inputs\<close>

text \<open>
  A library that satisfies the laws, for the witnesses: keys are their own public halves and agree on their sum,
  the cipher is the identity, and the signature of a message is the message.
\<close>

definition toy_sodium :: sodium where
  "toy_sodium =
     \<lparr>sd_mult = Some (\<lambda>a b. Some (map2 (+) a b)), sd_base = Some Some, sd_pk = None, sd_sign = (\<lambda>m k. Some m),
      sd_verify = (\<lambda>s m k. Some (s = m)), sd_seal = (\<lambda>m l n k. Some m), sd_open = (\<lambda>c l n k. Some c),
      sd_base64 = toBase64Url, nobleScalarmult = (\<lambda>a b. None), nobleScalarmultBase = (\<lambda>a. None),
      hkdf_extract = (\<lambda>a b. a), hkdf_expand = (\<lambda>p i n. replicate n 0), sha_256 = (\<lambda>b. replicate 32 0),
      hmac_256 = (\<lambda>k m. k), uuid_v5 = (\<lambda>s. js ''u'')\<rparr>"

definition toy_draws :: draws where
  "toy_draws =
     \<lparr>dr_messageUuid = js ''m'', dr_messageKeyId = js ''k'', dr_createdAt = js ''2026-01-01T00:00:00Z'',
      dr_messageKey = replicate 32 1, dr_frankingKey = Some (replicate 32 2), dr_bodyNonce = replicate 24 3,
      dr_rke1 = \<lparr>rd_secret = replicate 32 4, rd_salt = [], rd_nonce = replicate 24 5\<rparr>,
      dr_rke2 = \<lparr>rd_secret = replicate 32 6, rd_salt = [], rd_nonce = replicate 24 7\<rparr>\<rparr>"

definition toy_params :: build_params where
  "toy_params =
     \<lparr>bp_sender = js ''anna'', bp_receiver = js ''Boris'', bp_agreementKey = replicate 32 8, bp_signingKey = replicate 64 9,
      bp_receiverKey = replicate 32 10, bp_body = Some (js ''hi''), bp_payload = None\<rparr>"

lemma map2_add_comm: "length a = length b \<Longrightarrow> map2 (+) a b = map2 (+) b (a :: bytes)"
  by (induction a b rule: list_induct2) (simp_all add: add.commute)

lemma toy_laws: "crypto_laws toy_sodium"
  using map2_add_comm
  by (auto simp: crypto_laws_def toy_sodium_def scalarmult_def scalarmultBase_def Let_def is_js_string_literal)

lemma toy_signing_key_ok: "signing_key_ok toy_sodium (replicate 64 9)"
  by (simp add: signing_key_ok_def signing_public_key_def toy_sodium_def)

lemma toy_round_trip_ok: "round_trip_ok toy_sodium toy_draws toy_params (replicate 32 10)"
proof -
  have "draws_ok toy_draws"
    by (simp add: draws_ok_def toy_draws_def rke_draw_ok_def is_js_string_literal)
  moreover have "params_ok toy_draws toy_params"
    by (simp add: params_ok_def toy_params_def toy_draws_def payload_of_def messagePlaintextFromBlocks_def plaintext_ok_def
        is_js_string_literal plaintext_members_def)
  moreover have "signing_key_ok toy_sodium (bp_signingKey toy_params)"
    using toy_signing_key_ok by (simp add: toy_params_def)
  moreover have "scalarmultBase toy_sodium (replicate 32 10) = Some (bp_receiverKey toy_params)"
    by (simp add: scalarmultBase_def toy_sodium_def toy_params_def)
  moreover have "\<not> same_user (bp_sender toy_params) (bp_receiver toy_params)"
    by (simp add: same_user_def toy_params_def trim_def is_space_unit_def toLowerCase_def lower_unit_def)
  ultimately show ?thesis using toy_laws by (simp add: round_trip_ok_def toy_params_def)
qed

theorem envelope_round_trip_witness:
  "\<exists>wire. buildFscpWireEnvelope toy_sodium toy_draws toy_params = Inr wire \<and>
    (\<forall>(viewer, sk) \<in> {(js ''Boris'', replicate 32 10), (js ''anna'', replicate 32 8)}.
      \<exists>r. decryptFscpWireEnvelopeDetailed toy_sodium [] wire viewer sk False = Inr r \<and>
        dw_plaintext r = messagePlaintextFromBlocks [TextBlock (js ''hi'')] (js ''2026-01-01T00:00:00Z'') \<and>
        dw_frankingKey r = Some (toBase64Url (replicate 32 2)))"
proof -
  have p: "payload_of toy_draws toy_params = messagePlaintextFromBlocks [TextBlock (js ''hi'')] (js ''2026-01-01T00:00:00Z'')"
      "received (messagePlaintextFromBlocks [TextBlock (js ''hi'')] t) = messagePlaintextFromBlocks [TextBlock (js ''hi'')] t"
      "bp_receiver toy_params = js ''Boris''" "bp_sender toy_params = js ''anna''" "bp_agreementKey toy_params = replicate 32 8"
      "dr_frankingKey toy_draws = Some (replicate 32 2)" for t
    by (simp_all add: payload_of_def toy_params_def toy_draws_def received_def messagePlaintextFromBlocks_def)
  show ?thesis
    using envelope_round_trip [OF toy_round_trip_ok, of "[]"] unfolding p option.map .
qed

text \<open>An envelope with its members, and its wire form.\<close>

definition wire_of :: "js_string \<Rightarrow> js_string" where
  "wire_of text = FSCP_WIRE_PREFIX @ toBase64Url (utf8_encode text)"

lemma parse_wire_of:
  assumes "json_ok (JObj ms)" "stringify (JObj ms) = Some t" "map_of ms (js ''recipients'') = Some (JArr rows)"
  shows "parse_envelope (drop (length FSCP_WIRE_PREFIX) (wire_of t)) = Some ms"
  using parse_object_bytes [OF assms(1,2)] assms(3) by (simp add: wire_of_def parse_envelope_def)

theorem unsigned_envelope_is_harmless_witness:
  "(\<exists>e. decryptFscpWireEnvelopeDetailed toy_sodium [] (wire_of (js ''{\"recipients\":[]}'')) (js ''anna'') [] False = Inl e \<and>
    noteInboundDecryptFailure (createConversationSession [] [] []) (fscpDecryptFailureCategory e) =
      (createConversationSession [] [] [], False)) \<and>
   verifyDetachedEnvelopeSignature toy_sodium [(js ''recipients'', JArr [])] True = Inr ()"
proof -
  have "parse_envelope (drop (length FSCP_WIRE_PREFIX) (wire_of (js ''{\"recipients\":[]}''))) = Some [(js ''recipients'', JArr [])]"
    by (rule parse_wire_of) (simp_all add: is_js_string_literal member_text_def quote_def esc_unit_def short_escape_def
        high_surrogate_def low_surrogate_def)
  from unsigned_envelope_is_harmless [OF this, of toy_sodium "[]" "js ''anna''" "[]" "createConversationSession [] [] []"]
  show ?thesis by (simp add: trimmed_member_def str_member_def)
qed

text \<open>
  The owner of the key signed an envelope without the member \<open>x\<close>; the server adds the member and keeps the
  signature. The library is the one above, whose signing keys work.
\<close>

definition toy_issued :: json_record where
  "toy_issued = [(js ''recipients'', JArr []), (js ''senderSigningPublicKeyBase64Url'', JStr (toBase64Url (replicate 32 9)))]"

definition toy_signature :: bytes where
  "toy_signature = sign_payload (the (canonicalJson (JObj toy_issued)))"

definition toy_forged :: json_record where
  "toy_forged = toy_issued @ [(js ''x'', JInt 1), (js ''senderSignatureBase64Url'', JStr (toBase64Url toy_signature))]"

theorem forged_envelope_is_harmless_witness:
  "signing_key_ok toy_sodium (replicate 64 9) \<and>
   (\<exists>e. decryptFscpWireEnvelopeDetailed toy_sodium [] (wire_of (the (stringify (JObj toy_forged)))) (js ''anna'') [] False = Inl e \<and>
    noteInboundDecryptFailure (createConversationSession [] [] []) (fscpDecryptFailureCategory e) =
      (createConversationSession [] [] [], False))"
proof (intro conjI toy_signing_key_ok forged_envelope_is_harmless [of _ "replicate 32 9" "{toy_issued}" "{toy_signature}"])
  have frac: "no_fraction (JObj toy_issued)" "no_fraction (JObj toy_forged)" by (simp_all add: toy_forged_def toy_issued_def)
  then obtain u where u: "canonicalJson (JObj toy_issued) = Some u" using canonical_total by blast
  have "json_ok (JObj toy_issued)" by (simp add: toy_issued_def is_js_string_literal)
  with u show "unforgeable toy_sodium (replicate 32 9) {toy_issued} {toy_signature}"
    by (simp add: unforgeable_def toy_signature_def toy_sodium_def del: canonicalJson.simps json_ok.simps)
  show ok: "json_ok (JObj toy_forged)"
    by (simp add: toy_forged_def toy_issued_def is_js_string_literal isSafeInteger_def max_safe_int_def)
  obtain t where t: "stringify (JObj toy_forged) = Some t" using stringify_total [OF frac(2)] by blast
  show "parse_envelope (drop (length FSCP_WIRE_PREFIX) (wire_of (the (stringify (JObj toy_forged))))) = Some toy_forged"
    unfolding t option.sel by (rule parse_wire_of [OF ok t]) (simp add: toy_forged_def toy_issued_def)
  show "no_fraction (JObj toy_forged)" by (rule frac(2))
  show "bytes_member toy_forged (js ''senderSigningPublicKeyBase64Url'') = Some (replicate 32 9)"
    by (simp add: toy_forged_def toy_issued_def bytes_member_def str_member_def)
  show "set_option (bytes_member toy_forged (js ''senderSignatureBase64Url'')) \<subseteq> {toy_signature}"
    by (simp add: toy_forged_def toy_issued_def bytes_member_def str_member_def)
  show "\<forall>e \<in> {toy_issued}. norm_json (JObj e) \<noteq> norm_json (JObj (envelopeWireForSigning toy_forged))"
    by (simp add: toy_forged_def toy_issued_def envelopeWireForSigning_def)
qed

end
