(* ===== verification/Fscp_Retry.thy ===== *)
theory Fscp_Retry
  imports Flora_Prelude Complex_Main
begin

text \<open>
  Retries of idempotent reads under one time budget (\<open>products/FSCP/ts/src/resilience.ts\<close>, with the error
  classes of \<open>packages/flora-client-core/src/api/errors.ts\<close>). Time is explicit: the read is a parameter that
  says how long each attempt takes and what it ends with, timers fire on time, and when an attempt and the
  timer of the deadline fall on the same millisecond the timer wins.
\<close>

section \<open>Errors and their classes\<close>

datatype backup_kind = Aead_auth_failed | Kdf_failed | Malformed_backup

datatype failure =
    Deadline_exceeded
  | Backup_error backup_kind
  | Type_error
  | Abort_error
  | Api_error nat
  | Other_error js_string

datatype failure_class = Transient | Wrong_password | Not_found | Permanent

definition isNetworkError :: "failure \<Rightarrow> bool" where
  "isNetworkError e \<longleftrightarrow> e = Type_error \<or> e = Abort_error"

definition classifyTransportFailure :: "failure \<Rightarrow> failure_class" where
  "classifyTransportFailure e =
     (case e of
        Deadline_exceeded \<Rightarrow> Transient
      | Backup_error k \<Rightarrow> if k = Aead_auth_failed then Wrong_password else Permanent
      | Api_error status \<Rightarrow>
          if status = 404 then Not_found
          else if status = 408 \<or> status = 425 \<or> status = 429 then Transient
          else if status \<ge> 500 then Transient
          else Permanent
      | _ \<Rightarrow> if isNetworkError e then Transient else Permanent)"

section \<open>The budget\<close>

definition FSCP_RESOLVE_DEADLINE_MS :: int where
  "FSCP_RESOLVE_DEADLINE_MS = 12000"

definition FSCP_RETRY_ATTEMPTS :: int where
  "FSCP_RETRY_ATTEMPTS = 3"

definition FSCP_RETRY_DELAYS_MS :: "int list" where
  "FSCP_RETRY_DELAYS_MS = [300, 900, 2500]"

text \<open>A deadline is the time it ends at.\<close>

definition createFscpDeadline :: "int \<Rightarrow> nat \<Rightarrow> nat" where
  "createFscpDeadline ms now = now + nat (max 0 ms)"

definition remainingMs :: "nat \<Rightarrow> nat \<Rightarrow> nat" where
  "remainingMs endsAt now = endsAt - now"

definition expired :: "nat \<Rightarrow> nat \<Rightarrow> bool" where
  "expired endsAt now \<longleftrightarrow> now \<ge> endsAt"

section \<open>One attempt\<close>

datatype 'a outcome = Returned 'a | Threw failure

text \<open>
  An attempt takes a number of milliseconds, or never settles. \<open>None\<close> as a result is a call that hangs.
\<close>

type_synonym 'a attempt = "nat option \<times> 'a outcome"

definition raceDeadline :: "nat option \<Rightarrow> nat \<Rightarrow> 'a attempt \<Rightarrow> (nat \<times> 'a outcome) option" where
  "raceDeadline deadline now a =
     (case deadline of
        None \<Rightarrow> (case fst a of None \<Rightarrow> None | Some t \<Rightarrow> Some (now + t, snd a))
      | Some endsAt \<Rightarrow>
          let remaining = remainingMs endsAt now
          in if remaining \<le> 0 then Some (now, Threw Deadline_exceeded)
             else case fst a of
                    Some t \<Rightarrow> if t < remaining then Some (now + t, snd a)
                              else Some (now + remaining, Threw Deadline_exceeded)
                  | None \<Rightarrow> Some (now + remaining, Threw Deadline_exceeded))"

text \<open>\<open>Math.round\<close> is \<open>\<lfloor>x + 1/2\<rfloor>\<close>; \<open>r\<close> is what \<open>Math.random()\<close> gives.\<close>

definition jitteredDelayMs :: "int \<Rightarrow> bool \<Rightarrow> rat \<Rightarrow> nat" where
  "jitteredDelayMs base jitter r =
     (if \<not> jitter \<or> base \<le> 0 then nat (max 0 base)
      else let spread = of_int base * (1 / 4)
           in nat (max 0 \<lfloor>of_int base - spread + r * spread * 2 + 1 / 2\<rfloor>))"

section \<open>The loop\<close>

record retry_options =
  ro_attempts :: int
  ro_delays :: "int list"
  ro_deadline :: "nat option"
  ro_jitter :: bool

definition default_options :: retry_options where
  "default_options =
     \<lparr>ro_attempts = FSCP_RETRY_ATTEMPTS, ro_delays = FSCP_RETRY_DELAYS_MS, ro_deadline = None, ro_jitter = True\<rparr>"

definition base_delay :: "retry_options \<Rightarrow> nat \<Rightarrow> int" where
  "base_delay o' attempt =
     (if ro_delays o' = [] then 0 else ro_delays o' ! min (attempt - 1) (length (ro_delays o') - 1))"

text \<open>What the caller gets and when, the times the attempts were started at, and the classes reported.\<close>

record 'a retry_result =
  rr_outcome :: "'a outcome"
  rr_time :: nat
  rr_started :: "nat list"
  rr_failed :: "failure_class list"

text \<open>
  The \<open>for\<close> loop with \<open>left\<close> attempts to go: \<open>fn k\<close> is the \<open>k\<close>-th call of the read, \<open>rnd k\<close> the random number
  drawn after it.
\<close>

fun retry_loop ::
  "retry_options \<Rightarrow> (nat \<Rightarrow> 'a attempt) \<Rightarrow> (nat \<Rightarrow> rat) \<Rightarrow> nat \<Rightarrow> nat \<Rightarrow> nat \<Rightarrow> failure option \<Rightarrow>
   'a retry_result option"
where
  "retry_loop o' fn rnd 0 attempt now lastError =
     Some \<lparr>rr_outcome = Threw (case lastError of None \<Rightarrow> Deadline_exceeded | Some e \<Rightarrow> e),
           rr_time = now, rr_started = [], rr_failed = []\<rparr>"
| "retry_loop o' fn rnd (Suc left) attempt now lastError =
     (if (case ro_deadline o' of None \<Rightarrow> False | Some d \<Rightarrow> expired d now)
      then Some \<lparr>rr_outcome = Threw (case lastError of None \<Rightarrow> Deadline_exceeded | Some e \<Rightarrow> e),
                 rr_time = now, rr_started = [], rr_failed = []\<rparr>
      else case raceDeadline (ro_deadline o') now (fn attempt) of
             None \<Rightarrow> None
           | Some (now', Returned v) \<Rightarrow>
               Some \<lparr>rr_outcome = Returned v, rr_time = now', rr_started = [now], rr_failed = []\<rparr>
           | Some (now', Threw e) \<Rightarrow>
               (let c = classifyTransportFailure e;
                    stop = Some \<lparr>rr_outcome = Threw e, rr_time = now', rr_started = [now], rr_failed = [c]\<rparr>;
                    delay = jitteredDelayMs (base_delay o' attempt) (ro_jitter o') (rnd attempt)
                in if c \<noteq> Transient then stop
                   else if left = 0 then stop
                   else if (case ro_deadline o' of None \<Rightarrow> False | Some d \<Rightarrow> delay \<ge> remainingMs d now') then stop
                   else map_option (\<lambda>r. r\<lparr>rr_started := now # rr_started r, rr_failed := c # rr_failed r\<rparr>)
                          (retry_loop o' fn rnd left (attempt + 1) (now' + delay) (Some e))))"

definition withFscpRetry ::
  "retry_options \<Rightarrow> (nat \<Rightarrow> 'a attempt) \<Rightarrow> (nat \<Rightarrow> rat) \<Rightarrow> nat \<Rightarrow> 'a retry_result option"
where
  "withFscpRetry o' fn rnd now = retry_loop o' fn rnd (nat (max 1 (ro_attempts o'))) 1 now None"

section \<open>What is returned\<close>

definition gives_up_on :: "'a outcome \<Rightarrow> bool" where
  "gives_up_on out = (case out of Returned v \<Rightarrow> True | Threw e \<Rightarrow> classifyTransportFailure e \<noteq> Transient)"

text \<open>The attempt that decides: the first that returned or failed for good, else the last.\<close>

fun decisive :: "(nat \<Rightarrow> 'a attempt) \<Rightarrow> nat \<Rightarrow> nat \<Rightarrow> nat" where
  "decisive fn 0 attempt = attempt"
| "decisive fn (Suc left) attempt =
     (if gives_up_on (snd (fn attempt)) \<or> left = 0 then attempt else decisive fn left (attempt + 1))"

lemma retry_loop_decides:
  assumes "ro_deadline o' = None" "\<forall>k. fst (fn k) \<noteq> None" "0 < left"
  shows "\<exists>r. retry_loop o' fn rnd left attempt now lastError = Some r \<and>
             rr_outcome r = snd (fn (decisive fn left attempt)) \<and>
             length (rr_started r) = decisive fn left attempt - attempt + 1 \<and> attempt \<le> decisive fn left attempt"
  using assms(3)
proof (induction left arbitrary: attempt now lastError)
  case (Suc left)
  obtain t where t: "fst (fn attempt) = Some t" using assms(2) by fastforce
  show ?case
  proof (cases "gives_up_on (snd (fn attempt)) \<or> left = 0")
    case True
    then show ?thesis
      using assms(1) t
      by (cases "snd (fn attempt)") (auto simp: raceDeadline_def gives_up_on_def Let_def)
  next
    case False
    then obtain e where e: "snd (fn attempt) = Threw e" "classifyTransportFailure e = Transient"
      by (auto simp: gives_up_on_def split: outcome.splits)
    let ?delay = "jitteredDelayMs (base_delay o' attempt) (ro_jitter o') (rnd attempt)"
    from False Suc.IH [of "attempt + 1" "now + t + ?delay" "Some e"] obtain r where
      "retry_loop o' fn rnd left (attempt + 1) (now + t + ?delay) (Some e) = Some r"
      "rr_outcome r = snd (fn (decisive fn left (attempt + 1)))"
      "length (rr_started r) = decisive fn left (attempt + 1) - (attempt + 1) + 1"
      "attempt + 1 \<le> decisive fn left (attempt + 1)"
      by auto
    with False e t assms(1) show ?thesis by (auto simp: raceDeadline_def Let_def)
  qed
qed simp

text \<open>Without a deadline, when every attempt settles, the decisive attempt alone counts.\<close>

lemma retry_without_deadline:
  assumes "ro_deadline o' = None" "\<forall>k. fst (fn k) \<noteq> None"
  shows "\<exists>r. withFscpRetry o' fn rnd now = Some r \<and>
             (let k = decisive fn (nat (max 1 (ro_attempts o'))) 1
              in rr_outcome r = snd (fn k) \<and> length (rr_started r) = k)"
proof -
  have "0 < nat (max 1 (ro_attempts o'))" by linarith
  from retry_loop_decides [OF assms this, of rnd 1 now None] show ?thesis
    by (auto simp: withFscpRetry_def Let_def)
qed

section \<open>Under a deadline\<close>

text \<open>
  What a result under the deadline \<open>d\<close> means, when \<open>left\<close> attempts are allowed, the first of them the \<open>a\<close>-th call of the
  read at the time \<open>now\<close>. Every attempt but the last was answered in time with a transient failure, and the next began
  after the delay that belongs to it. If the last was answered in time, its answer is the result, at the time it came, and if
  that is a transient failure too, no attempt was allowed any more or its delay would not have ended before the
  deadline. If it was not, the result is the failure of the deadline, at the deadline.
\<close>

definition retry_delay :: "retry_options \<Rightarrow> (nat \<Rightarrow> rat) \<Rightarrow> nat \<Rightarrow> nat" where
  "retry_delay o' rnd k = jitteredDelayMs (base_delay o' k) (ro_jitter o') (rnd k)"

definition transient :: "'a outcome \<Rightarrow> bool" where
  "transient out \<longleftrightarrow> \<not> gives_up_on out"

definition answered :: "nat \<Rightarrow> 'a attempt \<Rightarrow> nat \<Rightarrow> nat option" where
  "answered d x started = Option.bind (fst x) (\<lambda>t. if started + t < d then Some (started + t) else None)"

definition last_attempt ::
  "retry_options \<Rightarrow> (nat \<Rightarrow> 'a attempt) \<Rightarrow> (nat \<Rightarrow> rat) \<Rightarrow> nat \<Rightarrow> bool \<Rightarrow> nat \<Rightarrow> nat \<Rightarrow> 'a retry_result \<Rightarrow> bool"
where
  "last_attempt o' fn rnd d none_left c started r \<longleftrightarrow>
     (case answered d (fn c) started of
        Some t \<Rightarrow> rr_outcome r = snd (fn c) \<and> rr_time r = t \<and>
          (if transient (snd (fn c)) then none_left \<or> d \<le> t + retry_delay o' rnd c else True)
      | None \<Rightarrow> rr_outcome r = Threw Deadline_exceeded \<and> rr_time r = d)"

definition explained ::
  "retry_options \<Rightarrow> (nat \<Rightarrow> 'a attempt) \<Rightarrow> (nat \<Rightarrow> rat) \<Rightarrow> nat \<Rightarrow> nat \<Rightarrow> nat \<Rightarrow> nat \<Rightarrow> 'a retry_result \<Rightarrow> bool"
where
  "explained o' fn rnd d left a now r \<longleftrightarrow>
     (let ss = rr_started r; k = length ss in
      ss \<noteq> [] \<and> ss ! 0 = now \<and> k \<le> left \<and> (\<forall>s \<in> set ss. s < d) \<and> rr_time r \<le> d \<and>
      (\<forall>j < k - 1. transient (snd (fn (a + j))) \<and>
         answered d (fn (a + j)) (ss ! j) = Some (ss ! Suc j - retry_delay o' rnd (a + j)) \<and>
         retry_delay o' rnd (a + j) \<le> ss ! Suc j) \<and>
      last_attempt o' fn rnd d (k = left) (a + k - 1) (ss ! (k - 1)) r)"

lemma race_answered:
  "now < d \<Longrightarrow> raceDeadline (Some d) now x =
     (case answered d x now of Some t \<Rightarrow> Some (t, snd x) | None \<Rightarrow> Some (d, Threw Deadline_exceeded))"
  by (auto simp: raceDeadline_def remainingMs_def answered_def Let_def split: option.split)

lemma answered_in_time: "answered d x s = Some t \<Longrightarrow> t < d"
  by (auto simp: answered_def bind_eq_Some_conv split: if_splits)

lemma explained_once:
  assumes "now < d" "rr_started r = [now]" "0 < left"
    and "last_attempt o' fn rnd d (left = 1) a now r"
  shows "explained o' fn rnd d left a now r"
proof -
  have "rr_time r \<le> d" using assms(4) answered_in_time [of d "fn a" now]
    by (auto simp: last_attempt_def less_imp_le split: option.splits)
  moreover have "(1 = left) = (left = 1)" by auto
  ultimately show ?thesis using assms by (simp add: explained_def Let_def)
qed

lemma explained_more:
  assumes "now < d" "transient (snd (fn a))" "answered d (fn a) now = Some t"
    and "explained o' fn rnd d left (a + 1) (t + retry_delay o' rnd a) r"
    and "rr_started r' = now # rr_started r" "rr_outcome r' = rr_outcome r" "rr_time r' = rr_time r"
  shows "explained o' fn rnd d (Suc left) a now r'"
proof -
  let ?ss = "rr_started r"
  from assms(4) have e: "?ss \<noteq> []" "?ss ! 0 = t + retry_delay o' rnd a" by (simp_all add: explained_def Let_def)
  then obtain n where n: "length ?ss = Suc n" by (cases ?ss) auto
  have "transient (snd (fn (a + j))) \<and>
      answered d (fn (a + j)) ((now # ?ss) ! j) = Some ((now # ?ss) ! Suc j - retry_delay o' rnd (a + j)) \<and>
      retry_delay o' rnd (a + j) \<le> (now # ?ss) ! Suc j" if "j < Suc n" for j
  proof (cases j)
    case 0
    then show ?thesis using assms(2,3) e(2) by simp
  next
    case (Suc i)
    with that assms(4) n show ?thesis by (auto simp: explained_def Let_def)
  qed
  moreover have "last_attempt o' fn rnd d z c s r' = last_attempt o' fn rnd d z c s r" for z c s
    using assms(6,7) by (simp add: last_attempt_def split: option.split)
  ultimately show ?thesis using assms(1,4,5,7) n by (simp add: explained_def Let_def)
qed

lemma retry_loop_explained:
  assumes "ro_deadline o' = Some d"
  shows "now < d \<Longrightarrow> 0 < left \<Longrightarrow>
    \<exists>r. retry_loop o' fn rnd left a now lastError = Some r \<and> explained o' fn rnd d left a now r"
proof (induction left arbitrary: a now lastError)
  case (Suc left)
  note race = race_answered [OF Suc.prems(1), of "fn a"]
  have open_: "\<not> expired d now" using Suc.prems(1) by (simp add: expired_def)
  show ?case
  proof (cases "answered d (fn a) now")
    case None
    then show ?thesis using assms open_ race Suc.prems
      by (auto simp: Let_def classifyTransportFailure_def remainingMs_def last_attempt_def intro!: explained_once)
  next
    case (Some t)
    then have t: "t < d" by (rule answered_in_time)
    show ?thesis
    proof (cases "transient (snd (fn a)) \<and> left \<noteq> 0 \<and> t + retry_delay o' rnd a < d")
      case True
      then obtain e where e: "snd (fn a) = Threw e" "classifyTransportFailure e = Transient"
        by (auto simp: transient_def gives_up_on_def split: outcome.splits)
      let ?now = "t + retry_delay o' rnd a"
      obtain r where r: "retry_loop o' fn rnd left (a + 1) ?now (Some e) = Some r"
          "explained o' fn rnd d left (a + 1) ?now r"
        using Suc.IH [of ?now "a + 1" "Some e"] True by auto
      have time: "\<not> d - t \<le> retry_delay o' rnd a" using True by linarith
      let ?r = "r\<lparr>rr_started := now # rr_started r, rr_failed := Transient # rr_failed r\<rparr>"
      have "retry_loop o' fn rnd (Suc left) a now lastError = Some ?r"
        using assms open_ race Some e r(1) True time by (simp add: Let_def remainingMs_def retry_delay_def)
      moreover have "explained o' fn rnd d (Suc left) a now ?r"
        by (rule explained_more [OF Suc.prems(1) _ Some r(2)]) (use True in simp_all)
      ultimately show ?thesis by blast
    next
      case False
      then show ?thesis using assms open_ race Some t Suc.prems
        by (cases "snd (fn a)")
          (auto simp: Let_def remainingMs_def retry_delay_def transient_def gives_up_on_def last_attempt_def intro!: explained_once)
    qed
  qed
qed simp

text \<open>
  C35. A retried read under a deadline \<open>d\<close>, as every read of the key protocol is made, always settles, even when a
  request never answers, and its result is explained: started in time, it ends by the deadline after at most the
  allowed attempts with the answer of the last attempt made, which is the first that was no transient failure, or a transient
  one after which no attempt was left or none fitted in before the deadline; or it ends at the deadline with \<open>FscpDeadlineExceededError\<close>
  because the last attempt was not answered. Started at or after the deadline, it makes no attempt and gives that error at once.
\<close>

theorem retry_under_deadline:
  assumes "ro_deadline o' = Some d"
  shows "\<exists>r. withFscpRetry o' fn rnd now = Some r \<and>
    (if now < d then explained o' fn rnd d (nat (max 1 (ro_attempts o'))) 1 now r
     else rr_started r = [] \<and> rr_outcome r = Threw Deadline_exceeded \<and> rr_time r = now)"
proof (cases "now < d")
  case True
  have "0 < nat (max 1 (ro_attempts o'))" by linarith
  from retry_loop_explained [OF assms True this, of fn rnd 1 None] True show ?thesis by (simp add: withFscpRetry_def)
next
  case False
  obtain n where "nat (max 1 (ro_attempts o')) = Suc n" by (cases "nat (max 1 (ro_attempts o'))") auto
  with False assms show ?thesis by (simp add: withFscpRetry_def expired_def)
qed

text \<open>Jitter moves a delay by at most a quarter, up to rounding.\<close>

lemma jitter_quarter:
  assumes "0 \<le> r" "r < 1" "0 \<le> base"
  shows "\<bar>of_nat (jitteredDelayMs base jitter r) - of_int base\<bar> \<le> (of_int base / 4 + 1 / 2 :: rat)"
proof (cases "\<not> jitter \<or> base \<le> 0")
  case True
  with assms(3) show ?thesis by (auto simp: jitteredDelayMs_def)
next
  case False
  define x :: rat where "x = of_int base - of_int base * (1 / 4) + r * (of_int base * (1 / 4)) * 2 + 1 / 2"
  have b: "0 < (of_int base :: rat)" using False by simp
  have m: "0 \<le> r * of_int base" "r * of_int base \<le> of_int base"
    using assms b by (simp_all add: mult_le_cancel_right1)
  have lo: "of_int base * (3 / 4) + 1 / 2 \<le> x" and hi: "x \<le> of_int base * (5 / 4) + 1 / 2"
    using m by (simp_all add: x_def algebra_simps)
  have f: "of_int \<lfloor>x\<rfloor> \<le> x" "x < of_int \<lfloor>x\<rfloor> + 1" using floor_correct [of x] by simp_all
  have "0 < x" using lo b by linarith
  then have "0 \<le> \<lfloor>x\<rfloor>" by simp
  then have j: "of_nat (jitteredDelayMs base jitter r) = (of_int \<lfloor>x\<rfloor> :: rat)"
    using False by (simp add: jitteredDelayMs_def Let_def x_def)
  have "of_int \<lfloor>x\<rfloor> - of_int base \<le> (of_int base / 4 + 1 / 2 :: rat)" using f(1) hi by linarith
  moreover have "- (of_int base / 4 + 1 / 2 :: rat) \<le> of_int \<lfloor>x\<rfloor> - of_int base" using f(2) lo by linarith
  ultimately show ?thesis unfolding j by (simp add: abs_le_iff)
qed

section \<open>Concrete runs\<close>

definition flaky :: "nat \<Rightarrow> nat attempt" where
  "flaky k = (Some 100, if k = 1 then Threw Type_error else if k = 2 then Threw (Api_error 404) else Returned 7)"

definition silent :: "nat \<Rightarrow> nat attempt" where
  "silent k = (None, Returned 7)"

theorem retry_under_deadline_witness:
  "\<exists>r. withFscpRetry (default_options\<lparr>ro_deadline := Some 12000\<rparr>) silent (\<lambda>_. 0) 5 = Some r \<and>
     rr_outcome r = Threw Deadline_exceeded \<and> rr_time r = 12000 \<and> rr_started r = [5]"
proof -
  obtain r where r: "withFscpRetry (default_options\<lparr>ro_deadline := Some 12000\<rparr>) silent (\<lambda>_. 0) 5 = Some r"
      "explained (default_options\<lparr>ro_deadline := Some 12000\<rparr>) silent (\<lambda>_. 0) 12000 3 1 5 r"
    using retry_under_deadline [of "default_options\<lparr>ro_deadline := Some 12000\<rparr>" 12000 silent "\<lambda>_. 0" 5]
    by (auto simp: default_options_def FSCP_RETRY_ATTEMPTS_def)
  have "answered 12000 (silent k) s = None" for k s by (simp add: answered_def silent_def)
  then have "rr_outcome r = Threw Deadline_exceeded \<and> rr_time r = 12000 \<and> length (rr_started r) = 1 \<and> rr_started r ! 0 = 5"
    using r(2) by (cases "rr_started r") (auto simp: explained_def Let_def last_attempt_def)
  then have "rr_outcome r = Threw Deadline_exceeded \<and> rr_time r = 12000 \<and> rr_started r = [5]"
    by (cases "rr_started r") auto
  with r(1) show ?thesis by blast
qed

lemma retry_stops_on_answer:
  "\<exists>r. withFscpRetry default_options flaky (\<lambda>_. 0) 0 = Some r \<and> rr_outcome r = Threw (Api_error 404) \<and>
       length (rr_started r) = 2"
proof -
  have d: "decisive flaky (nat (max 1 (ro_attempts default_options))) 1 = 2"
    by (simp add: default_options_def FSCP_RETRY_ATTEMPTS_def numeral_eq_Suc flaky_def gives_up_on_def
        classifyTransportFailure_def isNetworkError_def)
  have "ro_deadline default_options = None" "\<forall>k. fst (flaky k) \<noteq> None" by (simp_all add: default_options_def flaky_def)
  note res = retry_without_deadline [OF this, of "\<lambda>_. 0" 0]
  have "snd (flaky 2) = Threw (Api_error 404)" by (simp add: flaky_def)
  with res show ?thesis unfolding d Let_def by auto
qed

end
