(* ===== verification/Fscp_Backup.thy ===== *)
theory Fscp_Backup
  imports Fscp_Envelope Fscp_Retry Json_Read
begin

unbundle bit_operations_syntax

text \<open>
  Password backups of the account keys (\<open>products/FSCP/ts/src/keyBackup.ts\<close>): the payload that the server keeps,
  its encryption under a key derived from the password, and the classes of what may be wrong with it. The
  derivation (Argon2id, \<open>deriveKeyArgon2id\<close>) is a parameter.
\<close>

section \<open>Payload\<close>

text \<open>\<open>from_base64\<close> of the library, and \<open>deriveKeyArgon2id\<close> on password, salt, memory, iterations and length.\<close>

record key_library =
  kl_sodium :: sodium
  kl_from_base64 :: "js_string \<Rightarrow> bytes option"
  deriveKeyArgon2id :: "bytes \<Rightarrow> bytes \<Rightarrow> json \<Rightarrow> json \<Rightarrow> nat \<Rightarrow> bytes option"

record key_backup =
  kb_revision :: json
  kb_keyId :: js_string
  kb_user :: js_string
  kb_epoch :: js_string
  kb_setRevision :: json
  kb_setHash :: js_string
  kb_memory :: json
  kb_iterations :: json
  kb_salt :: js_string
  kb_nonce :: js_string
  kb_cipher :: js_string

fun read_num :: "json_record \<Rightarrow> js_string list \<Rightarrow> json option" where
  "read_num o' [] = None"
| "read_num o' (k # ks) =
     (case map_of o' k of Some v \<Rightarrow> if is_number v then Some v else read_num o' ks | None \<Rightarrow> read_num o' ks)"

definition num_or :: "json \<Rightarrow> json option \<Rightarrow> json" where
  "num_or d v = (case v of Some n \<Rightarrow> n | None \<Rightarrow> d)"

definition readUuidField :: "json_record \<Rightarrow> js_string list \<Rightarrow> js_string" where
  "readUuidField o' ks = trim (read_str o' ks)"

text \<open>\<open>None\<close> is the error thrown; the version and the parallelism that are read are not used.\<close>

definition parseKeyBackupPayload :: "json \<Rightarrow> key_backup option" where
  "parseKeyBackupPayload raw =
     Option.bind (as_record raw) (\<lambda>o'.
     Option.bind (Option.bind (coalesce o' (js ''kdf'') (js ''Kdf'')) as_record) (\<lambda>kdf.
     Option.bind (Option.bind (coalesce o' (js ''aead'') (js ''Aead'')) as_record) (\<lambda>aead.
     let user = readUuidField o' [js ''userUuid'', js ''UserUuid''];
         keyId = readUuidField o' [js ''backupKeyId'', js ''BackupKeyId''];
         epoch = readUuidField o' [js ''primaryKeyEpochId'', js ''PrimaryKeyEpochId''];
         salt = read_str kdf [js ''saltBase64Url'', js ''SaltBase64Url''];
         nonce = read_str aead [js ''nonceBase64Url'', js ''NonceBase64Url''];
         cipher = read_str o' [js ''ciphertextBase64Url'', js ''CiphertextBase64Url''];
         setHash = read_str o' [js ''epochSetHashBase64Url'', js ''EpochSetHashBase64Url'']
     in if user = [] \<or> keyId = [] \<or> epoch = [] \<or> salt = [] \<or> nonce = [] \<or> cipher = [] \<or> setHash = [] then None
        else Some \<lparr>kb_revision = num_or (JInt 0) (read_num o' [js ''backupRevision'', js ''BackupRevision'']),
               kb_keyId = keyId, kb_user = user, kb_epoch = epoch,
               kb_setRevision = num_or (JInt 0) (read_num o' [js ''epochSetRevision'', js ''EpochSetRevision'']),
               kb_setHash = setHash,
               kb_memory = num_or (JInt 0) (read_num kdf [js ''memoryKiB'', js ''MemoryKiB'']),
               kb_iterations = num_or (JInt 0) (read_num kdf [js ''iterations'', js ''Iterations'']),
               kb_salt = salt, kb_nonce = nonce, kb_cipher = cipher\<rparr>)))"

text \<open>The object that \<open>createKeyBackup\<close> returns and the client sends.\<close>

definition key_backup_json :: "key_backup \<Rightarrow> json" where
  "key_backup_json b =
     JObj [(js ''version'', JInt 1), (js ''backupRevision'', kb_revision b), (js ''backupKeyId'', JStr (kb_keyId b)),
       (js ''userUuid'', JStr (kb_user b)), (js ''primaryKeyEpochId'', JStr (kb_epoch b)),
       (js ''epochSetRevision'', kb_setRevision b), (js ''epochSetHashBase64Url'', JStr (kb_setHash b)),
       (js ''kdf'', JObj [(js ''name'', JStr (js ''argon2id'')), (js ''memoryKiB'', kb_memory b),
          (js ''iterations'', kb_iterations b), (js ''parallelism'', JInt 1), (js ''saltBase64Url'', JStr (kb_salt b))]),
       (js ''aead'', aead_json (kb_nonce b)), (js ''ciphertextBase64Url'', JStr (kb_cipher b))]"

section \<open>The commitment to the epochs\<close>

text \<open>
  What may be thrown while a backup is decrypted: a typed error, a bare \<open>TypeError\<close>, or (the model only) a number
  whose text the model does not know.
\<close>

datatype backup_error = Backup_failed backup_kind | Backup_type_error | Backup_number_unknown

definition epoch_fields :: "js_string list" where
  "epoch_fields = [js ''keyEpochId'', js ''status'', js ''epochAccountIdentityPublicKeyBase64Url'']"

text \<open>The three members of an epoch, those that are there; any value but \<open>null\<close> can be asked for members.\<close>

definition epoch_view :: "json \<Rightarrow> json option" where
  "epoch_view e =
     (case e of
        JNull \<Rightarrow> None
      | JObj ms \<Rightarrow> Some (JObj (List.map_filter (\<lambda>k. map_option (Pair k) (map_of ms k)) epoch_fields))
      | _ \<Rightarrow> Some (JObj []))"

definition computeEpochSetHash :: "(bytes \<Rightarrow> bytes) \<Rightarrow> json list \<Rightarrow> backup_error + js_string" where
  "computeEpochSetHash sha256 epochs =
     bindE (mapE (\<lambda>e. optE Backup_type_error (epoch_view e)) epochs) (\<lambda>views.
     bindE (optE Backup_number_unknown (stringify (JArr views))) (\<lambda>t.
     Inr (toBase64Url (sha256 (utf8_encode t)))))"

definition constantTimeEqual :: "bytes \<Rightarrow> bytes \<Rightarrow> bool" where
  "constantTimeEqual a b \<longleftrightarrow> length a = length b \<and> fold (\<lambda>(x, y) d. d OR (x XOR y)) (zip a b) 0 = 0"

definition assertEpochSetIntegrity :: "(bytes \<Rightarrow> bytes) \<Rightarrow> json \<Rightarrow> js_string \<Rightarrow> js_string \<Rightarrow> backup_error + unit" where
  "assertEpochSetIntegrity sha256 plaintext expectedHash expectedEpoch =
     (case plaintext of
        JNull \<Rightarrow> Inl Backup_type_error
      | JObj ms \<Rightarrow>
          if map_of ms (js ''primaryKeyEpochId'') \<noteq> Some (JStr expectedEpoch) then Inl (Backup_failed Malformed_backup)
          else (case map_of ms (js ''keyEpochs'') of
                  Some (JArr epochs) \<Rightarrow>
                    bindE (computeEpochSetHash sha256 epochs) (\<lambda>h.
                      guardE (constantTimeEqual (utf8_encode h) (utf8_encode expectedHash)) (Backup_failed Malformed_backup))
                | _ \<Rightarrow> Inl (Backup_failed Malformed_backup))
      | _ \<Rightarrow> Inl (Backup_failed Malformed_backup))"

section \<open>Sealing and opening\<close>

text \<open>\<open>String(n)\<close>, known for integers that a double keeps exactly.\<close>

fun num_text :: "json \<Rightarrow> js_string option" where
  "num_text (JInt n) = (if isSafeInteger n then Some (int_text n) else None)"
| "num_text _ = None"

definition buildKeyBackupAad :: "key_backup \<Rightarrow> js_string option" where
  "buildKeyBackupAad b =
     (case (num_text (kb_revision b), num_text (kb_setRevision b)) of
        (Some r, Some s) \<Rightarrow>
          Some (join_bar [js ''flora.messaging.key-backup.v1'', kb_user b, r, kb_keyId b, kb_epoch b, s, kb_setHash b, kb_salt b])
      | _ \<Rightarrow> None)"

record key_epoch =
  ke_id :: js_string
  ke_status :: js_string
  ke_root :: js_string
  ke_private :: js_string
  ke_public :: js_string
  ke_conversations :: "json list"

record backup_plaintext =
  bt_primary :: js_string
  bt_epochs :: "key_epoch list"

definition epoch_json :: "key_epoch \<Rightarrow> json" where
  "epoch_json e =
     JObj [(js ''keyEpochId'', JStr (ke_id e)), (js ''status'', JStr (ke_status e)), (js ''rootKeyBase64Url'', JStr (ke_root e)),
       (js ''epochAccountIdentityPrivateKeyBase64Url'', JStr (ke_private e)),
       (js ''epochAccountIdentityPublicKeyBase64Url'', JStr (ke_public e)),
       (js ''conversationKeyBackups'', JArr (ke_conversations e))]"

definition backup_plaintext_json :: "backup_plaintext \<Rightarrow> json" where
  "backup_plaintext_json p =
     JObj [(js ''primaryKeyEpochId'', JStr (bt_primary p)), (js ''keyEpochs'', JArr (map epoch_json (bt_epochs p)))]"

text \<open>\<open>None\<close> is an exception of the library.\<close>

definition bootstrapPlaintextFromLocalMaterial :: "sodium \<Rightarrow> bytes \<Rightarrow> bytes \<Rightarrow> backup_plaintext option" where
  "bootstrapPlaintextFromLocalMaterial so agreementKey signingKey =
     map_option (\<lambda>agPub.
         \<lparr>bt_primary = FSCP_BOOTSTRAP_KEY_EPOCH_ID, bt_epochs =
           [\<lparr>ke_id = FSCP_BOOTSTRAP_KEY_EPOCH_ID, ke_status = js ''active'', ke_root = sd_base64 so (take 32 agreementKey),
             ke_private = sd_base64 so signingKey,
             ke_public = sd_base64 so (if 64 \<le> length signingKey then take 32 (drop 32 signingKey) else take 32 signingKey),
             ke_conversations = []\<rparr>]\<rparr>)
       (scalarmultBase so (take 32 agreementKey))"

text \<open>
  The salt and the nonce are drawn, memory and iterations are the defaults; \<open>None\<close> is an exception of the
  library (or a number whose text is unknown).
\<close>

definition createKeyBackup ::
  "key_library \<Rightarrow> js_string \<Rightarrow> js_string \<Rightarrow> backup_plaintext \<Rightarrow> int \<Rightarrow> int \<Rightarrow> js_string \<Rightarrow> bytes \<Rightarrow> bytes \<Rightarrow> key_backup option"
where
  "createKeyBackup lib user password plaintext revision setRevision keyId salt nonce =
     (let so = kl_sodium lib; b64 = sd_base64 so in
     Option.bind (deriveKeyArgon2id lib (utf8_encode password) salt (JInt 65536) (JInt 3) 32) (\<lambda>wrapKey.
     case computeEpochSetHash (sha_256 so) (map epoch_json (bt_epochs plaintext)) of
       Inl _ \<Rightarrow> None
     | Inr setHash \<Rightarrow>
         let b = \<lparr>kb_revision = JInt revision, kb_keyId = keyId, kb_user = user, kb_epoch = bt_primary plaintext,
               kb_setRevision = JInt setRevision, kb_setHash = setHash, kb_memory = JInt 65536, kb_iterations = JInt 3,
               kb_salt = b64 salt, kb_nonce = b64 nonce, kb_cipher = []\<rparr>
         in Option.bind (buildKeyBackupAad b) (\<lambda>aad.
            Option.bind (stringify (backup_plaintext_json plaintext)) (\<lambda>t.
            map_option (\<lambda>c. b\<lparr>kb_cipher := b64 c\<rparr>) (sd_seal so (utf8_encode t) aad nonce wrapKey)))))"

text \<open>
  A failing decoder or cipher is an authentication failure, whatever the library says. (The test of the
  exception's text for the words of the parser is left out: the library does not write them.)
\<close>

definition decryptKeyBackup :: "key_library \<Rightarrow> key_backup \<Rightarrow> js_string \<Rightarrow> backup_error + json" where
  "decryptKeyBackup lib payload password =
     (let so = kl_sodium lib in
     bindE (optE (Backup_failed Kdf_failed) (Option.bind (kl_from_base64 lib (kb_salt payload)) (\<lambda>salt.
       deriveKeyArgon2id lib (utf8_encode password) salt (kb_memory payload) (kb_iterations payload) 32))) (\<lambda>wrapKey.
     bindE (optE Backup_number_unknown (buildKeyBackupAad payload)) (\<lambda>aad.
     bindE (optE (Backup_failed Aead_auth_failed) (case (kl_from_base64 lib (kb_cipher payload), kl_from_base64 lib (kb_nonce payload)) of
         (Some c, Some n) \<Rightarrow> sd_open so c aad n wrapKey
       | _ \<Rightarrow> None)) (\<lambda>plain.
     bindE (optE (Backup_failed Malformed_backup) (parse_json (text_decode plain))) (\<lambda>plaintext.
     bindE (assertEpochSetIntegrity (sha_256 so) plaintext (kb_setHash payload) (kb_epoch payload)) (\<lambda>_.
     Inr plaintext))))))"

datatype backup_state = Healthy | Missing | Unreadable | Malformed_state | Kdf_unavailable

text \<open>The state of a backup that was read; \<open>None\<close> when it depends on a number whose text is unknown.\<close>

definition classifyKeyBackup :: "key_library \<Rightarrow> json \<Rightarrow> js_string \<Rightarrow> backup_state option" where
  "classifyKeyBackup lib raw password =
     (case parseKeyBackupPayload raw of
        None \<Rightarrow> Some Malformed_state
      | Some payload \<Rightarrow>
          (case decryptKeyBackup lib payload password of
             Inr plaintext \<Rightarrow> Some Healthy
           | Inl (Backup_failed Kdf_failed) \<Rightarrow> Some Kdf_unavailable
           | Inl (Backup_failed Malformed_backup) \<Rightarrow> Some Malformed_state
           | Inl (Backup_failed Aead_auth_failed) \<Rightarrow> Some Unreadable
           | Inl Backup_type_error \<Rightarrow> Some Unreadable
           | Inl Backup_number_unknown \<Rightarrow> None))"

text \<open>\<open>None\<close> stands for every exception here: the caller treats them alike.\<close>

fun find_epoch :: "js_string \<Rightarrow> json list \<Rightarrow> json_record option" where
  "find_epoch k [] = None"
| "find_epoch k (JNull # es) = None"
| "find_epoch k (JObj ms # es) = (if map_of ms (js ''keyEpochId'') = Some (JStr k) then Some ms else find_epoch k es)"
| "find_epoch k (_ # es) = find_epoch k es"

definition restoreLocalMaterialFromBackupPlaintext :: "json \<Rightarrow> (bytes \<times> bytes) option" where
  "restoreLocalMaterialFromBackupPlaintext plaintext =
     Option.bind (as_record plaintext) (\<lambda>ms.
     case (str_member ms (js ''primaryKeyEpochId''), map_of ms (js ''keyEpochs'')) of
       (Some k, Some (JArr es)) \<Rightarrow>
         Option.bind (find_epoch k es) (\<lambda>e.
         case (bytes_member e (js ''rootKeyBase64Url''), bytes_member e (js ''epochAccountIdentityPrivateKeyBase64Url'')) of
           (Some a, Some s) \<Rightarrow> Some (a, s)
         | _ \<Rightarrow> None)
     | _ \<Rightarrow> None)"

section \<open>The comparison of hashes\<close>

lemma or_fold_zero: "fold (\<lambda>(x, y) d. d OR (x XOR y)) ps d = (0 :: byte) \<longleftrightarrow> d = 0 \<and> (\<forall>(x, y) \<in> set ps. x = y)"
proof (induction ps arbitrary: d)
  case (Cons p ps)
  obtain x y where p: "p = (x, y)" by fastforce
  have "d OR (x XOR y) = 0 \<longleftrightarrow> d = 0 \<and> x = y" by (simp add: or_eq_0_iff xor_self_eq) (metis xor.left_neutral xor.assoc xor_self_eq)
  with Cons p show ?case by auto
qed simp

lemma constantTimeEqual_iff [simp]: "constantTimeEqual a b \<longleftrightarrow> a = b"
proof -
  have "length a = length b \<Longrightarrow> (\<forall>(x, y) \<in> set (zip a b). x = y) \<longleftrightarrow> a = b"
    by (induction a b rule: list_induct2) auto
  then show ?thesis by (auto simp: constantTimeEqual_def or_fold_zero)
qed

section \<open>A backup gives the keys back\<close>

definition key_library_laws :: "key_library \<Rightarrow> bool" where
  "key_library_laws lib \<longleftrightarrow>
     crypto_laws (kl_sodium lib) \<and> (\<forall>b. kl_from_base64 lib (toBase64Url b) = Some b) \<and>
     (\<forall>p s m i. \<exists>k. deriveKeyArgon2id lib p s m i 32 = Some k \<and> length k = 32) \<and>
     (\<forall>b. length (sha_256 (kl_sodium lib) b) = 32) \<and>
     (\<forall>m l n k c. sd_seal (kl_sodium lib) m l n k = Some c \<longrightarrow> length c = length m + 16)"

lemma epoch_view_json:
  "epoch_view (epoch_json e) =
     Some (JObj [(js ''keyEpochId'', JStr (ke_id e)), (js ''status'', JStr (ke_status e)),
       (js ''epochAccountIdentityPublicKeyBase64Url'', JStr (ke_public e))])"
  by (simp add: epoch_view_def epoch_json_def epoch_fields_def List.map_filter_def)

lemma epoch_hash_total: "\<exists>t. computeEpochSetHash f (map epoch_json es) = Inr (toBase64Url (f (utf8_encode t)))"
proof -
  have m: "\<exists>vs. mapE (\<lambda>e. optE Backup_type_error (epoch_view e)) (map epoch_json es) = Inr vs \<and> (\<forall>v \<in> set vs. no_fraction v)"
    by (induction es) (auto simp: epoch_view_json)
  then obtain vs where "mapE (\<lambda>e. optE Backup_type_error (epoch_view e)) (map epoch_json es) = Inr vs" "no_fraction (JArr vs)"
    by auto
  moreover obtain t where "stringify (JArr vs) = Some t" using stringify_total [OF calculation(2)] by blast
  ultimately show ?thesis by (auto simp: computeEpochSetHash_def simp del: stringify.simps)
qed

lemma epoch_json_ok:
  assumes "is_js_string (ke_id e)" "is_js_string (ke_status e)" "is_js_string (ke_root e)" "is_js_string (ke_private e)"
    "is_js_string (ke_public e)" "ke_conversations e = []"
  shows "json_ok (epoch_json e) \<and> no_fraction (epoch_json e)"
  using assms by (simp add: epoch_json_def is_js_string_literal)

definition own_plaintext :: "js_string \<Rightarrow> bytes \<Rightarrow> bytes \<Rightarrow> bytes \<Rightarrow> backup_plaintext" where
  "own_plaintext status agreementKey signingKey signPub =
     \<lparr>bt_primary = FSCP_BOOTSTRAP_KEY_EPOCH_ID, bt_epochs =
       [\<lparr>ke_id = FSCP_BOOTSTRAP_KEY_EPOCH_ID, ke_status = status, ke_root = toBase64Url agreementKey,
         ke_private = toBase64Url signingKey, ke_public = toBase64Url signPub, ke_conversations = []\<rparr>]\<rparr>"

lemma own_plaintext_ok:
  assumes "is_js_string status"
  shows "json_ok (backup_plaintext_json (own_plaintext status a s p))" "no_fraction (backup_plaintext_json (own_plaintext status a s p))"
  using assms
  by (simp_all add: backup_plaintext_json_def own_plaintext_def epoch_json_def is_js_string_literal FSCP_BOOTSTRAP_KEY_EPOCH_ID_def)

lemma own_plaintext_restores:
  "restoreLocalMaterialFromBackupPlaintext (backup_plaintext_json (own_plaintext status a s p)) = Some (a, s)"
  by (simp add: restoreLocalMaterialFromBackupPlaintext_def backup_plaintext_json_def own_plaintext_def epoch_json_def str_member_def
      bytes_member_def)

lemma bootstrap_plaintext:
  assumes "crypto_laws so" "length agreementKey = 32"
  shows "\<exists>p. bootstrapPlaintextFromLocalMaterial so agreementKey signingKey = Some (own_plaintext (js ''active'') agreementKey signingKey p)"
proof -
  obtain pub where "scalarmultBase so agreementKey = Some pub" using assms unfolding crypto_laws_def by blast
  then show ?thesis using assms
    by (simp add: bootstrapPlaintextFromLocalMaterial_def own_plaintext_def crypto_laws_def) (metis)
qed

lemma payload_reads:
  assumes "kb_user b \<noteq> []" "trim (kb_user b) = kb_user b" "kb_keyId b \<noteq> []" "trim (kb_keyId b) = kb_keyId b" "kb_epoch b \<noteq> []"
    "trim (kb_epoch b) = kb_epoch b" "kb_setHash b \<noteq> []" "kb_salt b \<noteq> []" "kb_nonce b \<noteq> []" "kb_cipher b \<noteq> []"
    and "is_number (kb_revision b)" "is_number (kb_setRevision b)" "is_number (kb_memory b)" "is_number (kb_iterations b)"
  shows "parseKeyBackupPayload (key_backup_json b) = Some b"
  using assms
  by (simp add: parseKeyBackupPayload_def key_backup_json_def coalesce_def readUuidField_def aead_json_def num_or_def Let_def
      split: json.split)

lemma aad_cipher: "buildKeyBackupAad (b\<lparr>kb_cipher := c\<rparr>) = buildKeyBackupAad b"
  by (simp add: buildKeyBackupAad_def split: option.split)

text \<open>Who a backup is for, and what is drawn for it.\<close>

definition backup_name_ok :: "js_string \<Rightarrow> bool" where
  "backup_name_ok s \<longleftrightarrow> s \<noteq> [] \<and> trim s = s"

lemma hash_of_own:
  assumes "key_library_laws lib"
  shows "\<exists>h. computeEpochSetHash (sha_256 (kl_sodium lib)) (map epoch_json es) = Inr h \<and> h \<noteq> []"
proof -
  obtain t where "computeEpochSetHash (sha_256 (kl_sodium lib)) (map epoch_json es) = Inr (toBase64Url (sha_256 (kl_sodium lib) (utf8_encode t)))"
    using epoch_hash_total by blast
  moreover have "sha_256 (kl_sodium lib) (utf8_encode t) \<noteq> []"
    using assms by (metis key_library_laws_def list.size(3) zero_neq_numeral)
  ultimately show ?thesis by auto
qed

text \<open>
  C39. A backup is a way back to the keys: what is sealed with a password under the identity of its owner is read
  from the server's JSON, is healthy under the same password, and restores the two private keys bit by bit.
\<close>

theorem backup_restores_keys:
  assumes "key_library_laws lib" "length agreementKey = 32" "backup_name_ok user" "backup_name_ok keyId"
    and "isSafeInteger revision" "salt \<noteq> []" "length nonce = 24"
  shows "\<exists>plaintext b p.
    bootstrapPlaintextFromLocalMaterial (kl_sodium lib) agreementKey signingKey = Some plaintext \<and>
    createKeyBackup lib user password plaintext revision 1 keyId salt nonce = Some b \<and>
    parseKeyBackupPayload (key_backup_json b) = Some b \<and>
    classifyKeyBackup lib (key_backup_json b) password = Some Healthy \<and>
    decryptKeyBackup lib b password = Inr p \<and> restoreLocalMaterialFromBackupPlaintext p = Some (agreementKey, signingKey)"
proof -
  let ?so = "kl_sodium lib"
  have laws: "crypto_laws ?so" and un: "kl_from_base64 lib (toBase64Url x) = Some x" for x
    using assms(1) by (simp_all add: key_library_laws_def)
  have b64: "sd_base64 ?so = toBase64Url" using laws by (simp add: crypto_laws_def)
  obtain pub where plain: "bootstrapPlaintextFromLocalMaterial ?so agreementKey signingKey = Some (own_plaintext (js ''active'') agreementKey signingKey pub)"
    using bootstrap_plaintext [OF laws assms(2)] by blast
  define pt where "pt = own_plaintext (js ''active'') agreementKey signingKey pub"
  have ok: "json_ok (backup_plaintext_json pt)" "no_fraction (backup_plaintext_json pt)"
    unfolding pt_def by (rule own_plaintext_ok, simp add: is_js_string_literal)+
  obtain ms where ms: "backup_plaintext_json pt = JObj ms" by (simp add: backup_plaintext_json_def)
  obtain t where t: "stringify (backup_plaintext_json pt) = Some t" using stringify_total [OF ok(2)] by blast
  obtain h where h: "computeEpochSetHash (sha_256 ?so) (map epoch_json (bt_epochs pt)) = Inr h" "h \<noteq> []"
    using hash_of_own [OF assms(1)] by blast
  obtain k where k: "deriveKeyArgon2id lib (utf8_encode password) salt (JInt 65536) (JInt 3) 32 = Some k" "length k = 32"
    using assms(1) unfolding key_library_laws_def by blast
  define b0 where "b0 = \<lparr>kb_revision = JInt revision, kb_keyId = keyId, kb_user = user, kb_epoch = bt_primary pt,
    kb_setRevision = JInt 1, kb_setHash = h, kb_memory = JInt 65536, kb_iterations = JInt 3,
    kb_salt = toBase64Url salt, kb_nonce = toBase64Url nonce, kb_cipher = []\<rparr>"
  obtain aad where aad: "buildKeyBackupAad b0 = Some aad"
    using assms(5) by (simp add: buildKeyBackupAad_def b0_def isSafeInteger_def max_safe_int_def)
  obtain c where c: "sd_seal ?so (utf8_encode t) aad nonce k = Some c" "sd_open ?so c aad nonce k = Some (utf8_encode t)"
    using laws assms(7) k(2) unfolding crypto_laws_def by blast
  have cne: "c \<noteq> []" using assms(1) c(1) by (fastforce simp: key_library_laws_def)
  define b where "b = b0\<lparr>kb_cipher := toBase64Url c\<rparr>"
  have created: "createKeyBackup lib user password pt revision 1 keyId salt nonce = Some b"
    using k(1) h(1) aad t c(1) by (simp add: createKeyBackup_def Let_def b64 b_def b0_def)
  have aad': "buildKeyBackupAad b = Some aad" using aad by (simp add: b_def aad_cipher)
  have "FSCP_BOOTSTRAP_KEY_EPOCH_ID \<noteq> [] \<and> trim FSCP_BOOTSTRAP_KEY_EPOCH_ID = FSCP_BOOTSTRAP_KEY_EPOCH_ID"
    by (simp add: FSCP_BOOTSTRAP_KEY_EPOCH_ID_def trim_def is_space_unit_def)
  then have epoch: "bt_primary pt \<noteq> [] \<and> trim (bt_primary pt) = bt_primary pt" by (simp add: pt_def own_plaintext_def)
  have "nonce \<noteq> []" using assms(7) by auto
  then have parsed: "parseKeyBackupPayload (key_backup_json b) = Some b"
    using assms(3,4,6) epoch h(2) cne by (intro payload_reads) (auto simp: b_def b0_def backup_name_ok_def)
  have reread: "parse_json (text_decode (utf8_encode t)) = Some (backup_plaintext_json pt)"
    using parse_object_bytes ok(1) t unfolding ms by blast
  have whole: "assertEpochSetIntegrity (sha_256 ?so) (backup_plaintext_json pt) (kb_setHash b) (kb_epoch b) = Inr ()"
    using h(1) by (simp add: assertEpochSetIntegrity_def backup_plaintext_json_def b_def b0_def)
  have decrypted: "decryptKeyBackup lib b password = Inr (backup_plaintext_json pt)"
  proof -
    have f: "kb_salt b = toBase64Url salt" "kb_nonce b = toBase64Url nonce" "kb_cipher b = toBase64Url c"
      "kb_memory b = JInt 65536" "kb_iterations b = JInt 3" by (simp_all add: b_def b0_def)
    show ?thesis by (simp add: decryptKeyBackup_def Let_def f un k(1) aad' c(2) reread whole)
  qed
  have "classifyKeyBackup lib (key_backup_json b) password = Some Healthy"
    by (simp add: classifyKeyBackup_def parsed decrypted)
  then show ?thesis using plain created parsed decrypted own_plaintext_restores unfolding pt_def by blast
qed

lemma backup_is_created:
  assumes "key_library_laws lib" "length agreementKey = 32" "isSafeInteger revision" "length nonce = 24"
  shows "\<exists>p b. bootstrapPlaintextFromLocalMaterial (kl_sodium lib) agreementKey signingKey = Some p \<and>
    createKeyBackup lib user password p revision 1 keyId salt nonce = Some b"
proof -
  let ?so = "kl_sodium lib"
  have laws: "crypto_laws ?so" using assms(1) by (simp add: key_library_laws_def)
  obtain pub where plain: "bootstrapPlaintextFromLocalMaterial ?so agreementKey signingKey = Some (own_plaintext (js ''active'') agreementKey signingKey pub)"
    using bootstrap_plaintext [OF laws assms(2)] by blast
  define pt where "pt = own_plaintext (js ''active'') agreementKey signingKey pub"
  have "no_fraction (backup_plaintext_json pt)"
    unfolding pt_def by (rule own_plaintext_ok, simp add: is_js_string_literal)
  then obtain t where t: "stringify (backup_plaintext_json pt) = Some t" using stringify_total by blast
  obtain h where h: "computeEpochSetHash (sha_256 ?so) (map epoch_json (bt_epochs pt)) = Inr h"
    using hash_of_own [OF assms(1)] by blast
  obtain k where k: "deriveKeyArgon2id lib (utf8_encode password) salt (JInt 65536) (JInt 3) 32 = Some k" "length k = 32"
    using assms(1) unfolding key_library_laws_def by blast
  define b0 where "b0 = \<lparr>kb_revision = JInt revision, kb_keyId = keyId, kb_user = user, kb_epoch = bt_primary pt,
    kb_setRevision = JInt 1, kb_setHash = h, kb_memory = JInt 65536, kb_iterations = JInt 3,
    kb_salt = sd_base64 ?so salt, kb_nonce = sd_base64 ?so nonce, kb_cipher = []\<rparr>"
  obtain aad where aad: "buildKeyBackupAad b0 = Some aad"
    using assms(3) by (simp add: buildKeyBackupAad_def b0_def isSafeInteger_def max_safe_int_def)
  obtain c where c: "sd_seal ?so (utf8_encode t) aad nonce k = Some c" using laws assms(4) k(2) unfolding crypto_laws_def by blast
  have "createKeyBackup lib user password pt revision 1 keyId salt nonce = Some (b0\<lparr>kb_cipher := sd_base64 ?so c\<rparr>)"
    using k(1) h aad t c by (simp add: createKeyBackup_def Let_def b0_def)
  then show ?thesis using plain unfolding pt_def by blast
qed

definition toy_library :: key_library where
  "toy_library =
     \<lparr>kl_sodium = toy_sodium\<lparr>sd_seal := (\<lambda>m l n k. Some (replicate 16 0 @ m)), sd_open := (\<lambda>c l n k. Some (drop 16 c))\<rparr>,
      kl_from_base64 = fromBase64Url, deriveKeyArgon2id = (\<lambda>p s m i n. Some (replicate n 0))\<rparr>"

lemma toy_library_laws: "key_library_laws toy_library"
proof -
  have "crypto_laws (kl_sodium toy_library)"
    using map2_add_comm
    by (auto simp: crypto_laws_def toy_library_def toy_sodium_def scalarmult_def scalarmultBase_def Let_def is_js_string_literal)
  then show ?thesis by (auto simp: key_library_laws_def toy_library_def toy_sodium_def)
qed

theorem backup_restores_keys_witness:
  "\<exists>plaintext b p.
    bootstrapPlaintextFromLocalMaterial (kl_sodium toy_library) (replicate 32 7) (replicate 64 9) = Some plaintext \<and>
    createKeyBackup toy_library (js ''u'') (js ''secret'') plaintext 3 1 (js ''k'') [1] (replicate 24 2) = Some b \<and>
    parseKeyBackupPayload (key_backup_json b) = Some b \<and>
    classifyKeyBackup toy_library (key_backup_json b) (js ''secret'') = Some Healthy \<and>
    decryptKeyBackup toy_library b (js ''secret'') = Inr p \<and>
    restoreLocalMaterialFromBackupPlaintext p = Some (replicate 32 7, replicate 64 9)"
  by (rule backup_restores_keys [OF toy_library_laws])
    (simp_all add: backup_name_ok_def trim_def is_space_unit_def isSafeInteger_def max_safe_int_def)

section \<open>What makes a backup unreadable\<close>

text \<open>
  A backup that authenticates and holds \<open>null\<close> counts as unreadable, not as malformed: the property of \<open>null\<close> that
  is asked for throws before the check that its comment promises.
\<close>

lemma null_plaintext_is_unreadable:
  assumes "parseKeyBackupPayload raw = Some b" "kl_from_base64 lib (kb_salt b) = Some salt"
    "deriveKeyArgon2id lib (utf8_encode password) salt (kb_memory b) (kb_iterations b) 32 = Some k" "buildKeyBackupAad b = Some aad"
    "kl_from_base64 lib (kb_cipher b) = Some c" "kl_from_base64 lib (kb_nonce b) = Some n"
    and "sd_open (kl_sodium lib) c aad n k = Some (utf8_encode (js ''null''))"
  shows "classifyKeyBackup lib raw password = Some Unreadable"
proof -
  have "parse_json (text_decode (utf8_encode (js ''null''))) = Some JNull"
  proof -
    have "text_decode (utf8_encode (js ''null'')) = js ''null''" by (rule text_decode_stringify, rule text_ok_low) simp_all
    moreover have "parse_json (js ''null'') = Some JNull" by (rule parse_stringify_ok) simp_all
    ultimately show ?thesis by simp
  qed
  then show ?thesis
    by (simp add: classifyKeyBackup_def assms(1) decryptKeyBackup_def Let_def assms(2-6) assms(7) [simplified]
        assertEpochSetIntegrity_def)
qed

end
