(* ===== verification/Fscp_Bootstrap.thy ===== *)
theory Fscp_Bootstrap
  imports Fscp_Backup
begin

text \<open>
  The account keys on a device (\<open>products/FSCP/ts/src/bootstrap.ts\<close>, \<open>keys.ts\<close> and the requests of
  \<open>messaging.ts\<close>): they are read from the device, restored from the password backup or created, and compared with
  the key that the server publishes. What the network and the storage answer is arbitrary; an answer stands for
  the whole retried read. The device holds the profile of one owner.
\<close>

section \<open>The device and its requests\<close>

record material =
  mt_agreement :: bytes
  mt_signing :: bytes
  mt_device :: "js_string option"

record profile_record =
  pr_agreement :: js_string
  pr_signing :: js_string
  pr_device :: "js_string option"

record key_bundle =
  ub_key :: js_string
  ub_device :: "js_string option"

record e2e_state =
  es_state :: js_string
  es_freeze :: bool

text \<open>A backup that was read, or is known to be missing, with its state once it is known.\<close>

record known_backup =
  kn_raw :: "json option"
  kn_state :: "backup_state option"

record read_snapshot =
  sn_e2e :: "e2e_state option"
  sn_backup :: "known_backup option"

datatype key_request =
    Get_backup
  | Get_key
  | Get_e2e_state
  | Put_key js_string
  | Put_backup json
  | Store profile_record
  | New_identity

record device =
  dv_profile :: "profile_record option"
  dv_log :: "key_request list"
  dv_snapshot :: read_snapshot

text \<open>
  The answers, by the number of requests before them; the exception that the library throws; what is drawn for a new
  identity and a new backup.
\<close>

record network =
  nw_library :: key_library
  nw_backup :: "nat \<Rightarrow> json outcome"
  nw_key :: "nat \<Rightarrow> key_bundle outcome"
  nw_e2e :: "nat \<Rightarrow> e2e_state outcome"
  nw_put_key :: "nat \<Rightarrow> js_string outcome"
  nw_put_backup :: "nat \<Rightarrow> unit outcome"
  nw_load :: "failure option"
  nw_store :: "nat \<Rightarrow> failure option"
  nw_crypto :: failure
  nw_fresh :: material
  nw_backupKeyId :: js_string
  nw_salt :: bytes
  nw_nonce :: bytes

type_synonym 'a act = "device \<Rightarrow> (failure + 'a) \<times> device"

definition ret :: "'a \<Rightarrow> 'a act" where
  "ret x = (\<lambda>d. (Inr x, d))"

definition throw :: "failure \<Rightarrow> 'a act" where
  "throw e = (\<lambda>d. (Inl e, d))"

definition bind_act :: "'a act \<Rightarrow> ('a \<Rightarrow> 'b act) \<Rightarrow> 'b act" where
  "bind_act m f = (\<lambda>d. case m d of (Inl e, d') \<Rightarrow> (Inl e, d') | (Inr x, d') \<Rightarrow> f x d')"

definition catch_act :: "'a act \<Rightarrow> (failure \<Rightarrow> 'a act) \<Rightarrow> 'a act" where
  "catch_act m h = (\<lambda>d. case m d of (Inl e, d') \<Rightarrow> h e d' | (Inr x, d') \<Rightarrow> (Inr x, d'))"

text \<open>The outcome as a value: what a \<open>try\<close> block ended with.\<close>

definition attempt :: "'a act \<Rightarrow> (failure + 'a) act" where
  "attempt m = (\<lambda>d. case m d of (r, d') \<Rightarrow> (Inr r, d'))"

definition lift_opt :: "failure \<Rightarrow> 'a option \<Rightarrow> 'a act" where
  "lift_opt e m = (case m of None \<Rightarrow> throw e | Some x \<Rightarrow> ret x)"

definition ask :: "key_request \<Rightarrow> (nat \<Rightarrow> 'a outcome) \<Rightarrow> 'a act" where
  "ask r answer = (\<lambda>d.
     let d' = d\<lparr>dv_log := dv_log d @ [r]\<rparr>
     in case answer (length (dv_log d)) of Returned x \<Rightarrow> (Inr x, d') | Threw e \<Rightarrow> (Inl e, d'))"

definition note_snapshot :: "(read_snapshot \<Rightarrow> read_snapshot) \<Rightarrow> unit act" where
  "note_snapshot f = (\<lambda>d. (Inr (), d\<lparr>dv_snapshot := f (dv_snapshot d)\<rparr>))"

section \<open>Requests\<close>

definition apiTryGetUserE2ePublicKey :: "network \<Rightarrow> key_bundle option act" where
  "apiTryGetUserE2ePublicKey nw =
     catch_act (bind_act (ask Get_key (nw_key nw)) (\<lambda>b. ret (Some b)))
       (\<lambda>e. if e = Api_error 404 then ret None else throw e)"

section \<open>Keys on the device\<close>

abbreviation nw_sodium :: "network \<Rightarrow> sodium" where
  "nw_sodium nw \<equiv> kl_sodium (nw_library nw)"

definition agreementScalar32FromBoxSecret :: "bytes \<Rightarrow> bytes option" where
  "agreementScalar32FromBoxSecret sk =
     (if length sk = 32 then Some sk else if length sk = 64 then Some (take 32 sk) else None)"

definition read_profile :: "network \<Rightarrow> profile_record \<Rightarrow> material option act" where
  "read_profile nw p =
     bind_act (lift_opt (nw_crypto nw) (kl_from_base64 (nw_library nw) (pr_agreement p))) (\<lambda>ag.
     bind_act (lift_opt (Other_error (js ''key length'')) (agreementScalar32FromBoxSecret ag)) (\<lambda>scalar.
     bind_act (lift_opt (nw_crypto nw) (kl_from_base64 (nw_library nw) (pr_signing p))) (\<lambda>sg.
     ret (Some \<lparr>mt_agreement = scalar, mt_signing = sg, mt_device = (if pr_device p = Some [] then None else pr_device p)\<rparr>))))"

definition loadFscpLocalMaterial :: "network \<Rightarrow> material option act" where
  "loadFscpLocalMaterial nw = (\<lambda>d.
     case nw_load nw of
       Some e \<Rightarrow> (Inl e, d)
     | None \<Rightarrow> (case dv_profile d of None \<Rightarrow> (Inr None, d) | Some p \<Rightarrow> read_profile nw p d))"

definition profile_of :: "network \<Rightarrow> material \<Rightarrow> profile_record" where
  "profile_of nw m =
     \<lparr>pr_agreement = sd_base64 (nw_sodium nw) (mt_agreement m), pr_signing = sd_base64 (nw_sodium nw) (mt_signing m),
      pr_device = mt_device m\<rparr>"

definition persistFscpLocalMaterial :: "network \<Rightarrow> material \<Rightarrow> unit act" where
  "persistFscpLocalMaterial nw m = (\<lambda>d.
     let d' = d\<lparr>dv_log := dv_log d @ [Store (profile_of nw m)]\<rparr>
     in case nw_store nw (length (dv_log d)) of
          Some e \<Rightarrow> (Inl e, d')
        | None \<Rightarrow> (Inr (), d'\<lparr>dv_profile := Some (profile_of nw m)\<rparr>))"

definition deriveAgreementPublicKeyBytes :: "network \<Rightarrow> material \<Rightarrow> bytes act" where
  "deriveAgreementPublicKeyBytes nw m = lift_opt (nw_crypto nw) (scalarmultBase (nw_sodium nw) (mt_agreement m))"

definition agreementPublicKeyBase64Url :: "network \<Rightarrow> material \<Rightarrow> js_string act" where
  "agreementPublicKeyBase64Url nw m = bind_act (deriveAgreementPublicKeyBytes nw m) (\<lambda>b. ret (sd_base64 (nw_sodium nw) b))"

definition localMaterialSelfCheck :: "network \<Rightarrow> material \<Rightarrow> bytes \<Rightarrow> bool" where
  "localMaterialSelfCheck nw m serverPub =
     (let so = nw_sodium nw; probe = utf8_encode (js ''flora.fscp.self-check.v1'') in
      length serverPub = 32 \<and>
      (case scalarmultBase so (mt_agreement m) of
         None \<Rightarrow> False
       | Some pub \<Rightarrow>
           length pub = 32 \<and> list_all (\<lambda>i. pub ! i = serverPub ! i) [0..<32] \<and> 64 \<le> length (mt_signing m) \<and>
           (case sd_sign so probe (mt_signing m) of
              None \<Rightarrow> False
            | Some sig \<Rightarrow> sd_verify so sig probe (take 32 (drop 32 (mt_signing m))) = Some True)))"

section \<open>Comparing with the server\<close>

datatype fscp_status =
    Ready_keys | Not_initialized | Needs_restore | Wrong_password_status | Backup_not_found | Key_mismatch
  | Orphan_local_profile | Registration_pending | Transient_error

datatype pending_operation = Publish | Sync_device_uuid

record bootstrap_result =
  br_status :: fscp_status
  br_material :: "material option"
  br_local :: "js_string option"
  br_server :: "js_string option"
  br_pending :: "pending_operation option"
  br_failure :: "failure_class option"

definition plain_result :: "fscp_status \<Rightarrow> material option \<Rightarrow> bootstrap_result" where
  "plain_result st m =
     \<lparr>br_status = st, br_material = m, br_local = None, br_server = None, br_pending = None, br_failure = None\<rparr>"

definition restoreFailureResult :: "failure \<Rightarrow> material option \<Rightarrow> js_string option \<Rightarrow> bootstrap_result" where
  "restoreFailureResult e m server =
     (let c = classifyTransportFailure e;
          st = (if e = Backup_error Aead_auth_failed \<or> c = Wrong_password then Wrong_password_status
                else if c = Not_found then Backup_not_found else Transient_error)
      in (plain_result st m)\<lparr>br_server := server, br_failure := Some c\<rparr>)"

definition agreementPubkeysEqual :: "bytes \<Rightarrow> bytes \<Rightarrow> bool" where
  "agreementPubkeysEqual a b \<longleftrightarrow> length a = 32 \<and> length b = 32 \<and> list_all (\<lambda>i. a ! i = b ! i) [0..<32]"

definition fromBase64Flexible :: "js_string \<Rightarrow> bytes option" where
  "fromBase64Flexible s =
     (let t = trim s in
      case fromBase64Url t of
        Some b \<Rightarrow> Some b
      | None \<Rightarrow> map_option (map of_nat) (atob (t @ (if length t mod 4 = 0 then [] else replicate (4 - length t mod 4) 61))))"

definition decodeAgreementPublicKeyBytes :: "js_string \<Rightarrow> bytes option" where
  "decodeAgreementPublicKeyBytes s =
     (case fromBase64Flexible (trim s) of None \<Rightarrow> None | Some b \<Rightarrow> if length b = 32 then Some b else None)"

definition decode_key :: "js_string \<Rightarrow> bytes act" where
  "decode_key s = lift_opt (Other_error (js ''public key'')) (decodeAgreementPublicKeyBytes s)"

definition canDecryptFscp :: "bootstrap_result \<Rightarrow> bool" where
  "canDecryptFscp r \<longleftrightarrow> br_status r = Ready_keys \<and> br_material r \<noteq> None"

definition canSendFscp :: "bootstrap_result \<Rightarrow> bool" where
  "canSendFscp r = canDecryptFscp r"

definition accountRequiresKeyRestore :: "bool \<Rightarrow> js_string \<Rightarrow> bool \<Rightarrow> bool" where
  "accountRequiresKeyRestore hasServerPubKey e2eState hasKeyBackup =
     (if hasServerPubKey then True else if e2eState \<noteq> js ''not_initialized'' then True else hasKeyBackup)"

text \<open>\<open>None\<close> is a failed publication.\<close>

definition publishAgreementPublicKey :: "network \<Rightarrow> material \<Rightarrow> js_string option act" where
  "publishAgreementPublicKey nw m =
     catch_act (bind_act (agreementPublicKeyBase64Url nw m) (\<lambda>pub. bind_act (ask (Put_key pub) (nw_put_key nw)) (\<lambda>u. ret (Some u))))
       (\<lambda>e. ret None)"

definition syncFscpDeviceUuid :: "network \<Rightarrow> material \<Rightarrow> js_string option \<Rightarrow> js_string option act" where
  "syncFscpDeviceUuid nw m serverPubKey =
     bind_act (case serverPubKey of
         Some k \<Rightarrow> if trim k = [] then bind_act (apiTryGetUserE2ePublicKey nw) (\<lambda>s. ret (map_option (\<lambda>b. trim (ub_key b)) s)) else ret (Some (trim k))
       | None \<Rightarrow> bind_act (apiTryGetUserE2ePublicKey nw) (\<lambda>s. ret (map_option (\<lambda>b. trim (ub_key b)) s))) (\<lambda>server.
     if \<not> truthy server then ret None
     else bind_act (deriveAgreementPublicKeyBytes nw m) (\<lambda>localBytes.
          bind_act (decode_key (the server)) (\<lambda>serverBytes.
          if \<not> agreementPubkeysEqual localBytes serverBytes then ret None
          else catch_act
            (bind_act (agreementPublicKeyBase64Url nw m) (\<lambda>pub.
             bind_act (ask (Put_key pub) (nw_put_key nw)) (\<lambda>u.
             bind_act (persistFscpLocalMaterial nw (m\<lparr>mt_device := Some u\<rparr>)) (\<lambda>_. ret (Some u)))))
            (\<lambda>e. ret None))))"

definition backup_failure :: "backup_error \<Rightarrow> failure" where
  "backup_failure e =
     (case e of
        Backup_failed k \<Rightarrow> Backup_error k
      | Backup_type_error \<Rightarrow> Type_error
      | Backup_number_unknown \<Rightarrow> Other_error (js ''number text unknown''))"

text \<open>\<open>restoreFromPasswordBackup\<close> of a backup that was read.\<close>

definition restoreFromPasswordBackup :: "network \<Rightarrow> js_string \<Rightarrow> json \<Rightarrow> material act" where
  "restoreFromPasswordBackup nw password raw =
     bind_act (lift_opt (Backup_error Malformed_backup) (parseKeyBackupPayload raw)) (\<lambda>payload.
     case decryptKeyBackup (nw_library nw) payload password of
       Inl e \<Rightarrow> throw (backup_failure e)
     | Inr plaintext \<Rightarrow>
         bind_act (lift_opt (Backup_error Malformed_backup) (restoreLocalMaterialFromBackupPlaintext plaintext)) (\<lambda>(a, s).
         ret \<lparr>mt_agreement = a, mt_signing = s, mt_device = None\<rparr>))"

definition buildMismatchResult :: "network \<Rightarrow> material \<Rightarrow> js_string \<Rightarrow> bootstrap_result act" where
  "buildMismatchResult nw m serverPubKey =
     bind_act (agreementPublicKeyBase64Url nw m) (\<lambda>pub.
     ret ((plain_result Key_mismatch (Some m))\<lparr>br_local := Some pub, br_server := Some serverPubKey\<rparr>))"

definition finalizeWithServerPubkey :: "network \<Rightarrow> material \<Rightarrow> key_bundle \<Rightarrow> bootstrap_result act" where
  "finalizeWithServerPubkey nw m server =
     bind_act (deriveAgreementPublicKeyBytes nw m) (\<lambda>localBytes.
     bind_act (decode_key (ub_key server)) (\<lambda>serverBytes.
     if \<not> agreementPubkeysEqual localBytes serverBytes then buildMismatchResult nw m (ub_key server)
     else
       let m1 = m\<lparr>mt_device := (case ub_device server of Some u \<Rightarrow> Some u | None \<Rightarrow> mt_device m)\<rparr>;
           ready = (\<lambda>m'. bind_act (agreementPublicKeyBase64Url nw m') (\<lambda>pub.
             ret ((plain_result Ready_keys (Some m'))\<lparr>br_local := Some pub, br_server := Some (ub_key server)\<rparr>)))
       in bind_act (persistFscpLocalMaterial nw m1) (\<lambda>_.
          if truthy (mt_device m1) then ready m1
          else bind_act (syncFscpDeviceUuid nw m1 (Some (ub_key server))) (\<lambda>sync.
               case sync of
                 None \<Rightarrow>
                   bind_act (agreementPublicKeyBase64Url nw m1) (\<lambda>pub.
                   ret ((plain_result Registration_pending (Some m1))
                     \<lparr>br_local := Some pub, br_server := Some (ub_key server), br_pending := Some Sync_device_uuid\<rparr>))
               | Some u \<Rightarrow> ready (m1\<lparr>mt_device := Some u\<rparr>)))))"

text \<open>\<open>server\<close> is \<open>None\<close> when the caller does not know the published key yet.\<close>

definition finalizeRestoredMaterial :: "network \<Rightarrow> material \<Rightarrow> key_bundle option option \<Rightarrow> bootstrap_result act" where
  "finalizeRestoredMaterial nw m server =
     bind_act (persistFscpLocalMaterial nw m) (\<lambda>_.
     bind_act (case server of Some s \<Rightarrow> ret s | None \<Rightarrow> apiTryGetUserE2ePublicKey nw) (\<lambda>bundle.
     case bundle of
       Some b \<Rightarrow>
         if ub_key b = [] then
           bind_act (agreementPublicKeyBase64Url nw m) (\<lambda>pub. ret ((plain_result Orphan_local_profile (Some m))\<lparr>br_local := Some pub\<rparr>))
         else finalizeWithServerPubkey nw m b
     | None \<Rightarrow>
         bind_act (agreementPublicKeyBase64Url nw m) (\<lambda>pub. ret ((plain_result Orphan_local_profile (Some m))\<lparr>br_local := Some pub\<rparr>))))"

definition shouldPreferBackupOverLocal :: "network \<Rightarrow> material \<Rightarrow> material \<Rightarrow> js_string option \<Rightarrow> bool act" where
  "shouldPreferBackupOverLocal nw local restored serverKey =
     bind_act (deriveAgreementPublicKeyBytes nw local) (\<lambda>localPub.
     bind_act (deriveAgreementPublicKeyBytes nw restored) (\<lambda>restoredPub.
     if agreementPubkeysEqual localPub restoredPub then ret False
     else if \<not> truthy (map_option trim serverKey) then ret True
     else bind_act (decode_key (trim (the serverKey))) (\<lambda>serverPub.
       let localMatches = agreementPubkeysEqual localPub serverPub;
           restoredMatches = agreementPubkeysEqual restoredPub serverPub
       in if localMatches \<and> \<not> restoredMatches then ret True
          else if restoredMatches \<and> \<not> localMatches then ret True
          else ret False)))"

section \<open>Resolving the keys of an owner\<close>

text \<open>A password counts when it is there and not empty; \<open>op_snapshot\<close>: the caller wants to know what was read.\<close>

record resolve_options =
  op_owner :: js_string
  op_password :: "js_string option"
  op_prefer :: bool
  op_force :: bool
  op_snapshot :: bool

definition note_backup :: "resolve_options \<Rightarrow> json option \<Rightarrow> backup_state option \<Rightarrow> unit act" where
  "note_backup op raw st =
     (if op_snapshot op then note_snapshot (\<lambda>s. s\<lparr>sn_backup := Some \<lparr>kn_raw = raw, kn_state = st\<rparr>\<rparr>) else ret ())"

definition state_of_kind :: "backup_kind \<Rightarrow> backup_state" where
  "state_of_kind k = (case k of Aead_auth_failed \<Rightarrow> Unreadable | Kdf_failed \<Rightarrow> Kdf_unavailable | Malformed_backup \<Rightarrow> Malformed_state)"

text \<open>After a failed restore: the state that a typed error stands for.\<close>

definition note_failed_restore :: "resolve_options \<Rightarrow> json \<Rightarrow> failure \<Rightarrow> unit act" where
  "note_failed_restore op raw e =
     (case e of Backup_error k \<Rightarrow> note_backup op (Some raw) (Some (state_of_kind k)) | _ \<Rightarrow> ret ())"

definition finish_restore :: "network \<Rightarrow> material \<Rightarrow> key_bundle option option \<Rightarrow> js_string option \<Rightarrow> bootstrap_result act" where
  "finish_restore nw m server serverKey =
     catch_act (finalizeRestoredMaterial nw m server) (\<lambda>e. ret (restoreFailureResult e (Some m) serverKey))"

definition forced_restore :: "network \<Rightarrow> resolve_options \<Rightarrow> material option \<Rightarrow> bootstrap_result option act" where
  "forced_restore nw op local =
     (if \<not> (truthy (op_password op) \<and> op_force op) then ret None
      else bind_act (attempt (ask Get_backup (nw_backup nw))) (\<lambda>answer.
        case answer of
          Inl e \<Rightarrow>
            if classifyTransportFailure e = Not_found then bind_act (note_backup op None (Some Missing)) (\<lambda>_. ret None)
            else ret (Some (restoreFailureResult e local None))
        | Inr raw \<Rightarrow>
            bind_act (note_backup op (Some raw) None) (\<lambda>_.
            bind_act (attempt (restoreFromPasswordBackup nw (the (op_password op)) raw)) (\<lambda>restored.
            case restored of
              Inl e \<Rightarrow> bind_act (note_failed_restore op raw e) (\<lambda>_. ret (Some (restoreFailureResult e local None)))
            | Inr m \<Rightarrow>
                bind_act (note_backup op (Some raw) (Some Healthy)) (\<lambda>_.
                bind_act (finish_restore nw m None None) (\<lambda>r. ret (Some r)))))))"

text \<open>
  \<open>Inl\<close> is the end of the resolve; \<open>Inr\<close> goes on with the published key as far as it was read.
\<close>

definition preferred_restore ::
  "network \<Rightarrow> resolve_options \<Rightarrow> material option \<Rightarrow> (bootstrap_result + key_bundle option option) act"
where
  "preferred_restore nw op local =
     (case local of
        None \<Rightarrow> ret (Inr None)
      | Some l \<Rightarrow>
          if \<not> (truthy (op_password op) \<and> op_prefer op) then ret (Inr None)
          else bind_act (attempt (ask Get_backup (nw_backup nw))) (\<lambda>answer.
            case answer of
              Inl e \<Rightarrow>
                if classifyTransportFailure e = Not_found then bind_act (note_backup op None (Some Missing)) (\<lambda>_. ret (Inr None))
                else ret (Inl (restoreFailureResult e local None))
            | Inr raw \<Rightarrow>
                bind_act (note_backup op (Some raw) None) (\<lambda>_.
                catch_act
                  (bind_act (restoreFromPasswordBackup nw (the (op_password op)) raw) (\<lambda>m.
                   bind_act (note_backup op (Some raw) (Some Healthy)) (\<lambda>_.
                   bind_act (apiTryGetUserE2ePublicKey nw) (\<lambda>server.
                   bind_act (shouldPreferBackupOverLocal nw l m (map_option ub_key server)) (\<lambda>prefer.
                   if prefer then bind_act (finish_restore nw m (Some server) (map_option ub_key server)) (\<lambda>r. ret (Inl r))
                   else ret (Inr (Some server)))))))
                  (\<lambda>e. bind_act (note_failed_restore op raw e) (\<lambda>_.
                     if e = Backup_error Aead_auth_failed then ret (Inr None)
                     else ret (Inl (restoreFailureResult e local None)))))))"

definition keep_local :: "network \<Rightarrow> material \<Rightarrow> key_bundle option \<Rightarrow> bootstrap_result act" where
  "keep_local nw l server =
     (case server of
        Some b \<Rightarrow>
          if ub_key b = [] then
            bind_act (agreementPublicKeyBase64Url nw l) (\<lambda>pub. ret ((plain_result Orphan_local_profile (Some l))\<lparr>br_local := Some pub\<rparr>))
          else catch_act (finalizeWithServerPubkey nw l b) (\<lambda>e. ret (restoreFailureResult e (Some l) (Some (ub_key b))))
      | None \<Rightarrow>
          bind_act (agreementPublicKeyBase64Url nw l) (\<lambda>pub. ret ((plain_result Orphan_local_profile (Some l))\<lparr>br_local := Some pub\<rparr>)))"

definition use_local :: "network \<Rightarrow> material \<Rightarrow> key_bundle option option \<Rightarrow> bootstrap_result act" where
  "use_local nw l known =
     (case known of
        Some server \<Rightarrow> keep_local nw l server
      | None \<Rightarrow>
          bind_act (attempt (apiTryGetUserE2ePublicKey nw)) (\<lambda>r.
          case r of Inl e \<Rightarrow> ret (restoreFailureResult e (Some l) None) | Inr server \<Rightarrow> keep_local nw l server))"

definition read_decision :: "network \<Rightarrow> resolve_options \<Rightarrow> (e2e_state \<times> key_bundle option \<times> known_backup) act" where
  "read_decision nw op =
     bind_act (ask Get_e2e_state (nw_e2e nw)) (\<lambda>e2e.
     bind_act (apiTryGetUserE2ePublicKey nw) (\<lambda>server.
     bind_act (\<lambda>d. (Inr (if op_snapshot op then sn_backup (dv_snapshot d) else None), d)) (\<lambda>known.
     case known of
       Some k \<Rightarrow> ret (e2e, server, k)
     | None \<Rightarrow>
         bind_act (attempt (ask Get_backup (nw_backup nw))) (\<lambda>answer.
         case answer of
           Inr raw \<Rightarrow> ret (e2e, server, \<lparr>kn_raw = Some raw, kn_state = None\<rparr>)
         | Inl e \<Rightarrow> if e = Api_error 404 then ret (e2e, server, \<lparr>kn_raw = None, kn_state = Some Missing\<rparr>) else throw e))))"

definition create_identity :: "network \<Rightarrow> bootstrap_result act" where
  "create_identity nw =
     bind_act (\<lambda>d. (Inr (nw_fresh nw), d\<lparr>dv_log := dv_log d @ [New_identity]\<rparr>)) (\<lambda>m.
     bind_act (persistFscpLocalMaterial nw m) (\<lambda>_.
     bind_act (publishAgreementPublicKey nw m) (\<lambda>pub.
     case pub of
       None \<Rightarrow>
         bind_act (agreementPublicKeyBase64Url nw m) (\<lambda>text.
         ret ((plain_result Registration_pending (Some m))\<lparr>br_local := Some text, br_pending := Some Publish\<rparr>))
     | Some u \<Rightarrow>
         let m' = m\<lparr>mt_device := Some u\<rparr>
         in bind_act (persistFscpLocalMaterial nw m') (\<lambda>_.
            bind_act (agreementPublicKeyBase64Url nw m') (\<lambda>text.
            ret ((plain_result Ready_keys (Some m'))\<lparr>br_local := Some text\<rparr>))))))"

definition restore_first :: "network \<Rightarrow> resolve_options \<Rightarrow> key_bundle option \<Rightarrow> known_backup \<Rightarrow> bootstrap_result act" where
  "restore_first nw op server known =
     (let serverKey = map_option ub_key server in
      if \<not> truthy (op_password op) then ret ((plain_result Needs_restore None)\<lparr>br_server := serverKey\<rparr>)
      else case kn_raw known of
        None \<Rightarrow> ret ((plain_result Backup_not_found None)\<lparr>br_server := serverKey, br_failure := Some Not_found\<rparr>)
      | Some raw \<Rightarrow>
          if kn_state known = Some Missing
          then ret ((plain_result Backup_not_found None)\<lparr>br_server := serverKey, br_failure := Some Not_found\<rparr>)
          else bind_act (attempt (restoreFromPasswordBackup nw (the (op_password op)) raw)) (\<lambda>restored.
            case restored of
              Inl e \<Rightarrow> bind_act (note_failed_restore op raw e) (\<lambda>_. ret (restoreFailureResult e None serverKey))
            | Inr m \<Rightarrow> bind_act (note_backup op (Some raw) (Some Healthy)) (\<lambda>_. finish_restore nw m (Some server) serverKey)))"

definition first_login :: "network \<Rightarrow> resolve_options \<Rightarrow> bootstrap_result act" where
  "first_login nw op =
     bind_act (attempt (read_decision nw op)) (\<lambda>r.
     case r of
       Inl e \<Rightarrow> ret (restoreFailureResult e None None)
     | Inr (e2e, server, known) \<Rightarrow>
         bind_act (if op_snapshot op then note_snapshot (\<lambda>s. s\<lparr>sn_e2e := Some e2e, sn_backup := Some known\<rparr>) else ret ()) (\<lambda>_.
         if accountRequiresKeyRestore (truthy (map_option (\<lambda>b. trim (ub_key b)) server)) (es_state e2e) (kn_state known \<noteq> Some Missing)
         then restore_first nw op server known
         else create_identity nw))"

text \<open>The mutual exclusion of resolves of one owner is left out: a run of the model is one critical section.\<close>

definition resolveFscpMaterialOnDevice :: "network \<Rightarrow> resolve_options \<Rightarrow> bootstrap_result act" where
  "resolveFscpMaterialOnDevice nw op =
     (if toLowerCase (trim (op_owner op)) = [] then ret (plain_result Needs_restore None)
      else bind_act (loadFscpLocalMaterial nw) (\<lambda>local.
           bind_act (forced_restore nw op local) (\<lambda>done.
           case done of
             Some r \<Rightarrow> ret r
           | None \<Rightarrow>
               bind_act (preferred_restore nw op local) (\<lambda>step.
               case step of
                 Inl r \<Rightarrow> ret r
               | Inr known \<Rightarrow> (case local of Some l \<Rightarrow> use_local nw l known | None \<Rightarrow> first_login nw op)))))"

section \<open>Operations the user confirms or repeats\<close>

definition published_result :: "network \<Rightarrow> material \<Rightarrow> bootstrap_result act" where
  "published_result nw m =
     bind_act (apiTryGetUserE2ePublicKey nw) (\<lambda>server.
     bind_act (agreementPublicKeyBase64Url nw m) (\<lambda>text.
     ret ((plain_result Ready_keys (Some m))\<lparr>br_local := Some text, br_server := map_option ub_key server\<rparr>)))"

definition publishLocalKeyConfirmed :: "network \<Rightarrow> material \<Rightarrow> bootstrap_result act" where
  "publishLocalKeyConfirmed nw m =
     bind_act (publishAgreementPublicKey nw m) (\<lambda>pub.
     case pub of
       None \<Rightarrow>
         bind_act (agreementPublicKeyBase64Url nw m) (\<lambda>text.
         ret ((plain_result Registration_pending (Some m))\<lparr>br_local := Some text, br_pending := Some Publish\<rparr>))
     | Some u \<Rightarrow>
         let m' = m\<lparr>mt_device := Some u\<rparr>
         in bind_act (persistFscpLocalMaterial nw m') (\<lambda>_. published_result nw m'))"

definition retryPendingFscpOperation :: "network \<Rightarrow> material \<Rightarrow> pending_operation \<Rightarrow> bootstrap_result act" where
  "retryPendingFscpOperation nw m op =
     (case op of
        Publish \<Rightarrow> publishLocalKeyConfirmed nw m
      | Sync_device_uuid \<Rightarrow>
          bind_act (syncFscpDeviceUuid nw m None) (\<lambda>sync.
          case sync of
            None \<Rightarrow>
              bind_act (apiTryGetUserE2ePublicKey nw) (\<lambda>server.
              bind_act (agreementPublicKeyBase64Url nw m) (\<lambda>text.
              ret ((plain_result Registration_pending (Some m))
                \<lparr>br_local := Some text, br_server := map_option ub_key server, br_pending := Some Sync_device_uuid\<rparr>)))
          | Some u \<Rightarrow> published_result nw (m\<lparr>mt_device := Some u\<rparr>)))"

section \<open>Reasoning about runs\<close>

text \<open>From \<open>P\<close> a run ends with \<open>Q\<close>, or throws with \<open>E\<close>; \<open>preserves I\<close>: it leaves \<open>I\<close> true however it ends.\<close>

definition triple :: "(device \<Rightarrow> bool) \<Rightarrow> 'a act \<Rightarrow> ('a \<Rightarrow> device \<Rightarrow> bool) \<Rightarrow> (failure \<Rightarrow> device \<Rightarrow> bool) \<Rightarrow> bool" where
  "triple P m Q E \<longleftrightarrow> (\<forall>d. P d \<longrightarrow> (case m d of (Inr x, d') \<Rightarrow> Q x d' | (Inl e, d') \<Rightarrow> E e d'))"

definition preserves :: "(device \<Rightarrow> bool) \<Rightarrow> 'a act \<Rightarrow> bool" where
  "preserves I m \<longleftrightarrow> triple I m (\<lambda>_. I) (\<lambda>_. I)"

named_theorems run_intro \<open>how the combinators keep an invariant\<close>

lemma triple_ret: "(\<And>d. P d \<Longrightarrow> Q x d) \<Longrightarrow> triple P (ret x) Q E"
  by (simp add: triple_def ret_def)

lemma triple_throw: "(\<And>d. P d \<Longrightarrow> E e d) \<Longrightarrow> triple P (throw e) Q E"
  by (simp add: triple_def throw_def)

lemma triple_bind: "triple P m R E \<Longrightarrow> (\<And>x. triple (R x) (f x) Q E) \<Longrightarrow> triple P (bind_act m f) Q E"
  unfolding triple_def bind_act_def by (fastforce split: prod.splits sum.splits)

lemma triple_catch: "triple P m Q R \<Longrightarrow> (\<And>e. triple (R e) (h e) Q E) \<Longrightarrow> triple P (catch_act m h) Q E"
  unfolding triple_def catch_act_def by (fastforce split: prod.splits sum.splits)

lemma triple_attempt: "triple P m Q R \<Longrightarrow> triple P (attempt m) (\<lambda>r d. case r of Inl e \<Rightarrow> R e d | Inr x \<Rightarrow> Q x d) E"
  unfolding triple_def attempt_def by (fastforce split: prod.splits sum.splits)

lemma triple_ask:
  "(\<And>d x. P d \<Longrightarrow> answer (length (dv_log d)) = Returned x \<Longrightarrow> Q x (d\<lparr>dv_log := dv_log d @ [r]\<rparr>)) \<Longrightarrow>
   (\<And>d e. P d \<Longrightarrow> answer (length (dv_log d)) = Threw e \<Longrightarrow> E e (d\<lparr>dv_log := dv_log d @ [r]\<rparr>)) \<Longrightarrow> triple P (ask r answer) Q E"
  by (simp add: triple_def ask_def Let_def split: outcome.split)

lemma triple_weaken:
  "triple P m Q E \<Longrightarrow> (\<And>d. P' d \<Longrightarrow> P d) \<Longrightarrow> (\<And>x d. Q x d \<Longrightarrow> Q' x d) \<Longrightarrow> (\<And>e d. E e d \<Longrightarrow> E' e d) \<Longrightarrow> triple P' m Q' E'"
  unfolding triple_def by (fastforce split: prod.splits sum.splits)

lemma preserves_ret [run_intro]: "preserves I (ret x)"
  by (simp add: preserves_def triple_ret)

lemma preserves_throw [run_intro]: "preserves I (throw e)"
  by (simp add: preserves_def triple_throw)

lemma preserves_lift_opt [run_intro]: "preserves I (lift_opt e m)"
  by (cases m) (simp_all add: lift_opt_def run_intro)

lemma preserves_bind [run_intro]: "preserves I m \<Longrightarrow> (\<And>x. preserves I (f x)) \<Longrightarrow> preserves I (bind_act m f)"
  unfolding preserves_def by (rule triple_bind)

lemma preserves_catch [run_intro]: "preserves I m \<Longrightarrow> (\<And>e. preserves I (h e)) \<Longrightarrow> preserves I (catch_act m h)"
  unfolding preserves_def by (rule triple_catch)

lemma preserves_attempt [run_intro]: "preserves I m \<Longrightarrow> preserves I (attempt m)"
  by (simp add: preserves_def triple_def attempt_def split: prod.splits sum.splits)

lemma preserves_read [run_intro]: "preserves I (\<lambda>d. (Inr (f d), d))"
  by (simp add: preserves_def triple_def)

lemma preserves_if [run_intro]: "preserves I m \<Longrightarrow> preserves I n \<Longrightarrow> preserves I (if b then m else n)"
  by simp

lemma preserves_option [run_intro]: "preserves I m \<Longrightarrow> (\<And>x. preserves I (f x)) \<Longrightarrow> preserves I (case v of None \<Rightarrow> m | Some x \<Rightarrow> f x)"
  by (cases v) simp_all

lemma preserves_sum [run_intro]: "(\<And>x. preserves I (f x)) \<Longrightarrow> (\<And>x. preserves I (g x)) \<Longrightarrow> preserves I (case v of Inl x \<Rightarrow> f x | Inr x \<Rightarrow> g x)"
  by (cases v) simp_all

lemma preserves_prod [run_intro]: "(\<And>x y. preserves I (f x y)) \<Longrightarrow> preserves I (case v of (x, y) \<Rightarrow> f x y)"
  by (cases v) simp

lemma preservesD: "preserves I m \<Longrightarrow> m d = (r, d') \<Longrightarrow> I d \<Longrightarrow> I d'"
  by (cases r) (auto simp: preserves_def triple_def dest!: spec [of _ d])

text \<open>
  An invariant of the log: it survives every request of the set \<open>R\<close> and does not look at the profile.
\<close>

definition log_invariant :: "key_request set \<Rightarrow> (device \<Rightarrow> bool) \<Rightarrow> bool" where
  "log_invariant R I \<longleftrightarrow>
     (\<forall>d p. I (d\<lparr>dv_profile := p\<rparr>) = I d) \<and> (\<forall>d. \<forall>r \<in> R. I d \<longrightarrow> I (d\<lparr>dv_log := dv_log d @ [r]\<rparr>))"

definition key_requests :: "key_request set" where
  "key_requests = {Get_key, Get_backup, Get_e2e_state} \<union> range Put_key \<union> range Store"

lemma preserves_ask [run_intro]: "log_invariant key_requests I \<Longrightarrow> r \<in> key_requests \<Longrightarrow> preserves I (ask r a)"
  unfolding preserves_def by (rule triple_ask) (auto simp: log_invariant_def)

lemma key_requests_mem [run_intro]:
  "Get_key \<in> key_requests" "Get_backup \<in> key_requests" "Get_e2e_state \<in> key_requests" "Put_key k \<in> key_requests"
  "Store p \<in> key_requests"
  by (simp_all add: key_requests_def)

lemma preserves_persist [run_intro]: "log_invariant key_requests I \<Longrightarrow> preserves I (persistFscpLocalMaterial nw m)"
  by (auto simp: preserves_def triple_def persistFscpLocalMaterial_def Let_def log_invariant_def key_requests_def split: option.split)

lemma preserves_load [run_intro]: "preserves I (loadFscpLocalMaterial nw)"
proof -
  have "preserves I (read_profile nw p)" for p unfolding read_profile_def by (intro run_intro)
  then show ?thesis by (simp add: preserves_def triple_def loadFscpLocalMaterial_def split: option.split)
qed

lemmas bootstrap_defs = apiTryGetUserE2ePublicKey_def deriveAgreementPublicKeyBytes_def agreementPublicKeyBase64Url_def
  decode_key_def publishAgreementPublicKey_def restoreFromPasswordBackup_def buildMismatchResult_def

lemma preserves_basic [run_intro]:
  assumes "log_invariant key_requests I"
  shows "preserves I (apiTryGetUserE2ePublicKey nw)" "preserves I (deriveAgreementPublicKeyBytes nw m)"
    "preserves I (agreementPublicKeyBase64Url nw m)" "preserves I (decode_key k)" "preserves I (publishAgreementPublicKey nw m)"
    "preserves I (restoreFromPasswordBackup nw pw raw)" "preserves I (buildMismatchResult nw m k)"
  unfolding bootstrap_defs by (intro run_intro assms)+

lemma preserves_sync [run_intro]: "log_invariant key_requests I \<Longrightarrow> preserves I (syncFscpDeviceUuid nw m k)"
  unfolding syncFscpDeviceUuid_def by (intro run_intro)

lemma preserves_finalize [run_intro]:
  assumes "log_invariant key_requests I"
  shows "preserves I (finalizeWithServerPubkey nw m b)" "preserves I (finalizeRestoredMaterial nw m s)"
    "preserves I (shouldPreferBackupOverLocal nw l m' k)" "preserves I (finish_restore nw m s k)"
  unfolding finalizeRestoredMaterial_def finalizeWithServerPubkey_def shouldPreferBackupOverLocal_def finish_restore_def Let_def
  by (intro run_intro assms)+

subsection \<open>Steps with values\<close>

lemma triple_bind_lift:
  "(\<And>x. m = Some x \<Longrightarrow> triple P (f x) Q E) \<Longrightarrow> (\<And>d. P d \<Longrightarrow> E e d) \<Longrightarrow> triple P (bind_act (lift_opt e m) f) Q E"
  by (cases m) (simp_all add: lift_opt_def triple_def bind_act_def ret_def throw_def)

lemma triple_bind_preserves:
  "preserves P m \<Longrightarrow> (\<And>x. triple P (f x) Q E) \<Longrightarrow> (\<And>e d. P d \<Longrightarrow> E e d) \<Longrightarrow> triple P (bind_act m f) Q E"
  unfolding preserves_def by (rule triple_bind [where R = "\<lambda>_. P"]) (simp_all add: triple_def split: prod.splits sum.splits)

lemma triple_pre: "triple P m Q E \<Longrightarrow> (\<And>d. P' d \<Longrightarrow> P d) \<Longrightarrow> triple P' m Q E"
  by (simp add: triple_def)

lemma tripleD: "triple P m Q E \<Longrightarrow> m d = (Inr x, d') \<Longrightarrow> P d \<Longrightarrow> Q x d'"
  by (auto simp: triple_def dest!: spec [of _ d])

abbreviation any_end :: "failure \<Rightarrow> device \<Rightarrow> bool" where
  "any_end \<equiv> \<lambda>_ _. True"

abbreviation always :: "device \<Rightarrow> bool" where
  "always \<equiv> \<lambda>_. True"

lemma always_log [simp]: "log_invariant R always"
  by (simp add: log_invariant_def)

text \<open>The request number \<open>i\<close> of a run.\<close>

definition seen :: "key_request \<Rightarrow> nat \<Rightarrow> device \<Rightarrow> bool" where
  "seen r i d \<longleftrightarrow> i < length (dv_log d) \<and> dv_log d ! i = r"

lemma seen_next [simp]: "seen r (length (dv_log d)) (d\<lparr>dv_log := dv_log d @ [r]\<rparr>)"
  by (simp add: seen_def)

lemma seen_later [simp]: "seen r i d \<Longrightarrow> seen r i (d\<lparr>dv_log := dv_log d @ [q]\<rparr>)"
  by (simp add: seen_def nth_append)

lemma seen_fields [simp]: "seen r i (d\<lparr>dv_profile := p\<rparr>) = seen r i d" "seen r i (d\<lparr>dv_snapshot := s\<rparr>) = seen r i d"
  by (simp_all add: seen_def)

section \<open>Ready keys are the published keys\<close>

definition served :: "network \<Rightarrow> key_bundle \<Rightarrow> device \<Rightarrow> bool" where
  "served nw b d \<longleftrightarrow> (\<exists>i. seen Get_key i d \<and> nw_key nw i = Returned b)"

definition published :: "network \<Rightarrow> material \<Rightarrow> device \<Rightarrow> bool" where
  "published nw m d \<longleftrightarrow>
     (\<exists>pub i u. scalarmultBase (nw_sodium nw) (mt_agreement m) = Some pub \<and>
        seen (Put_key (sd_base64 (nw_sodium nw) pub)) i d \<and> nw_put_key nw i = Returned u)"

text \<open>The server served the public half of the material, or accepted it.\<close>

definition keys_agree :: "network \<Rightarrow> material \<Rightarrow> device \<Rightarrow> bool" where
  "keys_agree nw m d \<longleftrightarrow>
     (\<exists>pub b. scalarmultBase (nw_sodium nw) (mt_agreement m) = Some pub \<and> served nw b d \<and>
        decodeAgreementPublicKeyBytes (ub_key b) = Some pub) \<or> published nw m d"

definition stored_keys :: "network \<Rightarrow> material \<Rightarrow> device \<Rightarrow> bool" where
  "stored_keys nw m d \<longleftrightarrow> dv_profile d = Some (profile_of nw m)"

definition ready_ok :: "network \<Rightarrow> bootstrap_result \<Rightarrow> device \<Rightarrow> bool" where
  "ready_ok nw r d \<longleftrightarrow> (br_status r = Ready_keys \<longrightarrow> (\<exists>m. br_material r = Some m \<and> keys_agree nw m d \<and> stored_keys nw m d))"

lemma log_seen [run_intro]: "log_invariant R (seen r i)"
  by (simp add: log_invariant_def)

lemma log_const [run_intro]: "log_invariant R (\<lambda>d. b)"
  by (simp add: log_invariant_def)

lemma log_and [run_intro]: "log_invariant R P \<Longrightarrow> log_invariant R Q \<Longrightarrow> log_invariant R (\<lambda>d. P d \<and> Q d)"
  by (simp add: log_invariant_def)

lemma log_or [run_intro]: "log_invariant R P \<Longrightarrow> log_invariant R Q \<Longrightarrow> log_invariant R (\<lambda>d. P d \<or> Q d)"
  unfolding log_invariant_def by metis

lemma log_ex [run_intro]: "(\<And>x. log_invariant R (P x)) \<Longrightarrow> log_invariant R (\<lambda>d. \<exists>x. P x d)"
  unfolding log_invariant_def by metis

lemma served_log [run_intro]: "log_invariant R (served nw b)"
  unfolding served_def by (intro run_intro)

lemma published_log [run_intro]: "log_invariant R (published nw m)"
  unfolding published_def by (intro run_intro)

lemma keys_agree_log [run_intro]: "log_invariant R (keys_agree nw m)"
  unfolding keys_agree_def by (intro run_intro)

lemma keys_agree_device [simp]: "keys_agree nw (m\<lparr>mt_device := u\<rparr>) = keys_agree nw m"
  by (rule ext) (simp add: keys_agree_def published_def)

lemma pubkeys_equal_iff: "agreementPubkeysEqual a b \<longleftrightarrow> length a = 32 \<and> a = b"
  by (auto simp: agreementPubkeysEqual_def list_all_iff intro: nth_equalityI)

lemma not_ready_ok: "br_status r \<noteq> Ready_keys \<Longrightarrow> ready_ok nw r d"
  by (simp add: ready_ok_def)

lemma failure_not_ready [simp]: "br_status (restoreFailureResult e m k) \<noteq> Ready_keys"
  by (simp add: restoreFailureResult_def plain_result_def Let_def)

lemma persist_stores:
  "log_invariant key_requests I \<Longrightarrow> triple I (persistFscpLocalMaterial nw m) (\<lambda>_ d. I d \<and> stored_keys nw m d) (\<lambda>_. I)"
  by (auto simp: triple_def persistFscpLocalMaterial_def Let_def log_invariant_def key_requests_def stored_keys_def split: option.split)

lemma persist_stores_any:
  "log_invariant key_requests I \<Longrightarrow> triple I (persistFscpLocalMaterial nw m) (\<lambda>_ d. I d \<and> stored_keys nw m d) any_end"
  by (rule triple_weaken [OF persist_stores]) auto

lemma publish_publishes:
  "triple always (publishAgreementPublicKey nw m) (\<lambda>u d. u \<noteq> None \<longrightarrow> published nw m d) any_end"
  unfolding publishAgreementPublicKey_def agreementPublicKeyBase64Url_def deriveAgreementPublicKeyBytes_def
  by (cases "scalarmultBase (nw_sodium nw) (mt_agreement m)")
    (auto simp: triple_def catch_act_def bind_act_def lift_opt_def ret_def throw_def ask_def Let_def published_def
      intro!: exI split: outcome.splits)

lemma sync_stores:
  assumes "log_invariant key_requests I"
  shows "triple I (syncFscpDeviceUuid nw m k) (\<lambda>u d. I d \<and> (\<forall>v. u = Some v \<longrightarrow> stored_keys nw (m\<lparr>mt_device := Some v\<rparr>) d)) any_end"
  unfolding syncFscpDeviceUuid_def
proof (rule triple_bind_preserves)
  fix server
  have p: "triple I (bind_act (agreementPublicKeyBase64Url nw m) (\<lambda>pub.
       bind_act (ask (Put_key pub) (nw_put_key nw)) (\<lambda>u.
       bind_act (persistFscpLocalMaterial nw (m\<lparr>mt_device := Some u\<rparr>)) (\<lambda>_. ret (Some u)))))
      (\<lambda>u d. I d \<and> (\<forall>v. u = Some v \<longrightarrow> stored_keys nw (m\<lparr>mt_device := Some v\<rparr>) d)) (\<lambda>_. I)"
    by (intro triple_bind_preserves triple_bind [OF persist_stores] triple_ret run_intro assms) simp_all
  show "triple I (if \<not> truthy server then ret None
     else bind_act (deriveAgreementPublicKeyBytes nw m) (\<lambda>localBytes.
          bind_act (decode_key (the server)) (\<lambda>serverBytes.
          if \<not> agreementPubkeysEqual localBytes serverBytes then ret None
          else catch_act
            (bind_act (agreementPublicKeyBase64Url nw m) (\<lambda>pub.
             bind_act (ask (Put_key pub) (nw_put_key nw)) (\<lambda>u.
             bind_act (persistFscpLocalMaterial nw (m\<lparr>mt_device := Some u\<rparr>)) (\<lambda>_. ret (Some u)))))
            (\<lambda>e. ret None))))
      (\<lambda>u d. I d \<and> (\<forall>v. u = Some v \<longrightarrow> stored_keys nw (m\<lparr>mt_device := Some v\<rparr>) d)) any_end"
  proof (cases "truthy server")
    case True
    show ?thesis
      using True
      by simp (intro triple_bind_preserves run_intro assms,
        auto intro!: triple_ret triple_catch [OF p] run_intro assms)
  qed (simp add: triple_ret)
qed (use assms in \<open>auto intro!: run_intro\<close>)

lemma not_ready_triple: "br_status r \<noteq> Ready_keys \<Longrightarrow> triple P (ret r) (ready_ok nw) any_end"
  by (simp add: triple_ret not_ready_ok)

lemma pending_result:
  "br_status r \<noteq> Ready_keys \<Longrightarrow>
   triple always (bind_act (agreementPublicKeyBase64Url nw m) (\<lambda>pub. ret (r\<lparr>br_local := Some pub\<rparr>))) (ready_ok nw) any_end"
  by (intro triple_bind_preserves run_intro not_ready_triple) simp_all

lemma ready_result:
  assumes "log_invariant key_requests I" "\<And>d. I d \<Longrightarrow> keys_agree nw m d" "br_status r = Ready_keys" "br_material r = Some m"
  shows "triple (\<lambda>d. I d \<and> stored_keys nw m d) (bind_act (agreementPublicKeyBase64Url nw m) (\<lambda>pub. ret (r\<lparr>br_local := Some pub\<rparr>)))
    (ready_ok nw) any_end"
  unfolding agreementPublicKeyBase64Url_def deriveAgreementPublicKeyBytes_def
  by (cases "scalarmultBase (nw_sodium nw) (mt_agreement m)")
    (use assms(2-4) in \<open>auto simp: triple_def bind_act_def lift_opt_def ret_def throw_def ready_ok_def\<close>)

lemma finalize_ready: "triple (served nw b) (finalizeWithServerPubkey nw m b) (ready_ok nw) any_end"
  unfolding finalizeWithServerPubkey_def deriveAgreementPublicKeyBytes_def decode_key_def
proof (intro triple_bind_lift)
  fix x y
  assume xy: "scalarmultBase (nw_sodium nw) (mt_agreement m) = Some x" "decodeAgreementPublicKeyBytes (ub_key b) = Some y"
  let ?m = "m\<lparr>mt_device := (case ub_device b of Some u \<Rightarrow> Some u | None \<Rightarrow> mt_device m)\<rparr>"
  have agree: "keys_agree nw ?m d" if "served nw b d" "agreementPubkeysEqual x y" for d
    using that xy unfolding pubkeys_equal_iff keys_agree_device by (auto simp: keys_agree_def)
  let ?ready = "\<lambda>m'. bind_act (agreementPublicKeyBase64Url nw m') (\<lambda>pub.
    ret ((plain_result Ready_keys (Some m'))\<lparr>br_local := Some pub, br_server := Some (ub_key b)\<rparr>))"
  have ready: "triple (\<lambda>d. served nw b d \<and> stored_keys nw m' d) (?ready m') (ready_ok nw) any_end"
    if "agreementPubkeysEqual x y" "\<And>d. keys_agree nw m' d = keys_agree nw ?m d" for m'
    using ready_result [of "served nw b" nw m' "(plain_result Ready_keys (Some m'))\<lparr>br_server := Some (ub_key b)\<rparr>"] that agree
    by (simp add: plain_result_def served_log)
  have sync: "triple (served nw b)
      (bind_act (syncFscpDeviceUuid nw ?m (Some (ub_key b))) (\<lambda>sync.
         case sync of
           None \<Rightarrow>
             bind_act (agreementPublicKeyBase64Url nw ?m) (\<lambda>pub.
             ret ((plain_result Registration_pending (Some ?m))
               \<lparr>br_local := Some pub, br_server := Some (ub_key b), br_pending := Some Sync_device_uuid\<rparr>))
         | Some u \<Rightarrow> ?ready (?m\<lparr>mt_device := Some u\<rparr>))) (ready_ok nw) any_end"
    if eq: "agreementPubkeysEqual x y"
  proof (rule triple_bind [OF sync_stores [OF served_log]])
    fix u
    show "triple (\<lambda>d. served nw b d \<and> (\<forall>v. u = Some v \<longrightarrow> stored_keys nw (?m\<lparr>mt_device := Some v\<rparr>) d))
      (case u of
           None \<Rightarrow>
             bind_act (agreementPublicKeyBase64Url nw ?m) (\<lambda>pub.
             ret ((plain_result Registration_pending (Some ?m))
               \<lparr>br_local := Some pub, br_server := Some (ub_key b), br_pending := Some Sync_device_uuid\<rparr>))
         | Some u \<Rightarrow> ?ready (?m\<lparr>mt_device := Some u\<rparr>)) (ready_ok nw) any_end"
    proof (cases u)
      case None
      then show ?thesis
        by simp (intro triple_pre [OF triple_bind_preserves, where P = always] run_intro not_ready_triple;
          simp add: plain_result_def)
    next
      case (Some v)
      then show ?thesis using ready [OF eq, of "?m\<lparr>mt_device := Some v\<rparr>"] by (simp del: mt_device_update_def)
    qed
  qed
  show "triple (served nw b)
    (if \<not> agreementPubkeysEqual x y then buildMismatchResult nw m (ub_key b)
     else let m1 = ?m; ready = ?ready
          in bind_act (persistFscpLocalMaterial nw m1) (\<lambda>_.
            if truthy (mt_device m1) then ready m1
            else bind_act (syncFscpDeviceUuid nw m1 (Some (ub_key b))) (\<lambda>sync.
              case sync of
                None \<Rightarrow>
                  bind_act (agreementPublicKeyBase64Url nw m1) (\<lambda>pub.
                  ret ((plain_result Registration_pending (Some m1))
                    \<lparr>br_local := Some pub, br_server := Some (ub_key b), br_pending := Some Sync_device_uuid\<rparr>))
              | Some u \<Rightarrow> ready (m1\<lparr>mt_device := Some u\<rparr>)))) (ready_ok nw) any_end"
  proof (cases "agreementPubkeysEqual x y")
    case True
    show ?thesis
      unfolding if_not_P [OF not_not [THEN iffD2, OF True]] Let_def
      by (rule triple_bind [OF persist_stores_any [OF served_log]])
        (use ready [OF True] sync [OF True] in \<open>auto intro: triple_pre\<close>)
  next
    case False
    then show ?thesis
      unfolding buildMismatchResult_def
      by (simp, intro triple_pre [OF triple_bind_preserves, where P = always] run_intro not_ready_triple; simp add: plain_result_def)
  qed
qed simp_all

definition served_opt :: "network \<Rightarrow> key_bundle option \<Rightarrow> device \<Rightarrow> bool" where
  "served_opt nw s d \<longleftrightarrow> (\<forall>b. s = Some b \<longrightarrow> served nw b d)"

lemma served_opt_log [run_intro]: "log_invariant R (served_opt nw s)"
  by (cases s) (simp_all add: served_opt_def [abs_def] log_const served_log)

lemma try_get_serves: "triple always (apiTryGetUserE2ePublicKey nw) (served_opt nw) any_end"
  by (auto simp: apiTryGetUserE2ePublicKey_def triple_def catch_act_def bind_act_def ret_def throw_def ask_def Let_def
      served_opt_def served_def intro!: exI split: outcome.splits)

lemma orphan_not_ready:
  "triple P (bind_act (agreementPublicKeyBase64Url nw m) (\<lambda>pub. ret ((plain_result Orphan_local_profile (Some m))\<lparr>br_local := Some pub\<rparr>)))
    (ready_ok nw) any_end"
  by (rule triple_pre [where P = always], intro triple_bind_preserves run_intro not_ready_triple) (simp_all add: plain_result_def)

lemma keep_local_ready: "triple (served_opt nw s) (keep_local nw l s) (ready_ok nw) any_end"
proof (cases s)
  case (Some b)
  then show ?thesis
    unfolding keep_local_def
    by (auto intro!: orphan_not_ready triple_catch [OF triple_pre [OF finalize_ready]] not_ready_triple simp: served_opt_def)
qed (simp add: keep_local_def orphan_not_ready)

lemma use_local_ready:
  "triple (\<lambda>d. \<forall>s. known = Some s \<longrightarrow> served_opt nw s d) (use_local nw l known) (ready_ok nw) any_end"
proof (cases known)
  case None
  show ?thesis
    unfolding use_local_def None option.simps
  proof (rule triple_bind [OF triple_attempt [OF triple_pre [OF try_get_serves]]])
    fix r
    show "triple (\<lambda>d. case r of Inl e \<Rightarrow> True | Inr s \<Rightarrow> served_opt nw s d)
      (case r of Inl e \<Rightarrow> ret (restoreFailureResult e (Some l) None) | Inr s \<Rightarrow> keep_local nw l s) (ready_ok nw) any_end"
      by (cases r) (simp_all add: not_ready_triple keep_local_ready)
  qed simp
qed (simp add: use_local_def keep_local_ready)

lemma finalize_restored_ready:
  "triple (\<lambda>d. \<forall>s. server = Some s \<longrightarrow> served_opt nw s d) (finalizeRestoredMaterial nw m server) (ready_ok nw) any_end"
  unfolding finalizeRestoredMaterial_def
proof (rule triple_bind_preserves)
  show "preserves (\<lambda>d. \<forall>s. server = Some s \<longrightarrow> served_opt nw s d) (persistFscpLocalMaterial nw m)"
    by (cases server) (simp_all add: preserves_persist log_const served_opt_log)
  show "triple (\<lambda>d. \<forall>s. server = Some s \<longrightarrow> served_opt nw s d)
     (bind_act (case server of Some s \<Rightarrow> ret s | None \<Rightarrow> apiTryGetUserE2ePublicKey nw) (\<lambda>bundle.
     case bundle of
       Some b \<Rightarrow>
         if ub_key b = [] then
           bind_act (agreementPublicKeyBase64Url nw m) (\<lambda>pub. ret ((plain_result Orphan_local_profile (Some m))\<lparr>br_local := Some pub\<rparr>))
         else finalizeWithServerPubkey nw m b
     | None \<Rightarrow>
         bind_act (agreementPublicKeyBase64Url nw m) (\<lambda>pub. ret ((plain_result Orphan_local_profile (Some m))\<lparr>br_local := Some pub\<rparr>))))
     (ready_ok nw) any_end"
  proof (rule triple_bind [where R = "served_opt nw"])
    show "triple (\<lambda>d. \<forall>s. server = Some s \<longrightarrow> served_opt nw s d)
        (case server of Some s \<Rightarrow> ret s | None \<Rightarrow> apiTryGetUserE2ePublicKey nw) (served_opt nw) any_end"
      by (cases server) (auto intro: triple_ret triple_pre [OF try_get_serves])
    fix got
    show "triple (served_opt nw got)
      (case got of
       Some b \<Rightarrow>
         if ub_key b = [] then
           bind_act (agreementPublicKeyBase64Url nw m) (\<lambda>pub. ret ((plain_result Orphan_local_profile (Some m))\<lparr>br_local := Some pub\<rparr>))
         else finalizeWithServerPubkey nw m b
     | None \<Rightarrow>
         bind_act (agreementPublicKeyBase64Url nw m) (\<lambda>pub. ret ((plain_result Orphan_local_profile (Some m))\<lparr>br_local := Some pub\<rparr>)))
      (ready_ok nw) any_end"
      by (cases got) (auto intro: orphan_not_ready triple_pre [OF finalize_ready] simp: served_opt_def)
  qed
qed simp

lemma finish_restore_ready:
  "triple (\<lambda>d. \<forall>s. server = Some s \<longrightarrow> served_opt nw s d) (finish_restore nw m server k) (ready_ok nw) any_end"
  unfolding finish_restore_def by (intro triple_catch [OF finalize_restored_ready] not_ready_triple) simp

text \<open>An invariant that does not look at the snapshot either.\<close>

definition plain_invariant :: "(device \<Rightarrow> bool) \<Rightarrow> bool" where
  "plain_invariant I \<longleftrightarrow> log_invariant key_requests I \<and> (\<forall>d s. I (d\<lparr>dv_snapshot := s\<rparr>) = I d)"

lemma plain_always [run_intro]: "plain_invariant always"
  by (simp add: plain_invariant_def)

lemma served_opt_plain [run_intro]: "plain_invariant (served_opt nw s)"
  by (simp add: plain_invariant_def served_opt_log) (simp add: served_opt_def served_def)

lemma preserves_note_snapshot [run_intro]: "plain_invariant I \<Longrightarrow> preserves I (note_snapshot f)"
  by (simp add: note_snapshot_def preserves_def triple_def plain_invariant_def)

lemma preserves_note [run_intro]: "plain_invariant I \<Longrightarrow> preserves I (note_backup op raw st)"
  by (simp add: note_backup_def preserves_def triple_def note_snapshot_def ret_def plain_invariant_def)

lemma preserves_note_failed [run_intro]: "plain_invariant I \<Longrightarrow> preserves I (note_failed_restore op raw e)"
  by (cases e) (simp_all add: note_failed_restore_def run_intro)

lemma preserves_always [run_intro]: "preserves always m"
  by (simp add: preserves_def triple_def split: prod.splits sum.splits)

definition ended_ok :: "network \<Rightarrow> bootstrap_result option \<Rightarrow> device \<Rightarrow> bool" where
  "ended_ok nw r d \<longleftrightarrow> (\<forall>x. r = Some x \<longrightarrow> ready_ok nw x d)"

lemma triple_step:
  assumes "\<And>x. triple always (f x) Q any_end"
  shows "triple always (bind_act m f) Q any_end"
  using assms by (intro triple_bind_preserves run_intro) simp_all

lemma ended_failure: "triple always (ret (Some (restoreFailureResult e m k))) (ended_ok nw) any_end"
  by (rule triple_ret) (simp add: ended_ok_def not_ready_ok)

lemma ended_none: "triple always (ret None) (ended_ok nw) any_end"
  by (rule triple_ret) (simp add: ended_ok_def)

lemma finish_ended:
  "triple always (bind_act (finish_restore nw m None None) (\<lambda>r. ret (Some r))) (ended_ok nw) any_end"
  by (rule triple_bind [OF triple_pre [OF finish_restore_ready]]) (auto intro!: triple_ret simp: ended_ok_def)

lemma forced_ready: "triple always (forced_restore nw op local) (ended_ok nw) any_end"
  unfolding forced_restore_def
  by (auto intro!: triple_step ended_none ended_failure finish_ended split: sum.split)

definition preferred_ok :: "network \<Rightarrow> bootstrap_result + key_bundle option option \<Rightarrow> device \<Rightarrow> bool" where
  "preferred_ok nw r d \<longleftrightarrow>
     (case r of Inl x \<Rightarrow> ready_ok nw x d | Inr known \<Rightarrow> (\<forall>s. known = Some s \<longrightarrow> served_opt nw s d))"

lemma step_failure: "triple always (ret (Inl (restoreFailureResult e m k))) (preferred_ok nw) any_end"
  by (rule triple_ret) (simp add: preferred_ok_def not_ready_ok)

lemma step_none: "triple always (ret (Inr None)) (preferred_ok nw) any_end"
  by (rule triple_ret) (simp add: preferred_ok_def)

lemma preferred_step:
  "triple always
     (catch_act
       (bind_act (restoreFromPasswordBackup nw pw raw) (\<lambda>m.
        bind_act (note_backup op (Some raw) (Some Healthy)) (\<lambda>_.
        bind_act (apiTryGetUserE2ePublicKey nw) (\<lambda>server.
        bind_act (shouldPreferBackupOverLocal nw l m (map_option ub_key server)) (\<lambda>prefer.
        if prefer then bind_act (finish_restore nw m (Some server) (map_option ub_key server)) (\<lambda>r. ret (Inl r))
        else ret (Inr (Some server)))))))
       (\<lambda>e. bind_act (note_failed_restore op raw e) (\<lambda>_.
          if e = Backup_error Aead_auth_failed then ret (Inr None)
          else ret (Inl (restoreFailureResult e (Some l) None))))) (preferred_ok nw) any_end"
proof (rule triple_catch [where R = any_end])
  show "triple always (bind_act (note_failed_restore op raw e) (\<lambda>_.
          if e = Backup_error Aead_auth_failed then ret (Inr None)
          else ret (Inl (restoreFailureResult e (Some l) None)))) (preferred_ok nw) any_end" for e
    by (rule triple_step) (auto intro: step_none step_failure)
  have prefers: "triple (served_opt nw server)
      (if wanted then bind_act (finish_restore nw m (Some server) (map_option ub_key server)) (\<lambda>r. ret (Inl r))
        else ret (Inr (Some server))) (preferred_ok nw) any_end" for wanted m server
    by (auto intro!: triple_bind [OF triple_pre [OF finish_restore_ready]] triple_ret simp: preferred_ok_def)
  show "triple always (bind_act (restoreFromPasswordBackup nw pw raw) (\<lambda>m.
        bind_act (note_backup op (Some raw) (Some Healthy)) (\<lambda>_.
        bind_act (apiTryGetUserE2ePublicKey nw) (\<lambda>server.
        bind_act (shouldPreferBackupOverLocal nw l m (map_option ub_key server)) (\<lambda>prefer.
        if prefer then bind_act (finish_restore nw m (Some server) (map_option ub_key server)) (\<lambda>r. ret (Inl r))
        else ret (Inr (Some server))))))) (preferred_ok nw) any_end"
    by (intro triple_step triple_bind [OF try_get_serves] triple_bind_preserves [OF _ prefers] preserves_finalize served_opt_log) simp
qed

lemma preferred_ready: "triple always (preferred_restore nw op local) (preferred_ok nw) any_end"
  unfolding preferred_restore_def
  by (auto intro!: triple_step step_none step_failure preferred_step split: option.split sum.split)

lemma create_ready: "triple always (create_identity nw) (ready_ok nw) any_end"
  unfolding create_identity_def
proof (rule triple_step, rule triple_step, rule triple_bind [OF publish_publishes])
  fix m u
  have ready: "triple (published nw m) (bind_act (persistFscpLocalMaterial nw (m\<lparr>mt_device := Some v\<rparr>)) (\<lambda>_.
      bind_act (agreementPublicKeyBase64Url nw (m\<lparr>mt_device := Some v\<rparr>)) (\<lambda>text.
      ret ((plain_result Ready_keys (Some (m\<lparr>mt_device := Some v\<rparr>)))\<lparr>br_local := Some text\<rparr>)))) (ready_ok nw) any_end" for v
    by (rule triple_bind [OF persist_stores_any [OF published_log]], rule ready_result [OF published_log])
      (simp_all add: keys_agree_def plain_result_def)
  show "triple (\<lambda>d. u \<noteq> None \<longrightarrow> published nw m d)
      (case u of
       None \<Rightarrow>
         bind_act (agreementPublicKeyBase64Url nw m) (\<lambda>text.
         ret ((plain_result Registration_pending (Some m))\<lparr>br_local := Some text, br_pending := Some Publish\<rparr>))
     | Some u \<Rightarrow>
         let m' = m\<lparr>mt_device := Some u\<rparr>
         in bind_act (persistFscpLocalMaterial nw m') (\<lambda>_.
            bind_act (agreementPublicKeyBase64Url nw m') (\<lambda>text.
            ret ((plain_result Ready_keys (Some m'))\<lparr>br_local := Some text\<rparr>)))) (ready_ok nw) any_end"
    by (cases u) (simp_all add: ready Let_def, intro triple_step not_ready_triple, simp add: plain_result_def)
qed

lemma not_ready_later: "br_status r \<noteq> Ready_keys \<Longrightarrow> triple always (bind_act m (\<lambda>_. ret r)) (ready_ok nw) any_end"
  by (intro triple_step not_ready_triple)

lemma restore_first_ready: "triple (served_opt nw server) (restore_first nw op server known) (ready_ok nw) any_end"
  unfolding restore_first_def Let_def
  by (auto intro!: not_ready_triple triple_bind_preserves run_intro triple_pre [OF finish_restore_ready]
      simp: plain_result_def served_opt_plain [unfolded plain_invariant_def] split: option.split sum.split)

lemma read_decision_serves: "triple always (read_decision nw op) (\<lambda>(e2e, server, known). served_opt nw server) any_end"
  unfolding read_decision_def
proof (rule triple_step, rule triple_bind [OF try_get_serves])
  fix e2e server
  have k: "triple (served_opt nw server) (ret (e2e, server, k)) (\<lambda>(e2e, server, known). served_opt nw server) any_end" for k
    by (rule triple_ret) simp
  show "triple (served_opt nw server)
     (bind_act (\<lambda>d. (Inr (if op_snapshot op then sn_backup (dv_snapshot d) else None), d)) (\<lambda>known.
     case known of
       Some k \<Rightarrow> ret (e2e, server, k)
     | None \<Rightarrow>
         bind_act (attempt (ask Get_backup (nw_backup nw))) (\<lambda>answer.
         case answer of
           Inr raw \<Rightarrow> ret (e2e, server, \<lparr>kn_raw = Some raw, kn_state = None\<rparr>)
         | Inl e \<Rightarrow> if e = Api_error 404 then ret (e2e, server, \<lparr>kn_raw = None, kn_state = Some Missing\<rparr>) else throw e)))
     (\<lambda>(e2e, server, known). served_opt nw server) any_end"
    by (auto intro!: triple_bind_preserves preserves_read preserves_attempt preserves_ask served_opt_log key_requests_mem k triple_throw
        split: option.split sum.split)
qed

lemma first_login_ready: "triple always (first_login nw op) (ready_ok nw) any_end"
  unfolding first_login_def
proof (rule triple_bind [OF triple_attempt [OF read_decision_serves]])
  fix r
  have "triple (served_opt nw server)
       (bind_act (if op_snapshot op then note_snapshot f else ret ()) (\<lambda>_.
         if need then restore_first nw op server known else create_identity nw)) (ready_ok nw) any_end" for server f need known
    by (rule triple_bind_preserves)
      (auto intro!: restore_first_ready triple_pre [OF create_ready] preserves_if preserves_ret preserves_note_snapshot served_opt_plain)
  then show "triple (\<lambda>d. case r of Inl e \<Rightarrow> True | Inr x \<Rightarrow> (case x of (e2e, server, known) \<Rightarrow> served_opt nw server) d)
     (case r of
       Inl e \<Rightarrow> ret (restoreFailureResult e None None)
     | Inr (e2e, server, known) \<Rightarrow>
         bind_act (if op_snapshot op then note_snapshot (\<lambda>s. s\<lparr>sn_e2e := Some e2e, sn_backup := Some known\<rparr>) else ret ()) (\<lambda>_.
         if accountRequiresKeyRestore (truthy (map_option (\<lambda>b. trim (ub_key b)) server)) (es_state e2e) (kn_state known \<noteq> Some Missing)
         then restore_first nw op server known
         else create_identity nw)) (ready_ok nw) any_end"
    by (auto intro: not_ready_triple split: sum.split prod.split)
qed

text \<open>
  C38. Keys count as ready only when they are the published ones: whatever the network answers, a resolve that ends
  ready holds keys whose public half the server served or accepted during this very resolve, and exactly these
  keys are in the storage of the device.
\<close>

theorem ready_keys_are_published:
  assumes "resolveFscpMaterialOnDevice nw op d = (Inr r, d')" "canDecryptFscp r"
  shows "\<exists>m. br_material r = Some m \<and> keys_agree nw m d' \<and> dv_profile d' = Some (profile_of nw m)"
proof -
  have "triple always (resolveFscpMaterialOnDevice nw op) (ready_ok nw) any_end"
    unfolding resolveFscpMaterialOnDevice_def
  proof (cases "toLowerCase (trim (op_owner op)) = []")
    case False
    have rest: "triple always (bind_act (preferred_restore nw op local) (\<lambda>step.
        case step of Inl r \<Rightarrow> ret r | Inr known \<Rightarrow> (case local of Some l \<Rightarrow> use_local nw l known | None \<Rightarrow> first_login nw op)))
        (ready_ok nw) any_end" for local
      by (rule triple_bind [OF preferred_ready])
        (auto intro!: triple_ret triple_pre [OF use_local_ready] triple_pre [OF first_login_ready] simp: preferred_ok_def
          split: sum.split option.split)
    have after: "triple (ended_ok nw found) (case found of Some r \<Rightarrow> ret r | None \<Rightarrow>
        bind_act (preferred_restore nw op local) (\<lambda>step.
        case step of Inl r \<Rightarrow> ret r | Inr known \<Rightarrow> (case local of Some l \<Rightarrow> use_local nw l known | None \<Rightarrow> first_login nw op)))
        (ready_ok nw) any_end" for found local
      by (cases found) (auto intro!: triple_ret triple_pre [OF rest] simp: ended_ok_def)
    show "triple always (if toLowerCase (trim (op_owner op)) = [] then ret (plain_result Needs_restore None)
      else bind_act (loadFscpLocalMaterial nw) (\<lambda>local.
           bind_act (forced_restore nw op local) (\<lambda>done.
           case done of
             Some r \<Rightarrow> ret r
           | None \<Rightarrow>
               bind_act (preferred_restore nw op local) (\<lambda>step.
               case step of
                 Inl r \<Rightarrow> ret r
               | Inr known \<Rightarrow> (case local of Some l \<Rightarrow> use_local nw l known | None \<Rightarrow> first_login nw op))))) (ready_ok nw) any_end"
      using False by (simp, intro triple_step triple_bind [OF forced_ready] after)
  qed (simp add: not_ready_triple plain_result_def)
  from tripleD [OF this assms(1)] assms(2) show ?thesis by (auto simp: ready_ok_def canDecryptFscp_def stored_keys_def)
qed

section \<open>A new identity is only made for a fresh account\<close>

definition backup_missing :: "network \<Rightarrow> device \<Rightarrow> bool" where
  "backup_missing nw d \<longleftrightarrow> (\<exists>i. seen Get_backup i d \<and> nw_backup nw i = Threw (Api_error 404))"

definition key_missing :: "network \<Rightarrow> device \<Rightarrow> bool" where
  "key_missing nw d \<longleftrightarrow>
     (\<exists>i. seen Get_key i d \<and>
        (nw_key nw i = Threw (Api_error 404) \<or> (\<exists>b. nw_key nw i = Returned b \<and> trim (ub_key b) = [])))"

definition not_initialized :: "network \<Rightarrow> device \<Rightarrow> bool" where
  "not_initialized nw d \<longleftrightarrow>
     (\<exists>i e. seen Get_e2e_state i d \<and> nw_e2e nw i = Returned e \<and> es_state e = js ''not_initialized'')"

text \<open>The server said during this resolve that there is no key, no backup and no state.\<close>

definition fresh_account :: "network \<Rightarrow> device \<Rightarrow> bool" where
  "fresh_account nw d \<longleftrightarrow> backup_missing nw d \<and> key_missing nw d \<and> not_initialized nw d"

text \<open>No identity was made yet, and a backup noted as missing was missing.\<close>

definition unmade :: "network \<Rightarrow> device \<Rightarrow> bool" where
  "unmade nw d \<longleftrightarrow>
     New_identity \<notin> set (dv_log d) \<and>
     (\<forall>k. sn_backup (dv_snapshot d) = Some k \<longrightarrow> kn_state k = Some Missing \<longrightarrow> backup_missing nw d)"

lemma missing_log [run_intro]: "log_invariant R (backup_missing nw)" "log_invariant R (key_missing nw)"
    "log_invariant R (not_initialized nw)"
  unfolding backup_missing_def key_missing_def not_initialized_def by (intro run_intro)+

lemma missing_plain [simp]: "backup_missing nw (d\<lparr>dv_snapshot := s\<rparr>) = backup_missing nw d"
    "key_missing nw (d\<lparr>dv_snapshot := s\<rparr>) = key_missing nw d" "not_initialized nw (d\<lparr>dv_snapshot := s\<rparr>) = not_initialized nw d"
  by (simp_all add: backup_missing_def key_missing_def not_initialized_def)

lemma fresh_log [run_intro]: "log_invariant R (fresh_account nw)"
  unfolding fresh_account_def by (intro run_intro)

lemma unmade_log [run_intro]: "log_invariant key_requests (unmade nw)"
  using missing_log(1) [of key_requests nw]
  by (auto simp: log_invariant_def unmade_def key_requests_def)

lemma preserves_note_state [run_intro]:
  assumes "st \<noteq> Some Missing"
  shows "preserves (unmade nw) (note_backup op raw st)"
  using assms by (auto simp: note_backup_def preserves_def triple_def note_snapshot_def ret_def unmade_def)

lemma preserves_note_kind [run_intro]: "preserves (unmade nw) (note_failed_restore op raw e)"
  by (cases e) (auto simp: note_failed_restore_def state_of_kind_def intro!: run_intro split: backup_kind.split)

lemma note_missing:
  "triple (\<lambda>d. unmade nw d \<and> backup_missing nw d) (note_backup op None (Some Missing)) (\<lambda>_. unmade nw) (\<lambda>_. unmade nw)"
  by (auto simp: note_backup_def triple_def note_snapshot_def ret_def unmade_def)

lemma ask_backup:
  "triple (unmade nw) (attempt (ask Get_backup (nw_backup nw)))
     (\<lambda>r d. unmade nw d \<and> (\<forall>e. r = Inl e \<longrightarrow> classifyTransportFailure e = Not_found \<longrightarrow> backup_missing nw d)) (\<lambda>_. unmade nw)"
proof -
  have "classifyTransportFailure e = Not_found \<Longrightarrow> e = Api_error 404" for e
    by (auto simp: classifyTransportFailure_def isNetworkError_def split: failure.splits if_splits)
  moreover have "unmade nw d \<Longrightarrow> unmade nw (d\<lparr>dv_log := dv_log d @ [Get_backup]\<rparr>)" for d
    using unmade_log [of nw] by (simp add: log_invariant_def key_requests_def)
  ultimately show ?thesis
    by (fastforce simp: triple_def attempt_def ask_def Let_def backup_missing_def split: outcome.splits intro: seen_next)
qed

lemma unmade_pre: "triple (unmade nw) m (\<lambda>_. unmade nw) (\<lambda>_. unmade nw) = preserves (unmade nw) m"
  by (simp add: preserves_def)

lemma forced_unmade: "preserves (unmade nw) (forced_restore nw op local)"
proof (cases "truthy (op_password op) \<and> op_force op")
  case True
  have "triple (unmade nw) (forced_restore nw op local) (\<lambda>_. unmade nw) (\<lambda>_. unmade nw)"
    unfolding forced_restore_def if_not_P [OF not_not [THEN iffD2, OF True]]
  proof (rule triple_bind [OF ask_backup])
    fix answer
    show "triple (\<lambda>d. unmade nw d \<and> (\<forall>e. answer = Inl e \<longrightarrow> classifyTransportFailure e = Not_found \<longrightarrow> backup_missing nw d))
        (case answer of
          Inl e \<Rightarrow>
            if classifyTransportFailure e = Not_found then bind_act (note_backup op None (Some Missing)) (\<lambda>_. ret None)
            else ret (Some (restoreFailureResult e local None))
        | Inr raw \<Rightarrow>
            bind_act (note_backup op (Some raw) None) (\<lambda>_.
            bind_act (attempt (restoreFromPasswordBackup nw (the (op_password op)) raw)) (\<lambda>restored.
            case restored of
              Inl e \<Rightarrow> bind_act (note_failed_restore op raw e) (\<lambda>_. ret (Some (restoreFailureResult e local None)))
            | Inr m \<Rightarrow>
                bind_act (note_backup op (Some raw) (Some Healthy)) (\<lambda>_.
                bind_act (finish_restore nw m None None) (\<lambda>r. ret (Some r)))))) (\<lambda>_. unmade nw) (\<lambda>_. unmade nw)"
    proof (cases answer)
      case (Inl e)
      then show ?thesis
        by (cases "classifyTransportFailure e = Not_found")
          (auto intro!: triple_bind [OF note_missing] triple_ret)
    next
      case (Inr raw)
      then show ?thesis unfolding Inr sum.case
        by (simp add: unmade_pre) (intro run_intro unmade_log; simp)
    qed
  qed
  then show ?thesis by (simp add: preserves_def)
qed (simp add: forced_restore_def run_intro)

lemma preferred_unmade: "preserves (unmade nw) (preferred_restore nw op local)"
proof (cases local)
  case (Some l)
  show ?thesis
  proof (cases "truthy (op_password op) \<and> op_prefer op")
    case True
    have "triple (unmade nw) (preferred_restore nw op local) (\<lambda>_. unmade nw) (\<lambda>_. unmade nw)"
      unfolding preferred_restore_def Some option.case if_not_P [OF not_not [THEN iffD2, OF True]]
    proof (rule triple_bind [OF ask_backup])
      fix answer :: "failure + json"
      have failed: "triple (\<lambda>d. unmade nw d \<and> (\<forall>f. answer = Inl f \<longrightarrow> classifyTransportFailure f = Not_found \<longrightarrow> backup_missing nw d))
          (if classifyTransportFailure e = Not_found then bind_act (note_backup op None (Some Missing)) (\<lambda>_. ret (Inr None))
           else ret (Inl x)) (\<lambda>_. unmade nw) (\<lambda>_. unmade nw)" if "answer = Inl e" for e and x :: bootstrap_result
        using that by (cases "classifyTransportFailure e = Not_found") (auto intro!: triple_bind [OF note_missing] triple_ret)
      have read: "triple (\<lambda>d. unmade nw d \<and> (\<forall>f. answer = Inl f \<longrightarrow> classifyTransportFailure f = Not_found \<longrightarrow> backup_missing nw d)) m
          (\<lambda>_. unmade nw) (\<lambda>_. unmade nw)" if "preserves (unmade nw) m" for m :: "(bootstrap_result + key_bundle option option) act"
        using that by (auto simp: preserves_def intro: triple_pre)
      show "triple (\<lambda>d. unmade nw d \<and> (\<forall>e. answer = Inl e \<longrightarrow> classifyTransportFailure e = Not_found \<longrightarrow> backup_missing nw d))
          (case answer of
              Inl e \<Rightarrow>
                if classifyTransportFailure e = Not_found then bind_act (note_backup op None (Some Missing)) (\<lambda>_. ret (Inr None))
                else ret (Inl (restoreFailureResult e (Some l) None))
            | Inr raw \<Rightarrow>
                bind_act (note_backup op (Some raw) None) (\<lambda>_.
                catch_act
                  (bind_act (restoreFromPasswordBackup nw (the (op_password op)) raw) (\<lambda>m.
                   bind_act (note_backup op (Some raw) (Some Healthy)) (\<lambda>_.
                   bind_act (apiTryGetUserE2ePublicKey nw) (\<lambda>server.
                   bind_act (shouldPreferBackupOverLocal nw l m (map_option ub_key server)) (\<lambda>prefer.
                   if prefer then bind_act (finish_restore nw m (Some server) (map_option ub_key server)) (\<lambda>r. ret (Inl r))
                   else ret (Inr (Some server)))))))
                  (\<lambda>e. bind_act (note_failed_restore op raw e) (\<lambda>_.
                     if e = Backup_error Aead_auth_failed then ret (Inr None)
                     else ret (Inl (restoreFailureResult e (Some l) None)))))) (\<lambda>_. unmade nw) (\<lambda>_. unmade nw)"
      proof (cases answer)
        case (Inr raw)
        show ?thesis unfolding Inr sum.case by (rule read [unfolded Inr], intro run_intro unmade_log; simp)
      next
        case (Inl e)
        show ?thesis unfolding Inl sum.case by (rule failed [OF Inl, unfolded Inl])
      qed
    qed
    then show ?thesis by (simp add: preserves_def)
  qed (simp add: preferred_restore_def Some run_intro)
qed (simp add: preferred_restore_def run_intro)

lemma decision_unmade:
  "triple (unmade nw) (read_decision nw op)
     (\<lambda>(e2e, server, known) d. unmade nw d \<and> (es_state e2e = js ''not_initialized'' \<longrightarrow> not_initialized nw d) \<and>
        (\<not> truthy (map_option (\<lambda>b. trim (ub_key b)) server) \<longrightarrow> key_missing nw d) \<and>
        (kn_state known = Some Missing \<longrightarrow> backup_missing nw d)) (\<lambda>_. unmade nw)"
  unfolding read_decision_def
proof (rule triple_bind)
  have grow: "unmade nw d \<Longrightarrow> r \<in> key_requests \<Longrightarrow> unmade nw (d\<lparr>dv_log := dv_log d @ [r]\<rparr>)" for d r
    using unmade_log [of nw] by (simp add: log_invariant_def)
  show "triple (unmade nw) (ask Get_e2e_state (nw_e2e nw))
      (\<lambda>e2e d. unmade nw d \<and> (es_state e2e = js ''not_initialized'' \<longrightarrow> not_initialized nw d)) (\<lambda>_. unmade nw)"
    by (rule triple_ask) (auto simp: not_initialized_def grow key_requests_def intro: seen_next)
  fix e2e
  define J where "J = (\<lambda>d. unmade nw d \<and> (es_state e2e = js ''not_initialized'' \<longrightarrow> not_initialized nw d))"
  have J: "log_invariant key_requests J"
    unfolding J_def by (cases "es_state e2e = js ''not_initialized''") (simp_all add: log_and unmade_log missing_log)
  have Jn: "J d \<Longrightarrow> r \<in> key_requests \<Longrightarrow> J (d\<lparr>dv_log := dv_log d @ [r]\<rparr>)" for d r
    using J by (simp add: log_invariant_def)
  have key: "triple J (apiTryGetUserE2ePublicKey nw)
      (\<lambda>server d. J d \<and> (\<not> truthy (map_option (\<lambda>b. trim (ub_key b)) server) \<longrightarrow> key_missing nw d)) (\<lambda>_. J)"
    by (auto simp: apiTryGetUserE2ePublicKey_def triple_def catch_act_def bind_act_def ret_def throw_def ask_def Let_def
        key_missing_def truthy_def Jn key_requests_def intro: seen_next split: outcome.splits)
  have key': "triple J (apiTryGetUserE2ePublicKey nw)
      (\<lambda>server d. J d \<and> (\<not> truthy (map_option (\<lambda>b. trim (ub_key b)) server) \<longrightarrow> key_missing nw d)) (\<lambda>_. unmade nw)"
    by (rule triple_weaken [OF key]) (auto simp: J_def)
  show "triple (\<lambda>d. unmade nw d \<and> (es_state e2e = js ''not_initialized'' \<longrightarrow> not_initialized nw d))
     (bind_act (apiTryGetUserE2ePublicKey nw) (\<lambda>server.
     bind_act (\<lambda>d. (Inr (if op_snapshot op then sn_backup (dv_snapshot d) else None), d)) (\<lambda>known.
     case known of
       Some k \<Rightarrow> ret (e2e, server, k)
     | None \<Rightarrow>
         bind_act (attempt (ask Get_backup (nw_backup nw))) (\<lambda>answer.
         case answer of
           Inr raw \<Rightarrow> ret (e2e, server, \<lparr>kn_raw = Some raw, kn_state = None\<rparr>)
         | Inl e \<Rightarrow> if e = Api_error 404 then ret (e2e, server, \<lparr>kn_raw = None, kn_state = Some Missing\<rparr>) else throw e))))
     (\<lambda>(e2e, server, known) d. unmade nw d \<and> (es_state e2e = js ''not_initialized'' \<longrightarrow> not_initialized nw d) \<and>
        (\<not> truthy (map_option (\<lambda>b. trim (ub_key b)) server) \<longrightarrow> key_missing nw d) \<and>
        (kn_state known = Some Missing \<longrightarrow> backup_missing nw d)) (\<lambda>_. unmade nw)"
    unfolding J_def [symmetric]
  proof (rule triple_bind [OF key'])
    fix server
    define K where "K = (\<lambda>d. J d \<and> (\<not> truthy (map_option (\<lambda>b. trim (ub_key b)) server) \<longrightarrow> key_missing nw d))"
    have K: "log_invariant key_requests K"
      unfolding K_def by (cases "truthy (map_option (\<lambda>b. trim (ub_key b)) server)") (simp_all add: log_and J missing_log)
    have Kn: "K d \<Longrightarrow> K (d\<lparr>dv_log := dv_log d @ [Get_backup]\<rparr>)" for d
      using K by (simp add: log_invariant_def key_requests_def)
    have KU: "K d \<Longrightarrow> unmade nw d" for d by (simp add: K_def J_def)
    let ?Q = "\<lambda>(e2e, server, known) d. unmade nw d \<and> (es_state e2e = js ''not_initialized'' \<longrightarrow> not_initialized nw d) \<and>
        (\<not> truthy (map_option (\<lambda>b. trim (ub_key b)) server) \<longrightarrow> key_missing nw d) \<and>
        (kn_state known = Some Missing \<longrightarrow> backup_missing nw d)"
    have known: "triple K (\<lambda>d. (Inr (if op_snapshot op then sn_backup (dv_snapshot d) else None), d))
        (\<lambda>known d. K d \<and> (\<forall>k. known = Some k \<longrightarrow> kn_state k = Some Missing \<longrightarrow> backup_missing nw d)) (\<lambda>_. unmade nw)"
      using KU by (auto simp: triple_def unmade_def)
    have read: "triple K (attempt (ask Get_backup (nw_backup nw)))
        (\<lambda>answer d. K d \<and> (answer = Inl (Api_error 404) \<longrightarrow> backup_missing nw d)) (\<lambda>_. unmade nw)"
      using Kn by (auto simp: triple_def attempt_def ask_def Let_def backup_missing_def intro: seen_next split: outcome.splits)
    show "triple K
     (bind_act (\<lambda>d. (Inr (if op_snapshot op then sn_backup (dv_snapshot d) else None), d)) (\<lambda>known.
     case known of
       Some k \<Rightarrow> ret (e2e, server, k)
     | None \<Rightarrow>
         bind_act (attempt (ask Get_backup (nw_backup nw))) (\<lambda>answer.
         case answer of
           Inr raw \<Rightarrow> ret (e2e, server, \<lparr>kn_raw = Some raw, kn_state = None\<rparr>)
         | Inl e \<Rightarrow> if e = Api_error 404 then ret (e2e, server, \<lparr>kn_raw = None, kn_state = Some Missing\<rparr>) else throw e)))
     ?Q (\<lambda>_. unmade nw)"
    proof (rule triple_bind [OF known])
      fix known
      show "triple (\<lambda>d. K d \<and> (\<forall>k. known = Some k \<longrightarrow> kn_state k = Some Missing \<longrightarrow> backup_missing nw d))
        (case known of
       Some k \<Rightarrow> ret (e2e, server, k)
     | None \<Rightarrow>
         bind_act (attempt (ask Get_backup (nw_backup nw))) (\<lambda>answer.
         case answer of
           Inr raw \<Rightarrow> ret (e2e, server, \<lparr>kn_raw = Some raw, kn_state = None\<rparr>)
         | Inl e \<Rightarrow> if e = Api_error 404 then ret (e2e, server, \<lparr>kn_raw = None, kn_state = Some Missing\<rparr>) else throw e))
        ?Q (\<lambda>_. unmade nw)"
      proof (cases known)
        case None
        have answered: "triple (\<lambda>d. K d \<and> (answer = Inl (Api_error 404) \<longrightarrow> backup_missing nw d))
          (case answer of
             Inr raw \<Rightarrow> ret (e2e, server, \<lparr>kn_raw = Some raw, kn_state = None\<rparr>)
           | Inl e \<Rightarrow> if e = Api_error 404 then ret (e2e, server, \<lparr>kn_raw = None, kn_state = Some Missing\<rparr>) else throw e)
          ?Q (\<lambda>_. unmade nw)" for answer
          by (cases answer) (auto intro!: triple_ret triple_throw simp: K_def J_def)
        show ?thesis unfolding None option.case by (rule triple_pre [OF triple_bind [OF read answered]]) simp
      next
        case (Some k)
        show ?thesis unfolding Some option.case by (rule triple_ret) (auto simp: K_def J_def)
      qed
    qed
  qed
qed


lemma fresh_snapshot [simp]: "fresh_account nw (d\<lparr>dv_snapshot := s\<rparr>) = fresh_account nw d"
  by (simp add: fresh_account_def)

text \<open>An identity that was made was made for a fresh account.\<close>

definition justified :: "network \<Rightarrow> device \<Rightarrow> bool" where
  "justified nw d \<longleftrightarrow> (New_identity \<in> set (dv_log d) \<longrightarrow> fresh_account nw d)"

lemma unmade_justified: "unmade nw d \<Longrightarrow> justified nw d"
  by (simp add: unmade_def justified_def)

lemma justified_log [run_intro]: "log_invariant key_requests (justified nw)"
  using fresh_log [of key_requests nw] by (auto simp: log_invariant_def justified_def key_requests_def)

lemma justified_plain [run_intro]: "plain_invariant (justified nw)"
  by (simp add: plain_invariant_def justified_log) (simp add: justified_def)

lemma create_justified: "triple (fresh_account nw) (create_identity nw) (\<lambda>_. justified nw) (\<lambda>_. justified nw)"
  unfolding create_identity_def
proof (rule triple_bind)
  have "fresh_account nw d \<Longrightarrow> fresh_account nw (d\<lparr>dv_log := dv_log d @ [New_identity]\<rparr>)" for d
    using fresh_log [of UNIV nw] by (simp add: log_invariant_def)
  then show "triple (fresh_account nw) (\<lambda>d. (Inr (nw_fresh nw), d\<lparr>dv_log := dv_log d @ [New_identity]\<rparr>)) (\<lambda>_. justified nw)
      (\<lambda>_. justified nw)"
    by (simp add: triple_def justified_def)
  show "triple (justified nw) (bind_act (persistFscpLocalMaterial nw m) (\<lambda>_.
     bind_act (publishAgreementPublicKey nw m) (\<lambda>pub.
     case pub of
       None \<Rightarrow>
         bind_act (agreementPublicKeyBase64Url nw m) (\<lambda>text.
         ret ((plain_result Registration_pending (Some m))\<lparr>br_local := Some text, br_pending := Some Publish\<rparr>))
     | Some u \<Rightarrow>
         let m' = m\<lparr>mt_device := Some u\<rparr>
         in bind_act (persistFscpLocalMaterial nw m') (\<lambda>_.
            bind_act (agreementPublicKeyBase64Url nw m') (\<lambda>text.
            ret ((plain_result Ready_keys (Some m'))\<lparr>br_local := Some text\<rparr>)))))) (\<lambda>_. justified nw) (\<lambda>_. justified nw)" for m
    unfolding preserves_def [symmetric] Let_def by (intro run_intro)
qed

lemma preserves_restore_first: "plain_invariant I \<Longrightarrow> preserves I (restore_first nw op server known)"
  unfolding restore_first_def Let_def
  by (auto intro!: run_intro simp: plain_invariant_def split: option.split sum.split)

lemma preserves_use_local: "log_invariant key_requests I \<Longrightarrow> preserves I (use_local nw l known)"
  unfolding use_local_def keep_local_def
  by (intro run_intro; assumption)

lemma first_login_justified: "triple (unmade nw) (first_login nw op) (\<lambda>_. justified nw) (\<lambda>_. justified nw)"
  unfolding first_login_def
proof (rule triple_bind [OF triple_attempt [OF decision_unmade]])
  fix r
  have fresh: "triple (fresh_account nw) (bind_act (if op_snapshot op then note_snapshot f else ret ()) (\<lambda>_. create_identity nw))
      (\<lambda>_. justified nw) (\<lambda>_. justified nw)" for f
    by (rule triple_bind [OF _ create_justified]) (simp add: triple_def note_snapshot_def ret_def)
  have kept: "triple (justified nw) (bind_act (if op_snapshot op then note_snapshot f else ret ()) (\<lambda>_. restore_first nw op server known))
      (\<lambda>_. justified nw) (\<lambda>_. justified nw)" for f server known
    unfolding preserves_def [symmetric] by (intro run_intro preserves_restore_first)
  have created: "triple (\<lambda>d. unmade nw d \<and> (es_state e2e = js ''not_initialized'' \<longrightarrow> not_initialized nw d) \<and>
        (\<not> truthy (map_option (\<lambda>b. trim (ub_key b)) server) \<longrightarrow> key_missing nw d) \<and>
        (kn_state known = Some Missing \<longrightarrow> backup_missing nw d))
      (bind_act (if op_snapshot op then note_snapshot (\<lambda>s. s\<lparr>sn_e2e := Some e2e, sn_backup := Some known\<rparr>) else ret ()) (\<lambda>_.
         if accountRequiresKeyRestore (truthy (map_option (\<lambda>b. trim (ub_key b)) server)) (es_state e2e) (kn_state known \<noteq> Some Missing)
         then restore_first nw op server known
         else create_identity nw)) (\<lambda>_. justified nw) (\<lambda>_. justified nw)" for e2e server known
  proof (cases "accountRequiresKeyRestore (truthy (map_option (\<lambda>b. trim (ub_key b)) server)) (es_state e2e) (kn_state known \<noteq> Some Missing)")
    case True
    show ?thesis unfolding if_P [OF True] by (rule triple_pre [OF kept]) (simp add: unmade_justified)
  next
    case False
    show ?thesis unfolding if_not_P [OF False]
      by (rule triple_pre [OF fresh]) (use False in \<open>simp add: fresh_account_def accountRequiresKeyRestore_def split: if_splits\<close>)
  qed
  show "triple (\<lambda>d. case r of Inl e \<Rightarrow> unmade nw d
        | Inr x \<Rightarrow> (case x of (e2e, server, known) \<Rightarrow> \<lambda>d. unmade nw d \<and> (es_state e2e = js ''not_initialized'' \<longrightarrow> not_initialized nw d) \<and>
            (\<not> truthy (map_option (\<lambda>b. trim (ub_key b)) server) \<longrightarrow> key_missing nw d) \<and>
            (kn_state known = Some Missing \<longrightarrow> backup_missing nw d)) d)
     (case r of
       Inl e \<Rightarrow> ret (restoreFailureResult e None None)
     | Inr (e2e, server, known) \<Rightarrow>
         bind_act (if op_snapshot op then note_snapshot (\<lambda>s. s\<lparr>sn_e2e := Some e2e, sn_backup := Some known\<rparr>) else ret ()) (\<lambda>_.
         if accountRequiresKeyRestore (truthy (map_option (\<lambda>b. trim (ub_key b)) server)) (es_state e2e) (kn_state known \<noteq> Some Missing)
         then restore_first nw op server known
         else create_identity nw)) (\<lambda>_. justified nw) (\<lambda>_. justified nw)"
  proof (cases r)
    case (Inr x)
    then show ?thesis using created by (cases x) simp
  qed (simp add: triple_ret unmade_justified)
qed


definition after_load :: "network \<Rightarrow> resolve_options \<Rightarrow> material option \<Rightarrow> bootstrap_result act" where
  "after_load nw op local =
     bind_act (forced_restore nw op local) (\<lambda>done.
     case done of
       Some r \<Rightarrow> ret r
     | None \<Rightarrow>
         bind_act (preferred_restore nw op local) (\<lambda>step.
         case step of
           Inl r \<Rightarrow> ret r
         | Inr known \<Rightarrow> (case local of Some l \<Rightarrow> use_local nw l known | None \<Rightarrow> first_login nw op)))"

lemma after_load_some: "preserves (unmade nw) (after_load nw op (Some l))"
  unfolding after_load_def option.case
  by (intro run_intro forced_unmade preferred_unmade preserves_use_local unmade_log)

lemma triple_post:
  "triple P m Q E \<Longrightarrow> (\<And>x d. Q x d \<Longrightarrow> Q' x d) \<Longrightarrow> (\<And>e d. E e d \<Longrightarrow> E' e d) \<Longrightarrow> triple P m Q' E'"
  by (rule triple_weaken)

lemma after_load_none: "triple (unmade nw) (after_load nw op None) (\<lambda>_. justified nw) (\<lambda>_. justified nw)"
  unfolding after_load_def option.case
proof (rule triple_bind [where R = "\<lambda>_. unmade nw"])
  have unmade_first: "triple (unmade nw) m (\<lambda>_. unmade nw) (\<lambda>_. justified nw)" if "preserves (unmade nw) m" for m :: "'a act"
    using that unmade_justified by (auto simp: preserves_def intro: triple_post)
  show "triple (unmade nw) (forced_restore nw op None) (\<lambda>_. unmade nw) (\<lambda>_. justified nw)"
    by (rule unmade_first [OF forced_unmade])
  fix found
  have "triple (unmade nw) (case step of Inl r \<Rightarrow> ret r | Inr known \<Rightarrow> first_login nw op) (\<lambda>_. justified nw) (\<lambda>_. justified nw)"
    for step :: "bootstrap_result + key_bundle option option"
    by (cases step) (simp_all add: triple_ret unmade_justified first_login_justified)
  then show "triple (unmade nw)
     (case found of Some r \<Rightarrow> ret r
      | None \<Rightarrow> bind_act (preferred_restore nw op None) (\<lambda>step. case step of Inl r \<Rightarrow> ret r | Inr known \<Rightarrow> first_login nw op))
     (\<lambda>_. justified nw) (\<lambda>_. justified nw)"
    by (cases found)
      (auto intro: triple_ret unmade_justified triple_bind
        [OF triple_post [OF preferred_unmade [unfolded preserves_def], where E' = "\<lambda>_. justified nw"]])
qed

lemma load_answers:
  "loadFscpLocalMaterial nw d = (r, d') \<Longrightarrow> d' = d \<and> (r = Inr None \<longrightarrow> dv_profile d = None \<and> nw_load nw = None)"
  by (auto simp: loadFscpLocalMaterial_def read_profile_def bind_act_def lift_opt_def ret_def throw_def
      split: option.splits prod.splits sum.splits)

text \<open>
  C37. No key is ever replaced behind the user's back: a resolve makes a new identity only when the device has no
  profile and the server answered, during this very resolve, that there is no published key, no backup and no
  account state; no failed or unreadable answer counts as absence.
\<close>

theorem new_identity_only_for_fresh_account:
  assumes run: "resolveFscpMaterialOnDevice nw op d = (r, d')" and start: "New_identity \<notin> set (dv_log d)" "sn_backup (dv_snapshot d) = None"
    and made: "New_identity \<in> set (dv_log d')"
  shows "dv_profile d = None \<and> nw_load nw = None \<and> backup_missing nw d' \<and> key_missing nw d' \<and> not_initialized nw d'"
proof -
  have unmade: "unmade nw d" using start by (simp add: unmade_def)
  have "toLowerCase (trim (op_owner op)) \<noteq> []" using run start made by (auto simp: resolveFscpMaterialOnDevice_def ret_def)
  then have resolve: "(r, d') = bind_act (loadFscpLocalMaterial nw) (after_load nw op) d"
    using run by (simp add: resolveFscpMaterialOnDevice_def after_load_def [abs_def])
  obtain x d1 where load: "loadFscpLocalMaterial nw d = (x, d1)" by fastforce
  note loaded = load_answers [OF load]
  show ?thesis
  proof (cases "x = Inr None")
    case True
    then have "after_load nw op None d = (r, d')" using resolve load loaded by (simp add: bind_act_def)
    then have "justified nw d'"
      using after_load_none [of nw op] unmade by (cases r) (auto simp: triple_def dest!: spec [of _ d])
    then show ?thesis using loaded True made by (simp add: justified_def fresh_account_def)
  next
    case False
    then consider e where "x = Inl e" | l where "x = Inr (Some l)" by (cases x) auto
    then have "unmade nw d'"
    proof cases
      case 2
      then have "after_load nw op (Some l) d = (r, d')" using resolve load loaded by (simp add: bind_act_def)
      from preservesD [OF after_load_some this unmade] show ?thesis .
    qed (use resolve load loaded unmade in \<open>auto simp: bind_act_def\<close>)
    then show ?thesis using made by (simp add: unmade_def)
  qed
qed

section \<open>A first login\<close>

text \<open>A server that knows nothing of the account and accepts a key, and a device without a profile.\<close>

definition toy_network :: network where
  "toy_network =
     \<lparr>nw_library = toy_library, nw_backup = (\<lambda>_. Threw (Api_error 404)), nw_key = (\<lambda>_. Threw (Api_error 404)),
      nw_e2e = (\<lambda>_. Returned \<lparr>es_state = js ''not_initialized'', es_freeze = False\<rparr>), nw_put_key = (\<lambda>_. Returned (js ''d'')),
      nw_put_backup = (\<lambda>_. Returned ()), nw_load = None, nw_store = (\<lambda>_. None), nw_crypto = Type_error,
      nw_fresh = \<lparr>mt_agreement = replicate 32 7, mt_signing = replicate 64 9, mt_device = None\<rparr>, nw_backupKeyId = js ''k'',
      nw_salt = [1], nw_nonce = replicate 24 2\<rparr>"

definition toy_device :: device where
  "toy_device = \<lparr>dv_profile = None, dv_log = [], dv_snapshot = \<lparr>sn_e2e = None, sn_backup = None\<rparr>\<rparr>"

definition toy_resolve :: resolve_options where
  "toy_resolve = \<lparr>op_owner = js ''u'', op_password = None, op_prefer = False, op_force = False, op_snapshot = True\<rparr>"

lemma toy_run:
  obtains r d' where "resolveFscpMaterialOnDevice toy_network toy_resolve toy_device = (Inr r, d')" "canDecryptFscp r"
    "New_identity \<in> set (dv_log d')"
proof -
  have "\<exists>r d'. resolveFscpMaterialOnDevice toy_network toy_resolve toy_device = (Inr r, d') \<and> canDecryptFscp r \<and>
      New_identity \<in> set (dv_log d')"
    by (simp add: resolveFscpMaterialOnDevice_def toy_network_def toy_device_def toy_resolve_def loadFscpLocalMaterial_def
        forced_restore_def preferred_restore_def first_login_def read_decision_def apiTryGetUserE2ePublicKey_def
        ask_def attempt_def catch_act_def bind_act_def ret_def throw_def note_snapshot_def accountRequiresKeyRestore_def
        create_identity_def persistFscpLocalMaterial_def publishAgreementPublicKey_def agreementPublicKeyBase64Url_def
        deriveAgreementPublicKeyBytes_def lift_opt_def scalarmultBase_def toy_library_def toy_sodium_def Let_def
        truthy_def trim_def is_space_unit_def toLowerCase_def lower_unit_def plain_result_def canDecryptFscp_def)
  then show ?thesis using that by blast
qed

theorem ready_keys_are_published_witness:
  "\<exists>r d' m. resolveFscpMaterialOnDevice toy_network toy_resolve toy_device = (Inr r, d') \<and> canDecryptFscp r \<and>
     br_material r = Some m \<and> keys_agree toy_network m d' \<and> dv_profile d' = Some (profile_of toy_network m)"
proof -
  obtain r d' where "resolveFscpMaterialOnDevice toy_network toy_resolve toy_device = (Inr r, d')" "canDecryptFscp r"
    using toy_run .
  from this ready_keys_are_published [OF this] show ?thesis by blast
qed

theorem new_identity_only_for_fresh_account_witness:
  "\<exists>r d'. resolveFscpMaterialOnDevice toy_network toy_resolve toy_device = (r, d') \<and> New_identity \<in> set (dv_log d') \<and>
     dv_profile toy_device = None \<and> nw_load toy_network = None \<and> backup_missing toy_network d' \<and> key_missing toy_network d' \<and>
     not_initialized toy_network d'"
proof -
  obtain r d' where run: "resolveFscpMaterialOnDevice toy_network toy_resolve toy_device = (Inr r, d')" "New_identity \<in> set (dv_log d')"
    using toy_run .
  from run new_identity_only_for_fresh_account [OF run(1) _ _ run(2)] show ?thesis by (auto simp: toy_device_def)
qed

section \<open>A stale backup\<close>

text \<open>
  The choice between local keys and a backup goes to the backup even when the server publishes the local key and not
  the key of the backup; the restore then stores the stale keys and ends in a mismatch.
\<close>

lemma stale_backup_preferred:
  assumes "scalarmultBase (nw_sodium nw) (mt_agreement l) = Some a" "scalarmultBase (nw_sodium nw) (mt_agreement m) = Some b"
    and "length a = 32" "a \<noteq> b" "truthy (Some (trim key))" "decodeAgreementPublicKeyBytes (trim key) = Some a"
  shows "shouldPreferBackupOverLocal nw l m (Some key) d = (Inr True, d)"
  using assms
  by (simp add: shouldPreferBackupOverLocal_def deriveAgreementPublicKeyBytes_def decode_key_def lift_opt_def bind_act_def ret_def
      pubkeys_equal_iff)

lemma stale_backup_replaces_local_keys:
  assumes "scalarmultBase (nw_sodium nw) (mt_agreement m) = Some b" "decodeAgreementPublicKeyBytes (ub_key k) = Some a"
    and "a \<noteq> b" "ub_key k \<noteq> []" "nw_store nw (length (dv_log d)) = None"
  shows "\<exists>r d'. finish_restore nw m (Some (Some k)) (Some (ub_key k)) d = (Inr r, d') \<and> br_status r = Key_mismatch \<and>
    dv_profile d' = Some (profile_of nw m)"
  using assms
  by (simp add: finish_restore_def finalizeRestoredMaterial_def finalizeWithServerPubkey_def buildMismatchResult_def catch_act_def
      persistFscpLocalMaterial_def agreementPublicKeyBase64Url_def deriveAgreementPublicKeyBytes_def decode_key_def lift_opt_def
      bind_act_def ret_def pubkeys_equal_iff plain_result_def Let_def)

end
