(* ===== verification/Fscp_KeySync.thy ===== *)
theory Fscp_KeySync
  imports Fscp_Bootstrap
begin

text \<open>
  Login (\<open>products/FSCP/ts/src/syncOnLogin.ts\<close>): the keys are resolved, what is pending is published, and the
  password backup on the server is created or healed, but never one that may still be good.
\<close>

section \<open>The backup on the server\<close>

datatype skip_reason =
    Not_ready | Locked_or_frozen | Unchanged | No_password | Conflict | Upload_error | Not_authenticated | Pubkey_mismatch
  | Self_check_failed | Malformed_skipped | Kdf_skipped | Transient_skipped

text \<open>\<open>Inr ()\<close> is an upload.\<close>

type_synonym backup_outcome = "skip_reason + unit"

record ensure_options =
  eo_owner :: js_string
  eo_password :: js_string
  eo_material :: material
  eo_authoritative :: bool
  eo_e2e :: "e2e_state option"
  eo_backup :: "known_backup option"

definition readBackupRevision :: "json \<Rightarrow> json" where
  "readBackupRevision raw =
     (case as_record raw of
        None \<Rightarrow> JInt 0
      | Some o' \<Rightarrow> num_or (JInt 0) (read_num o' [js ''backupRevision'', js ''BackupRevision'']))"

text \<open>What is known of the backup is used unless its content is missing; else it is read.\<close>

definition usable_backup :: "known_backup option \<Rightarrow> known_backup option" where
  "usable_backup known =
     (case known of
        None \<Rightarrow> None
      | Some k \<Rightarrow> if kn_state k \<noteq> Some Missing \<and> kn_raw k = None then None else Some k)"

definition find_backup :: "network \<Rightarrow> known_backup option \<Rightarrow> known_backup act" where
  "find_backup nw known =
     (case usable_backup known of
        Some k \<Rightarrow> ret k
      | None \<Rightarrow>
          catch_act (bind_act (ask Get_backup (nw_backup nw)) (\<lambda>raw. ret \<lparr>kn_raw = Some raw, kn_state = None\<rparr>))
            (\<lambda>e. if e = Api_error 404 then ret \<lparr>kn_raw = None, kn_state = Some Missing\<rparr> else throw e))"

definition backup_state_of :: "network \<Rightarrow> js_string \<Rightarrow> known_backup \<Rightarrow> (json \<times> backup_state) act" where
  "backup_state_of nw password k =
     (if kn_state k = Some Missing then ret (JInt 0, Missing)
      else case kn_raw k of
        None \<Rightarrow> ret (JInt 0, Missing)
      | Some raw \<Rightarrow>
          (case kn_state k of
             Some st \<Rightarrow> ret (readBackupRevision raw, st)
           | None \<Rightarrow>
               bind_act (lift_opt (backup_failure Backup_number_unknown) (classifyKeyBackup (nw_library nw) raw password)) (\<lambda>st.
               ret (readBackupRevision raw, st))))"

text \<open>The published key, after one attempt to publish where there is none.\<close>

definition published_key :: "network \<Rightarrow> material \<Rightarrow> bool \<Rightarrow> js_string option act" where
  "published_key nw m authoritative =
     bind_act (apiTryGetUserE2ePublicKey nw) (\<lambda>server.
     let key = map_option (\<lambda>b. trim (ub_key b)) server in
     if truthy key \<or> \<not> authoritative then ret key
     else bind_act (publishAgreementPublicKey nw m) (\<lambda>pub.
          if pub = None then ret key
          else bind_act (apiTryGetUserE2ePublicKey nw) (\<lambda>server. ret (map_option (\<lambda>b. trim (ub_key b)) server))))"

text \<open>Everything up to the decision to write: \<open>Inr\<close> is the revision the new backup follows.\<close>

definition backup_decision :: "network \<Rightarrow> ensure_options \<Rightarrow> (skip_reason + json \<times> backup_plaintext) act" where
  "backup_decision nw op =
     (if toLowerCase (trim (eo_owner op)) = [] \<or> trim (eo_password op) = [] then ret (Inl No_password)
      else bind_act (case eo_e2e op of Some s \<Rightarrow> ret s | None \<Rightarrow> ask Get_e2e_state (nw_e2e nw)) (\<lambda>e2e.
      if es_freeze e2e \<or> es_state e2e = js ''locked'' then ret (Inl Locked_or_frozen)
      else bind_act (deriveAgreementPublicKeyBytes nw (eo_material op)) (\<lambda>localPub.
      bind_act (lift_opt (nw_crypto nw)
        (bootstrapPlaintextFromLocalMaterial (nw_sodium nw) (mt_agreement (eo_material op)) (mt_signing (eo_material op)))) (\<lambda>plaintext.
      bind_act (find_backup nw (eo_backup op)) (\<lambda>known.
      bind_act (backup_state_of nw (eo_password op) known) (\<lambda>(revision, st).
      if st = Healthy then ret (Inl Unchanged)
      else if st = Kdf_unavailable then ret (Inl Kdf_skipped)
      else if st = Malformed_state then ret (Inl Malformed_skipped)
      else if \<not> eo_authoritative op then ret (Inl Not_authenticated)
      else bind_act (published_key nw (eo_material op) (eo_authoritative op)) (\<lambda>key.
           if \<not> truthy key then ret (Inl Pubkey_mismatch)
           else bind_act (decode_key (the key)) (\<lambda>serverPub.
                if \<not> agreementPubkeysEqual localPub serverPub then ret (Inl Pubkey_mismatch)
                else if \<not> localMaterialSelfCheck nw (eo_material op) serverPub then ret (Inl Self_check_failed)
                else ret (Inr (revision, plaintext))))))))))"

definition epochIdentityPublicKeysFromPlaintext :: "backup_plaintext \<Rightarrow> json" where
  "epochIdentityPublicKeysFromPlaintext p =
     JArr (map (\<lambda>e. JObj [(js ''keyEpochId'', JStr (ke_id e)), (js ''epochAccountIdentityPublicKeyBase64Url'', JStr (ke_public e))])
       (bt_epochs p))"

definition put_backup_body :: "key_backup \<Rightarrow> backup_plaintext \<Rightarrow> json" where
  "put_backup_body b p =
     JObj [(js ''keyBackup'', key_backup_json b), (js ''epochIdentityPublicKeys'', epochIdentityPublicKeysFromPlaintext p)]"

text \<open>A revision that is not a whole number is outside the model.\<close>

fun next_revision :: "json \<Rightarrow> int option" where
  "next_revision (JInt n) = Some (max n 0 + 1)"
| "next_revision _ = None"

definition upload_backup :: "network \<Rightarrow> ensure_options \<Rightarrow> json \<Rightarrow> backup_plaintext \<Rightarrow> backup_outcome act" where
  "upload_backup nw op revision plaintext =
     bind_act (lift_opt (backup_failure Backup_number_unknown) (next_revision revision)) (\<lambda>n.
     bind_act (lift_opt (nw_crypto nw)
       (createKeyBackup (nw_library nw) (toLowerCase (trim (eo_owner op))) (eo_password op) plaintext n 1 (nw_backupKeyId nw)
         (nw_salt nw) (nw_nonce nw))) (\<lambda>b.
     catch_act (bind_act (ask (Put_backup (put_backup_body b plaintext)) (nw_put_backup nw)) (\<lambda>_. ret (Inr ())))
       (\<lambda>e. if e = Api_error 409 then ret (Inl Conflict) else throw e)))"

definition ensureKeyBackupOnServer :: "network \<Rightarrow> ensure_options \<Rightarrow> backup_outcome act" where
  "ensureKeyBackupOnServer nw op =
     bind_act (backup_decision nw op) (\<lambda>r.
     case r of Inl why \<Rightarrow> ret (Inl why) | Inr (revision, plaintext) \<Rightarrow> upload_backup nw op revision plaintext)"

section \<open>Login\<close>

record sync_options =
  so_owner :: js_string
  so_password :: js_string
  so_autoPublish :: bool
  so_prefer :: bool
  so_force :: bool
  so_skipUpload :: bool
  so_authoritative :: bool

record sync_result =
  sr_bootstrap :: bootstrap_result
  sr_uploaded :: bool
  sr_skipped :: "skip_reason option"
  sr_failure :: "failure_class option"

definition sync_report :: "bootstrap_result \<Rightarrow> bool \<Rightarrow> skip_reason option \<Rightarrow> failure_class option \<Rightarrow> sync_result" where
  "sync_report b up why f = \<lparr>sr_bootstrap = b, sr_uploaded = up, sr_skipped = why, sr_failure = f\<rparr>"

definition publish_pending :: "network \<Rightarrow> sync_options \<Rightarrow> bootstrap_result \<Rightarrow> bootstrap_result act" where
  "publish_pending nw op b0 =
     bind_act (case br_material b0 of
         Some m \<Rightarrow> if so_autoPublish op \<and> br_status b0 = Key_mismatch then publishLocalKeyConfirmed nw m else ret b0
       | None \<Rightarrow> ret b0) (\<lambda>b1.
     bind_act (case (br_material b1, br_pending b1) of
         (Some m, Some p) \<Rightarrow> if br_status b1 = Registration_pending then retryPendingFscpOperation nw m p else ret b1
       | _ \<Rightarrow> ret b1) (\<lambda>b2.
     case br_material b2 of
       Some m \<Rightarrow> if br_status b2 = Orphan_local_profile \<and> so_authoritative op then publishLocalKeyConfirmed nw m else ret b2
     | None \<Rightarrow> ret b2))"

definition sync_backup :: "network \<Rightarrow> sync_options \<Rightarrow> bootstrap_result \<Rightarrow> sync_result act" where
  "sync_backup nw op b =
     (case br_material b of
        None \<Rightarrow> ret (sync_report b False (Some (if br_status b = Transient_error then Transient_skipped else Not_ready)) (br_failure b))
      | Some m \<Rightarrow>
          if br_status b \<noteq> Ready_keys
          then ret (sync_report b False (Some (if br_status b = Transient_error then Transient_skipped else Not_ready)) (br_failure b))
          else if so_skipUpload op then ret (sync_report b False None None)
          else bind_act (\<lambda>d. (Inr (dv_snapshot d), d)) (\<lambda>seen.
               bind_act (attempt (ensureKeyBackupOnServer nw
                 \<lparr>eo_owner = so_owner op, eo_password = trim (so_password op), eo_material = m,
                  eo_authoritative = so_authoritative op, eo_e2e = sn_e2e seen, eo_backup = sn_backup seen\<rparr>)) (\<lambda>r.
               case r of
                 Inr (Inr _) \<Rightarrow> ret (sync_report b True None None)
               | Inr (Inl why) \<Rightarrow> ret (sync_report b False (Some why) None)
               | Inl e \<Rightarrow>
                   let f = classifyTransportFailure e
                   in ret (sync_report b False (Some (if f = Transient then Transient_skipped else Upload_error)) (Some f)))))"

definition syncFscpOnLogin :: "network \<Rightarrow> sync_options \<Rightarrow> sync_result act" where
  "syncFscpOnLogin nw op =
     (let password = trim (so_password op) in
      bind_act (note_snapshot (\<lambda>_. \<lparr>sn_e2e = None, sn_backup = None\<rparr>)) (\<lambda>_.
      bind_act (attempt (resolveFscpMaterialOnDevice nw
        \<lparr>op_owner = so_owner op, op_password = (if password = [] then None else Some password), op_prefer = so_prefer op,
         op_force = so_force op, op_snapshot = True\<rparr>)) (\<lambda>r.
      case r of
        Inl e \<Rightarrow>
          let f = classifyTransportFailure e
          in ret (sync_report ((plain_result Transient_error None)\<lparr>br_failure := Some f\<rparr>) False (Some Transient_skipped) (Some f))
      | Inr b \<Rightarrow>
          if password = [] then
            ret (sync_report b False (Some (if br_status b = Transient_error then Transient_skipped else No_password)) (br_failure b))
          else bind_act (publish_pending nw op b) (sync_backup nw op))))"

section \<open>When the backup is written\<close>

text \<open>The state of the account that the caller passed, or that was asked for.\<close>

definition e2e_seen :: "network \<Rightarrow> ensure_options \<Rightarrow> e2e_state \<Rightarrow> device \<Rightarrow> bool" where
  "e2e_seen nw op e d \<longleftrightarrow>
     (case eo_e2e op of Some s \<Rightarrow> e = s | None \<Rightarrow> \<exists>i. seen Get_e2e_state i d \<and> nw_e2e nw i = Returned e)"

text \<open>The backup that the caller knows of, or that was read.\<close>

definition known_seen :: "network \<Rightarrow> ensure_options \<Rightarrow> known_backup \<Rightarrow> device \<Rightarrow> bool" where
  "known_seen nw op k d \<longleftrightarrow>
     (case usable_backup (eo_backup op) of
        Some k' \<Rightarrow> k = k'
      | None \<Rightarrow> (\<exists>i raw. seen Get_backup i d \<and> nw_backup nw i = Returned raw \<and> k = \<lparr>kn_raw = Some raw, kn_state = None\<rparr>) \<or>
          backup_missing nw d \<and> k = \<lparr>kn_raw = None, kn_state = Some Missing\<rparr>)"

text \<open>A noted state counts; a backup without one is classified with the password.\<close>

definition known_in_state :: "network \<Rightarrow> js_string \<Rightarrow> known_backup \<Rightarrow> backup_state \<Rightarrow> bool" where
  "known_in_state nw password k st \<longleftrightarrow>
     (case kn_state k of
        Some s \<Rightarrow> st = s
      | None \<Rightarrow> \<exists>raw. kn_raw k = Some raw \<and> classifyKeyBackup (nw_library nw) raw password = Some st)"

text \<open>The server served the public half of the keys, and the keys pass their own check.\<close>

definition proven_keys :: "network \<Rightarrow> material \<Rightarrow> device \<Rightarrow> bool" where
  "proven_keys nw m d \<longleftrightarrow>
     (\<exists>pub b. scalarmultBase (nw_sodium nw) (mt_agreement m) = Some pub \<and> served nw b d \<and>
        decodeAgreementPublicKeyBytes (trim (ub_key b)) = Some pub \<and> localMaterialSelfCheck nw m pub)"

definition may_write :: "network \<Rightarrow> ensure_options \<Rightarrow> device \<Rightarrow> bool" where
  "may_write nw op d \<longleftrightarrow>
     eo_authoritative op \<and>
     (\<exists>e. e2e_seen nw op e d \<and> \<not> es_freeze e \<and> es_state e \<noteq> js ''locked'') \<and>
     (\<exists>k st. known_seen nw op k d \<and> known_in_state nw (eo_password op) k st \<and> st \<in> {Missing, Unreadable}) \<and>
     proven_keys nw (eo_material op) d"

definition puts :: "device \<Rightarrow> json set" where
  "puts d = {b. Put_backup b \<in> set (dv_log d)}"

lemma puts_log [run_intro]: "log_invariant key_requests (\<lambda>d. puts d = S)"
  by (auto simp: log_invariant_def puts_def key_requests_def)

lemma log_option [run_intro]:
  "log_invariant R P \<Longrightarrow> (\<And>x. log_invariant R (Q x)) \<Longrightarrow> log_invariant R (\<lambda>d. case v of None \<Rightarrow> P d | Some x \<Rightarrow> Q x d)"
  by (cases v) simp_all

lemma guard_log [run_intro]: "log_invariant R (e2e_seen nw op e)" "log_invariant R (known_seen nw op k)"
    "log_invariant R (proven_keys nw m)"
  unfolding e2e_seen_def known_seen_def proven_keys_def by (intro run_intro missing_log)+

lemma may_write_log [run_intro]: "log_invariant R (may_write nw op)"
  unfolding may_write_def by (intro run_intro)

lemma find_backup_seen:
  assumes "log_invariant key_requests I"
  shows "triple I (find_backup nw (eo_backup op)) (\<lambda>k d. I d \<and> known_seen nw op k d) (\<lambda>_. I)"
proof (cases "usable_backup (eo_backup op)")
  case None
  have grow: "I d \<Longrightarrow> I (d\<lparr>dv_log := dv_log d @ [Get_backup]\<rparr>)" for d
    using assms by (simp add: log_invariant_def key_requests_def)
  show ?thesis
    unfolding find_backup_def None option.case
    by (auto simp: triple_def catch_act_def bind_act_def ask_def ret_def throw_def Let_def known_seen_def None grow backup_missing_def
        intro: seen_next split: outcome.splits)
qed (simp add: find_backup_def known_seen_def triple_ret)

lemma backup_state_of_known:
  assumes "kn_state k = Some Missing \<or> kn_raw k \<noteq> None"
  shows "triple I (backup_state_of nw pw k) (\<lambda>(n, st) d. I d \<and> known_in_state nw pw k st) (\<lambda>_. I)"
  using assms
  by (cases "kn_raw k"; cases "kn_state k"; cases "classifyKeyBackup (nw_library nw) (the (kn_raw k)) pw")
    (auto simp: backup_state_of_def known_in_state_def triple_def ret_def lift_opt_def bind_act_def throw_def)

lemma known_seen_usable: "known_seen nw op k d \<Longrightarrow> kn_state k = Some Missing \<or> kn_raw k \<noteq> None"
  by (auto simp: known_seen_def usable_backup_def split: option.splits if_splits)

lemma published_key_served:
  assumes "log_invariant key_requests I"
  shows "triple I (published_key nw m a) (\<lambda>key d. I d \<and> (\<forall>k. key = Some k \<longrightarrow> (\<exists>b. served nw b d \<and> k = trim (ub_key b)))) (\<lambda>_. I)"
proof -
  let ?Q = "\<lambda>key d. I d \<and> (\<forall>k. key = Some k \<longrightarrow> (\<exists>b. served nw b d \<and> k = trim (ub_key b)))"
  have grow: "I d \<Longrightarrow> I (d\<lparr>dv_log := dv_log d @ [Get_key]\<rparr>)" for d
    using assms by (simp add: log_invariant_def key_requests_def)
  have get: "triple I (apiTryGetUserE2ePublicKey nw) (\<lambda>s d. I d \<and> (\<forall>b. s = Some b \<longrightarrow> served nw b d)) (\<lambda>_. I)"
    by (auto simp: apiTryGetUserE2ePublicKey_def triple_def catch_act_def bind_act_def ret_def throw_def ask_def Let_def
        served_def grow intro: seen_next split: outcome.splits)
  have last: "triple I (bind_act (apiTryGetUserE2ePublicKey nw) (\<lambda>server. ret (map_option (\<lambda>b. trim (ub_key b)) server))) ?Q (\<lambda>_. I)"
    by (rule triple_bind [OF get]) (auto intro!: triple_ret)
  show ?thesis
    unfolding published_key_def Let_def
  proof (rule triple_bind [OF get])
    fix s
    have again: "triple (\<lambda>d. I d \<and> (\<forall>b. s = Some b \<longrightarrow> served nw b d)) (bind_act (publishAgreementPublicKey nw m) (\<lambda>pub.
          if pub = None then ret (map_option (\<lambda>b. trim (ub_key b)) s)
          else bind_act (apiTryGetUserE2ePublicKey nw) (\<lambda>server. ret (map_option (\<lambda>b. trim (ub_key b)) server)))) ?Q (\<lambda>_. I)"
    proof (rule triple_bind_preserves)
      show "preserves (\<lambda>d. I d \<and> (\<forall>b. s = Some b \<longrightarrow> served nw b d)) (publishAgreementPublicKey nw m)"
        using assms by (cases s) (auto intro!: preserves_basic log_and served_log)
      show "triple (\<lambda>d. I d \<and> (\<forall>b. s = Some b \<longrightarrow> served nw b d)) (if pub = None then ret (map_option (\<lambda>b. trim (ub_key b)) s)
          else bind_act (apiTryGetUserE2ePublicKey nw) (\<lambda>server. ret (map_option (\<lambda>b. trim (ub_key b)) server))) ?Q (\<lambda>_. I)" for pub
        by (cases pub) (auto intro!: triple_ret intro: triple_pre [OF last])
    qed simp
    then show "triple (\<lambda>d. I d \<and> (\<forall>b. s = Some b \<longrightarrow> served nw b d))
        (if truthy (map_option (\<lambda>b. trim (ub_key b)) s) \<or> \<not> a then ret (map_option (\<lambda>b. trim (ub_key b)) s)
         else bind_act (publishAgreementPublicKey nw m) (\<lambda>pub.
          if pub = None then ret (map_option (\<lambda>b. trim (ub_key b)) s)
          else bind_act (apiTryGetUserE2ePublicKey nw) (\<lambda>server. ret (map_option (\<lambda>b. trim (ub_key b)) server)))) ?Q (\<lambda>_. I)"
      by (auto intro!: triple_ret)
  qed
qed

lemma backup_state_of_seen:
  "triple (\<lambda>d. I d \<and> known_seen nw op k d) (backup_state_of nw pw k)
     (\<lambda>(n, st) d. (I d \<and> known_seen nw op k d) \<and> known_in_state nw pw k st) (\<lambda>_ d. I d \<and> known_seen nw op k d)"
proof (cases "kn_state k = Some Missing \<or> kn_raw k \<noteq> None")
  case True
  then show ?thesis by (rule backup_state_of_known)
next
  case False
  then have "\<not> known_seen nw op k d" for d using known_seen_usable by blast
  then show ?thesis by (simp add: triple_def)
qed

lemma ask_e2e:
  assumes "log_invariant key_requests I"
  shows "triple I (case eo_e2e op of Some s \<Rightarrow> ret s | None \<Rightarrow> ask Get_e2e_state (nw_e2e nw)) (\<lambda>e d. I d \<and> e2e_seen nw op e d) (\<lambda>_. I)"
proof -
  have "I d \<Longrightarrow> I (d\<lparr>dv_log := dv_log d @ [Get_e2e_state]\<rparr>)" for d
    using assms by (simp add: log_invariant_def key_requests_def)
  then show ?thesis
    by (cases "eo_e2e op") (auto intro!: triple_ret triple_ask simp: e2e_seen_def intro: seen_next)
qed

lemma triple_if: "(b \<Longrightarrow> triple P m Q E) \<Longrightarrow> (\<not> b \<Longrightarrow> triple P n Q E) \<Longrightarrow> triple P (if b then m else n) Q E"
  by simp

lemma triple_bind_weak:
  "triple P m R E' \<Longrightarrow> (\<And>e d. E' e d \<Longrightarrow> E e d) \<Longrightarrow> (\<And>x. triple (R x) (f x) Q E) \<Longrightarrow> triple P (bind_act m f) Q E"
  by (rule triple_bind [OF triple_post])

lemma triple_pair:
  "(\<And>x y. triple (R x y) (f x y) Q E) \<Longrightarrow>
   triple (case v of (x, y) \<Rightarrow> R x y) (case v of (x, y) \<Rightarrow> f x y) Q E"
  by (cases v) simp

lemma triple_end:
  assumes "triple P m (\<lambda>_. I) (\<lambda>_. I)" "m d = (r, d')" "P d"
  shows "I d'"
  using assms spec [OF assms(1) [unfolded triple_def], of d] by (cases r) simp_all

lemma may_writeI:
  assumes "eo_authoritative op" "e2e_seen nw op e d" "\<not> (es_freeze e \<or> es_state e = js ''locked'')"
    and "known_seen nw op k d" "known_in_state nw (eo_password op) k st" "st \<noteq> Healthy" "st \<noteq> Kdf_unavailable" "st \<noteq> Malformed_state"
    and "scalarmultBase (nw_sodium nw) (mt_agreement (eo_material op)) = Some pub" "truthy key"
    and "\<forall>v. key = Some v \<longrightarrow> (\<exists>b. served nw b d \<and> v = trim (ub_key b))" "decodeAgreementPublicKeyBytes (the key) = Some server"
    and "agreementPubkeysEqual pub server" "localMaterialSelfCheck nw (eo_material op) server"
  shows "may_write nw op d"
proof -
  obtain v where v: "key = Some v" using assms(10) by (cases key) (simp_all add: truthy_def)
  have "proven_keys nw (eo_material op) d"
    using assms(9,11-14) unfolding v proven_keys_def pubkeys_equal_iff by auto
  moreover have "st \<in> {Missing, Unreadable}" using assms(6-8) by (cases st) simp_all
  ultimately show ?thesis unfolding may_write_def using assms(1-5) by blast
qed

lemma decision_guarded:
  "triple (\<lambda>d. puts d = S) (backup_decision nw op)
     (\<lambda>r d. puts d = S \<and> (\<forall>v. r = Inr v \<longrightarrow> may_write nw op d)) (\<lambda>_ d. puts d = S)"
  unfolding backup_decision_def deriveAgreementPublicKeyBytes_def decode_key_def
  by (intro triple_if triple_bind_lift triple_bind_weak [OF ask_e2e] triple_bind_weak [OF find_backup_seen]
      triple_bind_weak [OF backup_state_of_seen] triple_pair triple_bind_weak [OF published_key_served] triple_ret run_intro)
    (auto intro: may_writeI)

lemma preserves_ask_any: "log_invariant UNIV I \<Longrightarrow> preserves I (ask r a)"
  unfolding preserves_def by (rule triple_ask) (auto simp: log_invariant_def)

lemma upload_preserves: "log_invariant UNIV I \<Longrightarrow> preserves I (upload_backup nw op n p)"
  unfolding upload_backup_def by (intro run_intro preserves_ask_any)

lemma ensure_guarded:
  "triple (\<lambda>d. puts d = S) (ensureKeyBackupOnServer nw op) (\<lambda>_ d. puts d = S \<or> may_write nw op d)
     (\<lambda>_ d. puts d = S \<or> may_write nw op d)"
  unfolding ensureKeyBackupOnServer_def
proof (rule triple_bind_weak [OF decision_guarded])
  fix x
  have up: "triple (may_write nw op) (upload_backup nw op n p) (\<lambda>_ d. puts d = S \<or> may_write nw op d)
      (\<lambda>_ d. puts d = S \<or> may_write nw op d)" for n p
    by (rule triple_post [OF upload_preserves [OF may_write_log, unfolded preserves_def]]) simp_all
  show "triple (\<lambda>d. puts d = S \<and> (\<forall>v. x = Inr v \<longrightarrow> may_write nw op d))
      (case x of Inl why \<Rightarrow> ret (Inl why) | Inr (revision, plaintext) \<Rightarrow> upload_backup nw op revision plaintext)
      (\<lambda>_ d. puts d = S \<or> may_write nw op d) (\<lambda>_ d. puts d = S \<or> may_write nw op d)"
  proof (cases x)
    case (Inr v)
    obtain n p where v: "v = (n, p)" by (cases v)
    show ?thesis unfolding Inr v sum.case prod.case by (rule triple_pre [OF up]) simp
  qed (simp add: triple_ret)
qed simp

text \<open>
  C36. No good backup is overwritten: the password backup on the server is written only when the password was proven
  current, the account is neither frozen nor locked, the backup there is missing or does not open with this password
  (one that is healthy, malformed or could not be tried is left alone), the server serves the public half of the
  keys on this device, and these keys pass their own check.
\<close>

theorem backup_overwrite_is_guarded:
  assumes run: "ensureKeyBackupOnServer nw op d = (r, d')" and written: "Put_backup b \<in> set (dv_log d')" "Put_backup b \<notin> set (dv_log d)"
  shows "eo_authoritative op \<and>
    (\<exists>e. e2e_seen nw op e d' \<and> \<not> es_freeze e \<and> es_state e \<noteq> js ''locked'') \<and>
    (\<exists>k st. known_seen nw op k d' \<and> known_in_state nw (eo_password op) k st \<and> st \<in> {Missing, Unreadable}) \<and>
    (\<exists>pub s. scalarmultBase (nw_sodium nw) (mt_agreement (eo_material op)) = Some pub \<and> served nw s d' \<and>
       decodeAgreementPublicKeyBytes (trim (ub_key s)) = Some pub \<and> localMaterialSelfCheck nw (eo_material op) pub)"
proof -
  from triple_end [OF ensure_guarded run] have "puts d' = puts d \<or> may_write nw op d'" by simp
  moreover have "puts d' \<noteq> puts d" using written by (auto simp: puts_def)
  ultimately show ?thesis by (simp add: may_write_def proven_keys_def)
qed

text \<open>A server that serves the key of the device and has no backup.\<close>

definition toy_server :: network where
  "toy_server = toy_network\<lparr>nw_key := (\<lambda>_. Returned \<lparr>ub_key = toBase64Url (replicate 32 7), ub_device = None\<rparr>)\<rparr>"

definition toy_material :: material where
  "toy_material = (nw_fresh toy_network)\<lparr>mt_device := Some (js ''d'')\<rparr>"

definition toy_ensure :: ensure_options where
  "toy_ensure =
     \<lparr>eo_owner = js ''u'', eo_password = js ''secret'', eo_material = toy_material, eo_authoritative = True, eo_e2e = None,
      eo_backup = None\<rparr>"

lemma toy_backup:
  obtains p b where "bootstrapPlaintextFromLocalMaterial (kl_sodium toy_library) (replicate 32 7) (replicate 64 9) = Some p"
    "createKeyBackup toy_library (js ''u'') (js ''secret'') p 1 1 (js ''k'') [1] (replicate 24 2) = Some b"
proof -
  have "length (replicate 32 (7 :: byte)) = 32" "isSafeInteger 1" "length (replicate 24 (2 :: byte)) = 24"
    by (simp_all add: isSafeInteger_def max_safe_int_def)
  then show ?thesis using backup_is_created [OF toy_library_laws] that by blast
qed

lemma toy_key: "decodeAgreementPublicKeyBytes (toBase64Url (replicate 32 7)) = Some (replicate 32 7)"
    "truthy (Some (toBase64Url (replicate 32 7)))"
  by (simp_all add: decodeAgreementPublicKeyBytes_def fromBase64Flexible_def truthy_def)

lemma toy_ensure_run:
  obtains d' b where "ensureKeyBackupOnServer toy_server toy_ensure start = (Inr (Inr ()), d')" "Put_backup b \<in> set (dv_log d')"
proof -
  obtain p b where made: "bootstrapPlaintextFromLocalMaterial (kl_sodium toy_library) (replicate 32 7) (replicate 64 9) = Some p"
    "createKeyBackup toy_library (js ''u'') (js ''secret'') p 1 1 (js ''k'') [1] (replicate 24 2) = Some b"
    using toy_backup .
  have checked: "localMaterialSelfCheck toy_server toy_material (replicate 32 7)"
    by (simp add: localMaterialSelfCheck_def toy_material_def toy_server_def toy_network_def toy_library_def toy_sodium_def scalarmultBase_def list_all_iff)
  have pub: "scalarmultBase (kl_sodium toy_library) (replicate 32 7) = Some (replicate 32 7)"
    by (simp add: scalarmultBase_def toy_library_def toy_sodium_def)
  have steps: "nw_library toy_server = toy_library" "mt_agreement toy_material = replicate 32 7"
    "mt_signing toy_material = replicate 64 9" "nw_e2e toy_server i = Returned \<lparr>es_state = js ''not_initialized'', es_freeze = False\<rparr>" "nw_backup toy_server i = Threw (Api_error 404)"
    "nw_key toy_server i = Returned \<lparr>ub_key = toBase64Url (replicate 32 7), ub_device = None\<rparr>"
    "nw_put_backup toy_server i = Returned ()" "nw_backupKeyId toy_server = js ''k''" "nw_salt toy_server = [1]"
    "nw_nonce toy_server = replicate 24 2" for i
    by (simp_all add: toy_server_def toy_network_def toy_material_def)
  have texts: "toLowerCase (trim (js ''u'')) = js ''u''" "trim (js ''secret'') = js ''secret''"
    by (simp_all add: trim_def is_space_unit_def toLowerCase_def lower_unit_def)
  have decided: "\<exists>d. backup_decision toy_server toy_ensure start = (Inr (Inr (JInt 0, p)), d)"
    using made(1) checked
    by (simp add: backup_decision_def toy_ensure_def steps pub lift_opt_def deriveAgreementPublicKeyBytes_def
        find_backup_def usable_backup_def ask_def catch_act_def bind_act_def ret_def backup_state_of_def published_key_def
        apiTryGetUserE2ePublicKey_def toy_key decode_key_def pubkeys_equal_iff Let_def texts [simplified])
  then obtain d where d: "backup_decision toy_server toy_ensure start = (Inr (Inr (JInt 0, p)), d)" by blast
  have "upload_backup toy_server toy_ensure (JInt 0) p d = (Inr (Inr ()), d\<lparr>dv_log := dv_log d @ [Put_backup (put_backup_body b p)]\<rparr>)"
    using made(2) texts [simplified]
    by (simp add: upload_backup_def toy_ensure_def steps lift_opt_def ask_def catch_act_def bind_act_def ret_def Let_def)
  then have "ensureKeyBackupOnServer toy_server toy_ensure start =
      (Inr (Inr ()), d\<lparr>dv_log := dv_log d @ [Put_backup (put_backup_body b p)]\<rparr>)"
    by (simp add: ensureKeyBackupOnServer_def bind_act_def d)
  from that [OF this, of "put_backup_body b p"] show ?thesis by simp
qed

theorem backup_overwrite_is_guarded_witness:
  "\<exists>r d'. ensureKeyBackupOnServer toy_server toy_ensure toy_device = (r, d') \<and> eo_authoritative toy_ensure \<and>
    (\<exists>e. e2e_seen toy_server toy_ensure e d' \<and> \<not> es_freeze e \<and> es_state e \<noteq> js ''locked'') \<and>
    (\<exists>pub s. scalarmultBase (nw_sodium toy_server) (mt_agreement (eo_material toy_ensure)) = Some pub \<and> served toy_server s d' \<and>
       decodeAgreementPublicKeyBytes (trim (ub_key s)) = Some pub)"
proof -
  obtain d' b where run: "ensureKeyBackupOnServer toy_server toy_ensure toy_device = (Inr (Inr ()), d')" "Put_backup b \<in> set (dv_log d')"
    using toy_ensure_run .
  have "Put_backup b \<notin> set (dv_log toy_device)" by (simp add: toy_device_def)
  from run(1) backup_overwrite_is_guarded [OF run this] show ?thesis by blast
qed


section \<open>When a login writes the backup\<close>

lemma puts_plain [run_intro]: "plain_invariant (\<lambda>d. puts d = S)"
  by (simp add: plain_invariant_def puts_log) (simp add: puts_def)

lemma create_keeps_puts: "preserves (\<lambda>d. puts d = S) (create_identity nw)"
proof -
  have "preserves (\<lambda>d. puts d = S) (\<lambda>d. (Inr (nw_fresh nw), d\<lparr>dv_log := dv_log d @ [New_identity]\<rparr>))"
    by (simp add: preserves_def triple_def puts_def)
  then show ?thesis unfolding create_identity_def Let_def by (intro run_intro)
qed

lemma resolve_keeps_puts: "preserves (\<lambda>d. puts d = S) (resolveFscpMaterialOnDevice nw op)"
  unfolding resolveFscpMaterialOnDevice_def forced_restore_def preferred_restore_def first_login_def read_decision_def
  by (intro run_intro create_keeps_puts preserves_restore_first preserves_use_local)

lemma published_keeps_puts: "preserves (\<lambda>d. puts d = S) (published_result nw m)"
  unfolding published_result_def by (intro run_intro)

lemma confirmed_keeps_puts: "preserves (\<lambda>d. puts d = S) (publishLocalKeyConfirmed nw m)"
  unfolding publishLocalKeyConfirmed_def Let_def by (intro run_intro published_keeps_puts)

lemma retry_keeps_puts: "preserves (\<lambda>d. puts d = S) (retryPendingFscpOperation nw m p)"
proof (cases p)
  case Publish
  then show ?thesis by (simp add: retryPendingFscpOperation_def confirmed_keeps_puts)
next
  case Sync_device_uuid
  then show ?thesis
    unfolding retryPendingFscpOperation_def Sync_device_uuid pending_operation.case by (intro run_intro published_keeps_puts)
qed

lemma pending_keeps_puts: "preserves (\<lambda>d. puts d = S) (publish_pending nw op b)"
  unfolding publish_pending_def
  by (intro run_intro confirmed_keeps_puts retry_keeps_puts)

definition login_may_write :: "network \<Rightarrow> sync_options \<Rightarrow> device \<Rightarrow> bool" where
  "login_may_write nw op d \<longleftrightarrow>
     trim (so_password op) \<noteq> [] \<and> so_authoritative op \<and> \<not> so_skipUpload op \<and> (\<exists>m. proven_keys nw m d)"

lemma sync_backup_guarded:
  assumes "trim (so_password op) \<noteq> []"
  shows "triple (\<lambda>d. puts d = S) (sync_backup nw op b) (\<lambda>_ d. puts d = S \<or> login_may_write nw op d)
    (\<lambda>_ d. puts d = S \<or> login_may_write nw op d)"
proof (cases "br_material b = None \<or> br_status b \<noteq> Ready_keys \<or> so_skipUpload op")
  case True
  then show ?thesis by (cases "br_material b") (auto simp: sync_backup_def intro!: triple_ret)
next
  case False
  then obtain m where m: "br_material b = Some m" by auto
  define eo where "eo = (\<lambda>seen :: read_snapshot. \<lparr>eo_owner = so_owner op, eo_password = trim (so_password op), eo_material = m,
    eo_authoritative = so_authoritative op, eo_e2e = sn_e2e seen, eo_backup = sn_backup seen\<rparr>)"
  have may: "may_write nw (eo seen) d \<Longrightarrow> login_may_write nw op d" for seen d
    using assms False by (auto simp: may_write_def login_may_write_def eo_def)
  have ensure: "triple (\<lambda>d. puts d = S) (attempt (ensureKeyBackupOnServer nw (eo seen)))
      (\<lambda>_ d. puts d = S \<or> login_may_write nw op d) (\<lambda>_ d. puts d = S \<or> login_may_write nw op d)" for seen
    by (rule triple_weaken [OF triple_attempt [OF ensure_guarded]]) (auto dest: may split: sum.splits)
  have report: "triple (\<lambda>d. puts d = S \<or> login_may_write nw op d)
      (case r of
         Inr (Inr _) \<Rightarrow> ret (sync_report b True None None)
       | Inr (Inl why) \<Rightarrow> ret (sync_report b False (Some why) None)
       | Inl e \<Rightarrow>
           let f = classifyTransportFailure e
           in ret (sync_report b False (Some (if f = Transient then Transient_skipped else Upload_error)) (Some f)))
      (\<lambda>_ d. puts d = S \<or> login_may_write nw op d) (\<lambda>_ d. puts d = S \<or> login_may_write nw op d)" for r
    by (auto simp: Let_def intro: triple_ret split: sum.split)
  have "triple (\<lambda>d. puts d = S)
      (bind_act (\<lambda>d. (Inr (dv_snapshot d), d)) (\<lambda>seen. bind_act (attempt (ensureKeyBackupOnServer nw (eo seen))) (\<lambda>r.
         case r of
           Inr (Inr _) \<Rightarrow> ret (sync_report b True None None)
         | Inr (Inl why) \<Rightarrow> ret (sync_report b False (Some why) None)
         | Inl e \<Rightarrow>
             let f = classifyTransportFailure e
             in ret (sync_report b False (Some (if f = Transient then Transient_skipped else Upload_error)) (Some f)))))
      (\<lambda>_ d. puts d = S \<or> login_may_write nw op d) (\<lambda>_ d. puts d = S \<or> login_may_write nw op d)"
    by (rule triple_bind_preserves [OF preserves_read], rule triple_bind [OF ensure report]) simp
  then show ?thesis using m False by (simp add: sync_backup_def eo_def)
qed

text \<open>
  C40. A login writes the backup only with a proven password: whatever the resolve, the publications and the restores
  of a login do, a backup leaves the device only when the caller said that the password was just proven and that this
  device may write, and only after the server served the public half of keys that pass their own check.
\<close>

theorem login_writes_proven_backup:
  assumes run: "syncFscpOnLogin nw op d = (r, d')" and written: "Put_backup b \<in> set (dv_log d')" "Put_backup b \<notin> set (dv_log d)"
  shows "trim (so_password op) \<noteq> [] \<and> so_authoritative op \<and> \<not> so_skipUpload op \<and> (\<exists>m. proven_keys nw m d')"
proof -
  let ?I = "\<lambda>d'. puts d' = puts d \<or> login_may_write nw op d'"
  have resolved: "triple (\<lambda>d'. puts d' = puts d) (attempt (resolveFscpMaterialOnDevice nw ro)) (\<lambda>_ d'. puts d' = puts d) (\<lambda>_. ?I)" for ro
    by (rule triple_weaken [OF triple_attempt [OF resolve_keeps_puts [unfolded preserves_def]]]) (auto split: sum.splits)
  have pending: "triple (\<lambda>d'. puts d' = puts d) (bind_act (publish_pending nw op x) (sync_backup nw op)) (\<lambda>_. ?I) (\<lambda>_. ?I)"
    if "trim (so_password op) \<noteq> []" for x
    by (rule triple_bind_preserves [OF pending_keeps_puts sync_backup_guarded [OF that]]) simp
  have "triple (\<lambda>d'. puts d' = puts d) (syncFscpOnLogin nw op) (\<lambda>_. ?I) (\<lambda>_. ?I)"
    unfolding syncFscpOnLogin_def Let_def
    by (rule triple_bind_preserves [OF preserves_note_snapshot [OF puts_plain]], rule triple_bind [OF resolved])
      (auto intro: triple_ret pending split: sum.split)
  from triple_end [OF this run] have "?I d'" by simp
  moreover have "puts d' \<noteq> puts d" using written by (auto simp: puts_def)
  ultimately show ?thesis by (simp add: login_may_write_def)
qed

definition toy_login :: sync_options where
  "toy_login =
     \<lparr>so_owner = js ''u'', so_password = js ''secret'', so_autoPublish = True, so_prefer = False, so_force = False,
      so_skipUpload = False, so_authoritative = True\<rparr>"

definition toy_kept_device :: device where
  "toy_kept_device = toy_device\<lparr>dv_profile := Some (profile_of toy_server toy_material)\<rparr>"

lemma toy_resolved:
  obtains r d' where "resolveFscpMaterialOnDevice toy_server
      \<lparr>op_owner = js ''u'', op_password = Some (js ''secret''), op_prefer = False, op_force = False, op_snapshot = True\<rparr> toy_kept_device
      = (Inr r, d')" "br_status r = Ready_keys" "br_material r = Some toy_material" "br_pending r = None"
    "dv_log d' = [Get_key, Store (profile_of toy_server toy_material)]" "dv_snapshot d' = \<lparr>sn_e2e = None, sn_backup = None\<rparr>"
proof -
  have texts: "toLowerCase (trim (js ''u'')) = js ''u''"
    by (simp_all add: trim_def is_space_unit_def toLowerCase_def lower_unit_def)
  have keys: "nw_load toy_server = None" "kl_from_base64 (nw_library toy_server) (toBase64Url k) = Some k"
    "sd_base64 (nw_sodium toy_server) = toBase64Url" "nw_key toy_server i = Returned \<lparr>ub_key = toBase64Url (replicate 32 7), ub_device = None\<rparr>"
    "mt_agreement toy_material = replicate 32 7" "mt_signing toy_material = replicate 64 9" "mt_device toy_material = Some (js ''d'')"
    "scalarmultBase (nw_sodium toy_server) (replicate 32 7) = Some (replicate 32 7)" "nw_store toy_server i = None"
    "\<lparr>mt_agreement = replicate 32 7, mt_signing = replicate 64 9, mt_device = Some (js ''d'')\<rparr> = toy_material" for k i
    by (simp_all add: toy_server_def toy_network_def toy_library_def toy_sodium_def toy_material_def scalarmultBase_def)
  have whole: "toy_material\<lparr>mt_device := Some (js ''d'')\<rparr> = toy_material" by (simp add: toy_material_def)
  have "\<exists>r d'. resolveFscpMaterialOnDevice toy_server
      \<lparr>op_owner = js ''u'', op_password = Some (js ''secret''), op_prefer = False, op_force = False, op_snapshot = True\<rparr> toy_kept_device
      = (Inr r, d') \<and> br_status r = Ready_keys \<and> br_material r = Some toy_material \<and> br_pending r = None \<and>
    dv_log d' = [Get_key, Store (profile_of toy_server toy_material)] \<and> dv_snapshot d' = \<lparr>sn_e2e = None, sn_backup = None\<rparr>"
    by (simp add: resolveFscpMaterialOnDevice_def texts [simplified] loadFscpLocalMaterial_def keys keys [simplified] toy_kept_device_def
        toy_device_def read_profile_def profile_of_def lift_opt_def bind_act_def ret_def agreementScalar32FromBoxSecret_def
        forced_restore_def preferred_restore_def use_local_def attempt_def apiTryGetUserE2ePublicKey_def ask_def catch_act_def
        keep_local_def finalizeWithServerPubkey_def deriveAgreementPublicKeyBytes_def decode_key_def toy_key pubkeys_equal_iff
        persistFscpLocalMaterial_def agreementPublicKeyBase64Url_def whole whole [simplified] truthy_def Let_def plain_result_def)
  then show ?thesis using that by blast
qed

theorem login_writes_proven_backup_witness:
  "\<exists>r d' m. syncFscpOnLogin toy_server toy_login toy_kept_device = (r, d') \<and> trim (so_password toy_login) \<noteq> [] \<and>
     so_authoritative toy_login \<and> \<not> so_skipUpload toy_login \<and> proven_keys toy_server m d'"
proof -
  let ?ro = "\<lparr>op_owner = js ''u'', op_password = Some (js ''secret''), op_prefer = False, op_force = False, op_snapshot = True\<rparr>"
  obtain r d1 where r: "resolveFscpMaterialOnDevice toy_server ?ro toy_kept_device = (Inr r, d1)" "br_status r = Ready_keys"
      "br_material r = Some toy_material" "br_pending r = None" "dv_snapshot d1 = \<lparr>sn_e2e = None, sn_backup = None\<rparr>"
    using toy_resolved by metis
  obtain d' b where e: "ensureKeyBackupOnServer toy_server toy_ensure d1 = (Inr (Inr ()), d')" "Put_backup b \<in> set (dv_log d')"
    using toy_ensure_run .
  have texts: "trim (js ''secret'') = js ''secret''" by (simp add: trim_def is_space_unit_def)
  have start: "toy_kept_device\<lparr>dv_snapshot := \<lparr>sn_e2e = None, sn_backup = None\<rparr>\<rparr> = toy_kept_device"
    by (simp add: toy_kept_device_def toy_device_def)
  have "publish_pending toy_server toy_login r d1 = (Inr r, d1)"
    by (simp add: publish_pending_def toy_login_def r bind_act_def ret_def)
  moreover have "sync_backup toy_server toy_login r d1 = (Inr (sync_report r True None None), d')"
    using e(1) texts [simplified] by (simp add: sync_backup_def toy_login_def toy_ensure_def r bind_act_def ret_def attempt_def)
  ultimately have run: "syncFscpOnLogin toy_server toy_login toy_kept_device = (Inr (sync_report r True None None), d')"
    using r(1) start
    by (simp add: syncFscpOnLogin_def toy_login_def texts [simplified] bind_act_def note_snapshot_def attempt_def Let_def)
  have "Put_backup b \<notin> set (dv_log toy_kept_device)" by (simp add: toy_kept_device_def toy_device_def)
  from run login_writes_proven_backup [OF run e(2) this] show ?thesis by blast
qed

end
