(* ===== verification/Spec2Isabelle.thy ===== *)
theory Spec2Isabelle
  imports Econ_Client Fgce_Engine Fgce_Calls Chat_Server Chat_Isolation Auth_World Auth_Fetch
    Signals_Connection Presence_Store Presence_Activity Personhood_Report Auth_BirthDate
    Fscp_Session Fscp_KeySync
begin

text \<open>
  Flora: a verification library for the client libraries of the ecosystem.

  The repository holds applications (web, mobile, government portal), a Rust backend and products with
  their own protocols. The logic that the applications share and that must be right on every device is
  TypeScript code in \<open>packages/flora-client-core/src\<close> and in the libraries under \<open>products\<close>. This library
  models it from the source, with the code it talks to as far as a contract needs it.

  \<^bold>\<open>The economy client\<close> (\<open>packages/flora-client-core/src/economy\<close>). The server publishes a journal of value
  transfers as a Merkle tree; the client checks what it is told. \<open>Econ_Encoding\<close> models \<open>encoding.ts\<close> and
  \<open>amounts.ts\<close>, \<open>Econ_Canonical\<close> the byte writer of \<open>canonical.ts\<close>, \<open>Econ_Ledger\<close> the journal types,
  consensus bytes, signing bytes and strict parsers of \<open>ledger.ts\<close>, \<open>domainTags.ts\<close> and \<open>hash.ts\<close>,
  \<open>Econ_Merkle\<close> and \<open>Econ_Consistency\<close> the verification of \<open>merkle.ts\<close>, \<open>Econ_Client\<close> the signatures,
  witnesses, light client and wallet (\<open>sign.ts\<close>, \<open>witness.ts\<close>, \<open>lightClient.ts\<close>, \<open>wallet.ts\<close>). The theorems
  show that an accepted inclusion proof identifies the entry, that an accepted consistency proof means a
  prefix, that a head is only replaced by an extension, that the replay of a journal is tamper evident, and
  that bytes under a hash or a signature determine what they stand for. That equal hashes come from equal
  bytes is an explicit hypothesis on the bytes that occur.

  \<^bold>\<open>The graphics binding\<close> (\<open>products/fgce/bindings/ts/src\<close>). A facade encodes a call into linear memory of a
  wasm module, submits it and decodes the answer. \<open>Fgce_Wire\<close> models the \<open>Writer\<close> and \<open>Reader\<close> of
  \<open>protocol.ts\<close> (growing buffer, deferred blobs, patches), \<open>Fgce_Protocol\<close> its request types and encoders,
  \<open>Fgce_Decode\<close> the response decoder, \<open>Fgce_Engine\<close> the class of \<open>engine.ts\<close> with its memory discipline. The
  decoder of the Rust adapter \<open>fgce-wasm/src/wire.rs\<close> is \<open>Fgce_Host\<close>; \<open>Fgce_Roundtrip\<close> and \<open>Fgce_Calls\<close>
  prove field by field and then for every call that it reads what the binding wrote, that it rejects the boxes
  with children (the two sides disagree on the length of the list), and which options the binding never
  writes. The interfaces are the locales \<open>piece_sink\<close>, \<open>byte_source\<close> and \<open>piece_codec\<close>, interpreted on the
  TypeScript writer and reader and on the Rust reader.

  \<^bold>\<open>The chat organizer\<close> (\<open>packages/flora-client-core/src/messaging\<close>). Folders, archive and mute marks of a user
  are one encrypted blob on the server, kept consistent between devices by revisions. \<open>Chat_Folders\<close> models
  \<open>chatListFolders.ts\<close>, \<open>Chat_Organizer\<close> \<open>chatOrganizerMap.ts\<close> and the intents of \<open>chatOrganizerSession.ts\<close>
  with their undo, \<open>Chat_Put\<close> the save with its conflict retries (\<open>putState\<close>), \<open>Chat_Session\<close> the session
  (snapshot, store, write queue, refreshes, public calls). \<open>Chat_Isolation\<close> proves, over all orders of calls and
  replies, that the stores of different owners are kept apart, that a refresh never rolls the revision back, and
  that a stored save is the content it was based on with exactly the change that was asked for; and it shows races on
  concrete executions. \<open>Chat_Server\<close> adds the envelope checks of \<open>products/FSCP/ts/src/chatOrganizer.ts\<close> and the
  compare-and-set of the server's row (\<open>flora-chat-organizer/src/infrastructure/mod.rs\<close>), and proves
  that a retried save is atomic.

  \<^bold>\<open>Sessions of the API client\<close> (\<open>packages/flora-client-core/src/api\<close>). \<open>Auth_Coordinator\<close> models
  \<open>sessionCoordinator.ts\<close>, \<open>Auth_Fetch\<close> the authorized requests of \<open>client.ts\<close>. \<open>Auth_Refresh\<close> proves that a
  refresh ends, sends the refresh token at most twice and keeps a rotated token when the commit fails;
  \<open>Auth_World\<close> that a session is only cleared after a refusal, and, for stores with the atomic bridge and with
  other writers, that a commit replaces the very snapshot whose token was sent. \<open>Auth_BirthDate\<close> is the mask of
  \<open>auth/birthDateMask.ts\<close>.

  \<^bold>\<open>Signals and presence\<close> (\<open>packages/flora-client-core/src/signals\<close>, \<open>presence\<close>). \<open>Json_Read\<close> holds the readers of
  \<open>contracts/parse.ts\<close>; \<open>Signals_Stream\<close> and \<open>Signals_Connection\<close> model \<open>stream.ts\<close>: how the text is cut does not
  matter, the connection never gives up and follows a protocol of five states. \<open>Presence_Store\<close> models \<open>store.ts\<close>: the
  server is told the peers on display, which a function of the calls alone defines. \<open>Presence_Activity\<close> models typing
  signals and heartbeats.

  \<^bold>\<open>Personhood\<close> (\<open>packages/flora-client-core/src/personhood\<close>). \<open>Personhood_Metrics\<close> and \<open>Personhood_Report\<close> model
  the metrics of a device, the code registries (locale \<open>code_registry\<close>) and the report of an epoch.

  \<^bold>\<open>Encrypted messages\<close> (\<open>products/FSCP/ts/src\<close>). \<open>Json_Text\<close> is \<open>JSON.stringify\<close> and \<open>JSON.parse\<close>, \<open>Fscp_Canonical\<close>
  \<open>canonicalJson.ts\<close>, \<open>Fscp_Base64\<close> \<open>base64url.ts\<close>, \<open>Fscp_Ids\<close> \<open>deriveIds.ts\<close>, \<open>Fscp_Frames\<close> the lines of \<open>aad.ts\<close>,
  \<open>franking.ts\<close> and \<open>safetyNumber.ts\<close>, \<open>Fscp_Plaintext\<close> and \<open>Fscp_Envelope\<close> \<open>envelope.ts\<close> with \<open>rke.ts\<close>: a message
  is read by both members, a line determines what it binds, padding hides the length, and forged or unsigned
  envelopes are rejected without harm to the session. \<open>Fscp_Session\<close> is \<open>conversationSession.ts\<close>, \<open>Fscp_Retry\<close>
  \<open>resilience.ts\<close>. \<open>Fscp_Backup\<close> models the password backups of \<open>keyBackup.ts\<close>, \<open>Fscp_Bootstrap\<close> \<open>bootstrap.ts\<close> with
  \<open>keys.ts\<close>, \<open>Fscp_KeySync\<close> \<open>syncOnLogin.ts\<close>: a new identity is made only for a fresh account, ready keys are
  published, and a backup on the server is never overwritten unless it was proven bad or replaced by proven keys.

  \<open>Flora_Prelude\<close> is shared: strings of the language as lists of 16-bit code units (\<open>js_string\<close>), hex, error
  results, prefix codes and byte sinks (the locales \<open>prefix_code\<close> and \<open>byte_sink\<close>), list and word lemmas. \<open>Flora_Text\<close>
  holds the UTF-8 decoder.

  \<^bold>\<open>Conventions.\<close> A thrown error is the left of a sum, \<open>None\<close>, or an error value of the component; a function that
  gives back its argument to signal \<open>no change\<close> returns \<open>Unchanged\<close>. An asynchronous function is cut at its
  \<open>await\<close>s: the model holds what is waited for and events bring the replies in any order, so a theorem
  on runs holds for every interleaving; the key protocol is a program of requests run against arbitrary answers.
  Specifications that are no code (what is on display, what a change asks for, what a result under a deadline
  means, the trace of a refresh, the history of a store) are told apart from the code they judge, and the
  manifest maps only the latter to lines.

  \<^bold>\<open>Bounds and fuel.\<close> Numbers that the code keeps in 32 bits are words or reduced explicitly; other numbers are
  integers, and the readers of 64-bit fields round to 53-bit doubles as the language does. The Merkle split shifts
  a 32-bit number, so the theorems on trees hold up to 2^30 leaves, and a theorem shows that the loop diverges
  above. Loops are total functions with termination proofs. Fuel occurs only in theorems that run a component
  against an environment: sixteen replies for a save, eleven for a refresh, both proved to be enough.
  Lower-casing is modelled on the ASCII letters; keys of flag records are identifiers, never names an object inherits.
  In \<open>Json_Text\<close> a number with a fraction is the single value \<open>JFrac\<close> without a text, and what would need its
  text has an outcome of its own; theorems on texts are for integers of at most 53 bits.

  \<^bold>\<open>Parameters.\<close> SHA-256, HMAC, HKDF, Argon2id, X25519, Ed25519, XChaCha20-Poly1305, BLAKE3, the random source, the
  uuid hash, the exports of the wasm module, the graphics kernel, the clock of the host, and the answers of HTTP
  and of storage are arguments of the definitions or replies of the environment. Where a theorem needs their documented
  behaviour, a predicate states it (\<open>crypto_laws\<close>, \<open>signing_key_ok\<close>, \<open>unforgeable\<close>, \<open>key_library_laws\<close>, \<open>well_served\<close>), and
  its witness satisfies it with a concrete library. The envelope of the organizer is taken as its content.

  \<^bold>\<open>Not modelled.\<close> HTTP wrappers and the field-by-field parsers of answers; the wasm bridge of the economy and the
  loading of the graphics module; listeners, telemetry and the reconciliation of archive marks with the server's flags
  (recorded as calls); of the key protocol the recovery phrase backups, device recovery, group keys, franking
  bundles and notification previews; the applications (pages, views, native modules), the Rust backend but for
  the two files named above, and the tooling. The manifest lists each with its reason.
\<close>

end
